(* ===== verification/Prelude.thy ===== *)
theory Prelude
  imports Main "HOL-Library.Word" "HOL-Library.Monad_Syntax"
begin

text \<open>
  What the components share: the C integer types, the abort convention, network byte
  order, and the list and word lemmas that the component proofs use.

  Conventions of the whole development. A C \<open>int\<close>, \<open>time_t\<close> or \<open>size_t\<close> that the
  code keeps far from its limits is an \<open>int\<close> or \<open>nat\<close>; the types whose wrap-around the
  code relies on (packet ids, header words, hash values, addresses, checksums) are words.
  A computation of type \<open>'a option\<close> that models a C function body is \<open>None\<close> exactly
  where the process would stop in \<open>ASSERT\<close> or \<open>msg(M_FATAL, ..)\<close>, or where the C code
  would read outside an object. A theorem that such a function returns \<open>Some\<close> therefore
  says that no assertion fails and no access leaves its object.
\<close>

unbundle bit_operations_syntax

type_synonym u8 = "8 word"
type_synonym u16 = "16 word"
type_synonym u32 = "32 word"
type_synonym u64 = "64 word"

named_theorems abs_simps \<open>how each operation acts on the abstract view of its state\<close>
named_theorems wf_intros \<open>operations keep the well-formedness of their state\<close>

section \<open>Aborts\<close>

text \<open>\<open>ASSERT(x)\<close> of error.h: the process exits when \<open>x\<close> is false.\<close>

definition ASSERT :: "bool \<Rightarrow> unit option" where
  "ASSERT b = (if b then Some () else None)"

lemma ASSERT_simps [simp]: "ASSERT True = Some ()" "ASSERT False = None"
  by (simp_all add: ASSERT_def)

lemma ASSERT_eq_Some [simp]: "ASSERT b = Some u \<longleftrightarrow> b"
  by (simp add: ASSERT_def)

text \<open>A read through a pointer into an array: \<open>None\<close> outside the array.\<close>

definition nth_opt :: "'a list \<Rightarrow> int \<Rightarrow> 'a option" where
  "nth_opt xs i = (if 0 \<le> i \<and> i < int (length xs) then Some (xs ! nat i) else None)"

definition upd_opt :: "'a list \<Rightarrow> int \<Rightarrow> 'a \<Rightarrow> 'a list option" where
  "upd_opt xs i v = (if 0 \<le> i \<and> i < int (length xs) then Some (xs[nat i := v]) else None)"

lemma nth_opt_Some [simp]: "0 \<le> i \<Longrightarrow> i < int (length xs) \<Longrightarrow> nth_opt xs i = Some (xs ! nat i)"
  by (simp add: nth_opt_def)

lemma upd_opt_Some [simp]:
  "0 \<le> i \<Longrightarrow> i < int (length xs) \<Longrightarrow> upd_opt xs i v = Some (xs[nat i := v])"
  by (simp add: upd_opt_def)

lemma nth_opt_eq_SomeD: "nth_opt xs i = Some x \<Longrightarrow> 0 \<le> i \<and> i < int (length xs) \<and> x = xs ! nat i"
  by (auto simp: nth_opt_def split: if_splits)

section \<open>Overwriting a stretch of memory\<close>

text \<open>\<open>memcpy(xs + i, bs, length bs)\<close> on the bytes \<open>xs\<close> of one object.\<close>

definition overlay :: "'a list \<Rightarrow> nat \<Rightarrow> 'a list \<Rightarrow> 'a list" where
  "overlay xs i bs = take i xs @ bs @ drop (i + length bs) xs"

lemma length_overlay [simp]: "i + length bs \<le> length xs \<Longrightarrow> length (overlay xs i bs) = length xs"
  by (simp add: overlay_def)

lemma overlay_Nil [simp]: "overlay xs i [] = xs"
  by (simp add: overlay_def)

lemma take_drop_overlay_same:
  "i + length bs \<le> length xs \<Longrightarrow> take (length bs) (drop i (overlay xs i bs)) = bs"
  by (simp add: overlay_def)

lemma nth_overlay:
  "i + length bs \<le> length xs \<Longrightarrow> j < length xs \<Longrightarrow>
   overlay xs i bs ! j = (if i \<le> j \<and> j < i + length bs then bs ! (j - i) else xs ! j)"
  by (auto simp: overlay_def nth_append min_def)

text \<open>Appending behind, or putting in front of, the stretch \<open>[o, o + l)\<close>.\<close>

lemma take_drop_overlay_behind:
  assumes "o' + l + length bs \<le> length xs"
  shows "take (l + length bs) (drop o' (overlay xs (o' + l) bs)) = take l (drop o' xs) @ bs"
  using assms by (simp add: overlay_def drop_take)

lemma take_drop_overlay_front:
  assumes "length bs \<le> o'" "o' + l \<le> length xs"
  shows "take (length bs + l) (drop (o' - length bs) (overlay xs (o' - length bs) bs)) =
    bs @ take l (drop o' xs)"
  using assms by (simp add: overlay_def)

section \<open>Network byte order\<close>

text \<open>
  \<open>htons\<close>, \<open>htonl\<close>, \<open>htonll\<close> followed by a copy of the integer's bytes put the most
  significant byte first; a copy into an integer followed by \<open>ntohl\<close> reads it back.
\<close>

definition be16 :: "u16 \<Rightarrow> u8 list" where
  "be16 x = [ucast (drop_bit 8 x), ucast x]"

definition be32 :: "u32 \<Rightarrow> u8 list" where
  "be32 x = [ucast (drop_bit 24 x), ucast (drop_bit 16 x), ucast (drop_bit 8 x), ucast x]"

definition be64 :: "u64 \<Rightarrow> u8 list" where
  "be64 x = be32 (ucast (drop_bit 32 x)) @ be32 (ucast x)"

definition rd16 :: "u8 \<Rightarrow> u8 \<Rightarrow> u16" where
  "rd16 a b = push_bit 8 (ucast a) OR ucast b"

fun of_be16 :: "u8 list \<Rightarrow> u16" where
  "of_be16 [a, b] = rd16 a b"
| "of_be16 _ = 0"

fun of_be32 :: "u8 list \<Rightarrow> u32" where
  "of_be32 [a, b, c, d] =
     push_bit 24 (ucast a) OR push_bit 16 (ucast b) OR push_bit 8 (ucast c) OR ucast d"
| "of_be32 _ = 0"

definition of_be64 :: "u8 list \<Rightarrow> u64" where
  "of_be64 bs = push_bit 32 (ucast (of_be32 (take 4 bs))) OR ucast (of_be32 (drop 4 bs))"

lemma length_be [simp]: "length (be16 x) = 2" "length (be32 y) = 4" "length (be64 z) = 8"
  by (simp_all add: be16_def be32_def be64_def)

lemma of_be16_be16 [simp]: "of_be16 (be16 x) = x"
  by (rule bit_word_eqI) (auto simp: be16_def rd16_def bit_simps)

lemma of_be32_be32 [simp]: "of_be32 (be32 x) = x"
proof (rule bit_word_eqI)
  fix n
  assume n: "n < LENGTH(32)"
  consider "n < 8" | "8 \<le> n" "n < 16" | "16 \<le> n" "n < 24" | "24 \<le> n" by linarith
  then show "bit (of_be32 (be32 x)) n = bit x n"
    using n by cases (auto simp: be32_def bit_simps)
qed

lemma of_be64_be64 [simp]: "of_be64 (be64 x) = x"
proof -
  have "of_be64 (be64 x) = push_bit 32 (ucast (ucast (drop_bit 32 x) :: u32)) OR ucast (ucast x :: u32)"
    by (simp add: of_be64_def be64_def)
  also have "\<dots> = x"
    by (rule bit_word_eqI) (auto simp: bit_simps)
  finally show ?thesis .
qed

section \<open>Counting in a word\<close>

lemma unat_succ_less:
  fixes i t :: "'a :: len word"
  assumes "i < t"
  shows "unat (i + 1) = unat i + 1"
proof -
  have "unat t < 2 ^ LENGTH('a)" by (rule unsigned_less)
  moreover have "unat i < unat t" using assms by (simp add: word_less_nat_alt)
  ultimately have "unat i + 1 < 2 ^ LENGTH('a)" by linarith
  then show ?thesis by (simp add: unat_word_ariths)
qed

lemma unat_succ_nonzero: "i + 1 \<noteq> 0 \<Longrightarrow> unat (i + 1) = unat (i :: 'a :: len word) + 1"
  using unatSuc [of i] by (simp add: add.commute)

lemma sint_eq_unat:
  fixes w :: "'a :: len word"
  assumes "unat w < 2 ^ (LENGTH('a) - Suc 0)"
  shows "sint w = int (unat w)"
proof -
  have "uint w = int (unat w)" by simp
  moreover have "int (unat w) < 2 ^ (LENGTH('a) - Suc 0)"
    using assms by (metis of_nat_less_iff of_nat_numeral of_nat_power)
  moreover have "- (2 ^ (LENGTH('a) - Suc 0)) \<le> int (unat w)"
    by (rule order_trans [of _ 0]) simp_all
  ultimately show ?thesis unfolding sint_uint by (metis signed_take_bit_int_eq_self)
qed

lemma unat_ucast_small:
  "unat w < 2 ^ LENGTH('b) \<Longrightarrow> unat (ucast (w :: 'a :: len word) :: 'b :: len word) = unat w"
  by (simp add: unsigned_ucast_eq take_bit_nat_eq_self)

end
