(* ===== verification/CInteger.thy ===== *)
theory CInteger
  imports Prelude
begin

text \<open>
  integer.h: minima, clamping, arithmetic on a circle and the power-of-two rounding.
  The circle arithmetic carries the \<open>ASSERT\<close>s of the code.
\<close>

definition min_int :: "int \<Rightarrow> int \<Rightarrow> int" where
  "min_int x y = (if x < y then x else y)"

definition max_int :: "int \<Rightarrow> int \<Rightarrow> int" where
  "max_int x y = (if x > y then x else y)"

definition constrain_int :: "int \<Rightarrow> int \<Rightarrow> int \<Rightarrow> int" where
  "constrain_int x lo hi =
     (if lo > hi then lo else if x < lo then lo else if x > hi then hi else x)"

lemma min_int_eq [simp]: "min_int x y = min x y"
  by (simp add: min_int_def)

lemma max_int_eq [simp]: "max_int x y = max x y"
  by (simp add: max_int_def)

text \<open>
  The sum of two \<open>int\<close>s where nothing bounds it: it wraps around. (The standard leaves the
  overflow undefined; on the machines the code runs on it is that of two's complement.)
\<close>

definition int_add :: "int \<Rightarrow> int \<Rightarrow> int" where
  "int_add x y = sint (word_of_int (x + y) :: 32 word)"

lemma int_add_take_bit: "int_add x y = signed_take_bit 31 (x + y)"
proof -
  have "sint (word_of_int k :: 32 word) = signed_take_bit 31 k" for k by (simp add: signed_of_int)
  then show ?thesis by (simp only: int_add_def)
qed

lemma int_add_id: "- (2 ^ 31) \<le> x + y \<Longrightarrow> x + y < 2 ^ 31 \<Longrightarrow> int_add x y = x + y"
  unfolding int_add_take_bit by (rule signed_take_bit_int_eq_self)

lemma int_add_le: "0 \<le> x + y \<Longrightarrow> int_add x y \<le> x + y"
proof -
  assume "0 \<le> x + y"
  then have "take_bit 32 (x + y) \<le> x + y" by (simp add: take_bit_int_less_eq_self_iff)
  then show ?thesis by (simp add: int_add_take_bit signed_take_bit_eq_take_bit_minus)
qed

lemma int_add_add: "int_add (int_add x y) z = int_add (x + y) z"
  by (simp add: int_add_def)

lemma constrain_int_range: "lo \<le> hi \<Longrightarrow> lo \<le> constrain_int x lo hi \<and> constrain_int x lo hi \<le> hi"
  by (simp add: constrain_int_def)

definition modulo_subtract :: "int \<Rightarrow> int \<Rightarrow> int \<Rightarrow> int option" where
  "modulo_subtract x y m =
     (let d1 = x - y; d2 = (if x > y then - m else m) + d1 in
      do { _ \<leftarrow> ASSERT (0 \<le> x \<and> x < m \<and> 0 \<le> y \<and> y < m);
           Some (if \<bar>d1\<bar> > \<bar>d2\<bar> then d2 else d1) })"

definition modulo_add :: "int \<Rightarrow> int \<Rightarrow> int \<Rightarrow> int option" where
  "modulo_add x y m =
     (let sum = x + y in
      do { _ \<leftarrow> ASSERT (0 \<le> x \<and> x < m \<and> - m \<le> y \<and> y \<le> m);
           let sum = (if sum \<ge> m then sum - m else sum);
           Some (if sum < 0 then sum + m else sum) })"

text \<open>The circle: on their domain the two are addition and a subtraction modulo \<open>m\<close>.\<close>

lemma modulo_add_Some:
  assumes "0 \<le> x" "x < m" "- m \<le> y" "y \<le> m"
  shows "modulo_add x y m = Some ((x + y) mod m)"
proof -
  have "(x + y) mod m = (if x + y \<ge> m then x + y - m else if x + y < 0 then x + y + m else x + y)"
  proof (cases "x + y \<ge> m")
    case True
    then have "(x + y) mod m = (x + y - m) mod m" by simp
    also have "\<dots> = x + y - m" using assms True by (intro mod_pos_pos_trivial) auto
    finally show ?thesis using True by simp
  next
    case False
    show ?thesis
    proof (cases "x + y < 0")
      case True
      have "(x + y) mod m = (x + y + m) mod m" by simp
      also have "\<dots> = x + y + m" using assms True by (intro mod_pos_pos_trivial) auto
      finally show ?thesis using True False by simp
    qed (use False in simp)
  qed
  then show ?thesis using assms by (auto simp: modulo_add_def Let_def)
qed

lemma mod_circle:
  fixes a m :: int
  shows "(m + a) mod m = a mod m" "(a - m) mod m = a mod m" "(a + m) mod m = a mod m"
    "(- m + a) mod m = a mod m"
  by simp_all

lemma modulo_subtract_Some:
  assumes "0 \<le> x" "x < m" "0 \<le> y" "y < m"
  shows "\<exists>d. modulo_subtract x y m = Some d \<and> d mod m = (x - y) mod m \<and> 2 * \<bar>d\<bar> \<le> m"
proof -
  define d1 where "d1 = x - y"
  define d2 where "d2 = (if x > y then - m else m) + d1"
  have "modulo_subtract x y m = Some (if \<bar>d1\<bar> > \<bar>d2\<bar> then d2 else d1)"
    using assms by (simp add: modulo_subtract_def d1_def d2_def Let_def)
  moreover have "d2 mod m = d1 mod m" by (simp add: d2_def mod_circle)
  moreover have "2 * \<bar>if \<bar>d1\<bar> > \<bar>d2\<bar> then d2 else d1\<bar> \<le> m"
    using assms by (auto simp: d1_def d2_def)
  ultimately show ?thesis by (auto simp: d1_def)
qed

lemma modulo_subtract_bounds:
  "modulo_subtract x y m = Some d \<Longrightarrow>
   0 \<le> x \<and> x < m \<and> 0 \<le> y \<and> y < m \<and> d mod m = (x - y) mod m \<and> 2 * \<bar>d\<bar> \<le> m"
  using modulo_subtract_Some [of x m y]
  by (auto simp: modulo_subtract_def Let_def ASSERT_def split: if_splits)

text \<open>
  \<open>adjust_power_of_2\<close>: \<open>ret\<close> is 1 shifted left \<open>k\<close> times in a 64 bit \<open>size_t\<close>; the
  \<open>ASSERT(ret > 0)\<close> catches the shift that drops the bit.
\<close>

function pow2_loop :: "nat \<Rightarrow> nat \<Rightarrow> nat option" where
  "pow2_loop k u =
     (if 2 ^ k mod 2 ^ 64 < u then
        (if 2 ^ Suc k mod (2 ^ 64 :: nat) > 0 then pow2_loop (Suc k) u else None)
      else Some (2 ^ k mod 2 ^ 64))"
  by pat_completeness auto
termination
proof (relation "measure (\<lambda>(k, u). 64 - k)", goal_cases)
  case (2 k u)
  have "k < 64"
  proof (rule ccontr)
    assume "\<not> k < 64"
    then have "(2::nat) ^ 64 dvd 2 ^ Suc k" by (intro le_imp_power_dvd) simp
    with 2 show False by (simp add: dvd_eq_mod_eq_0)
  qed
  then show ?case by simp
qed simp

declare pow2_loop.simps [simp del]

definition adjust_power_of_2 :: "nat \<Rightarrow> nat option" where
  "adjust_power_of_2 u = pow2_loop 0 u"

lemma pow2_loop_Some:
  assumes "u \<le> 2 ^ 63" "k \<le> 63" "\<And>j. j < k \<Longrightarrow> 2 ^ j < u"
  shows "\<exists>j. pow2_loop k u = Some (2 ^ j) \<and> j \<le> 63 \<and> u \<le> 2 ^ j \<and> (\<forall>i<j. 2 ^ i < u)"
  using assms
proof (induction k u rule: pow2_loop.induct)
  case (1 k u)
  have small: "2 ^ k mod (2 ^ 64 :: nat) = 2 ^ k" using "1.prems"(2)
    by (intro mod_less power_strict_increasing) auto
  show ?case
  proof (cases "2 ^ k < u")
    case True
    with "1.prems"(1) have "(2::nat) ^ k < 2 ^ 63" by linarith
    then have k: "k < 63" by (rule power_less_imp_less_exp [rotated]) simp
    then have pos: "2 ^ Suc k mod (2 ^ 64 :: nat) = 2 ^ Suc k"
      by (intro mod_less power_strict_increasing) auto
    have "\<exists>j. pow2_loop (Suc k) u = Some (2 ^ j) \<and> j \<le> 63 \<and> u \<le> 2 ^ j \<and> (\<forall>i<j. 2 ^ i < u)"
    proof (rule "1.IH")
      show "2 ^ k mod 2 ^ 64 < u" using True small by simp
      show "0 < 2 ^ Suc k mod (2 ^ 64 :: nat)" using pos by simp
      show "2 ^ j < u" if "j < Suc k" for j using that True "1.prems"(3) by (auto simp: less_Suc_eq)
    qed (use "1.prems" k in auto)
    moreover have "pow2_loop k u = pow2_loop (Suc k) u"
      using True small pos by (subst pow2_loop.simps) simp
    ultimately show ?thesis by simp
  next
    case False
    then have "pow2_loop k u = Some (2 ^ k)"
      using small by (subst pow2_loop.simps) simp
    with False "1.prems" show ?thesis by (intro exI [of _ k]) auto
  qed
qed

lemma adjust_power_of_2_Some:
  "u \<le> 2 ^ 63 \<Longrightarrow>
   \<exists>j. adjust_power_of_2 u = Some (2 ^ j) \<and> j \<le> 63 \<and> u \<le> 2 ^ j \<and> (\<forall>i<j. 2 ^ i < u)"
  unfolding adjust_power_of_2_def by (rule pow2_loop_Some) auto

end
