(* ===== verification/Buffers.thy ===== *)
theory Buffers
  imports CInteger
begin

text \<open>
  buffer.h and buffer.c: \<open>struct buffer\<close>, a window of \<open>len\<close> bytes at \<open>offset\<close> into
  \<open>capacity\<close> bytes of memory. \<open>b_data\<close> is \<open>None\<close> for a null pointer. A pointer into the
  memory (\<open>BPTR\<close>, the result of \<open>buf_prepend\<close>, ...) is its index, \<open>None\<close> for null.
  A function that returns \<open>bool\<close> and changes its buffer returns both.

  \<open>buf_rep b h c r\<close> is the abstract view: \<open>b\<close> is well formed, \<open>h\<close> bytes are free in front
  of the content \<open>c\<close> and \<open>r\<close> bytes behind it. The locale \<open>byte_deque\<close> at the end is the
  interface that the packet formats are built on.
\<close>

record buffer =
  b_capacity :: int
  b_offset :: int
  b_len :: int
  b_data :: "u8 list option"

definition BUF_SIZE_MAX :: int where
  "BUF_SIZE_MAX = 1000000"

section \<open>Inspection\<close>

definition clear_buf :: buffer where
  "clear_buf = \<lparr>b_capacity = 0, b_offset = 0, b_len = 0, b_data = None\<rparr>"

definition buf_defined :: "buffer \<Rightarrow> bool" where
  "buf_defined b \<longleftrightarrow> b_data b \<noteq> None"

definition buf_valid :: "buffer \<Rightarrow> bool" where
  "buf_valid b \<longleftrightarrow> b_data b \<noteq> None \<and> b_len b \<ge> 0"

definition buf_bptr :: "buffer \<Rightarrow> int option" where
  "buf_bptr b = (if buf_valid b then Some (b_offset b) else None)"

definition buf_len :: "buffer \<Rightarrow> int" where
  "buf_len b = (if buf_valid b then b_len b else 0)"

definition buf_bend :: "buffer \<Rightarrow> int option" where
  "buf_bend b = map_option (\<lambda>p. p + buf_len b) (buf_bptr b)"

definition buf_blast :: "buffer \<Rightarrow> int option" where
  "buf_blast b = (if buf_len b > 0 then map_option (\<lambda>p. p + buf_len b - 1) (buf_bptr b) else None)"

definition buf_size_valid :: "int \<Rightarrow> bool" where
  "buf_size_valid sz \<longleftrightarrow> sz < BUF_SIZE_MAX"

definition buf_size_valid_signed :: "int \<Rightarrow> bool" where
  "buf_size_valid_signed sz \<longleftrightarrow> sz \<ge> - BUF_SIZE_MAX \<and> sz < BUF_SIZE_MAX"

definition buf_safe :: "buffer \<Rightarrow> nat \<Rightarrow> bool" where
  "buf_safe b n \<longleftrightarrow> buf_valid b \<and> buf_size_valid (int n) \<and>
     b_offset b + b_len b + int n \<le> b_capacity b"

definition buf_safe_bidir :: "buffer \<Rightarrow> int \<Rightarrow> bool" where
  "buf_safe_bidir b n =
     (if buf_valid b \<and> buf_size_valid_signed n
      then (let newlen = b_len b + n in newlen \<ge> 0 \<and> b_offset b + newlen \<le> b_capacity b)
      else False)"

definition buf_forward_capacity :: "buffer \<Rightarrow> int" where
  "buf_forward_capacity b =
     (if buf_valid b
      then (let ret = b_capacity b - (b_offset b + b_len b) in if ret < 0 then 0 else ret)
      else 0)"

definition buf_forward_capacity_total :: "buffer \<Rightarrow> int" where
  "buf_forward_capacity_total b =
     (if buf_valid b then (let ret = b_capacity b - b_offset b in if ret < 0 then 0 else ret) else 0)"

definition buf_reverse_capacity :: "buffer \<Rightarrow> int" where
  "buf_reverse_capacity b = (if buf_valid b then b_offset b else 0)"

text \<open>The bytes \<open>BPTR(b)[0 .. BLEN(b) - 1]\<close>.\<close>

definition buf_content :: "buffer \<Rightarrow> u8 list" where
  "buf_content b = (case b_data b of None \<Rightarrow> []
     | Some m \<Rightarrow> take (nat (buf_len b)) (drop (nat (b_offset b)) m))"

text \<open>\<open>memcpy(b->data + p, bs, length bs)\<close>.\<close>

definition mem_write :: "buffer \<Rightarrow> int \<Rightarrow> u8 list \<Rightarrow> buffer" where
  "mem_write b p bs = b\<lparr>b_data := map_option (\<lambda>m. overlay m (nat p) bs) (b_data b)\<rparr>"

section \<open>Creation and reset\<close>

definition alloc_buf :: "int \<Rightarrow> buffer option" where
  "alloc_buf sz = do {
     _ \<leftarrow> ASSERT (0 \<le> sz \<and> buf_size_valid sz);
     Some \<lparr>b_capacity = sz, b_offset = 0, b_len = 0, b_data = Some (replicate (nat sz) 0)\<rparr> }"

text \<open>\<open>clone_buf\<close>: \<open>malloc\<close> leaves the bytes around the content as it finds them (\<open>junk\<close>).\<close>

definition clone_buf :: "u8 list \<Rightarrow> buffer \<Rightarrow> buffer" where
  "clone_buf junk b = mem_write
     \<lparr>b_capacity = b_capacity b, b_offset = b_offset b, b_len = b_len b,
      b_data = Some (take (nat (b_capacity b)) (junk @ replicate (nat (b_capacity b)) 0))\<rparr>
     (b_offset b) (buf_content b)"

definition free_buf :: "buffer \<Rightarrow> buffer" where
  "free_buf b = clear_buf"

definition buf_clear :: "buffer \<Rightarrow> buffer" where
  "buf_clear b =
     (let b = (if b_capacity b > 0
               then b\<lparr>b_data := map_option (\<lambda>m. overlay m 0 (replicate (nat (b_capacity b)) 0)) (b_data b)\<rparr>
               else b)
      in b\<lparr>b_len := 0, b_offset := 0\<rparr>)"

definition buf_reset :: "buffer \<Rightarrow> buffer" where
  "buf_reset b = b\<lparr>b_capacity := 0, b_offset := 0, b_len := 0, b_data := None\<rparr>"

definition buf_reset_len :: "buffer \<Rightarrow> buffer" where
  "buf_reset_len b = b\<lparr>b_len := 0, b_offset := 0\<rparr>"

definition buf_init :: "buffer \<Rightarrow> int \<Rightarrow> bool \<times> buffer" where
  "buf_init b off =
     (if off < 0 \<or> off > b_capacity b \<or> b_data b = None then (False, b)
      else (True, b\<lparr>b_len := 0, b_offset := off\<rparr>))"

definition buf_set_read :: "u8 list \<Rightarrow> buffer option" where
  "buf_set_read bs = do {
     _ \<leftarrow> ASSERT (buf_size_valid (int (length bs)));
     Some \<lparr>b_capacity = int (length bs), b_offset = 0, b_len = int (length bs), b_data = Some bs\<rparr> }"

section \<open>Moving the window\<close>

definition buf_inc_len :: "buffer \<Rightarrow> int \<Rightarrow> bool \<times> buffer" where
  "buf_inc_len b inc =
     (if \<not> buf_safe_bidir b inc then (False, b) else (True, b\<lparr>b_len := b_len b + inc\<rparr>))"

definition buf_prepend :: "buffer \<Rightarrow> int \<Rightarrow> int option \<times> buffer" where
  "buf_prepend b sz =
     (if \<not> buf_valid b \<or> sz < 0 \<or> sz > b_offset b then (None, b)
      else (let b = b\<lparr>b_offset := b_offset b - sz, b_len := b_len b + sz\<rparr> in (buf_bptr b, b)))"

definition buf_advance :: "buffer \<Rightarrow> int \<Rightarrow> bool \<times> buffer" where
  "buf_advance b sz =
     (if \<not> buf_valid b \<or> sz < 0 \<or> b_len b < sz then (False, b)
      else (True, b\<lparr>b_offset := b_offset b + sz, b_len := b_len b - sz\<rparr>))"

definition buf_write_alloc :: "buffer \<Rightarrow> nat \<Rightarrow> int option \<times> buffer" where
  "buf_write_alloc b sz =
     (if \<not> buf_safe b sz then (None, b)
      else (map_option (\<lambda>p. p + b_len b) (buf_bptr b), b\<lparr>b_len := b_len b + int sz\<rparr>))"

definition buf_read_alloc :: "buffer \<Rightarrow> int \<Rightarrow> int option \<times> buffer" where
  "buf_read_alloc b sz =
     (if sz < 0 \<or> b_len b < sz then (None, b)
      else (buf_bptr b, b\<lparr>b_offset := b_offset b + sz, b_len := b_len b - sz\<rparr>))"

section \<open>Reading and writing\<close>

definition buf_write :: "buffer \<Rightarrow> u8 list \<Rightarrow> bool \<times> buffer" where
  "buf_write dest src =
     (case buf_write_alloc dest (length src) of
        (None, dest) \<Rightarrow> (False, dest)
      | (Some cp, dest) \<Rightarrow> (True, mem_write dest cp src))"

definition buf_write_prepend :: "buffer \<Rightarrow> u8 list \<Rightarrow> bool \<times> buffer" where
  "buf_write_prepend dest src =
     (case buf_prepend dest (int (length src)) of
        (None, dest) \<Rightarrow> (False, dest)
      | (Some cp, dest) \<Rightarrow> (True, mem_write dest cp src))"

definition buf_write_u8 :: "buffer \<Rightarrow> u8 \<Rightarrow> bool \<times> buffer" where
  "buf_write_u8 dest x = buf_write dest [x]"

definition buf_write_u16 :: "buffer \<Rightarrow> u16 \<Rightarrow> bool \<times> buffer" where
  "buf_write_u16 dest x = buf_write dest (be16 x)"

definition buf_write_u32 :: "buffer \<Rightarrow> u32 \<Rightarrow> bool \<times> buffer" where
  "buf_write_u32 dest x = buf_write dest (be32 x)"

definition buf_copy :: "buffer \<Rightarrow> buffer \<Rightarrow> bool \<times> buffer" where
  "buf_copy dest src = buf_write dest (buf_content src)"

definition buf_assign :: "buffer \<Rightarrow> buffer \<Rightarrow> bool \<times> buffer" where
  "buf_assign dest src =
     (case buf_init dest (b_offset src) of
        (False, dest) \<Rightarrow> (False, dest)
      | (True, dest) \<Rightarrow> buf_write dest (buf_content src))"

text \<open>The \<open>n\<close> bytes at index \<open>p\<close> of the buffer's memory.\<close>

definition mem_read :: "buffer \<Rightarrow> int \<Rightarrow> int \<Rightarrow> u8 list" where
  "mem_read b p n = (case b_data b of None \<Rightarrow> [] | Some m \<Rightarrow> take (nat n) (drop (nat p) m))"

definition buf_read :: "buffer \<Rightarrow> int \<Rightarrow> u8 list option \<times> buffer" where
  "buf_read src sz =
     (case buf_read_alloc src sz of
        (None, src) \<Rightarrow> (None, src)
      | (Some cp, src) \<Rightarrow> (Some (mem_read src cp sz), src))"

definition buf_copy_n :: "buffer \<Rightarrow> buffer \<Rightarrow> int \<Rightarrow> bool \<times> buffer \<times> buffer" where
  "buf_copy_n dest src n =
     (case buf_read_alloc src n of
        (None, src) \<Rightarrow> (False, dest, src)
      | (Some cp, src) \<Rightarrow>
          (case buf_write dest (mem_read src cp n) of (ok, dest) \<Rightarrow> (ok, dest, src)))"

text \<open>The caller's indices are not bounded by anything, so the sums of the check may wrap.\<close>

definition buf_copy_range :: "buffer \<Rightarrow> int \<Rightarrow> buffer \<Rightarrow> int \<Rightarrow> int \<Rightarrow> bool \<times> buffer" where
  "buf_copy_range dest dest_index src src_index src_len =
     (if src_index < 0 \<or> src_len < 0 \<or> int_add src_index src_len > b_len src
         \<or> dest_index < 0 \<or> int_add (int_add (b_offset dest) dest_index) src_len > b_capacity dest
      then (False, dest)
      else (let dest = mem_write dest (b_offset dest + dest_index)
                         (mem_read src (b_offset src + src_index) src_len)
            in (True, if int_add dest_index src_len > b_len dest
                      then dest\<lparr>b_len := int_add dest_index src_len\<rparr> else dest)))"

definition buf_copy_excess :: "buffer \<Rightarrow> buffer \<Rightarrow> int \<Rightarrow> bool \<times> buffer \<times> buffer" where
  "buf_copy_excess dest src n =
     (if n < 0 then (False, dest, src)
      else if b_len src > n then
        (case buf_advance src n of
           (False, _) \<Rightarrow> (False, dest, src\<lparr>b_len := n\<rparr>)
         | (True, b) \<Rightarrow> (case buf_copy dest b of (ok, dest) \<Rightarrow> (ok, dest, src\<lparr>b_len := n\<rparr>)))
      else (True, dest, src))"

definition buf_read_u8 :: "buffer \<Rightarrow> int \<times> buffer" where
  "buf_read_u8 b =
     (if buf_len b < 1 then (- 1, b)
      else (uint (hd (mem_read b (b_offset b) 1)), snd (buf_advance b 1)))"

definition buf_read_u16 :: "buffer \<Rightarrow> int \<times> buffer" where
  "buf_read_u16 b = (case buf_read b 2 of
     (None, b) \<Rightarrow> (- 1, b) | (Some bs, b) \<Rightarrow> (uint (of_be16 bs), b))"

definition buf_read_u32 :: "buffer \<Rightarrow> u32 \<times> bool \<times> buffer" where
  "buf_read_u32 b = (case buf_read b 4 of
     (None, b) \<Rightarrow> (0, False, b) | (Some bs, b) \<Rightarrow> (of_be32 bs, True, b))"

text \<open>
  \<open>buf_sub\<close> returns a second buffer over a stretch of the same memory. Here it gets a copy
  of the stretch and its place; \<open>buf_sub_sync\<close> is the aliasing, the bytes the sub-buffer
  has at the end seen through the outer buffer.
\<close>

definition buf_sub :: "buffer \<Rightarrow> nat \<Rightarrow> bool \<Rightarrow> buffer \<times> int option \<times> buffer" where
  "buf_sub b sz prepend =
     (case (if prepend then buf_prepend b (int sz) else buf_write_alloc b sz) of
        (None, b) \<Rightarrow> (clear_buf, None, b)
      | (Some p, b) \<Rightarrow>
          (\<lparr>b_capacity = int sz, b_offset = 0, b_len = 0, b_data = Some (mem_read b p (int sz))\<rparr>,
           Some p, b))"

definition buf_sub_sync :: "buffer \<Rightarrow> int \<Rightarrow> buffer \<Rightarrow> buffer" where
  "buf_sub_sync b p sub = (case b_data sub of None \<Rightarrow> b | Some m \<Rightarrow> mem_write b p m)"

section \<open>Comparisons\<close>

definition buf_equal :: "buffer \<Rightarrow> buffer \<Rightarrow> bool" where
  "buf_equal a b \<longleftrightarrow> buf_len a = buf_len b \<and> buf_content a = buf_content b"

definition buf_string_match :: "buffer \<Rightarrow> u8 list \<Rightarrow> bool" where
  "buf_string_match src match =
     (if int (length match) \<noteq> b_len src then False else buf_content src = match)"

definition buf_string_match_head :: "buffer \<Rightarrow> u8 list \<Rightarrow> bool" where
  "buf_string_match_head src match =
     (if int (length match) > b_len src then False
      else mem_read src (b_offset src) (int (length match)) = match)"

definition buf_string_compare_advance :: "buffer \<Rightarrow> u8 list \<Rightarrow> bool \<times> buffer" where
  "buf_string_compare_advance src match =
     (if buf_string_match_head src match
      then (True, snd (buf_advance src (int (length match)))) else (False, src))"

section \<open>Well-formedness and the abstract view\<close>

definition buf_wf :: "buffer \<Rightarrow> bool" where
  "buf_wf b \<longleftrightarrow> (case b_data b of
       None \<Rightarrow> b_capacity b = 0 \<and> b_offset b = 0 \<and> b_len b = 0
     | Some m \<Rightarrow> b_capacity b = int (length m) \<and> 0 \<le> b_offset b \<and> 0 \<le> b_len b \<and>
         b_offset b + b_len b \<le> b_capacity b)"

definition buf_rep :: "buffer \<Rightarrow> nat \<Rightarrow> u8 list \<Rightarrow> nat \<Rightarrow> bool" where
  "buf_rep b h c r \<longleftrightarrow> buf_wf b \<and> buf_defined b \<and> b_offset b = int h \<and> buf_content b = c \<and>
     b_capacity b = int (h + length c + r)"

lemma buf_rep_cases:
  assumes "buf_rep b h c r"
  obtains m where "b_data b = Some m" "length m = h + length c + r" "b_offset b = int h"
    "b_len b = int (length c)" "b_capacity b = int (h + length c + r)"
    "take (length c) (drop h m) = c"
proof -
  from assms obtain m where m: "b_data b = Some m" by (auto simp: buf_rep_def buf_defined_def)
  with assms have *: "b_capacity b = int (length m)" "0 \<le> b_len b" "b_offset b + b_len b \<le> b_capacity b"
    "b_offset b = int h" "take (nat (b_len b)) (drop h m) = c" "b_capacity b = int (h + length c + r)"
    by (auto simp: buf_rep_def buf_wf_def buf_content_def buf_len_def buf_valid_def)
  then have "nat (b_len b) \<le> length (drop h m)" by auto
  with *(5) have "length c = nat (b_len b)" by (metis length_take min_absorb2)
  with *(2) have l: "b_len b = int (length c)" "take (length c) (drop h m) = c" using *(5) by simp_all
  show ?thesis by (rule that [OF m]) (use * l in simp_all)
qed

lemma buf_repI:
  assumes "b_data b = Some m" "length m = h + length c + r" "b_offset b = int h"
    "b_len b = int (length c)" "b_capacity b = int (h + length c + r)"
    "take (length c) (drop h m) = c"
  shows "buf_rep b h c r"
  using assms by (simp add: buf_rep_def buf_wf_def buf_content_def buf_len_def buf_valid_def buf_defined_def)

lemma buf_rep_iff:
  "buf_rep b h c r \<longleftrightarrow> (\<exists>m. b_data b = Some m \<and> length m = h + length c + r \<and> b_offset b = int h \<and>
     b_len b = int (length c) \<and> b_capacity b = int (h + length c + r) \<and> take (length c) (drop h m) = c)"
  by (auto elim!: buf_rep_cases intro: buf_repI)

lemma buf_wf_rep: "buf_wf b \<Longrightarrow> buf_defined b \<Longrightarrow> \<exists>h c r. buf_rep b h c r"
  unfolding buf_rep_iff
  by (rule exI [of _ "nat (b_offset b)"], rule exI [of _ "buf_content b"],
      rule exI [of _ "nat (b_capacity b - b_offset b - b_len b)"])
    (auto simp: buf_wf_def buf_defined_def buf_content_def buf_len_def buf_valid_def)

lemma buf_rep_simps:
  assumes "buf_rep b h c r"
  shows "buf_content b = c" "buf_len b = int (length c)" "b_len b = int (length c)"
    "b_offset b = int h" "b_capacity b = int (h + length c + r)" "buf_valid b" "buf_defined b"
    "buf_bptr b = Some (int h)" "buf_forward_capacity b = int r"
    "buf_forward_capacity_total b = int (length c + r)" "buf_reverse_capacity b = int h" "buf_wf b"
  using assms
  by (auto elim!: buf_rep_cases simp: buf_content_def buf_len_def buf_valid_def buf_defined_def
      buf_bptr_def buf_forward_capacity_def buf_forward_capacity_total_def buf_reverse_capacity_def
      buf_wf_def Let_def)

section \<open>Each operation on the abstract view\<close>

lemma alloc_buf_rep:
  "0 \<le> n \<Longrightarrow> n < BUF_SIZE_MAX \<Longrightarrow> \<exists>b. alloc_buf n = Some b \<and> buf_rep b 0 [] (nat n)"
  by (simp add: alloc_buf_def buf_size_valid_def buf_rep_iff)

lemma buf_init_rep:
  assumes "buf_rep b h c r" "off \<le> h + length c + r"
  shows "fst (buf_init b (int off))"
    and "buf_rep (snd (buf_init b (int off))) off [] (h + length c + r - off)"
  using assms by (auto simp: buf_rep_iff buf_init_def)

lemma buf_write_rep [abs_simps]:
  assumes "buf_rep b h c r" "length bs \<le> r" "int (length bs) < BUF_SIZE_MAX"
  shows "fst (buf_write b bs)" "buf_rep (snd (buf_write b bs)) h (c @ bs) (r - length bs)"
proof -
  from assms(1) obtain m where m: "b_data b = Some m" "length m = h + length c + r"
    "b_offset b = int h" "b_len b = int (length c)" "b_capacity b = int (h + length c + r)"
    "take (length c) (drop h m) = c" by (auto simp: buf_rep_iff)
  let ?b = "b\<lparr>b_len := int (length c + length bs), b_data := Some (overlay m (h + length c) bs)\<rparr>"
  have w: "buf_write b bs = (True, ?b)"
    using m assms by (simp add: buf_write_def buf_write_alloc_def buf_safe_def buf_valid_def
        buf_size_valid_def buf_bptr_def mem_write_def nat_add_distrib)
  show "fst (buf_write b bs)" using w by simp
  have "take (length c + length bs) (drop h (overlay m (h + length c) bs)) = c @ bs"
    using m assms by (subst take_drop_overlay_behind) auto
  then show "buf_rep (snd (buf_write b bs)) h (c @ bs) (r - length bs)"
    using m assms unfolding w by (intro buf_repI [of _ "overlay m (h + length c) bs"]) auto
qed

lemma buf_write_full:
  assumes "buf_rep b h c r" "r < length bs"
  shows "buf_write b bs = (False, b)"
  using assms by (auto simp: buf_rep_iff buf_write_def buf_write_alloc_def buf_safe_def)

lemma buf_write_prepend_rep [abs_simps]:
  assumes "buf_rep b h c r" "length bs \<le> h"
  shows "fst (buf_write_prepend b bs)"
    "buf_rep (snd (buf_write_prepend b bs)) (h - length bs) (bs @ c) r"
proof -
  from assms(1) obtain m where m: "b_data b = Some m" "length m = h + length c + r"
    "b_offset b = int h" "b_len b = int (length c)" "b_capacity b = int (h + length c + r)"
    "take (length c) (drop h m) = c" by (auto simp: buf_rep_iff)
  let ?b = "b\<lparr>b_offset := int (h - length bs), b_len := int (length c + length bs),
              b_data := Some (overlay m (h - length bs) bs)\<rparr>"
  have w: "buf_write_prepend b bs = (True, ?b)"
    using m assms by (simp add: buf_write_prepend_def buf_prepend_def buf_valid_def
        buf_bptr_def mem_write_def Let_def of_nat_diff nat_diff_distrib)
  show "fst (buf_write_prepend b bs)" using w by simp
  have "take (length bs + length c) (drop (h - length bs) (overlay m (h - length bs) bs)) = bs @ c"
    using m assms by (subst take_drop_overlay_front) auto
  then show "buf_rep (snd (buf_write_prepend b bs)) (h - length bs) (bs @ c) r"
    using m assms unfolding w by (intro buf_repI [of _ "overlay m (h - length bs) bs"]) auto
qed

lemma buf_write_prepend_full:
  assumes "buf_rep b h c r" "h < length bs"
  shows "buf_write_prepend b bs = (False, b)"
  using assms by (auto simp: buf_rep_iff buf_write_prepend_def buf_prepend_def)

lemma buf_read_rep [abs_simps]:
  assumes "buf_rep b h (bs @ c) r"
  shows "fst (buf_read b (int (length bs))) = Some bs"
    "buf_rep (snd (buf_read b (int (length bs)))) (h + length bs) c r"
proof -
  from assms obtain m where m: "b_data b = Some m" "length m = h + length (bs @ c) + r"
    "b_offset b = int h" "b_len b = int (length (bs @ c))" "b_capacity b = int (h + length (bs @ c) + r)"
    "take (length (bs @ c)) (drop h m) = bs @ c" by (auto simp: buf_rep_iff)
  have c: "take (length bs) (drop h m) = bs"
    using arg_cong [OF m(6), of "take (length bs)"] by (simp add: min_def)
  have c': "take (length c) (drop (h + length bs) m) = c"
    using arg_cong [OF m(6), of "drop (length bs)"] by (simp add: drop_take add.commute)
  let ?b = "b\<lparr>b_offset := int (h + length bs), b_len := int (length c)\<rparr>"
  have w: "buf_read b (int (length bs)) = (Some bs, ?b)"
    using m c by (simp add: buf_read_def buf_read_alloc_def buf_bptr_def buf_valid_def mem_read_def)
  show "fst (buf_read b (int (length bs))) = Some bs" using w by simp
  show "buf_rep (snd (buf_read b (int (length bs)))) (h + length bs) c r"
    using m c' unfolding w by (intro buf_repI [of _ m]) auto
qed

lemma buf_read_short:
  assumes "buf_rep b h c r" "length c < n"
  shows "buf_read b (int n) = (None, b)"
  using assms by (auto simp: buf_rep_iff buf_read_def buf_read_alloc_def)

lemma buf_advance_rep [abs_simps]:
  assumes "buf_rep b h (bs @ c) r"
  shows "fst (buf_advance b (int (length bs)))"
    "buf_rep (snd (buf_advance b (int (length bs)))) (h + length bs) c r"
proof -
  have "buf_advance b (int (length bs)) = (True, snd (buf_read b (int (length bs))))"
    using assms by (auto simp: buf_rep_iff buf_advance_def buf_read_def buf_read_alloc_def
        buf_valid_def buf_bptr_def)
  then show "fst (buf_advance b (int (length bs)))"
    "buf_rep (snd (buf_advance b (int (length bs)))) (h + length bs) c r"
    using buf_read_rep(2) [OF assms] by auto
qed

section \<open>The interface the packet formats use\<close>

text \<open>
  What a byte buffer promises to code that builds and takes apart packets: bytes appended
  stand behind the content, bytes prepended in front of it, a read returns the front, and
  an operation that does not fit fails and changes nothing.
\<close>

locale byte_deque =
  fixes rep :: "'b \<Rightarrow> nat \<Rightarrow> u8 list \<Rightarrow> nat \<Rightarrow> bool"
    and append :: "'b \<Rightarrow> u8 list \<Rightarrow> bool \<times> 'b"
    and prepend :: "'b \<Rightarrow> u8 list \<Rightarrow> bool \<times> 'b"
    and consume :: "'b \<Rightarrow> int \<Rightarrow> u8 list option \<times> 'b"
  assumes append_ok: "rep b h c r \<Longrightarrow> length bs \<le> r \<Longrightarrow> int (length bs) < BUF_SIZE_MAX \<Longrightarrow>
      fst (append b bs) \<and> rep (snd (append b bs)) h (c @ bs) (r - length bs)"
    and append_full: "rep b h c r \<Longrightarrow> r < length bs \<Longrightarrow> append b bs = (False, b)"
    and prepend_ok: "rep b h c r \<Longrightarrow> length bs \<le> h \<Longrightarrow>
      fst (prepend b bs) \<and> rep (snd (prepend b bs)) (h - length bs) (bs @ c) r"
    and prepend_full: "rep b h c r \<Longrightarrow> h < length bs \<Longrightarrow> prepend b bs = (False, b)"
    and consume_ok: "rep b h (bs @ c) r \<Longrightarrow>
      fst (consume b (int (length bs))) = Some bs \<and>
      rep (snd (consume b (int (length bs)))) (h + length bs) c r"
    and consume_short: "rep b h c r \<Longrightarrow> length c < n \<Longrightarrow> consume b (int n) = (None, b)"
begin

lemma appendE:
  assumes "rep b h c r" "length bs \<le> r" "int (length bs) < BUF_SIZE_MAX"
  obtains b' where "append b bs = (True, b')" "rep b' h (c @ bs) (r - length bs)"
  using append_ok [OF assms] by (cases "append b bs") auto

lemma prependE:
  assumes "rep b h c r" "length bs \<le> h"
  obtains b' where "prepend b bs = (True, b')" "rep b' (h - length bs) (bs @ c) r"
  using prepend_ok [OF assms] by (cases "prepend b bs") auto

lemma consumeE:
  assumes "rep b h (bs @ c) r" "n = length bs"
  obtains b' where "consume b (int n) = (Some bs, b')" "rep b' (h + n) c r"
  using consume_ok [OF assms(1)] assms(2) by (cases "consume b (int (length bs))") auto

lemma consume_appended:
  assumes "rep b h [] r" "length bs \<le> r" "int (length bs) < BUF_SIZE_MAX"
  shows "fst (consume (snd (append b bs)) (int (length bs))) = Some bs"
  using append_ok [OF assms] consume_ok [of "snd (append b bs)" h bs "[]" "r - length bs"]
  by simp

lemma consume_prepended:
  assumes "rep b h c r" "length bs \<le> h"
  shows "fst (consume (snd (prepend b bs)) (int (length bs))) = Some bs"
    and "rep (snd (consume (snd (prepend b bs)) (int (length bs)))) h c r"
  using prepend_ok [OF assms] consume_ok [of "snd (prepend b bs)" "h - length bs" bs c r] assms
  by auto

end

interpretation bd: byte_deque buf_rep buf_write buf_write_prepend buf_read
proof (unfold_locales, goal_cases)
  case (1 b h c r bs)
  then show ?case using buf_write_rep by blast
next
  case (2 b h c r bs)
  then show ?case by (rule buf_write_full)
next
  case (3 b h c r bs)
  then show ?case using buf_write_prepend_rep by blast
next
  case (4 b h c r bs)
  then show ?case by (rule buf_write_prepend_full)
next
  case (5 b h bs c r)
  then show ?case using buf_read_rep by blast
next
  case (6 b h c r n)
  then show ?case by (rule buf_read_short)
qed


lemma buf_rep_data: "buf_rep b 0 bs 0 \<Longrightarrow> b_data b = Some bs"
  by (auto simp: buf_rep_iff)

text \<open>A sub-buffer that is filled completely and seen through the outer buffer is a write.\<close>

lemma buf_sub_rep:
  assumes "buf_rep b h c r" "sz \<le> (if prepend then h else r)" "int sz < BUF_SIZE_MAX"
  shows "\<exists>sub p b'. buf_sub b sz prepend = (sub, Some p, b') \<and> buf_rep sub 0 [] sz \<and>
    (\<forall>sub' bs. buf_rep sub' 0 bs 0 \<and> length bs = sz \<longrightarrow>
      (if prepend then buf_rep (buf_sub_sync b' p sub') (h - sz) (bs @ c) r
       else buf_rep (buf_sub_sync b' p sub') h (c @ bs) (r - sz)))"
proof -
  obtain m where m: "b_data b = Some m" "length m = h + length c + r" "b_offset b = int h"
    "b_len b = int (length c)" "b_capacity b = int (h + length c + r)"
    using assms(1) by (auto simp: buf_rep_iff)
  show ?thesis
  proof (cases prepend)
    case True
    then have sz: "sz \<le> h" using assms(2) by simp
    define b' where "b' = b\<lparr>b_offset := int (h - sz), b_len := int (length c + sz)\<rparr>"
    have pre: "buf_prepend b (int sz) = (Some (int (h - sz)), b')"
      using m sz by (simp add: buf_prepend_def buf_valid_def buf_bptr_def b'_def of_nat_diff Let_def)
    have w: "snd (buf_write_prepend b bs) = mem_write b' (int (h - sz)) bs" if "length bs = sz" for bs
      using pre that by (simp add: buf_write_prepend_def)
    have sync: "buf_rep (buf_sub_sync b' (int (h - sz)) sub') (h - sz) (bs @ c) r"
      if "buf_rep sub' 0 bs 0" "length bs = sz" for sub' bs
      using buf_write_prepend_rep(2) [OF assms(1), of bs] w [OF that(2)] buf_rep_data [OF that(1)] sz that(2)
      by (simp add: buf_sub_sync_def)
    have "buf_sub b sz prepend = (\<lparr>b_capacity = int sz, b_offset = 0, b_len = 0,
        b_data = Some (take sz (drop (h - sz) m))\<rparr>, Some (int (h - sz)), b')"
      using True pre m by (simp add: buf_sub_def mem_read_def b'_def)
    then show ?thesis using True sync m sz by (auto simp: buf_rep_iff [of _ _ "[]"])
  next
    case False
    then have sz: "sz \<le> r" using assms(2) by simp
    define b' where "b' = b\<lparr>b_len := int (length c + sz)\<rparr>"
    have al: "buf_write_alloc b sz = (Some (int (h + length c)), b')"
      using m sz assms(3) by (simp add: buf_write_alloc_def buf_safe_def buf_valid_def buf_size_valid_def
          buf_bptr_def b'_def)
    have w: "snd (buf_write b bs) = mem_write b' (int (h + length c)) bs" if "length bs = sz" for bs
      using al that by (simp add: buf_write_def)
    have sync: "buf_rep (buf_sub_sync b' (int (h + length c)) sub') h (c @ bs) (r - sz)"
      if "buf_rep sub' 0 bs 0" "length bs = sz" for sub' bs
      using buf_write_rep(2) [OF assms(1), of bs] w [OF that(2)] buf_rep_data [OF that(1)] sz that(2) assms(3)
      by (simp add: buf_sub_sync_def)
    have "buf_sub b sz prepend = (\<lparr>b_capacity = int sz, b_offset = 0, b_len = 0,
        b_data = Some (take sz (drop (h + length c) m))\<rparr>, Some (int (h + length c)), b')"
      using False al m by (simp add: buf_sub_def mem_read_def b'_def nat_add_distrib)
    then show ?thesis using False sync m sz by (auto simp: buf_rep_iff [of _ _ "[]"])
  qed
qed

lemma buf_sub_full:
  assumes "buf_rep b h c r" "sz > (if prepend then h else r)"
  shows "buf_sub b sz prepend = (clear_buf, None, b)"
  using assms by (auto simp: buf_rep_iff buf_sub_def buf_prepend_def buf_write_alloc_def buf_safe_def)

end
