(* ===== verification/BufferSafety.thy ===== *)
theory BufferSafety
  imports Buffers
begin

text \<open>
  The operations of buffer.h never leave the memory of their buffers. An operation is a value of
  \<open>buf_op\<close>; \<open>buf_accesses\<close> lists the stretches of memory that it reads or writes, of the buffer
  itself and of the other buffer of a copy, \<open>buf_step\<close> is its effect. For every argument but those
  of \<open>buf_copy_range\<close> whose sums pass \<open>INT_MAX\<close> the type of a buffer (offset and length inside an
  allocation of the stated capacity) is preserved and every access is inside its allocation;
  \<open>copy_range_overflow\<close> shows what such a sum does to the check.
\<close>

datatype buf_op =
    Op_init int
  | Op_reset_len
  | Op_clear
  | Op_inc_len int
  | Op_prepend int
  | Op_advance int
  | Op_write_alloc nat
  | Op_read_alloc int
  | Op_write "u8 list"
  | Op_write_prepend "u8 list"
  | Op_read int
  | Op_read_u8
  | Op_read_u16
  | Op_read_u32
  | Op_copy buffer
  | Op_assign buffer
  | Op_copy_n buffer int
  | Op_copy_n_to buffer int
  | Op_copy_range int buffer int int
  | Op_copy_excess_from buffer int
  | Op_copy_excess_to buffer int
  | Op_compare_advance "u8 list"

fun buf_step :: "buf_op \<Rightarrow> buffer \<Rightarrow> buffer" where
  "buf_step (Op_init off) b = snd (buf_init b off)"
| "buf_step Op_reset_len b = buf_reset_len b"
| "buf_step Op_clear b = buf_clear b"
| "buf_step (Op_inc_len n) b = snd (buf_inc_len b n)"
| "buf_step (Op_prepend n) b = snd (buf_prepend b n)"
| "buf_step (Op_advance n) b = snd (buf_advance b n)"
| "buf_step (Op_write_alloc n) b = snd (buf_write_alloc b n)"
| "buf_step (Op_read_alloc n) b = snd (buf_read_alloc b n)"
| "buf_step (Op_write bs) b = snd (buf_write b bs)"
| "buf_step (Op_write_prepend bs) b = snd (buf_write_prepend b bs)"
| "buf_step (Op_read n) b = snd (buf_read b n)"
| "buf_step Op_read_u8 b = snd (buf_read_u8 b)"
| "buf_step Op_read_u16 b = snd (buf_read_u16 b)"
| "buf_step Op_read_u32 b = snd (snd (buf_read_u32 b))"
| "buf_step (Op_copy src) b = snd (buf_copy b src)"
| "buf_step (Op_assign src) b = snd (buf_assign b src)"
| "buf_step (Op_copy_n src n) b = fst (snd (buf_copy_n b src n))"
| "buf_step (Op_copy_n_to dest n) b = snd (snd (buf_copy_n dest b n))"
| "buf_step (Op_copy_range di src si n) b = snd (buf_copy_range b di src si n)"
| "buf_step (Op_copy_excess_from src n) b = fst (snd (buf_copy_excess b src n))"
| "buf_step (Op_copy_excess_to dest n) b = snd (snd (buf_copy_excess dest b n))"
| "buf_step (Op_compare_advance bs) b = snd (buf_string_compare_advance b bs)"

text \<open>
  An access: the buffer, where \<open>None\<close> is the one the operation runs on, the start and the length.
  \<open>span_of\<close> is what the pointer that an operation hands out, or uses itself, covers; \<open>copied\<close>
  what a \<open>memcpy\<close> to it writes and reads.
\<close>

type_synonym access = "buffer option \<times> int \<times> int"

definition span_of :: "int option \<Rightarrow> int \<Rightarrow> access list" where
  "span_of p n = (case p of None \<Rightarrow> [] | Some p \<Rightarrow> [(None, p, n)])"

definition copied :: "buffer option \<Rightarrow> int option \<Rightarrow> buffer option \<Rightarrow> int \<Rightarrow> int \<Rightarrow> access list" where
  "copied d p s q n = (case p of None \<Rightarrow> [] | Some p \<Rightarrow> [(d, p, n), (s, q, n)])"

fun buf_accesses :: "buf_op \<Rightarrow> buffer \<Rightarrow> access list" where
  "buf_accesses Op_clear b = (if b_capacity b > 0 then [(None, 0, b_capacity b)] else [])"
| "buf_accesses (Op_prepend n) b = span_of (fst (buf_prepend b n)) n"
| "buf_accesses (Op_write_alloc n) b = span_of (fst (buf_write_alloc b n)) (int n)"
| "buf_accesses (Op_read_alloc n) b = span_of (fst (buf_read_alloc b n)) n"
| "buf_accesses (Op_write bs) b = span_of (fst (buf_write_alloc b (length bs))) (int (length bs))"
| "buf_accesses (Op_write_prepend bs) b = span_of (fst (buf_prepend b (int (length bs)))) (int (length bs))"
| "buf_accesses (Op_read n) b = span_of (fst (buf_read_alloc b n)) n"
| "buf_accesses Op_read_u8 b = (if buf_len b < 1 then [] else [(None, b_offset b, 1)])"
| "buf_accesses Op_read_u16 b = span_of (fst (buf_read_alloc b 2)) 2"
| "buf_accesses Op_read_u32 b = span_of (fst (buf_read_alloc b 4)) 4"
| "buf_accesses (Op_copy src) b =
     copied None (fst (buf_write_alloc b (nat (buf_len src)))) (Some src) (b_offset src) (buf_len src)"
| "buf_accesses (Op_assign src) b =
     (case buf_init b (b_offset src) of
        (False, _) \<Rightarrow> []
      | (True, b) \<Rightarrow> copied None (fst (buf_write_alloc b (nat (buf_len src)))) (Some src) (b_offset src) (buf_len src))"
| "buf_accesses (Op_copy_n src n) b =
     (case fst (buf_read_alloc src n) of
        None \<Rightarrow> []
      | Some q \<Rightarrow> copied None (fst (buf_write_alloc b (nat n))) (Some src) q n)"
| "buf_accesses (Op_copy_n_to dest n) b =
     (case fst (buf_read_alloc b n) of
        None \<Rightarrow> []
      | Some q \<Rightarrow> copied (Some dest) (fst (buf_write_alloc dest (nat n))) None q n)"
| "buf_accesses (Op_copy_range di src si n) b =
     (if fst (buf_copy_range b di src si n) then [(None, b_offset b + di, n), (Some src, b_offset src + si, n)] else [])"
| "buf_accesses (Op_copy_excess_from src n) b =
     (if 0 \<le> n \<and> n < b_len src
      then copied None (fst (buf_write_alloc b (nat (b_len src - n)))) (Some src) (b_offset src + n) (b_len src - n) else [])"
| "buf_accesses (Op_copy_excess_to dest n) b =
     (if 0 \<le> n \<and> n < b_len b
      then copied (Some dest) (fst (buf_write_alloc dest (nat (b_len b - n)))) None (b_offset b + n) (b_len b - n) else [])"
| "buf_accesses (Op_compare_advance bs) b =
     (if int (length bs) > b_len b then [] else [(None, b_offset b, int (length bs))])"
| "buf_accesses _ b = []"

fun op_sources :: "buf_op \<Rightarrow> buffer list" where
  "op_sources (Op_copy src) = [src]"
| "op_sources (Op_assign src) = [src]"
| "op_sources (Op_copy_n src n) = [src]"
| "op_sources (Op_copy_n_to dest n) = [dest]"
| "op_sources (Op_copy_range di src si n) = [src]"
| "op_sources (Op_copy_excess_from src n) = [src]"
| "op_sources (Op_copy_excess_to dest n) = [dest]"
| "op_sources _ = []"

text \<open>What the check of \<open>buf_copy_range\<close> takes for granted of its arguments.\<close>

fun args_fit :: "buf_op \<Rightarrow> bool" where
  "args_fit (Op_copy_range di src si n) \<longleftrightarrow> di + n \<le> 2 ^ 31 - BUF_SIZE_MAX \<and> si + n < 2 ^ 31"
| "args_fit _ \<longleftrightarrow> True"

definition in_bounds :: "buffer \<Rightarrow> int \<times> int \<Rightarrow> bool" where
  "in_bounds b = (\<lambda>(p, n). 0 \<le> p \<and> 0 \<le> n \<and> p + n \<le> b_capacity b)"

definition access_ok :: "buffer \<Rightarrow> access \<Rightarrow> bool" where
  "access_ok b = (\<lambda>(x, p, n). in_bounds (case x of None \<Rightarrow> b | Some c \<Rightarrow> c) (p, n))"

text \<open>A buffer as \<open>alloc_buf\<close> and \<open>buf_set_write\<close> make it: its size is below \<open>BUF_SIZE_MAX\<close>.\<close>

definition buf_alloced :: "buffer \<Rightarrow> bool" where
  "buf_alloced b \<longleftrightarrow> buf_wf b \<and> b_capacity b < BUF_SIZE_MAX"

text \<open>A run of operations: the accesses it makes, each with the buffer it is made on, and the result.\<close>

fun buf_exec :: "buf_op list \<Rightarrow> buffer \<Rightarrow> access list \<times> buffer" where
  "buf_exec [] b = ([], b)"
| "buf_exec (op # ops) b = (case buf_exec ops (buf_step op b) of (as, b') \<Rightarrow> (buf_accesses op b @ as, b'))"

section \<open>The type is preserved\<close>

definition same_memory :: "buffer \<Rightarrow> buffer \<Rightarrow> bool" where
  "same_memory b b' \<longleftrightarrow> buf_wf b' \<and> b_capacity b' = b_capacity b \<and> map_option length (b_data b') = map_option length (b_data b)"

lemma same_memoryI:
  assumes "buf_wf b" "b_data b' = b_data b" "b_capacity b' = b_capacity b"
    "0 \<le> b_offset b'" "0 \<le> b_len b'" "b_offset b' + b_len b' \<le> b_capacity b"
  shows "same_memory b b'"
  using assms by (auto simp: same_memory_def buf_wf_def split: option.splits)

lemma same_memory_refl: "buf_wf b \<Longrightarrow> same_memory b b"
  by (simp add: same_memory_def)

lemma same_memory_trans: "same_memory b b' \<Longrightarrow> same_memory b' b'' \<Longrightarrow> same_memory b b''"
  by (simp add: same_memory_def)

lemma wf_bounds:
  assumes "buf_wf b"
  shows "0 \<le> b_offset b" "0 \<le> b_len b" "b_offset b + b_len b \<le> b_capacity b" "0 \<le> b_capacity b"
  using assms by (auto simp: buf_wf_def split: option.splits)

text \<open>A write is only harmless inside the allocation: \<open>overlay\<close> would make the memory longer.\<close>

lemma mem_write_same:
  "buf_wf b \<Longrightarrow> in_bounds b (p, int (length bs)) \<Longrightarrow> same_memory b (mem_write b p bs)"
  by (auto simp: same_memory_def buf_wf_def mem_write_def in_bounds_def split: option.splits)

lemma buf_init_same: "buf_wf b \<Longrightarrow> same_memory b (snd (buf_init b off))"
  by (auto simp: buf_init_def intro: same_memoryI same_memory_refl)

lemma buf_inc_len_same: "buf_wf b \<Longrightarrow> same_memory b (snd (buf_inc_len b n))"
  by (auto simp: buf_inc_len_def buf_safe_bidir_def Let_def wf_bounds intro!: same_memoryI same_memory_refl split: if_splits)

lemma buf_prepend_same: "buf_wf b \<Longrightarrow> same_memory b (snd (buf_prepend b n))"
  using wf_bounds [of b] by (auto simp: buf_prepend_def Let_def intro!: same_memoryI same_memory_refl)

lemma buf_advance_same: "buf_wf b \<Longrightarrow> same_memory b (snd (buf_advance b n))"
  using wf_bounds [of b] by (auto simp: buf_advance_def intro!: same_memoryI same_memory_refl)

lemma buf_write_alloc_same: "buf_wf b \<Longrightarrow> same_memory b (snd (buf_write_alloc b n))"
  using wf_bounds [of b] by (auto simp: buf_write_alloc_def buf_safe_def intro!: same_memoryI same_memory_refl)

lemma buf_read_alloc_same: "buf_wf b \<Longrightarrow> same_memory b (snd (buf_read_alloc b n))"
  using wf_bounds [of b] by (auto simp: buf_read_alloc_def intro!: same_memoryI same_memory_refl)


section \<open>Accesses are in bounds\<close>

text \<open>The pointers the allocating operations hand out.\<close>

lemma alloc_in_bounds:
  assumes "buf_wf b"
  shows "fst (buf_write_alloc b n) = Some p \<Longrightarrow> in_bounds b (p, int n)"
    "fst (buf_prepend b k) = Some p \<Longrightarrow> in_bounds b (p, k)"
    "fst (buf_read_alloc b k) = Some p \<Longrightarrow> in_bounds b (p, k)"
  using wf_bounds [OF assms]
  by (auto simp: buf_write_alloc_def buf_prepend_def buf_read_alloc_def buf_bptr_def buf_safe_def in_bounds_def Let_def
      buf_valid_def split: if_splits)

lemma span_of_ok: "(\<And>p. r = Some p \<Longrightarrow> in_bounds b (p, n)) \<Longrightarrow> list_all (access_ok b) (span_of r n)"
  by (cases r) (simp_all add: span_of_def access_ok_def)

lemma span_alloc_ok:
  assumes "buf_wf b"
  shows "list_all (access_ok b) (span_of (fst (buf_write_alloc b n)) (int n))"
    "list_all (access_ok b) (span_of (fst (buf_prepend b k)) k)"
    "list_all (access_ok b) (span_of (fst (buf_read_alloc b k)) k)"
  by (rule span_of_ok, erule alloc_in_bounds [OF assms])+

text \<open>A copy to memory that \<open>buf_write_alloc\<close> reserves, from a stretch inside the other buffer.\<close>

lemma copied_ok:
  assumes "buf_wf dest" "0 \<le> n" "in_bounds src (q, n)"
  shows "list_all (access_ok dest) (copied None (fst (buf_write_alloc dest (nat n))) (Some src) q n)"
    "list_all (access_ok src) (copied (Some dest) (fst (buf_write_alloc dest (nat n))) None q n)"
  using alloc_in_bounds(1) [OF assms(1), of "nat n"] assms(2,3)
  by (auto simp: copied_def access_ok_def split: option.splits)

lemma same_memory_alloc_write:
  assumes "buf_wf b"
  shows "buf_write_alloc b (length bs) = (Some p, b') \<Longrightarrow> same_memory b (mem_write b' p bs)"
    "buf_prepend b (int (length bs)) = (Some p, b') \<Longrightarrow> same_memory b (mem_write b' p bs)"
proof -
  have *: "same_memory b (mem_write b' p bs)" if "same_memory b b'" "in_bounds b (p, int (length bs))"
  proof (rule same_memory_trans [OF that(1)], rule mem_write_same)
    show "buf_wf b'" using that(1) unfolding same_memory_def by blast
    have "b_capacity b' = b_capacity b" using that(1) unfolding same_memory_def by blast
    then show "in_bounds b' (p, int (length bs))" using that(2) by (simp add: in_bounds_def)
  qed
  show "buf_write_alloc b (length bs) = (Some p, b') \<Longrightarrow> same_memory b (mem_write b' p bs)"
    using * alloc_in_bounds(1) [OF assms, of "length bs"] buf_write_alloc_same [OF assms, of "length bs"] by simp
  show "buf_prepend b (int (length bs)) = (Some p, b') \<Longrightarrow> same_memory b (mem_write b' p bs)"
    using * alloc_in_bounds(2) [OF assms, of "int (length bs)"] buf_prepend_same [OF assms, of "int (length bs)"] by simp
qed

lemma buf_write_same:
  assumes "buf_wf b"
  shows "same_memory b (snd (buf_write b bs))"
proof (cases "buf_write_alloc b (length bs)")
  case (Pair p b')
  then show ?thesis
    using same_memory_alloc_write(1) [OF assms, of bs] buf_write_alloc_same [OF assms, of "length bs"]
    by (cases p) (auto simp: buf_write_def)
qed

lemma buf_write_prepend_same:
  assumes "buf_wf b"
  shows "same_memory b (snd (buf_write_prepend b bs))"
proof (cases "buf_prepend b (int (length bs))")
  case (Pair p b')
  then show ?thesis
    using same_memory_alloc_write(2) [OF assms, of bs] buf_prepend_same [OF assms, of "int (length bs)"]
    by (cases p) (auto simp: buf_write_prepend_def)
qed

lemma buf_read_same: "buf_wf b \<Longrightarrow> same_memory b (snd (buf_read b n))"
  using buf_read_alloc_same [of b n] by (auto simp: buf_read_def split: prod.splits option.splits)

lemma length_content: "buf_wf b \<Longrightarrow> length (buf_content b) = nat (buf_len b)"
  by (auto simp: buf_wf_def buf_content_def buf_len_def buf_valid_def split: option.splits)

lemma length_mem_read:
  "buf_wf b \<Longrightarrow> in_bounds b (p, n) \<Longrightarrow> b_data b \<noteq> None \<Longrightarrow> length (mem_read b p n) = nat n"
  by (auto simp: buf_wf_def mem_read_def in_bounds_def split: option.splits)

lemma buf_assign_same:
  assumes "buf_wf b"
  shows "same_memory b (snd (buf_assign b src))"
proof (cases "buf_init b (b_offset src)")
  case (Pair ok b')
  have s: "same_memory b b'" using buf_init_same [OF assms, of "b_offset src"] Pair by simp
  then have "same_memory b' (snd (buf_write b' bs))" for bs
    by (intro buf_write_same) (simp add: same_memory_def)
  then show ?thesis using Pair s same_memory_trans by (cases ok) (auto simp: buf_assign_def)
qed

lemma buf_clear_same: "buf_wf b \<Longrightarrow> same_memory b (buf_clear b)"
  using wf_bounds [of b]
  by (auto simp: buf_clear_def Let_def same_memory_def buf_wf_def split: option.splits)

lemma copy_range_bounds:
  assumes "buf_alloced b" "buf_wf src" "args_fit (Op_copy_range di src si n)" "fst (buf_copy_range b di src si n)"
  shows "0 \<le> di" "0 \<le> n" "in_bounds b (b_offset b + di, n)" "in_bounds src (b_offset src + si, n)" "int_add di n = di + n"
proof -
  have wf: "buf_wf b" "b_capacity b < BUF_SIZE_MAX" using assms(1) by (simp_all add: buf_alloced_def)
  have pos: "0 \<le> si" "0 \<le> n" "0 \<le> di" "int_add si n \<le> b_len src"
    "int_add (b_offset b + di) n \<le> b_capacity b"
    using assms(4) by (auto simp: buf_copy_range_def int_add_add split: if_splits)
  note w = wf_bounds [OF wf(1)] and v = wf_bounds [OF assms(2)]
  have fit: "di + n \<le> 2 ^ 31 - BUF_SIZE_MAX" "si + n < 2 ^ 31" using assms(3) by simp_all
  have "int_add si n = si + n" using pos fit by (intro int_add_id) linarith+
  moreover have "int_add (b_offset b + di) n = b_offset b + di + n"
    using pos fit w wf(2) by (intro int_add_id) linarith+
  moreover show "int_add di n = di + n" using pos fit by (intro int_add_id) (auto simp: BUF_SIZE_MAX_def)
  ultimately show "0 \<le> di" "0 \<le> n" "in_bounds b (b_offset b + di, n)" "in_bounds src (b_offset src + si, n)"
    using pos w v by (simp_all add: in_bounds_def)
qed

lemma buf_copy_range_same:
  assumes "buf_alloced b" "buf_wf src" "args_fit (Op_copy_range di src si n)"
  shows "same_memory b (snd (buf_copy_range b di src si n))"
proof (cases "fst (buf_copy_range b di src si n)")
  have wf: "buf_wf b" using assms(1) by (simp add: buf_alloced_def)
  {
    case False
    then show ?thesis using wf by (auto simp: buf_copy_range_def Let_def same_memory_refl split: if_splits)
  next
    case True
    note r = copy_range_bounds [OF assms True]
    define bs where "bs = mem_read src (b_offset src + si) n"
    define b1 where "b1 = mem_write b (b_offset b + di) bs"
    have res: "snd (buf_copy_range b di src si n) = (if di + n > b_len b1 then b1\<lparr>b_len := di + n\<rparr> else b1)"
      using True r(5) by (auto simp: buf_copy_range_def b1_def bs_def Let_def split: if_splits)
    have "length bs \<le> nat n" by (simp add: bs_def mem_read_def split: option.splits)
    then have "in_bounds b (b_offset b + di, int (length bs))" using r(2,3) by (auto simp: in_bounds_def)
    then have b1: "same_memory b b1" unfolding b1_def by (rule mem_write_same [OF wf])
    then have "same_memory b1 (b1\<lparr>b_len := di + n\<rparr>)"
      using r(1-3) wf_bounds [OF wf] by (intro same_memoryI) (auto simp: same_memory_def b1_def mem_write_def in_bounds_def)
    then show ?thesis using res b1 same_memory_trans by auto
  }
qed

text \<open>Without the bound on the sums the check lets a copy through that writes far outside.\<close>

lemma copy_range_overflow:
  "let b = \<lparr>b_capacity = 4, b_offset = 0, b_len = 1, b_data = Some [7, 0, 0, 0]\<rparr> in
   buf_alloced b \<and> fst (buf_copy_range b 2147483647 b 0 1) \<and>
   \<not> list_all (access_ok b) (buf_accesses (Op_copy_range 2147483647 b 0 1) b)"
proof -
  have "int_add 0 1 = 1" "int_add (int_add 0 2147483647) 1 = - 2147483648"
    by (simp_all add: int_add_def)
  then show ?thesis
    by (simp add: Let_def buf_alloced_def buf_wf_def BUF_SIZE_MAX_def buf_copy_range_def access_ok_def in_bounds_def)
qed

lemma buf_copy_excess_same:
  assumes "buf_wf dest" "buf_wf src"
  shows "same_memory dest (fst (snd (buf_copy_excess dest src n)))" "same_memory src (snd (snd (buf_copy_excess dest src n)))"
proof -
  have cut: "same_memory src (src\<lparr>b_len := n\<rparr>)" if "0 \<le> n" "n < b_len src"
    using that wf_bounds [OF assms(2)] by (intro same_memoryI [OF assms(2)]) auto
  show "same_memory dest (fst (snd (buf_copy_excess dest src n)))"
    using buf_write_same [OF assms(1)] same_memory_refl [OF assms(1)]
    by (auto simp: buf_copy_excess_def buf_copy_def split: prod.splits bool.splits) (metis snd_conv)+
  show "same_memory src (snd (snd (buf_copy_excess dest src n)))"
    using cut same_memory_refl [OF assms(2)] by (auto simp: buf_copy_excess_def split: prod.splits bool.splits)
qed

lemma buf_step_same:
  assumes "buf_alloced b" "list_all buf_wf (op_sources op)" "args_fit op"
  shows "same_memory b (buf_step op b)"
proof -
  have wf: "buf_wf b" using assms(1) by (simp add: buf_alloced_def)
  show ?thesis
  proof (cases op)
    case Op_reset_len
    then show ?thesis using wf_bounds [OF wf] by (auto simp: buf_reset_len_def intro!: same_memoryI [OF wf])
  next
    case Op_read_u8
    then show ?thesis using buf_advance_same [OF wf] same_memory_refl [OF wf] by (auto simp: buf_read_u8_def)
  next
    case Op_read_u16
    then show ?thesis using buf_read_same [OF wf, of 2] by (auto simp: buf_read_u16_def split: prod.splits option.splits)
  next
    case Op_read_u32
    then show ?thesis using buf_read_same [OF wf, of 4] by (auto simp: buf_read_u32_def split: prod.splits option.splits)
  next
    case (Op_copy_n src n)
    then show ?thesis using buf_write_same [OF wf] same_memory_refl [OF wf]
      by (auto simp: buf_copy_n_def split: prod.splits option.splits) (metis snd_conv)
  next
    case (Op_copy_n_to dest n)
    then show ?thesis using buf_read_alloc_same [OF wf, of n] same_memory_refl [OF wf]
      by (auto simp: buf_copy_n_def split: prod.splits option.splits)
  next
    case (Op_compare_advance bs)
    then show ?thesis using buf_advance_same [OF wf] same_memory_refl [OF wf]
      by (auto simp: buf_string_compare_advance_def)
  qed (use assms wf in \<open>simp_all add: buf_init_same buf_clear_same buf_inc_len_same buf_prepend_same buf_advance_same
      buf_write_alloc_same buf_read_alloc_same buf_write_same buf_write_prepend_same buf_read_same buf_copy_def
      buf_assign_same buf_copy_range_same buf_copy_excess_same\<close>)
qed

lemma content_in_bounds: "buf_wf b \<Longrightarrow> 0 \<le> buf_len b \<and> in_bounds b (b_offset b, buf_len b)"
  using wf_bounds [of b] by (auto simp: in_bounds_def buf_len_def)

lemma buf_accesses_ok:
  assumes "buf_alloced b" "list_all buf_wf (op_sources op)" "args_fit op"
  shows "list_all (access_ok b) (buf_accesses op b)"
proof -
  have wf: "buf_wf b" using assms(1) by (simp add: buf_alloced_def)
  have rd: "0 \<le> n \<and> in_bounds c (q, n)" if "buf_wf c" "fst (buf_read_alloc c n) = Some q" for c n q
    using alloc_in_bounds(3) [OF that] by (simp add: in_bounds_def)
  have tail: "in_bounds c (b_offset c + n, b_len c - n)" if "buf_wf c" "0 \<le> n" "n < b_len c" for c n
    using wf_bounds [OF that(1)] that(2,3) by (simp add: in_bounds_def)
  show ?thesis
  proof (cases op)
    case (Op_copy src)
    then show ?thesis using copied_ok(1) [OF wf] content_in_bounds [of src] assms(2) by simp
  next
    case (Op_assign src)
    obtain ok b' where i: "buf_init b (b_offset src) = (ok, b')" by (cases "buf_init b (b_offset src)")
    then have "same_memory b b'" using buf_init_same [OF wf, of "b_offset src"] by simp
    then have "buf_wf b'" "access_ok b' = access_ok b"
      by (auto simp: same_memory_def access_ok_def in_bounds_def fun_eq_iff split: option.splits)
    then show ?thesis using copied_ok(1) [of b'] content_in_bounds [of src] assms(2) Op_assign i by (simp split: bool.splits)
  next
    case (Op_copy_n src n)
    then show ?thesis using copied_ok(1) [OF wf] rd [of src n] assms(2) by (auto split: option.splits)
  next
    case (Op_copy_n_to dest n)
    then show ?thesis using copied_ok(2) [of dest n b] rd [OF wf, of n] assms(2) by (auto split: option.splits)
  next
    case (Op_copy_excess_from src n)
    then show ?thesis using copied_ok(1) [OF wf, of "b_len src - n"] tail [of src n] assms(2) by simp
  next
    case (Op_copy_excess_to dest n)
    then show ?thesis using copied_ok(2) [of dest "b_len b - n" b] tail [OF wf, of n] assms(2) by simp
  next
    case (Op_copy_range di src si n)
    then show ?thesis using copy_range_bounds(3,4) [OF assms(1), of src di si n] assms(2,3) by (simp add: access_ok_def)
  qed (use span_alloc_ok [OF wf] wf_bounds [OF wf] in
      \<open>auto simp: access_ok_def in_bounds_def buf_len_def split: if_splits\<close>)
qed

text \<open>
  C22: Memory safety of the buffers. Any sequence of buffer operations with any arguments (lengths and
  indices may be negative or too large, other buffers are well-formed), but for a \<open>buf_copy_range\<close>
  whose indices and length add up to more than an \<open>int\<close> holds beside the buffer's size, on a
  well-formed buffer leaves a well-formed buffer over the same allocation: offset and length are not
  negative and their sum does not pass the capacity, no byte is ever written outside the allocation,
  and every stretch of memory that an operation reads, writes or hands out a pointer to, of the buffer
  or of the other one of a copy, lies inside its allocation.
\<close>
theorem buffer_ops_in_bounds:
  assumes "buf_alloced b" "list_all (\<lambda>op. list_all buf_wf (op_sources op) \<and> args_fit op) ops"
  shows "list_all (access_ok b) (fst (buf_exec ops b)) \<and> same_memory b (snd (buf_exec ops b))"
  using assms
proof (induction ops arbitrary: b)
  case Nil
  then show ?case by (simp add: same_memory_refl buf_alloced_def)
next
  case (Cons op ops)
  have s: "same_memory b (buf_step op b)" using Cons.prems by (intro buf_step_same) simp_all
  then have "access_ok (buf_step op b) = access_ok b" "buf_alloced (buf_step op b)"
    using Cons.prems(1) by (auto simp: same_memory_def access_ok_def in_bounds_def buf_alloced_def fun_eq_iff split: option.splits)
  with Cons.IH [of "buf_step op b"] Cons.prems s
  have "list_all (access_ok b) (fst (buf_exec ops (buf_step op b))) \<and> same_memory (buf_step op b) (snd (buf_exec ops (buf_step op b)))"
    by simp
  then show ?case using s buf_accesses_ok [OF Cons.prems(1), of op] Cons.prems(2) same_memory_trans
    by (auto split: prod.splits)
qed

definition small_buf :: buffer where
  "small_buf = \<lparr>b_capacity = 4, b_offset = 2, b_len = 0, b_data = Some [0, 0, 0, 0]\<rparr>"

definition small_ops :: "buf_op list" where
  "small_ops = [Op_write_prepend [1, 2], Op_write [3], Op_advance 7, Op_read 2, Op_write (replicate 20 9), Op_init (- 1),
     Op_copy_range 1 \<lparr>b_capacity = 3, b_offset = 1, b_len = 2, b_data = Some [0, 5, 6]\<rparr> 0 2, Op_copy_range 2 small_buf 9 9]"

lemma buffer_ops_in_bounds_witness:
  "list_all (access_ok small_buf) (fst (buf_exec small_ops small_buf)) \<and>
   same_memory small_buf (snd (buf_exec small_ops small_buf))"
  by (rule buffer_ops_in_bounds) (simp_all add: buf_alloced_def buf_wf_def BUF_SIZE_MAX_def small_buf_def small_ops_def)

end
