(* ===== verification/Timing.thy ===== *)
theory Timing
  imports CInteger
begin

text \<open>
  otime.c, otime.h, interval.c, interval.h, shaper.c and shaper.h: the filtered clock
  \<open>now\<close>, arithmetic on \<open>struct timeval\<close>, the limit on an event stream, the two kinds of
  timers of the event loop, and the output shaper. \<open>time_t\<close> and microsecond counts are
  \<open>int\<close>; the global \<open>now\<close> is an argument, the static \<open>now_adj\<close> a field of the clock.
\<close>

record timeval =
  tv_sec :: int
  tv_usec :: int

section \<open>The clock\<close>

record clock =
  ck_now :: int
  ck_adj :: int
  ck_usec :: int

definition update_now :: "clock \<Rightarrow> int \<Rightarrow> clock" where
  "update_now ck system_time =
     (let forward_threshold = 86400; backward_trigger = 10;
          real_time = system_time + ck_adj ck in
      if real_time > ck_now ck then
        (let overshoot = real_time - ck_now ck - 1 in
         if overshoot > forward_threshold \<and> ck_adj ck \<ge> overshoot
         then ck\<lparr>ck_adj := ck_adj ck - overshoot, ck_now := real_time - overshoot\<rparr>
         else ck\<lparr>ck_now := real_time\<rparr>)
      else if real_time < ck_now ck - backward_trigger
      then ck\<lparr>ck_adj := ck_adj ck + (ck_now ck - real_time)\<rparr>
      else ck)"

definition update_now_usec :: "clock \<Rightarrow> timeval \<Rightarrow> clock" where
  "update_now_usec ck tv =
     (let before = ck_now ck; ck = update_now ck (tv_sec tv) in
      if ck_now ck > before \<or> (ck_now ck = before \<and> tv_usec tv > ck_usec ck)
      then ck\<lparr>ck_usec := tv_usec tv\<rparr> else ck)"

text \<open>\<open>gettimeofday\<close> returned \<open>tv\<close>; the result is what the caller sees.\<close>

definition openvpn_gettimeofday :: "clock \<Rightarrow> timeval \<Rightarrow> timeval \<times> clock" where
  "openvpn_gettimeofday ck tv =
     (let ck = update_now_usec ck tv in (\<lparr>tv_sec = ck_now ck, tv_usec = ck_usec ck\<rparr>, ck))"

definition update_time :: "clock \<Rightarrow> int \<Rightarrow> clock" where
  "update_time ck system_time = (update_now ck system_time)\<lparr>ck_usec := 0\<rparr>"

section \<open>Time values\<close>

definition tv_clear :: timeval where "tv_clear = \<lparr>tv_sec = 0, tv_usec = 0\<rparr>"

definition tv_defined :: "timeval \<Rightarrow> bool" where
  "tv_defined tv \<longleftrightarrow> tv_sec tv > 0 \<and> tv_usec tv > 0"

definition tv_subtract :: "timeval \<Rightarrow> timeval \<Rightarrow> int \<Rightarrow> int" where
  "tv_subtract tv1 tv2 max_seconds =
     (let max_usec = max_seconds * 1000000; sec_diff = tv_sec tv1 - tv_sec tv2 in
      if sec_diff > max_seconds + 10 then max_usec
      else if sec_diff < - (max_seconds + 10) then - max_usec
      else constrain_int (sec_diff * 1000000 + (tv_usec tv1 - tv_usec tv2)) (- max_usec) max_usec)"

definition tv_add :: "timeval \<Rightarrow> timeval \<Rightarrow> timeval" where
  "tv_add dest src =
     (let sec = tv_sec dest + tv_sec src;
          usec = tv_usec dest + tv_usec src;
          sec = sec + drop_bit 20 usec;
          usec = usec AND 0x000FFFFF in
      if usec \<ge> 1000000 then \<lparr>tv_sec = sec + 1, tv_usec = usec - 1000000\<rparr>
      else \<lparr>tv_sec = sec, tv_usec = usec\<rparr>)"

definition tv_lt :: "timeval \<Rightarrow> timeval \<Rightarrow> bool" where
  "tv_lt t1 t2 = (if tv_sec t1 < tv_sec t2 then True else if tv_sec t1 > tv_sec t2 then False
     else tv_usec t1 < tv_usec t2)"

definition tv_le :: "timeval \<Rightarrow> timeval \<Rightarrow> bool" where
  "tv_le t1 t2 = (if tv_sec t1 < tv_sec t2 then True else if tv_sec t1 > tv_sec t2 then False
     else tv_usec t1 \<le> tv_usec t2)"

definition tv_ge :: "timeval \<Rightarrow> timeval \<Rightarrow> bool" where
  "tv_ge t1 t2 = (if tv_sec t1 > tv_sec t2 then True else if tv_sec t1 < tv_sec t2 then False
     else tv_usec t1 \<ge> tv_usec t2)"

definition tv_gt :: "timeval \<Rightarrow> timeval \<Rightarrow> bool" where
  "tv_gt t1 t2 = (if tv_sec t1 > tv_sec t2 then True else if tv_sec t1 < tv_sec t2 then False
     else tv_usec t1 > tv_usec t2)"

definition tv_eq :: "timeval \<Rightarrow> timeval \<Rightarrow> bool" where
  "tv_eq t1 t2 \<longleftrightarrow> tv_sec t1 = tv_sec t2 \<and> tv_usec t1 = tv_usec t2"

text \<open>The borrowing loop of \<open>tv_delta\<close>.\<close>

function borrow :: "int \<Rightarrow> int \<Rightarrow> int \<times> int" where
  "borrow sec usec = (if usec < 0 then borrow (sec - 1) (usec + 1000000) else (sec, usec))"
  by pat_completeness auto
termination by (relation "measure (\<lambda>(s, u). nat (- u))") auto

declare borrow.simps [simp del]

definition tv_delta :: "timeval \<Rightarrow> timeval \<Rightarrow> timeval" where
  "tv_delta t1 t2 =
     (let (sec, usec) = borrow (tv_sec t2 - tv_sec t1) (tv_usec t2 - tv_usec t1) in
      if sec < 0 then \<lparr>tv_sec = 0, tv_usec = 0\<rparr> else \<lparr>tv_sec = sec, tv_usec = usec\<rparr>)"

definition TV_WITHIN_SIGMA_MAX_SEC :: int where "TV_WITHIN_SIGMA_MAX_SEC = 600"

definition tv_within_sigma :: "timeval \<Rightarrow> timeval \<Rightarrow> int \<Rightarrow> bool" where
  "tv_within_sigma t1 t2 sigma =
     (let delta = tv_subtract t1 t2 TV_WITHIN_SIGMA_MAX_SEC in - sigma \<le> delta \<and> delta \<le> sigma)"

definition interval_earliest_wakeup :: "int \<Rightarrow> int \<Rightarrow> int \<Rightarrow> int" where
  "interval_earliest_wakeup wakeup at current =
     (if at > current then
        (let delta = at - current; wakeup = (if delta < wakeup then delta else wakeup) in
         if wakeup < 0 then 0 else wakeup)
      else wakeup)"

section \<open>The frequency limit\<close>

record frequency_limit =
  fq_max :: int
  fq_per :: int
  fq_n :: int
  fq_reset :: int

definition frequency_limit_init :: "int \<Rightarrow> int \<Rightarrow> frequency_limit option" where
  "frequency_limit_init mx per = do {
     _ \<leftarrow> ASSERT (mx \<ge> 0 \<and> per \<ge> 0);
     Some \<lparr>fq_max = mx, fq_per = per, fq_n = 0, fq_reset = 0\<rparr> }"

definition frequency_limit_event_allowed :: "int \<Rightarrow> frequency_limit \<Rightarrow> bool \<times> frequency_limit" where
  "frequency_limit_event_allowed now f =
     (if fq_per f \<noteq> 0 then
        (let f = (if now \<ge> fq_reset f + fq_per f then f\<lparr>fq_reset := now, fq_n := 0\<rparr> else f);
             f = f\<lparr>fq_n := fq_n f + 1\<rparr> in
         (fq_n f \<le> fq_max f, f))
      else (True, f))"

section \<open>Interval timers\<close>

record interval =
  iv_refresh :: int
  iv_horizon :: int
  iv_future_trigger :: int
  iv_last_action :: int
  iv_last_test_true :: int

definition interval_init :: "int \<Rightarrow> int \<Rightarrow> interval" where
  "interval_init horizon refresh = \<lparr>iv_refresh = refresh, iv_horizon = horizon, iv_future_trigger = 0,
     iv_last_action = 0, iv_last_test_true = 0\<rparr>"

definition interval_test :: "int \<Rightarrow> interval \<Rightarrow> bool \<times> interval" where
  "interval_test now iv =
     (let trigger = (iv_future_trigger iv \<noteq> 0 \<and> now \<ge> iv_future_trigger iv);
          iv = (if trigger then iv\<lparr>iv_future_trigger := 0\<rparr> else iv) in
      if iv_last_action iv + iv_horizon iv > now \<or> iv_last_test_true iv + iv_refresh iv \<le> now \<or> trigger
      then (True, iv\<lparr>iv_last_test_true := now\<rparr>) else (False, iv))"

definition interval_schedule_wakeup :: "int \<Rightarrow> interval \<Rightarrow> int \<Rightarrow> int" where
  "interval_schedule_wakeup now iv wakeup =
     interval_earliest_wakeup
       (interval_earliest_wakeup wakeup (iv_last_test_true iv + iv_refresh iv) now)
       (iv_future_trigger iv) now"

definition interval_future_trigger :: "int \<Rightarrow> interval \<Rightarrow> int \<Rightarrow> interval" where
  "interval_future_trigger now iv wakeup =
     (if wakeup \<noteq> 0 then iv\<lparr>iv_future_trigger := now + wakeup\<rparr> else iv)"

definition interval_action :: "int \<Rightarrow> interval \<Rightarrow> interval" where
  "interval_action now iv = iv\<lparr>iv_last_action := now\<rparr>"

section \<open>Event timeouts\<close>

record event_timeout =
  et_defined :: bool
  et_n :: int
  et_last :: int

definition event_timeout_clear :: event_timeout where
  "event_timeout_clear = \<lparr>et_defined = False, et_n = 0, et_last = 0\<rparr>"

definition event_timeout_init :: "int \<Rightarrow> int \<Rightarrow> event_timeout" where
  "event_timeout_init n base = \<lparr>et_defined = True, et_n = (if n \<ge> 0 then n else 0), et_last = base\<rparr>"

definition event_timeout_reset :: "int \<Rightarrow> event_timeout \<Rightarrow> event_timeout" where
  "event_timeout_reset now et = (if et_defined et then et\<lparr>et_last := now\<rparr> else et)"

definition event_timeout_modify_wakeup :: "event_timeout \<Rightarrow> int \<Rightarrow> event_timeout" where
  "event_timeout_modify_wakeup et n = (if et_defined et then et\<lparr>et_n := (if n \<ge> 0 then n else 0)\<rparr> else et)"

definition event_timeout_remaining :: "int \<Rightarrow> event_timeout \<Rightarrow> int" where
  "event_timeout_remaining now et = (et_last et + et_n et) - now"

definition ETT_DEFAULT :: int where "ETT_DEFAULT = - 1"

text \<open>\<open>tv\<close> may be a null pointer.\<close>

definition event_timeout_trigger ::
  "int \<Rightarrow> event_timeout \<Rightarrow> timeval option \<Rightarrow> int \<Rightarrow> bool \<times> event_timeout \<times> timeval option" where
  "event_timeout_trigger now et tv et_const_retry =
     (if \<not> et_defined et then (False, et, tv)
      else
        (let wakeup = event_timeout_remaining now et;
             (ret, et, wakeup) =
               (if wakeup \<le> 0 then
                  (if et_const_retry < 0 then (True, et\<lparr>et_last := now\<rparr>, et_n et)
                   else (False, et, et_const_retry))
                else (False, et, wakeup)) in
         (ret, et, (case tv of
             None \<Rightarrow> None
           | Some t \<Rightarrow> if wakeup < tv_sec t then Some \<lparr>tv_sec = wakeup, tv_usec = 0\<rparr> else Some t))))"

definition USEC_TIMER_MAX :: int where "USEC_TIMER_MAX = 60"

record usec_timer =
  ut_start :: timeval
  ut_end :: timeval

definition usec_timer_start :: "clock \<Rightarrow> timeval \<Rightarrow> usec_timer \<times> clock" where
  "usec_timer_start ck t = (case openvpn_gettimeofday ck t of (s, ck) \<Rightarrow> (\<lparr>ut_start = s, ut_end = tv_clear\<rparr>, ck))"

definition usec_timer_end :: "usec_timer \<Rightarrow> clock \<Rightarrow> timeval \<Rightarrow> usec_timer \<times> clock" where
  "usec_timer_end obj ck t = (case openvpn_gettimeofday ck t of (e, ck) \<Rightarrow> (obj\<lparr>ut_end := e\<rparr>, ck))"

definition usec_timer_interval_defined :: "usec_timer \<Rightarrow> bool" where
  "usec_timer_interval_defined obj \<longleftrightarrow> tv_sec (ut_start obj) \<noteq> 0 \<and> tv_sec (ut_end obj) \<noteq> 0"

definition usec_timer_interval :: "usec_timer \<Rightarrow> int" where
  "usec_timer_interval obj = tv_subtract (ut_end obj) (ut_start obj) USEC_TIMER_MAX"

section \<open>The shaper\<close>

definition SHAPER_MIN :: int where "SHAPER_MIN = 100"
definition SHAPER_MAX :: int where "SHAPER_MAX = 100000000"
definition SHAPER_MAX_TIMEOUT :: int where "SHAPER_MAX_TIMEOUT = 10"

record shaper =
  sh_bytes_per_second :: int
  sh_wakeup :: timeval

definition shaper_soonest_event :: "timeval \<Rightarrow> int \<Rightarrow> bool \<times> timeval" where
  "shaper_soonest_event tv delay =
     (if delay < 1000000 then
        (if tv_sec tv \<noteq> 0 then (True, \<lparr>tv_sec = 0, tv_usec = delay\<rparr>)
         else if delay < tv_usec tv then (True, tv\<lparr>tv_usec := delay\<rparr>)
         else (False, tv))
      else
        (let sec = delay div 1000000; usec = delay mod 1000000 in
         if sec < tv_sec tv then (True, \<lparr>tv_sec = sec, tv_usec = usec\<rparr>)
         else if sec = tv_sec tv \<and> usec < tv_usec tv then (True, tv\<lparr>tv_usec := usec\<rparr>)
         else (False, tv)))"

definition shaper_reset_wakeup :: "shaper \<Rightarrow> shaper" where
  "shaper_reset_wakeup s = s\<lparr>sh_wakeup := tv_clear\<rparr>"

definition shaper_reset :: "shaper \<Rightarrow> int \<Rightarrow> shaper" where
  "shaper_reset s bps = s\<lparr>sh_bytes_per_second := constrain_int bps SHAPER_MIN SHAPER_MAX\<rparr>"

definition shaper_init :: "shaper \<Rightarrow> int \<Rightarrow> shaper" where
  "shaper_init s bps = shaper_reset_wakeup (shaper_reset s bps)"

text \<open>\<open>tv\<close> is what \<open>openvpn_gettimeofday\<close> returned.\<close>

definition shaper_delay :: "timeval \<Rightarrow> shaper \<Rightarrow> int" where
  "shaper_delay tv s =
     (let delay = (if tv_defined (sh_wakeup s) then tv_subtract (sh_wakeup s) tv SHAPER_MAX_TIMEOUT else 0) in
      if delay > 0 then delay else 0)"

text \<open>\<open>scaled n bps\<close> is the product of \<open>n\<close> with the double \<open>factor = 1000000.0 / bps\<close>, cut to an
  \<open>int\<close>; \<open>tv\<close> is what \<open>openvpn_gettimeofday\<close> returns.\<close>

definition shaper_wrote_bytes :: "(int \<Rightarrow> int \<Rightarrow> int) \<Rightarrow> timeval \<Rightarrow> shaper \<Rightarrow> int \<Rightarrow> shaper" where
  "shaper_wrote_bytes scaled tv s nbytes =
     (let usec = min_int (scaled (max_int nbytes 100) (sh_bytes_per_second s)) (SHAPER_MAX_TIMEOUT * 1000000) in
      if usec \<noteq> 0 then s\<lparr>sh_wakeup := tv_add tv \<lparr>tv_sec = 0, tv_usec = usec\<rparr>\<rparr> else s)"

end
