(* ===== verification/Schedule.thy ===== *)
theory Schedule
  imports Timing
begin

text \<open>
  schedule.c and schedule.h: the wakeup times of the client instances in a treap, a search tree over
  the times that is a heap over random priorities. Entries belong to the callers and are linked by
  pointers to parent and children: an entry is a node of a memory \<open>sc_mem\<close>, a pointer a node or
  \<open>None\<close> for \<open>NULL\<close>. The values that \<open>random\<close> yields are an argument; a run that uses more of them
  than there are is \<open>None\<close>, as are a corrupted link (\<open>ASSERT\<close>) and a loop that does not end.
\<close>

type_synonym node = nat

record schedule_entry =
  se_tv :: timeval
  se_pri :: u32
  se_parent :: "node option"
  se_lt :: "node option"
  se_gt :: "node option"

record schedule =
  sc_earliest_wakeup :: "node option"
  sc_root :: "node option"
  sc_mem :: "node \<Rightarrow> schedule_entry"

definition upd_entry :: "schedule \<Rightarrow> node \<Rightarrow> (schedule_entry \<Rightarrow> schedule_entry) \<Rightarrow> schedule" where
  "upd_entry s e f = s\<lparr>sc_mem := (sc_mem s)(e := f (sc_mem s e))\<rparr>"

definition IN_TREE :: "schedule \<Rightarrow> node \<Rightarrow> bool" where
  "IN_TREE s e \<longleftrightarrow> se_pri (sc_mem s e) \<noteq> 0"

definition clamp_pri :: "u32 \<Rightarrow> u32" where
  "clamp_pri r = (if r < 1 then 1 else r)"

definition schedule_set_pri :: "schedule \<Rightarrow> node \<Rightarrow> u32 list \<Rightarrow> (schedule \<times> u32 list) option" where
  "schedule_set_pri s e rnd = (case rnd of
     [] \<Rightarrow> None
   | r # rnd \<Rightarrow> Some (upd_entry s e (\<lambda>x. x\<lparr>se_pri := clamp_pri r\<rparr>), rnd))"

definition schedule_entry_compare :: "schedule_entry \<Rightarrow> schedule_entry \<Rightarrow> int" where
  "schedule_entry_compare e1 e2 =
     (if tv_sec (se_tv e1) < tv_sec (se_tv e2) then - 1
      else if tv_sec (se_tv e1) > tv_sec (se_tv e2) then 1
      else if tv_usec (se_tv e1) < tv_usec (se_tv e2) then - 1
      else if tv_usec (se_tv e1) > tv_usec (se_tv e2) then 1
      else if se_pri e1 < se_pri e2 then - 1
      else if se_pri e1 > se_pri e2 then 1
      else 0)"

definition schedule_detach_parent :: "schedule \<Rightarrow> node option \<Rightarrow> schedule option" where
  "schedule_detach_parent s e = (case e of
     None \<Rightarrow> Some s
   | Some e \<Rightarrow>
       (case se_parent (sc_mem s e) of
          Some p \<Rightarrow> do {
            s \<leftarrow> (if se_lt (sc_mem s p) = Some e then Some (upd_entry s p (\<lambda>x. x\<lparr>se_lt := None\<rparr>))
                 else if se_gt (sc_mem s p) = Some e then Some (upd_entry s p (\<lambda>x. x\<lparr>se_gt := None\<rparr>))
                 else None);
            Some (upd_entry s e (\<lambda>x. x\<lparr>se_parent := None\<rparr>)) }
        | None \<Rightarrow> Some (if sc_root s = Some e then s\<lparr>sc_root := None\<rparr> else s)))"

text \<open>\<open>if (x) x->parent = p\<close>\<close>

definition set_parent :: "schedule \<Rightarrow> node option \<Rightarrow> node \<Rightarrow> schedule" where
  "set_parent s x p = (case x of None \<Rightarrow> s | Some x \<Rightarrow> upd_entry s x (\<lambda>n. n\<lparr>se_parent := Some p\<rparr>))"

text \<open>The child link of the grandparent, or the root, now leads to \<open>e\<close> instead of \<open>p\<close>.\<close>

definition relink :: "schedule \<Rightarrow> node option \<Rightarrow> node \<Rightarrow> node \<Rightarrow> schedule option" where
  "relink s gp p e = (case gp of
     Some g \<Rightarrow>
       (if se_gt (sc_mem s g) = Some p then Some (upd_entry s g (\<lambda>x. x\<lparr>se_gt := Some e\<rparr>))
        else if se_lt (sc_mem s g) = Some p then Some (upd_entry s g (\<lambda>x. x\<lparr>se_lt := Some e\<rparr>))
        else None)
   | None \<Rightarrow> Some (s\<lparr>sc_root := Some e\<rparr>))"

definition schedule_rotate_up :: "schedule \<Rightarrow> node option \<Rightarrow> schedule option" where
  "schedule_rotate_up s e = (case e of
     None \<Rightarrow> Some s
   | Some e \<Rightarrow>
       (case se_parent (sc_mem s e) of
          None \<Rightarrow> Some s
        | Some p \<Rightarrow> do {
            let lt = se_lt (sc_mem s e);
            let gt = se_gt (sc_mem s e);
            let gp = se_parent (sc_mem s p);
            s \<leftarrow> relink s gp p e;
            let s = upd_entry s e (\<lambda>x. x\<lparr>se_parent := gp\<rparr>);
            let s = upd_entry s p (\<lambda>x. x\<lparr>se_parent := Some e\<rparr>);
            if se_gt (sc_mem s p) = Some e then do {
              let s = upd_entry s e (\<lambda>x. x\<lparr>se_lt := Some p\<rparr>);
              let s = upd_entry s p (\<lambda>x. x\<lparr>se_gt := lt\<rparr>);
              Some (set_parent s lt p) }
            else if se_lt (sc_mem s p) = Some e then do {
              let s = upd_entry s e (\<lambda>x. x\<lparr>se_gt := Some p\<rparr>);
              let s = upd_entry s p (\<lambda>x. x\<lparr>se_lt := gt\<rparr>);
              Some (set_parent s gt p) }
            else None }))"

partial_function (option) remove_loop :: "schedule \<Rightarrow> node \<Rightarrow> schedule option" where
  "remove_loop s e =
     (case se_lt (sc_mem s e) of
        Some l \<Rightarrow>
          (case se_gt (sc_mem s e) of
             Some g \<Rightarrow> do {
               s \<leftarrow> (if se_pri (sc_mem s l) < se_pri (sc_mem s g)
                    then schedule_rotate_up s (Some l) else schedule_rotate_up s (Some g));
               remove_loop s e }
           | None \<Rightarrow> do { s \<leftarrow> schedule_rotate_up s (Some l); remove_loop s e })
      | None \<Rightarrow>
          (case se_gt (sc_mem s e) of
             Some g \<Rightarrow> do { s \<leftarrow> schedule_rotate_up s (Some g); remove_loop s e }
           | None \<Rightarrow> Some s))"

definition schedule_remove_node :: "schedule \<Rightarrow> node \<Rightarrow> schedule option" where
  "schedule_remove_node s e = do {
     s \<leftarrow> remove_loop s e;
     s \<leftarrow> schedule_detach_parent s (Some e);
     Some (upd_entry s e (\<lambda>x. x\<lparr>se_pri := 0\<rparr>)) }"

text \<open>The loop of \<open>schedule_insert\<close>, at the entry \<open>c\<close>.\<close>

partial_function (option) insert_loop ::
  "schedule \<Rightarrow> node \<Rightarrow> node option \<Rightarrow> u32 list \<Rightarrow> (schedule \<times> u32 list) option" where
  "insert_loop s e c rnd = do {
     c \<leftarrow> c;
     let comp = schedule_entry_compare (sc_mem s e) (sc_mem s c);
     if comp = - 1 then
       (case se_lt (sc_mem s c) of
          Some c' \<Rightarrow> insert_loop s e (Some c') rnd
        | None \<Rightarrow> Some (upd_entry (upd_entry s c (\<lambda>x. x\<lparr>se_lt := Some e\<rparr>)) e (\<lambda>x. x\<lparr>se_parent := Some c\<rparr>), rnd))
     else if comp = 1 then
       (case se_gt (sc_mem s c) of
          Some c' \<Rightarrow> insert_loop s e (Some c') rnd
        | None \<Rightarrow> Some (upd_entry (upd_entry s c (\<lambda>x. x\<lparr>se_gt := Some e\<rparr>)) e (\<lambda>x. x\<lparr>se_parent := Some c\<rparr>), rnd))
     else do {
       (s, rnd) \<leftarrow> schedule_set_pri s e rnd;
       insert_loop s e (sc_root s) rnd } }"

definition schedule_insert :: "schedule \<Rightarrow> node \<Rightarrow> u32 list \<Rightarrow> (schedule \<times> u32 list) option" where
  "schedule_insert s e rnd = insert_loop s e (sc_root s) rnd"

partial_function (option) rotate_loop :: "schedule \<Rightarrow> node \<Rightarrow> schedule option" where
  "rotate_loop s e =
     (case se_parent (sc_mem s e) of
        None \<Rightarrow> Some s
      | Some p \<Rightarrow>
          if se_pri (sc_mem s p) > se_pri (sc_mem s e)
          then do { s \<leftarrow> schedule_rotate_up s (Some e); rotate_loop s e }
          else Some s)"

definition schedule_add_modify :: "schedule \<Rightarrow> node \<Rightarrow> u32 list \<Rightarrow> (schedule \<times> u32 list) option" where
  "schedule_add_modify s e rnd = do {
     s \<leftarrow> (if IN_TREE s e then schedule_remove_node s e else Some s);
     (s, rnd) \<leftarrow> schedule_set_pri s e rnd;
     (s, rnd) \<leftarrow> (if sc_root s \<noteq> None then schedule_insert s e rnd else Some (s\<lparr>sc_root := Some e\<rparr>, rnd));
     s \<leftarrow> rotate_loop s e;
     Some (s, rnd) }"

partial_function (option) least_loop :: "schedule \<Rightarrow> node \<Rightarrow> node option" where
  "least_loop s e = (case se_lt (sc_mem s e) of None \<Rightarrow> Some e | Some l \<Rightarrow> least_loop s l)"

definition schedule_find_least :: "schedule \<Rightarrow> node option \<Rightarrow> node option option" where
  "schedule_find_least s e = (case e of None \<Rightarrow> Some None | Some e \<Rightarrow> map_option Some (least_loop s e))"

section \<open>Public functions\<close>

text \<open>The memory holds entries that the callers have cleared.\<close>

definition cleared_entry :: schedule_entry where
  "cleared_entry = \<lparr>se_tv = tv_clear, se_pri = 0, se_parent = None, se_lt = None, se_gt = None\<rparr>"

definition schedule_init :: schedule where
  "schedule_init = \<lparr>sc_earliest_wakeup = None, sc_root = None, sc_mem = (\<lambda>_. cleared_entry)\<rparr>"

definition schedule_remove_entry :: "schedule \<Rightarrow> node \<Rightarrow> schedule option" where
  "schedule_remove_entry s e = schedule_remove_node (s\<lparr>sc_earliest_wakeup := None\<rparr>) e"

definition schedule_add_entry :: "schedule \<Rightarrow> node \<Rightarrow> timeval \<Rightarrow> int \<Rightarrow> u32 list \<Rightarrow> (schedule \<times> u32 list) option" where
  "schedule_add_entry s e tv sigma rnd =
     (if \<not> IN_TREE s e \<or> sigma = 0 \<or> \<not> tv_within_sigma tv (se_tv (sc_mem s e)) sigma then do {
        let s = upd_entry s e (\<lambda>x. x\<lparr>se_tv := tv\<rparr>);
        (s, rnd) \<leftarrow> schedule_add_modify s e rnd;
        Some (s\<lparr>sc_earliest_wakeup := None\<rparr>, rnd) }
      else Some (s, rnd))"

text \<open>The entry, and \<open>*wakeup\<close> where it is set.\<close>

definition schedule_get_earliest_wakeup :: "schedule \<Rightarrow> ((node \<times> timeval) option \<times> schedule) option" where
  "schedule_get_earliest_wakeup s = do {
     s \<leftarrow> (case sc_earliest_wakeup s of
         None \<Rightarrow> do { e \<leftarrow> schedule_find_least s (sc_root s); Some (s\<lparr>sc_earliest_wakeup := e\<rparr>) }
       | Some _ \<Rightarrow> Some s);
     Some (map_option (\<lambda>e. (e, se_tv (sc_mem s e))) (sc_earliest_wakeup s), s) }"

end
