(* ===== verification/ScheduleTree.thy ===== *)
theory ScheduleTree
  imports Schedule "HOL-Library.Tree"
begin

text \<open>
  The linked entries as a binary tree of nodes. A node inside a tree is reached through a context, the
  list of its ancestors with their other children; a rotation changes the innermost step of the
  context, and the inorder sequence not at all.
\<close>

section \<open>Linked trees\<close>

fun root_of :: "node tree \<Rightarrow> node option" where
  "root_of Leaf = None"
| "root_of (Node l a r) = Some a"

type_synonym memory = "node \<Rightarrow> schedule_entry"

fun linked :: "memory \<Rightarrow> node option \<Rightarrow> node tree \<Rightarrow> bool" where
  "linked m par Leaf = True"
| "linked m par (Node l a r) \<longleftrightarrow> se_parent (m a) = par \<and> se_lt (m a) = root_of l \<and> se_gt (m a) = root_of r \<and>
     linked m (Some a) l \<and> linked m (Some a) r"

datatype frame = LtOf node "node tree" | GtOf "node tree" node

fun plug :: "frame list \<Rightarrow> node tree \<Rightarrow> node tree" where
  "plug [] t = t"
| "plug (LtOf a r # c) t = plug c (Node t a r)"
| "plug (GtOf l a # c) t = plug c (Node l a t)"

fun ctx_parent :: "frame list \<Rightarrow> node option" where
  "ctx_parent [] = None"
| "ctx_parent (LtOf a r # c) = Some a"
| "ctx_parent (GtOf l a # c) = Some a"

fun ctx_left :: "frame list \<Rightarrow> node list" where
  "ctx_left [] = []"
| "ctx_left (LtOf a r # c) = ctx_left c"
| "ctx_left (GtOf l a # c) = ctx_left c @ inorder l @ [a]"

fun ctx_right :: "frame list \<Rightarrow> node list" where
  "ctx_right [] = []"
| "ctx_right (LtOf a r # c) = a # inorder r @ ctx_right c"
| "ctx_right (GtOf l a # c) = ctx_right c"

lemma inorder_plug: "inorder (plug c t) = ctx_left c @ inorder t @ ctx_right c"
  by (induction c t rule: plug.induct) simp_all

lemma set_plug: "set_tree (plug c t) = set (ctx_left c) \<union> set_tree t \<union> set (ctx_right c)"
  using inorder_plug [of c t] by (metis set_append set_inorder Un_assoc)

fun ctx_linked :: "memory \<Rightarrow> frame list \<Rightarrow> node option \<Rightarrow> bool" where
  "ctx_linked m [] ch = True"
| "ctx_linked m (LtOf a r # c) ch \<longleftrightarrow> se_parent (m a) = ctx_parent c \<and> se_lt (m a) = ch \<and> se_gt (m a) = root_of r \<and>
     linked m (Some a) r \<and> ctx_linked m c (Some a)"
| "ctx_linked m (GtOf l a # c) ch \<longleftrightarrow> se_parent (m a) = ctx_parent c \<and> se_lt (m a) = root_of l \<and> se_gt (m a) = ch \<and>
     linked m (Some a) l \<and> ctx_linked m c (Some a)"

lemma linked_plug: "linked m None (plug c t) \<longleftrightarrow> linked m (ctx_parent c) t \<and> ctx_linked m c (root_of t)"
  by (induction c t rule: plug.induct) auto

fun ctx_root :: "frame list \<Rightarrow> node option \<Rightarrow> node option" where
  "ctx_root [] ch = ch"
| "ctx_root (LtOf a r # c) ch = ctx_root c (Some a)"
| "ctx_root (GtOf l a # c) ch = ctx_root c (Some a)"

lemma root_of_plug: "root_of (plug c t) = ctx_root c (root_of t)"
  by (induction c t rule: plug.induct) simp_all

lemma linked_cong:
  "(\<And>x. x \<in> set_tree t \<Longrightarrow> se_parent (m' x) = se_parent (m x) \<and> se_lt (m' x) = se_lt (m x) \<and> se_gt (m' x) = se_gt (m x)) \<Longrightarrow>
   linked m' p t = linked m p t"
  by (induction t arbitrary: p) auto

lemma ctx_linked_cong:
  "(\<And>x. x \<in> set (ctx_left c) \<union> set (ctx_right c) \<Longrightarrow>
      se_parent (m' x) = se_parent (m x) \<and> se_lt (m' x) = se_lt (m x) \<and> se_gt (m' x) = se_gt (m x)) \<Longrightarrow>
   ctx_linked m' c ch = ctx_linked m c ch"
proof (induction m c ch rule: ctx_linked.induct)
  case (2 m a r c ch)
  have "linked m' (Some a) r = linked m (Some a) r" by (rule linked_cong) (use 2(2) in auto)
  then show ?case using 2(1) 2(2) by auto
next
  case (3 m l a c ch)
  have "linked m' (Some a) l = linked m (Some a) l" by (rule linked_cong) (use 3(2) in auto)
  then show ?case using 3(1) 3(2) by auto
qed simp

text \<open>A node of a tree and its context.\<close>

lemma plug_append: "plug (d @ c) t = plug c (plug d t)"
  by (induction d t rule: plug.induct) simp_all

lemma split_tree: "x \<in> set_tree t \<Longrightarrow> \<exists>c l r. t = plug c (Node l x r)"
proof (induction t)
  case (Node t1 a t2)
  consider "x = a" | "x \<in> set_tree t1" | "x \<in> set_tree t2" using Node.prems by auto
  then show ?case
  proof cases
    case 1
    then show ?thesis by (intro exI [of _ "[]"]) auto
  next
    case 2
    then obtain c l r where "t1 = plug c (Node l x r)" using Node.IH(1) by blast
    then have "Node t1 a t2 = plug (c @ [LtOf a t2]) (Node l x r)" by (simp add: plug_append)
    then show ?thesis by blast
  next
    case 3
    then obtain c l r where "t2 = plug c (Node l x r)" using Node.IH(2) by blast
    then have "Node t1 a t2 = plug (c @ [GtOf t1 a]) (Node l x r)" by (simp add: plug_append)
    then show ?thesis by blast
  qed
qed simp

section \<open>Rotation\<close>

text \<open>The tree of a scheduler, and the parts of the memory that the tree operations leave alone.\<close>

definition tree_of :: "schedule \<Rightarrow> node tree \<Rightarrow> bool" where
  "tree_of s t \<longleftrightarrow> sc_root s = root_of t \<and> linked (sc_mem s) None t \<and> distinct (inorder t)"

definition same_keys :: "schedule \<Rightarrow> schedule \<Rightarrow> bool" where
  "same_keys s s' \<longleftrightarrow> (\<forall>x. se_tv (sc_mem s' x) = se_tv (sc_mem s x) \<and> se_pri (sc_mem s' x) = se_pri (sc_mem s x)) \<and>
     sc_earliest_wakeup s' = sc_earliest_wakeup s"

definition same_outside :: "node set \<Rightarrow> schedule \<Rightarrow> schedule \<Rightarrow> bool" where
  "same_outside A s s' \<longleftrightarrow> (\<forall>x. x \<notin> A \<longrightarrow> sc_mem s' x = sc_mem s x)"

lemma same_keys_refl [simp]: "same_keys s s"
  by (simp add: same_keys_def)

lemma same_keys_trans: "same_keys s s' \<Longrightarrow> same_keys s' s'' \<Longrightarrow> same_keys s s''"
  by (simp add: same_keys_def)

lemma same_outside_refl [simp]: "same_outside A s s"
  by (simp add: same_outside_def)

lemma same_outside_trans: "same_outside A s s' \<Longrightarrow> same_outside A s' s'' \<Longrightarrow> same_outside A s s''"
  by (simp add: same_outside_def)

lemmas upd_defs = upd_entry_def set_parent_def

lemma linked_reparent:
  assumes "linked m q t" "distinct (inorder t)"
    "\<And>x. x \<in> set_tree t \<Longrightarrow> se_lt (m' x) = se_lt (m x) \<and> se_gt (m' x) = se_gt (m x) \<and>
       se_parent (m' x) = (if Some x = root_of t then p else se_parent (m x))"
  shows "linked m' p t"
proof (cases t)
  case (Node l a r)
  then have "a \<notin> set_tree l" "a \<notin> set_tree r" using assms(2) by simp_all
  then have "linked m' (Some a) l = linked m (Some a) l" "linked m' (Some a) r = linked m (Some a) r"
    using assms(3) Node by (intro linked_cong; auto)+
  then show ?thesis using assms(1,3) Node by auto
qed simp

lemma root_of_in: "root_of t = Some x \<Longrightarrow> x \<in> set_tree t"
  by (cases t) auto

text \<open>The child link that leads from a context to its hole.\<close>

lemma relink_ctx:
  assumes "ctx_linked (sc_mem s) c (Some p)" "distinct (ctx_left c @ ctx_right c)"
    "p \<notin> set (ctx_left c) \<union> set (ctx_right c)" "sc_root s = ctx_root c (Some p)"
  shows "\<exists>s1. relink s (ctx_parent c) p e = Some s1 \<and> ctx_linked (sc_mem s1) c (Some e) \<and>
    sc_root s1 = ctx_root c (Some e) \<and> same_keys s s1 \<and> (\<forall>x. ctx_parent c \<noteq> Some x \<longrightarrow> sc_mem s1 x = sc_mem s x) \<and>
    (\<forall>x. se_parent (sc_mem s1 x) = se_parent (sc_mem s x))"
proof (cases c)
  case Nil
  then show ?thesis by (simp add: relink_def same_keys_def)
next
  case (Cons f c')
  show ?thesis
  proof (cases f)
    case (LtOf g r)
    have g: "g \<notin> set_tree r" "g \<notin> set (ctx_left c') \<union> set (ctx_right c')" using assms(2) Cons LtOf by auto
    have "root_of r \<noteq> Some p" using assms(3) Cons LtOf root_of_in [of r p] by auto
    moreover define s1 where "s1 = upd_entry s g (\<lambda>x. x\<lparr>se_lt := Some e\<rparr>)"
    ultimately have "relink s (ctx_parent c) p e = Some s1"
      using assms(1) Cons LtOf by (simp add: relink_def)
    moreover have "linked (sc_mem s1) (Some g) r" using assms(1) Cons LtOf g(1)
      by (subst linked_cong [of r _ "sc_mem s"]) (auto simp: s1_def upd_entry_def)
    moreover have "ctx_linked (sc_mem s1) c' (Some g)" using assms(1) Cons LtOf g(2)
      by (subst ctx_linked_cong [of c' _ "sc_mem s"]) (auto simp: s1_def upd_entry_def)
    ultimately show ?thesis using assms(1,4) Cons LtOf by (auto simp: s1_def upd_entry_def same_keys_def)
  next
    case (GtOf l g)
    have g: "g \<notin> set_tree l" "g \<notin> set (ctx_left c') \<union> set (ctx_right c')" using assms(2) Cons GtOf by auto
    define s1 where "s1 = upd_entry s g (\<lambda>x. x\<lparr>se_gt := Some e\<rparr>)"
    then have "relink s (ctx_parent c) p e = Some s1"
      using assms(1) Cons GtOf by (simp add: relink_def)
    moreover have "linked (sc_mem s1) (Some g) l" using assms(1) Cons GtOf g(1)
      by (subst linked_cong [of l _ "sc_mem s"]) (auto simp: s1_def upd_entry_def)
    moreover have "ctx_linked (sc_mem s1) c' (Some g)" using assms(1) Cons GtOf g(2)
      by (subst ctx_linked_cong [of c' _ "sc_mem s"]) (auto simp: s1_def upd_entry_def)
    ultimately show ?thesis using assms(1,4) Cons GtOf by (auto simp: s1_def upd_entry_def same_keys_def)
  qed
qed

lemma rotate_up_relink:
  "se_parent (sc_mem s e) = Some p \<Longrightarrow> schedule_rotate_up s (Some e) = do {
     s1 \<leftarrow> relink s (se_parent (sc_mem s p)) p e;
     let s2 = upd_entry (upd_entry s1 e (\<lambda>x. x\<lparr>se_parent := se_parent (sc_mem s p)\<rparr>)) p (\<lambda>x. x\<lparr>se_parent := Some e\<rparr>);
     if se_gt (sc_mem s2 p) = Some e
     then Some (set_parent (upd_entry (upd_entry s2 e (\<lambda>x. x\<lparr>se_lt := Some p\<rparr>)) p (\<lambda>x. x\<lparr>se_gt := se_lt (sc_mem s e)\<rparr>))
                  (se_lt (sc_mem s e)) p)
     else if se_lt (sc_mem s2 p) = Some e
     then Some (set_parent (upd_entry (upd_entry s2 e (\<lambda>x. x\<lparr>se_gt := Some p\<rparr>)) p (\<lambda>x. x\<lparr>se_lt := se_gt (sc_mem s e)\<rparr>))
                  (se_gt (sc_mem s e)) p)
     else None }"
  unfolding schedule_rotate_up_def Let_def by (simp only: option.case)

lemma same_outside_mono: "same_outside A s s' \<Longrightarrow> A \<subseteq> B \<Longrightarrow> same_outside B s s'"
  by (auto simp: same_outside_def)

text \<open>The hypotheses of both rotations: \<open>e\<close> is a child of \<open>p\<close>, and \<open>p\<close> stands in a context.\<close>

lemma tree_of_plug_Node:
  assumes "tree_of s (plug c (Node l p r))"
  shows "linked (sc_mem s) (Some p) l" "linked (sc_mem s) (Some p) r" "se_parent (sc_mem s p) = ctx_parent c"
    "se_lt (sc_mem s p) = root_of l" "se_gt (sc_mem s p) = root_of r" "ctx_linked (sc_mem s) c (Some p)"
    "sc_root s = ctx_root c (Some p)" "distinct (ctx_left c @ ctx_right c)" "distinct (inorder l)" "distinct (inorder r)"
    "p \<notin> set_tree l" "p \<notin> set_tree r" "set_tree l \<inter> set_tree r = {}"
    "(insert p (set_tree l \<union> set_tree r)) \<inter> (set (ctx_left c) \<union> set (ctx_right c)) = {}"
  using assms by (auto simp: tree_of_def linked_plug root_of_plug inorder_plug)

lemma ctx_parent_in: "ctx_parent c = Some x \<Longrightarrow> x \<in> set (ctx_left c) \<union> set (ctx_right c)"
  by (cases c rule: ctx_parent.cases) auto

text \<open>
  The memory after a rotation of \<open>e\<close> over \<open>p\<close>: apart from both nodes only the root of the subtree \<open>b\<close>
  that changes sides gets a new parent, and the link into the context has been moved (\<open>s1\<close>).
\<close>

lemma rotated_links:
  assumes sub: "linked (sc_mem s) (Some e) a" "linked (sc_mem s) (Some e) b" "linked (sc_mem s) (Some p) r" "distinct (inorder b)"
    and apart: "e \<noteq> p" "{e, p} \<inter> (set_tree a \<union> set_tree b \<union> set_tree r) = {}" "set_tree a \<inter> set_tree b = {}"
      "set_tree r \<inter> set_tree b = {}"
    and ctx: "({e, p} \<union> set_tree a \<union> set_tree b \<union> set_tree r) \<inter> (set (ctx_left c) \<union> set (ctx_right c)) = {}"
    and s1: "ctx_linked (sc_mem s1) c (Some e)" "\<forall>x. ctx_parent c \<noteq> Some x \<longrightarrow> sc_mem s1 x = sc_mem s x"
    and mem: "\<And>x. x \<noteq> e \<Longrightarrow> x \<noteq> p \<Longrightarrow>
      sc_mem s' x = (if root_of b = Some x then (sc_mem s1 x)\<lparr>se_parent := Some p\<rparr> else sc_mem s1 x)"
  shows "linked (sc_mem s') (Some e) a" "linked (sc_mem s') (Some p) b" "linked (sc_mem s') (Some p) r"
    "ctx_linked (sc_mem s') c (Some e)"
    "same_outside ({e, p} \<union> set_tree b \<union> set (ctx_left c) \<union> set (ctx_right c)) s s'"
proof -
  have inner: "sc_mem s1 x = sc_mem s x" if "x \<in> {e, p} \<union> set_tree a \<union> set_tree b \<union> set_tree r" for x
    using s1(2) ctx_parent_in [of c x] that ctx by blast
  have keep: "sc_mem s' x = sc_mem s x" if "x \<in> set_tree a \<union> set_tree r" for x
  proof -
    have "x \<noteq> e" "x \<noteq> p" "root_of b \<noteq> Some x" using that apart root_of_in [of b x] by auto
    then show ?thesis using mem [of x] inner [of x] that by auto
  qed
  show "linked (sc_mem s') (Some e) a" using sub(1) keep by (subst linked_cong [of a _ "sc_mem s"]) auto
  show "linked (sc_mem s') (Some p) r" using sub(3) keep by (subst linked_cong [of r _ "sc_mem s"]) auto
  show "linked (sc_mem s') (Some p) b"
  proof (rule linked_reparent [OF sub(2,4)])
    fix x assume x: "x \<in> set_tree b"
    then have "x \<noteq> e" "x \<noteq> p" using apart by auto
    then show "se_lt (sc_mem s' x) = se_lt (sc_mem s x) \<and> se_gt (sc_mem s' x) = se_gt (sc_mem s x) \<and>
      se_parent (sc_mem s' x) = (if Some x = root_of b then Some p else se_parent (sc_mem s x))"
      using mem [of x] inner [of x] x by auto
  qed
  have outer: "sc_mem s' x = sc_mem s1 x" if "x \<notin> {e, p} \<union> set_tree b" for x
    using mem [of x] that root_of_in [of b x] by auto
  have "sc_mem s' x = sc_mem s1 x" if "x \<in> set (ctx_left c) \<union> set (ctx_right c)" for x
    using outer [of x] that ctx by blast
  then show "ctx_linked (sc_mem s') c (Some e)" using s1(1) by (subst ctx_linked_cong [of c _ "sc_mem s1"]) auto
  show "same_outside ({e, p} \<union> set_tree b \<union> set (ctx_left c) \<union> set (ctx_right c)) s s'"
    using s1(2) outer ctx_parent_in [of c] by (auto simp: same_outside_def)
qed

lemma rotate_lt:
  assumes "tree_of s (plug c (Node (Node a e b) p r))"
  shows "\<exists>s'. schedule_rotate_up s (Some e) = Some s' \<and> tree_of s' (plug c (Node a e (Node b p r))) \<and> same_keys s s' \<and>
    same_outside (set_tree (plug c (Node (Node a e b) p r))) s s'"
proof -
  note T = tree_of_plug_Node [OF assms]
  from T(1) have e: "se_parent (sc_mem s e) = Some p" "se_lt (sc_mem s e) = root_of a" "se_gt (sc_mem s e) = root_of b"
    "linked (sc_mem s) (Some e) a" "linked (sc_mem s) (Some e) b" by simp_all
  obtain s1 where s1: "relink s (ctx_parent c) p e = Some s1" "ctx_linked (sc_mem s1) c (Some e)"
    "sc_root s1 = ctx_root c (Some e)" "same_keys s s1" "\<forall>x. ctx_parent c \<noteq> Some x \<longrightarrow> sc_mem s1 x = sc_mem s x"
    using relink_ctx [OF T(6,8) _ T(7), of e] T(14) by blast
  have same: "sc_mem s1 e = sc_mem s e" "sc_mem s1 p = sc_mem s p" using s1(5) ctx_parent_in [of c] T(14) by auto
  have ep: "e \<noteq> p" "root_of r \<noteq> Some e" "root_of b \<noteq> Some e" "root_of b \<noteq> Some p"
    using T(9,11,13) root_of_in [of r e] root_of_in [of b] by auto
  define s2 where "s2 = upd_entry (upd_entry s1 e (\<lambda>x. x\<lparr>se_parent := ctx_parent c\<rparr>)) p (\<lambda>x. x\<lparr>se_parent := Some e\<rparr>)"
  define s' where "s' = set_parent (upd_entry (upd_entry s2 e (\<lambda>x. x\<lparr>se_gt := Some p\<rparr>)) p (\<lambda>x. x\<lparr>se_lt := root_of b\<rparr>)) (root_of b) p"
  have run: "schedule_rotate_up s (Some e) = Some s'"
    using s1(1) T(3-5) e ep same
    by (simp add: rotate_up_relink [OF e(1)] s2_def [symmetric]) (simp add: s2_def s'_def upd_entry_def)
  have mem: "sc_mem s' e = (sc_mem s e)\<lparr>se_parent := ctx_parent c, se_gt := Some p\<rparr>"
    "sc_mem s' p = (sc_mem s p)\<lparr>se_parent := Some e, se_lt := root_of b\<rparr>"
    "\<And>x. x \<noteq> e \<Longrightarrow> x \<noteq> p \<Longrightarrow> sc_mem s' x = (if root_of b = Some x then (sc_mem s1 x)\<lparr>se_parent := Some p\<rparr> else sc_mem s1 x)"
    using same ep by (auto simp: s'_def s2_def upd_defs split: option.splits)
  have apart: "distinct (inorder b)" "{e, p} \<inter> (set_tree a \<union> set_tree b \<union> set_tree r) = {}" "set_tree a \<inter> set_tree b = {}"
    "set_tree r \<inter> set_tree b = {}"
    "({e, p} \<union> set_tree a \<union> set_tree b \<union> set_tree r) \<inter> (set (ctx_left c) \<union> set (ctx_right c)) = {}"
    using T(9-14) by auto
  note links = rotated_links [OF e(4,5) T(2) apart(1) ep(1) apart(2-5) s1(2,5) mem(3)]
  have "sc_root s' = sc_root s1" by (simp add: s'_def s2_def upd_defs split: option.splits)
  then have "tree_of s' (plug c (Node a e (Node b p r)))"
    using assms links(1-4) mem(1,2) e T(5) s1(3) by (simp add: tree_of_def linked_plug root_of_plug inorder_plug)
  moreover have "same_keys s s'"
    using s1(4) by (auto simp: same_keys_def s'_def s2_def upd_defs split: option.splits)
  moreover have "same_outside (set_tree (plug c (Node (Node a e b) p r))) s s'"
    by (rule same_outside_mono [OF links(5)]) (auto simp: set_plug)
  ultimately show ?thesis using run by blast
qed

lemma rotate_gt:
  assumes "tree_of s (plug c (Node r p (Node b e a)))"
  shows "\<exists>s'. schedule_rotate_up s (Some e) = Some s' \<and> tree_of s' (plug c (Node (Node r p b) e a)) \<and> same_keys s s' \<and>
    same_outside (set_tree (plug c (Node r p (Node b e a)))) s s'"
proof -
  note T = tree_of_plug_Node [OF assms]
  from T(2) have e: "se_parent (sc_mem s e) = Some p" "se_gt (sc_mem s e) = root_of a" "se_lt (sc_mem s e) = root_of b"
    "linked (sc_mem s) (Some e) a" "linked (sc_mem s) (Some e) b" by simp_all
  obtain s1 where s1: "relink s (ctx_parent c) p e = Some s1" "ctx_linked (sc_mem s1) c (Some e)"
    "sc_root s1 = ctx_root c (Some e)" "same_keys s s1" "\<forall>x. ctx_parent c \<noteq> Some x \<longrightarrow> sc_mem s1 x = sc_mem s x"
    using relink_ctx [OF T(6,8) _ T(7), of e] T(14) by blast
  have same: "sc_mem s1 e = sc_mem s e" "sc_mem s1 p = sc_mem s p" using s1(5) ctx_parent_in [of c] T(14) by auto
  have ep: "e \<noteq> p" "root_of r \<noteq> Some e" "root_of b \<noteq> Some e" "root_of b \<noteq> Some p"
    using T(10,12,13) root_of_in [of r e] root_of_in [of b] by auto
  define s2 where "s2 = upd_entry (upd_entry s1 e (\<lambda>x. x\<lparr>se_parent := ctx_parent c\<rparr>)) p (\<lambda>x. x\<lparr>se_parent := Some e\<rparr>)"
  define s' where "s' = set_parent (upd_entry (upd_entry s2 e (\<lambda>x. x\<lparr>se_lt := Some p\<rparr>)) p (\<lambda>x. x\<lparr>se_gt := root_of b\<rparr>)) (root_of b) p"
  have run: "schedule_rotate_up s (Some e) = Some s'"
    using s1(1) T(3-5) e ep same
    by (simp add: rotate_up_relink [OF e(1)] s2_def [symmetric]) (simp add: s2_def s'_def upd_entry_def)
  have mem: "sc_mem s' e = (sc_mem s e)\<lparr>se_parent := ctx_parent c, se_lt := Some p\<rparr>"
    "sc_mem s' p = (sc_mem s p)\<lparr>se_parent := Some e, se_gt := root_of b\<rparr>"
    "\<And>x. x \<noteq> e \<Longrightarrow> x \<noteq> p \<Longrightarrow> sc_mem s' x = (if root_of b = Some x then (sc_mem s1 x)\<lparr>se_parent := Some p\<rparr> else sc_mem s1 x)"
    using same ep by (auto simp: s'_def s2_def upd_defs split: option.splits)
  have apart: "distinct (inorder b)" "{e, p} \<inter> (set_tree a \<union> set_tree b \<union> set_tree r) = {}" "set_tree a \<inter> set_tree b = {}"
    "set_tree r \<inter> set_tree b = {}"
    "({e, p} \<union> set_tree a \<union> set_tree b \<union> set_tree r) \<inter> (set (ctx_left c) \<union> set (ctx_right c)) = {}"
    using T(9-14) by auto
  note links = rotated_links [OF e(4,5) T(1) apart(1) ep(1) apart(2-5) s1(2,5) mem(3)]
  have "sc_root s' = sc_root s1" by (simp add: s'_def s2_def upd_defs split: option.splits)
  then have "tree_of s' (plug c (Node (Node r p b) e a))"
    using assms links(1-4) mem(1,2) e T(4) s1(3) by (simp add: tree_of_def linked_plug root_of_plug inorder_plug)
  moreover have "same_keys s s'"
    using s1(4) by (auto simp: same_keys_def s'_def s2_def upd_defs split: option.splits)
  moreover have "same_outside (set_tree (plug c (Node r p (Node b e a)))) s s'"
    by (rule same_outside_mono [OF links(5)]) (auto simp: set_plug)
  ultimately show ?thesis using run by blast
qed

end
