(* ===== verification/ScheduleRemove.thy ===== *)
theory ScheduleRemove
  imports ScheduleTree
begin

text \<open>
  Removing an entry: rotated down to a leaf and cut off, it leaves its two subtrees merged by
  priority. The heap order of the priorities is kept.
\<close>

section \<open>Heap order\<close>

definition pri_of :: "schedule \<Rightarrow> node \<Rightarrow> u32" where
  "pri_of s x = se_pri (sc_mem s x)"

fun heap_tree :: "(node \<Rightarrow> u32) \<Rightarrow> node tree \<Rightarrow> bool" where
  "heap_tree pri Leaf = True"
| "heap_tree pri (Node l a r) \<longleftrightarrow> heap_tree pri l \<and> heap_tree pri r \<and> (\<forall>x \<in> set_tree l \<union> set_tree r. pri a \<le> pri x)"

text \<open>A context whose hole may be filled with nodes \<open>S\<close>.\<close>

fun heap_ctx :: "(node \<Rightarrow> u32) \<Rightarrow> frame list \<Rightarrow> node set \<Rightarrow> bool" where
  "heap_ctx pri [] S = True"
| "heap_ctx pri (LtOf a r # c) S \<longleftrightarrow> heap_tree pri r \<and> (\<forall>x \<in> S \<union> set_tree r. pri a \<le> pri x) \<and>
     heap_ctx pri c (insert a (S \<union> set_tree r))"
| "heap_ctx pri (GtOf l a # c) S \<longleftrightarrow> heap_tree pri l \<and> (\<forall>x \<in> S \<union> set_tree l. pri a \<le> pri x) \<and>
     heap_ctx pri c (insert a (S \<union> set_tree l))"

lemma heap_plug: "heap_tree pri (plug c t) \<longleftrightarrow> heap_tree pri t \<and> heap_ctx pri c (set_tree t)"
proof (induction c t rule: plug.induct)
  case (2 a r c t)
  have eq: "set_tree (Node t a r) = insert a (set_tree t \<union> set_tree r)" by auto
  show ?case by (simp only: plug.simps 2 heap_tree.simps heap_ctx.simps eq) blast
next
  case (3 l a c t)
  have eq: "set_tree (Node l a t) = insert a (set_tree t \<union> set_tree l)" by auto
  show ?case by (simp only: plug.simps 3 heap_tree.simps heap_ctx.simps eq) blast
qed simp

lemma heap_ctx_mono: "heap_ctx pri c S \<Longrightarrow> T \<subseteq> S \<Longrightarrow> heap_ctx pri c T"
proof (induction pri c S arbitrary: T rule: heap_ctx.induct)
  case (2 pri a r c S)
  have "insert a (T \<union> set_tree r) \<subseteq> insert a (S \<union> set_tree r)" using 2(3) by auto
  then show ?case using 2 by auto
next
  case (3 pri l a c S)
  have "insert a (T \<union> set_tree l) \<subseteq> insert a (S \<union> set_tree l)" using 3(3) by auto
  then show ?case using 3 by auto
qed simp

lemma heap_tree_cong: "(\<And>x. x \<in> set_tree t \<Longrightarrow> pri' x = pri x) \<Longrightarrow> heap_tree pri' t = heap_tree pri t"
  by (induction t) auto

lemma heap_root: "heap_tree pri t \<Longrightarrow> root_of t = Some a \<Longrightarrow> x \<in> set_tree t \<Longrightarrow> pri a \<le> pri x"
  by (cases t) auto

section \<open>Merging\<close>

fun tmerge :: "(node \<Rightarrow> u32) \<Rightarrow> node tree \<Rightarrow> node tree \<Rightarrow> node tree" where
  "tmerge pri Leaf r = r"
| "tmerge pri l Leaf = l"
| "tmerge pri (Node a x b) (Node c y d) =
     (if pri x < pri y then Node a x (tmerge pri b (Node c y d)) else Node (tmerge pri (Node a x b) c) y d)"

lemma tmerge_Leaf [simp]: "tmerge pri l Leaf = l"
  by (cases l) simp_all

lemma inorder_tmerge [simp]: "inorder (tmerge pri l r) = inorder l @ inorder r"
  by (induction pri l r rule: tmerge.induct) simp_all

lemma set_tmerge [simp]: "set_tree (tmerge pri l r) = set_tree l \<union> set_tree r"
  by (metis inorder_tmerge set_append set_inorder)

lemma heap_tmerge: "heap_tree pri l \<Longrightarrow> heap_tree pri r \<Longrightarrow> heap_tree pri (tmerge pri l r)"
proof (induction pri l r rule: tmerge.induct)
  case (3 pri a x b c y d)
  have order: "pri x \<le> z" if "pri x < pri y" "pri y \<le> z" for z using that by simp
  show ?case
  proof (cases "pri x < pri y")
    case True
    then show ?thesis using 3 order by auto
  next
    case False
    then have "pri y \<le> pri x" by simp
    then have "pri y \<le> pri z" if "z \<in> insert x (set_tree a \<union> set_tree b)" for z using 3(3) that by (auto intro: order_trans)
    then show ?thesis using 3 False by auto
  qed
qed simp_all

section \<open>The removal loop\<close>

lemma tree_of_node:
  assumes "tree_of s (plug c (Node l e r))"
  shows "se_lt (sc_mem s e) = root_of l" "se_gt (sc_mem s e) = root_of r" "se_parent (sc_mem s e) = ctx_parent c"
  using tree_of_plug_Node [OF assms] by simp_all

lemma same_keys_pri: "same_keys s s' \<Longrightarrow> pri_of s' = pri_of s"
  by (auto simp: same_keys_def pri_of_def)

lemma remove_loop_merges:
  "tree_of s (plug c (Node l e r)) \<Longrightarrow>
   \<exists>s' d. remove_loop s e = Some s' \<and> tree_of s' (plug d (Node Leaf e Leaf)) \<and> plug d Leaf = plug c (tmerge (pri_of s) l r) \<and>
     same_keys s s' \<and> same_outside (set_tree (plug c (Node l e r))) s s'"
proof (induction "size l + size r" arbitrary: s c l r rule: less_induct)
  case less
  note n = tree_of_node [OF less.prems]
  have lt: ?case if l: "l = Node a x b" and step: "remove_loop s e = Option.bind (schedule_rotate_up s (Some x)) (\<lambda>s. remove_loop s e)"
      and m: "tmerge (pri_of s) l r = Node a x (tmerge (pri_of s) b r)" for a x b
  proof -
    from rotate_lt [of s c a x b e r] less.prems l obtain s1 where s1: "schedule_rotate_up s (Some x) = Some s1"
      "tree_of s1 (plug (GtOf a x # c) (Node b e r))" "same_keys s s1" "same_outside (set_tree (plug c (Node l e r))) s s1" by auto
    have "size b + size r < size l + size r" using l by simp
    from less.hyps [OF this s1(2)] obtain s' d where s': "remove_loop s1 e = Some s'" "tree_of s' (plug d (Node Leaf e Leaf))"
      "plug d Leaf = plug (GtOf a x # c) (tmerge (pri_of s1) b r)" "same_keys s1 s'"
      "same_outside (set_tree (plug (GtOf a x # c) (Node b e r))) s1 s'" by blast
    have "set_tree (plug (GtOf a x # c) (Node b e r)) = set_tree (plug c (Node l e r))" using l by (auto simp: set_plug)
    then show ?thesis using s1 s' step m same_keys_pri [OF s1(3)] same_keys_trans same_outside_trans
      by (intro exI [of _ s'] exI [of _ d]) (auto intro: same_keys_trans same_outside_trans)
  qed
  have gt: ?case if r: "r = Node a x b" and step: "remove_loop s e = Option.bind (schedule_rotate_up s (Some x)) (\<lambda>s. remove_loop s e)"
      and m: "tmerge (pri_of s) l r = Node (tmerge (pri_of s) l a) x b" for a x b
  proof -
    from rotate_gt [of s c l e a x b] less.prems r obtain s1 where s1: "schedule_rotate_up s (Some x) = Some s1"
      "tree_of s1 (plug (LtOf x b # c) (Node l e a))" "same_keys s s1" "same_outside (set_tree (plug c (Node l e r))) s s1" by auto
    have "size l + size a < size l + size r" using r by simp
    from less.hyps [OF this s1(2)] obtain s' d where s': "remove_loop s1 e = Some s'" "tree_of s' (plug d (Node Leaf e Leaf))"
      "plug d Leaf = plug (LtOf x b # c) (tmerge (pri_of s1) l a)" "same_keys s1 s'"
      "same_outside (set_tree (plug (LtOf x b # c) (Node l e a))) s1 s'" by blast
    have "set_tree (plug (LtOf x b # c) (Node l e a)) = set_tree (plug c (Node l e r))" using r by (auto simp: set_plug)
    then show ?thesis using s1 s' step m same_keys_pri [OF s1(3)]
      by (intro exI [of _ s'] exI [of _ d]) (auto intro: same_keys_trans same_outside_trans)
  qed
  show ?case
  proof (cases l)
    case Leaf
    show ?thesis
    proof (cases r)
      case Leaf
      then have "remove_loop s e = Some s" using n \<open>l = Leaf\<close> by (subst remove_loop.simps) simp
      then show ?thesis using less.prems Leaf \<open>l = Leaf\<close> by (intro exI [of _ s] exI [of _ c]) simp
    next
      case (Node a x b)
      show ?thesis by (rule gt [OF Node]) (use n Leaf Node in \<open>subst remove_loop.simps, simp_all\<close>)
    qed
  next
    case l: (Node a x b)
    show ?thesis
    proof (cases r)
      case Leaf
      show ?thesis by (rule lt [OF l]) (use n Leaf l in \<open>subst remove_loop.simps, simp_all\<close>)
    next
      case r: (Node a' y b')
      show ?thesis
      proof (cases "pri_of s x < pri_of s y")
        case True
        show ?thesis by (rule lt [OF l]) (use n l r True in \<open>subst remove_loop.simps, simp_all add: pri_of_def\<close>)
      next
        case False
        show ?thesis by (rule gt [OF r]) (use n l r False in \<open>subst remove_loop.simps, simp_all add: pri_of_def\<close>)
      qed
    qed
  qed
qed

section \<open>Cutting off the leaf\<close>

definition unlinked :: "schedule \<Rightarrow> node \<Rightarrow> bool" where
  "unlinked s x \<longleftrightarrow> se_parent (sc_mem s x) = None \<and> se_lt (sc_mem s x) = None \<and> se_gt (sc_mem s x) = None"

lemma detach_leaf:
  assumes "tree_of s (plug d (Node Leaf e Leaf))"
  shows "\<exists>s'. schedule_detach_parent s (Some e) = Some s' \<and> tree_of s' (plug d Leaf) \<and> unlinked s' e \<and> same_keys s s' \<and>
    same_outside (set_tree (plug d (Node Leaf e Leaf))) s s'"
proof -
  note T = tree_of_plug_Node [OF assms]
  show ?thesis
  proof (cases d)
    case Nil
    then show ?thesis using T by (simp add: schedule_detach_parent_def tree_of_def unlinked_def same_keys_def same_outside_def)
  next
    case (Cons f c)
    show ?thesis
    proof (cases f)
      case (LtOf p r)
      define s' where "s' = upd_entry (upd_entry s p (\<lambda>x. x\<lparr>se_lt := None\<rparr>)) e (\<lambda>x. x\<lparr>se_parent := None\<rparr>)"
      have other: "sc_mem s' x = sc_mem s x" if "x \<noteq> p" "x \<noteq> e" for x using that by (simp add: s'_def upd_defs)
      have p: "p \<notin> set_tree r" "e \<notin> set_tree r" "p \<noteq> e" "p \<notin> set (ctx_left c) \<union> set (ctx_right c)" "e \<notin> set (ctx_left c) \<union> set (ctx_right c)"
        using T(8,14) Cons LtOf by auto
      have "schedule_detach_parent s (Some e) = Some s'"
        using T(3,6) Cons LtOf by (simp add: schedule_detach_parent_def s'_def)
      moreover have "linked (sc_mem s') (Some p) r" using T(6) Cons LtOf p other
        by (subst linked_cong [of r _ "sc_mem s"]) (simp, metis, simp)
      moreover have "ctx_linked (sc_mem s') c (Some p)" using T(6) Cons LtOf p other
        by (subst ctx_linked_cong [of c _ "sc_mem s"]) (metis, simp)
      moreover have "tree_of s' (plug d Leaf)" using calculation assms T(3-7) Cons LtOf p
        by (simp add: tree_of_def linked_plug root_of_plug inorder_plug) (simp add: s'_def upd_defs)
      moreover have "same_outside (set_tree (plug d (Node Leaf e Leaf))) s s'"
        using Cons LtOf other by (auto simp: same_outside_def set_plug)
      moreover have "unlinked s' e" using T(4,5) p by (simp add: unlinked_def s'_def upd_defs)
      ultimately show ?thesis by (auto simp: same_keys_def s'_def upd_defs)
    next
      case (GtOf l p)
      define s' where "s' = upd_entry (upd_entry s p (\<lambda>x. x\<lparr>se_gt := None\<rparr>)) e (\<lambda>x. x\<lparr>se_parent := None\<rparr>)"
      have other: "sc_mem s' x = sc_mem s x" if "x \<noteq> p" "x \<noteq> e" for x using that by (simp add: s'_def upd_defs)
      have p: "p \<notin> set_tree l" "e \<notin> set_tree l" "p \<noteq> e" "p \<notin> set (ctx_left c) \<union> set (ctx_right c)" "e \<notin> set (ctx_left c) \<union> set (ctx_right c)"
        using T(8,14) Cons GtOf by auto
      then have "root_of l \<noteq> Some e" using root_of_in [of l e] by auto
      then have "schedule_detach_parent s (Some e) = Some s'"
        using T(3,6) Cons GtOf by (simp add: schedule_detach_parent_def s'_def)
      moreover have "linked (sc_mem s') (Some p) l" using T(6) Cons GtOf p other
        by (subst linked_cong [of l _ "sc_mem s"]) (simp, metis, simp)
      moreover have "ctx_linked (sc_mem s') c (Some p)" using T(6) Cons GtOf p other
        by (subst ctx_linked_cong [of c _ "sc_mem s"]) (metis, simp)
      moreover have "tree_of s' (plug d Leaf)" using calculation assms T(3-7) Cons GtOf p
        by (simp add: tree_of_def linked_plug root_of_plug inorder_plug) (simp add: s'_def upd_defs)
      moreover have "same_outside (set_tree (plug d (Node Leaf e Leaf))) s s'"
        using Cons GtOf other by (auto simp: same_outside_def set_plug)
      moreover have "unlinked s' e" using T(4,5) p by (simp add: unlinked_def s'_def upd_defs)
      ultimately show ?thesis by (auto simp: same_keys_def s'_def upd_defs)
    qed
  qed
qed

section \<open>The whole removal\<close>

lemma tree_of_pri [simp]: "tree_of (upd_entry s x (\<lambda>n. n\<lparr>se_pri := p\<rparr>)) t = tree_of s t"
  and tree_of_tv [simp]: "tree_of (upd_entry s x (\<lambda>n. n\<lparr>se_tv := tv\<rparr>)) t = tree_of s t"
  and tree_of_earliest [simp]: "tree_of (s\<lparr>sc_earliest_wakeup := w\<rparr>) t = tree_of s t"
  by (auto simp: tree_of_def upd_entry_def linked_cong [of t "(sc_mem s)(x := _)" "sc_mem s"])

lemma remove1_middle: "e \<notin> set xs \<Longrightarrow> remove1 e (xs @ e # ys) = xs @ ys"
  by (induction xs) auto

lemma schedule_remove_node_spec:
  assumes "tree_of s t" "e \<in> set_tree t" "heap_tree (pri_of s) t"
  shows "\<exists>s' t'. schedule_remove_node s e = Some s' \<and> tree_of s' t' \<and> inorder t' = remove1 e (inorder t) \<and>
    heap_tree (pri_of s') t' \<and> pri_of s' = (pri_of s)(e := 0) \<and> (\<forall>x. se_tv (sc_mem s' x) = se_tv (sc_mem s x)) \<and>
    sc_earliest_wakeup s' = sc_earliest_wakeup s \<and> unlinked s' e \<and> same_outside (set_tree t) s s'"
proof -
  obtain c l r where t: "t = plug c (Node l e r)" using split_tree [OF assms(2)] by blast
  from remove_loop_merges [OF assms(1) [unfolded t]] obtain s1 d where s1: "remove_loop s e = Some s1"
    "tree_of s1 (plug d (Node Leaf e Leaf))" "plug d Leaf = plug c (tmerge (pri_of s) l r)" "same_keys s s1"
    "same_outside (set_tree t) s s1" unfolding t by blast
  from detach_leaf [OF s1(2)] obtain s2 where s2: "schedule_detach_parent s1 (Some e) = Some s2" "tree_of s2 (plug d Leaf)"
    "unlinked s2 e" "same_keys s1 s2" "same_outside (set_tree (plug d (Node Leaf e Leaf))) s1 s2" by blast
  let ?s = "upd_entry s2 e (\<lambda>x. x\<lparr>se_pri := 0\<rparr>)"
  have keys: "same_keys s s2" by (rule same_keys_trans [OF s1(4) s2(4)])
  have inorder: "inorder (plug d Leaf) = ctx_left c @ inorder l @ inorder r @ ctx_right c"
    by (simp add: s1(3) inorder_plug)
  have dist: "distinct (inorder t)" using assms(1) by (simp add: tree_of_def)
  have rem: "inorder (plug d Leaf) = remove1 e (inorder t)"
    using remove1_middle [of e "ctx_left c @ inorder l" "inorder r @ ctx_right c"] dist
    unfolding inorder t by (simp add: inorder_plug [of c])
  have pri: "pri_of ?s = (pri_of s)(e := 0)"
    using same_keys_pri [OF keys] by (auto simp: pri_of_def upd_entry_def fun_eq_iff)
  have "heap_tree (pri_of s) (plug d Leaf)"
    using assms(3) heap_ctx_mono [of "pri_of s" c "set_tree (Node l e r)" "set_tree l \<union> set_tree r"]
    unfolding s1(3) t heap_plug by (auto simp: heap_tmerge)
  moreover have "e \<notin> set_tree (plug d Leaf)" using dist by (simp add: rem flip: set_inorder)
  ultimately have "heap_tree (pri_of ?s) (plug d Leaf)" unfolding pri by (subst heap_tree_cong [of _ _ "pri_of s"]) auto
  moreover have "set_tree (plug d (Node Leaf e Leaf)) = set_tree t"
    using arg_cong [OF s1(3), of set_tree] by (auto simp: set_plug t)
  then have "same_outside (set_tree t) s s2" using same_outside_trans [OF s1(5)] s2(5) by simp
  then have "same_outside (set_tree t) s ?s" using assms(2) by (auto simp: same_outside_def upd_entry_def)
  moreover have "schedule_remove_node s e = Some ?s" using s1(1) s2(1) by (simp add: schedule_remove_node_def)
  moreover have "unlinked ?s e" using s2(3) by (simp add: unlinked_def upd_entry_def)
  moreover have "tree_of ?s (plug d Leaf)" using s2(2) by simp
  moreover have "(\<forall>x. se_tv (sc_mem ?s x) = se_tv (sc_mem s x)) \<and> sc_earliest_wakeup ?s = sc_earliest_wakeup s"
    using keys by (auto simp: same_keys_def upd_entry_def)
  ultimately show ?thesis using rem pri by blast
qed

lemma schedule_remove_node_absent:
  assumes "unlinked s e" "sc_root s \<noteq> Some e"
  shows "schedule_remove_node s e = Some (upd_entry s e (\<lambda>x. x\<lparr>se_pri := 0\<rparr>))"
  using assms by (simp add: schedule_remove_node_def remove_loop.simps [of s e] schedule_detach_parent_def unlinked_def)

end
