(* ===== verification/ScheduleInsert.thy ===== *)
theory ScheduleInsert
  imports ScheduleRemove
begin

text \<open>
  Inserting an entry as a leaf of the search tree and rotating it up to its place in the heap, and
  finding the least entry.
\<close>

section \<open>The order of the entries\<close>

definition before :: "schedule \<Rightarrow> node \<Rightarrow> node \<Rightarrow> bool" where
  "before s x y \<longleftrightarrow> schedule_entry_compare (sc_mem s x) (sc_mem s y) = - 1"

lemma compare_cases:
  "schedule_entry_compare x y = - 1 \<or> schedule_entry_compare x y = 1 \<or> schedule_entry_compare x y = 0"
  by (simp add: schedule_entry_compare_def)

lemma compare_swap: "schedule_entry_compare x y = 1 \<longleftrightarrow> schedule_entry_compare y x = - 1"
  by (auto simp: schedule_entry_compare_def)

lemma compare_0: "schedule_entry_compare x y = 0 \<Longrightarrow> se_pri x = se_pri y"
  by (auto simp: schedule_entry_compare_def split: if_splits)

lemma before_trans: "before s x y \<Longrightarrow> before s y z \<Longrightarrow> before s x z"
  by (auto simp: before_def schedule_entry_compare_def split: if_splits)

lemma before_tv: "before s x y \<Longrightarrow> tv_le (se_tv (sc_mem s x)) (se_tv (sc_mem s y))"
  by (auto simp: before_def schedule_entry_compare_def tv_le_def split: if_splits)

lemma before_cong:
  "se_tv (sc_mem s' x) = se_tv (sc_mem s x) \<Longrightarrow> se_pri (sc_mem s' x) = se_pri (sc_mem s x) \<Longrightarrow>
   se_tv (sc_mem s' y) = se_tv (sc_mem s y) \<Longrightarrow> se_pri (sc_mem s' y) = se_pri (sc_mem s y) \<Longrightarrow> before s' x y = before s x y"
  by (simp add: before_def schedule_entry_compare_def)

lemma sorted_before_cong:
  assumes "\<And>x. x \<in> set xs \<Longrightarrow> se_tv (sc_mem s' x) = se_tv (sc_mem s x) \<and> se_pri (sc_mem s' x) = se_pri (sc_mem s x)"
  shows "sorted_wrt (before s') xs = sorted_wrt (before s) xs"
  using assms by (induction xs) (auto simp: before_cong [of s' _ s])

section \<open>Insertion as a leaf\<close>

text \<open>The two memory writes that hang \<open>e\<close> under the context's innermost node.\<close>

lemma attach_lt:
  assumes "tree_of s (plug c (Node Leaf a r))" "e \<notin> set_tree (plug c (Node Leaf a r))" "unlinked s e"
  defines "s' \<equiv> upd_entry (upd_entry s a (\<lambda>x. x\<lparr>se_lt := Some e\<rparr>)) e (\<lambda>x. x\<lparr>se_parent := Some a\<rparr>)"
  shows "tree_of s' (plug (LtOf a r # c) (Node Leaf e Leaf))" "same_keys s s'" "same_outside {a, e} s s'"
proof -
  note T = tree_of_plug_Node [OF assms(1)]
  have ne: "e \<noteq> a" "e \<notin> set_tree r" "e \<notin> set (ctx_left c) \<union> set (ctx_right c)" using assms(2) by (auto simp: set_plug)
  have other: "sc_mem s' x = sc_mem s x" if "x \<noteq> a" "x \<noteq> e" for x using that by (simp add: s'_def upd_entry_def)
  have m: "sc_mem s' a = (sc_mem s a)\<lparr>se_lt := Some e\<rparr>" "sc_mem s' e = (sc_mem s e)\<lparr>se_parent := Some a\<rparr>"
    using ne by (simp_all add: s'_def upd_entry_def)
  have "linked (sc_mem s') (Some a) r" using T(2,12) ne other by (subst linked_cong [of r _ "sc_mem s"]) (metis, simp)
  moreover have "ctx_linked (sc_mem s') c (Some a)" using T(6,14) ne other
    by (subst ctx_linked_cong [of c _ "sc_mem s"]) (metis Int_iff empty_iff insert_iff, simp)
  moreover have "sc_root s' = sc_root s" by (simp add: s'_def upd_entry_def)
  ultimately show "tree_of s' (plug (LtOf a r # c) (Node Leaf e Leaf))"
    using assms(1,3) ne m T(3-7) by (simp add: tree_of_def linked_plug root_of_plug inorder_plug unlinked_def)
  show "same_keys s s'" "same_outside {a, e} s s'"
    using other by (auto simp: same_keys_def s'_def upd_entry_def same_outside_def)
qed

lemma attach_gt:
  assumes "tree_of s (plug c (Node l a Leaf))" "e \<notin> set_tree (plug c (Node l a Leaf))" "unlinked s e"
  defines "s' \<equiv> upd_entry (upd_entry s a (\<lambda>x. x\<lparr>se_gt := Some e\<rparr>)) e (\<lambda>x. x\<lparr>se_parent := Some a\<rparr>)"
  shows "tree_of s' (plug (GtOf l a # c) (Node Leaf e Leaf))" "same_keys s s'" "same_outside {a, e} s s'"
proof -
  note T = tree_of_plug_Node [OF assms(1)]
  have ne: "e \<noteq> a" "e \<notin> set_tree l" "e \<notin> set (ctx_left c) \<union> set (ctx_right c)" using assms(2) by (auto simp: set_plug)
  have other: "sc_mem s' x = sc_mem s x" if "x \<noteq> a" "x \<noteq> e" for x using that by (simp add: s'_def upd_entry_def)
  have m: "sc_mem s' a = (sc_mem s a)\<lparr>se_gt := Some e\<rparr>" "sc_mem s' e = (sc_mem s e)\<lparr>se_parent := Some a\<rparr>"
    using ne by (simp_all add: s'_def upd_entry_def)
  have "linked (sc_mem s') (Some a) l" using T(1,11) ne other by (subst linked_cong [of l _ "sc_mem s"]) (metis, simp)
  moreover have "ctx_linked (sc_mem s') c (Some a)" using T(6,14) ne other
    by (subst ctx_linked_cong [of c _ "sc_mem s"]) (metis Int_iff empty_iff insert_iff, simp)
  moreover have "sc_root s' = sc_root s" by (simp add: s'_def upd_entry_def)
  ultimately show "tree_of s' (plug (GtOf l a # c) (Node Leaf e Leaf))"
    using assms(1,3) ne m T(3-7) by (simp add: tree_of_def linked_plug root_of_plug inorder_plug unlinked_def)
  show "same_keys s s'" "same_outside {a, e} s s'"
    using other by (auto simp: same_keys_def s'_def upd_entry_def same_outside_def)
qed

text \<open>What an insertion without a collision reaches.\<close>

definition inserted :: "schedule \<Rightarrow> node tree \<Rightarrow> node \<Rightarrow> schedule \<Rightarrow> bool" where
  "inserted s t e s' \<longleftrightarrow> (\<exists>d. tree_of s' (plug d (Node Leaf e Leaf)) \<and> plug d Leaf = t \<and>
     (\<forall>x \<in> set (ctx_left d). before s x e) \<and> (\<forall>x \<in> set (ctx_right d). before s e x) \<and>
     same_keys s s' \<and> same_outside (insert e (set_tree t)) s s')"

lemma insert_loop_descends:
  assumes "tree_of s (plug c (Node l a r))" "e \<notin> set_tree (plug c (Node l a r))" "unlinked s e"
    "\<forall>x \<in> set (ctx_left c). before s x e" "\<forall>x \<in> set (ctx_right c). before s e x"
    "sorted_wrt (before s) (inorder (plug c (Node l a r)))"
  shows "(\<exists>s'. insert_loop s e (Some a) rnd = Some (s', rnd) \<and> inserted s (plug c (Node l a r)) e s') \<or>
    ((\<exists>x \<in> set_tree (plug c (Node l a r)). pri_of s x = pri_of s e) \<and>
     insert_loop s e (Some a) rnd = Option.bind (schedule_set_pri s e rnd) (\<lambda>(s, rnd). insert_loop s e (sc_root s) rnd))"
  using assms
proof (induction "Node l a r" arbitrary: c l a r rule: measure_induct_rule [where f = size])
  case less
  note n = tree_of_node [OF less.prems(1)]
  have left: "before s x a" if "x \<in> set_tree l" for x
    using less.prems(6) that by (auto simp: inorder_plug sorted_wrt_append)
  have right: "before s a x" if "x \<in> set_tree r" for x
    using less.prems(6) that by (auto simp: inorder_plug sorted_wrt_append)
  consider "before s e a" | "before s a e" | "schedule_entry_compare (sc_mem s e) (sc_mem s a) = 0"
    using compare_cases [of "sc_mem s e" "sc_mem s a"] compare_swap by (auto simp: before_def)
  then show ?case
  proof cases
    case 1
    then have comp: "schedule_entry_compare (sc_mem s e) (sc_mem s a) = - 1" by (simp add: before_def)
    have rights: "\<forall>x \<in> set (ctx_right (LtOf a r # c)). before s e x"
      using less.prems(5) 1 right before_trans [OF 1] by auto
    show ?thesis
    proof (cases l)
      case Leaf
      note at = attach_lt [OF less.prems(1-3) [unfolded Leaf]]
      have "inserted s (plug c (Node l a r)) e (upd_entry (upd_entry s a (\<lambda>x. x\<lparr>se_lt := Some e\<rparr>)) e (\<lambda>x. x\<lparr>se_parent := Some a\<rparr>))"
        unfolding inserted_def using at less.prems(4) rights Leaf
        by (intro exI [of _ "LtOf a r # c"]) (auto simp: set_plug elim: same_outside_mono)
      moreover have "insert_loop s e (Some a) rnd = Some (upd_entry (upd_entry s a (\<lambda>x. x\<lparr>se_lt := Some e\<rparr>)) e (\<lambda>x. x\<lparr>se_parent := Some a\<rparr>), rnd)"
        using n comp Leaf by (subst insert_loop.simps) simp
      ultimately show ?thesis by blast
    next
      case (Node l' a' r')
      have "insert_loop s e (Some a) rnd = insert_loop s e (Some a') rnd"
        using n comp Node by (subst insert_loop.simps) simp
      with less.hyps [of l' a' r' "LtOf a r # c"] Node less.prems rights show ?thesis by simp
    qed
  next
    case 2
    then have comp: "schedule_entry_compare (sc_mem s e) (sc_mem s a) = 1" by (simp add: before_def compare_swap)
    have lefts: "\<forall>x \<in> set (ctx_left (GtOf l a # c)). before s x e"
      using less.prems(4) 2 left before_trans [OF _ 2] by auto
    show ?thesis
    proof (cases r)
      case Leaf
      note at = attach_gt [OF less.prems(1-3) [unfolded Leaf]]
      have "inserted s (plug c (Node l a r)) e (upd_entry (upd_entry s a (\<lambda>x. x\<lparr>se_gt := Some e\<rparr>)) e (\<lambda>x. x\<lparr>se_parent := Some a\<rparr>))"
        unfolding inserted_def using at less.prems(5) lefts Leaf
        by (intro exI [of _ "GtOf l a # c"]) (auto simp: set_plug elim: same_outside_mono)
      moreover have "insert_loop s e (Some a) rnd = Some (upd_entry (upd_entry s a (\<lambda>x. x\<lparr>se_gt := Some e\<rparr>)) e (\<lambda>x. x\<lparr>se_parent := Some a\<rparr>), rnd)"
        using n comp Leaf by (subst insert_loop.simps) simp
      ultimately show ?thesis by blast
    next
      case (Node l' a' r')
      have "insert_loop s e (Some a) rnd = insert_loop s e (Some a') rnd"
        using n comp Node by (subst insert_loop.simps) simp
      with less.hyps [of l' a' r' "GtOf l a # c"] Node less.prems lefts show ?thesis by simp
    qed
  next
    case 3
    then have "pri_of s a = pri_of s e" by (simp add: pri_of_def compare_0)
    moreover have "insert_loop s e (Some a) rnd = Option.bind (schedule_set_pri s e rnd) (\<lambda>(s, rnd). insert_loop s e (sc_root s) rnd)"
      using 3 by (subst insert_loop.simps) simp
    ultimately show ?thesis by (auto simp: set_plug)
  qed
qed

text \<open>With a random value that no entry of the tree has, the loop ends.\<close>

lemma insert_loop_spec:
  assumes "tree_of s t" "root_of t = Some a" "e \<notin> set_tree t" "unlinked s e" "pri_of s e \<noteq> 0" "sorted_wrt (before s) (inorder t)"
    "pri_of s e \<notin> pri_of s ` set_tree t \<or> (\<exists>r \<in> set rnd. clamp_pri r \<notin> pri_of s ` set_tree t)"
  shows "\<exists>s' rnd' p. insert_loop s e (Some a) rnd = Some (s', rnd') \<and> p \<noteq> 0 \<and> inserted (upd_entry s e (\<lambda>x. x\<lparr>se_pri := p\<rparr>)) t e s'"
  using assms
proof (induction rnd arbitrary: s)
  case Nil
  obtain l r where t: "t = plug [] (Node l a r)" using Nil.prems(2) by (cases t) auto
  have "upd_entry s e (\<lambda>x. x\<lparr>se_pri := pri_of s e\<rparr>) = s" by (simp add: upd_entry_def pri_of_def)
  moreover have "\<not> (\<exists>x \<in> set_tree t. pri_of s x = pri_of s e)" using Nil.prems(7) by (metis empty_iff image_eqI list.set(1))
  moreover have "(\<exists>s'. insert_loop s e (Some a) [] = Some (s', []) \<and> inserted s t e s') \<or> (\<exists>x \<in> set_tree t. pri_of s x = pri_of s e)"
    using insert_loop_descends [of s "[]" l a r e "[]"] Nil.prems t by auto
  ultimately show ?case using Nil.prems(5) by metis
next
  case (Cons q rnd)
  obtain l r where t: "t = plug [] (Node l a r)" using Cons.prems(2) by (cases t) auto
  let ?s = "upd_entry s e (\<lambda>x. x\<lparr>se_pri := clamp_pri q\<rparr>)"
  have "(\<exists>s'. insert_loop s e (Some a) (q # rnd) = Some (s', q # rnd) \<and> inserted s t e s') \<or>
      ((\<exists>x \<in> set_tree t. pri_of s x = pri_of s e) \<and> insert_loop s e (Some a) (q # rnd) = insert_loop ?s e (sc_root ?s) rnd)"
    using insert_loop_descends [of s "[]" l a r e "q # rnd"] Cons.prems t by (auto simp: schedule_set_pri_def)
  then show ?case
  proof (elim disjE conjE)
    assume "\<exists>s'. insert_loop s e (Some a) (q # rnd) = Some (s', q # rnd) \<and> inserted s t e s'"
    moreover have "upd_entry s e (\<lambda>x. x\<lparr>se_pri := pri_of s e\<rparr>) = s" by (simp add: upd_entry_def pri_of_def)
    ultimately show ?thesis using Cons.prems(5) by metis
  next
    assume coll: "\<exists>x \<in> set_tree t. pri_of s x = pri_of s e" and run: "insert_loop s e (Some a) (q # rnd) = insert_loop ?s e (sc_root ?s) rnd"
    have pri: "pri_of ?s x = (if x = e then clamp_pri q else pri_of s x)" for x by (simp add: pri_of_def upd_entry_def)
    then have img: "pri_of ?s ` set_tree t = pri_of s ` set_tree t" using Cons.prems(3) by (intro image_cong) auto
    have "tree_of ?s t" using Cons.prems(1) by simp
    moreover have "unlinked ?s e" using Cons.prems(4) by (simp add: unlinked_def upd_entry_def)
    moreover have "pri_of ?s e \<noteq> 0" unfolding pri by (simp add: clamp_pri_def)
    moreover have "sorted_wrt (before ?s) (inorder t)"
      using Cons.prems(3,6) by (subst sorted_before_cong [of _ _ s]) (auto simp: upd_entry_def)
    moreover have "pri_of ?s e \<notin> pri_of ?s ` set_tree t \<or> (\<exists>r \<in> set rnd. clamp_pri r \<notin> pri_of ?s ` set_tree t)"
    proof -
      have "pri_of s e \<in> pri_of s ` set_tree t" using coll by (metis imageI)
      then have "\<exists>r \<in> set (q # rnd). clamp_pri r \<notin> pri_of s ` set_tree t" using Cons.prems(7) by simp
      moreover have "pri_of ?s e = clamp_pri q" by (simp add: pri)
      ultimately show ?thesis unfolding img by auto
    qed
    moreover have "sc_root ?s = Some a" using Cons.prems(1,2) by (simp add: upd_entry_def tree_of_def)
    moreover have "upd_entry ?s e (\<lambda>x. x\<lparr>se_pri := p\<rparr>) = upd_entry s e (\<lambda>x. x\<lparr>se_pri := p\<rparr>)" for p
      by (simp add: upd_entry_def)
    ultimately show ?thesis using Cons.IH [of ?s] Cons.prems(2,3) run by simp
  qed
qed

section \<open>Rotating up\<close>

lemma heap_ctx_insert:
  "heap_ctx pri c S \<Longrightarrow> ctx_parent c = Some p \<Longrightarrow> pri p \<le> pri e \<Longrightarrow> heap_ctx pri c (insert e S)"
proof (induction pri c S arbitrary: p rule: heap_ctx.induct)
  case (2 pri a r c S)
  have "heap_ctx pri c (insert e (insert a (S \<union> set_tree r)))"
  proof (cases "ctx_parent c")
    case None
    then show ?thesis by (cases c rule: ctx_parent.cases) auto
  next
    case (Some q)
    have "pri q \<le> pri a" using 2(2) Some by (cases c rule: ctx_parent.cases) auto
    with 2(3,4) have "pri q \<le> pri e" by (auto intro: order_trans)
    then show ?thesis using 2 Some by auto
  qed
  moreover have "insert e (insert a (S \<union> set_tree r)) = insert a (insert e S \<union> set_tree r)" by auto
  ultimately show ?case using 2(2-4) by auto
next
  case (3 pri l a c S)
  have "heap_ctx pri c (insert e (insert a (S \<union> set_tree l)))"
  proof (cases "ctx_parent c")
    case None
    then show ?thesis by (cases c rule: ctx_parent.cases) auto
  next
    case (Some q)
    have "pri q \<le> pri a" using 3(2) Some by (cases c rule: ctx_parent.cases) auto
    with 3(3,4) have "pri q \<le> pri e" by (auto intro: order_trans)
    then show ?thesis using 3 Some by auto
  qed
  moreover have "insert e (insert a (S \<union> set_tree l)) = insert a (insert e S \<union> set_tree l)" by auto
  ultimately show ?case using 3(2-4) by auto
qed simp

lemma rotate_loop_heap:
  "tree_of s (plug c (Node a e b)) \<Longrightarrow> heap_tree (pri_of s) (Node a e b) \<Longrightarrow> heap_ctx (pri_of s) c (set_tree a \<union> set_tree b) \<Longrightarrow>
   \<exists>s' t. rotate_loop s e = Some s' \<and> tree_of s' t \<and> inorder t = inorder (plug c (Node a e b)) \<and> heap_tree (pri_of s) t \<and>
     same_keys s s' \<and> same_outside (set_tree (plug c (Node a e b))) s s'"
proof (induction c arbitrary: s a b)
  case Nil
  then have "rotate_loop s e = Some s" using tree_of_node [OF Nil.prems(1)] by (subst rotate_loop.simps) simp
  then show ?case using Nil.prems by (intro exI [of _ s] exI [of _ "Node a e b"]) simp
next
  case (Cons f c)
  note n = tree_of_node [OF Cons.prems(1)]
  obtain p where p: "ctx_parent (f # c) = Some p" by (cases f) auto
  show ?case
  proof (cases "pri_of s p > pri_of s e")
    case False
    have "heap_ctx (pri_of s) (f # c) (insert e (set_tree a \<union> set_tree b))"
      by (rule heap_ctx_insert [OF Cons.prems(3) p]) (use False in simp)
    then have "heap_ctx (pri_of s) (f # c) (set_tree (Node a e b))" by simp
    moreover have "rotate_loop s e = Some s" using n p False by (subst rotate_loop.simps) (simp add: pri_of_def)
    ultimately show ?thesis using Cons.prems(1,2)
      by (intro exI [of _ s] exI [of _ "plug (f # c) (Node a e b)"]) (simp only: heap_plug inorder_plug same_keys_refl same_outside_refl simp_thms)
  next
    case True
    then have step: "rotate_loop s e = Option.bind (schedule_rotate_up s (Some e)) (\<lambda>s. rotate_loop s e)"
      using n p by (subst rotate_loop.simps) (simp add: pri_of_def)
    have order: "pri_of s e \<le> pri_of s p" using True by simp
    show ?thesis
    proof (cases f)
      case (LtOf q r)
      then have q: "q = p" using p by simp
      from rotate_lt [of s c a e b p r] Cons.prems(1) LtOf q obtain s1 where s1: "schedule_rotate_up s (Some e) = Some s1"
        "tree_of s1 (plug c (Node a e (Node b p r)))" "same_keys s s1" "same_outside (set_tree (plug (f # c) (Node a e b))) s s1" by auto
      have h: "heap_tree (pri_of s) r" "\<forall>x \<in> set_tree a \<union> set_tree b \<union> set_tree r. pri_of s p \<le> pri_of s x"
        "heap_ctx (pri_of s) c (insert p (set_tree a \<union> set_tree b \<union> set_tree r))"
        using Cons.prems(3) unfolding LtOf q heap_ctx.simps by auto
      have heap: "heap_tree (pri_of s1) (Node a e (Node b p r))"
        using Cons.prems(2) h(1,2) order unfolding same_keys_pri [OF s1(3)] by (auto intro: order_trans)
      have "set_tree a \<union> set_tree (Node b p r) = insert p (set_tree a \<union> set_tree b \<union> set_tree r)" by auto
      then have ctx: "heap_ctx (pri_of s1) c (set_tree a \<union> set_tree (Node b p r))"
        using h(3) unfolding same_keys_pri [OF s1(3)] by simp
      have same: "inorder (plug c (Node a e (Node b p r))) = inorder (plug (f # c) (Node a e b))"
        "set_tree (plug c (Node a e (Node b p r))) = set_tree (plug (f # c) (Node a e b))"
        unfolding LtOf q by (auto simp: inorder_plug set_plug)
      show ?thesis using Cons.IH [OF s1(2) heap ctx] s1 step unfolding same same_keys_pri [OF s1(3)]
        by (auto intro: same_keys_trans same_outside_trans)
    next
      case (GtOf r q)
      then have q: "q = p" using p by simp
      from rotate_gt [of s c r p a e b] Cons.prems(1) GtOf q obtain s1 where s1: "schedule_rotate_up s (Some e) = Some s1"
        "tree_of s1 (plug c (Node (Node r p a) e b))" "same_keys s s1" "same_outside (set_tree (plug (f # c) (Node a e b))) s s1" by auto
      have h: "heap_tree (pri_of s) r" "\<forall>x \<in> set_tree a \<union> set_tree b \<union> set_tree r. pri_of s p \<le> pri_of s x"
        "heap_ctx (pri_of s) c (insert p (set_tree a \<union> set_tree b \<union> set_tree r))"
        using Cons.prems(3) unfolding GtOf q heap_ctx.simps by auto
      have heap: "heap_tree (pri_of s1) (Node (Node r p a) e b)"
        using Cons.prems(2) h(1,2) order unfolding same_keys_pri [OF s1(3)] by (auto intro: order_trans)
      have "set_tree (Node r p a) \<union> set_tree b = insert p (set_tree a \<union> set_tree b \<union> set_tree r)" by auto
      then have ctx: "heap_ctx (pri_of s1) c (set_tree (Node r p a) \<union> set_tree b)"
        using h(3) unfolding same_keys_pri [OF s1(3)] by simp
      have same: "inorder (plug c (Node (Node r p a) e b)) = inorder (plug (f # c) (Node a e b))"
        "set_tree (plug c (Node (Node r p a) e b)) = set_tree (plug (f # c) (Node a e b))"
        unfolding GtOf q by (auto simp: inorder_plug set_plug)
      show ?thesis using Cons.IH [OF s1(2) heap ctx] s1 step unfolding same same_keys_pri [OF s1(3)]
        by (auto intro: same_keys_trans same_outside_trans)
    qed
  qed
qed

end
