(* ===== verification/Refinement.thy ===== *)
theory Refinement
  imports Prelude
begin

text \<open>
  Data refinement: an implementation whose every operation, where its precondition holds, returns
  what an abstract machine returns does so over every sequence of operations.
\<close>

fun run_steps :: "('s \<Rightarrow> 'o \<Rightarrow> ('r \<times> 's) option) \<Rightarrow> 's \<Rightarrow> 'o list \<Rightarrow> ('r list \<times> 's) option" where
  "run_steps step s [] = Some ([], s)"
| "run_steps step s (x # xs) = do {
     (r, s) \<leftarrow> step s x;
     (rs, s) \<leftarrow> run_steps step s xs;
     Some (r # rs, s) }"

fun run_spec :: "('a \<Rightarrow> 'o \<Rightarrow> 'r \<times> 'a) \<Rightarrow> 'a \<Rightarrow> 'o list \<Rightarrow> 'r list \<times> 'a" where
  "run_spec spec a [] = ([], a)"
| "run_spec spec a (x # xs) = (case spec a x of (r, a) \<Rightarrow> case run_spec spec a xs of (rs, a) \<Rightarrow> (r # rs, a))"

fun run_pre :: "('a \<Rightarrow> 'o \<Rightarrow> 'r \<times> 'a) \<Rightarrow> ('a \<Rightarrow> 'o \<Rightarrow> bool) \<Rightarrow> 'a \<Rightarrow> 'o list \<Rightarrow> bool" where
  "run_pre spec pre a [] = True"
| "run_pre spec pre a (x # xs) = (pre a x \<and> run_pre spec pre (snd (spec a x)) xs)"

locale data_refinement =
  fixes inv :: "'s \<Rightarrow> bool" and abs :: "'s \<Rightarrow> 'a" and pre :: "'a \<Rightarrow> 'o \<Rightarrow> bool"
    and step :: "'s \<Rightarrow> 'o \<Rightarrow> ('r \<times> 's) option" and spec :: "'a \<Rightarrow> 'o \<Rightarrow> 'r \<times> 'a"
  assumes step_spec: "inv s \<Longrightarrow> pre (abs s) x \<Longrightarrow>
    \<exists>s'. step s x = Some (fst (spec (abs s) x), s') \<and> inv s' \<and> abs s' = snd (spec (abs s) x)"
begin

lemma run_refines:
  "inv s \<Longrightarrow> run_pre spec pre (abs s) xs \<Longrightarrow>
   \<exists>s'. run_steps step s xs = Some (fst (run_spec spec (abs s) xs), s') \<and> inv s' \<and>
     abs s' = snd (run_spec spec (abs s) xs)"
proof (induction xs arbitrary: s)
  case (Cons x xs)
  obtain s1 where s1: "step s x = Some (fst (spec (abs s) x), s1)" "inv s1" "abs s1 = snd (spec (abs s) x)"
    using step_spec [OF Cons.prems(1), of x] Cons.prems(2) by auto
  then obtain s2 where "run_steps step s1 xs = Some (fst (run_spec spec (abs s1) xs), s2)" "inv s2"
    "abs s2 = snd (run_spec spec (abs s1) xs)"
    using Cons.IH [OF s1(2)] Cons.prems(2) by auto
  then show ?case using s1 by (simp split: prod.splits)
qed simp

end

end
