(* ===== verification/ScheduleProps.thy ===== *)
theory ScheduleProps
  imports ScheduleInsert Refinement
begin

text \<open>
  The scheduler as a map from entries to wakeup times: the invariant of the treap, and the refinement
  over every sequence of the public operations.
\<close>

section \<open>Adding or moving an entry\<close>

text \<open>The treap of a scheduler; \<open>xs\<close> are its entries in the order of their wakeup times.\<close>

definition treap :: "schedule \<Rightarrow> node list \<Rightarrow> bool" where
  "treap s xs \<longleftrightarrow> (\<exists>t. tree_of s t \<and> inorder t = xs \<and> heap_tree (pri_of s) t) \<and> sorted_wrt (before s) xs \<and>
     (\<forall>x. pri_of s x \<noteq> 0 \<longleftrightarrow> x \<in> set xs) \<and> (\<forall>x. x \<notin> set xs \<longrightarrow> unlinked s x)"

definition same_tv :: "schedule \<Rightarrow> schedule \<Rightarrow> bool" where
  "same_tv s s' \<longleftrightarrow> (\<forall>x. se_tv (sc_mem s' x) = se_tv (sc_mem s x)) \<and> sc_earliest_wakeup s' = sc_earliest_wakeup s"

lemma same_keys_tv: "same_keys s s' \<Longrightarrow> same_tv s s'"
  by (simp add: same_keys_def same_tv_def)

lemma same_tv_trans: "same_tv s s' \<Longrightarrow> same_tv s' s'' \<Longrightarrow> same_tv s s''"
  by (simp add: same_tv_def)

lemma same_tv_pri [simp]: "same_tv s (upd_entry s e (\<lambda>x. x\<lparr>se_pri := p\<rparr>))"
  by (simp add: same_tv_def upd_entry_def)

lemma unlinked_outside: "same_outside A s s' \<Longrightarrow> x \<notin> A \<Longrightarrow> unlinked s' x = unlinked s x"
  by (simp add: same_outside_def unlinked_def)

lemma treapI:
  "tree_of s t \<Longrightarrow> inorder t = xs \<Longrightarrow> heap_tree (pri_of s) t \<Longrightarrow> sorted_wrt (before s) xs \<Longrightarrow>
   (\<And>x. pri_of s x \<noteq> 0 \<longleftrightarrow> x \<in> set xs) \<Longrightarrow> (\<And>x. x \<notin> set xs \<Longrightarrow> unlinked s x) \<Longrightarrow> treap s xs"
  unfolding treap_def by blast

text \<open>Taking out an entry, whether it is there or not; its own wakeup time may have changed already.\<close>

lemma remove_treap:
  assumes t: "tree_of s t" "inorder t = xs" "heap_tree (pri_of s) t" "\<And>x. pri_of s x \<noteq> 0 \<longleftrightarrow> x \<in> set xs"
      "\<And>x. x \<notin> set xs \<Longrightarrow> unlinked s x"
    and sorted: "sorted_wrt (before s) (remove1 e xs)"
  shows "\<exists>s'. schedule_remove_node s e = Some s' \<and> treap s' (remove1 e xs) \<and> same_tv s s'"
proof (cases "e \<in> set xs")
  case True
  then have "e \<in> set_tree t" using t(2) by (metis set_inorder)
  from schedule_remove_node_spec [OF t(1) this t(3)] obtain s' t' where s': "schedule_remove_node s e = Some s'" "tree_of s' t'"
    "inorder t' = remove1 e xs" "heap_tree (pri_of s') t'" "pri_of s' = (pri_of s)(e := 0)"
    "\<forall>x. se_tv (sc_mem s' x) = se_tv (sc_mem s x)" "sc_earliest_wakeup s' = sc_earliest_wakeup s" "unlinked s' e"
    "same_outside (set_tree t) s s'" using t(2) by auto
  have d: "distinct xs" using t(1,2) by (simp add: tree_of_def)
  have "treap s' (remove1 e xs)"
  proof (rule treapI [OF s'(2-4)])
    have pri: "se_pri (sc_mem s' x) = se_pri (sc_mem s x)" if "x \<noteq> e" for x
      using fun_cong [OF s'(5), of x] that by (simp add: pri_of_def)
    have "x \<noteq> e" if "x \<in> set (remove1 e xs)" for x using that d by auto
    then show "sorted_wrt (before s') (remove1 e xs)" using sorted s'(6) pri by (subst sorted_before_cong [of _ _ s]) blast+
    show "pri_of s' x \<noteq> 0 \<longleftrightarrow> x \<in> set (remove1 e xs)" for x using s'(5) t(4) [of x] d by simp
    show "unlinked s' x" if "x \<notin> set (remove1 e xs)" for x
    proof (cases "x = e")
      case False
      then have "x \<notin> set xs" using that by (simp add: in_set_remove1)
      moreover have "set_tree t = set xs" using t(2) by (metis set_inorder)
      ultimately show ?thesis using unlinked_outside [OF s'(9)] t(5) by blast
    qed (use s'(8) in simp)
  qed
  then show ?thesis using s' by (auto simp: same_tv_def)
next
  case False
  then have "e \<notin> set_tree t" using t(2) by (metis set_inorder)
  then have "sc_root s \<noteq> Some e" using t(1) root_of_in [of t e] by (auto simp: tree_of_def)
  then have r: "schedule_remove_node s e = Some (upd_entry s e (\<lambda>x. x\<lparr>se_pri := 0\<rparr>))"
    by (rule schedule_remove_node_absent [OF t(5) [OF False]])
  have "se_pri (sc_mem s e) = 0" using t(4) [of e] False by (simp add: pri_of_def)
  then have "(sc_mem s e)\<lparr>se_pri := 0\<rparr> = sc_mem s e" by (cases "sc_mem s e") simp
  then have "upd_entry s e (\<lambda>x. x\<lparr>se_pri := 0\<rparr>) = s" by (simp add: upd_entry_def)
  then show ?thesis using r t sorted False by (auto simp: remove1_idem same_tv_def intro!: treapI)
qed

text \<open>The entry on its way up: an entry \<open>e\<close> with a fresh priority hangs in the tree as a leaf.\<close>

lemma rotate_treap:
  assumes "tree_of s (plug d (Node Leaf e Leaf))" "treap s0 (inorder (plug d Leaf))" "heap_tree (pri_of s0) (plug d Leaf)"
    "\<forall>x \<in> set (ctx_left d). before s x e" "\<forall>x \<in> set (ctx_right d). before s e x"
    "\<And>x. x \<noteq> e \<Longrightarrow> se_tv (sc_mem s x) = se_tv (sc_mem s0 x) \<and> se_pri (sc_mem s x) = se_pri (sc_mem s0 x)" "pri_of s e \<noteq> 0"
    "same_outside (insert e (set_tree (plug d Leaf))) s0 s"
  shows "\<exists>s'. rotate_loop s e = Some s' \<and> treap s' (ctx_left d @ e # ctx_right d) \<and> same_keys s s'"
proof -
  have dist: "distinct (ctx_left d @ e # ctx_right d)" using assms(1) by (simp add: tree_of_def inorder_plug)
  have pri: "pri_of s x = pri_of s0 x" if "x \<noteq> e" for x using assms(6) [OF that] by (simp add: pri_of_def)
  have "e \<notin> set_tree (plug d Leaf)" using dist by (simp add: set_plug)
  then have "heap_tree (pri_of s) (plug d Leaf)" using assms(3) pri by (subst heap_tree_cong [of _ _ "pri_of s0"]) metis+
  then have "heap_ctx (pri_of s) d (set_tree Leaf \<union> set_tree Leaf)" by (simp add: heap_plug)
  from rotate_loop_heap [OF assms(1) _ this] obtain s' t where s': "rotate_loop s e = Some s'" "tree_of s' t"
    "inorder t = inorder (plug d (Node Leaf e Leaf))" "heap_tree (pri_of s) t" "same_keys s s'"
    "same_outside (set_tree (plug d (Node Leaf e Leaf))) s s'" by auto
  have old: "sorted_wrt (before s0) (ctx_left d @ ctx_right d)" "\<And>x. pri_of s0 x \<noteq> 0 \<longleftrightarrow> x \<in> set (ctx_left d @ ctx_right d)"
    "\<And>x. x \<notin> set (ctx_left d @ ctx_right d) \<Longrightarrow> unlinked s0 x"
    using assms(2) by (auto simp: treap_def inorder_plug)
  have "sorted_wrt (before s) (ctx_left d @ ctx_right d)"
  proof (subst sorted_before_cong [of _ _ s0])
    show "se_tv (sc_mem s x) = se_tv (sc_mem s0 x) \<and> se_pri (sc_mem s x) = se_pri (sc_mem s0 x)"
      if "x \<in> set (ctx_left d @ ctx_right d)" for x
      by (rule assms(6)) (use that dist in auto)
  qed (rule old(1))
  then have sorted: "sorted_wrt (before s) (ctx_left d @ e # ctx_right d)"
    using assms(4,5) by (simp add: sorted_wrt_append)
  have "treap s' (ctx_left d @ e # ctx_right d)"
  proof (rule treapI [OF s'(2)])
    show "inorder t = ctx_left d @ e # ctx_right d" using s'(3) by (simp add: inorder_plug)
    show "heap_tree (pri_of s') t" using s'(4) by (simp add: same_keys_pri [OF s'(5)])
    show "sorted_wrt (before s') (ctx_left d @ e # ctx_right d)"
      using sorted s'(5) by (subst sorted_before_cong [of _ _ s]) (simp_all add: same_keys_def)
    show "pri_of s' x \<noteq> 0 \<longleftrightarrow> x \<in> set (ctx_left d @ e # ctx_right d)" for x
      using old(2) [of x] pri [of x] assms(7) dist by (cases "x = e") (auto simp: same_keys_pri [OF s'(5)])
    show "unlinked s' x" if "x \<notin> set (ctx_left d @ e # ctx_right d)" for x
      using that old(3) [of x] unlinked_outside [OF s'(6), of x] unlinked_outside [OF assms(8), of x] by (simp add: set_plug)
  qed
  then show ?thesis using s' by blast
qed

lemma card_clamp_fresh:
  assumes "length xs < card (clamp_pri ` set rnd)"
  shows "\<exists>r \<in> set rnd. clamp_pri r \<notin> f ` set xs"
proof (rule ccontr)
  assume "\<not> ?thesis"
  then have "clamp_pri ` set rnd \<subseteq> f ` set xs" by auto
  then have "card (clamp_pri ` set rnd) \<le> card (f ` set xs)" by (intro card_mono) auto
  also have "\<dots> \<le> length xs" using card_image_le [of "set xs" f] card_length [of xs] by simp
  finally show False using assms by simp
qed

text \<open>
  A fresh priority for an entry outside the tree. The list of random values has to hold more
  different priorities than there are entries.
\<close>

lemma add_treap:
  assumes t: "treap s xs" "e \<notin> set xs" and rnd: "length xs < card (clamp_pri ` set rnd)"
  shows "\<exists>s' rnd' ys. Option.bind (schedule_set_pri s e rnd) (\<lambda>(s, rnd). do {
      (s, rnd) \<leftarrow> (if sc_root s \<noteq> None then schedule_insert s e rnd else Some (s\<lparr>sc_root := Some e\<rparr>, rnd));
      s \<leftarrow> rotate_loop s e;
      Some (s, rnd) }) = Some (s', rnd') \<and> treap s' ys \<and> set ys = insert e (set xs) \<and> length ys = Suc (length xs) \<and> same_tv s s'"
proof -
  obtain q rnd1 where q: "rnd = q # rnd1" using rnd by (cases rnd) auto
  let ?s = "upd_entry s e (\<lambda>x. x\<lparr>se_pri := clamp_pri q\<rparr>)"
  obtain t where tr: "tree_of s t" "inorder t = xs" "heap_tree (pri_of s) t" using t(1) by (auto simp: treap_def)
  have set_t: "set_tree t = set xs" using tr(2) by (metis set_inorder)
  have s: "tree_of ?s t" "unlinked ?s e" "pri_of ?s e = clamp_pri q" "clamp_pri q \<noteq> 0"
  proof -
    show "tree_of ?s t" using tr(1) by simp
    have "unlinked s e" using t unfolding treap_def by blast
    then show "unlinked ?s e" by (simp add: unlinked_def upd_entry_def)
  qed (simp_all add: pri_of_def upd_entry_def clamp_pri_def)
  have keys: "se_tv (sc_mem ?s x) = se_tv (sc_mem s x) \<and> (x \<noteq> e \<longrightarrow> se_pri (sc_mem ?s x) = se_pri (sc_mem s x))" for x
    by (simp add: upd_entry_def)
  have "\<exists>s1 rnd' d. (if sc_root ?s \<noteq> None then schedule_insert ?s e rnd1 else Some (?s\<lparr>sc_root := Some e\<rparr>, rnd1)) = Some (s1, rnd') \<and>
      tree_of s1 (plug d (Node Leaf e Leaf)) \<and> plug d Leaf = t \<and>
      (\<forall>x \<in> set (ctx_left d). before s1 x e) \<and> (\<forall>x \<in> set (ctx_right d). before s1 e x) \<and>
      (\<forall>x. x \<noteq> e \<longrightarrow> se_pri (sc_mem s1 x) = se_pri (sc_mem s x)) \<and> pri_of s1 e \<noteq> 0 \<and> same_tv s s1 \<and>
      same_outside (insert e (set_tree t)) s s1"
  proof (cases t)
    case Leaf
    then have "sc_root ?s = None" using s(1) by (simp add: tree_of_def)
    moreover have "tree_of (?s\<lparr>sc_root := Some e\<rparr>) (plug [] (Node Leaf e Leaf))"
      using s(2) by (simp add: tree_of_def unlinked_def)
    ultimately show ?thesis using s(3,4) Leaf
      by (intro exI [of _ "?s\<lparr>sc_root := Some e\<rparr>"] exI [of _ rnd1] exI [of _ "[]"])
        (simp add: pri_of_def same_tv_def same_outside_def upd_entry_def)
  next
    case (Node l a r)
    then have root: "root_of t = Some a" "sc_root ?s = Some a" using s(1) by (simp_all add: tree_of_def)
    have "sorted_wrt (before ?s) (inorder t)"
    proof (subst sorted_before_cong [of _ _ s])
      show "se_tv (sc_mem ?s x) = se_tv (sc_mem s x) \<and> se_pri (sc_mem ?s x) = se_pri (sc_mem s x)" if "x \<in> set (inorder t)" for x
        using keys [of x] that t(2) unfolding tr(2) by metis
    qed (use t(1) tr(2) in \<open>simp add: treap_def\<close>)
    moreover have "pri_of ?s e \<notin> pri_of ?s ` set_tree t \<or> (\<exists>r \<in> set rnd1. clamp_pri r \<notin> pri_of ?s ` set_tree t)"
      using card_clamp_fresh [OF rnd, of "pri_of ?s"] s(3) unfolding q set_t by auto
    ultimately obtain s1 rnd' p where s1: "insert_loop ?s e (Some a) rnd1 = Some (s1, rnd')" "p \<noteq> 0"
      "inserted (upd_entry ?s e (\<lambda>x. x\<lparr>se_pri := p\<rparr>)) t e s1"
      using insert_loop_spec [OF s(1) root(1) _ s(2)] s(3,4) t(2) set_t by metis
    let ?p = "upd_entry ?s e (\<lambda>x. x\<lparr>se_pri := p\<rparr>)"
    from s1(3) obtain d where d: "tree_of s1 (plug d (Node Leaf e Leaf))" "plug d Leaf = t"
      "\<forall>x \<in> set (ctx_left d). before ?p x e" "\<forall>x \<in> set (ctx_right d). before ?p e x" "same_keys ?p s1"
      "same_outside (insert e (set_tree t)) ?p s1" unfolding inserted_def by blast
    have b: "before s1 x y = before ?p x y" for x y
      using d(5) by (intro before_cong) (simp_all add: same_keys_def)
    have "same_outside (insert e (set_tree t)) s s1" using d(6) by (auto simp: same_outside_def upd_entry_def)
    moreover have "same_tv s s1" using same_keys_tv [OF d(5)] by (simp add: same_tv_def upd_entry_def)
    moreover have "pri_of s1 e \<noteq> 0" "\<forall>x. x \<noteq> e \<longrightarrow> se_pri (sc_mem s1 x) = se_pri (sc_mem s x)"
      using d(5) s1(2) by (simp_all add: same_keys_def pri_of_def upd_entry_def)
    ultimately show ?thesis using s1(1) d(1-4) b root(2)
      by (intro exI [of _ s1] exI [of _ rnd'] exI [of _ d]) (simp add: schedule_insert_def)
  qed
  then obtain s1 rnd' d where s1: "(if sc_root ?s \<noteq> None then schedule_insert ?s e rnd1 else Some (?s\<lparr>sc_root := Some e\<rparr>, rnd1)) = Some (s1, rnd')"
    "tree_of s1 (plug d (Node Leaf e Leaf))" "plug d Leaf = t" "\<forall>x \<in> set (ctx_left d). before s1 x e" "\<forall>x \<in> set (ctx_right d). before s1 e x"
    "\<forall>x. x \<noteq> e \<longrightarrow> se_pri (sc_mem s1 x) = se_pri (sc_mem s x)" "pri_of s1 e \<noteq> 0" "same_tv s s1"
    "same_outside (insert e (set_tree t)) s s1" by blast
  have "\<exists>s'. rotate_loop s1 e = Some s' \<and> treap s' (ctx_left d @ e # ctx_right d) \<and> same_keys s1 s'"
  proof (rule rotate_treap [OF s1(2) _ _ s1(4,5) _ s1(7)])
    show "treap s (inorder (plug d Leaf))" "heap_tree (pri_of s) (plug d Leaf)" using t(1) tr(2,3) s1(3) by simp_all
    show "same_outside (insert e (set_tree (plug d Leaf))) s s1" using s1(3,9) by simp
    show "se_tv (sc_mem s1 x) = se_tv (sc_mem s x) \<and> se_pri (sc_mem s1 x) = se_pri (sc_mem s x)" if "x \<noteq> e" for x
      using s1(6,8) that by (simp add: same_tv_def)
  qed
  then obtain s' where s': "rotate_loop s1 e = Some s'" "treap s' (ctx_left d @ e # ctx_right d)" "same_keys s1 s'" by blast
  have "xs = ctx_left d @ ctx_right d" using tr(2) s1(3) by (auto simp: inorder_plug)
  moreover have "same_tv s s'" using same_tv_trans [OF s1(8) same_keys_tv [OF s'(3)]] .
  ultimately show ?thesis using s1(1) s'(1,2)
    by (intro exI [of _ s'] exI [of _ rnd'] exI [of _ "ctx_left d @ e # ctx_right d"]) (auto simp: q schedule_set_pri_def)
qed

section \<open>The public operations\<close>

text \<open>The cached entry is the first one, where it is set.\<close>

definition sched_ok :: "schedule \<Rightarrow> bool" where
  "sched_ok s \<longleftrightarrow> (\<exists>xs. treap s xs \<and> (sc_earliest_wakeup s = None \<or> (\<exists>x ys. xs = x # ys \<and> sc_earliest_wakeup s = Some x)))"

definition sched_map :: "schedule \<Rightarrow> node \<Rightarrow> timeval option" where
  "sched_map s = (\<lambda>x. if pri_of s x \<noteq> 0 then Some (se_tv (sc_mem s x)) else None)"

lemma treap_dom: "treap s xs \<Longrightarrow> dom (sched_map s) = set xs"
  by (auto simp: treap_def sched_map_def dom_def split: if_splits)

lemma treap_distinct: "treap s xs \<Longrightarrow> distinct xs"
  by (auto simp: treap_def tree_of_def)

lemma treap_map: "treap s xs \<Longrightarrow> sched_map s = (\<lambda>x. if x \<in> set xs then Some (se_tv (sc_mem s x)) else None)"
  by (auto simp: treap_def sched_map_def)

lemma treap_earliest [simp]: "treap (s\<lparr>sc_earliest_wakeup := w\<rparr>) xs = treap s xs"
proof -
  have "before (s\<lparr>sc_earliest_wakeup := w\<rparr>) = before s" "pri_of (s\<lparr>sc_earliest_wakeup := w\<rparr>) = pri_of s"
    "unlinked (s\<lparr>sc_earliest_wakeup := w\<rparr>) = unlinked s"
    by (intro ext, simp add: before_def pri_of_def unlinked_def)+
  then show ?thesis by (simp add: treap_def)
qed

lemma sched_map_earliest [simp]: "sched_map (s\<lparr>sc_earliest_wakeup := w\<rparr>) = sched_map s"
  by (simp add: sched_map_def pri_of_def fun_eq_iff)

lemma sorted_wrt_remove1: "sorted_wrt P xs \<Longrightarrow> sorted_wrt P (remove1 e xs)"
  by (induction xs) (use set_remove1_subset in fastforce)+

lemma schedule_remove_entry_map:
  assumes "sched_ok s"
  shows "\<exists>s'. schedule_remove_entry s e = Some s' \<and> sched_ok s' \<and> sched_map s' = (sched_map s)(e := None)"
proof -
  obtain xs where xs: "treap s xs" using assms by (auto simp: sched_ok_def)
  let ?s = "s\<lparr>sc_earliest_wakeup := None\<rparr>"
  have t: "treap ?s xs" using xs by simp
  then obtain t where "tree_of ?s t" "inorder t = xs" "heap_tree (pri_of ?s) t" by (auto simp: treap_def)
  moreover have "sorted_wrt (before ?s) (remove1 e xs)"
    using t by (simp add: treap_def sorted_wrt_remove1)
  ultimately obtain s' where s': "schedule_remove_node ?s e = Some s'" "treap s' (remove1 e xs)" "same_tv ?s s'"
    using remove_treap [of ?s t xs e] t by (auto simp: treap_def)
  have "sched_map s' = (sched_map s)(e := None)"
    using s'(3) treap_distinct [OF xs]
    by (auto simp: treap_map [OF s'(2)] treap_map [OF xs] same_tv_def fun_eq_iff)
  then show ?thesis using s' by (auto simp: schedule_remove_entry_def sched_ok_def same_tv_def)
qed

text \<open>\<open>schedule_add_entry\<close> leaves an entry alone that is due within \<open>sigma\<close> of the new time.\<close>

definition keeps :: "(node \<Rightarrow> timeval option) \<Rightarrow> node \<Rightarrow> timeval \<Rightarrow> int \<Rightarrow> bool" where
  "keeps m e tv sigma \<longleftrightarrow> sigma \<noteq> 0 \<and> (case m e of None \<Rightarrow> False | Some t \<Rightarrow> tv_within_sigma tv t sigma)"

lemma schedule_add_entry_map:
  assumes "sched_ok s" "card (dom (sched_map s)) < card (clamp_pri ` set rnd)"
  shows "\<exists>s' rnd'. schedule_add_entry s e tv sigma rnd = Some (s', rnd') \<and> sched_ok s' \<and>
    sched_map s' = (if keeps (sched_map s) e tv sigma then sched_map s else (sched_map s)(e \<mapsto> tv))"
proof (cases "keeps (sched_map s) e tv sigma")
  case True
  then have "schedule_add_entry s e tv sigma rnd = Some (s, rnd)"
    by (auto simp: keeps_def schedule_add_entry_def sched_map_def IN_TREE_def pri_of_def split: if_splits)
  then show ?thesis using True assms(1) by simp
next
  case False
  obtain xs where xs: "treap s xs" using assms(1) by (auto simp: sched_ok_def)
  let ?s = "upd_entry s e (\<lambda>x. x\<lparr>se_tv := tv\<rparr>)"
  obtain t where t: "tree_of s t" "inorder t = xs" "heap_tree (pri_of s) t" using xs by (auto simp: treap_def)
  have pri: "pri_of ?s = pri_of s" by (auto simp: pri_of_def upd_entry_def)
  have unl: "unlinked ?s x = unlinked s x" for x by (simp add: unlinked_def upd_entry_def)
  have d: "distinct xs" by (rule treap_distinct [OF xs])
  have "sorted_wrt (before s) (remove1 e xs)" using xs by (simp add: treap_def sorted_wrt_remove1)
  then have sorted: "sorted_wrt (before ?s) (remove1 e xs)"
    using d by (subst sorted_before_cong [of _ _ s]) (auto simp: upd_entry_def)
  have "\<exists>s1. (if IN_TREE ?s e then schedule_remove_node ?s e else Some ?s) = Some s1 \<and> treap s1 (remove1 e xs) \<and> same_tv ?s s1"
  proof (cases "IN_TREE ?s e")
    case True
    have "\<exists>s1. schedule_remove_node ?s e = Some s1 \<and> treap s1 (remove1 e xs) \<and> same_tv ?s s1"
      using t xs sorted by (intro remove_treap [of ?s t]) (auto simp: pri unl treap_def)
    then show ?thesis using True by simp
  next
    case False
    then have "pri_of s e = 0" using pri by (simp add: IN_TREE_def pri_of_def upd_entry_def)
    then have "e \<notin> set xs" using xs unfolding treap_def by blast
    then have rem: "remove1 e xs = xs" by (rule remove1_idem)
    have "treap ?s xs"
      using t xs sorted unfolding rem by (intro treapI [of ?s t]) (auto simp: pri unl treap_def)
    then show ?thesis using False rem by (simp add: same_tv_def)
  qed
  then obtain s1 where s1: "(if IN_TREE ?s e then schedule_remove_node ?s e else Some ?s) = Some s1"
    "treap s1 (remove1 e xs)" "same_tv ?s s1" by blast
  have "length (remove1 e xs) \<le> length xs" by (simp add: length_remove1)
  also have "\<dots> = card (dom (sched_map s))" using treap_dom [OF xs] d by (simp add: distinct_card)
  finally have "length (remove1 e xs) < card (clamp_pri ` set rnd)" using assms(2) by simp
  from add_treap [OF s1(2) _ this, of e] d obtain s2 rnd' ys where s2: "Option.bind (schedule_set_pri s1 e rnd) (\<lambda>(s, rnd). do {
      (s, rnd) \<leftarrow> (if sc_root s \<noteq> None then schedule_insert s e rnd else Some (s\<lparr>sc_root := Some e\<rparr>, rnd));
      s \<leftarrow> rotate_loop s e;
      Some (s, rnd) }) = Some (s2, rnd')" "treap s2 ys" "set ys = insert e (set (remove1 e xs))" "same_tv s1 s2"
    by auto
  have modify: "schedule_add_modify ?s e rnd = Some (s2, rnd')"
    unfolding schedule_add_modify_def s1(1) Option.bind.bind_lunit by (rule s2(1))
  have "\<not> IN_TREE s e \<or> sigma = 0 \<or> \<not> tv_within_sigma tv (se_tv (sc_mem s e)) sigma"
    using False by (auto simp: keeps_def sched_map_def IN_TREE_def pri_of_def)
  then have run: "schedule_add_entry s e tv sigma rnd = Some (s2\<lparr>sc_earliest_wakeup := None\<rparr>, rnd')"
    using modify by (auto simp: schedule_add_entry_def)
  have "same_tv ?s s2" by (rule same_tv_trans [OF s1(3) s2(4)])
  then have tv: "se_tv (sc_mem s2 x) = (if x = e then tv else se_tv (sc_mem s x))" for x
    by (simp add: same_tv_def upd_entry_def)
  have "sched_map s2 = (sched_map s)(e \<mapsto> tv)"
    using s2(3) d by (auto simp: treap_map [OF s2(2)] treap_map [OF xs] tv fun_eq_iff)
  then show ?thesis using run s2(2) False by (auto simp: sched_ok_def)
qed

lemma least_loop_first:
  "linked (sc_mem s) p t \<Longrightarrow> root_of t = Some a \<Longrightarrow> least_loop s a = Some (List.hd (inorder t))"
proof (induction t arbitrary: p a)
  case (Node l x r)
  show ?case
  proof (cases l)
    case Leaf
    then show ?thesis using Node.prems by (subst least_loop.simps) simp
  next
    case l: (Node l' y r')
    then have "least_loop s y = Some (List.hd (inorder l))" using Node.IH(1) [of "Some x" y] Node.prems by simp
    moreover have "inorder l \<noteq> []" using l by simp
    ultimately show ?thesis using Node.prems l by (subst least_loop.simps) (simp add: hd_append)
  qed
qed simp

lemma schedule_get_earliest_wakeup_map:
  assumes "sched_ok s"
  shows "\<exists>r s'. schedule_get_earliest_wakeup s = Some (r, s') \<and> sched_ok s' \<and> sched_map s' = sched_map s \<and>
    (case r of None \<Rightarrow> sched_map s = (\<lambda>_. None)
     | Some (e, w) \<Rightarrow> sched_map s e = Some w \<and> (\<forall>x v. sched_map s x = Some v \<longrightarrow> tv_le w v))"
proof -
  obtain xs where xs: "treap s xs" "sc_earliest_wakeup s = None \<or> (\<exists>x ys. xs = x # ys \<and> sc_earliest_wakeup s = Some x)"
    using assms by (auto simp: sched_ok_def)
  obtain t where t: "tree_of s t" "inorder t = xs" using xs(1) by (auto simp: treap_def)
  define e where "e = (case xs of [] \<Rightarrow> None | x # _ \<Rightarrow> Some x)"
  define s' where "s' = s\<lparr>sc_earliest_wakeup := e\<rparr>"
  have "schedule_find_least s (sc_root s) = Some e"
  proof (cases t)
    case Leaf
    then show ?thesis using t by (simp add: tree_of_def schedule_find_least_def e_def)
  next
    case (Node l a r)
    then have "least_loop s a = Some (List.hd xs)" using least_loop_first [of s None t a] t by (simp add: tree_of_def)
    moreover have "xs \<noteq> []" using Node t(2) by auto
    ultimately show ?thesis using Node t(1) by (cases xs) (simp_all add: tree_of_def schedule_find_least_def e_def)
  qed
  then have run: "schedule_get_earliest_wakeup s = Some (map_option (\<lambda>e. (e, se_tv (sc_mem s e))) e, s')"
    using xs(2) by (auto simp: schedule_get_earliest_wakeup_def s'_def e_def split: option.splits)
  have ok: "sched_ok s'" using xs(1) by (auto simp: sched_ok_def s'_def e_def split: list.splits)
  have "case map_option (\<lambda>e. (e, se_tv (sc_mem s e))) e of None \<Rightarrow> sched_map s = (\<lambda>_. None)
     | Some (e, w) \<Rightarrow> sched_map s e = Some w \<and> (\<forall>x v. sched_map s x = Some v \<longrightarrow> tv_le w v)"
  proof (cases xs)
    case Nil
    then show ?thesis by (simp add: e_def treap_map [OF xs(1)])
  next
    case (Cons y ys)
    then have "\<forall>x \<in> set ys. before s y x" using xs(1) by (simp add: treap_def)
    then have "tv_le (se_tv (sc_mem s y)) (se_tv (sc_mem s x))" if "x \<in> set xs" for x
      using before_tv [of s y x] that Cons by (auto simp: tv_le_def)
    then show ?thesis using Cons by (auto simp: e_def treap_map [OF xs(1)] split: if_splits)
  qed
  then show ?thesis using run ok by (auto simp: s'_def)
qed

section \<open>The refinement\<close>

text \<open>What the event loop sees: additions and removals, and the earliest wakeup time.\<close>

datatype sched_op = SAdd node timeval int "u32 list" | SRemove node | SEarliest

fun sched_step :: "schedule \<Rightarrow> sched_op \<Rightarrow> (timeval option \<times> schedule) option" where
  "sched_step s (SAdd e tv sigma rnd) = map_option (\<lambda>(s, rnd). (None, s)) (schedule_add_entry s e tv sigma rnd)"
| "sched_step s (SRemove e) = map_option (Pair None) (schedule_remove_entry s e)"
| "sched_step s SEarliest = map_option (\<lambda>(r, s). (map_option Product_Type.snd r, s)) (schedule_get_earliest_wakeup s)"

text \<open>The same on a map: the earliest is the one that no other one is before.\<close>

definition earliest_of :: "(node \<Rightarrow> timeval option) \<Rightarrow> timeval option" where
  "earliest_of m = (if m = (\<lambda>_. None) then None else Some (THE w. w \<in> ran m \<and> (\<forall>v \<in> ran m. tv_le w v)))"

fun sched_spec :: "(node \<Rightarrow> timeval option) \<Rightarrow> sched_op \<Rightarrow> timeval option \<times> (node \<Rightarrow> timeval option)" where
  "sched_spec m (SAdd e tv sigma rnd) = (None, if keeps m e tv sigma then m else m(e \<mapsto> tv))"
| "sched_spec m (SRemove e) = (None, m(e := None))"
| "sched_spec m SEarliest = (earliest_of m, m)"

text \<open>The random numbers do not run out: more different ones than entries are scheduled.\<close>

fun sched_pre :: "(node \<Rightarrow> timeval option) \<Rightarrow> sched_op \<Rightarrow> bool" where
  "sched_pre m (SAdd e tv sigma rnd) \<longleftrightarrow> card (dom m) < card (clamp_pri ` set rnd)"
| "sched_pre m _ \<longleftrightarrow> True"

lemma tv_le_antisym: "tv_le a b \<Longrightarrow> tv_le b a \<Longrightarrow> (a :: timeval) = b"
  by (cases a, cases b) (auto simp: tv_le_def split: if_splits)

lemma earliest_ofI:
  assumes "m e = Some w" "\<And>x v. m x = Some v \<Longrightarrow> tv_le w v"
  shows "earliest_of m = Some w"
proof -
  have "(THE w. w \<in> ran m \<and> (\<forall>v \<in> ran m. tv_le w v)) = w"
  proof (rule the_equality)
    show "w \<in> ran m \<and> (\<forall>v \<in> ran m. tv_le w v)" using assms by (auto simp: ran_def)
    fix v assume v: "v \<in> ran m \<and> (\<forall>u \<in> ran m. tv_le v u)"
    have "w \<in> ran m" using assms(1) by (auto simp: ran_def)
    with v have "tv_le v w" by blast
    moreover have "tv_le w v" using v assms(2) by (auto simp: ran_def)
    ultimately show "v = w" by (rule tv_le_antisym)
  qed
  then show ?thesis using assms(1) by (auto simp: earliest_of_def)
qed

interpretation sched: data_refinement sched_ok sched_map sched_pre sched_step sched_spec
proof unfold_locales
  fix s x
  assume ok: "sched_ok s" and pre: "sched_pre (sched_map s) x"
  show "\<exists>s'. sched_step s x = Some (fst (sched_spec (sched_map s) x), s') \<and> sched_ok s' \<and>
    sched_map s' = Product_Type.snd (sched_spec (sched_map s) x)"
  proof (cases x)
    case (SAdd e tv sigma rnd)
    then show ?thesis using schedule_add_entry_map [OF ok, of rnd e tv sigma] pre by auto
  next
    case (SRemove e)
    then show ?thesis using schedule_remove_entry_map [OF ok, of e] by auto
  next
    case SEarliest
    obtain r s' where r: "schedule_get_earliest_wakeup s = Some (r, s')" "sched_ok s'" "sched_map s' = sched_map s"
      "case r of None \<Rightarrow> sched_map s = (\<lambda>_. None)
       | Some (e, w) \<Rightarrow> sched_map s e = Some w \<and> (\<forall>x v. sched_map s x = Some v \<longrightarrow> tv_le w v)"
      using schedule_get_earliest_wakeup_map [OF ok] by blast
    have "earliest_of (sched_map s) = map_option Product_Type.snd r"
    proof (cases r)
      case None
      then show ?thesis using r(4) by (simp add: earliest_of_def)
    next
      case (Some ew)
      then show ?thesis using r(4) earliest_ofI [of "sched_map s" "fst ew" "Product_Type.snd ew"] by (cases ew) auto
    qed
    then show ?thesis using SEarliest r by auto
  qed
qed

lemma schedule_init_ok: "sched_ok schedule_init" "sched_map schedule_init = (\<lambda>_. None)"
proof -
  have "treap schedule_init []"
    by (rule treapI [of _ Leaf]) (simp_all add: schedule_init_def cleared_entry_def tree_of_def pri_of_def unlinked_def)
  then show "sched_ok schedule_init" by (auto simp: sched_ok_def schedule_init_def)
  show "sched_map schedule_init = (\<lambda>_. None)" by (simp add: sched_map_def schedule_init_def cleared_entry_def pri_of_def)
qed

text \<open>
  C18: The treap of wakeup times refines a map from entries to times. Over every sequence of
  additions, changes and removals the linked entries stay a search tree by time and a heap by
  priority, no link is ever found corrupted and every loop ends, provided the random numbers given to
  an addition hold more different priorities than there are entries; the earliest wakeup that
  the event loop is told is at every moment the least of all scheduled times (and none if there is
  none), and an entry within \<open>sigma\<close> of its new time keeps the old one.
\<close>
theorem schedule_refines_map:
  assumes "run_pre sched_spec sched_pre (\<lambda>_. None) xs"
  shows "\<exists>s. run_steps sched_step schedule_init xs = Some (fst (run_spec sched_spec (\<lambda>_. None) xs), s) \<and>
    sched_map s = Product_Type.snd (run_spec sched_spec (\<lambda>_. None) xs) \<and> sched_ok s \<and>
    (\<exists>r s'. schedule_get_earliest_wakeup s = Some (r, s') \<and>
      (case r of None \<Rightarrow> sched_map s = (\<lambda>_. None)
       | Some (e, w) \<Rightarrow> sched_map s e = Some w \<and> (\<forall>x v. sched_map s x = Some v \<longrightarrow> tv_le w v)))"
proof -
  obtain s where s: "run_steps sched_step schedule_init xs = Some (fst (run_spec sched_spec (\<lambda>_. None) xs), s)"
    "sched_ok s" "sched_map s = Product_Type.snd (run_spec sched_spec (\<lambda>_. None) xs)"
    using sched.run_refines [OF schedule_init_ok(1)] assms by (auto simp: schedule_init_ok(2))
  then show ?thesis using schedule_get_earliest_wakeup_map [OF s(2)] by blast
qed

text \<open>Two entries of the same time, a change and a removal.\<close>

definition demo_sched :: "sched_op list" where
  "demo_sched = [SAdd 1 \<lparr>tv_sec = 10, tv_usec = 5\<rparr> 0 [7], SAdd 2 \<lparr>tv_sec = 10, tv_usec = 5\<rparr> 0 [7, 0],
     SAdd 3 \<lparr>tv_sec = 9, tv_usec = 0\<rparr> 0 [3, 4, 5], SRemove 3, SEarliest]"

lemma schedule_refines_map_witness:
  "\<exists>s. run_steps sched_step schedule_init demo_sched = Some ([None, None, None, None, Some \<lparr>tv_sec = 10, tv_usec = 5\<rparr>], s)"
proof -
  let ?t = "\<lparr>tv_sec = 10, tv_usec = 5\<rparr>" and ?u = "\<lparr>tv_sec = 9, tv_usec = 0\<rparr>"
  have "run_pre sched_spec sched_pre (\<lambda>_. None) demo_sched"
    by (simp add: demo_sched_def keeps_def clamp_pri_def)
  moreover have "earliest_of (((\<lambda>_. None)(1 \<mapsto> ?t, 2 \<mapsto> ?t, 3 \<mapsto> ?u))(3 := None)) = Some ?t"
    by (rule earliest_ofI [of _ 1]) (auto simp: tv_le_def split: if_splits)
  then have "fst (run_spec sched_spec (\<lambda>_. None) demo_sched) = [None, None, None, None, Some ?t]"
    by (simp add: demo_sched_def keeps_def)
  ultimately show ?thesis using schedule_refines_map [of demo_sched] by auto
qed

end
