(* ===== verification/CircList.thy ===== *)
theory CircList
  imports CInteger
begin

text \<open>
  circ_list.h: a circular list of at most \<open>x_cap\<close> items, the newest at \<open>x_head\<close>. The list
  of \<open>time_t\<close> of packet_id.h is an instance. The macros become operations; an index out of
  range ends the process (\<open>index_verify\<close> is \<open>M_FATAL\<close>), hence the option. \<open>circ_items\<close>
  is the abstract view, newest first.
\<close>

record circ_list =
  x_head :: int
  x_size :: int
  x_cap :: int
  x_list :: "int list"

definition index_verify :: "int \<Rightarrow> int \<Rightarrow> int option" where
  "index_verify index sz = (if index < 0 \<or> index \<ge> sz then None else Some index)"

definition circ_index :: "circ_list \<Rightarrow> int \<Rightarrow> int option" where
  "circ_index l index = do {
     i \<leftarrow> index_verify index (x_size l);
     modulo_add (x_head l) i (x_cap l) }"

definition circ_item :: "circ_list \<Rightarrow> int \<Rightarrow> int option" where
  "circ_item l index = do { i \<leftarrow> circ_index l index; nth_opt (x_list l) i }"

definition circ_set :: "circ_list \<Rightarrow> int \<Rightarrow> int \<Rightarrow> circ_list option" where
  "circ_set l index v = do {
     i \<leftarrow> circ_index l index;
     xs \<leftarrow> upd_opt (x_list l) i v;
     Some (l\<lparr>x_list := xs\<rparr>) }"

definition circ_push :: "circ_list \<Rightarrow> int \<Rightarrow> circ_list option" where
  "circ_push l item = do {
     h \<leftarrow> modulo_add (x_head l) (- 1) (x_cap l);
     xs \<leftarrow> upd_opt (x_list l) h item;
     Some (l\<lparr>x_head := h, x_list := xs, x_size := min_int (x_size l + 1) (x_cap l)\<rparr>) }"

definition circ_reset :: "circ_list \<Rightarrow> circ_list" where
  "circ_reset l = l\<lparr>x_head := 0, x_size := 0\<rparr>"

definition circ_alloc :: "int \<Rightarrow> circ_list" where
  "circ_alloc sz = \<lparr>x_head = 0, x_size = 0, x_cap = sz, x_list = replicate (nat sz) 0\<rparr>"

section \<open>Abstract view\<close>

definition circ_wf :: "circ_list \<Rightarrow> bool" where
  "circ_wf l \<longleftrightarrow> 0 < x_cap l \<and> 0 \<le> x_head l \<and> x_head l < x_cap l \<and>
     0 \<le> x_size l \<and> x_size l \<le> x_cap l \<and> int (length (x_list l)) = x_cap l"

definition circ_items :: "circ_list \<Rightarrow> int list" where
  "circ_items l = map (\<lambda>i. x_list l ! nat ((x_head l + int i) mod x_cap l)) [0..<nat (x_size l)]"

lemma length_circ_items [simp]: "length (circ_items l) = nat (x_size l)"
  by (simp add: circ_items_def)

lemma circ_index_Some:
  "circ_wf l \<Longrightarrow> 0 \<le> i \<Longrightarrow> i < x_size l \<Longrightarrow> circ_index l i = Some ((x_head l + i) mod x_cap l)"
  by (simp add: circ_index_def index_verify_def circ_wf_def modulo_add_Some)

lemma circ_pos: "circ_wf l \<Longrightarrow> 0 \<le> a mod x_cap l \<and> a mod x_cap l < int (length (x_list l))"
  by (simp add: circ_wf_def)

lemma circ_item_Some:
  assumes "circ_wf l" "0 \<le> i" "i < x_size l"
  shows "circ_item l i = Some (circ_items l ! nat i)"
  using assms circ_pos [of l "x_head l + i"]
  by (simp add: circ_item_def circ_index_Some circ_items_def)

lemma circ_item_eq:
  assumes "circ_wf l"
  shows "circ_item l i = (if 0 \<le> i \<and> i < x_size l then Some (circ_items l ! nat i) else None)"
  using circ_item_Some [OF assms] by (auto simp: circ_item_def circ_index_def index_verify_def)

text \<open>Distinct indices of the view are distinct places of the array.\<close>

lemma mod_shift_inj:
  fixes h m :: int
  assumes "0 < m" "0 \<le> i" "i < m" "0 \<le> j" "j < m" "(h + i) mod m = (h + j) mod m"
  shows "i = j"
proof -
  from assms(6) have "m dvd (h + i) - (h + j)" by (rule mod_eq_dvd_iff [THEN iffD1])
  then have "m dvd i - j" by simp
  moreover have "\<bar>i - j\<bar> < m" using assms by auto
  ultimately have "i - j = 0" by (rule_tac ccontr) (metis zdvd_not_zless abs_dvd_iff dvd_abs_iff zero_less_abs_iff)
  then show ?thesis by simp
qed

lemma circ_set_Some:
  assumes "circ_wf l" "0 \<le> i" "i < x_size l"
  shows "\<exists>l'. circ_set l i v = Some l' \<and> circ_wf l' \<and> x_cap l' = x_cap l \<and> x_size l' = x_size l \<and>
    circ_items l' = (circ_items l)[nat i := v]"
proof -
  define k where "k = (x_head l + i) mod x_cap l"
  have k: "0 \<le> k" "k < int (length (x_list l))" using circ_pos [OF assms(1)] by (simp_all add: k_def)
  let ?l = "l\<lparr>x_list := (x_list l)[nat k := v]\<rparr>"
  have "circ_set l i v = Some ?l"
    using assms k by (simp add: circ_set_def circ_index_Some k_def)
  moreover have "circ_items ?l = (circ_items l)[nat i := v]"
  proof (rule nth_equalityI)
    fix j
    assume "j < length (circ_items ?l)"
    then have j: "int j < x_size l" "j < nat (x_size l)" by auto
    have p: "0 \<le> (x_head l + int j) mod x_cap l" "(x_head l + int j) mod x_cap l < int (length (x_list l))"
      using circ_pos [OF assms(1)] by auto
    have "(x_head l + int j) mod x_cap l = k \<longleftrightarrow> int j = i"
      using mod_shift_inj [of "x_cap l" "int j" i "x_head l"] j assms by (auto simp: k_def circ_wf_def)
    then have "nat ((x_head l + int j) mod x_cap l) = nat k \<longleftrightarrow> j = nat i"
      using p k assms(2) by (metis int_nat_eq nat_eq_iff nat_int)
    then show "circ_items ?l ! j = (circ_items l)[nat i := v] ! j"
      using j p k by (auto simp: circ_items_def nth_list_update)
  qed simp
  ultimately show ?thesis using assms(1) by (auto simp: circ_wf_def)
qed

lemma circ_push_Some:
  assumes "circ_wf l"
  shows "\<exists>l'. circ_push l v = Some l' \<and> circ_wf l' \<and> x_cap l' = x_cap l \<and>
    circ_items l' = take (nat (x_cap l)) (v # circ_items l)"
proof -
  define h where "h = (x_head l - 1) mod x_cap l"
  have h: "0 \<le> h" "h < int (length (x_list l))" "h < x_cap l"
    using circ_pos [OF assms] assms by (auto simp: h_def circ_wf_def)
  let ?l = "l\<lparr>x_head := h, x_list := (x_list l)[nat h := v], x_size := min (x_size l + 1) (x_cap l)\<rparr>"
  have "modulo_add (x_head l) (- 1) (x_cap l) = Some h"
    using assms by (subst modulo_add_Some) (auto simp: h_def circ_wf_def)
  then have p: "circ_push l v = Some ?l" using h by (simp add: circ_push_def)
  have wf: "circ_wf ?l" using assms h by (auto simp: circ_wf_def)
  have "circ_items ?l = take (nat (x_cap l)) (v # circ_items l)"
  proof (rule nth_equalityI)
    show "length (circ_items ?l) = length (take (nat (x_cap l)) (v # circ_items l))"
      using assms by (auto simp: circ_wf_def)
    fix j
    assume "j < length (circ_items ?l)"
    then have j: "j < nat (min (x_size l + 1) (x_cap l))" by simp
    show "circ_items ?l ! j = take (nat (x_cap l)) (v # circ_items l) ! j"
    proof (cases j)
      case 0
      then show ?thesis using j h by (simp add: circ_items_def)
    next
      case (Suc i)
      have *: "(h + int j) mod x_cap l = (x_head l + int i) mod x_cap l"
        using Suc by (simp add: h_def mod_add_left_eq)
      have "(x_head l + int i) mod x_cap l \<noteq> h"
      proof
        assume eq: "(x_head l + int i) mod x_cap l = h"
        have e: "(x_head l + int i) mod x_cap l = (x_head l + (x_cap l - 1)) mod x_cap l"
          using eq by (simp add: h_def algebra_simps)
            (metis add_diff_eq diff_add_eq mod_add_self1)
        have "int i + 1 < x_cap l" using j Suc by (simp add: zless_nat_eq_int_zless)
        with mod_shift_inj [OF _ _ _ _ _ e] assms show False
          by (auto simp: circ_wf_def)
      qed
      then have "nat ((x_head l + int i) mod x_cap l) \<noteq> nat h"
        using circ_pos [OF assms, of "x_head l + int i"] h by (metis nat_0_le)
      moreover have "i < nat (x_size l)" using j Suc by (simp add: zless_nat_eq_int_zless)
      moreover have "i < nat (x_cap l) - 1" using j Suc by linarith
      ultimately show ?thesis using j Suc * by (simp add: circ_items_def)
    qed
  qed
  with p wf show ?thesis by auto
qed

lemma circ_reset_items [simp]: "circ_items (circ_reset l) = []"
  by (simp add: circ_reset_def circ_items_def)

lemma circ_reset_wf: "circ_wf l \<Longrightarrow> circ_wf (circ_reset l)"
  by (simp add: circ_reset_def circ_wf_def)

lemma circ_reset_cap [simp]: "x_cap (circ_reset l) = x_cap l" "x_size (circ_reset l) = 0"
  by (simp_all add: circ_reset_def)

lemma circ_alloc_wf: "0 < n \<Longrightarrow> circ_wf (circ_alloc n)" "circ_items (circ_alloc n) = []"
  "x_cap (circ_alloc n) = n" "x_size (circ_alloc n) = 0"
  by (simp_all add: circ_alloc_def circ_wf_def circ_items_def)

end
