(* ===== verification/PacketId.thy ===== *)
theory PacketId
  imports Buffers CircList
begin

text \<open>
  packet_id.c and packet_id.h: the replay protection of the data and control channels. The
  receiving side remembers which packet ids it has accepted in a sliding window
  (\<open>seq_list\<close>, newest first); the sending side counts. Packet ids are 64 bit words,
  \<open>time_t\<close> is an \<open>int\<close>, and the global \<open>now\<close> is an argument. The debug print of a packet
  id record is not modelled.
\<close>

definition PACKET_ID_MAX :: u64 where "PACKET_ID_MAX = 0xFFFFFFFF"
definition PACKET_ID_EPOCH_MAX :: u64 where "PACKET_ID_EPOCH_MAX = 0x0000ffffffffffff"
definition PACKET_ID_MASK :: u64 where "PACKET_ID_MASK = 0x0000ffffffffffff"
definition PACKET_ID_WRAP_TRIGGER :: u64 where "PACKET_ID_WRAP_TRIGGER = 0xFF000000"
definition MIN_SEQ_BACKTRACK :: int where "MIN_SEQ_BACKTRACK = 0"
definition MAX_SEQ_BACKTRACK :: int where "MAX_SEQ_BACKTRACK = 65536"
definition MIN_TIME_BACKTRACK :: int where "MIN_TIME_BACKTRACK = 0"
definition MAX_TIME_BACKTRACK :: int where "MAX_TIME_BACKTRACK = 600"
definition SEQ_REAP_INTERVAL :: int where "SEQ_REAP_INTERVAL = 5"
definition SEQ_UNSEEN :: int where "SEQ_UNSEEN = 0"
definition SEQ_EXPIRED :: int where "SEQ_EXPIRED = 1"

record packet_id_rec =
  pr_last_reap :: int
  pr_time :: int
  pr_id :: u64
  pr_seq_backtrack :: u64
  pr_time_backtrack :: int
  pr_max_backtrack_stat :: u64
  pr_initialized :: bool
  pr_seq_list :: "circ_list option"
  pr_name :: string
  pr_unit :: int

record packet_id_send =
  ps_id :: u64
  ps_time :: int

record packet_id =
  pid_send :: packet_id_send
  pid_rec :: packet_id_rec

record packet_id_net =
  pn_id :: u64
  pn_time :: int

record packet_id_persist =
  pp_filename :: "string option"
  pp_fd :: int
  pp_time :: int
  pp_id :: u32
  pp_time_last_written :: int
  pp_id_last_written :: u32

section \<open>Initialisation\<close>

definition cleared_rec :: packet_id_rec where
  "cleared_rec = \<lparr>pr_last_reap = 0, pr_time = 0, pr_id = 0, pr_seq_backtrack = 0,
     pr_time_backtrack = 0, pr_max_backtrack_stat = 0, pr_initialized = False,
     pr_seq_list = None, pr_name = [], pr_unit = 0\<rparr>"

definition packet_id_init_recv ::
  "packet_id_rec \<Rightarrow> int \<Rightarrow> int \<Rightarrow> string \<Rightarrow> int \<Rightarrow> packet_id_rec option" where
  "packet_id_init_recv rec seq_backtrack time_backtrack name unit = do {
     let rec = rec\<lparr>pr_name := name, pr_unit := unit\<rparr>;
     rec \<leftarrow> (if seq_backtrack \<noteq> 0 then do {
         _ \<leftarrow> ASSERT (MIN_SEQ_BACKTRACK \<le> seq_backtrack \<and> seq_backtrack \<le> MAX_SEQ_BACKTRACK);
         _ \<leftarrow> ASSERT (MIN_TIME_BACKTRACK \<le> time_backtrack \<and> time_backtrack \<le> MAX_TIME_BACKTRACK);
         Some (rec\<lparr>pr_seq_list := Some (circ_alloc seq_backtrack),
                   pr_seq_backtrack := word_of_int seq_backtrack,
                   pr_time_backtrack := time_backtrack\<rparr>) }
       else Some rec);
     Some (rec\<lparr>pr_initialized := True\<rparr>) }"

definition packet_id_init :: "int \<Rightarrow> int \<Rightarrow> string \<Rightarrow> int \<Rightarrow> packet_id option" where
  "packet_id_init seq_backtrack time_backtrack name unit = do {
     rec \<leftarrow> packet_id_init_recv cleared_rec seq_backtrack time_backtrack name unit;
     Some \<lparr>pid_send = \<lparr>ps_id = 0, ps_time = 0\<rparr>, pid_rec = rec\<rparr> }"

text \<open>\<open>packet_id_move_recv\<close>: the new \<open>dest\<close> and the re-initialised \<open>src\<close>.\<close>

definition packet_id_move_recv ::
  "packet_id_rec \<Rightarrow> packet_id_rec \<Rightarrow> (packet_id_rec \<times> packet_id_rec) option" where
  "packet_id_move_recv dest src = do {
     let dest = src;
     src \<leftarrow> packet_id_init_recv cleared_rec (uint (pr_seq_backtrack dest)) (pr_time_backtrack dest)
              (pr_name dest) (pr_unit dest);
     Some (dest, src) }"

definition packet_id_free :: "packet_id \<Rightarrow> packet_id" where
  "packet_id_free p = \<lparr>pid_send = \<lparr>ps_id = 0, ps_time = 0\<rparr>, pid_rec = cleared_rec\<rparr>"

section \<open>The receiving side\<close>

text \<open>The loop that pushes \<open>SEQ_UNSEEN\<close> until the window starts at the new id.\<close>

function fill_unseen :: "circ_list \<Rightarrow> u64 \<Rightarrow> u64 \<Rightarrow> (circ_list \<times> u64) option" where
  "fill_unseen l i target =
     (if i < target then
        (case circ_push l SEQ_UNSEEN of
           None \<Rightarrow> None
         | Some l' \<Rightarrow> fill_unseen l' (i + 1) target)
      else Some (l, i))"
  by pat_completeness auto
termination
proof (relation "measure (\<lambda>(l, i, target). unat target - unat i)", goal_cases)
  case (2 l i target l')
  then have "i < target" by simp
  then have "unat (i + 1) = unat i + 1" "unat i < unat target"
    by (simp_all add: unat_succ_less word_less_nat_alt)
  then show ?case by simp
qed simp

declare fill_unseen.simps [simp del]

text \<open>A 64 bit difference used as an \<open>int\<close> index.\<close>

definition to_int :: "u64 \<Rightarrow> int" where
  "to_int w = sint (ucast w :: u32)"

definition packet_id_add :: "int \<Rightarrow> packet_id_rec \<Rightarrow> packet_id_net \<Rightarrow> packet_id_rec option" where
  "packet_id_add now p pin =
     (case pr_seq_list p of
        Some l \<Rightarrow> do {
          let p = (if x_size l = 0
                      \<or> pn_time pin > pr_time p
                      \<or> (pn_id pin \<ge> pr_seq_backtrack p
                         \<and> pn_id pin - pr_seq_backtrack p > pr_id p)
                   then p\<lparr>pr_time := pn_time pin,
                          pr_id := (if pn_id pin > pr_seq_backtrack p
                                    then pn_id pin - pr_seq_backtrack p else 0),
                          pr_seq_list := Some (circ_reset l)\<rparr>
                   else p);
          l \<leftarrow> pr_seq_list p;
          (l, i) \<leftarrow> fill_unseen l (pr_id p) (pn_id pin);
          let diff = i - pn_id pin;
          l \<leftarrow> (if sint diff < x_size l \<and> now > SEQ_EXPIRED
               then circ_set l (to_int diff) now else Some l);
          Some (p\<lparr>pr_id := i, pr_seq_list := Some l\<rparr>) }
      | None \<Rightarrow> Some (p\<lparr>pr_time := pn_time pin, pr_id := pn_id pin\<rparr>))"

text \<open>The loop of \<open>packet_id_reap\<close>, from index \<open>i\<close>.\<close>

lemma circ_set_size: "circ_set l i v = Some l' \<Longrightarrow> x_size l' = x_size l"
  by (auto simp: circ_set_def bind_eq_Some_conv)

function reap_loop :: "int \<Rightarrow> int \<Rightarrow> circ_list \<Rightarrow> int \<Rightarrow> bool \<Rightarrow> circ_list option" where
  "reap_loop now time_backtrack l i expire =
     (if i < x_size l then
        (case circ_item l i of
           None \<Rightarrow> None
         | Some t \<Rightarrow>
             if t = SEQ_EXPIRED then Some l
             else
               let expire = (expire \<or> (t \<noteq> 0 \<and> t + time_backtrack < now)) in
               (if expire then
                  (case circ_set l i SEQ_EXPIRED of
                     None \<Rightarrow> None
                   | Some l' \<Rightarrow> reap_loop now time_backtrack l' (i + 1) expire)
                else reap_loop now time_backtrack l (i + 1) expire))
      else Some l)"
  by pat_completeness auto
termination
  by (relation "measure (\<lambda>(now, tb, l, i, expire). nat (x_size l - i))")
    (auto dest: circ_set_size)

declare reap_loop.simps [simp del]

definition packet_id_reap :: "int \<Rightarrow> packet_id_rec \<Rightarrow> packet_id_rec option" where
  "packet_id_reap now p = do {
     p \<leftarrow> (if pr_time_backtrack p \<noteq> 0 then do {
             l \<leftarrow> pr_seq_list p;
             l \<leftarrow> reap_loop now (pr_time_backtrack p) l 0 False;
             Some (p\<lparr>pr_seq_list := Some l\<rparr>) }
           else Some p);
     Some (p\<lparr>pr_last_reap := now\<rparr>) }"

definition packet_id_reap_test :: "int \<Rightarrow> packet_id_rec \<Rightarrow> packet_id_rec option" where
  "packet_id_reap_test now p =
     (if pr_last_reap p + SEQ_REAP_INTERVAL \<le> now then packet_id_reap now p else Some p)"

text \<open>\<open>packet_id_test\<close>: the verdict, and the record with its backtrack statistic.\<close>

definition packet_id_test :: "packet_id_rec \<Rightarrow> packet_id_net \<Rightarrow> (bool \<times> packet_id_rec) option" where
  "packet_id_test p pin = do {
     _ \<leftarrow> ASSERT (pr_initialized p);
     if pn_id pin = 0 then Some (False, p)
     else if pr_seq_backtrack p \<noteq> 0 then
       (if pn_time pin = pr_time p then
          (if pn_id pin > pr_id p then Some (True, p)
           else do {
             let diff = pr_id p - pn_id pin;
             let p = (if diff > pr_max_backtrack_stat p then p\<lparr>pr_max_backtrack_stat := diff\<rparr> else p);
             l \<leftarrow> pr_seq_list p;
             if diff \<ge> ucast (word_of_int (x_size l) :: u32) then Some (False, p)
             else do {
               v \<leftarrow> circ_item l (to_int diff);
               Some (v = 0, p) } })
        else if pn_time pin < pr_time p then Some (False, p)
        else Some (True, p))
     else
       (if pn_time pin = pr_time p then Some (pr_id p = 0 \<or> pn_id pin = pr_id p + 1, p)
        else if pn_time pin < pr_time p then Some (False, p)
        else Some (pn_id pin = 1, p)) }"

section \<open>The sending side and the wire format\<close>

definition packet_id_read :: "buffer \<Rightarrow> bool \<Rightarrow> bool \<times> packet_id_net \<times> buffer" where
  "packet_id_read buf long_form =
     (case buf_read buf 4 of
        (None, buf) \<Rightarrow> (False, \<lparr>pn_id = 0, pn_time = 0\<rparr>, buf)
      | (Some net_id, buf) \<Rightarrow>
          (let pin = \<lparr>pn_id = ucast (of_be32 net_id), pn_time = 0\<rparr> in
           if long_form then
             (case buf_read buf 4 of
                (None, buf) \<Rightarrow> (False, pin, buf)
              | (Some net_time, buf) \<Rightarrow> (True, pin\<lparr>pn_time := uint (of_be32 net_time)\<rparr>, buf))
           else (True, pin, buf)))"

definition packet_id_send_update :: "int \<Rightarrow> packet_id_send \<Rightarrow> bool \<Rightarrow> bool \<times> packet_id_send" where
  "packet_id_send_update now p long_form =
     (let p = (if ps_time p = 0 then p\<lparr>ps_time := now\<rparr> else p) in
      if ps_id p = PACKET_ID_MAX then
        (if \<not> long_form \<or> now \<le> ps_time p then (False, p)
         else (True, p\<lparr>ps_time := now, ps_id := 1\<rparr>))
      else (True, p\<lparr>ps_id := ps_id p + 1\<rparr>))"

definition packet_id_send_update_epoch :: "int \<Rightarrow> packet_id_send \<Rightarrow> bool \<times> packet_id_send" where
  "packet_id_send_update_epoch now p =
     (let p = (if ps_time p = 0 then p\<lparr>ps_time := now\<rparr> else p) in
      if ps_id p = PACKET_ID_EPOCH_MAX then (False, p) else (True, p\<lparr>ps_id := ps_id p + 1\<rparr>))"

definition packet_id_write ::
  "int \<Rightarrow> packet_id_send \<Rightarrow> buffer \<Rightarrow> bool \<Rightarrow> bool \<Rightarrow> bool \<times> packet_id_send \<times> buffer" where
  "packet_id_write now p buf long_form prepend =
     (case packet_id_send_update now p long_form of
        (False, p) \<Rightarrow> (False, p, buf)
      | (True, p) \<Rightarrow>
          (let net_id = be32 (ucast (ps_id p)); net_time = be32 (word_of_int (ps_time p)) in
           if prepend then
             (case (if long_form then buf_write_prepend buf net_time else (True, buf)) of
                (False, buf) \<Rightarrow> (False, p, buf)
              | (True, buf) \<Rightarrow>
                  (case buf_write_prepend buf net_id of (ok, buf) \<Rightarrow> (ok, p, buf)))
           else
             (case buf_write buf net_id of
                (False, buf) \<Rightarrow> (False, p, buf)
              | (True, buf) \<Rightarrow>
                  (if long_form
                   then (case buf_write buf net_time of (ok, buf) \<Rightarrow> (ok, p, buf))
                   else (True, p, buf)))))"

definition packet_id_read_epoch :: "packet_id_net \<Rightarrow> buffer \<Rightarrow> u16 \<times> packet_id_net \<times> buffer" where
  "packet_id_read_epoch pin buf =
     (case buf_read buf 8 of
        (None, buf) \<Rightarrow> (0, pin, buf)
      | (Some bs, buf) \<Rightarrow>
          (let id' = of_be64 bs; epoch = ucast (drop_bit 48 id') in
           (epoch, pin\<lparr>pn_id := id' AND PACKET_ID_MASK\<rparr>, buf)))"

definition packet_id_write_epoch ::
  "int \<Rightarrow> packet_id_send \<Rightarrow> u16 \<Rightarrow> buffer \<Rightarrow> bool \<times> packet_id_send \<times> buffer" where
  "packet_id_write_epoch now p epoch buf =
     (case packet_id_send_update_epoch now p of
        (False, p) \<Rightarrow> (False, p, buf)
      | (True, p) \<Rightarrow>
          (let net_id = push_bit 48 (ucast epoch) OR ps_id p in
           case buf_write buf (be64 net_id) of (ok, buf) \<Rightarrow> (ok, p, buf)))"

definition reset_packet_id_send :: "packet_id_send \<Rightarrow> packet_id_send" where
  "reset_packet_id_send p = p\<lparr>ps_time := 0, ps_id := 0\<rparr>"

definition packet_id_size :: "bool \<Rightarrow> int" where
  "packet_id_size long_form = 4 + (if long_form then 4 else 0)"

definition packet_id_close_to_wrapping :: "packet_id_send \<Rightarrow> bool" where
  "packet_id_close_to_wrapping p \<longleftrightarrow> ps_id p \<ge> PACKET_ID_WRAP_TRIGGER"

section \<open>Persistence\<close>

text \<open>
  The file behind \<open>--replay-persist\<close> is outside the program; what \<open>open\<close>, \<open>read\<close>,
  \<open>lseek\<close> and \<open>write\<close> return is an argument of the operations that call them.
\<close>

definition packet_id_persist_init :: "packet_id_persist" where
  "packet_id_persist_init = \<lparr>pp_filename = None, pp_fd = - 1, pp_time = 0, pp_id = 0,
     pp_time_last_written = 0, pp_id_last_written = 0\<rparr>"

definition packet_id_persist_enabled :: "packet_id_persist \<Rightarrow> bool" where
  "packet_id_persist_enabled p \<longleftrightarrow> pp_fd p \<ge> 0"

definition packet_id_persist_close :: "packet_id_persist \<Rightarrow> packet_id_persist" where
  "packet_id_persist_close p = (if packet_id_persist_enabled p then packet_id_persist_init else p)"

text \<open>\<open>img\<close> is the file's content when a whole image could be read; \<open>None\<close> for the lock
  result \<open>locked = False\<close> is \<open>M_ERR\<close>.\<close>

definition packet_id_persist_load ::
  "packet_id_persist \<Rightarrow> string \<Rightarrow> int \<Rightarrow> bool \<Rightarrow> (int \<times> u32) option \<Rightarrow> packet_id_persist option" where
  "packet_id_persist_load p filename fd locked img =
     (if \<not> packet_id_persist_enabled p then
        (let p = p\<lparr>pp_fd := fd\<rparr> in
         if fd = - 1 then Some p
         else do {
           _ \<leftarrow> ASSERT locked;
           let p = p\<lparr>pp_filename := Some filename\<rparr>;
           Some (case img of
               None \<Rightarrow> p
             | Some (t, i) \<Rightarrow> p\<lparr>pp_time := t, pp_time_last_written := t,
                               pp_id := i, pp_id_last_written := i\<rparr>) })
      else Some p)"

text \<open>\<open>packet_id_persist_save\<close>: the record and the image written to the file, if any.\<close>

definition packet_id_persist_save ::
  "packet_id_persist \<Rightarrow> bool \<Rightarrow> bool \<Rightarrow> packet_id_persist \<times> (int \<times> u32) option" where
  "packet_id_persist_save p seek_ok write_ok =
     (if packet_id_persist_enabled p \<and> pp_time p \<noteq> 0
         \<and> (pp_time p \<noteq> pp_time_last_written p \<or> pp_id p \<noteq> pp_id_last_written p)
         \<and> seek_ok \<and> write_ok
      then (p\<lparr>pp_time_last_written := pp_time p, pp_id_last_written := pp_id p\<rparr>,
            Some (pp_time p, pp_id p))
      else (p, None))"

definition packet_id_persist_load_obj :: "packet_id_persist \<Rightarrow> packet_id \<Rightarrow> packet_id" where
  "packet_id_persist_load_obj p pid =
     (if packet_id_persist_enabled p \<and> pp_time p \<noteq> 0
      then pid\<lparr>pid_rec := (pid_rec pid)\<lparr>pr_time := pp_time p, pr_id := ucast (pp_id p)\<rparr>\<rparr>
      else pid)"

definition packet_id_persist_save_obj :: "packet_id_persist \<Rightarrow> packet_id \<Rightarrow> packet_id_persist" where
  "packet_id_persist_save_obj p pid =
     (if packet_id_persist_enabled p \<and> pr_time (pid_rec pid) \<noteq> 0
      then p\<lparr>pp_time := pr_time (pid_rec pid), pp_id := ucast (pr_id (pid_rec pid))\<rparr>
      else p)"

text \<open>The two halves of an epoch packet id do not mix.\<close>

lemma epoch_pack:
  fixes e :: u16 and i :: u64
  assumes "i \<le> PACKET_ID_EPOCH_MAX"
  shows "ucast (drop_bit 48 (push_bit 48 (ucast e) OR i) :: u64) = e"
    "(push_bit 48 (ucast e) OR i) AND PACKET_ID_MASK = i"
proof -
  have m: "PACKET_ID_MASK = mask 48" by (simp add: PACKET_ID_MASK_def mask_eq_exp_minus_1)
  have "unat i < 2 ^ 48" using assms by (simp add: PACKET_ID_EPOCH_MAX_def word_le_nat_alt)
  then have i: "take_bit 48 i = i"
    unfolding word_unat_eq_iff by (simp add: unsigned_take_bit_eq take_bit_nat_eq_self)
  have hi: "bit i n \<Longrightarrow> n < 48" for n
    using i by (metis bit_take_bit_iff)
  show "ucast (drop_bit 48 (push_bit 48 (ucast e) OR i) :: u64) = e"
    by (rule bit_word_eqI) (auto simp: bit_simps dest: hi)
  show "(push_bit 48 (ucast e) OR i) AND PACKET_ID_MASK = i"
    unfolding m by (rule bit_word_eqI) (auto simp: bit_simps dest: hi)
qed

end
