(* ===== verification/ReplayWindow.thy ===== *)
theory ReplayWindow
  imports PacketId
begin

text \<open>
  What the replay protection of packet_id.c promises. The window of a receiving record is
  read as a function \<open>pid_mark\<close> from packet ids to the time they were accepted (0: not yet,
  1: expired); \<open>packet_id_test\<close>, \<open>packet_id_add\<close> and \<open>packet_id_reap\<close> are then described on
  it. The locale \<open>replay_filter\<close> is the contract of a replay check towards its callers,
  and its consequence that no message of any history is accepted twice.
\<close>

section \<open>A window of marks, newest first\<close>

definition win :: "int list \<Rightarrow> nat \<Rightarrow> nat \<Rightarrow> int" where
  "win xs hi j = (if j \<le> hi \<and> hi - j < length xs then xs ! (hi - j) else 0)"

lemma win_Nil [simp]: "win [] hi j = 0"
  by (simp add: win_def)

lemma win_push:
  "win (take n (replicate k 0 @ xs)) (hi + k) j = (if hi + k - j < n then win xs hi j else 0)"
  by (auto simp: win_def nth_append)

lemma win_set:
  "i \<le> hi \<Longrightarrow> hi - i < length xs \<Longrightarrow> win (xs[hi - i := v]) hi = (win xs hi)(i := v)"
  by (rule ext) (auto simp: win_def nth_list_update)

lemma win_above: "hi < j \<Longrightarrow> win xs hi j = 0"
  by (simp add: win_def)

definition expired_suffix :: "int list \<Rightarrow> bool" where
  "expired_suffix xs \<longleftrightarrow> (\<forall>k j. k < j \<longrightarrow> j < length xs \<longrightarrow> xs ! k = SEQ_EXPIRED \<longrightarrow> xs ! j = SEQ_EXPIRED)"

lemma expired_suffix_Nil [simp]: "expired_suffix []"
  by (simp add: expired_suffix_def)

lemma expired_suffix_take: "expired_suffix xs \<Longrightarrow> expired_suffix (take n xs)"
  by (auto simp: expired_suffix_def)

lemma expired_suffix_push:
  assumes "expired_suffix xs"
  shows "expired_suffix (take n (replicate k 0 @ xs))"
proof (rule expired_suffix_take, subst expired_suffix_def, intro allI impI)
  fix a j
  assume *: "a < j" "j < length (replicate k 0 @ xs)"
    "(replicate k 0 @ xs) ! a = SEQ_EXPIRED"
  then have "k \<le> a" by (auto simp: nth_append SEQ_EXPIRED_def split: if_splits)
  moreover have "a - k < j - k" "j - k < length xs" using * \<open>k \<le> a\<close> by auto
  ultimately have "xs ! (j - k) = SEQ_EXPIRED"
    using * assms unfolding expired_suffix_def by (auto simp: nth_append)
  then show "(replicate k 0 @ xs) ! j = SEQ_EXPIRED" using \<open>k \<le> a\<close> * by (simp add: nth_append)
qed

lemma expired_suffix_set:
  assumes "expired_suffix xs" "xs ! i \<noteq> SEQ_EXPIRED" "v \<noteq> SEQ_EXPIRED"
  shows "expired_suffix (xs[i := v])"
proof -
  have "xs[i := v] ! j = SEQ_EXPIRED"
    if *: "k < j" "j < length xs" "xs[i := v] ! k = SEQ_EXPIRED" for k j
  proof -
    have "k \<noteq> i" using * assms(3) by auto
    then have "xs ! j = SEQ_EXPIRED" using * assms(1) by (auto simp: expired_suffix_def)
    then show ?thesis using assms(2) by (metis nth_list_update_neq)
  qed
  then show ?thesis by (simp add: expired_suffix_def)
qed

lemma expired_suffix_Cons:
  "expired_suffix (t # ts) \<Longrightarrow> expired_suffix ts \<and> (t = SEQ_EXPIRED \<longrightarrow> (\<forall>x\<in>set ts. x = SEQ_EXPIRED))"
  unfolding expired_suffix_def all_set_conv_all_nth
  by (metis Suc_less_eq length_Cons nth_Cons_0 nth_Cons_Suc zero_less_Suc)

section \<open>Well-formed records\<close>

definition pid_items :: "packet_id_rec \<Rightarrow> int list" where
  "pid_items p = (case pr_seq_list p of None \<Rightarrow> [] | Some l \<Rightarrow> circ_items l)"

definition pid_mark :: "packet_id_rec \<Rightarrow> nat \<Rightarrow> int" where
  "pid_mark p = win (pid_items p) (unat (pr_id p))"

definition win_wf :: "packet_id_rec \<Rightarrow> circ_list \<Rightarrow> bool" where
  "win_wf p l \<longleftrightarrow> circ_wf l \<and> x_cap l = int (unat (pr_seq_backtrack p)) \<and> unat (pr_seq_backtrack p) \<le> 65536 \<and>
     x_size l = int (min (unat (pr_seq_backtrack p)) (unat (pr_id p))) \<and> expired_suffix (circ_items l)"

definition pid_wf :: "packet_id_rec \<Rightarrow> bool" where
  "pid_wf p \<longleftrightarrow> pr_initialized p \<and> 0 \<le> pr_time_backtrack p \<and>
     (case pr_seq_list p of
        None \<Rightarrow> pr_seq_backtrack p = 0 \<and> pr_time_backtrack p = 0
      | Some l \<Rightarrow> pr_seq_backtrack p \<noteq> 0 \<and> win_wf p l)"

lemma pid_wf_window:
  assumes "pid_wf p" "pr_seq_backtrack p \<noteq> 0"
  obtains l where "pr_seq_list p = Some l" "win_wf p l"
  using assms by (auto simp: pid_wf_def split: option.splits)

lemma fill_unseen_items:
  assumes "circ_wf l" "i \<le> t"
  shows "\<exists>l'. fill_unseen l i t = Some (l', t) \<and> circ_wf l' \<and> x_cap l' = x_cap l \<and>
    circ_items l' = take (nat (x_cap l)) (replicate (unat t - unat i) 0 @ circ_items l)"
  using assms
proof (induction l i t rule: fill_unseen.induct)
  case (1 l i t)
  show ?case
  proof (cases "i < t")
    case True
    obtain l1 where l1: "circ_push l SEQ_UNSEEN = Some l1" "circ_wf l1" "x_cap l1 = x_cap l"
      "circ_items l1 = take (nat (x_cap l)) (SEQ_UNSEEN # circ_items l)"
      using circ_push_Some [OF "1.prems"(1), of SEQ_UNSEEN] by blast
    have u: "unat (i + 1) = unat i + 1" "unat i < unat t"
      using True by (simp_all add: unat_succ_less word_less_nat_alt)
    then have "i + 1 \<le> t" by (simp add: word_le_nat_alt)
    from "1.IH" [OF True l1(1,2) this] l1 obtain l2 where
      l2: "fill_unseen l1 (i + 1) t = Some (l2, t)" "circ_wf l2" "x_cap l2 = x_cap l"
      "circ_items l2 = take (nat (x_cap l)) (replicate (unat t - unat (i + 1)) 0 @ circ_items l1)"
      by auto
    have r: "replicate (unat t - unat i) (0::int) = replicate (unat t - unat (i + 1)) 0 @ [0]"
    proof -
      have "unat t - unat i = Suc (unat t - unat (i + 1))" using u by simp
      then show ?thesis by (simp add: replicate_append_same [symmetric] del: unat_1)
    qed
    have "fill_unseen l i t = Some (l2, t)"
      using True l1 l2 by (subst fill_unseen.simps) simp
    moreover have "circ_items l2 =
        take (nat (x_cap l)) (replicate (unat t - unat i) 0 @ circ_items l)"
      unfolding l2(4) l1(4) r by (simp add: SEQ_UNSEEN_def min_def)
    ultimately show ?thesis using l2 by blast
  next
    case False
    with "1.prems" have "i = t" by simp
    have "circ_items l = take (nat (x_cap l)) (circ_items l)"
      using "1.prems"(1) by (intro take_all [symmetric]) (auto simp: circ_wf_def)
    with \<open>i = t\<close> "1.prems" show ?thesis by (subst fill_unseen.simps) simp
  qed
qed

lemma fill_unseen_any:
  assumes "circ_wf l"
  shows "\<exists>l'. fill_unseen l i t = Some (l', max i t) \<and> circ_wf l' \<and> x_cap l' = x_cap l \<and>
    circ_items l' = take (nat (x_cap l)) (replicate (unat (max i t) - unat i) 0 @ circ_items l)"
proof (cases "i \<le> t")
  case True
  with fill_unseen_items [OF assms] show ?thesis by (simp add: max_absorb2)
next
  case False
  then have "fill_unseen l i t = Some (l, i)" by (subst fill_unseen.simps) (auto dest: less_imp_le)
  moreover have "circ_items l = take (nat (x_cap l)) (circ_items l)"
    using assms by (intro take_all [symmetric]) (auto simp: circ_wf_def)
  ultimately show ?thesis using False assms by (simp add: max_absorb1)
qed

section \<open>The three operations on the window\<close>

lemma to_int_small:
  assumes "unat w < 2 ^ 31"
  shows "to_int w = int (unat w)"
proof -
  have "unat (ucast w :: u32) = unat w" using assms by (intro unat_ucast_small) simp
  then show ?thesis using assms sint_eq_unat [of "ucast w :: u32"] by (simp add: to_int_def)
qed

lemma size_word_small:
  "n \<le> 65536 \<Longrightarrow> unat (ucast (word_of_nat n :: u32) :: u64) = n"
  by (simp add: unat_ucast_small unsigned_of_nat take_bit_nat_eq_self)

lemma win_wf_size:
  "win_wf p l \<Longrightarrow> length (circ_items l) = min (unat (pr_seq_backtrack p)) (unat (pr_id p))"
  "win_wf p l \<Longrightarrow> nat (x_size l) \<le> 65536"
  by (auto simp: win_wf_def)

text \<open>The ids that a record no longer accepts: earlier times, and ids of the current time
  that are marked or have left the window. In the mode without a window (TCP) these are all
  ids up to the last one.\<close>

definition pid_retired :: "packet_id_rec \<Rightarrow> packet_id_net \<Rightarrow> bool" where
  "pid_retired p pin \<longleftrightarrow> pn_id pin = 0 \<or> pn_time pin < pr_time p \<or>
     pn_time pin = pr_time p \<and> pn_id pin \<le> pr_id p \<and>
       (pr_seq_backtrack p = 0 \<or>
        unat (pr_id p) - unat (pn_id pin) \<ge> unat (pr_seq_backtrack p) \<or>
        pid_mark p (unat (pn_id pin)) \<noteq> 0)"

lemma packet_id_test_window:
  assumes "pid_wf p" "pr_seq_backtrack p \<noteq> 0"
  shows "\<exists>p'. packet_id_test p pin = Some (\<not> pid_retired p pin, p') \<and>
    (\<exists>s. p' = p\<lparr>pr_max_backtrack_stat := s\<rparr>)"
proof -
  have i: "pr_initialized p" using assms by (simp add: pid_wf_def)
  obtain l where l: "pr_seq_list p = Some l" "win_wf p l"
    using pid_wf_window [OF assms] .
  define sz :: u64 where "sz = ucast (word_of_int (x_size l) :: u32)"
  have unsz: "unat sz = min (unat (pr_seq_backtrack p)) (unat (pr_id p))"
  proof -
    define n where "n = min (unat (pr_seq_backtrack p)) (unat (pr_id p))"
    have "x_size l = int n" "n \<le> 65536" using l(2) by (auto simp: win_wf_def n_def)
    then show ?thesis unfolding n_def [symmetric] by (simp add: sz_def size_word_small)
  qed
  have xs: "x_size l = int (unat sz)" "unat sz \<le> 65536"
    using l(2) unsz by (auto simp: win_wf_def)
  have same: "\<exists>p. p' = p \<Longrightarrow> \<exists>s. p = p\<lparr>pr_max_backtrack_stat := s\<rparr>" for p' p :: packet_id_rec
    by (rule exI [of _ "pr_max_backtrack_stat p"]) simp
  show ?thesis
  proof (cases "pn_id pin \<noteq> 0 \<and> pn_time pin = pr_time p \<and> \<not> pn_id pin > pr_id p")
    case False
    then show ?thesis using assms i same
      by (auto simp: packet_id_test_def pid_retired_def not_less)
  next
    case True
    then have n: "pn_id pin \<noteq> 0" "pn_time pin = pr_time p" "pn_id pin \<le> pr_id p" by auto
    define diff where "diff = pr_id p - pn_id pin"
    have d: "unat diff = unat (pr_id p) - unat (pn_id pin)"
      using n(3) by (simp add: diff_def unat_sub_if' word_le_nat_alt)
    have pos: "0 < unat (pn_id pin)" using n(1) by (simp add: unat_gt_0)
    have le: "unat (pn_id pin) \<le> unat (pr_id p)" using n(3) by (simp add: word_le_nat_alt)
    define q where "q = (if diff > pr_max_backtrack_stat p then p\<lparr>pr_max_backtrack_stat := diff\<rparr> else p)"
    have q: "pr_seq_list q = Some l" "\<exists>s. q = p\<lparr>pr_max_backtrack_stat := s\<rparr>"
      using l same by (auto simp: q_def)
    have t: "packet_id_test p pin = (if diff \<ge> sz then Some (False, q)
        else do { v \<leftarrow> circ_item l (to_int diff); Some (v = 0, q) })"
      using True assms i l(1)
      by (cases "diff > pr_max_backtrack_stat p")
        (simp_all add: packet_id_test_def diff_def [symmetric] sz_def q_def Let_def)
    show ?thesis
    proof (cases "diff \<ge> sz")
      case T: True
      then have "unat diff \<ge> unat (pr_seq_backtrack p)"
        using unsz d pos le by (auto simp: word_le_nat_alt)
      then have "pid_retired p pin" using n d by (simp add: pid_retired_def)
      with T t q show ?thesis by auto
    next
      case F: False
      then have ds: "unat diff < unat sz" by (simp add: word_le_nat_alt)
      then have ti: "to_int diff = int (unat diff)" using xs by (intro to_int_small) auto
      have "circ_item l (to_int diff) = Some (circ_items l ! unat diff)"
        using ds xs l(2) unfolding ti by (subst circ_item_Some) (simp_all add: win_wf_def del: of_nat_unat)
      moreover have "circ_items l ! unat diff = pid_mark p (unat (pn_id pin))"
        using le ds unsz win_wf_size(1) [OF l(2)] d
        by (simp add: pid_mark_def pid_items_def l(1) win_def)
      ultimately have "packet_id_test p pin = Some (pid_mark p (unat (pn_id pin)) = 0, q)"
        using F t by simp
      moreover have "pid_retired p pin \<longleftrightarrow> pid_mark p (unat (pn_id pin)) \<noteq> 0"
        using n assms ds unsz d by (auto simp: pid_retired_def)
      ultimately show ?thesis using q by auto
    qed
  qed
qed


text \<open>The three ways \<open>packet_id_add\<close> moves the window: a new sequence (empty window, later
  time, or a jump past the window), or an advance of the present one, possibly by 0.\<close>

definition add_target :: "packet_id_rec \<Rightarrow> packet_id_net \<Rightarrow> u64" where
  "add_target p pin = (if pn_time pin > pr_time p then pn_id pin else max (pr_id p) (pn_id pin))"

lemma packet_id_add_window:
  assumes "pid_wf p" "pr_seq_backtrack p \<noteq> 0" "\<not> pid_retired p pin" "now > 1"
  shows "\<exists>p'. packet_id_add now p pin = Some p' \<and> pid_wf p' \<and>
    pr_seq_backtrack p' = pr_seq_backtrack p \<and> pr_time_backtrack p' = pr_time_backtrack p \<and>
    pr_time p' = pn_time pin \<and> pr_id p' = add_target p pin \<and>
    (\<forall>j. pid_mark p' j = (if j = unat (pn_id pin) then now
        else if pn_time pin = pr_time p \<and> unat (pr_id p') - j < unat (pr_seq_backtrack p)
        then pid_mark p j else 0))"
proof -
  obtain l where l: "pr_seq_list p = Some l" "win_wf p l"
    using pid_wf_window [OF assms(1,2)] .
  have i: "pr_initialized p" "0 \<le> pr_time_backtrack p" using assms(1) by (simp_all add: pid_wf_def)
  let ?bt = "pr_seq_backtrack p" and ?id = "pn_id pin"
  define reset where "reset \<longleftrightarrow> x_size l = 0 \<or> pn_time pin > pr_time p \<or> ?id \<ge> ?bt \<and> ?id - ?bt > pr_id p"
  define p1 where "p1 = (if reset then p\<lparr>pr_time := pn_time pin,
      pr_id := (if ?id > ?bt then ?id - ?bt else 0), pr_seq_list := Some (circ_reset l)\<rparr> else p)"
  define l1 where "l1 = (if reset then circ_reset l else l)"
  have bt: "0 < unat ?bt" "unat ?bt \<le> 65536" using assms(2) l(2) by (auto simp: win_wf_def unat_gt_0)
  have id: "0 < unat ?id" using assms(3) by (auto simp: pid_retired_def unat_gt_0)
  have l1: "circ_wf l1" "nat (x_cap l1) = unat ?bt" "x_cap l1 = int (unat ?bt)"
    using l by (auto simp: l1_def win_wf_def circ_reset_wf)
  have p1: "pr_seq_list p1 = Some l1" "pr_seq_backtrack p1 = ?bt" "pr_time p1 = pn_time pin"
    "pr_initialized p1" "pr_time_backtrack p1 = pr_time_backtrack p"
    using l i assms(3) by (auto simp: p1_def l1_def reset_def pid_retired_def)
  have len: "length (circ_items l) = min (unat ?bt) (unat (pr_id p))"
    using l(2) by (rule win_wf_size)
  have empty: "x_size l = 0 \<longleftrightarrow> pr_id p = 0"
    using l(2) bt by (auto simp: win_wf_def unat_eq_0 min_def simp del: of_nat_unat)
  have i1: "unat (pr_id p1) = (if reset then unat ?id - unat ?bt else unat (pr_id p))"
    by (auto simp: p1_def word_less_nat_alt unat_sub_if')
  define i2 where "i2 = max (pr_id p1) ?id"
  have target: "i2 = add_target p pin"
  proof (cases reset)
    case True
    then have "i2 = ?id" using i1 by (simp add: i2_def max_def word_le_nat_alt)
    moreover have "pr_id p \<le> ?id" if "\<not> pn_time pin > pr_time p"
      using that True empty by (auto simp: reset_def word_le_nat_alt word_less_nat_alt unat_sub_if')
    ultimately show ?thesis by (auto simp: add_target_def max_def)
  next
    case False
    then have "p1 = p" "\<not> pn_time pin > pr_time p" by (simp_all add: p1_def) (simp add: reset_def)
    then show ?thesis by (simp add: i2_def add_target_def)
  qed
  obtain l2 where l2: "fill_unseen l1 (pr_id p1) ?id = Some (l2, i2)" "circ_wf l2"
    "x_cap l2 = int (unat ?bt)"
    "circ_items l2 = take (unat ?bt) (replicate (unat i2 - unat (pr_id p1)) 0 @ circ_items l1)"
    using fill_unseen_any [OF l1(1), of "pr_id p1" ?id] l1 by (auto simp: i2_def simp del: of_nat_unat)
  have i12: "unat i2 = unat (pr_id p1) + (unat i2 - unat (pr_id p1))"
    by (simp add: i2_def max_def word_le_nat_alt)
  have len2: "length (circ_items l2) = min (unat ?bt) (unat i2)"
  proof (cases reset)
    case True
    then have "circ_items l1 = []" by (simp add: l1_def)
    moreover have "unat i2 = unat ?id" using True i1 by (simp add: i2_def max_def word_le_nat_alt)
    ultimately show ?thesis using True i1 by (simp add: l2(4))
  next
    case False
    then show ?thesis using len i1 i12 by (simp add: l2(4) l1_def)
  qed
  have m: "win (circ_items l2) (unat i2) j =
      (if pn_time pin = pr_time p \<and> unat i2 - j < unat ?bt then pid_mark p j else 0)" for j
  proof -
    have w: "win (circ_items l2) (unat i2) j =
        (if unat i2 - j < unat ?bt then win (circ_items l1) (unat (pr_id p1)) j else 0)"
      unfolding l2(4) using win_push [of "unat ?bt" "unat i2 - unat (pr_id p1)" "circ_items l1" "unat (pr_id p1)" j] i12
      by simp
    show ?thesis
    proof (cases reset)
      case True
      have "pid_mark p j = 0" if "\<not> pn_time pin > pr_time p" "unat i2 - j < unat ?bt"
      proof (cases "pr_id p = 0")
        case True
        then have "circ_items l = []" using len by (simp del: length_circ_items)
        then show ?thesis by (simp add: pid_mark_def pid_items_def l(1))
      next
        case False
        then have "unat (pr_id p) < unat ?id - unat ?bt" "unat i2 = unat ?id"
          using \<open>reset\<close> that(1) empty i1
          by (auto simp: reset_def i2_def max_def word_le_nat_alt word_less_nat_alt unat_sub_if')
        then show ?thesis using that(2) by (simp add: pid_mark_def win_above)
      qed
      moreover have "\<not> pn_time pin < pr_time p" using assms(3) by (simp add: pid_retired_def)
      ultimately show ?thesis using w True by (auto simp: l1_def)
    next
      case False
      then show ?thesis using w assms(3)
        by (auto simp: l1_def p1_def pid_mark_def pid_items_def l(1) reset_def pid_retired_def)
    qed
  qed
  define diff where "diff = i2 - ?id"
  have d: "unat diff = unat i2 - unat ?id" "unat ?id \<le> unat i2"
    by (simp_all add: diff_def i2_def max_def word_le_nat_alt unat_sub_if')
  have keep: "unat i2 - unat ?id < unat ?bt \<and> pid_mark p (unat ?id) = 0"
    if "pn_time pin = pr_time p" 
  proof (cases "?id \<le> pr_id p")
    case True
    then show ?thesis using assms(3,2) that target
      by (auto simp: pid_retired_def add_target_def max_def)
  next
    case False
    then show ?thesis using that target bt
      by (simp add: pid_mark_def win_above word_le_nat_alt add_target_def max_def)
  qed
  have i2id: "i2 = ?id" if "pn_time pin \<noteq> pr_time p"
    using that target assms(3) by (auto simp: add_target_def pid_retired_def)
  have dl: "unat diff < length (circ_items l2)"
    unfolding len2 d using keep i2id id bt d(2) by (cases "pn_time pin = pr_time p") auto
  have z: "circ_items l2 ! unat diff = 0"
    using m [of "unat ?id"] dl d keep by (cases "pn_time pin = pr_time p") (auto simp: win_def)
  have ti: "to_int diff = int (unat diff)" using dl len2 bt by (intro to_int_small) auto
  have sd: "sint diff = int (unat diff)" using dl len2 bt by (intro sint_eq_unat) auto
  have sz: "x_size l2 = int (length (circ_items l2))" using l2(2) by (simp add: circ_wf_def)
  obtain l3 where l3: "circ_set l2 (to_int diff) now = Some l3" "circ_wf l3" "x_cap l3 = int (unat ?bt)"
    "x_size l3 = int (min (unat ?bt) (unat i2))" "circ_items l3 = (circ_items l2)[unat diff := now]"
    using circ_set_Some [OF l2(2), of "to_int diff" now] dl sz ti l2(3) len2
    by (auto simp del: of_nat_unat length_circ_items)
  have add: "packet_id_add now p pin = Some (p1\<lparr>pr_id := i2, pr_seq_list := Some l3\<rparr>)"
  proof -
    have "packet_id_add now p pin = do {
          l \<leftarrow> pr_seq_list p1;
          (l, i) \<leftarrow> fill_unseen l (pr_id p1) ?id;
          let diff = i - ?id;
          l \<leftarrow> (if sint diff < x_size l \<and> now > SEQ_EXPIRED
               then circ_set l (to_int diff) now else Some l);
          Some (p1\<lparr>pr_id := i, pr_seq_list := Some l\<rparr>) }"
      by (simp add: packet_id_add_def l(1) p1_def reset_def)
    then show ?thesis using dl sz assms(4) l3(1)
      by (simp add: p1(1) l2(1) diff_def [symmetric] sd SEQ_EXPIRED_def
          del: of_nat_unat length_circ_items)
  qed
  let ?p = "p1\<lparr>pr_id := i2, pr_seq_list := Some l3\<rparr>"
  have mark: "pid_mark ?p j = (if j = unat ?id then now
      else if pn_time pin = pr_time p \<and> unat i2 - j < unat ?bt then pid_mark p j else 0)" for j
    using win_set [of "unat ?id" "unat i2" "circ_items l2" now] d dl m
    by (simp add: pid_mark_def [of ?p] pid_items_def l3(5))
  have "expired_suffix (circ_items l1)"
    using l(2) by (simp add: l1_def win_wf_def)
  then have "expired_suffix (circ_items l2)"
    unfolding l2(4) by (rule expired_suffix_push)
  then have "expired_suffix (circ_items l3)"
    using z assms(4) unfolding l3(5)
    by (intro expired_suffix_set) (auto simp: SEQ_EXPIRED_def)
  then have "pid_wf ?p"
    using i p1 assms(2) l3 bt by (simp add: pid_wf_def win_wf_def)
  with add mark target p1 show ?thesis by auto
qed


text \<open>Reaping, as a function of the window: from the first mark older than
  \<open>time_backtrack\<close> on, everything is expired, marked or not.\<close>

fun reap_items :: "int \<Rightarrow> int \<Rightarrow> int list \<Rightarrow> bool \<Rightarrow> int list" where
  "reap_items now tb [] e = []"
| "reap_items now tb (t # ts) e =
     (if t = SEQ_EXPIRED then t # ts
      else let e = (e \<or> t \<noteq> 0 \<and> t + tb < now)
           in (if e then SEQ_EXPIRED else t) # reap_items now tb ts e)"

lemma length_reap_items [simp]: "length (reap_items now tb xs e) = length xs"
  by (induction now tb xs e rule: reap_items.induct) (simp_all add: Let_def)

lemma reap_items_expired:
  "e \<Longrightarrow> expired_suffix xs \<Longrightarrow> reap_items now tb xs e = replicate (length xs) SEQ_EXPIRED"
proof (induction now tb xs e rule: reap_items.induct)
  case (2 now tb t ts e)
  then show ?case using expired_suffix_Cons [OF "2.prems"(2)]
    by (auto simp: Let_def replicate_eqI)
qed simp

text \<open>An id is expired exactly when some id at or above it in the window is too old.\<close>

definition too_old :: "int \<Rightarrow> int \<Rightarrow> int \<Rightarrow> bool" where
  "too_old now tb t \<longleftrightarrow> t = SEQ_EXPIRED \<or> t \<noteq> 0 \<and> t + tb < now"

lemma reap_items_nth:
  "expired_suffix xs \<Longrightarrow> j < length xs \<Longrightarrow>
   reap_items now tb xs False ! j = (if \<exists>k\<le>j. too_old now tb (xs ! k) then SEQ_EXPIRED else xs ! j)"
proof (induction xs arbitrary: j)
  case (Cons t ts)
  note ts = expired_suffix_Cons [OF Cons.prems(1)]
  have shift: "(\<exists>k\<le>j. too_old now tb ((t # ts) ! k)) \<longleftrightarrow>
      too_old now tb t \<or> (\<exists>k. Suc k \<le> j \<and> too_old now tb (ts ! k))"
    (is "?l \<longleftrightarrow> ?r")
  proof
    assume ?l
    then obtain k where "k \<le> j" "too_old now tb ((t # ts) ! k)" by blast
    then show ?r by (cases k) auto
  next
    assume ?r
    then show ?l
    proof
      assume "too_old now tb t"
      then show ?l by (intro exI [of _ 0]) simp
    next
      assume "\<exists>k. Suc k \<le> j \<and> too_old now tb (ts ! k)"
      then obtain k where "Suc k \<le> j" "too_old now tb (ts ! k)" by blast
      then show ?l by (intro exI [of _ "Suc k"]) simp
    qed
  qed
  show ?case
  proof (cases "too_old now tb t")
    case True
    have all: "reap_items now tb (t # ts) False = replicate (Suc (length ts)) SEQ_EXPIRED"
    proof (cases "t = SEQ_EXPIRED")
      case True
      then show ?thesis using ts by (simp add: replicate_eqI)
    next
      case False
      then show ?thesis using True ts reap_items_expired [of True ts now tb]
        by (simp add: too_old_def)
    qed
    have "reap_items now tb (t # ts) False ! j = SEQ_EXPIRED"
      unfolding all using Cons.prems(2) by (subst nth_replicate) auto
    with True shift show ?thesis by simp
  next
    case False
    then have "reap_items now tb (t # ts) False = t # reap_items now tb ts False"
      by (auto simp: too_old_def Let_def)
    with False shift Cons show ?thesis using ts by (cases j) auto
  qed
qed simp

lemma reap_items_suffix: "expired_suffix xs \<Longrightarrow> expired_suffix (reap_items now tb xs False)"
  unfolding expired_suffix_def [of "reap_items now tb xs False"]
proof (intro allI impI)
  fix k j
  assume a: "expired_suffix xs" "k < j" "j < length (reap_items now tb xs False)"
    "reap_items now tb xs False ! k = SEQ_EXPIRED"
  then have "\<exists>k'\<le>k. too_old now tb (xs ! k')"
    by (auto simp: reap_items_nth too_old_def split: if_splits)
  then have "\<exists>k'\<le>j. too_old now tb (xs ! k')" using a(2) by (meson le_trans less_imp_le)
  then show "reap_items now tb xs False ! j = SEQ_EXPIRED"
    using a by (simp add: reap_items_nth)
qed

lemma reap_loop_items:
  assumes "circ_wf l" "0 \<le> i" "i \<le> x_size l"
  shows "\<exists>l'. reap_loop now tb l i e = Some l' \<and> circ_wf l' \<and> x_cap l' = x_cap l \<and> x_size l' = x_size l \<and>
    circ_items l' = take (nat i) (circ_items l) @ reap_items now tb (drop (nat i) (circ_items l)) e"
  using assms
proof (induction now tb l i e rule: reap_loop.induct)
  case (1 now tb l i e)
  show ?case
  proof (cases "i < x_size l")
    case False
    then show ?thesis using "1.prems" by (subst reap_loop.simps) simp
  next
    case True
    let ?t = "circ_items l ! nat i"
    have item: "circ_item l i = Some ?t" using "1.prems" True by (simp add: circ_item_Some)
    have len: "nat i < length (circ_items l)" using True "1.prems" by simp
    then have dr: "drop (nat i) (circ_items l) = ?t # drop (nat (i + 1)) (circ_items l)"
      using "1.prems" by (simp add: Cons_nth_drop_Suc nat_add_distrib)
    let ?e = "e \<or> ?t \<noteq> 0 \<and> ?t + tb < now"
    consider "?t = SEQ_EXPIRED" | "?t \<noteq> SEQ_EXPIRED" ?e | "?t \<noteq> SEQ_EXPIRED" "\<not> ?e" by blast
    then show ?thesis
    proof cases
      case 1
      then have "reap_loop now tb l i e = Some l"
        using True item by (subst reap_loop.simps) simp
      then show ?thesis using "1.prems" 1 by (simp add: dr) (metis append_take_drop_id dr 1)
    next
      case 2
      obtain l1 where l1: "circ_set l i SEQ_EXPIRED = Some l1" "circ_wf l1" "x_cap l1 = x_cap l"
        "x_size l1 = x_size l" "circ_items l1 = (circ_items l)[nat i := SEQ_EXPIRED]"
        using circ_set_Some [OF "1.prems"(1,2) True] by blast
      have r: "reap_loop now tb l i e = reap_loop now tb l1 (i + 1) True"
        using True item 2 l1(1) by (subst reap_loop.simps) (simp add: Let_def)
      have "\<exists>l'. reap_loop now tb l1 (i + 1) ?e = Some l' \<and> circ_wf l' \<and> x_cap l' = x_cap l1 \<and>
          x_size l' = x_size l1 \<and> circ_items l' = take (nat (i + 1)) (circ_items l1) @
            reap_items now tb (drop (nat (i + 1)) (circ_items l1)) ?e"
        using "1.IH"(1) [OF True item 2(1) refl _ l1(1)] 2 l1 True "1.prems" by simp
      moreover have "take (nat (i + 1)) (circ_items l1) = take (nat i) (circ_items l) @ [SEQ_EXPIRED]"
        using len "1.prems" by (simp add: l1(5) nat_add_distrib take_Suc_conv_app_nth)
      moreover have "drop (nat (i + 1)) (circ_items l1) = drop (nat (i + 1)) (circ_items l)"
        using "1.prems" by (simp add: l1(5) nat_add_distrib)
      ultimately show ?thesis using 2 l1 by (simp add: r dr Let_def)
    next
      case 3
      have r: "reap_loop now tb l i e = reap_loop now tb l (i + 1) False"
        using True item 3 by (subst reap_loop.simps) (auto simp: Let_def)
      have f: "?e = False" using 3 by simp
      have "\<exists>l'. reap_loop now tb l (i + 1) ?e = Some l' \<and> circ_wf l' \<and> x_cap l' = x_cap l \<and>
          x_size l' = x_size l \<and> circ_items l' = take (nat (i + 1)) (circ_items l) @
            reap_items now tb (drop (nat (i + 1)) (circ_items l)) ?e"
        by (rule "1.IH"(2) [OF True item 3(1) refl 3(2)]) (use True "1.prems" in auto)
      moreover have "take (nat (i + 1)) (circ_items l) = take (nat i) (circ_items l) @ [?t]"
        using len "1.prems" by (simp add: nat_add_distrib take_Suc_conv_app_nth)
      moreover have "reap_items now tb (drop (nat i) (circ_items l)) e =
          ?t # reap_items now tb (drop (nat (i + 1)) (circ_items l)) False"
        using 3 by (auto simp: dr Let_def)
      ultimately show ?thesis unfolding f r by simp
    qed
  qed
qed


lemma packet_id_reap_window:
  assumes "pid_wf p" "pr_seq_backtrack p \<noteq> 0"
  shows "\<exists>p'. packet_id_reap now p = Some p' \<and> pid_wf p' \<and>
    pr_seq_backtrack p' = pr_seq_backtrack p \<and> pr_time_backtrack p' = pr_time_backtrack p \<and>
    pr_time p' = pr_time p \<and> pr_id p' = pr_id p \<and>
    pid_items p' = (if pr_time_backtrack p = 0 then pid_items p
                    else reap_items now (pr_time_backtrack p) (pid_items p) False)"
proof -
  obtain l where l: "pr_seq_list p = Some l" "win_wf p l"
    using pid_wf_window [OF assms] .
  show ?thesis
  proof (cases "pr_time_backtrack p = 0")
    case True
    then show ?thesis using assms l
      by (auto simp: packet_id_reap_def pid_wf_def pid_items_def win_wf_def)
  next
    case False
    have "circ_wf l" "0 \<le> x_size l" using l(2) by (auto simp: win_wf_def circ_wf_def)
    with reap_loop_items [of l 0] obtain l' where
      l': "reap_loop now (pr_time_backtrack p) l 0 False = Some l'" "circ_wf l'"
        "x_cap l' = x_cap l" "x_size l' = x_size l"
        "circ_items l' = reap_items now (pr_time_backtrack p) (circ_items l) False"
      by fastforce
    then show ?thesis using False assms l
      by (auto simp: packet_id_reap_def pid_wf_def pid_items_def win_wf_def reap_items_suffix)
  qed
qed

lemma win_wf_suffix: "pid_wf p \<Longrightarrow> expired_suffix (pid_items p)"
  by (auto simp: pid_wf_def pid_items_def win_wf_def split: option.splits)

text \<open>The same on the marks: an id stays acceptable through a reap exactly when neither it
  nor a later id of the window is too old.\<close>

definition stale :: "int \<Rightarrow> packet_id_rec \<Rightarrow> nat \<Rightarrow> bool" where
  "stale now p j \<longleftrightarrow> (\<exists>k\<ge>j. too_old now (pr_time_backtrack p) (pid_mark p k))"

lemma not_too_old_0: "\<not> too_old now tb 0"
  by (simp add: too_old_def SEQ_EXPIRED_def)

lemma packet_id_reap_marks:
  assumes "pid_wf p" "pr_time_backtrack p \<noteq> 0" "packet_id_reap now p = Some p'"
    and j: "j \<le> unat (pr_id p)" "unat (pr_id p) - j < length (pid_items p)"
  shows "pid_mark p' j = (if stale now p j then SEQ_EXPIRED else pid_mark p j)"
proof -
  have bt: "pr_seq_backtrack p \<noteq> 0" using assms(1,2) by (auto simp: pid_wf_def split: option.splits)
  note r = packet_id_reap_window [OF assms(1) bt, of now, unfolded assms(3)]
  let ?n = "unat (pr_id p)" and ?xs = "pid_items p" and ?tb = "pr_time_backtrack p"
  have old: "(\<exists>k\<le>?n - j. too_old now ?tb (?xs ! k)) \<longleftrightarrow> stale now p j"
  proof
    assume "\<exists>k\<le>?n - j. too_old now ?tb (?xs ! k)"
    then obtain k where k: "k \<le> ?n - j" "too_old now ?tb (?xs ! k)" by blast
    then have "pid_mark p (?n - k) = ?xs ! k" using j by (simp add: pid_mark_def win_def)
    moreover have "?n - k \<ge> j" using k j by linarith
    ultimately show "stale now p j" using k by (metis stale_def)
  next
    assume "stale now p j"
    then obtain k where k: "k \<ge> j" "too_old now ?tb (pid_mark p k)" by (auto simp: stale_def)
    then have "k \<le> ?n" using not_too_old_0 by (metis pid_mark_def win_above not_le_imp_less)
    moreover have "?n - k < length ?xs" using k j by linarith
    ultimately have "pid_mark p k = ?xs ! (?n - k)" by (simp add: pid_mark_def win_def)
    with k show "\<exists>k\<le>?n - j. too_old now ?tb (?xs ! k)" by (intro exI [of _ "?n - k"]) auto
  qed
  show ?thesis using r assms(2) j old win_wf_suffix [OF assms(1)]
    by (simp add: pid_mark_def win_def reap_items_nth)
qed

lemma packet_id_reap_keeps_marked:
  assumes "pid_wf p" "pr_seq_backtrack p \<noteq> 0" "packet_id_reap now p = Some p'" "pid_mark p j \<noteq> 0"
  shows "pid_mark p' j \<noteq> 0"
proof -
  have j: "j \<le> unat (pr_id p)" "unat (pr_id p) - j < length (pid_items p)"
    using assms(4) by (auto simp: pid_mark_def win_def split: if_splits)
  show ?thesis
  proof (cases "pr_time_backtrack p = 0")
    case True
    then show ?thesis using packet_id_reap_window [OF assms(1,2), of now] assms(3,4)
      by (simp add: pid_mark_def)
  next
    case False
    then show ?thesis using packet_id_reap_marks [OF assms(1) False assms(3) j] assms(4)
      by (simp add: SEQ_EXPIRED_def)
  qed
qed


section \<open>Both modes together\<close>

lemma packet_id_test_sound:
  assumes "pid_wf p"
  shows "\<exists>r s. packet_id_test p pin = Some (r, p\<lparr>pr_max_backtrack_stat := s\<rparr>) \<and> (r \<longrightarrow> \<not> pid_retired p pin)"
proof (cases "pr_seq_backtrack p = 0")
  case True
  have same: "p = p\<lparr>pr_max_backtrack_stat := pr_max_backtrack_stat p\<rparr>" by simp
  have new: "\<not> pn_id pin \<le> pr_id p" if "pn_id pin \<noteq> 0" "pr_id p = 0 \<or> pn_id pin = pr_id p + 1"
    using that unat_succ_nonzero [of "pr_id p"] by (auto simp: word_le_nat_alt unat_eq_0)
  define r where "r = (pn_id pin \<noteq> 0 \<and> (pn_time pin = pr_time p \<and> (pr_id p = 0 \<or> pn_id pin = pr_id p + 1)
      \<or> pn_time pin > pr_time p \<and> pn_id pin = 1))"
  have "packet_id_test p pin = Some (r, p)"
    using True assms by (simp add: packet_id_test_def pid_wf_def r_def)
  moreover have "r \<longrightarrow> \<not> pid_retired p pin" using new by (auto simp: r_def pid_retired_def)
  ultimately show ?thesis using same by metis
next
  case False
  then show ?thesis using packet_id_test_window [OF assms False] by blast
qed

lemma pid_stat_irrelevant [simp]:
  "pid_wf (p\<lparr>pr_max_backtrack_stat := s\<rparr>) = pid_wf p"
  "pid_retired (p\<lparr>pr_max_backtrack_stat := s\<rparr>) q = pid_retired p q"
  by (simp_all add: pid_wf_def win_wf_def pid_retired_def pid_mark_def pid_items_def split: option.splits)

lemma packet_id_add_sound:
  assumes "pid_wf p" "\<not> pid_retired p pin" "now > 1"
  shows "\<exists>p'. packet_id_add now p pin = Some p' \<and> pid_wf p' \<and> pid_retired p' pin \<and>
    (\<forall>q. pid_retired p q \<longrightarrow> pid_retired p' q)"
proof (cases "pr_seq_backtrack p = 0")
  case True
  then have l: "pr_seq_list p = None" "pr_initialized p" "pr_time_backtrack p = 0"
    using assms(1) by (auto simp: pid_wf_def split: option.splits)
  then show ?thesis using True assms(2)
    by (auto simp: packet_id_add_def pid_wf_def pid_retired_def)
next
  case False
  obtain p' where p': "packet_id_add now p pin = Some p'" "pid_wf p'"
    "pr_seq_backtrack p' = pr_seq_backtrack p" "pr_time p' = pn_time pin" "pr_id p' = add_target p pin"
    "\<forall>j. pid_mark p' j = (if j = unat (pn_id pin) then now
        else if pn_time pin = pr_time p \<and> unat (pr_id p') - j < unat (pr_seq_backtrack p)
        then pid_mark p j else 0)"
    using packet_id_add_window [OF assms(1) False assms(2,3)] by blast
  have "pid_retired p' pin"
    using p' assms(3) by (auto simp: pid_retired_def add_target_def)
  moreover have "pid_retired p' q" if retq: "pid_retired p q" for q
  proof -
    consider "pn_id q = 0" | "pn_time q < pr_time p'"
      | "pn_time q = pr_time p" "pr_time p' = pr_time p" "pn_id q \<le> pr_id p" "pn_id q \<noteq> 0"
        "unat (pr_id p) - unat (pn_id q) \<ge> unat (pr_seq_backtrack p) \<or> pid_mark p (unat (pn_id q)) \<noteq> 0"
      using retq assms(2) False unfolding pid_retired_def p'(4) by fastforce
    then show ?thesis
    proof cases
      case 3
      then have "pr_id p' = max (pr_id p) (pn_id pin)" using p'(4,5) by (simp add: add_target_def)
      then have ge: "pr_id p \<le> pr_id p'" by simp
      then have "unat (pr_id p) \<le> unat (pr_id p')" by (simp add: word_le_nat_alt)
      then show ?thesis using 3 ge p' assms(3) by (auto simp: pid_retired_def)
    qed (simp_all add: pid_retired_def)
  qed
  ultimately show ?thesis using p'(1,2) by blast
qed

lemma packet_id_reap_test_sound:
  assumes "pid_wf p"
  shows "\<exists>p'. packet_id_reap_test now p = Some p' \<and> pid_wf p' \<and>
    (\<forall>q. pid_retired p q \<longrightarrow> pid_retired p' q)"
proof (cases "pr_last_reap p + SEQ_REAP_INTERVAL \<le> now")
  case False
  then show ?thesis using assms by (simp add: packet_id_reap_test_def)
next
  case True
  show ?thesis
  proof (cases "pr_seq_backtrack p = 0")
    case T: True
    then have "pr_seq_list p = None" "pr_time_backtrack p = 0"
      using assms by (auto simp: pid_wf_def split: option.splits)
    then show ?thesis using True T assms
      by (auto simp: packet_id_reap_test_def packet_id_reap_def pid_wf_def pid_retired_def)
  next
    case False
    obtain p' where p': "packet_id_reap now p = Some p'" "pid_wf p'"
      "pr_seq_backtrack p' = pr_seq_backtrack p" "pr_time p' = pr_time p" "pr_id p' = pr_id p"
      using packet_id_reap_window [OF assms False, of now] by blast
    then show ?thesis using True packet_id_reap_keeps_marked [OF assms False p'(1)]
      by (auto simp: packet_id_reap_test_def pid_retired_def)
  qed
qed

section \<open>The contract of a replay check\<close>

text \<open>
  \<open>check now s m\<close> decides about message \<open>m\<close>. The contract: it never aborts, it accepts only
  messages that are not retired, what it accepts is retired afterwards, and nothing that is
  retired comes back. It follows that no history of messages has one accepted twice.
\<close>

locale replay_filter =
  fixes ok :: "'s \<Rightarrow> bool"
    and retired :: "'s \<Rightarrow> 'm \<Rightarrow> bool"
    and check :: "int \<Rightarrow> 's \<Rightarrow> 'm \<Rightarrow> (bool \<times> 's) option"
  assumes check_ok: "ok s \<Longrightarrow> now > 1 \<Longrightarrow>
      \<exists>r s'. check now s m = Some (r, s') \<and> ok s' \<and> (r \<longrightarrow> \<not> retired s m \<and> retired s' m) \<and>
        (\<forall>q. retired s q \<longrightarrow> retired s' q)"
begin

fun accepts :: "'s \<Rightarrow> (int \<times> 'm) list \<Rightarrow> 'm list option" where
  "accepts s [] = Some []"
| "accepts s ((now, m) # es) = do {
     (r, s') \<leftarrow> check now s m;
     ms \<leftarrow> accepts s' es;
     Some (if r then m # ms else ms) }"

lemma accepts_once:
  assumes "ok s" "\<forall>(now, m) \<in> set es. now > 1"
  shows "\<exists>ms. accepts s es = Some ms \<and> distinct ms \<and> (\<forall>m \<in> set ms. \<not> retired s m)"
  using assms
proof (induction es arbitrary: s)
  case (Cons e es)
  obtain now m where e: "e = (now, m)" by (cases e)
  obtain r s' where s': "check now s m = Some (r, s')" "ok s'" "r \<longrightarrow> \<not> retired s m \<and> retired s' m"
    "\<forall>q. retired s q \<longrightarrow> retired s' q"
    using check_ok [of s now m] Cons.prems e by auto
  obtain ms where "accepts s' es = Some ms" "distinct ms" "\<forall>m \<in> set ms. \<not> retired s' m"
    using Cons.IH [OF s'(2)] Cons.prems by auto
  then show ?case using s' by (auto simp: e)
qed simp

end

section \<open>The check of crypto.c\<close>

text \<open>The part of \<open>crypto_check_replay\<close> that works on the receiving record \<open>recv\<close>.\<close>

definition check_replay :: "int \<Rightarrow> packet_id_rec \<Rightarrow> packet_id_net \<Rightarrow> (bool \<times> packet_id_rec) option" where
  "check_replay now recv pin = do {
     recv \<leftarrow> packet_id_reap_test now recv;
     (good, recv) \<leftarrow> packet_id_test recv pin;
     if good then do { recv \<leftarrow> packet_id_add now recv pin; Some (True, recv) }
     else Some (False, recv) }"

interpretation rw: replay_filter pid_wf pid_retired check_replay
proof
  fix s m and now :: int
  assume s: "pid_wf s" and now: "now > 1"
  obtain s1 where s1: "packet_id_reap_test now s = Some s1" "pid_wf s1"
    "\<forall>q. pid_retired s q \<longrightarrow> pid_retired s1 q"
    using packet_id_reap_test_sound [OF s] by blast
  obtain r s2 where s2: "packet_id_test s1 m = Some (r, s2)" "pid_wf s2" "r \<longrightarrow> \<not> pid_retired s2 m"
    "\<forall>q. pid_retired s1 q \<longrightarrow> pid_retired s2 q"
    using packet_id_test_sound [OF s1(2), of m] s1(2) by fastforce
  show "\<exists>r s'. check_replay now s m = Some (r, s') \<and> pid_wf s' \<and>
      (r \<longrightarrow> \<not> pid_retired s m \<and> pid_retired s' m) \<and> (\<forall>q. pid_retired s q \<longrightarrow> pid_retired s' q)"
  proof (cases r)
    case False
    with s1 s2 show ?thesis by (auto simp: check_replay_def)
  next
    case True
    then obtain s3 where "packet_id_add now s2 m = Some s3" "pid_wf s3" "pid_retired s3 m"
      "\<forall>q. pid_retired s2 q \<longrightarrow> pid_retired s3 q"
      using packet_id_add_sound [OF s2(2) _ now] s2(3) by blast
    with True s1 s2 show ?thesis by (auto simp: check_replay_def)
  qed
qed

lemma packet_id_init_recv_wf:
  assumes "0 \<le> bt" "bt \<le> MAX_SEQ_BACKTRACK" "0 \<le> tb" "tb \<le> MAX_TIME_BACKTRACK"
  shows "\<exists>rec. packet_id_init_recv cleared_rec bt tb name unit = Some rec \<and> pid_wf rec \<and>
    pr_seq_backtrack rec = word_of_int bt \<and> (\<forall>j. pid_mark rec j = 0) \<and> pr_id rec = 0 \<and> pr_time rec = 0"
proof (cases "bt = 0")
  case True
  then show ?thesis
    by (simp add: packet_id_init_recv_def cleared_rec_def pid_wf_def pid_mark_def pid_items_def)
next
  case False
  define w :: u64 where "w = word_of_int bt"
  have u: "int (unat w) = bt" "0 < unat w" "unat w \<le> 65536"
  proof -
    have "unat w = nat bt" using assms
      by (simp add: w_def unat_eq_nat_uint uint_word_of_int MAX_SEQ_BACKTRACK_def take_bit_int_eq_self)
    then show "int (unat w) = bt" "0 < unat w" "unat w \<le> 65536"
      using False assms by (simp_all add: MAX_SEQ_BACKTRACK_def)
  qed
  then have nz: "w \<noteq> 0" by auto
  have "packet_id_init_recv cleared_rec bt tb name unit = Some (cleared_rec\<lparr>pr_name := name,
      pr_unit := unit, pr_seq_list := Some (circ_alloc bt), pr_seq_backtrack := w,
      pr_time_backtrack := tb, pr_initialized := True\<rparr>)"
    using False assms by (simp add: packet_id_init_recv_def w_def MIN_SEQ_BACKTRACK_def MIN_TIME_BACKTRACK_def)
  then show ?thesis using nz u assms circ_alloc_wf [of bt]
    by (simp add: cleared_rec_def pid_wf_def pid_mark_def pid_items_def win_wf_def w_def [symmetric]
        del: of_nat_unat)
qed

end
