(* ===== verification/PacketIdProps.thy ===== *)
theory PacketIdProps
  imports ReplayWindow "HOL-Library.Sublist"
begin

text \<open>
  The properties of packet_id.c: the replay window on each operation and over histories,
  the sequence the sending side produces, the two wire formats, and the persisted state.
\<close>

section \<open>Histories of messages\<close>

text \<open>The messages accepted in a history of arrivals, each with the clock at its arrival.\<close>

fun replay_history :: "packet_id_rec \<Rightarrow> (int \<times> packet_id_net) list \<Rightarrow> packet_id_net list option" where
  "replay_history p [] = Some []"
| "replay_history p ((now, pin) # es) = do {
     (good, p') \<leftarrow> check_replay now p pin;
     acc \<leftarrow> replay_history p' es;
     Some (if good then pin # acc else acc) }"

lemma replay_history_accepts: "replay_history p es = rw.accepts p es"
  by (induction p es rule: replay_history.induct) (auto split: Option.bind_splits)

text \<open>
  C1: a receiver set up by \<open>packet_id_init_recv\<close> never accepts the same packet id twice,
  whatever arrives in whatever order at whatever times, in the windowed mode and in the
  sequential (TCP) mode; no assertion fails on the way.
\<close>

theorem replay_protection:
  assumes "0 \<le> bt" "bt \<le> MAX_SEQ_BACKTRACK" "0 \<le> tb" "tb \<le> MAX_TIME_BACKTRACK"
    and "\<forall>(now, pin) \<in> set es. now > 1"
  shows "\<exists>p acc. packet_id_init_recv cleared_rec bt tb name unit = Some p \<and>
    replay_history p es = Some acc \<and> distinct acc"
proof -
  obtain p where p: "packet_id_init_recv cleared_rec bt tb name unit = Some p" "pid_wf p"
    using packet_id_init_recv_wf [OF assms(1-4)] by blast
  from rw.accepts_once [OF p(2) assms(5)] p(1) show ?thesis
    by (auto simp: replay_history_accepts)
qed

definition msg :: "u64 \<Rightarrow> packet_id_net" where
  "msg i = \<lparr>pn_id = i, pn_time = 0\<rparr>"

lemma replay_protection_witness:
  "\<exists>p acc. packet_id_init_recv cleared_rec 64 15 [] 0 = Some p \<and>
    replay_history p [(10, msg 1), (10, msg 3), (11, msg 1), (12, msg 2)] = Some acc \<and> distinct acc"
  by (rule replay_protection)
    (simp_all add: MAX_SEQ_BACKTRACK_def MAX_TIME_BACKTRACK_def)

text \<open>
  C24: in the windowed mode \<open>packet_id_test\<close> accepts an id exactly when it is not zero and
  either its time is later, or the time is the current one and the id is above every id
  seen, or it is inside the window and has not been marked. It never aborts.
\<close>

theorem packet_id_test_spec:
  assumes "pid_wf p" "pr_seq_backtrack p \<noteq> 0"
  shows "map_option fst (packet_id_test p pin) = Some
    (pn_id pin \<noteq> 0 \<and>
     (pn_time pin > pr_time p \<or>
      pn_time pin = pr_time p \<and>
        (pn_id pin > pr_id p \<or>
         unat (pr_id p) - unat (pn_id pin) < unat (pr_seq_backtrack p) \<and>
         pid_mark p (unat (pn_id pin)) = 0)))"
proof -
  have "(\<not> pid_retired p pin) = (pn_id pin \<noteq> 0 \<and>
     (pn_time pin > pr_time p \<or>
      pn_time pin = pr_time p \<and>
        (pn_id pin > pr_id p \<or>
         unat (pr_id p) - unat (pn_id pin) < unat (pr_seq_backtrack p) \<and>
         pid_mark p (unat (pn_id pin)) = 0)))"
    using assms(2) by (auto simp: pid_retired_def not_le)
  then show ?thesis using packet_id_test_window [OF assms, of pin] by auto
qed

text \<open>A receiver with a window of four that has accepted ids 1, 3 and 4 at time 10.\<close>

definition sample_rec :: packet_id_rec where
  "sample_rec = cleared_rec\<lparr>pr_id := 4, pr_seq_backtrack := 4, pr_time_backtrack := 15,
     pr_initialized := True,
     pr_seq_list := Some \<lparr>x_head = 0, x_size = 4, x_cap = 4, x_list = [10, 10, 0, 10]\<rparr>\<rparr>"

lemma sample_rec_wf: "pid_wf sample_rec" "pr_seq_backtrack sample_rec \<noteq> 0"
  by (simp_all add: sample_rec_def cleared_rec_def pid_wf_def win_wf_def circ_wf_def circ_items_def
      expired_suffix_def SEQ_EXPIRED_def nth_Cons' upt_rec)

lemma packet_id_test_spec_witness:
  "map_option fst (packet_id_test sample_rec (msg 2)) = Some True"
  using packet_id_test_spec [OF sample_rec_wf, of "msg 2"]
  by (simp add: sample_rec_def cleared_rec_def pid_mark_def pid_items_def win_def circ_items_def
      msg_def nth_Cons' upt_rec)

text \<open>
  C25: \<open>packet_id_add\<close> of an id that the test accepts succeeds, keeps the record well formed,
  moves to the id's time, makes the highest id seen the top of the window, marks the id with
  the current time and keeps every mark that is still inside the window; a later time clears
  all marks.
\<close>

theorem packet_id_add_spec:
  assumes "pid_wf p" "pr_seq_backtrack p \<noteq> 0" "map_option fst (packet_id_test p pin) = Some True"
    and "now > 1"
  shows "\<exists>p'. packet_id_add now p pin = Some p' \<and> pid_wf p' \<and> pr_time p' = pn_time pin \<and>
    pr_id p' = (if pn_time pin > pr_time p then pn_id pin else max (pr_id p) (pn_id pin)) \<and>
    (\<forall>j. pid_mark p' j = (if j = unat (pn_id pin) then now
        else if pn_time pin = pr_time p \<and> unat (pr_id p') - j < unat (pr_seq_backtrack p)
        then pid_mark p j else 0))"
proof -
  have "\<not> pid_retired p pin"
    using packet_id_test_window [OF assms(1,2), of pin] assms(3) by auto
  from packet_id_add_window [OF assms(1,2) this assms(4)] show ?thesis
    by (auto simp: add_target_def)
qed

lemma sample_rec_view:
  "pr_time sample_rec = 0" "pr_id sample_rec = 4" "pr_seq_backtrack sample_rec = 4"
  "pid_mark sample_rec 1 = 10" "pid_mark sample_rec (Suc 0) = 10" "pid_mark sample_rec 2 = 0"
  by (simp_all add: sample_rec_def cleared_rec_def pid_mark_def pid_items_def win_def circ_items_def
      nth_Cons' upt_rec)

lemma packet_id_add_spec_witness:
  "\<exists>p'. packet_id_add 20 sample_rec (msg 2) = Some p' \<and> pid_wf p' \<and> pid_mark p' 2 = 20 \<and> pid_mark p' 1 = 10"
proof -
  have "map_option fst (packet_id_test sample_rec (msg 2)) = Some True"
    using packet_id_test_window [OF sample_rec_wf, of "msg 2"]
    by (auto simp: pid_retired_def sample_rec_view msg_def)
  from packet_id_add_spec [OF sample_rec_wf this, of 20] show ?thesis
    by (auto simp: msg_def sample_rec_view)
qed

text \<open>
  After \<open>packet_id_reap\<close> an id of the window is expired exactly when it or a later id
  of the window was already expired or was accepted more than \<open>time_backtrack\<close> seconds ago;
  every other mark is as before.
\<close>

theorem packet_id_reap_spec:
  assumes "pid_wf p" "pr_time_backtrack p \<noteq> 0"
  shows "\<exists>p'. packet_id_reap now p = Some p' \<and> pid_wf p' \<and> pr_id p' = pr_id p \<and> pr_time p' = pr_time p \<and>
    (\<forall>j. j \<le> unat (pr_id p) \<longrightarrow> unat (pr_id p) - j < unat (pr_seq_backtrack p) \<longrightarrow> 0 < j \<longrightarrow>
      pid_mark p' j =
        (if \<exists>k\<ge>j. pid_mark p k = SEQ_EXPIRED \<or> pid_mark p k \<noteq> 0 \<and> pid_mark p k + pr_time_backtrack p < now
         then SEQ_EXPIRED else pid_mark p j))"
proof -
  have bt: "pr_seq_backtrack p \<noteq> 0" using assms by (auto simp: pid_wf_def split: option.splits)
  obtain l where l: "pr_seq_list p = Some l" "win_wf p l"
    using pid_wf_window [OF assms(1) bt] .
  have len: "length (pid_items p) = min (unat (pr_seq_backtrack p)) (unat (pr_id p))"
    using win_wf_size(1) [OF l(2)] by (simp add: pid_items_def l(1))
  obtain p' where p': "packet_id_reap now p = Some p'" "pid_wf p'" "pr_id p' = pr_id p" "pr_time p' = pr_time p"
    using packet_id_reap_window [OF assms(1) bt, of now] by blast
  have "pid_mark p' j = (if stale now p j then SEQ_EXPIRED else pid_mark p j)"
    if "j \<le> unat (pr_id p)" "unat (pr_id p) - j < unat (pr_seq_backtrack p)" "0 < j" for j
    using that len by (intro packet_id_reap_marks [OF assms p'(1)]) auto
  then show ?thesis using p' by (auto simp: stale_def too_old_def)
qed

lemma packet_id_reap_spec_witness:
  "\<exists>p'. packet_id_reap 26 sample_rec = Some p' \<and> pid_wf p'"
  using packet_id_reap_spec [OF sample_rec_wf(1), of 26]
  by (auto simp: sample_rec_def cleared_rec_def)

section \<open>The sending side\<close>

text \<open>The (time, id) pairs that the calls of \<open>packet_id_send_update\<close> at the given clocks
  hand out; a call that refuses hands out none.\<close>

fun send_trace :: "packet_id_send \<Rightarrow> bool \<Rightarrow> int list \<Rightarrow> (int \<times> u64) list" where
  "send_trace p lf [] = []"
| "send_trace p lf (now # cs) =
     (case packet_id_send_update now p lf of
        (True, p') \<Rightarrow> (ps_time p', ps_id p') # send_trace p' lf cs
      | (False, p') \<Rightarrow> send_trace p' lf cs)"

definition pid_lt :: "int \<times> u64 \<Rightarrow> int \<times> u64 \<Rightarrow> bool" where
  "pid_lt a b \<longleftrightarrow> fst a < fst b \<or> fst a = fst b \<and> snd a < snd b"

definition send_wf :: "packet_id_send \<Rightarrow> bool" where
  "send_wf p \<longleftrightarrow> ps_id p \<le> PACKET_ID_MAX \<and> (ps_time p = 0 \<longrightarrow> ps_id p = 0) \<and> 0 \<le> ps_time p"

lemma pid_lt_trans: "pid_lt a b \<Longrightarrow> pid_lt b c \<Longrightarrow> pid_lt a c"
  by (auto simp: pid_lt_def)

lemma send_update_step:
  assumes "send_wf p" "packet_id_send_update now p lf = (r, p')" "now > 0"
  shows "send_wf p'" "r \<Longrightarrow> pid_lt (ps_time p, ps_id p) (ps_time p', ps_id p') \<and> ps_id p' \<noteq> 0"
    "\<not> r \<Longrightarrow> ps_time p' = ps_time p \<and> ps_id p' = ps_id p"
proof -
  have less: "ps_id p < ps_id p + 1" "ps_id p + 1 \<le> PACKET_ID_MAX" "ps_id p + 1 \<noteq> 0"
    if "ps_id p \<noteq> PACKET_ID_MAX"
  proof -
    have lt: "ps_id p < PACKET_ID_MAX" using that assms(1) by (simp add: send_wf_def order.strict_iff_order)
    then have u: "unat (ps_id p + 1) = unat (ps_id p) + 1" by (rule unat_succ_less)
    with lt show "ps_id p < ps_id p + 1" "ps_id p + 1 \<le> PACKET_ID_MAX"
      by (simp_all add: word_less_nat_alt word_le_nat_alt)
    then show "ps_id p + 1 \<noteq> 0" by (metis word_not_simps(1))
  qed
  have max: "PACKET_ID_MAX \<noteq> 0" "(1 :: u64) \<le> PACKET_ID_MAX" by (simp_all add: PACKET_ID_MAX_def)
  show "send_wf p'" using assms less max
    by (auto simp: packet_id_send_update_def Let_def send_wf_def split: if_splits)
  show "r \<Longrightarrow> pid_lt (ps_time p, ps_id p) (ps_time p', ps_id p') \<and> ps_id p' \<noteq> 0"
    using assms less max
    by (auto simp: packet_id_send_update_def Let_def send_wf_def pid_lt_def split: if_splits)
  show "\<not> r \<Longrightarrow> ps_time p' = ps_time p \<and> ps_id p' = ps_id p"
    using assms max
    by (auto simp: packet_id_send_update_def Let_def send_wf_def split: if_splits)
qed

lemma send_trace_above:
  assumes "send_wf p" "\<forall>c\<in>set cs. c > 0"
  shows "sorted_wrt pid_lt (send_trace p lf cs) \<and>
    (\<forall>m\<in>set (send_trace p lf cs). pid_lt (ps_time p, ps_id p) m \<and> snd m \<noteq> 0 \<and> snd m \<le> PACKET_ID_MAX)"
  using assms
proof (induction p lf cs rule: send_trace.induct)
  case (2 p lf now cs)
  obtain r p' where u: "packet_id_send_update now p lf = (r, p')"
    by (cases "packet_id_send_update now p lf")
  note st = send_update_step [OF "2.prems"(1) u]
  show ?case
  proof (cases r)
    case True
    with u st "2.IH"(1) [of True p'] "2.prems" show ?thesis
      by (auto simp: send_wf_def intro: pid_lt_trans)
  next
    case False
    with u st "2.IH"(2) [of False p'] "2.prems" show ?thesis by auto
  qed
qed simp

text \<open>
  C26: from a fresh sending record, whatever the clock does, every (time, id) pair handed out
  is lexicographically above all earlier ones, in both the short and the long form; the ids
  are between 1 and 2 to the 32 minus 1, so the four bytes on the wire carry them unchanged.
\<close>

theorem send_sequence_increasing:
  assumes "\<forall>c\<in>set clocks. c > 0"
  shows "sorted_wrt pid_lt (send_trace \<lparr>ps_id = 0, ps_time = 0\<rparr> lf clocks) \<and>
    (\<forall>m\<in>set (send_trace \<lparr>ps_id = 0, ps_time = 0\<rparr> lf clocks).
       1 \<le> unat (snd m) \<and> unat (snd m) \<le> 2 ^ 32 - 1)"
proof -
  have "send_wf \<lparr>ps_id = 0, ps_time = 0\<rparr>" by (simp add: send_wf_def)
  from send_trace_above [OF this assms, of lf] show ?thesis
    by (auto simp: word_le_nat_alt PACKET_ID_MAX_def unat_gt_0 Suc_le_eq)
qed

lemma send_sequence_increasing_witness:
  "sorted_wrt pid_lt (send_trace \<lparr>ps_id = 0, ps_time = 0\<rparr> True [5, 4, 9])"
  using send_sequence_increasing [of "[5, 4, 9]" True] by simp

section \<open>From the sender to the receiver\<close>

lemma check_replay_later:
  assumes "pid_wf p" "pr_seq_backtrack p \<noteq> 0" "now > 1"
    and "pid_lt (pr_time p, pr_id p) (pn_time pin, pn_id pin)" "pn_id pin \<noteq> 0"
  shows "\<exists>p'. check_replay now p pin = Some (True, p') \<and> pid_wf p' \<and> pr_seq_backtrack p' \<noteq> 0 \<and>
    pr_time p' = pn_time pin \<and> pr_id p' = pn_id pin"
proof -
  obtain p1 where p1: "packet_id_reap_test now p = Some p1" "pid_wf p1" "pr_seq_backtrack p1 \<noteq> 0"
    "pr_time p1 = pr_time p" "pr_id p1 = pr_id p"
  proof (cases "pr_last_reap p + SEQ_REAP_INTERVAL \<le> now")
    case True
    obtain p' where "packet_id_reap now p = Some p'" "pid_wf p'" "pr_seq_backtrack p' = pr_seq_backtrack p"
      "pr_time p' = pr_time p" "pr_id p' = pr_id p"
      using packet_id_reap_window [OF assms(1,2), of now] by blast
    with True assms(2) show ?thesis by (intro that [of p']) (simp_all add: packet_id_reap_test_def)
  next
    case False
    with assms(1,2) show ?thesis by (intro that [of p]) (simp_all add: packet_id_reap_test_def)
  qed
  have live: "\<not> pid_retired p1 pin"
    using assms(4,5) unfolding pid_lt_def pid_retired_def p1(4,5) by force
  then obtain s where s: "packet_id_test p1 pin = Some (True, p1\<lparr>pr_max_backtrack_stat := s\<rparr>)"
    using packet_id_test_window [OF p1(2,3), of pin] by auto
  have "\<not> pid_retired (p1\<lparr>pr_max_backtrack_stat := s\<rparr>) pin" "pid_wf (p1\<lparr>pr_max_backtrack_stat := s\<rparr>)"
    using live p1 by simp_all
  from packet_id_add_window [OF this(2) _ this(1) assms(3)] p1(3) obtain p' where
    "packet_id_add now (p1\<lparr>pr_max_backtrack_stat := s\<rparr>) pin = Some p'" "pid_wf p'"
    "pr_seq_backtrack p' \<noteq> 0" "pr_time p' = pn_time pin"
    "pr_id p' = add_target (p1\<lparr>pr_max_backtrack_stat := s\<rparr>) pin" by auto
  moreover have "add_target (p1\<lparr>pr_max_backtrack_stat := s\<rparr>) pin = pn_id pin"
    using assms(4) p1(4,5) unfolding pid_lt_def by (auto simp: add_target_def)
  ultimately show ?thesis using p1 s by (auto simp: check_replay_def)
qed

lemma replay_history_increasing:
  assumes "pid_wf p" "pr_seq_backtrack p \<noteq> 0" "\<forall>(now, pin)\<in>set es. now > 1 \<and> pn_id pin \<noteq> 0"
    and "sorted_wrt pid_lt ((pr_time p, pr_id p) # map (\<lambda>(now, pin). (pn_time pin, pn_id pin)) es)"
  shows "replay_history p es = Some (map snd es)"
  using assms
proof (induction p es rule: replay_history.induct)
  case (2 p now pin es)
  obtain p' where p': "check_replay now p pin = Some (True, p')" "pid_wf p'" "pr_seq_backtrack p' \<noteq> 0"
    "pr_time p' = pn_time pin" "pr_id p' = pn_id pin"
    using check_replay_later [OF "2.prems"(1,2), of now pin] "2.prems"(3,4) by auto
  from "2.IH" [OF p'(1)] p' "2.prems" show ?case by (auto simp: case_prod_unfold)
qed simp

lemma subseq_sorted_wrt: "subseq xs ys \<Longrightarrow> sorted_wrt P ys \<Longrightarrow> sorted_wrt P xs"
proof (induction xs ys rule: list_emb.induct)
  case (list_emb_Cons2 x y xs ys)
  then have "set xs \<subseteq> set ys" by (metis subseq_conv_nths set_nths_subset)
  with list_emb_Cons2 show ?case by auto
qed auto

text \<open>The packets of a \<open>send_trace\<close>, each arriving at some clock.\<close>

definition arrivals :: "(int \<times> u64) list \<Rightarrow> int list \<Rightarrow> (int \<times> packet_id_net) list" where
  "arrivals ms cs = zip cs (map (\<lambda>(t, i). \<lparr>pn_id = i, pn_time = t\<rparr>) ms)"

text \<open>
  C27: no false alarms. If the packets of a sender arrive in the order sent, some of them
  possibly lost (\<open>subseq\<close>), a fresh receiver with a window accepts every one.
\<close>

theorem in_order_accepted:
  assumes "packet_id_init_recv cleared_rec bt tb name unit = Some p" "0 < bt"
    and "subseq ms (send_trace \<lparr>ps_id = 0, ps_time = 0\<rparr> lf clocks)" "\<forall>c\<in>set clocks. c > 0"
    and "length cs = length ms" "\<forall>c\<in>set cs. c > 1"
  shows "replay_history p (arrivals ms cs) = Some (map (\<lambda>(t, i). \<lparr>pn_id = i, pn_time = t\<rparr>) ms)"
proof -
  have b: "bt \<le> MAX_SEQ_BACKTRACK" "0 \<le> tb" "tb \<le> MAX_TIME_BACKTRACK"
    using assms(1,2) by (auto simp: packet_id_init_recv_def MIN_TIME_BACKTRACK_def ASSERT_def bind_eq_Some_conv split: if_splits)
  obtain p' where "packet_id_init_recv cleared_rec bt tb name unit = Some p'" "pid_wf p'"
    "pr_seq_backtrack p' = word_of_int bt" "pr_id p' = 0" "pr_time p' = 0"
    using packet_id_init_recv_wf [of bt tb name unit] assms(2) b by auto
  then have p: "pid_wf p" "pr_seq_backtrack p = word_of_int bt" "pr_id p = 0" "pr_time p = 0"
    using assms(1) by auto
  have "unat (word_of_int bt :: u64) = nat bt" using assms(2) b
    by (simp add: unat_eq_nat_uint uint_word_of_int MAX_SEQ_BACKTRACK_def take_bit_int_eq_self)
  then have bt: "pr_seq_backtrack p \<noteq> 0" using assms(2) p(2) by auto
  let ?s = "\<lparr>ps_id = 0, ps_time = 0\<rparr>"
  have "send_wf ?s" by (simp add: send_wf_def)
  note tr = send_trace_above [OF this assms(4), of lf]
  have sub: "set ms \<subseteq> set (send_trace ?s lf clocks)"
    using assms(3) by (metis subseq_conv_nths set_nths_subset)
  have srt: "sorted_wrt pid_lt ((0, 0) # ms)"
    using tr sub subseq_sorted_wrt [OF assms(3)] by auto
  have eqs: "map snd (arrivals ms cs) = map (\<lambda>(t, i). \<lparr>pn_id = i, pn_time = t\<rparr>) ms"
    "map (\<lambda>(now, pin). (pn_time pin, pn_id pin)) (arrivals ms cs) = ms"
  proof -
    show e: "map snd (arrivals ms cs) = map (\<lambda>(t, i). \<lparr>pn_id = i, pn_time = t\<rparr>) ms"
      using assms(5) by (simp add: arrivals_def)
    have "map (\<lambda>(now, pin). (pn_time pin, pn_id pin)) (arrivals ms cs) =
        map (\<lambda>pin. (pn_time pin, pn_id pin)) (map snd (arrivals ms cs))" by (simp add: case_prod_unfold)
    then show "map (\<lambda>(now, pin). (pn_time pin, pn_id pin)) (arrivals ms cs) = ms"
      unfolding e by (simp add: case_prod_unfold comp_def)
  qed
  have "\<forall>(now, pin)\<in>set (arrivals ms cs). now > 1 \<and> pn_id pin \<noteq> 0"
  proof (clarify, intro conjI)
    fix now pin
    assume "(now, pin) \<in> set (arrivals ms cs)"
    then have in_cs: "now \<in> set cs"
      and "pin \<in> set (map (\<lambda>(t, i). \<lparr>pn_id = i, pn_time = t\<rparr>) ms)"
      by (auto simp: arrivals_def dest: set_zip_leftD set_zip_rightD)
    then obtain m where "m \<in> set ms" "pn_id pin = snd m" by auto
    then show "pn_id pin \<noteq> 0" using tr sub by auto
    show "now > 1" using in_cs assms(6) by simp
  qed
  from replay_history_increasing [OF p(1) bt this] srt show ?thesis
    by (simp add: eqs p)
qed

lemma in_order_accepted_witness:
  "\<exists>p. packet_id_init_recv cleared_rec 4 15 [] 0 = Some p \<and>
    replay_history p (arrivals [(5, 2)] [7]) = Some [\<lparr>pn_id = 2, pn_time = 5\<rparr>]"
proof -
  obtain p where p: "packet_id_init_recv cleared_rec 4 15 [] 0 = Some p"
    using packet_id_init_recv_wf [of 4 15 "[]" 0]
    by (auto simp: MAX_SEQ_BACKTRACK_def MAX_TIME_BACKTRACK_def)
  have "subseq [(5, 2)] (send_trace \<lparr>ps_id = 0, ps_time = 0\<rparr> True [5, 6])"
    by (simp add: packet_id_send_update_def Let_def PACKET_ID_MAX_def)
  from in_order_accepted [OF p _ this, of "[7]"] p show ?thesis by simp
qed

section \<open>The wire formats\<close>

text \<open>What the code puts on the wire for a record that has just been advanced.\<close>

definition pid_wire :: "packet_id_send \<Rightarrow> bool \<Rightarrow> u8 list" where
  "pid_wire p lf = be32 (ucast (ps_id p)) @ (if lf then be32 (word_of_int (ps_time p)) else [])"

lemma length_pid_wire: "int (length (pid_wire p lf)) = packet_id_size lf"
  by (simp add: pid_wire_def packet_id_size_def)

lemma packet_id_write_append:
  assumes "buf_rep b h c r" "packet_id_send_update now p lf = (True, p')" "packet_id_size lf \<le> int r"
  shows "\<exists>b'. packet_id_write now p b lf False = (True, p', b') \<and>
    buf_rep b' h (c @ pid_wire p' lf) (r - length (pid_wire p' lf))"
proof -
  let ?i = "be32 (ucast (ps_id p'))" and ?t = "be32 (word_of_int (ps_time p'))"
  have "4 \<le> r" using assms(3) by (cases lf) (simp_all add: packet_id_size_def)
  then obtain b1 where b1: "buf_write b ?i = (True, b1)" "buf_rep b1 h (c @ ?i) (r - 4)"
    using bd.appendE [OF assms(1), of ?i] by (auto simp: BUF_SIZE_MAX_def)
  show ?thesis
  proof (cases lf)
    case True
    then have "4 \<le> r - 4" using assms(3) by (simp add: packet_id_size_def)
    then obtain b2 where "buf_write b1 ?t = (True, b2)" "buf_rep b2 h ((c @ ?i) @ ?t) (r - 4 - 4)"
      using bd.appendE [OF b1(2), of ?t] by (auto simp: BUF_SIZE_MAX_def)
    with True b1 assms(2) show ?thesis by (simp add: packet_id_write_def pid_wire_def)
  next
    case False
    with b1 assms(2) show ?thesis by (simp add: packet_id_write_def pid_wire_def)
  qed
qed

lemma packet_id_write_prepend:
  assumes "buf_rep b h c r" "packet_id_send_update now p lf = (True, p')" "packet_id_size lf \<le> int h"
  shows "\<exists>b'. packet_id_write now p b lf True = (True, p', b') \<and>
    buf_rep b' (h - length (pid_wire p' lf)) (pid_wire p' lf @ c) r"
proof -
  let ?i = "be32 (ucast (ps_id p'))" and ?t = "be32 (word_of_int (ps_time p'))"
  show ?thesis
  proof (cases lf)
    case True
    then have h: "4 \<le> h" "4 \<le> h - 4" using assms(3) by (simp_all add: packet_id_size_def)
    obtain b1 where b1: "buf_write_prepend b ?t = (True, b1)" "buf_rep b1 (h - 4) (?t @ c) r"
      using bd.prependE [OF assms(1), of ?t] h by auto
    obtain b2 where "buf_write_prepend b1 ?i = (True, b2)" "buf_rep b2 (h - 4 - 4) (?i @ ?t @ c) r"
      using bd.prependE [OF b1(2), of ?i] h by auto
    with True b1 assms(2) show ?thesis by (simp add: packet_id_write_def pid_wire_def)
  next
    case False
    then have "4 \<le> h" using assms(3) by (simp add: packet_id_size_def)
    then obtain b1 where "buf_write_prepend b ?i = (True, b1)" "buf_rep b1 (h - 4) (?i @ c) r"
      using bd.prependE [OF assms(1), of ?i] by auto
    with False assms(2) show ?thesis by (simp add: packet_id_write_def pid_wire_def)
  qed
qed

lemma packet_id_read_wire:
  assumes "buf_rep b h (pid_wire p lf @ c) r" "ps_id p \<le> PACKET_ID_MAX" "0 \<le> ps_time p" "ps_time p < 2 ^ 32"
  shows "\<exists>b'. packet_id_read b lf = (True, \<lparr>pn_id = ps_id p, pn_time = (if lf then ps_time p else 0)\<rparr>, b') \<and>
    buf_rep b' (h + length (pid_wire p lf)) c r"
proof -
  let ?i = "be32 (ucast (ps_id p))" and ?t = "be32 (word_of_int (ps_time p))"
  have "unat (ps_id p) < 2 ^ 32" using assms(2) by (simp add: word_le_nat_alt PACKET_ID_MAX_def)
  then have i: "ucast (ucast (ps_id p) :: u32) = ps_id p"
    unfolding word_unat_eq_iff by (simp add: unat_ucast_small)
  have t: "uint (word_of_int (ps_time p) :: u32) = ps_time p"
    using assms(3,4) by (simp add: uint_word_of_int)
  have "buf_rep b h (?i @ ((if lf then ?t else []) @ c)) r" using assms(1) by (simp add: pid_wire_def)
  from bd.consumeE [OF this refl] obtain b1 where
    b1: "buf_read b 4 = (Some ?i, b1)" "buf_rep b1 (h + 4) ((if lf then ?t else []) @ c) r" by auto
  show ?thesis
  proof (cases lf)
    case True
    with b1(2) have "buf_rep b1 (h + 4) (?t @ c) r" by simp
    from bd.consumeE [OF this refl] obtain b2 where
      "buf_read b1 4 = (Some ?t, b2)" "buf_rep b2 (h + 4 + 4) c r" by auto
    with True b1 show ?thesis by (simp add: packet_id_read_def i t pid_wire_def add.commute)
  next
    case False
    with b1 show ?thesis by (simp add: packet_id_read_def i pid_wire_def)
  qed
qed

text \<open>
  The packet id survives the wire. When the sending record can be advanced and the
  buffer has room, \<open>packet_id_write\<close> succeeds, in front of the content or behind it, in the
  long or the short form; where the bytes it wrote are at the front of a buffer,
  \<open>packet_id_read\<close> returns the same id and time and leaves exactly what follows.
\<close>

theorem packet_id_wire_roundtrip:
  assumes "buf_rep b h c r" "send_wf p" "now > 0" "packet_id_send_update now p lf = (True, p')"
    and "ps_time p' < 2 ^ 32" "packet_id_size lf \<le> int (if prepend then h else r)"
  shows "\<exists>b' wire. packet_id_write now p b lf prepend = (True, p', b') \<and>
    buf_content b' = (if prepend then wire @ c else c @ wire) \<and>
    (\<forall>d h2 c2 r2. buf_rep d h2 (wire @ c2) r2 \<longrightarrow>
      (\<exists>d'. packet_id_read d lf = (True, \<lparr>pn_id = ps_id p', pn_time = (if lf then ps_time p' else 0)\<rparr>, d') \<and>
        buf_content d' = c2))"
proof -
  have wf: "send_wf p'" by (rule send_update_step(1) [OF assms(2,4,3)])
  have rd: "\<exists>d'. packet_id_read d lf = (True, \<lparr>pn_id = ps_id p', pn_time = (if lf then ps_time p' else 0)\<rparr>, d') \<and>
        buf_content d' = c2" if "buf_rep d h2 (pid_wire p' lf @ c2) r2" for d h2 c2 r2
    using packet_id_read_wire [OF that] wf assms(5) by (fastforce simp: send_wf_def dest: buf_rep_simps(1))
  show ?thesis
  proof (cases prepend)
    case True
    with packet_id_write_prepend [OF assms(1,4)] assms(6) obtain b' where
      "packet_id_write now p b lf True = (True, p', b')"
      "buf_rep b' (h - length (pid_wire p' lf)) (pid_wire p' lf @ c) r" by auto
    with True rd show ?thesis by (intro exI [of _ b'] exI [of _ "pid_wire p' lf"]) (auto dest: buf_rep_simps(1))
  next
    case False
    with packet_id_write_append [OF assms(1,4)] assms(6) obtain b' where
      "packet_id_write now p b lf False = (True, p', b')"
      "buf_rep b' h (c @ pid_wire p' lf) (r - length (pid_wire p' lf))" by auto
    with False rd show ?thesis by (intro exI [of _ b'] exI [of _ "pid_wire p' lf"]) (auto dest: buf_rep_simps(1))
  qed
qed

definition sample_buf :: buffer where
  "sample_buf = \<lparr>b_capacity = 16, b_offset = 8, b_len = 0, b_data = Some (replicate 16 0)\<rparr>"

lemma sample_buf_rep: "buf_rep sample_buf 8 [] 8"
  by (simp add: buf_rep_iff sample_buf_def)

lemma packet_id_wire_roundtrip_witness:
  "\<exists>b' wire. packet_id_write 5 \<lparr>ps_id = 0, ps_time = 0\<rparr> sample_buf True True =
     (True, \<lparr>ps_id = 1, ps_time = 5\<rparr>, b') \<and> buf_content b' = wire @ []"
  using packet_id_wire_roundtrip [OF sample_buf_rep, of "\<lparr>ps_id = 0, ps_time = 0\<rparr>" 5 True "\<lparr>ps_id = 1, ps_time = 5\<rparr>" True]
  by (force simp: send_wf_def packet_id_send_update_def Let_def PACKET_ID_MAX_def packet_id_size_def)

text \<open>
  The epoch format. \<open>packet_id_write_epoch\<close> packs a 16 bit epoch above a 48 bit packet
  id; \<open>packet_id_read_epoch\<close> takes the two apart again, whatever the epoch is, and the
  counter it sent is one more than before and never wraps into the epoch bits.
\<close>

theorem packet_id_epoch_roundtrip:
  assumes "buf_rep b h c r" "8 \<le> r" "ps_id p < PACKET_ID_EPOCH_MAX"
  shows "\<exists>p' b' wire. packet_id_write_epoch now p epoch b = (True, p', b') \<and>
    unat (ps_id p') = unat (ps_id p) + 1 \<and> ps_id p' \<le> PACKET_ID_EPOCH_MAX \<and> buf_content b' = c @ wire \<and>
    (\<forall>d h2 c2 r2 pin. buf_rep d h2 (wire @ c2) r2 \<longrightarrow>
      (\<exists>d'. packet_id_read_epoch pin d = (epoch, pin\<lparr>pn_id := ps_id p'\<rparr>, d') \<and> buf_content d' = c2))"
proof -
  let ?p = "(if ps_time p = 0 then p\<lparr>ps_time := now\<rparr> else p)\<lparr>ps_id := ps_id p + 1\<rparr>"
  have u: "packet_id_send_update_epoch now p = (True, ?p)"
    using assms(3) by (auto simp: packet_id_send_update_epoch_def Let_def)
  have inc: "unat (ps_id p + 1) = unat (ps_id p) + 1" using assms(3) by (rule unat_succ_less)
  then have le: "ps_id ?p \<le> PACKET_ID_EPOCH_MAX"
    using assms(3) by (simp add: word_le_nat_alt word_less_nat_alt)
  let ?w = "push_bit 48 (ucast epoch) OR ps_id ?p"
  obtain b' where b': "buf_write b (be64 ?w) = (True, b')" "buf_rep b' h (c @ be64 ?w) (r - 8)"
    using bd.appendE [OF assms(1), of "be64 ?w"] assms(2) by (auto simp: BUF_SIZE_MAX_def)
  have "packet_id_write_epoch now p epoch b = (True, ?p, b')"
    by (simp add: packet_id_write_epoch_def u b'(1) [simplified] Let_def)
  moreover have "\<exists>d'. packet_id_read_epoch pin d = (epoch, pin\<lparr>pn_id := ps_id ?p\<rparr>, d') \<and> buf_content d' = c2"
    if dd: "buf_rep d h2 (be64 ?w @ c2) r2" for d h2 c2 r2 pin
  proof -
    obtain d' where d': "buf_read d 8 = (Some (be64 ?w), d')" "buf_rep d' (h2 + 8) c2 r2"
      using bd.consumeE [OF dd, of 8] by auto
    then show ?thesis using epoch_pack [OF le, of epoch] buf_rep_simps(1) [OF d'(2)]
      by (simp add: packet_id_read_epoch_def Let_def)
  qed
  ultimately show ?thesis using inc le buf_rep_simps(1) [OF b'(2)]
    by (intro exI [of _ ?p] exI [of _ b'] exI [of _ "be64 ?w"]) simp
qed

lemma packet_id_epoch_roundtrip_witness:
  "\<exists>p' b'. packet_id_write_epoch 5 \<lparr>ps_id = 6, ps_time = 1\<rparr> 3 sample_buf = (True, p', b') \<and> unat (ps_id p') = 7"
  using packet_id_epoch_roundtrip [OF sample_buf_rep, of "\<lparr>ps_id = 6, ps_time = 1\<rparr>" 5 3]
  by (force simp: PACKET_ID_EPOCH_MAX_def)

section \<open>Persisted state\<close>

lemma packet_id_add_empty:
  assumes "pr_seq_list p = Some l" "x_size l = 0"
  shows "packet_id_add now p pin = packet_id_add now (p\<lparr>pr_time := 0, pr_id := 0\<rparr>) pin"
  using assms by (simp add: packet_id_add_def)

text \<open>
  C28: what \<open>packet_id_persist_load_obj\<close> restores protects only until the first new packet.
  Right after it, an id at or below the persisted one is refused; but the first newer packet
  makes \<open>packet_id_add\<close> start an empty window below its id, so that the ids at or below the
  persisted one that fall inside that window are accepted again.
\<close>

theorem persisted_ids_accepted_again:
  assumes "packet_id_init_recv cleared_rec bt tb name unit = Some rec" "0 < bt" "now > 1"
    and "packet_id_persist_enabled pp" "pp_time pp > 0"
    and "rec' = pid_rec (packet_id_persist_load_obj pp \<lparr>pid_send = snd0, pid_rec = rec\<rparr>)"
    and "pn_time old = pp_time pp" "0 < unat (pn_id old)" "unat (pn_id old) \<le> unat (pp_id pp)"
    and "pn_time new = pp_time pp" "unat (pp_id pp) < unat (pn_id new)"
    and "unat (pn_id new) - unat (pn_id old) < nat bt"
  shows "map_option fst (packet_id_test rec' old) = Some False \<and>
    (\<exists>p. packet_id_add now rec' new = Some p \<and> map_option fst (packet_id_test p old) = Some True)"
proof -
  have b: "bt \<le> MAX_SEQ_BACKTRACK" "0 \<le> tb" "tb \<le> MAX_TIME_BACKTRACK"
    using assms(1,2) by (auto simp: packet_id_init_recv_def MIN_TIME_BACKTRACK_def ASSERT_def bind_eq_Some_conv split: if_splits)
  have rec: "pid_wf rec" "pr_seq_backtrack rec = word_of_int bt" "\<forall>j. pid_mark rec j = 0"
    "pr_id rec = 0" "pr_time rec = 0"
    using packet_id_init_recv_wf [of bt tb name unit] assms(1,2) b by auto
  have ubt: "unat (word_of_int bt :: u64) = nat bt" using assms(2) b
    by (simp add: unat_eq_nat_uint uint_word_of_int MAX_SEQ_BACKTRACK_def take_bit_int_eq_self)
  then have bt: "pr_seq_backtrack rec \<noteq> 0" using assms(2) rec(2) by auto
  obtain l where l: "pr_seq_list rec = Some l" "win_wf rec l" using pid_wf_window [OF rec(1) bt] .
  have sz: "x_size l = 0" using l(2) rec(4) by (simp add: win_wf_def)
  have r': "rec' = rec\<lparr>pr_time := pp_time pp, pr_id := ucast (pp_id pp)\<rparr>"
    using assms(4-6) by (simp add: packet_id_persist_load_obj_def)
  have upp: "unat (ucast (pp_id pp) :: u64) = unat (pp_id pp)"
    by (simp add: unsigned_ucast_eq take_bit_nat_eq_self less_trans [OF unsigned_less])
  have nz: "pn_id old \<noteq> 0" using assms(8) by auto
  have i: "pr_initialized rec" using rec(1) by (simp add: pid_wf_def)
  have refused: "map_option fst (packet_id_test rec' old) = Some False"
    using assms(7-9) nz bt i l(1) sz upp
    by (auto simp: r' packet_id_test_def Let_def word_less_nat_alt not_less)
  have same: "packet_id_add now rec' new = packet_id_add now rec new"
    unfolding packet_id_add_empty [of rec' l, OF _ sz, unfolded r', simplified, OF l(1)]
      packet_id_add_empty [of rec l, OF l(1) sz] r' by simp
  have live: "\<not> pid_retired rec new"
    using assms(5,10,11) by (auto simp: pid_retired_def rec(5))
  obtain p where p: "packet_id_add now rec new = Some p" "pid_wf p" "pr_seq_backtrack p = pr_seq_backtrack rec"
    "pr_time p = pn_time new" "pr_id p = add_target rec new"
    "\<forall>j. pid_mark p j = (if j = unat (pn_id new) then now else 0)"
    using packet_id_add_window [OF rec(1) bt live assms(3)] rec(3) by auto
  have "pr_id p = pn_id new" using p(5) assms(5,10) by (simp add: add_target_def rec(5))
  then have "\<not> pid_retired p old"
    using assms(7-12) nz p(4,6) rec(2) ubt p(3) by (auto simp: pid_retired_def)
  then have "map_option fst (packet_id_test p old) = Some True"
    using packet_id_test_window [of p old] p(2,3) bt by auto
  with p same refused show ?thesis by auto
qed

lemma persisted_ids_accepted_again_witness:
  "\<exists>rec. packet_id_init_recv cleared_rec 64 15 [] 0 = Some rec \<and>
    (\<exists>p. packet_id_add 10 (pid_rec (packet_id_persist_load_obj
        \<lparr>pp_filename = None, pp_fd = 3, pp_time = 5, pp_id = 100, pp_time_last_written = 5, pp_id_last_written = 100\<rparr>
        \<lparr>pid_send = \<lparr>ps_id = 0, ps_time = 0\<rparr>, pid_rec = rec\<rparr>)) \<lparr>pn_id = 101, pn_time = 5\<rparr> = Some p \<and>
      map_option fst (packet_id_test p \<lparr>pn_id = 99, pn_time = 5\<rparr>) = Some True)"
proof -
  obtain rec where r: "packet_id_init_recv cleared_rec 64 15 [] 0 = Some rec"
    using packet_id_init_recv_wf [of 64 15 "[]" 0]
    by (auto simp: MAX_SEQ_BACKTRACK_def MAX_TIME_BACKTRACK_def)
  let ?pp = "\<lparr>pp_filename = None, pp_fd = 3, pp_time = 5, pp_id = 100, pp_time_last_written = 5,
      pp_id_last_written = 100\<rparr> :: packet_id_persist"
  from persisted_ids_accepted_again [OF r, of 10 ?pp _ "\<lparr>ps_id = 0, ps_time = 0\<rparr>"
      "\<lparr>pn_id = 99, pn_time = 5\<rparr>" "\<lparr>pn_id = 101, pn_time = 5\<rparr>"] r
  show ?thesis by (simp add: packet_id_persist_enabled_def)
qed

end
