(* ===== verification/Reliable.thy ===== *)
theory Reliable
  imports Buffers
begin

text \<open>
  reliable.c, reliable.h and session_id.h: the reliability layer under the TLS handshake.
  \<open>struct reliable\<close> is an array of entries, each with its own buffer; a buffer pointer
  that the code hands out is the index of its entry. Packet ids are 32 bit words, compared
  on a circle. \<open>now\<close> is an argument. \<open>struct reliable_ack\<close> keeps its array of eight.
\<close>

definition RELIABLE_ACK_SIZE :: nat where "RELIABLE_ACK_SIZE = 8"
definition RELIABLE_CAPACITY :: nat where "RELIABLE_CAPACITY = 12"
definition N_ACK_RETRANSMIT :: nat where "N_ACK_RETRANSMIT = 3"
definition BIG_TIMEOUT :: int where "BIG_TIMEOUT = 60 * 60 * 24 * 7"

section \<open>Session ids\<close>

type_synonym session_id = "u8 list"

definition SID_SIZE :: nat where "SID_SIZE = 8"

definition session_id_equal :: "session_id \<Rightarrow> session_id \<Rightarrow> bool" where
  "session_id_equal a b \<longleftrightarrow> a = b"

definition session_id_defined :: "session_id \<Rightarrow> bool" where
  "session_id_defined sid \<longleftrightarrow> sid \<noteq> replicate SID_SIZE 0"

definition session_id_read :: "session_id \<Rightarrow> buffer \<Rightarrow> bool \<times> session_id \<times> buffer" where
  "session_id_read sid buf = (case buf_read buf (int SID_SIZE) of
     (None, buf) \<Rightarrow> (False, sid, buf) | (Some bs, buf) \<Rightarrow> (True, bs, buf))"

definition session_id_write_prepend :: "session_id \<Rightarrow> buffer \<Rightarrow> bool \<times> buffer" where
  "session_id_write_prepend sid buf = buf_write_prepend buf sid"

definition session_id_write :: "session_id \<Rightarrow> buffer \<Rightarrow> bool \<times> buffer" where
  "session_id_write sid buf = buf_write buf sid"

section \<open>Packet ids on a circle\<close>

definition subtract_pid :: "u32 \<Rightarrow> u32 \<Rightarrow> u32" where
  "subtract_pid test base = test - base"

definition reliable_pid_in_range1 :: "u32 \<Rightarrow> u32 \<Rightarrow> u32 \<Rightarrow> bool" where
  "reliable_pid_in_range1 test base extent \<longleftrightarrow> subtract_pid test base < extent"

definition reliable_pid_in_range2 :: "u32 \<Rightarrow> u32 \<Rightarrow> u32 \<Rightarrow> bool" where
  "reliable_pid_in_range2 test base extent =
     (if base + extent \<ge> base then (if test < base + extent then True else False)
      else if test + 0x80000000 < (base + 0x80000000) + extent then True else False)"

definition reliable_pid_min :: "u32 \<Rightarrow> u32 \<Rightarrow> bool" where
  "reliable_pid_min p1 p2 \<longleftrightarrow> \<not> reliable_pid_in_range1 p1 p2 0x80000000"

section \<open>Acknowledgement records\<close>

record reliable_ack =
  ak_len :: nat
  ak_ids :: "u32 list"

definition ack_empty :: reliable_ack where
  "ack_empty = \<lparr>ak_len = 0, ak_ids = replicate RELIABLE_ACK_SIZE 0\<rparr>"

definition reliable_ack_empty :: "reliable_ack \<Rightarrow> bool" where
  "reliable_ack_empty ack \<longleftrightarrow> ak_len ack = 0"

definition reliable_ack_outstanding :: "reliable_ack \<Rightarrow> nat" where
  "reliable_ack_outstanding ack = ak_len ack"

definition ACK_SIZE :: "nat \<Rightarrow> nat" where
  "ACK_SIZE n = 1 + (if n \<noteq> 0 then SID_SIZE else 0) + 4 * n"

definition reliable_ack_packet_id_present :: "reliable_ack \<Rightarrow> u32 \<Rightarrow> bool" where
  "reliable_ack_packet_id_present ack pid \<longleftrightarrow> (\<exists>i \<in> set [0..<ak_len ack]. ak_ids ack ! i = pid)"

definition reliable_ack_read_packet_id :: "buffer \<Rightarrow> u32 option \<times> buffer" where
  "reliable_ack_read_packet_id buf = (case buf_read buf 4 of
     (None, buf) \<Rightarrow> (None, buf) | (Some bs, buf) \<Rightarrow> (Some (of_be32 bs), buf))"

text \<open>\<open>ack->packet_id[ack->len++] = pid\<close>\<close>

definition ack_push :: "reliable_ack \<Rightarrow> u32 \<Rightarrow> reliable_ack" where
  "ack_push ack pid = ack\<lparr>ak_ids := (ak_ids ack)[ak_len ack := pid], ak_len := ak_len ack + 1\<rparr>"

definition reliable_ack_acknowledge_packet_id :: "reliable_ack \<Rightarrow> u32 \<Rightarrow> bool \<times> reliable_ack" where
  "reliable_ack_acknowledge_packet_id ack pid =
     (if \<not> reliable_ack_packet_id_present ack pid \<and> ak_len ack < RELIABLE_ACK_SIZE
      then (True, ack_push ack pid) else (False, ack))"

fun ack_parse_loop :: "nat \<Rightarrow> buffer \<Rightarrow> reliable_ack \<Rightarrow> bool \<times> reliable_ack \<times> buffer" where
  "ack_parse_loop 0 buf ack = (True, ack, buf)"
| "ack_parse_loop (Suc n) buf ack = (case buf_read buf 4 of
     (None, buf) \<Rightarrow> (False, ack, buf)
   | (Some bs, buf) \<Rightarrow>
       if ak_len ack \<ge> RELIABLE_ACK_SIZE then (False, ack, buf)
       else ack_parse_loop n buf (ack_push ack (of_be32 bs)))"

text \<open>The parsed record and the remote session id; both keep what they held where the code
  leaves them alone.\<close>

definition reliable_ack_parse ::
  "buffer \<Rightarrow> reliable_ack \<Rightarrow> session_id \<Rightarrow> bool \<times> reliable_ack \<times> session_id \<times> buffer" where
  "reliable_ack_parse buf ack sid_remote =
     (let ack = ack\<lparr>ak_len := 0\<rparr> in
      case buf_read buf 1 of
        (None, buf) \<Rightarrow> (False, ack, sid_remote, buf)
      | (Some cs, buf) \<Rightarrow>
          (let count = unat (hd cs) in
           case ack_parse_loop count buf ack of
             (False, ack, buf) \<Rightarrow> (False, ack, sid_remote, buf)
           | (True, ack, buf) \<Rightarrow>
               if count \<noteq> 0 then
                 (case session_id_read sid_remote buf of
                    (ok, sid_remote, buf) \<Rightarrow> (ok, ack, sid_remote, buf))
               else (True, ack, sid_remote, buf)))"

definition reliable_ack_read ::
  "reliable_ack \<Rightarrow> session_id \<Rightarrow> buffer \<Rightarrow> session_id \<Rightarrow> bool \<times> reliable_ack \<times> buffer" where
  "reliable_ack_read ack junk buf sid =
     (case reliable_ack_parse buf ack junk of
        (False, ack, _, buf) \<Rightarrow> (False, ack, buf)
      | (True, ack, sid_remote, buf) \<Rightarrow>
          if ak_len ack \<ge> 1 \<and> (\<not> session_id_defined sid_remote \<or> \<not> session_id_equal sid_remote sid)
          then (False, ack, buf) else (True, ack, buf))"

text \<open>\<open>copy_acks_to_mru\<close>: the inner loop moves entries one place to the right until it has
  moved the old copy of \<open>pid\<close>; it returns the array, the entry still in hand, and whether
  \<open>pid\<close> was found.\<close>

function mru_shift :: "u32 list \<Rightarrow> u32 \<Rightarrow> u32 \<Rightarrow> nat \<Rightarrow> nat \<Rightarrow> u32 list \<times> u32 \<times> bool" where
  "mru_shift ids move pid j len =
     (if j < len then
        (let tmp = ids ! j; ids = ids[j := move]; move = tmp in
         if move = pid then (ids, move, True) else mru_shift ids move pid (j + 1) len)
      else (ids, move, False))"
  by pat_completeness auto
termination by (relation "measure (\<lambda>(ids, move, pid, j, len). len - j)") auto

declare mru_shift.simps [simp del]

definition mru_add :: "reliable_ack \<Rightarrow> u32 \<Rightarrow> reliable_ack" where
  "mru_add mru pid =
     (let mru = (if ak_len mru = 0 then mru\<lparr>ak_len := 1, ak_ids := (ak_ids mru)[0 := pid]\<rparr> else mru) in
      case mru_shift (ak_ids mru) pid pid 0 (ak_len mru) of
        (ids, move, idfound) \<Rightarrow>
          if \<not> idfound \<and> ak_len mru < RELIABLE_ACK_SIZE
          then mru\<lparr>ak_ids := ids[ak_len mru := move], ak_len := ak_len mru + 1\<rparr>
          else mru\<lparr>ak_ids := ids\<rparr>)"

text \<open>The outer loop, backward from \<open>n - 1\<close>.\<close>

fun copy_loop :: "reliable_ack \<Rightarrow> nat \<Rightarrow> reliable_ack \<Rightarrow> reliable_ack" where
  "copy_loop ack 0 mru = mru"
| "copy_loop ack (Suc i) mru = copy_loop ack i (mru_add mru (ak_ids ack ! i))"

definition copy_acks_to_mru :: "reliable_ack \<Rightarrow> reliable_ack \<Rightarrow> nat \<Rightarrow> reliable_ack option" where
  "copy_acks_to_mru ack mru n = do { _ \<leftarrow> ASSERT (ak_len ack \<ge> n); Some (copy_loop ack n mru) }"

fun ack_write_loop :: "u32 list \<Rightarrow> buffer \<Rightarrow> buffer option" where
  "ack_write_loop [] sub = Some sub"
| "ack_write_loop (pid # pids) sub =
     (case buf_write sub (be32 pid) of
        (False, _) \<Rightarrow> None
      | (True, sub) \<Rightarrow> ack_write_loop pids sub)"

text \<open>Removing the first \<open>n\<close> entries: \<open>for (i = 0, j = n; j < ack->len; )\<close>.\<close>

function ack_drop_loop :: "reliable_ack \<Rightarrow> nat \<Rightarrow> nat \<Rightarrow> reliable_ack" where
  "ack_drop_loop ack i j =
     (if j < ak_len ack
      then ack_drop_loop (ack\<lparr>ak_ids := (ak_ids ack)[i := ak_ids ack ! j]\<rparr>) (i + 1) (j + 1)
      else ack\<lparr>ak_len := i\<rparr>)"
  by pat_completeness auto
termination by (relation "measure (\<lambda>(ack, i, j). ak_len ack - j)") auto

declare ack_drop_loop.simps [simp del]

definition reliable_ack_write ::
  "reliable_ack \<Rightarrow> reliable_ack \<Rightarrow> buffer \<Rightarrow> session_id \<Rightarrow> nat \<Rightarrow> bool
   \<Rightarrow> (bool \<times> reliable_ack \<times> reliable_ack \<times> buffer) option" where
  "reliable_ack_write ack mru buf sid maxn prepend = do {
     let n = (if ak_len ack > maxn then maxn else ak_len ack);
     mru \<leftarrow> copy_acks_to_mru ack mru n;
     let total = min maxn (ak_len mru) mod 256;
     (case buf_sub buf (ACK_SIZE total) prepend of
        (_, None, buf) \<Rightarrow> Some (False, ack, mru, buf)
      | (sub, Some p, buf) \<Rightarrow>
          (case buf_write_u8 sub (word_of_nat total) of (ok, sub) \<Rightarrow> do {
             _ \<leftarrow> ASSERT ok;
             sub \<leftarrow> ack_write_loop (take total (ak_ids mru)) sub;
             sub \<leftarrow> (if total \<noteq> 0 then do {
                 _ \<leftarrow> ASSERT (session_id_defined sid);
                 (case session_id_write sid sub of (ok, sub) \<Rightarrow> do { _ \<leftarrow> ASSERT ok; Some sub }) }
               else Some sub);
             Some (True, (if n \<noteq> 0 then ack_drop_loop ack 0 n else ack), mru, buf_sub_sync buf p sub) })) }"

section \<open>Buffers awaiting acknowledgement or delivery\<close>

record reliable_entry =
  e_active :: bool
  e_timeout :: int
  e_next_try :: int
  e_packet_id :: u32
  e_n_acks :: nat
  e_opcode :: int
  e_buf :: buffer

record reliable =
  rl_size :: nat
  rl_initial_timeout :: int
  rl_packet_id :: u32
  rl_offset :: int
  rl_hold :: bool
  rl_array :: "reliable_entry list"

definition cleared_entry :: reliable_entry where
  "cleared_entry = \<lparr>e_active = False, e_timeout = 0, e_next_try = 0, e_packet_id = 0, e_n_acks = 0,
     e_opcode = 0, e_buf = clear_buf\<rparr>"

definition reliable_init :: "int \<Rightarrow> int \<Rightarrow> nat \<Rightarrow> bool \<Rightarrow> reliable option" where
  "reliable_init buf_size offset array_size hold = do {
     _ \<leftarrow> ASSERT (0 < array_size \<and> array_size \<le> RELIABLE_CAPACITY);
     b \<leftarrow> alloc_buf buf_size;
     (case buf_init b offset of (ok, b) \<Rightarrow> do {
        _ \<leftarrow> ASSERT ok;
        Some \<lparr>rl_size = array_size, rl_initial_timeout = 0, rl_packet_id = 0, rl_offset = offset,
              rl_hold = hold,
              rl_array = replicate array_size (cleared_entry\<lparr>e_buf := b\<rparr>) @
                replicate (RELIABLE_CAPACITY - array_size) cleared_entry\<rparr> }) }"

definition reliable_set_timeout :: "reliable \<Rightarrow> int \<Rightarrow> reliable" where
  "reliable_set_timeout rel timeout = rel\<lparr>rl_initial_timeout := timeout\<rparr>"

text \<open>The loops over \<open>0 <= i < rel->size\<close>: the entries, the first index that satisfies a
  condition, an update of every entry.\<close>

definition entries :: "reliable \<Rightarrow> reliable_entry list" where
  "entries rel = take (rl_size rel) (rl_array rel)"

definition first_entry :: "(reliable_entry \<Rightarrow> bool) \<Rightarrow> reliable \<Rightarrow> nat option" where
  "first_entry P rel = find (\<lambda>i. P (rl_array rel ! i)) [0..<rl_size rel]"

definition map_entries :: "(reliable_entry \<Rightarrow> reliable_entry) \<Rightarrow> reliable \<Rightarrow> reliable" where
  "map_entries f rel = rel\<lparr>rl_array := map f (entries rel) @ drop (rl_size rel) (rl_array rel)\<rparr>"

definition upd_entry :: "nat \<Rightarrow> (reliable_entry \<Rightarrow> reliable_entry) \<Rightarrow> reliable \<Rightarrow> reliable" where
  "upd_entry i f rel = rel\<lparr>rl_array := (rl_array rel)[i := f (rl_array rel ! i)]\<rparr>"

text \<open>The loops that keep the smallest packet id among the entries that qualify.\<close>

definition best_entry :: "(reliable_entry \<Rightarrow> bool) \<Rightarrow> reliable \<Rightarrow> nat option" where
  "best_entry P rel = fold (\<lambda>i best.
     if P (rl_array rel ! i) then
       (case best of
          None \<Rightarrow> Some i
        | Some j \<Rightarrow> if reliable_pid_min (e_packet_id (rl_array rel ! i)) (e_packet_id (rl_array rel ! j))
                    then Some i else best)
     else best) [0..<rl_size rel] None"

definition reliable_empty :: "reliable \<Rightarrow> bool" where
  "reliable_empty rel \<longleftrightarrow> first_entry e_active rel = None"

definition purge_entry :: "u32 \<Rightarrow> reliable_entry \<Rightarrow> reliable_entry" where
  "purge_entry pid e =
     (if e_active e \<and> e_packet_id e = pid then e\<lparr>e_active := False\<rparr>
      else if e_active e \<and> e_packet_id e < pid then e\<lparr>e_n_acks := e_n_acks e + 1\<rparr>
      else e)"

definition reliable_send_purge :: "reliable \<Rightarrow> reliable_ack \<Rightarrow> reliable" where
  "reliable_send_purge rel ack =
     fold (\<lambda>pid. map_entries (purge_entry pid)) (take (ak_len ack) (ak_ids ack)) rel"

definition reliable_can_get :: "reliable \<Rightarrow> bool" where
  "reliable_can_get rel \<longleftrightarrow> first_entry (\<lambda>e. \<not> e_active e) rel \<noteq> None"

definition reliable_not_replay :: "reliable \<Rightarrow> u32 \<Rightarrow> bool" where
  "reliable_not_replay rel pid =
     (if reliable_pid_min pid (rl_packet_id rel) then False
      else first_entry (\<lambda>e. e_active e \<and> e_packet_id e = pid) rel = None)"

definition reliable_wont_break_sequentiality :: "reliable \<Rightarrow> u32 \<Rightarrow> bool" where
  "reliable_wont_break_sequentiality rel pid =
     reliable_pid_in_range2 pid (rl_packet_id rel) (word_of_nat (rl_size rel))"

definition reliable_get_buf :: "reliable \<Rightarrow> (nat option \<times> reliable) option" where
  "reliable_get_buf rel = (case first_entry (\<lambda>e. \<not> e_active e) rel of
     None \<Rightarrow> Some (None, rel)
   | Some i \<Rightarrow> (case buf_init (e_buf (rl_array rel ! i)) (rl_offset rel) of (ok, b) \<Rightarrow> do {
         _ \<leftarrow> ASSERT ok;
         Some (Some i, upd_entry i (e_buf_update (\<lambda>_. b)) rel) }))"

definition reliable_get_num_output_sequenced_available :: "reliable \<Rightarrow> int" where
  "reliable_get_num_output_sequenced_available rel = (case best_entry e_active rel of
     None \<Rightarrow> int (rl_size rel)
   | Some i \<Rightarrow> sint (word_of_nat (rl_size rel) - subtract_pid (rl_packet_id rel) (e_packet_id (rl_array rel ! i))))"

definition reliable_get_buf_output_sequenced :: "reliable \<Rightarrow> (nat option \<times> reliable) option" where
  "reliable_get_buf_output_sequenced rel = (case best_entry e_active rel of
     None \<Rightarrow> reliable_get_buf rel
   | Some i \<Rightarrow> if reliable_pid_in_range1 (rl_packet_id rel) (e_packet_id (rl_array rel ! i)) (word_of_nat (rl_size rel))
               then reliable_get_buf rel else Some (None, rel))"

definition reliable_get_entry_sequenced :: "reliable \<Rightarrow> nat option" where
  "reliable_get_entry_sequenced rel = first_entry (\<lambda>e. e_active e \<and> e_packet_id e = rl_packet_id rel) rel"

definition due :: "int \<Rightarrow> reliable_entry \<Rightarrow> bool" where
  "due now e \<longleftrightarrow> e_active e \<and> (e_n_acks e \<ge> N_ACK_RETRANSMIT \<or> now \<ge> e_next_try e)"

definition reliable_can_send :: "int \<Rightarrow> reliable \<Rightarrow> bool" where
  "reliable_can_send now rel \<longleftrightarrow> length (filter (due now) (entries rel)) > 0 \<and> \<not> rl_hold rel"

definition reliable_send :: "int \<Rightarrow> reliable \<Rightarrow> (nat \<times> int) option \<times> reliable" where
  "reliable_send now rel = (case best_entry (due now) rel of
     None \<Rightarrow> (None, rel)
   | Some i \<Rightarrow> (Some (i, e_opcode (rl_array rel ! i)),
       upd_entry i (\<lambda>e. e\<lparr>e_next_try := now + e_timeout e, e_timeout := e_timeout e * 2, e_n_acks := 0\<rparr>) rel))"

definition reliable_schedule_now :: "int \<Rightarrow> reliable \<Rightarrow> reliable" where
  "reliable_schedule_now now rel =
     map_entries (\<lambda>e. if e_active e then e\<lparr>e_next_try := now, e_timeout := rl_initial_timeout rel\<rparr> else e)
       (rel\<lparr>rl_hold := False\<rparr>)"

fun timeout_loop :: "int \<Rightarrow> reliable_entry list \<Rightarrow> int \<Rightarrow> int" where
  "timeout_loop now [] ret = ret"
| "timeout_loop now (e # es) ret =
     (if e_active e then
        (if e_next_try e \<le> now then 0 else timeout_loop now es (min_int ret (e_next_try e - now)))
      else timeout_loop now es ret)"

definition reliable_send_timeout :: "int \<Rightarrow> reliable \<Rightarrow> int" where
  "reliable_send_timeout now rel = timeout_loop now (entries rel) BIG_TIMEOUT"

definition reliable_mark_active_incoming :: "reliable \<Rightarrow> nat \<Rightarrow> u32 \<Rightarrow> int \<Rightarrow> reliable option" where
  "reliable_mark_active_incoming rel i pid opcode = do {
     _ \<leftarrow> ASSERT (i < rl_size rel);
     _ \<leftarrow> ASSERT (\<not> reliable_pid_min pid (rl_packet_id rel));
     Some (upd_entry i (\<lambda>e. e\<lparr>e_active := True, e_packet_id := pid, e_opcode := opcode, e_next_try := 0,
       e_timeout := 0, e_n_acks := 0\<rparr>) rel) }"

definition reliable_mark_active_outgoing :: "reliable \<Rightarrow> nat \<Rightarrow> int \<Rightarrow> reliable option" where
  "reliable_mark_active_outgoing rel i opcode = do {
     _ \<leftarrow> ASSERT (i < rl_size rel);
     let pid = rl_packet_id rel;
     (case buf_write_prepend (e_buf (rl_array rel ! i)) (be32 pid) of (ok, b) \<Rightarrow> do {
        _ \<leftarrow> ASSERT ok;
        Some (upd_entry i (\<lambda>e. e\<lparr>e_buf := b, e_packet_id := pid, e_active := True, e_opcode := opcode,
          e_next_try := 0, e_timeout := rl_initial_timeout rel\<rparr>) (rel\<lparr>rl_packet_id := pid + 1\<rparr>)) }) }"

definition reliable_mark_deleted :: "reliable \<Rightarrow> nat \<Rightarrow> reliable option" where
  "reliable_mark_deleted rel i = do {
     _ \<leftarrow> ASSERT (i < rl_size rel);
     Some (upd_entry i (e_active_update (\<lambda>_. False)) (rel\<lparr>rl_packet_id := e_packet_id (rl_array rel ! i) + 1\<rparr>)) }"

end
