(* ===== verification/ReliableAck.thy ===== *)
theory ReliableAck
  imports Reliable
begin

text \<open>
  Acknowledgement records of reliable.c: \<open>acks\<close> is the list a record stands for. The
  list of recently sent acknowledgements (\<open>lru_acks\<close>) is a move-to-front list of at most
  eight; a written record parses back to what was written.
\<close>

definition acks :: "reliable_ack \<Rightarrow> u32 list" where
  "acks a = take (ak_len a) (ak_ids a)"

definition ack_wf :: "reliable_ack \<Rightarrow> bool" where
  "ack_wf a \<longleftrightarrow> length (ak_ids a) = RELIABLE_ACK_SIZE \<and> ak_len a \<le> RELIABLE_ACK_SIZE"

lemma length_acks: "ack_wf a \<Longrightarrow> length (acks a) = ak_len a"
  by (simp add: acks_def ack_wf_def)

lemma ack_empty_view [simp]: "acks ack_empty = []" "ack_wf ack_empty"
  by (simp_all add: ack_empty_def acks_def ack_wf_def)

lemma ack_present: "ack_wf a \<Longrightarrow> reliable_ack_packet_id_present a pid \<longleftrightarrow> pid \<in> set (acks a)"
  by (auto simp: reliable_ack_packet_id_present_def acks_def ack_wf_def in_set_conv_nth)

lemma ack_push_view:
  assumes "ack_wf a" "ak_len a < RELIABLE_ACK_SIZE"
  shows "acks (ack_push a pid) = acks a @ [pid]" "ack_wf (ack_push a pid)"
    "ak_len (ack_push a pid) = ak_len a + 1"
  using assms by (simp_all add: acks_def ack_wf_def ack_push_def take_Suc_conv_app_nth)

lemma acknowledge_view:
  assumes "ack_wf a" "reliable_ack_acknowledge_packet_id a pid = (r, a')"
  shows "ack_wf a'" "acks a' = (if pid \<notin> set (acks a) \<and> length (acks a) < 8 then acks a @ [pid] else acks a)"
  using assms ack_push_view [OF assms(1)]
  by (auto simp: reliable_ack_acknowledge_packet_id_def ack_present length_acks RELIABLE_ACK_SIZE_def
      split: if_splits)

section \<open>The list of recent acknowledgements\<close>

text \<open>The inner loop of \<open>copy_acks_to_mru\<close> on the list that is still ahead of it.\<close>

fun shift :: "'a \<Rightarrow> 'a \<Rightarrow> 'a list \<Rightarrow> 'a list \<times> 'a \<times> bool" where
  "shift move pid [] = ([], move, False)"
| "shift move pid (y # ys) =
     (if y = pid then (move # ys, y, True)
      else (case shift y pid ys of (zs, m, f) \<Rightarrow> (move # zs, m, f)))"

lemma shift_found: "pid \<in> set ys \<Longrightarrow> shift move pid ys = (move # remove1 pid ys, pid, True)"
  by (induction move pid ys rule: shift.induct) auto

lemma shift_not_found: "pid \<notin> set ys \<Longrightarrow> shift move pid ys = (butlast (move # ys), last (move # ys), False)"
  by (induction move pid ys rule: shift.induct) auto

lemma mru_shift_shift:
  assumes "j \<le> len" "len \<le> length ids"
  shows "mru_shift ids move pid j len =
    (case shift move pid (drop j (take len ids)) of (zs, m, f) \<Rightarrow> (take j ids @ zs @ drop len ids, m, f))"
  using assms
proof (induction ids move pid j len rule: mru_shift.induct)
  case (1 ids move pid j len)
  show ?case
  proof (cases "j < len")
    case False
    then show ?thesis using "1.prems" by (subst mru_shift.simps) simp
  next
    case True
    then have d: "drop j (take len ids) = ids ! j # drop (j + 1) (take len ids)"
      using "1.prems" by (simp add: Cons_nth_drop_Suc [symmetric])
    have t: "take (Suc j) (ids[j := move]) = take j ids @ [move]"
      using True "1.prems" by (simp add: take_Suc_conv_app_nth)
    have e: "ids[j := move] = take j ids @ move # drop (j + 1) (take len ids) @ drop len ids"
      using True "1.prems" by (simp add: upd_conv_take_nth_drop drop_take)
        (metis Suc_leI append_take_drop_id drop_drop le_add_diff_inverse2)
    show ?thesis
    proof (cases "ids ! j = pid")
      case eq: True
      then show ?thesis using True e by (subst mru_shift.simps) (simp add: d Let_def)
    next
      case neq: False
      have "mru_shift ids move pid j len = mru_shift (ids[j := move]) (ids ! j) pid (j + 1) len"
        using True neq by (subst mru_shift.simps) (simp add: Let_def)
      also have "\<dots> = (case shift (ids ! j) pid (drop (j + 1) (take len (ids[j := move]))) of
          (zs, m, f) \<Rightarrow> (take (j + 1) (ids[j := move]) @ zs @ drop len (ids[j := move]), m, f))"
        using "1.IH" [OF True refl refl refl neq] True "1.prems" by simp
      also have "drop (j + 1) (take len (ids[j := move])) = drop (j + 1) (take len ids)"
        by (simp add: drop_take)
      also have "drop len (ids[j := move]) = drop len ids" using True by simp
      finally show ?thesis using neq t by (simp add: d split: prod.splits)
    qed
  qed
qed

lemma take_Cons_remove1_full:
  assumes "pid \<notin> set xs" "length xs = n" "0 < n"
  shows "take n (pid # xs) = butlast (pid # xs)"
  using assms by (simp add: butlast_conv_take)

lemma take_upd_behind:
  "length xs = n \<Longrightarrow> ys \<noteq> [] \<Longrightarrow> take (n + 1) ((xs @ ys)[n := v]) = xs @ [v]"
  by (cases ys) (simp_all add: list_update_append)

lemma mru_add_view:
  assumes "ack_wf a"
  shows "acks (mru_add a pid) = take 8 (pid # remove1 pid (acks a))" "ack_wf (mru_add a pid)"
proof -
  let ?ids = "ak_ids a" and ?len = "ak_len a"
  have wf: "length ?ids = 8" "?len \<le> 8" using assms by (simp_all add: ack_wf_def RELIABLE_ACK_SIZE_def)
  show "acks (mru_add a pid) = take 8 (pid # remove1 pid (acks a))" "ack_wf (mru_add a pid)"
  proof (atomize (full), cases "?len = 0")
    case True
    have "mru_shift (?ids[0 := pid]) pid pid 0 1 = (?ids[0 := pid], pid, True)"
      using wf by (subst mru_shift.simps) (simp add: list_update_same_conv)
    then have "mru_add a pid = a\<lparr>ak_len := 1, ak_ids := ?ids[0 := pid]\<rparr>"
      using True by (simp add: mru_add_def)
    then show "acks (mru_add a pid) = take 8 (pid # remove1 pid (acks a)) \<and> ack_wf (mru_add a pid)"
      using True wf by (cases ?ids) (simp_all add: acks_def ack_wf_def RELIABLE_ACK_SIZE_def)
  next
    case False
    have sh: "mru_shift ?ids pid pid 0 ?len = (case shift pid pid (acks a) of (zs, m, f) \<Rightarrow> (zs @ drop ?len ?ids, m, f))"
      using mru_shift_shift [of 0 ?len ?ids pid pid] wf by (simp add: acks_def)
    have la: "length (acks a) = ?len" using wf by (simp add: acks_def)
    show "acks (mru_add a pid) = take 8 (pid # remove1 pid (acks a)) \<and> ack_wf (mru_add a pid)"
    proof (cases "pid \<in> set (acks a)")
      case True
      have lr: "length (pid # remove1 pid (acks a)) = ?len"
        using True la False by (simp add: length_remove1)
      have "mru_add a pid = a\<lparr>ak_ids := (pid # remove1 pid (acks a)) @ drop ?len ?ids\<rparr>"
        using False sh shift_found [OF True, of pid] by (simp add: mru_add_def)
      then show ?thesis using lr wf by (simp add: acks_def ack_wf_def RELIABLE_ACK_SIZE_def take_Cons')
    next
      case nf: False
      have sh': "mru_shift ?ids pid pid 0 ?len = (butlast (pid # acks a) @ drop ?len ?ids, last (pid # acks a), False)"
        using sh shift_not_found [OF nf, of pid] by simp
      have lb: "length (butlast (pid # acks a)) = ?len" using la by (simp del: butlast.simps)
      show ?thesis
      proof (cases "?len < 8")
        case True
        define ids2 where "ids2 = (butlast (pid # acks a) @ drop ?len ?ids)[?len := last (pid # acks a)]"
        have m: "mru_add a pid = a\<lparr>ak_ids := ids2, ak_len := Suc ?len\<rparr>"
          using False sh' True unfolding ids2_def by (simp add: mru_add_def RELIABLE_ACK_SIZE_def)
        have t: "take (Suc ?len) ids2 = pid # acks a"
        proof -
          have "drop ?len ?ids \<noteq> []" using True wf by simp
          from take_upd_behind [OF lb this, of "last (pid # acks a)"]
          show ?thesis unfolding ids2_def by (metis Suc_eq_plus1 append_butlast_last_id list.distinct(1))
        qed
        have l: "length ids2 = 8" unfolding ids2_def using lb wf by (simp del: butlast.simps)
        have "acks (mru_add a pid) = pid # acks a"
          unfolding m acks_def [of "a\<lparr>ak_ids := ids2, ak_len := Suc ?len\<rparr>"] using t by simp
        moreover have "ack_wf (mru_add a pid)" using m l True by (simp add: ack_wf_def RELIABLE_ACK_SIZE_def)
        ultimately show ?thesis using True la nf by (simp add: remove1_idem)
      next
        case full: False
        then have l8: "?len = 8" using wf by simp
        define ids2 where "ids2 = butlast (pid # acks a) @ drop ?len ?ids"
        have m: "mru_add a pid = a\<lparr>ak_ids := ids2\<rparr>"
          using False sh' full unfolding ids2_def by (simp add: mru_add_def RELIABLE_ACK_SIZE_def)
        have t: "take ?len ids2 = butlast (pid # acks a)" "length ids2 = 8"
          unfolding ids2_def using lb wf by (simp_all del: butlast.simps)
        have "acks (mru_add a pid) = butlast (pid # acks a)"
          unfolding m acks_def [of "a\<lparr>ak_ids := ids2\<rparr>"] using t by simp
        moreover have "ack_wf (mru_add a pid)" using m t wf by (simp add: ack_wf_def RELIABLE_ACK_SIZE_def)
        moreover have "take 8 (pid # acks a) = butlast (pid # acks a)"
          using la l8 by (intro take_Cons_remove1_full [OF nf]) auto
        ultimately show ?thesis using nf by (simp add: remove1_idem)
      qed
    qed
  qed
qed


definition mtf :: "'a \<Rightarrow> 'a list \<Rightarrow> 'a list" where
  "mtf x xs = take 8 (x # remove1 x xs)"

lemma copy_loop_view:
  "ack_wf ack \<Longrightarrow> ack_wf mru \<Longrightarrow> n \<le> ak_len ack \<Longrightarrow>
   acks (copy_loop ack n mru) = foldr mtf (take n (acks ack)) (acks mru) \<and> ack_wf (copy_loop ack n mru)"
proof (induction ack n mru rule: copy_loop.induct)
  case (2 ack i mru)
  then have "take (Suc i) (acks ack) = take i (acks ack) @ [ak_ids ack ! i]"
    by (simp add: acks_def ack_wf_def take_Suc_conv_app_nth)
  with 2 show ?case by (simp add: mru_add_view mtf_def)
qed simp

lemma take_remove1_take: "take k (remove1 n (take (Suc k) xs)) = take k (remove1 n xs)"
proof (induction xs arbitrary: k)
  case (Cons x xs)
  then show ?case by (cases k) auto
qed simp

lemma foldr_mtf:
  assumes "distinct ns" "length ns \<le> 8" "distinct ms" "length ms \<le> 8"
  shows "foldr mtf ns ms = take 8 (ns @ filter (\<lambda>x. x \<notin> set ns) ms)"
  using assms
proof (induction ns)
  case (Cons n ns)
  let ?l = "ns @ filter (\<lambda>x. x \<notin> set ns) ms"
  have ih: "foldr mtf ns ms = take 8 ?l" using Cons by simp
  have "distinct ?l" using Cons.prems by auto
  then have "remove1 n ?l = filter (\<lambda>x. x \<noteq> n) ?l"
    by (simp add: distinct_remove1_removeAll removeAll_filter_not_eq neq_commute)
  also have "\<dots> = ns @ filter (\<lambda>x. x \<notin> set (n # ns)) ms"
    using Cons.prems(1) by (auto simp: filter_id_conv conj_commute)
  finally have rm: "remove1 n ?l = ns @ filter (\<lambda>x. x \<notin> set (n # ns)) ms" .
  have "foldr mtf (n # ns) ms = n # take 7 (remove1 n (take 8 ?l))" by (simp add: ih mtf_def)
  also have "\<dots> = n # take 7 (remove1 n ?l)" using take_remove1_take [of 7 n ?l] by simp
  also have "\<dots> = take 8 ((n # ns) @ filter (\<lambda>x. x \<notin> set (n # ns)) ms)"
    unfolding rm by simp
  finally show ?case .
qed simp

lemma mtf_set: "set (mtf x xs) \<subseteq> insert x (set xs)" "length (mtf x xs) \<le> 8"
  using set_remove1_subset set_take_subset unfolding mtf_def
  by (fastforce, simp)

lemma distinct_mtf: "distinct xs \<Longrightarrow> distinct (mtf x xs)"
  unfolding mtf_def by (rule distinct_take) simp

lemma foldr_mtf_set: "set (foldr mtf ns ms) \<subseteq> set ns \<union> set ms"
  by (induction ns) (use mtf_set(1) in fastforce)+

lemma distinct_foldr_mtf: "distinct ms \<Longrightarrow> distinct (foldr mtf ns ms)"
  by (induction ns) (simp_all add: distinct_mtf)

lemma ack_drop_loop_view:
  assumes "ack_wf ack" "i \<le> j" "j \<le> ak_len ack"
  shows "acks (ack_drop_loop ack i j) = take i (ak_ids ack) @ drop j (acks ack) \<and> ack_wf (ack_drop_loop ack i j)"
  using assms
proof (induction ack i j rule: ack_drop_loop.induct)
  case (1 ack i j)
  show ?case
  proof (cases "j < ak_len ack")
    case False
    with "1.prems" show ?thesis by (subst (1 2) ack_drop_loop.simps) (simp add: acks_def ack_wf_def)
  next
    case True
    let ?a = "ack\<lparr>ak_ids := (ak_ids ack)[i := ak_ids ack ! j]\<rparr>"
    have wf: "ack_wf ?a" using "1.prems" by (simp add: ack_wf_def)
    have r: "ack_drop_loop ack i j = ack_drop_loop ?a (i + 1) (j + 1)"
      using True by (subst ack_drop_loop.simps) simp
    have len: "j < length (ak_ids ack)" "j < length (acks ack)"
      using True "1.prems" by (auto simp: ack_wf_def acks_def)
    have "drop (j + 1) (acks ?a) = drop (j + 1) (acks ack)"
      using "1.prems" by (auto simp: acks_def drop_take)
    moreover have "drop j (acks ack) = ak_ids ack ! j # drop (j + 1) (acks ack)"
      using len by (simp add: Cons_nth_drop_Suc [symmetric]) (simp add: acks_def)
    moreover have "take (i + 1) (ak_ids ?a) = take i (ak_ids ack) @ [ak_ids ack ! j]"
      using len "1.prems" by (simp add: take_Suc_conv_app_nth)
    ultimately show ?thesis using "1.IH" [OF True wf] "1.prems" True by (simp add: r)
  qed
qed

section \<open>Writing and parsing a record\<close>

definition ack_record :: "u32 list \<Rightarrow> session_id \<Rightarrow> u8 list" where
  "ack_record pids sid = word_of_nat (length pids) # concat (map be32 pids) @ (if pids \<noteq> [] then sid else [])"

lemma length_concat_be32 [simp]: "length (concat (map be32 pids)) = 4 * length pids"
  by (induction pids) simp_all

lemma length_ack_record: "length sid = SID_SIZE \<Longrightarrow> length (ack_record pids sid) = ACK_SIZE (length pids)"
  by (simp add: ack_record_def ACK_SIZE_def)

lemma ack_write_loop_rep:
  "buf_rep b h c r \<Longrightarrow> 4 * length pids \<le> r \<Longrightarrow>
   \<exists>b'. ack_write_loop pids b = Some b' \<and> buf_rep b' h (c @ concat (map be32 pids)) (r - 4 * length pids)"
proof (induction pids arbitrary: b c r)
  case (Cons pid pids)
  obtain b1 where b1: "buf_write b (be32 pid) = (True, b1)" "buf_rep b1 h (c @ be32 pid) (r - 4)"
    using bd.appendE [OF Cons.prems(1), of "be32 pid"] Cons.prems(2) by (auto simp: BUF_SIZE_MAX_def)
  from Cons.IH [OF b1(2)] Cons.prems(2) b1(1) show ?case by (auto simp: algebra_simps)
qed simp

lemma reliable_ack_write_rep:
  assumes "ack_wf ack" "ack_wf mru" "buf_rep b h c r" "length sid = SID_SIZE" "session_id_defined sid"
    and "n = min (ak_len ack) maxn" "mru' = foldr mtf (take n (acks ack)) (acks mru)"
    and "pids = take (min maxn (length mru')) mru'"
    and "ACK_SIZE (length pids) \<le> (if prepend then h else r)"
  shows "\<exists>ack2 mru2 b2. reliable_ack_write ack mru b sid maxn prepend = Some (True, ack2, mru2, b2) \<and>
    ack_wf ack2 \<and> acks ack2 = drop n (acks ack) \<and> ack_wf mru2 \<and> acks mru2 = mru' \<and>
    (if prepend then buf_rep b2 (h - ACK_SIZE (length pids)) (ack_record pids sid @ c) r
     else buf_rep b2 h (c @ ack_record pids sid) (r - ACK_SIZE (length pids)))"
proof -
  have nle: "n \<le> ak_len ack" using assms(6) by simp
  obtain mru2 where mru2: "copy_acks_to_mru ack mru n = Some mru2" "ack_wf mru2" "acks mru2 = mru'"
    using copy_loop_view [OF assms(1,2) nle] nle by (simp add: copy_acks_to_mru_def assms(7))
  have lm: "length mru' = ak_len mru2" "length mru' \<le> 8"
    using mru2 by (auto simp: length_acks ack_wf_def RELIABLE_ACK_SIZE_def)
  define total where "total = min maxn (length mru')"
  have total: "length pids = total" "total \<le> 8" "total mod 256 = total"
    using lm assms(8) by (auto simp: total_def)
  have pids: "take total (ak_ids mru2) = pids"
    using mru2 lm assms(8) unfolding total_def by (metis acks_def min.cobounded2 min_def take_take)
  have sz: "ACK_SIZE total = 1 + 4 * total + (if total \<noteq> 0 then 8 else 0)" "int (ACK_SIZE total) < BUF_SIZE_MAX"
    using total by (auto simp: ACK_SIZE_def SID_SIZE_def BUF_SIZE_MAX_def)
  have fit: "ACK_SIZE total \<le> (if prepend then h else r)" using assms(9) total(1) by simp
  obtain sub p b' where sub: "buf_sub b (ACK_SIZE total) prepend = (sub, Some p, b')"
    "buf_rep sub 0 [] (ACK_SIZE total)"
    "\<And>sub' bs. buf_rep sub' 0 bs 0 \<Longrightarrow> length bs = ACK_SIZE total \<Longrightarrow>
      (if prepend then buf_rep (buf_sub_sync b' p sub') (h - ACK_SIZE total) (bs @ c) r
       else buf_rep (buf_sub_sync b' p sub') h (c @ bs) (r - ACK_SIZE total))"
    using buf_sub_rep [OF assms(3) fit sz(2)] by blast
  obtain s1 where s1: "buf_write_u8 sub (word_of_nat total) = (True, s1)"
    "buf_rep s1 0 [word_of_nat total] (ACK_SIZE total - 1)"
    using bd.appendE [OF sub(2), of "[word_of_nat total]"] sz by (auto simp: buf_write_u8_def BUF_SIZE_MAX_def)
  obtain s2 where s2: "ack_write_loop pids s1 = Some s2"
    "buf_rep s2 0 ([word_of_nat total] @ concat (map be32 pids)) (ACK_SIZE total - 1 - 4 * total)"
    using ack_write_loop_rep [OF s1(2), of pids] sz total(1) by auto
  obtain s3 where s3: "(if total \<noteq> 0 then do {
        _ \<leftarrow> ASSERT (session_id_defined sid);
        (case session_id_write sid s2 of (ok, sub) \<Rightarrow> do { _ \<leftarrow> ASSERT ok; Some sub }) }
      else Some s2) = Some s3" "buf_rep s3 0 (ack_record pids sid) 0"
  proof (cases "total = 0")
    case True
    with s2(2) sz total(1) show ?thesis by (intro that [of s2]) (simp_all add: ack_record_def)
  next
    case False
    have "8 \<le> ACK_SIZE total - 1 - 4 * total" using False sz by simp
    then obtain s3 where "buf_write s2 sid = (True, s3)"
      "buf_rep s3 0 (([word_of_nat total] @ concat (map be32 pids)) @ sid) (ACK_SIZE total - 1 - 4 * total - 8)"
      using bd.appendE [OF s2(2), of sid] assms(4) by (auto simp: BUF_SIZE_MAX_def SID_SIZE_def)
    with False assms(5) sz total(1) show ?thesis
      by (intro that [of s3]) (auto simp: session_id_write_def ack_record_def)
  qed
  let ?a = "if n \<noteq> 0 then ack_drop_loop ack 0 n else ack"
  have a: "acks ?a = drop n (acks ack)" "ack_wf ?a"
    using ack_drop_loop_view [OF assms(1), of 0 n] nle assms(1) by auto
  have tm: "min maxn (ak_len mru2) mod 256 = total" using total(3) lm(1) by (simp add: total_def)
  have n_eq: "(if maxn < ak_len ack then maxn else ak_len ack) = n" using assms(6) by auto
  have "reliable_ack_write ack mru b sid maxn prepend = Some (True, ?a, mru2, buf_sub_sync b' p s3)"
    unfolding reliable_ack_write_def n_eq Let_def mru2(1) tm
    by (simp only: Option.bind.bind_lunit tm sub(1) prod.case option.case s1(1) ASSERT_simps pids s2(1) s3(1))
  moreover have "length (ack_record pids sid) = ACK_SIZE total"
    using length_ack_record [OF assms(4)] total by simp
  note sub(3) [OF s3(2) this]
  ultimately show ?thesis using a mru2 total(1) by auto
qed

lemma ack_parse_loop_rep:
  "buf_rep b h (concat (map be32 pids) @ c) r \<Longrightarrow> ack_wf ack \<Longrightarrow> ak_len ack + length pids \<le> RELIABLE_ACK_SIZE \<Longrightarrow>
   \<exists>ack' b'. ack_parse_loop (length pids) b ack = (True, ack', b') \<and> ack_wf ack' \<and>
     acks ack' = acks ack @ pids \<and> buf_rep b' (h + 4 * length pids) c r"
proof (induction pids arbitrary: b h ack)
  case (Cons pid pids)
  from Cons.prems(1) have "buf_rep b h (be32 pid @ (concat (map be32 pids) @ c)) r" by simp
  then obtain b1 where b1: "buf_read b 4 = (Some (be32 pid), b1)"
    "buf_rep b1 (h + 4) (concat (map be32 pids) @ c) r"
    using bd.consumeE [of b h "be32 pid" _ r 4] by auto
  have push: "ack_wf (ack_push ack pid)" "acks (ack_push ack pid) = acks ack @ [pid]"
    "ak_len (ack_push ack pid) = ak_len ack + 1" "ak_len ack < RELIABLE_ACK_SIZE"
    using ack_push_view [OF Cons.prems(2), of pid] Cons.prems(3) by auto
  obtain ack' b' where "ack_parse_loop (length pids) b1 (ack_push ack pid) = (True, ack', b')" "ack_wf ack'"
    "acks ack' = (acks ack @ [pid]) @ pids" "buf_rep b' (h + 4 + 4 * length pids) c r"
    using Cons.IH [OF b1(2) push(1)] push(2,3) Cons.prems(3) by auto
  then show ?case using b1 push(4) by (simp add: algebra_simps)
qed simp

lemma reliable_ack_parse_rep:
  assumes "buf_rep b h (ack_record pids sid @ c) r" "length pids \<le> RELIABLE_ACK_SIZE"
    and "length sid = SID_SIZE" "length (ak_ids ack) = RELIABLE_ACK_SIZE"
  shows "\<exists>ack' b'. reliable_ack_parse b ack junk = (True, ack', (if pids \<noteq> [] then sid else junk), b') \<and>
    ack_wf ack' \<and> acks ack' = pids \<and> buf_rep b' (h + ACK_SIZE (length pids)) c r"
proof -
  let ?n = "word_of_nat (length pids) :: u8"
  have cnt: "unat ?n = length pids"
    using assms(2) by (simp add: RELIABLE_ACK_SIZE_def unsigned_of_nat take_bit_nat_eq_self)
  have "buf_rep b h ([?n] @ (concat (map be32 pids) @ ((if pids \<noteq> [] then sid else []) @ c))) r"
    using assms(1) by (simp add: ack_record_def)
  from bd.consumeE [OF this, of 1] obtain b1 where b1: "buf_read b 1 = (Some [?n], b1)"
    "buf_rep b1 (h + 1) (concat (map be32 pids) @ ((if pids \<noteq> [] then sid else []) @ c)) r" by auto
  let ?a = "ack\<lparr>ak_len := 0\<rparr>"
  have a: "ack_wf ?a" "acks ?a = []" using assms(4) by (simp_all add: ack_wf_def acks_def)
  obtain ack' b2 where b2: "ack_parse_loop (length pids) b1 ?a = (True, ack', b2)" "ack_wf ack'" "acks ack' = pids"
    "buf_rep b2 (h + 1 + 4 * length pids) ((if pids \<noteq> [] then sid else []) @ c) r"
    using ack_parse_loop_rep [OF b1(2) a(1)] assms(2) a(2) by auto
  show ?thesis
  proof (cases "pids = []")
    case True
    then show ?thesis using b1 b2 cnt by (simp add: reliable_ack_parse_def ACK_SIZE_def Let_def)
  next
    case False
    then have "buf_rep b2 (h + 1 + 4 * length pids) (sid @ c) r" using b2(4) by simp
    from bd.consumeE [OF this, of 8] assms(3) obtain b3 where b3: "buf_read b2 8 = (Some sid, b3)"
      "buf_rep b3 (h + 1 + 4 * length pids + 8) c r" by (auto simp: SID_SIZE_def)
    then show ?thesis using False b1 b2 cnt
      by (simp add: reliable_ack_parse_def session_id_read_def SID_SIZE_def ACK_SIZE_def Let_def algebra_simps)
  qed
qed

text \<open>
  The list of recent acknowledgements. \<open>copy_acks_to_mru\<close> of the first \<open>n\<close>
  acknowledgements puts exactly these in front, in their order, followed by the previous
  list without them, cut to eight entries; it never writes outside the array.
\<close>

theorem copy_acks_to_mru_spec:
  assumes "ack_wf ack" "ack_wf mru" "distinct (acks ack)" "distinct (acks mru)" "n \<le> ak_len ack"
  shows "\<exists>mru'. copy_acks_to_mru ack mru n = Some mru' \<and> ack_wf mru' \<and>
    acks mru' = take 8 (take n (acks ack) @ filter (\<lambda>p. p \<notin> set (take n (acks ack))) (acks mru))"
  using copy_loop_view [OF assms(1,2,5)] assms length_acks [OF assms(1)] length_acks [OF assms(2)]
    foldr_mtf [of "take n (acks ack)" "acks mru"]
  by (auto simp: copy_acks_to_mru_def ack_wf_def RELIABLE_ACK_SIZE_def)

lemma copy_acks_to_mru_spec_witness:
  "\<exists>mru'. copy_acks_to_mru \<lparr>ak_len = 2, ak_ids = [7, 5, 0, 0, 0, 0, 0, 0]\<rparr>
      \<lparr>ak_len = 3, ak_ids = [4, 5, 6, 0, 0, 0, 0, 0]\<rparr> 2 = Some mru' \<and> acks mru' = [7, 5, 4, 6]"
  using copy_acks_to_mru_spec [of "\<lparr>ak_len = 2, ak_ids = [7, 5, 0, 0, 0, 0, 0, 0]\<rparr>"
      "\<lparr>ak_len = 3, ak_ids = [4, 5, 6, 0, 0, 0, 0, 0]\<rparr>" 2]
  by (simp add: acks_def ack_wf_def RELIABLE_ACK_SIZE_def) blast

text \<open>
  C29: acknowledgements survive the wire. With room in the buffer \<open>reliable_ack_write\<close>
  succeeds without failing an assertion, and the record it puts in front of or behind the
  content is accepted by \<open>reliable_ack_read\<close> of the peer whose session id it carries, which
  gets exactly the front of the updated list of recent acknowledgements; the first
  \<open>min max (ack->len)\<close> pending acknowledgements are in it and leave the pending record.
\<close>

theorem reliable_ack_write_read:
  assumes "ack_wf ack" "ack_wf mru" "distinct (acks ack)" "distinct (acks mru)"
    and "buf_rep b h c r" "length sid = SID_SIZE" "session_id_defined sid"
    and "ACK_SIZE RELIABLE_ACK_SIZE \<le> (if prepend then h else r)"
  shows "\<exists>ack2 mru2 b2 rec. reliable_ack_write ack mru b sid maxn prepend = Some (True, ack2, mru2, b2) \<and>
    acks ack2 = drop maxn (acks ack) \<and>
    acks mru2 = take 8 (take maxn (acks ack) @ filter (\<lambda>p. p \<notin> set (take maxn (acks ack))) (acks mru)) \<and>
    buf_content b2 = (if prepend then rec @ c else c @ rec) \<and>
    (\<forall>d h2 c2 r2 a junk. buf_rep d h2 (rec @ c2) r2 \<longrightarrow> ack_wf a \<longrightarrow>
      (\<exists>a' d'. reliable_ack_read a junk d sid = (True, a', d') \<and> buf_content d' = c2 \<and>
        acks a' = take maxn (acks mru2)))"
proof -
  define n where "n = min (ak_len ack) maxn"
  define mru' where "mru' = foldr mtf (take n (acks ack)) (acks mru)"
  define pids where "pids = take (min maxn (length mru')) mru'"
  have tn: "take n (acks ack) = take maxn (acks ack)" "drop n (acks ack) = drop maxn (acks ack)"
    using length_acks [OF assms(1)] by (auto simp: n_def min_def)
  have m: "mru' = take 8 (take maxn (acks ack) @ filter (\<lambda>p. p \<notin> set (take maxn (acks ack))) (acks mru))"
    unfolding mru'_def tn using assms(1-4) length_acks [OF assms(1)] length_acks [OF assms(2)]
    by (intro foldr_mtf) (auto simp: ack_wf_def RELIABLE_ACK_SIZE_def)
  have "length mru' \<le> 8" unfolding m by simp
  then have lp: "length pids \<le> RELIABLE_ACK_SIZE" by (simp add: pids_def RELIABLE_ACK_SIZE_def)
  then have "ACK_SIZE (length pids) \<le> (if prepend then h else r)"
    using assms(8) by (auto simp: ACK_SIZE_def RELIABLE_ACK_SIZE_def SID_SIZE_def split: if_splits)
  from reliable_ack_write_rep [OF assms(1,2,5,6,7) n_def mru'_def pids_def this] obtain ack2 mru2 b2 where
    w: "reliable_ack_write ack mru b sid maxn prepend = Some (True, ack2, mru2, b2)" "ack_wf ack2"
    "acks ack2 = drop n (acks ack)" "ack_wf mru2" "acks mru2 = mru'"
    "if prepend then buf_rep b2 (h - ACK_SIZE (length pids)) (ack_record pids sid @ c) r
     else buf_rep b2 h (c @ ack_record pids sid) (r - ACK_SIZE (length pids))" by blast
  have ct: "buf_content b2 = (if prepend then ack_record pids sid @ c else c @ ack_record pids sid)"
    using w(6) by (auto dest: buf_rep_simps(1) split: if_splits)
  have pm: "pids = take maxn mru'" by (auto simp: pids_def min_def)
  have rd: "\<exists>a' d'. reliable_ack_read a junk d sid = (True, a', d') \<and> buf_content d' = c2 \<and> acks a' = take maxn mru'"
    if d: "buf_rep d h2 (ack_record pids sid @ c2) r2" and a: "ack_wf a" for d h2 c2 r2 a junk
  proof -
    obtain a' d' where p: "reliable_ack_parse d a junk = (True, a', (if pids \<noteq> [] then sid else junk), d')"
      "ack_wf a'" "acks a' = pids" "buf_rep d' (h2 + ACK_SIZE (length pids)) c2 r2"
      using reliable_ack_parse_rep [OF d lp assms(6), of a junk] a by (auto simp: ack_wf_def)
    have "ak_len a' = length pids" using p(2,3) length_acks by metis
    then show ?thesis using p assms(7) buf_rep_simps(1) [OF p(4)] pm
      by (auto simp: reliable_ack_read_def session_id_equal_def)
  qed
  show ?thesis
    by (rule exI [of _ ack2], rule exI [of _ mru2], rule exI [of _ b2], rule exI [of _ "ack_record pids sid"])
      (use w ct rd tn m in auto)
qed


lemma reliable_ack_write_read_witness:
  "\<exists>ack2 mru2 b2. reliable_ack_write \<lparr>ak_len = 2, ak_ids = [7, 5, 0, 0, 0, 0, 0, 0]\<rparr> ack_empty
      \<lparr>b_capacity = 64, b_offset = 64, b_len = 0, b_data = Some (replicate 64 0)\<rparr>
      [1, 2, 3, 4, 5, 6, 7, 8] 4 True = Some (True, ack2, mru2, b2) \<and> acks mru2 = [7, 5]"
proof -
  let ?a = "\<lparr>ak_len = 2, ak_ids = [7, 5, 0, 0, 0, 0, 0, 0]\<rparr> :: reliable_ack"
  let ?b = "\<lparr>b_capacity = 64, b_offset = 64, b_len = 0, b_data = Some (replicate 64 0)\<rparr> :: buffer"
  let ?sid = "[1, 2, 3, 4, 5, 6, 7, 8] :: u8 list"
  have h: "ack_wf ?a" "acks ?a = [7, 5]" "buf_rep ?b 64 [] 0" "length ?sid = SID_SIZE" "session_id_defined ?sid"
    by (simp_all add: ack_wf_def acks_def RELIABLE_ACK_SIZE_def buf_rep_iff SID_SIZE_def session_id_defined_def
        numeral_eq_Suc)
  from reliable_ack_write_read [OF h(1) ack_empty_view(2) _ _ h(3-5), of True 4] h(2) show ?thesis
    by (auto simp: ACK_SIZE_def RELIABLE_ACK_SIZE_def SID_SIZE_def)
qed

end
