(* ===== verification/ReliableWindow.thy ===== *)
theory ReliableWindow
  imports ReliableAck
begin

text \<open>
  The sequence numbers and the entry loops of reliable.c: what the circular comparisons
  mean, what the searches over the entries return, and how each operation acts on them.
\<close>

section \<open>The circle\<close>

lemma unat_diff_cases:
  fixes a b base :: u32
  shows "unat (a - b) = (if unat (b - base) \<le> unat (a - base) then unat (a - base) - unat (b - base)
    else unat (a - base) + 2 ^ 32 - unat (b - base))"
proof -
  have "a - b = (a - base) - (b - base)" by simp
  then have "unat (a - b) = unat ((a - base) - (b - base))" by (rule arg_cong)
  also have "\<dots> = (if unat (b - base) \<le> unat (a - base) then unat (a - base) - unat (b - base)
    else unat (a - base) + 2 ^ 32 - unat (b - base))"
    by (subst unat_sub_if') simp
  finally show ?thesis .
qed

lemma pid_min_window:
  assumes "unat (a - base) < 2 ^ 31" "unat (b - base) < 2 ^ 31"
  shows "reliable_pid_min a b \<longleftrightarrow> unat (a - base) < unat (b - base)"
proof -
  have "unat (a - b) < 2 ^ 31 \<longleftrightarrow> unat (b - base) \<le> unat (a - base)"
    using assms unsigned_less [of "a - base", where ?'a = nat] unsigned_less [of "b - base", where ?'a = nat]
    unfolding unat_diff_cases [of a b base] by auto
  then show ?thesis
    by (auto simp: reliable_pid_min_def reliable_pid_in_range1_def subtract_pid_def word_less_nat_alt)
qed

text \<open>Without wrap-around, on numbers.\<close>

lemma unat_of_nat32: "n < 2 ^ 32 \<Longrightarrow> unat (word_of_nat n :: u32) = n"
  by (simp add: unsigned_of_nat take_bit_nat_eq_self)

lemma pid_min_nat:
  assumes "unat a < 2 ^ 31" "unat b < 2 ^ 31"
  shows "reliable_pid_min a b \<longleftrightarrow> unat a < unat b"
  using pid_min_window [of a 0 b] assms by simp

lemma in_range1_nat:
  assumes "unat b \<le> unat a"
  shows "reliable_pid_in_range1 a b n \<longleftrightarrow> unat a - unat b < unat n"
  using assms by (simp add: reliable_pid_in_range1_def subtract_pid_def word_less_nat_alt unat_sub_if')

lemma in_range2_nat:
  assumes "unat b + unat n < 2 ^ 32"
  shows "reliable_pid_in_range2 a b n \<longleftrightarrow> unat a < unat b + unat n"
proof -
  have "unat (b + n) = unat b + unat n" using assms by (simp add: unat_word_ariths)
  then show ?thesis by (simp add: reliable_pid_in_range2_def word_less_nat_alt word_le_nat_alt)
qed

section \<open>Searching and updating entries\<close>

definition rel_wf :: "reliable \<Rightarrow> bool" where
  "rel_wf rel \<longleftrightarrow> 0 < rl_size rel \<and> rl_size rel \<le> RELIABLE_CAPACITY \<and> length (rl_array rel) = RELIABLE_CAPACITY"

abbreviation entry :: "reliable \<Rightarrow> nat \<Rightarrow> reliable_entry" where
  "entry rel i \<equiv> rl_array rel ! i"

lemma first_entry_Some: "first_entry P rel = Some i \<Longrightarrow> i < rl_size rel \<and> P (entry rel i)"
  by (auto simp: first_entry_def find_Some_iff)

lemma first_entry_None: "first_entry P rel = None \<longleftrightarrow> (\<forall>i < rl_size rel. \<not> P (entry rel i))"
  by (auto simp: first_entry_def find_None_iff)

lemma first_entry_obtain:
  assumes "i < rl_size rel" "P (entry rel i)"
  obtains j where "first_entry P rel = Some j" "j < rl_size rel" "P (entry rel j)"
  using assms first_entry_None [of P rel] first_entry_Some [of P rel] by (cases "first_entry P rel") auto

text \<open>The state of the loop of \<open>best_entry\<close> after \<open>n\<close> entries.\<close>

definition best_upto :: "(reliable_entry \<Rightarrow> bool) \<Rightarrow> reliable \<Rightarrow> nat \<Rightarrow> nat option" where
  "best_upto P rel n = fold (\<lambda>i best.
     if P (entry rel i) then
       (case best of
          None \<Rightarrow> Some i
        | Some j \<Rightarrow> if reliable_pid_min (e_packet_id (entry rel i)) (e_packet_id (entry rel j)) then Some i else best)
     else best) [0..<n] None"

lemma best_upto_Suc:
  "best_upto P rel (Suc n) = (if P (entry rel n) then
     (case best_upto P rel n of
        None \<Rightarrow> Some n
      | Some j \<Rightarrow> if reliable_pid_min (e_packet_id (entry rel n)) (e_packet_id (entry rel j)) then Some n
                  else best_upto P rel n)
   else best_upto P rel n)"
  unfolding best_upto_def by (simp split: option.splits)

lemma best_upto_spec:
  assumes "\<And>i. i < n \<Longrightarrow> P (entry rel i) \<Longrightarrow> unat (e_packet_id (entry rel i) - base) < 2 ^ 31"
  shows "case best_upto P rel n of
      None \<Rightarrow> \<forall>i<n. \<not> P (entry rel i)
    | Some j \<Rightarrow> j < n \<and> P (entry rel j) \<and>
        (\<forall>i<n. P (entry rel i) \<longrightarrow> unat (e_packet_id (entry rel j) - base) \<le> unat (e_packet_id (entry rel i) - base))"
  using assms
proof (induction n)
  case 0
  then show ?case by (simp add: best_upto_def)
next
  case (Suc n)
  have ih: "case best_upto P rel n of
      None \<Rightarrow> \<forall>i<n. \<not> P (entry rel i)
    | Some j \<Rightarrow> j < n \<and> P (entry rel j) \<and>
        (\<forall>i<n. P (entry rel i) \<longrightarrow> unat (e_packet_id (entry rel j) - base) \<le> unat (e_packet_id (entry rel i) - base))"
    using Suc by auto
  show ?case
  proof (cases "P (entry rel n)")
    case False
    with ih show ?thesis by (auto simp: best_upto_Suc less_Suc_eq split: option.splits)
  next
    case True
    show ?thesis
    proof (cases "best_upto P rel n")
      case None
      with ih True show ?thesis by (auto simp: best_upto_Suc less_Suc_eq)
    next
      case (Some j)
      with ih have j: "j < n" "P (entry rel j)"
        "\<And>i. i < n \<Longrightarrow> P (entry rel i) \<Longrightarrow> unat (e_packet_id (entry rel j) - base) \<le> unat (e_packet_id (entry rel i) - base)"
        by auto
      have "reliable_pid_min (e_packet_id (entry rel n)) (e_packet_id (entry rel j)) \<longleftrightarrow>
          unat (e_packet_id (entry rel n) - base) < unat (e_packet_id (entry rel j) - base)"
        using Suc.prems [of n] Suc.prems [of j] True j by (intro pid_min_window) auto
      with True Some j show ?thesis
        by (auto simp: best_upto_Suc less_Suc_eq intro: less_imp_le order.trans)
    qed
  qed
qed

lemma best_entry_upto: "best_entry P rel = best_upto P rel (rl_size rel)"
  by (simp add: best_entry_def best_upto_def)

lemma best_entry_Some: "best_entry P rel = Some i \<Longrightarrow> i < rl_size rel \<and> P (entry rel i)"
proof -
  have "best_upto P rel n = Some i \<Longrightarrow> i < n \<and> P (entry rel i)" for n
    by (induction n) (auto simp: best_upto_Suc best_upto_def [of _ _ 0] less_Suc_eq split: if_splits option.splits)
  then show "best_entry P rel = Some i \<Longrightarrow> i < rl_size rel \<and> P (entry rel i)"
    by (simp add: best_entry_upto)
qed

lemma best_entry_None: "best_entry P rel = None \<longleftrightarrow> (\<forall>i < rl_size rel. \<not> P (entry rel i))"
proof -
  have "best_upto P rel n = None \<longleftrightarrow> (\<forall>i < n. \<not> P (entry rel i))" for n
    by (induction n) (auto simp: best_upto_Suc best_upto_def [of _ _ 0] less_Suc_eq split: if_splits option.splits)
  then show ?thesis by (simp add: best_entry_upto)
qed

lemma best_entry_min:
  assumes "best_entry P rel = Some j" "i < rl_size rel" "P (entry rel i)"
    and "\<And>i. i < rl_size rel \<Longrightarrow> P (entry rel i) \<Longrightarrow> unat (e_packet_id (entry rel i) - base) < 2 ^ 31"
  shows "unat (e_packet_id (entry rel j) - base) \<le> unat (e_packet_id (entry rel i) - base)"
  using best_upto_spec [of "rl_size rel" P rel base] assms by (auto simp: best_entry_upto)

lemma map_entries_view:
  assumes "rel_wf rel"
  shows "rl_size (map_entries f rel) = rl_size rel" "rl_packet_id (map_entries f rel) = rl_packet_id rel"
    "rl_offset (map_entries f rel) = rl_offset rel" "rel_wf (map_entries f rel)"
    "rl_initial_timeout (map_entries f rel) = rl_initial_timeout rel" "rl_hold (map_entries f rel) = rl_hold rel"
    "i < rl_size rel \<Longrightarrow> entry (map_entries f rel) i = f (entry rel i)"
  using assms by (simp_all add: map_entries_def entries_def rel_wf_def nth_append)

lemma upd_entry_view:
  assumes "rel_wf rel" "i < rl_size rel"
  shows "rl_size (upd_entry i f rel) = rl_size rel" "rl_packet_id (upd_entry i f rel) = rl_packet_id rel"
    "rl_offset (upd_entry i f rel) = rl_offset rel" "rel_wf (upd_entry i f rel)"
    "rl_initial_timeout (upd_entry i f rel) = rl_initial_timeout rel" "rl_hold (upd_entry i f rel) = rl_hold rel"
    "entry (upd_entry i f rel) j = (if j = i then f (entry rel i) else entry rel j)"
  using assms by (auto simp: upd_entry_def rel_wf_def)

end
