(* ===== verification/ReliableLink.thy ===== *)
theory ReliableLink
  imports ReliableWindow
begin

text \<open>
  One direction of the control channel: how ssl.c drives the reliability layer at the two
  ends, over a network that may lose, duplicate, delay and reorder packets and
  acknowledgements. The sending end queues chunks of TLS ciphertext and retransmits them;
  the receiving end stores, acknowledges and hands them to TLS in order. The model covers
  sessions of fewer than 2 to the 31 packets; what happens at the wrap of the 32 bit
  packet id is the subject of \<open>ReliableProps\<close>.
\<close>

definition P_ACK_V1 :: int where "P_ACK_V1 = 5"

abbreviation set_buf :: "nat \<Rightarrow> buffer \<Rightarrow> reliable \<Rightarrow> reliable" where
  "set_buf i b \<equiv> upd_entry i (e_buf_update (\<lambda>_. b))"

section \<open>The steps of ssl.c\<close>

text \<open>One round of the loop of \<open>write_outgoing_tls_ciphertext\<close>: \<open>len\<close> bytes of \<open>tmp\<close>
  become the next outgoing packet. The result of \<open>buf_copy_n\<close> is not looked at.\<close>

definition send_chunk :: "reliable \<Rightarrow> int \<Rightarrow> buffer \<Rightarrow> int \<Rightarrow> (reliable \<times> buffer) option" where
  "send_chunk tx opcode tmp len = do {
     (i, tx) \<leftarrow> reliable_get_buf_output_sequenced tx;
     i \<leftarrow> i;
     (case buf_copy_n (e_buf (entry tx i)) tmp len of (_, b, tmp) \<Rightarrow> do {
        tx \<leftarrow> reliable_mark_active_outgoing (set_buf i b tx) i opcode;
        Some (tx, tmp) }) }"

text \<open>The end of \<open>tls_pre_decrypt\<close>: store an incoming control packet and remember its
  acknowledgement. The first component is false for the error exit.\<close>

definition store_packet :: "reliable \<Rightarrow> reliable_ack \<Rightarrow> int \<Rightarrow> buffer \<Rightarrow> (bool \<times> reliable \<times> reliable_ack) option" where
  "store_packet rcv ack op buf =
     (if op \<noteq> P_ACK_V1 \<and> reliable_can_get rcv then
        (case reliable_ack_read_packet_id buf of
           (None, _) \<Rightarrow> Some (True, rcv, ack)
         | (Some pid, buf) \<Rightarrow>
             if reliable_wont_break_sequentiality rcv pid then
               if reliable_not_replay rcv pid then do {
                 (i, rcv) \<leftarrow> reliable_get_buf rcv;
                 i \<leftarrow> i;
                 (case buf_copy (e_buf (entry rcv i)) buf of
                    (False, b) \<Rightarrow> Some (False, set_buf i b rcv, ack)
                  | (True, b) \<Rightarrow> do {
                      rcv \<leftarrow> reliable_mark_active_incoming (set_buf i b rcv) i pid op;
                      Some (True, rcv, snd (reliable_ack_acknowledge_packet_id ack pid)) }) }
               else Some (True, rcv, snd (reliable_ack_acknowledge_packet_id ack pid))
             else Some (True, rcv, ack))
      else Some (True, rcv, ack))"

text \<open>From \<open>tls_process_state\<close> and \<open>read_incoming_tls_ciphertext\<close>: the next packet in
  sequence, if it is here, goes to the TLS object (which takes all of it) and is deleted.\<close>

definition deliver_next :: "reliable \<Rightarrow> ((int \<times> u8 list) \<times> reliable) option" where
  "deliver_next rcv = (case reliable_get_entry_sequenced rcv of
     None \<Rightarrow> None
   | Some i \<Rightarrow> do {
       rcv' \<leftarrow> reliable_mark_deleted rcv i;
       Some ((e_opcode (entry rcv i), buf_content (e_buf (entry rcv i))), rcv') })"

section \<open>The link and its steps\<close>

text \<open>\<open>l_net\<close> and \<open>l_acknet\<close> are the packets and acknowledgement records that were ever put on
  the network; \<open>l_sent\<close> and \<open>l_dlv\<close> are the chunks queued and delivered so far.\<close>

record link =
  l_snd :: reliable
  l_rcv :: reliable
  l_ack :: reliable_ack
  l_mru :: reliable_ack
  l_net :: "(int \<times> u8 list) set"
  l_acknet :: "u8 list set"
  l_sent :: "(int \<times> u8 list) list"
  l_dlv :: "(int \<times> u8 list) list"

definition cap_of :: "reliable \<Rightarrow> int" where
  "cap_of rel = b_capacity (e_buf (entry rel 0))"

inductive link_step :: "session_id \<Rightarrow> link \<Rightarrow> link \<Rightarrow> bool" for sid :: session_id where
  queue: "\<lbrakk>buf_rep tmp h (x @ rest) r; rl_offset (l_snd s) + int (length x) \<le> cap_of (l_snd s);
      int (length x) < BUF_SIZE_MAX; op \<noteq> P_ACK_V1; length (l_sent s) + 1 < 2 ^ 31;
      send_chunk (l_snd s) op tmp (int (length x)) = Some (snd', tmp')\<rbrakk>
    \<Longrightarrow> link_step sid s (s\<lparr>l_snd := snd', l_sent := l_sent s @ [(op, x)]\<rparr>)"
| transmit: "reliable_send now (l_snd s) = (Some (i, op), snd')
    \<Longrightarrow> link_step sid s (s\<lparr>l_snd := snd',
          l_net := insert (op, buf_content (e_buf (entry snd' i))) (l_net s)\<rparr>)"
| schedule: "link_step sid s (s\<lparr>l_snd := reliable_schedule_now now (l_snd s)\<rparr>)"
| receive: "\<lbrakk>(op, bs) \<in> l_net s; buf_rep b h bs r; store_packet (l_rcv s) (l_ack s) op b = Some (ok, rcv', ack')\<rbrakk>
    \<Longrightarrow> link_step sid s (s\<lparr>l_rcv := rcv', l_ack := ack'\<rparr>)"
| deliver: "deliver_next (l_rcv s) = Some (m, rcv')
    \<Longrightarrow> link_step sid s (s\<lparr>l_rcv := rcv', l_dlv := l_dlv s @ [m]\<rparr>)"
| send_ack: "\<lbrakk>buf_rep b h [] r; ACK_SIZE RELIABLE_ACK_SIZE \<le> r;
      reliable_ack_write (l_ack s) (l_mru s) b sid maxn False = Some (ok, ack', mru', b')\<rbrakk>
    \<Longrightarrow> link_step sid s (s\<lparr>l_ack := ack', l_mru := mru', l_acknet := insert (buf_content b') (l_acknet s)\<rparr>)"
| receive_ack: "\<lbrakk>bs \<in> l_acknet s; buf_rep b h bs r; ack_wf junk;
      reliable_ack_read junk junk_sid b sid = (True, ack, b')\<rbrakk>
    \<Longrightarrow> link_step sid s (s\<lparr>l_snd := reliable_send_purge (l_snd s) ack\<rparr>)"

definition link_init :: "reliable \<Rightarrow> reliable \<Rightarrow> link" where
  "link_init s r = \<lparr>l_snd = s, l_rcv = r, l_ack = ack_empty, l_mru = ack_empty, l_net = {},
     l_acknet = {}, l_sent = [], l_dlv = []\<rparr>"

inductive reachable :: "session_id \<Rightarrow> link \<Rightarrow> link \<Rightarrow> bool" for sid :: session_id and s0 :: link where
  start: "reachable sid s0 s0"
| step: "reachable sid s0 s \<Longrightarrow> link_step sid s s' \<Longrightarrow> reachable sid s0 s'"

section \<open>Buffers of an entry\<close>

definition buf_ok :: "int \<Rightarrow> buffer \<Rightarrow> bool" where
  "buf_ok cap b \<longleftrightarrow> (\<exists>h c r. buf_rep b h c r \<and> int (h + length c + r) = cap)"

lemma buf_ok_capacity: "buf_ok cap b \<Longrightarrow> b_capacity b = cap"
  by (auto simp: buf_ok_def buf_rep_iff)

lemma buf_ok_init:
  assumes "buf_ok cap b" "0 \<le> off" "off \<le> cap"
  shows "\<exists>b'. buf_init b off = (True, b') \<and> buf_rep b' (nat off) [] (nat (cap - off))"
proof -
  obtain h c r where rep: "buf_rep b h c r" "int (h + length c + r) = cap"
    using assms(1) by (auto simp: buf_ok_def)
  have "nat off \<le> h + length c + r" using rep(2) assms by linarith
  note bi = buf_init_rep [OF rep(1) this]
  have "nat (cap - off) = h + length c + r - nat off" using rep(2) assms by linarith
  with bi assms(2) show ?thesis by (cases "buf_init b off") simp
qed

lemma buf_write_cases:
  assumes "buf_rep b h c r"
  shows "buf_write b bs = (False, b) \<or>
    (\<exists>b'. buf_write b bs = (True, b') \<and> buf_rep b' h (c @ bs) (r - length bs) \<and> length bs \<le> r)"
proof (cases "length bs \<le> r \<and> int (length bs) < BUF_SIZE_MAX")
  case True
  then show ?thesis using bd.appendE [OF assms, of bs] by metis
next
  case False
  then show ?thesis using buf_write_full [OF assms, of bs] assms
    by (auto simp: buf_write_def buf_write_alloc_def buf_safe_def buf_size_valid_def)
qed

lemma buf_write_prepend_cases:
  assumes "buf_rep b h c r"
  shows "buf_write_prepend b bs = (False, b) \<or>
    (\<exists>b'. buf_write_prepend b bs = (True, b') \<and> buf_rep b' (h - length bs) (bs @ c) r \<and> length bs \<le> h)"
  using bd.prependE [OF assms, of bs] buf_write_prepend_full [OF assms, of bs] by (metis not_le)

section \<open>Invariants of the two ends\<close>

definition bufs_ok :: "int \<Rightarrow> reliable \<Rightarrow> bool" where
  "bufs_ok cap rel \<longleftrightarrow> rel_wf rel \<and> 0 \<le> rl_offset rel \<and> rl_offset rel \<le> cap \<and>
     (\<forall>i < rl_size rel. buf_ok cap (e_buf (entry rel i)))"

text \<open>The packet ids in the active entries.\<close>

definition active_ids :: "reliable \<Rightarrow> nat set" where
  "active_ids rel = {k. \<exists>i < rl_size rel. e_active (entry rel i) \<and> unat (e_packet_id (entry rel i)) = k}"

definition snd_inv :: "int \<Rightarrow> (int \<times> u8 list) list \<Rightarrow> reliable \<Rightarrow> bool" where
  "snd_inv cap sent rel \<longleftrightarrow> bufs_ok cap rel \<and> length sent < 2 ^ 31 \<and>
     rl_packet_id rel = word_of_nat (length sent) \<and>
     (\<forall>i < rl_size rel. e_active (entry rel i) \<longrightarrow>
        unat (e_packet_id (entry rel i)) < length sent \<and>
        e_opcode (entry rel i) = fst (sent ! unat (e_packet_id (entry rel i))) \<and>
        buf_content (e_buf (entry rel i)) =
          be32 (e_packet_id (entry rel i)) @ snd (sent ! unat (e_packet_id (entry rel i))))"

definition rcv_inv :: "int \<Rightarrow> (int \<times> u8 list) list \<Rightarrow> nat \<Rightarrow> reliable \<Rightarrow> bool" where
  "rcv_inv cap sent d rel \<longleftrightarrow> bufs_ok cap rel \<and> d \<le> length sent \<and> length sent < 2 ^ 31 \<and>
     rl_packet_id rel = word_of_nat d \<and>
     (\<forall>i < rl_size rel. e_active (entry rel i) \<longrightarrow>
        d \<le> unat (e_packet_id (entry rel i)) \<and> unat (e_packet_id (entry rel i)) < length sent \<and>
        unat (e_packet_id (entry rel i)) < d + rl_size rel \<and>
        (e_opcode (entry rel i), buf_content (e_buf (entry rel i))) = sent ! unat (e_packet_id (entry rel i))) \<and>
     (\<forall>i < rl_size rel. \<forall>j < rl_size rel. e_active (entry rel i) \<longrightarrow> e_active (entry rel j) \<longrightarrow>
        e_packet_id (entry rel i) = e_packet_id (entry rel j) \<longrightarrow> i = j)"

definition stored :: "nat \<Rightarrow> reliable \<Rightarrow> nat \<Rightarrow> bool" where
  "stored d rel k \<longleftrightarrow> k < d \<or> k \<in> active_ids rel"

lemma get_buf_ok:
  assumes "bufs_ok cap rel"
  shows "(reliable_get_buf rel = Some (None, rel) \<and> (\<forall>i < rl_size rel. e_active (entry rel i))) \<or>
    (\<exists>i b. reliable_get_buf rel = Some (Some i, set_buf i b rel) \<and> i < rl_size rel \<and> \<not> e_active (entry rel i) \<and>
       buf_rep b (nat (rl_offset rel)) [] (nat (cap - rl_offset rel)))"
proof (cases "first_entry (\<lambda>e. \<not> e_active e) rel")
  case None
  then show ?thesis using first_entry_None [of "\<lambda>e. \<not> e_active e" rel] by (simp add: reliable_get_buf_def)
next
  case (Some i)
  then have i: "i < rl_size rel" "\<not> e_active (entry rel i)" using first_entry_Some by blast+
  obtain b where "buf_init (e_buf (entry rel i)) (rl_offset rel) = (True, b)"
    "buf_rep b (nat (rl_offset rel)) [] (nat (cap - rl_offset rel))"
    using buf_ok_init [of cap "e_buf (entry rel i)" "rl_offset rel"] assms i by (auto simp: bufs_ok_def)
  then show ?thesis using Some i by (auto simp: reliable_get_buf_def)
qed

lemma get_buf_output_cases:
  "reliable_get_buf_output_sequenced rel = Some (Some i, rel') \<Longrightarrow> reliable_get_buf rel = Some (Some i, rel')"
  by (auto simp: reliable_get_buf_output_sequenced_def split: option.splits if_splits)

lemma active_ids_fill:
  assumes "rel_wf rel" "i < rl_size rel" "\<not> e_active (entry rel i)" "e_active (f (entry rel i))"
    "unat (e_packet_id (f (entry rel i))) = k"
  shows "active_ids (upd_entry i f rel) = insert k (active_ids rel)"
proof -
  note v = upd_entry_view [OF assms(1,2), of f]
  show ?thesis
  proof (rule set_eqI, rule iffI)
    fix m
    assume "m \<in> active_ids (upd_entry i f rel)"
    then obtain j where j: "j < rl_size rel" "e_active (if j = i then f (entry rel i) else entry rel j)"
      "unat (e_packet_id (if j = i then f (entry rel i) else entry rel j)) = m"
      by (auto simp: active_ids_def v)
    then show "m \<in> insert k (active_ids rel)"
      using assms(5) by (cases "j = i") (auto simp: active_ids_def)
  next
    fix m
    assume "m \<in> insert k (active_ids rel)"
    then consider "m = k" | j where "j < rl_size rel" "e_active (entry rel j)" "unat (e_packet_id (entry rel j)) = m"
      by (auto simp: active_ids_def)
    then show "m \<in> active_ids (upd_entry i f rel)"
    proof cases
      case 1
      then show ?thesis using assms unfolding active_ids_def v(1) by (intro CollectI exI [of _ i]) (simp add: v)
    next
      case 2
      moreover from 2 assms(3) have "j \<noteq> i" by auto
      ultimately show ?thesis unfolding active_ids_def v(1) by (intro CollectI exI [of _ j]) (simp add: v)
    qed
  qed
qed

lemma active_ids_cong:
  assumes "rl_size rel' = rl_size rel"
    "\<And>i. i < rl_size rel \<Longrightarrow> e_active (entry rel' i) = e_active (entry rel i) \<and>
      e_packet_id (entry rel' i) = e_packet_id (entry rel i)"
  shows "active_ids rel' = active_ids rel"
  using assms by (auto simp: active_ids_def)

section \<open>The sending end\<close>

lemma send_chunk_inv:
  assumes inv: "snd_inv cap sent rel" and tmp: "buf_rep tmp th (x @ rest) tr"
    and fits: "rl_offset rel + int (length x) \<le> cap" "int (length x) < BUF_SIZE_MAX"
    and n: "length sent + 1 < 2 ^ 31"
    and run: "send_chunk rel op tmp (int (length x)) = Some (rel', tmp')"
  shows "snd_inv cap (sent @ [(op, x)]) rel'" "active_ids rel' = insert (length sent) (active_ids rel)"
    "buf_rep tmp' (th + length x) rest tr" "rl_offset rel' = rl_offset rel"
    "rl_size rel' = rl_size rel"
proof -
  have ok: "bufs_ok cap rel" "rel_wf rel" using inv by (auto simp: snd_inv_def bufs_ok_def)
  obtain i rel1 where g: "reliable_get_buf_output_sequenced rel = Some (Some i, rel1)"
    using run by (auto simp: send_chunk_def bind_eq_Some_conv)
  then have "reliable_get_buf rel = Some (Some i, rel1)" by (rule get_buf_output_cases)
  then obtain b where b: "rel1 = set_buf i b rel" "i < rl_size rel" "\<not> e_active (entry rel i)"
    "buf_rep b (nat (rl_offset rel)) [] (nat (cap - rl_offset rel))"
    using get_buf_ok [OF ok(1)] by auto
  note v1 = upd_entry_view [OF ok(2) b(2)]
  have e1: "e_buf (entry rel1 i) = b" using b(1) v1 by simp
  obtain tmp1 where t1: "buf_read tmp (int (length x)) = (Some x, tmp1)" "buf_rep tmp1 (th + length x) rest tr"
    using bd.consumeE [OF tmp, of "length x"] by auto
  have "length x \<le> nat (cap - rl_offset rel)" using fits(1) by linarith
  then obtain b1 where b1: "buf_write b x = (True, b1)"
    "buf_rep b1 (nat (rl_offset rel)) ([] @ x) (nat (cap - rl_offset rel) - length x)"
    using bd.appendE [OF b(4) _ fits(2)] by metis
  have cp: "buf_copy_n b tmp (int (length x)) = (True, b1, tmp1)"
    using t1(1) b1(1) by (auto simp: buf_copy_n_def buf_read_def split: prod.splits option.splits)
  define rel2 where "rel2 = set_buf i b1 rel1"
  have rel2: "rel2 = set_buf i b1 rel" using b ok by (simp add: rel2_def b(1) upd_entry_def rel_wf_def)
  note v2 = upd_entry_view [OF ok(2) b(2), of "e_buf_update (\<lambda>_. b1)", folded rel2]
  let ?n = "word_of_nat (length sent) :: u32"
  have pid: "rl_packet_id rel2 = ?n" using v2 inv by (simp add: snd_inv_def)
  have mk: "reliable_mark_active_outgoing rel2 i op = Some rel'" "tmp' = tmp1"
    using run g cp by (auto simp: send_chunk_def e1 rel2_def bind_eq_Some_conv)
  obtain b2 where b2: "buf_write_prepend b1 (be32 ?n) = (True, b2)"
    using mk(1) v2 pid by (auto simp: reliable_mark_active_outgoing_def bind_eq_Some_conv Let_def split: prod.splits)
  then obtain h2 where h2: "buf_rep b2 (nat (rl_offset rel) - 4) (be32 ?n @ x) (nat (cap - rl_offset rel) - length x)"
    "4 \<le> nat (rl_offset rel)"
    using buf_write_prepend_cases [OF b1(2), of "be32 ?n"] by auto
  define f :: "reliable_entry \<Rightarrow> reliable_entry" where "f = (\<lambda>e. e\<lparr>e_buf := b2, e_packet_id := ?n, e_active := True, e_opcode := op,
      e_next_try := 0, e_timeout := rl_initial_timeout rel\<rparr>)"
  have rel': "rel' = upd_entry i f (rel\<lparr>rl_packet_id := ?n + 1\<rparr>)"
    using mk(1) v2 b b2 pid ok by (auto simp: reliable_mark_active_outgoing_def bind_eq_Some_conv Let_def
        f_def rel2 upd_entry_def rel_wf_def)
  let ?r = "rel\<lparr>rl_packet_id := ?n + 1\<rparr>"
  have wf': "rel_wf ?r" "i < rl_size ?r" using ok(2) b(2) by (simp_all add: rel_wf_def)
  note v3 = upd_entry_view [OF wf', of f, folded rel']
  have un: "unat ?n = length sent" using n by (simp add: unat_of_nat32)
  have "int (nat (rl_offset rel) - 4 + length (be32 ?n @ x) + (nat (cap - rl_offset rel) - length x)) = cap"
    using h2(2) ok(1) fits(1) by (auto simp: bufs_ok_def)
  then have "buf_ok cap b2" using h2(1) unfolding buf_ok_def by blast
  then have "bufs_ok cap rel'" using ok v3 by (auto simp: bufs_ok_def f_def)
  moreover have "rl_packet_id rel' = word_of_nat (length (sent @ [(op, x)]))" using v3 by simp
  moreover have "\<forall>j < rl_size rel'. e_active (entry rel' j) \<longrightarrow>
        unat (e_packet_id (entry rel' j)) < length (sent @ [(op, x)]) \<and>
        e_opcode (entry rel' j) = fst ((sent @ [(op, x)]) ! unat (e_packet_id (entry rel' j))) \<and>
        buf_content (e_buf (entry rel' j)) =
          be32 (e_packet_id (entry rel' j)) @ snd ((sent @ [(op, x)]) ! unat (e_packet_id (entry rel' j)))"
    using inv un v3 buf_rep_simps(1) [OF h2(1)] by (auto simp: snd_inv_def f_def nth_append)
  ultimately show "snd_inv cap (sent @ [(op, x)]) rel'" using n by (simp add: snd_inv_def)
  have "active_ids rel' = insert (length sent) (active_ids ?r)"
    unfolding rel' using b(3) un by (intro active_ids_fill [OF wf']) (simp_all add: f_def)
  then show "active_ids rel' = insert (length sent) (active_ids rel)" by (simp add: active_ids_def)
  show "buf_rep tmp' (th + length x) rest tr" using mk(2) t1(2) by simp
  show "rl_offset rel' = rl_offset rel" "rl_size rel' = rl_size rel" using v3 by simp_all
qed

text \<open>An update that leaves buffer, id and opcode of every entry alone, and activates none.\<close>

definition quiet :: "reliable \<Rightarrow> reliable \<Rightarrow> bool" where
  "quiet rel rel' \<longleftrightarrow> rel_wf rel' \<and> rl_size rel' = rl_size rel \<and> rl_offset rel' = rl_offset rel \<and>
     rl_packet_id rel' = rl_packet_id rel \<and>
     (\<forall>i < rl_size rel. e_buf (entry rel' i) = e_buf (entry rel i) \<and>
        e_packet_id (entry rel' i) = e_packet_id (entry rel i) \<and>
        e_opcode (entry rel' i) = e_opcode (entry rel i) \<and>
        (e_active (entry rel' i) \<longrightarrow> e_active (entry rel i)))"

lemma quiet_refl: "rel_wf rel \<Longrightarrow> quiet rel rel"
  by (simp add: quiet_def)

lemma quiet_trans: "quiet a b \<Longrightarrow> quiet b c \<Longrightarrow> quiet a c"
  by (simp add: quiet_def)

lemma snd_inv_quiet:
  assumes "snd_inv cap sent rel" "quiet rel rel'"
  shows "snd_inv cap sent rel'"
  using assms by (simp add: snd_inv_def bufs_ok_def quiet_def)

lemma send_quiet:
  assumes "rel_wf rel" "reliable_send now rel = (Some (i, op), rel')"
  shows "quiet rel rel'" "active_ids rel' = active_ids rel" "i < rl_size rel" "e_active (entry rel i)"
    "op = e_opcode (entry rel i)" "e_buf (entry rel' i) = e_buf (entry rel i)"
proof -
  let ?f = "\<lambda>e. e\<lparr>e_next_try := now + e_timeout e, e_timeout := e_timeout e * 2, e_n_acks := 0\<rparr>"
  have b: "best_entry (due now) rel = Some i" "op = e_opcode (entry rel i)" "rel' = upd_entry i ?f rel"
    using assms(2) by (auto simp: reliable_send_def split: option.splits)
  then show i: "i < rl_size rel" "e_active (entry rel i)" "op = e_opcode (entry rel i)"
    using best_entry_Some [OF b(1)] by (auto simp: due_def)
  note v = upd_entry_view [OF assms(1) i(1), of ?f, folded b(3)]
  show "quiet rel rel'" using v by (simp add: quiet_def)
  show "active_ids rel' = active_ids rel" using v by (intro active_ids_cong) auto
  show "e_buf (entry rel' i) = e_buf (entry rel i)" using v by simp
qed

lemma schedule_quiet:
  assumes "rel_wf rel"
  shows "quiet rel (reliable_schedule_now now rel)" "active_ids (reliable_schedule_now now rel) = active_ids rel"
proof -
  have "rel_wf (rel\<lparr>rl_hold := False\<rparr>)" using assms by (simp add: rel_wf_def)
  note v = map_entries_view [OF this, where f = "\<lambda>e. if e_active e then e\<lparr>e_next_try := now, e_timeout := rl_initial_timeout rel\<rparr> else e",
      folded reliable_schedule_now_def]
  show "quiet rel (reliable_schedule_now now rel)" using v by (auto simp: quiet_def)
  show "active_ids (reliable_schedule_now now rel) = active_ids rel"
    using v by (intro active_ids_cong) auto
qed

lemma purge_one:
  assumes "rel_wf rel"
  shows "quiet rel (map_entries (purge_entry pid) rel)"
    "active_ids (map_entries (purge_entry pid) rel) = active_ids rel - {unat pid}"
proof -
  note v = map_entries_view [OF assms, where f = "purge_entry pid"]
  show "quiet rel (map_entries (purge_entry pid) rel)" using v by (auto simp: quiet_def purge_entry_def)
  have "e_active (purge_entry pid e) \<longleftrightarrow> e_active e \<and> e_packet_id e \<noteq> pid"
    "e_packet_id (purge_entry pid e) = e_packet_id e" for e
    by (auto simp: purge_entry_def)
  then show "active_ids (map_entries (purge_entry pid) rel) = active_ids rel - {unat pid}"
    by (auto simp: active_ids_def v word_unat_eq_iff)
qed

lemma purge_list:
  "rel_wf rel \<Longrightarrow> quiet rel (fold (\<lambda>pid. map_entries (purge_entry pid)) pids rel) \<and>
    active_ids (fold (\<lambda>pid. map_entries (purge_entry pid)) pids rel) = active_ids rel - unat ` set pids"
proof (induction pids arbitrary: rel)
  case Nil
  then show ?case by (simp add: quiet_refl)
next
  case (Cons p pids)
  have q: "quiet rel (map_entries (purge_entry p) rel)" "rel_wf (map_entries (purge_entry p) rel)"
    using purge_one(1) [OF Cons.prems] by (auto simp: quiet_def)
  show ?case using Cons.IH [OF q(2)] quiet_trans [OF q(1)] purge_one(2) [OF Cons.prems, of p]
    by auto
qed

lemma send_purge_quiet:
  assumes "rel_wf rel"
  shows "quiet rel (reliable_send_purge rel ack)"
    "active_ids (reliable_send_purge rel ack) = active_ids rel - unat ` set (acks ack)"
  using purge_list [OF assms] by (simp_all add: reliable_send_purge_def acks_def)

section \<open>The receiving end\<close>

lemma rcv_unat:
  assumes "rcv_inv cap sent d rel"
  shows "unat (rl_packet_id rel) = d"
  using assms by (simp add: rcv_inv_def unat_of_nat32)

lemma size_small: "rel_wf rel \<Longrightarrow> unat (word_of_nat (rl_size rel) :: u32) = rl_size rel"
  by (simp add: rel_wf_def RELIABLE_CAPACITY_def unat_of_nat32)

lemma wont_break_iff:
  assumes "rcv_inv cap sent d rel"
  shows "reliable_wont_break_sequentiality rel pid \<longleftrightarrow> unat pid < d + rl_size rel"
proof -
  have wf: "rel_wf rel" "d < 2 ^ 31" using assms by (auto simp: rcv_inv_def bufs_ok_def)
  then show ?thesis unfolding reliable_wont_break_sequentiality_def
    using in_range2_nat [of "rl_packet_id rel" "word_of_nat (rl_size rel)" pid] rcv_unat [OF assms] size_small [OF wf(1)]
    by (auto simp: rel_wf_def RELIABLE_CAPACITY_def)
qed

lemma not_replay_iff:
  assumes "rcv_inv cap sent d rel" "unat pid < 2 ^ 31"
  shows "reliable_not_replay rel pid \<longleftrightarrow> \<not> stored d rel (unat pid)"
proof -
  have "d < 2 ^ 31" using assms by (auto simp: rcv_inv_def)
  then have "reliable_pid_min pid (rl_packet_id rel) \<longleftrightarrow> unat pid < d"
    using pid_min_nat [OF assms(2)] rcv_unat [OF assms(1)] by simp
  then show ?thesis
    by (auto simp: reliable_not_replay_def stored_def active_ids_def first_entry_None word_unat_eq_iff)
qed

lemma rcv_inv_sent:
  "rcv_inv cap sent d rel \<Longrightarrow> length sent + 1 < 2 ^ 31 \<Longrightarrow> rcv_inv cap (sent @ [m]) d rel"
  by (auto simp: rcv_inv_def nth_append)

text \<open>Storing the packet that carries chunk \<open>k\<close>: it never aborts; the receiver keeps its
  invariant, and whatever it acknowledges is stored.\<close>

lemma store_packet_inv:
  assumes inv: "rcv_inv cap sent d rel" and k: "k < length sent"
    and b: "buf_rep b h (be32 (word_of_nat k) @ snd (sent ! k)) r" and op: "op = fst (sent ! k)"
    and ack: "ack_wf ack" "\<forall>p \<in> set (acks ack). stored d rel (unat p)"
  shows "\<exists>ok rel' ack'. store_packet rel ack op b = Some (ok, rel', ack') \<and> rcv_inv cap sent d rel' \<and>
    ack_wf ack' \<and> (\<forall>p \<in> set (acks ack'). stored d rel' (unat p)) \<and>
    active_ids rel \<subseteq> active_ids rel' \<and> rl_size rel' = rl_size rel"
proof -
  let ?pid = "word_of_nat k :: u32"
  have ok: "bufs_ok cap rel" "rel_wf rel" "length sent < 2 ^ 31" "d \<le> length sent"
    using inv by (auto simp: rcv_inv_def bufs_ok_def)
  have un: "unat ?pid = k" using k ok(3) by (simp add: unat_of_nat32)
  obtain b1 where b1: "buf_read b 4 = (Some (be32 ?pid), b1)" "buf_rep b1 (h + 4) (snd (sent ! k)) r"
    using bd.consumeE [OF b, of 4] by auto
  then have rd: "reliable_ack_read_packet_id b = (Some ?pid, b1)"
    by (simp add: reliable_ack_read_packet_id_def)
  have same: ?thesis if "store_packet rel ack op b = Some (okf, rel, ack')"
    "ack' = ack \<or> ack' = snd (reliable_ack_acknowledge_packet_id ack ?pid) \<and> stored d rel k" for okf ack'
  proof -
    have "ack_wf ack' \<and> (\<forall>p \<in> set (acks ack'). stored d rel (unat p))"
      using that(2) ack acknowledge_view [OF ack(1), of ?pid] un
      by (cases "reliable_ack_acknowledge_packet_id ack ?pid") (auto split: if_splits)
    then show ?thesis using that(1) inv by blast
  qed
  show ?thesis
  proof (cases "op \<noteq> P_ACK_V1 \<and> reliable_can_get rel \<and> reliable_wont_break_sequentiality rel ?pid")
    case False
    then have "store_packet rel ack op b = Some (True, rel, ack)"
      using rd by (auto simp: store_packet_def)
    then show ?thesis by (rule same) simp
  next
    case True
    have kw: "k < d + rl_size rel" using True wont_break_iff [OF inv, of ?pid] un by simp
    show ?thesis
    proof (cases "reliable_not_replay rel ?pid")
      case False
      then have "stored d rel k" using not_replay_iff [OF inv, of ?pid] un k ok(3) by simp
      moreover have "store_packet rel ack op b = Some (True, rel, snd (reliable_ack_acknowledge_packet_id ack ?pid))"
        using True False rd by (simp add: store_packet_def)
      ultimately show ?thesis by (intro same) auto
    next
      case new: True
      then have ns: "\<not> stored d rel k" using not_replay_iff [OF inv, of ?pid] un k ok(3) by simp
      have "\<not> (\<forall>i < rl_size rel. e_active (entry rel i))"
        using True by (auto simp: reliable_can_get_def first_entry_None)
      with get_buf_ok [OF ok(1)] obtain i ib where g: "reliable_get_buf rel = Some (Some i, set_buf i ib rel)"
        "i < rl_size rel" "\<not> e_active (entry rel i)"
        "buf_rep ib (nat (rl_offset rel)) [] (nat (cap - rl_offset rel))" by auto
      have ibok: "buf_ok cap ib"
        unfolding buf_ok_def by (intro exI conjI, rule g(4)) (use ok(1) in \<open>simp add: bufs_ok_def\<close>)
      note v = upd_entry_view [OF ok(2) g(2)]
      have ct: "buf_content b1 = snd (sent ! k)" using buf_rep_simps(1) [OF b1(2)] .
      consider "buf_write ib (snd (sent ! k)) = (False, ib)"
        | ib' where "buf_write ib (snd (sent ! k)) = (True, ib')"
          "buf_rep ib' (nat (rl_offset rel)) (snd (sent ! k)) (nat (cap - rl_offset rel) - length (snd (sent ! k)))"
          "length (snd (sent ! k)) \<le> nat (cap - rl_offset rel)"
        using buf_write_cases [OF g(4), of "snd (sent ! k)"] by auto
      then show ?thesis
      proof cases
        case 1
        let ?r = "set_buf i ib rel"
        have st: "store_packet rel ack op b = Some (False, ?r, ack)"
          using True new rd g 1 ct v by (simp add: store_packet_def buf_copy_def upd_entry_def)
        have "rcv_inv cap sent d ?r"
          using inv ibok g(3) by (auto simp: rcv_inv_def bufs_ok_def v)
        moreover have "active_ids ?r = active_ids rel" by (intro active_ids_cong) (auto simp: v)
        ultimately show ?thesis using st ack v(1) by (auto simp: stored_def)
      next
        case 2
        define f :: "reliable_entry \<Rightarrow> reliable_entry" where "f = (\<lambda>e. e\<lparr>e_buf := ib', e_active := True,
          e_packet_id := ?pid, e_opcode := op, e_next_try := 0, e_timeout := 0, e_n_acks := 0\<rparr>)"
        have f: "e_buf (f e) = ib'" "e_active (f e)" "e_packet_id (f e) = ?pid" "e_opcode (f e) = op" for e
          by (simp_all add: f_def)
        let ?r = "upd_entry i f rel" and ?a = "snd (reliable_ack_acknowledge_packet_id ack ?pid)"
        have low: "\<not> reliable_pid_min ?pid (rl_packet_id rel)"
          using new by (auto simp: reliable_not_replay_def split: if_splits)
        have st: "store_packet rel ack op b = Some (True, ?r, ?a)"
          using True new rd g 2(1) ct v low ok(2)
          by (simp add: store_packet_def buf_copy_def reliable_mark_active_incoming_def upd_entry_def f_def rel_wf_def)
        note w = upd_entry_view [OF ok(2) g(2), of f]
        have ai: "active_ids ?r = insert k (active_ids rel)"
          using un by (intro active_ids_fill [OF ok(2) g(2,3)]) (simp_all add: f)
        have "buf_ok cap ib'"
          unfolding buf_ok_def by (intro exI conjI, rule 2(2)) (use ok(1) 2(3) in \<open>simp add: bufs_ok_def\<close>)
        then have bk: "bufs_ok cap ?r" using ok by (auto simp: bufs_ok_def w f)
        have dk: "d \<le> k" using ns by (simp add: stored_def)
        have other: "unat (e_packet_id (entry rel j)) \<noteq> k" if "j < rl_size rel" "e_active (entry rel j)" for j
          using ns that by (auto simp: stored_def active_ids_def)
        have dis: "\<forall>a < rl_size ?r. \<forall>c < rl_size ?r. e_active (entry ?r a) \<longrightarrow> e_active (entry ?r c) \<longrightarrow>
            e_packet_id (entry ?r a) = e_packet_id (entry ?r c) \<longrightarrow> a = c"
        proof (intro allI impI)
          fix a c
          assume ac: "a < rl_size ?r" "c < rl_size ?r" "e_active (entry ?r a)" "e_active (entry ?r c)"
            "e_packet_id (entry ?r a) = e_packet_id (entry ?r c)"
          have r: "entry ?r x = (if x = i then f (entry rel i) else entry rel x)" for x by (rule w(7))
          consider "a = i" "c = i" | "a = i" "c \<noteq> i" | "a \<noteq> i" "c = i" | "a \<noteq> i" "c \<noteq> i" by blast
          then show "a = c"
          proof cases
            case 2
            then have "unat (e_packet_id (entry rel c)) = k" using ac(5) un by (simp add: r f)
            then show ?thesis using other [of c] ac(2,4) 2 w(1) by (simp add: r)
          next
            case 3
            then have "unat (e_packet_id (entry rel a)) = k" using ac(5) un by (simp add: r f)
            then show ?thesis using other [of a] ac(1,3) 3 w(1) by (simp add: r)
          next
            case 4
            then have "e_packet_id (entry rel a) = e_packet_id (entry rel c)" "e_active (entry rel a)" "e_active (entry rel c)"
              "a < rl_size rel" "c < rl_size rel"
              using ac w(1) by (simp_all only: r if_False)
            with inv show ?thesis unfolding rcv_inv_def by blast
          qed simp
        qed
        have ct2: "buf_content ib' = snd (sent ! k)" using buf_rep_simps(1) [OF 2(2)] .
        have act: "d \<le> unat (e_packet_id (entry ?r j)) \<and> unat (e_packet_id (entry ?r j)) < length sent \<and>
            unat (e_packet_id (entry ?r j)) < d + rl_size ?r \<and>
            (e_opcode (entry ?r j), buf_content (e_buf (entry ?r j))) = sent ! unat (e_packet_id (entry ?r j))"
          if "j < rl_size ?r" "e_active (entry ?r j)" for j
        proof (cases "j = i")
          case True
          then show ?thesis using dk k kw un op ct2 by (simp add: w f)
        next
          case False
          then have e: "entry ?r j = entry rel j" "rl_size ?r = rl_size rel" by (simp_all add: w)
          then show ?thesis using that inv unfolding e rcv_inv_def by blast
        qed
        have "rl_packet_id ?r = word_of_nat d" using inv w(2) by (simp add: rcv_inv_def)
        then have "rcv_inv cap sent d ?r"
          unfolding rcv_inv_def using bk dis act ok(3,4) by blast
        moreover have "ack_wf ?a \<and> (\<forall>p \<in> set (acks ?a). stored d ?r (unat p))"
          using ack acknowledge_view [OF ack(1), of ?pid] un ai
          by (cases "reliable_ack_acknowledge_packet_id ack ?pid") (auto simp: stored_def split: if_splits)
        ultimately show ?thesis using st ai w(1) by blast
      qed
    qed
  qed
qed

lemma deliver_next_inv:
  assumes inv: "rcv_inv cap sent d rel" and run: "deliver_next rel = Some (m, rel')"
  shows "d < length sent \<and> m = sent ! d \<and> rcv_inv cap sent (Suc d) rel' \<and>
    (\<forall>k. stored d rel k \<longrightarrow> stored (Suc d) rel' k) \<and> rl_size rel' = rl_size rel"
proof -
  have wf: "rel_wf rel" "bufs_ok cap rel" using inv by (auto simp: rcv_inv_def bufs_ok_def)
  obtain i where i: "reliable_get_entry_sequenced rel = Some i"
    "m = (e_opcode (entry rel i), buf_content (e_buf (entry rel i)))" "reliable_mark_deleted rel i = Some rel'"
    using run by (auto simp: deliver_next_def bind_eq_Some_conv split: option.splits)
  then have e: "i < rl_size rel" "e_active (entry rel i)" "e_packet_id (entry rel i) = rl_packet_id rel"
    using first_entry_Some unfolding reliable_get_entry_sequenced_def by blast+
  have ui: "unat (e_packet_id (entry rel i)) = d" using e(3) rcv_unat [OF inv] by simp
  let ?q = "rel\<lparr>rl_packet_id := e_packet_id (entry rel i) + 1\<rparr>"
  have q: "rel_wf ?q" "i < rl_size ?q" using wf(1) e(1) by (simp_all add: rel_wf_def)
  have r': "rel' = upd_entry i (e_active_update (\<lambda>_. False)) ?q"
    using i(3) by (simp add: reliable_mark_deleted_def bind_eq_Some_conv)
  note v = upd_entry_view [OF q, of "e_active_update (\<lambda>_. False)", folded r']
  have pid: "rl_packet_id rel' = word_of_nat (Suc d)"
    using v e(3) inv by (simp add: rcv_inv_def)
  have m: "d < length sent" "m = sent ! d"
    using inv e ui i(2) unfolding rcv_inv_def by metis+
  have other: "d < unat (e_packet_id (entry rel j))" if "j < rl_size rel" "e_active (entry rel j)" "j \<noteq> i" for j
  proof -
    have "d \<le> unat (e_packet_id (entry rel j))" using inv that unfolding rcv_inv_def by blast
    moreover have "unat (e_packet_id (entry rel j)) \<noteq> d"
    proof
      assume "unat (e_packet_id (entry rel j)) = d"
      then have "e_packet_id (entry rel j) = e_packet_id (entry rel i)" using ui by (simp add: word_unat_eq_iff)
      then show False using inv that e unfolding rcv_inv_def by blast
    qed
    ultimately show ?thesis by simp
  qed
  have ent: "entry rel' j = entry rel j" "j < rl_size rel" "e_active (entry rel j)" "j \<noteq> i"
    if "j < rl_size rel'" "e_active (entry rel' j)" for j
    using that v by (auto split: if_splits)
  have "bufs_ok cap rel'" using wf v by (auto simp: bufs_ok_def)
  moreover have "\<forall>j < rl_size rel'. e_active (entry rel' j) \<longrightarrow>
        Suc d \<le> unat (e_packet_id (entry rel' j)) \<and> unat (e_packet_id (entry rel' j)) < length sent \<and>
        unat (e_packet_id (entry rel' j)) < Suc d + rl_size rel' \<and>
        (e_opcode (entry rel' j), buf_content (e_buf (entry rel' j))) = sent ! unat (e_packet_id (entry rel' j))"
  proof (intro allI impI)
    fix j
    assume j: "j < rl_size rel'" "e_active (entry rel' j)"
    note ej = ent [OF j]
    have "unat (e_packet_id (entry rel j)) < length sent \<and> unat (e_packet_id (entry rel j)) < d + rl_size rel \<and>
        (e_opcode (entry rel j), buf_content (e_buf (entry rel j))) = sent ! unat (e_packet_id (entry rel j))"
      using inv ej(2,3) unfolding rcv_inv_def by blast
    then show "Suc d \<le> unat (e_packet_id (entry rel' j)) \<and> unat (e_packet_id (entry rel' j)) < length sent \<and>
        unat (e_packet_id (entry rel' j)) < Suc d + rl_size rel' \<and>
        (e_opcode (entry rel' j), buf_content (e_buf (entry rel' j))) = sent ! unat (e_packet_id (entry rel' j))"
      using other [OF ej(2-4)] v(1) by (simp add: ej(1))
  qed
  moreover have "\<forall>a < rl_size rel'. \<forall>c < rl_size rel'. e_active (entry rel' a) \<longrightarrow> e_active (entry rel' c) \<longrightarrow>
        e_packet_id (entry rel' a) = e_packet_id (entry rel' c) \<longrightarrow> a = c"
    using inv ent unfolding rcv_inv_def by metis
  ultimately have "rcv_inv cap sent (Suc d) rel'"
    using inv m(1) pid unfolding rcv_inv_def by auto
  moreover have "stored (Suc d) rel' k" if st: "stored d rel k" for k
  proof (cases "k < Suc d")
    case False
    then obtain j where j: "j < rl_size rel" "e_active (entry rel j)" "unat (e_packet_id (entry rel j)) = k"
      using st by (auto simp: stored_def active_ids_def)
    then have "j \<noteq> i" using False ui by auto
    then have "entry rel' j = entry rel j" using v by simp
    then show ?thesis using j v(1) by (auto simp: stored_def active_ids_def)
  qed (simp add: stored_def)
  ultimately show ?thesis using m v(1) by simp
qed

section \<open>The invariant of the link\<close>

definition link_inv :: "int \<Rightarrow> int \<Rightarrow> session_id \<Rightarrow> link \<Rightarrow> bool" where
  "link_inv scap rcap sid s \<longleftrightarrow>
     snd_inv scap (l_sent s) (l_snd s) \<and>
     rcv_inv rcap (l_sent s) (length (l_dlv s)) (l_rcv s) \<and>
     l_dlv s = take (length (l_dlv s)) (l_sent s) \<and>
     (\<forall>m \<in> l_net s. \<exists>k < length (l_sent s). m = (fst (l_sent s ! k), be32 (word_of_nat k) @ snd (l_sent s ! k))) \<and>
     ack_wf (l_ack s) \<and> ack_wf (l_mru s) \<and>
     (\<forall>p \<in> set (acks (l_ack s)) \<union> set (acks (l_mru s)). stored (length (l_dlv s)) (l_rcv s) (unat p)) \<and>
     (\<forall>bs \<in> l_acknet s. \<exists>pids. length pids \<le> RELIABLE_ACK_SIZE \<and> bs = ack_record pids sid \<and>
        (\<forall>p \<in> set pids. stored (length (l_dlv s)) (l_rcv s) (unat p))) \<and>
     (\<forall>k < length (l_sent s). k \<in> active_ids (l_snd s) \<or> stored (length (l_dlv s)) (l_rcv s) k)"

lemma link_inv_rcv:
  assumes inv: "link_inv scap rcap sid s" and r: "rcv_inv rcap (l_sent s) (length dlv') rcv'"
    and pre: "dlv' = take (length dlv') (l_sent s)"
    and mono: "\<And>j. stored (length (l_dlv s)) (l_rcv s) j \<Longrightarrow> stored (length dlv') rcv' j"
    and ack: "ack_wf ack'" "\<forall>p \<in> set (acks ack'). stored (length dlv') rcv' (unat p)"
  shows "link_inv scap rcap sid (s\<lparr>l_rcv := rcv', l_ack := ack', l_dlv := dlv'\<rparr>)"
proof -
  have net: "\<exists>pids. length pids \<le> RELIABLE_ACK_SIZE \<and> bs = ack_record pids sid \<and>
        (\<forall>p \<in> set pids. stored (length dlv') rcv' (unat p))" if bs: "bs \<in> l_acknet s" for bs
  proof -
    obtain pids where "length pids \<le> RELIABLE_ACK_SIZE" "bs = ack_record pids sid"
      "\<forall>p \<in> set pids. stored (length (l_dlv s)) (l_rcv s) (unat p)"
      using inv bs unfolding link_inv_def by blast
    with mono show ?thesis by blast
  qed
  have all: "k \<in> active_ids (l_snd s) \<or> stored (length dlv') rcv' k" if k: "k < length (l_sent s)" for k
    using inv k mono unfolding link_inv_def by blast
  have mru: "stored (length dlv') rcv' (unat p)" if p: "p \<in> set (acks (l_mru s))" for p
    using inv p mono unfolding link_inv_def by blast
  show ?thesis using inv r pre ack net all mru by (simp add: link_inv_def ball_Un)
qed

lemma link_step_inv:
  assumes "link_inv scap rcap sid s" "link_step sid s s'" "length sid = SID_SIZE" "session_id_defined sid"
    and "scap = cap_of (l_snd s)"
  shows "link_inv scap rcap sid s'"
  using assms(2)
proof cases
  case (queue tmp h x rest r op snd' tmp')
  have inv: "snd_inv scap (l_sent s) (l_snd s)" using assms(1) by (simp add: link_inv_def)
  note ch = send_chunk_inv [OF inv queue(2) queue(3) [folded assms(5)] queue(4) queue(6,7)]
  have "rcv_inv rcap (l_sent s @ [(op, x)]) (length (l_dlv s)) (l_rcv s)"
    using assms(1) queue(6) by (simp add: link_inv_def rcv_inv_sent)
  moreover have "\<exists>k < length (l_sent s @ [(op, x)]). m = (fst ((l_sent s @ [(op, x)]) ! k),
      be32 (word_of_nat k) @ snd ((l_sent s @ [(op, x)]) ! k))" if m: "m \<in> l_net s" for m
  proof -
    obtain k where "k < length (l_sent s)" "m = (fst (l_sent s ! k), be32 (word_of_nat k) @ snd (l_sent s ! k))"
      using assms(1) m unfolding link_inv_def by blast
    then show ?thesis by (intro exI [of _ k]) (simp add: nth_append)
  qed
  moreover have "l_dlv s = take (length (l_dlv s)) (l_sent s @ [(op, x)])"
  proof -
    have "l_dlv s = take (length (l_dlv s)) (l_sent s)" "length (l_dlv s) \<le> length (l_sent s)"
      using assms(1) by (auto simp: link_inv_def rcv_inv_def)
    then show ?thesis by simp
  qed
  ultimately show ?thesis using assms(1) ch(1,2) unfolding queue(1) link_inv_def
    by (simp add: less_Suc_eq)
next
  case (transmit now i op snd')
  have inv: "snd_inv scap (l_sent s) (l_snd s)" using assms(1) by (simp add: link_inv_def)
  then have wf: "rel_wf (l_snd s)" by (simp add: snd_inv_def bufs_ok_def)
  note q = send_quiet [OF wf transmit(2)]
  let ?k = "unat (e_packet_id (entry (l_snd s) i))"
  have k: "?k < length (l_sent s)" "op = fst (l_sent s ! ?k)"
    "buf_content (e_buf (entry (l_snd s) i)) = be32 (e_packet_id (entry (l_snd s) i)) @ snd (l_sent s ! ?k)"
    using inv q(3-5) by (auto simp: snd_inv_def)
  have "(op, buf_content (e_buf (entry snd' i))) = (fst (l_sent s ! ?k), be32 (word_of_nat ?k) @ snd (l_sent s ! ?k))"
    using k q(6) by simp
  with k(1) have "\<exists>k < length (l_sent s). (op, buf_content (e_buf (entry snd' i))) =
      (fst (l_sent s ! k), be32 (word_of_nat k) @ snd (l_sent s ! k))" by blast
  then show ?thesis using assms(1) snd_inv_quiet [OF inv q(1)] q(2) unfolding transmit(1) link_inv_def by auto
next
  case (schedule now)
  have inv: "snd_inv scap (l_sent s) (l_snd s)" using assms(1) by (simp add: link_inv_def)
  then have wf: "rel_wf (l_snd s)" by (simp add: snd_inv_def bufs_ok_def)
  note q = schedule_quiet [OF wf, of now]
  show ?thesis using assms(1) snd_inv_quiet [OF inv q(1)] q(2) unfolding schedule link_inv_def by simp
next
  case (receive op bs b h r ok rcv' ack')
  obtain k where k: "k < length (l_sent s)" "op = fst (l_sent s ! k)"
    "bs = be32 (word_of_nat k) @ snd (l_sent s ! k)"
    using assms(1) receive(2) unfolding link_inv_def by blast
  have inv: "rcv_inv rcap (l_sent s) (length (l_dlv s)) (l_rcv s)" "ack_wf (l_ack s)"
    "\<forall>p \<in> set (acks (l_ack s)). stored (length (l_dlv s)) (l_rcv s) (unat p)"
    using assms(1) by (auto simp: link_inv_def)
  from store_packet_inv [OF inv(1) k(1) receive(3) [unfolded k(3)] k(2) inv(2,3)] receive(4)
  have r: "rcv_inv rcap (l_sent s) (length (l_dlv s)) rcv'" "ack_wf ack'"
    "\<forall>p \<in> set (acks ack'). stored (length (l_dlv s)) rcv' (unat p)" "active_ids (l_rcv s) \<subseteq> active_ids rcv'"
    by auto
  have mono: "stored (length (l_dlv s)) rcv' j" if "stored (length (l_dlv s)) (l_rcv s) j" for j
    using that r(4) by (auto simp: stored_def)
  have pre: "l_dlv s = take (length (l_dlv s)) (l_sent s)" using assms(1) by (simp add: link_inv_def)
  from link_inv_rcv [OF assms(1) r(1) pre mono r(2,3)] show ?thesis unfolding receive(1) by simp
next
  case (deliver m rcv')
  have inv: "rcv_inv rcap (l_sent s) (length (l_dlv s)) (l_rcv s)" using assms(1) by (simp add: link_inv_def)
  note d = deliver_next_inv [OF inv deliver(2)]
  then have mono: "stored (Suc (length (l_dlv s))) rcv' j" if "stored (length (l_dlv s)) (l_rcv s) j" for j
    using that by blast
  have pre: "l_dlv s @ [m] = take (length (l_dlv s @ [m])) (l_sent s)"
    using d assms(1) by (auto simp: link_inv_def take_Suc_conv_app_nth)
  have "ack_wf (l_ack s)" "\<forall>p \<in> set (acks (l_ack s)). stored (length (l_dlv s @ [m])) rcv' (unat p)"
    using assms(1) mono unfolding link_inv_def by auto
  from link_inv_rcv [OF assms(1) _ pre _ this] d mono show ?thesis unfolding deliver(1) by simp
next
  case (send_ack b h r maxn ok ack' mru' b')
  have inv: "ack_wf (l_ack s)" "ack_wf (l_mru s)"
    "\<forall>p \<in> set (acks (l_ack s)) \<union> set (acks (l_mru s)). stored (length (l_dlv s)) (l_rcv s) (unat p)"
    using assms(1) unfolding link_inv_def by blast+
  define n where "n = min (ak_len (l_ack s)) maxn"
  define m where "m = foldr mtf (take n (acks (l_ack s))) (acks (l_mru s))"
  define pids where "pids = take (min maxn (length m)) m"
  have lm: "length m \<le> 8"
  proof -
    have "length (foldr mtf ns ms) \<le> 8" if "length ms \<le> 8" for ns ms :: "u32 list"
      using that mtf_set(2) by (cases ns) auto
    then show ?thesis using length_acks [OF inv(2)] inv(2) by (auto simp: m_def ack_wf_def RELIABLE_ACK_SIZE_def)
  qed
  then have lp: "length pids \<le> RELIABLE_ACK_SIZE" by (simp add: pids_def RELIABLE_ACK_SIZE_def)
  have fit: "ACK_SIZE (length pids) \<le> (if False then h else r)"
    using send_ack(3) lp by (auto simp: ACK_SIZE_def RELIABLE_ACK_SIZE_def SID_SIZE_def split: if_splits)
  from reliable_ack_write_rep [OF inv(1,2) send_ack(2) assms(3,4) n_def m_def pids_def fit] send_ack(4)
  have w: "ack_wf ack'" "acks ack' = drop n (acks (l_ack s))" "ack_wf mru'" "acks mru' = m"
    "buf_rep b' h ([] @ ack_record pids sid) (r - ACK_SIZE (length pids))" by auto
  have sm: "set m \<subseteq> set (acks (l_ack s)) \<union> set (acks (l_mru s))"
    using foldr_mtf_set [of "take n (acks (l_ack s))" "acks (l_mru s)"] set_take_subset unfolding m_def by fastforce
  have "set pids \<subseteq> set m" by (simp add: pids_def set_take_subset)
  with sm inv(3) have st: "\<forall>p \<in> set pids. stored (length (l_dlv s)) (l_rcv s) (unat p)" by blast
  have ct: "buf_content b' = ack_record pids sid" using buf_rep_simps(1) [OF w(5)] by simp
  have "\<forall>p \<in> set (acks ack') \<union> set (acks mru'). stored (length (l_dlv s)) (l_rcv s) (unat p)"
    using inv(3) sm set_drop_subset unfolding w(2,4) by fastforce
  moreover have "\<exists>pids. length pids \<le> RELIABLE_ACK_SIZE \<and> buf_content b' = ack_record pids sid \<and>
        (\<forall>p \<in> set pids. stored (length (l_dlv s)) (l_rcv s) (unat p))"
    using ct st lp by blast
  ultimately show ?thesis unfolding send_ack(1)
    using assms(1) w(1,3) by (simp add: link_inv_def ball_Un)
next
  case (receive_ack bs b h r junk junk_sid ack b')
  obtain pids where p: "length pids \<le> RELIABLE_ACK_SIZE" "bs = ack_record pids sid"
    "\<forall>p \<in> set pids. stored (length (l_dlv s)) (l_rcv s) (unat p)"
    using assms(1) receive_ack(2) unfolding link_inv_def by blast
  have rep: "buf_rep b h (ack_record pids sid @ []) r" using receive_ack(3) p(2) by simp
  obtain a d' where "reliable_ack_parse b junk junk_sid = (True, a, (if pids \<noteq> [] then sid else junk_sid), d')"
    "acks a = pids"
    using reliable_ack_parse_rep [OF rep p(1) assms(3), of junk junk_sid] receive_ack(4) by (auto simp: ack_wf_def)
  then have a: "acks ack = pids"
    using receive_ack(5) by (auto simp: reliable_ack_read_def split: if_splits)
  have inv: "snd_inv scap (l_sent s) (l_snd s)" using assms(1) by (simp add: link_inv_def)
  then have wf: "rel_wf (l_snd s)" by (simp add: snd_inv_def bufs_ok_def)
  note q = send_purge_quiet [OF wf, of ack]
  have "k \<in> active_ids (reliable_send_purge (l_snd s) ack) \<or> stored (length (l_dlv s)) (l_rcv s) k"
    if "k < length (l_sent s)" for k
    using assms(1) that p(3) unfolding q(2) a link_inv_def by auto
  then show ?thesis unfolding receive_ack(1) link_inv_def
    using assms(1) snd_inv_quiet [OF inv q(1)] unfolding link_inv_def by simp
qed

end
