(* ===== verification/ReliableSend.thy ===== *)
theory ReliableSend
  imports ReliableLink
begin

text \<open>
  \<open>write_outgoing_tls_ciphertext\<close> of ssl.c: the ciphertext the TLS object has ready is cut
  into control packets. The code asks for the number of packets the reliability layer can
  take, sizes its buffer accordingly, and then asserts a free packet in every round of its
  loop; here the two are connected.
\<close>

definition P_CONTROL_V1 :: int where "P_CONTROL_V1 = 4"
definition P_CONTROL_WKC_V1 :: int where "P_CONTROL_WKC_V1 = 11"
definition TLS_CHANNEL_BUF_SIZE :: int where "TLS_CHANNEL_BUF_SIZE = 2048"

definition control_packet_needs_wkc :: "bool \<Rightarrow> reliable \<Rightarrow> bool" where
  "control_packet_needs_wkc resend_wkc tx \<longleftrightarrow> resend_wkc \<and> rl_packet_id tx = 1"

text \<open>The loop over the ciphertext in \<open>tmp\<close>; \<open>wkc\<close> is the length of the wrapped client key.
  It has no counter of its own, so it is a partial function: \<open>None\<close> is a failed assertion
  or a loop that does not end.\<close>

partial_function (option) write_loop ::
  "bool \<Rightarrow> int \<Rightarrow> int \<Rightarrow> reliable \<Rightarrow> buffer \<Rightarrow> (reliable \<times> buffer) option" where
  "write_loop resend_wkc max_pkt_len wkc tx tmp =
     (if b_len tmp > 0 then
        (let needs = control_packet_needs_wkc resend_wkc tx;
             opcode = (if needs then P_CONTROL_WKC_V1 else P_CONTROL_V1);
             len = (if needs then max_int 0 (max_pkt_len - wkc) else max_pkt_len);
             len = min_int len (b_len tmp) in
         Option.bind (send_chunk tx opcode tmp len)
           (\<lambda>(tx, tmp). write_loop resend_wkc max_pkt_len wkc tx tmp))
      else Some (tx, tmp))"

text \<open>\<open>read_ciphertext\<close> is the TLS library's \<open>key_state_read_ciphertext\<close>: a status, the
  buffer it has filled and the new state of the TLS object. \<open>overhead\<close> is
  \<open>calc_control_channel_frame_overhead\<close>. The results are the one of the code, the new value of
  \<open>continue_tls_process\<close> where it is set, the TLS object and the sender.\<close>

definition write_outgoing_tls_ciphertext ::
  "(buffer \<Rightarrow> (int \<times> buffer \<times> 't) option) \<Rightarrow> 't \<Rightarrow> bool \<Rightarrow> int \<Rightarrow> int \<Rightarrow> int \<Rightarrow> reliable \<Rightarrow> (bool \<times> bool \<times> 't \<times> reliable) option" where
  "write_outgoing_tls_ciphertext read_ciphertext tls resend_wkc wkc tun_mtu overhead tx =
     (let rel_avail = reliable_get_num_output_sequenced_available tx in
      if rel_avail = 0 then Some (True, False, tls, tx)
      else do {
        let max_pkt_len = min_int TLS_CHANNEL_BUF_SIZE tun_mtu - overhead;
        let maxlen = max_pkt_len * rel_avail;
        let maxlen = (if control_packet_needs_wkc resend_wkc tx then maxlen - wkc else maxlen);
        let (maxlen, max_pkt_len) = (if maxlen < 16 then (16, TLS_CHANNEL_BUF_SIZE) else (maxlen, max_pkt_len));
        tmp \<leftarrow> alloc_buf maxlen;
        (status, tmp, tls) \<leftarrow> read_ciphertext tmp;
        if status = - 1 then Some (False, False, tls, tx)
        else if status = 1 then do {
          let more = (b_len tmp > 0);
          (tx, _) \<leftarrow> write_loop resend_wkc max_pkt_len wkc tx tmp;
          Some (True, more, tls, tx) }
        else Some (True, False, tls, tx) })"

section \<open>How many packets fit\<close>

text \<open>The sender's window: distinct ids, none more than \<open>size\<close> behind the counter.\<close>

definition snd_win :: "nat \<Rightarrow> reliable \<Rightarrow> bool" where
  "snd_win n rel \<longleftrightarrow> (\<forall>k \<in> active_ids rel. k < n \<and> n \<le> k + rl_size rel) \<and>
     (\<forall>i < rl_size rel. \<forall>j < rl_size rel. e_active (entry rel i) \<longrightarrow> e_active (entry rel j) \<longrightarrow>
        e_packet_id (entry rel i) = e_packet_id (entry rel j) \<longrightarrow> i = j)"

definition lowest :: "nat \<Rightarrow> reliable \<Rightarrow> nat" where
  "lowest n rel = (if active_ids rel = {} then n else Min (active_ids rel))"

lemma finite_active_ids [simp]: "finite (active_ids rel)"
proof -
  have "active_ids rel \<subseteq> (\<lambda>i. unat (e_packet_id (entry rel i))) ` {..<rl_size rel}"
    by (auto simp: active_ids_def)
  then show ?thesis by (rule finite_subset) simp
qed

lemma best_active_lowest:
  assumes inv: "snd_inv cap sent rel"
  shows "case best_entry e_active rel of
      None \<Rightarrow> active_ids rel = {}
    | Some i \<Rightarrow> active_ids rel \<noteq> {} \<and> unat (e_packet_id (entry rel i)) = Min (active_ids rel)"
proof (cases "best_entry e_active rel")
  case None
  then show ?thesis using best_entry_None [of e_active rel] by (auto simp: active_ids_def)
next
  case (Some i)
  note i = best_entry_Some [OF Some]
  have w: "unat (e_packet_id (entry rel j) - 0) < 2 ^ 31" if "j < rl_size rel" "e_active (entry rel j)" for j
    using inv that by (fastforce simp: snd_inv_def)
  have "Min (active_ids rel) = unat (e_packet_id (entry rel i))"
  proof (rule Min_eqI)
    show "unat (e_packet_id (entry rel i)) \<in> active_ids rel" using i by (auto simp: active_ids_def)
    fix k
    assume "k \<in> active_ids rel"
    then obtain j where "j < rl_size rel" "e_active (entry rel j)" "unat (e_packet_id (entry rel j)) = k"
      by (auto simp: active_ids_def)
    with best_entry_min [OF Some _ _ w, of j] show "unat (e_packet_id (entry rel i)) \<le> k" by simp
  qed simp
  then show ?thesis using Some i by (auto simp: active_ids_def)
qed

lemma lowest_bounds:
  assumes "snd_win n rel"
  shows "lowest n rel \<le> n" "n \<le> lowest n rel + rl_size rel"
proof -
  have "Min (active_ids rel) \<in> active_ids rel" if "active_ids rel \<noteq> {}" using that by simp
  then show "lowest n rel \<le> n" "n \<le> lowest n rel + rl_size rel"
    using assms by (auto simp: lowest_def snd_win_def less_imp_le)
qed

lemma num_available:
  assumes inv: "snd_inv cap sent rel" and win: "snd_win (length sent) rel"
  shows "reliable_get_num_output_sequenced_available rel =
    int (rl_size rel) - int (length sent - lowest (length sent) rel)"
proof (cases "best_entry e_active rel")
  case None
  then show ?thesis using best_active_lowest [OF inv]
    by (simp add: reliable_get_num_output_sequenced_available_def lowest_def)
next
  case (Some i)
  then have m: "unat (e_packet_id (entry rel i)) = lowest (length sent) rel"
    using best_active_lowest [OF inv] by (simp add: lowest_def)
  note lb = lowest_bounds [OF win]
  have wf: "rel_wf rel" "length sent < 2 ^ 31" "rl_packet_id rel = word_of_nat (length sent)"
    using inv by (auto simp: snd_inv_def bufs_ok_def)
  let ?s = "word_of_nat (rl_size rel) :: u32" and ?d = "subtract_pid (rl_packet_id rel) (e_packet_id (entry rel i))"
  have "unat (rl_packet_id rel) = length sent" using wf by (simp add: unat_of_nat32)
  then have d: "unat ?d = length sent - lowest (length sent) rel"
    using lb m by (simp add: subtract_pid_def unat_sub_if')
  have s: "unat ?s = rl_size rel" "rl_size rel \<le> 12"
    using size_small [OF wf(1)] wf(1) by (auto simp: rel_wf_def RELIABLE_CAPACITY_def)
  have u: "unat (?s - ?d) = rl_size rel - (length sent - lowest (length sent) rel)"
    using s d lb by (simp add: unat_sub_if')
  then have "sint (?s - ?d) = int (unat (?s - ?d))" using s by (intro sint_eq_unat) simp
  then show ?thesis using Some u lb
    by (simp add: reliable_get_num_output_sequenced_available_def of_nat_diff)
qed

text \<open>Where the count is positive, a free packet is handed out.\<close>

lemma output_available:
  assumes inv: "snd_inv cap sent rel" and win: "snd_win (length sent) rel"
    and room: "length sent - lowest (length sent) rel < rl_size rel"
  shows "\<exists>i rel'. reliable_get_buf_output_sequenced rel = Some (Some i, rel')"
proof -
  have wf: "rel_wf rel" "bufs_ok cap rel" "length sent < 2 ^ 31" "rl_packet_id rel = word_of_nat (length sent)"
    using inv by (auto simp: snd_inv_def bufs_ok_def)
  have "\<exists>i < rl_size rel. \<not> e_active (entry rel i)"
  proof (rule ccontr)
    assume "\<not> ?thesis"
    then have all: "\<And>i. i < rl_size rel \<Longrightarrow> e_active (entry rel i)" by blast
    let ?f = "\<lambda>i. unat (e_packet_id (entry rel i))"
    have "inj_on ?f {..<rl_size rel}"
      using win all unfolding snd_win_def inj_on_def by (auto simp: word_unat_eq_iff)
    moreover have "?f ` {..<rl_size rel} \<subseteq> {lowest (length sent) rel..<length sent}"
    proof
      fix k
      assume "k \<in> ?f ` {..<rl_size rel}"
      then have k: "k \<in> active_ids rel" using all by (auto simp: active_ids_def)
      then have "Min (active_ids rel) \<le> k" by (intro Min_le) auto
      with k win show "k \<in> {lowest (length sent) rel..<length sent}"
        by (auto simp: lowest_def snd_win_def)
    qed
    ultimately have "card {..<rl_size rel} \<le> card {lowest (length sent) rel..<length sent}"
      by (rule card_inj_on_le) simp
    with room show False by simp
  qed
  then obtain i b where g: "reliable_get_buf rel = Some (Some i, set_buf i b rel)"
    using get_buf_ok [OF wf(2)] by auto
  have "reliable_pid_in_range1 (rl_packet_id rel) (e_packet_id (entry rel j)) (word_of_nat (rl_size rel))"
    if j: "best_entry e_active rel = Some j" for j
  proof -
    have m: "unat (e_packet_id (entry rel j)) = lowest (length sent) rel"
      using best_active_lowest [OF inv] j by (simp add: lowest_def)
    have "unat (rl_packet_id rel) = length sent" using wf by (simp add: unat_of_nat32)
    then show ?thesis using in_range1_nat [of "e_packet_id (entry rel j)" "rl_packet_id rel"] m
      lowest_bounds [OF win] room size_small [OF wf(1)] by simp
  qed
  with g show ?thesis
    by (auto simp: reliable_get_buf_output_sequenced_def split: option.splits)
qed

text \<open>Storing a chunk succeeds, and takes one from the count.\<close>

lemma prepend_ok:
  assumes "buf_rep b h c r" "length bs \<le> h"
  obtains b' where "buf_write_prepend b bs = (True, b')"
  using bd.prependE [OF assms] by metis

lemma send_chunk_ok:
  assumes inv: "snd_inv cap sent rel" and win: "snd_win (length sent) rel"
    and room: "length sent - lowest (length sent) rel < rl_size rel"
    and tmp: "buf_rep tmp th (x @ rest) tr"
    and fits: "4 \<le> rl_offset rel" "rl_offset rel + int (length x) \<le> cap" "int (length x) < BUF_SIZE_MAX"
    and n: "length sent + 1 < 2 ^ 31"
  shows "\<exists>rel' tmp'. send_chunk rel op tmp (int (length x)) = Some (rel', tmp') \<and>
    snd_win (Suc (length sent)) rel' \<and>
    Suc (length sent) - lowest (Suc (length sent)) rel' = Suc (length sent - lowest (length sent) rel)"
proof -
  have ok: "bufs_ok cap rel" "rel_wf rel" "rl_packet_id rel = word_of_nat (length sent)" "length sent < 2 ^ 31"
    using inv by (auto simp: snd_inv_def bufs_ok_def)
  obtain i rel1 where g: "reliable_get_buf_output_sequenced rel = Some (Some i, rel1)"
    using output_available [OF inv win room] by blast
  then have "reliable_get_buf rel = Some (Some i, rel1)" by (rule get_buf_output_cases)
  then obtain b where b: "rel1 = set_buf i b rel" "i < rl_size rel" "\<not> e_active (entry rel i)"
    "buf_rep b (nat (rl_offset rel)) [] (nat (cap - rl_offset rel))"
    using get_buf_ok [OF ok(1)] by auto
  note v1 = upd_entry_view [OF ok(2) b(2), of "e_buf_update (\<lambda>_. b)", folded b(1)]
  obtain tmp1 where t1: "buf_read tmp (int (length x)) = (Some x, tmp1)"
    using bd.consumeE [OF tmp, of "length x"] by auto
  have "length x \<le> nat (cap - rl_offset rel)" using fits by linarith
  then obtain b1 where b1: "buf_write b x = (True, b1)"
    "buf_rep b1 (nat (rl_offset rel)) ([] @ x) (nat (cap - rl_offset rel) - length x)"
    using bd.appendE [OF b(4) _ fits(3)] by metis
  have cp: "buf_copy_n b tmp (int (length x)) = (True, b1, tmp1)"
    using t1 b1(1) by (auto simp: buf_copy_n_def buf_read_def split: prod.splits option.splits)
  have "length (be32 (rl_packet_id rel)) \<le> nat (rl_offset rel)" using fits(1) by simp
  then obtain b2 where b2: "buf_write_prepend b1 (be32 (rl_packet_id rel)) = (True, b2)"
    by (rule prepend_ok [OF b1(2)])
  have v: "rel_wf rel1" "i < rl_size rel1" using v1(1,4) b(2) by simp_all
  note v2 = upd_entry_view [OF v, of "e_buf_update (\<lambda>_. b1)"]
  have "reliable_mark_active_outgoing (set_buf i b1 rel1) i op \<noteq> None"
    using v2 v v1 b2 by (simp add: reliable_mark_active_outgoing_def Let_def)
  then obtain rel' where mk: "reliable_mark_active_outgoing (set_buf i b1 rel1) i op = Some rel'" by blast
  have run: "send_chunk rel op tmp (int (length x)) = Some (rel', tmp1)"
    using g mk cp v1(7) by (simp add: send_chunk_def)
  note ch = send_chunk_inv [OF inv tmp fits(2,3) n run]
  have ids: "active_ids rel' = insert (length sent) (active_ids rel)" by (rule ch(2))
  note lb = lowest_bounds [OF win]
  have low: "lowest (Suc (length sent)) rel' = lowest (length sent) rel"
  proof (cases "active_ids rel = {}")
    case True
    then show ?thesis using ids by (simp add: lowest_def)
  next
    case False
    then have "Min (insert (length sent) (active_ids rel)) = min (length sent) (Min (active_ids rel))"
      by (simp add: Min_insert)
    moreover have "Min (active_ids rel) \<le> length sent" using lb(1) False by (simp add: lowest_def)
    ultimately show ?thesis using ids False by (simp add: lowest_def)
  qed
  have other: "e_packet_id (entry rel' j) = e_packet_id (entry rel j) \<and> e_active (entry rel' j) = e_active (entry rel j)"
    if "j \<noteq> i" for j
    using mk that v v1 v2 b2 b(1) ok(2)
    by (auto simp: reliable_mark_active_outgoing_def bind_eq_Some_conv Let_def upd_entry_def rel_wf_def)
  have here: "e_packet_id (entry rel' i) = rl_packet_id rel"
    using mk v v1 v2 b2 b(1,2) ok(2)
    by (auto simp: reliable_mark_active_outgoing_def bind_eq_Some_conv Let_def upd_entry_def rel_wf_def)
  have fresh: "e_packet_id (entry rel j) \<noteq> rl_packet_id rel" if "j < rl_size rel" "e_active (entry rel j)" for j
  proof
    assume "e_packet_id (entry rel j) = rl_packet_id rel"
    then have "length sent \<in> active_ids rel" using that ok(3,4) by (auto simp: active_ids_def unat_of_nat32)
    then show False using win by (auto simp: snd_win_def)
  qed
  have "snd_win (Suc (length sent)) rel'"
    unfolding snd_win_def
  proof (intro conjI ballI allI impI)
    fix k
    assume k: "k \<in> active_ids rel'"
    then show "k < Suc (length sent)" using ids win by (auto simp: snd_win_def less_Suc_eq)
    show "Suc (length sent) \<le> k + rl_size rel'"
    proof (cases "k = length sent")
      case True
      then show ?thesis using ch(5) b(2) by simp
    next
      case False
      then have "k \<in> active_ids rel" using k ids by simp
      then have "lowest (length sent) rel \<le> k" by (auto simp: lowest_def)
      then show ?thesis using room ch(5) lb by simp
    qed
  next
    fix p q
    assume "p < rl_size rel'" "q < rl_size rel'" "e_active (entry rel' p)" "e_active (entry rel' q)"
      "e_packet_id (entry rel' p) = e_packet_id (entry rel' q)"
    then show "p = q"
      using win fresh other here ch(5) unfolding snd_win_def by metis
  qed
  moreover have "Suc (length sent) - lowest (Suc (length sent)) rel' = Suc (length sent - lowest (length sent) rel)"
    using low lb by simp
  ultimately show ?thesis using run by blast
qed

section \<open>The loop never runs out of packets\<close>

definition room :: "nat \<Rightarrow> reliable \<Rightarrow> nat" where
  "room n rel = rl_size rel - (n - lowest n rel)"

lemma write_loop_step:
  assumes inv: "snd_inv cap sent rel" and win: "snd_win (length sent) rel"
    and room: "room (length sent) rel = Suc a"
    and tmp: "buf_rep tmp th c tr" "c \<noteq> []"
    and len: "len = (if control_packet_needs_wkc resend rel then max 0 (L - w) else L)" "0 \<le> len"
    and fits: "4 \<le> rl_offset rel" "rl_offset rel + len \<le> cap" "len < BUF_SIZE_MAX"
    and n: "length sent + 1 < 2 ^ 31"
  shows "\<exists>rel' tmp' op. write_loop resend L w rel tmp = write_loop resend L w rel' tmp' \<and>
    snd_inv cap (sent @ [(op, take (nat len) c)]) rel' \<and> snd_win (length sent + 1) rel' \<and>
    room (length sent + 1) rel' = a \<and> buf_rep tmp' (th + min (nat len) (length c)) (drop (nat len) c) tr \<and>
    rl_offset rel' = rl_offset rel"
proof -
  let ?x = "take (nat len) c" and ?op = "if control_packet_needs_wkc resend rel then P_CONTROL_WKC_V1 else P_CONTROL_V1"
  have lx: "int (length ?x) = min len (int (length c))" using len(2) by simp
  have rep: "buf_rep tmp th (?x @ drop (nat len) c) tr" using tmp(1) by simp
  have bl: "b_len tmp = int (length c)" using buf_rep_simps(3) [OF tmp(1)] .
  have r: "length sent - lowest (length sent) rel < rl_size rel" using room by (simp add: room_def)
  have fx: "rl_offset rel + int (length ?x) \<le> cap" "int (length ?x) < BUF_SIZE_MAX"
    using fits lx by linarith+
  obtain rel' tmp' where run: "send_chunk rel ?op tmp (int (length ?x)) = Some (rel', tmp')"
    "snd_win (Suc (length sent)) rel'"
    "Suc (length sent) - lowest (Suc (length sent)) rel' = Suc (length sent - lowest (length sent) rel)"
    using send_chunk_ok [OF inv win r rep fits(1) fx n, of ?op] by blast
  note ch = send_chunk_inv [OF inv rep fx n run(1)]
  have eq: "write_loop resend L w rel tmp = write_loop resend L w rel' tmp'"
  proof -
    have run1: "send_chunk rel ?op tmp (min len (int (length c))) = Some (rel', tmp')"
      using run(1) unfolding lx .
    show ?thesis
    proof (cases "control_packet_needs_wkc resend rel")
      case True
      then show ?thesis using tmp(2) run1 len(1) by (subst write_loop.simps) (simp add: bl)
    next
      case False
      then show ?thesis using tmp(2) run1 len(1) by (subst write_loop.simps) (simp add: bl)
    qed
  qed
  have "room (length sent + 1) rel' = a"
    using room run(3) ch(5) by (simp add: room_def)
  moreover have "th + length ?x = th + min (nat len) (length c)" by simp
  ultimately show ?thesis using eq ch run(2) by (metis Suc_eq_plus1)
qed

lemma write_loop_done: "buf_rep tmp th [] tr \<Longrightarrow> write_loop resend L w rel tmp = Some (rel, tmp)"
  by (subst write_loop.simps) (simp add: buf_rep_simps(3))

lemma write_loop_plain:
  assumes "snd_inv cap sent rel" "snd_win (length sent) rel" "room (length sent) rel = a"
    and "buf_rep tmp th c tr" "int (length c) \<le> L * int a" "0 < L"
    and "\<not> resend \<or> 2 \<le> length sent"
    and "4 \<le> rl_offset rel" "rl_offset rel + L \<le> cap" "L < BUF_SIZE_MAX" "length sent + a < 2 ^ 31"
  shows "\<exists>rel' tmp' new. write_loop resend L w rel tmp = Some (rel', tmp') \<and>
    snd_inv cap (sent @ new) rel' \<and> snd_win (length (sent @ new)) rel' \<and> concat (map snd new) = c"
  using assms
proof (induction a arbitrary: sent rel tmp th c)
  case 0
  then have "c = []" by simp
  with 0 show ?case
    by (intro exI [of _ rel] exI [of _ tmp] exI [of _ "[]"]) (simp add: write_loop_done)
next
  case (Suc a)
  show ?case
  proof (cases "c = []")
    case True
    with Suc.prems show ?thesis
      by (intro exI [of _ rel] exI [of _ tmp] exI [of _ "[]"]) (simp add: write_loop_done)
  next
    case False
    have wf: "rel_wf rel" "rl_packet_id rel = word_of_nat (length sent)" "length sent < 2 ^ 31"
      using Suc.prems(1) by (auto simp: snd_inv_def bufs_ok_def)
    have plain: "\<not> control_packet_needs_wkc resend rel"
    proof
      assume n: "control_packet_needs_wkc resend rel"
      then have "unat (rl_packet_id rel) = 1" by (simp add: control_packet_needs_wkc_def)
      then have "length sent = 1" using wf by (simp add: unat_of_nat32)
      then show False using Suc.prems(7) n by (simp add: control_packet_needs_wkc_def)
    qed
    obtain rel1 tmp1 op where s: "write_loop resend L w rel tmp = write_loop resend L w rel1 tmp1"
      "snd_inv cap (sent @ [(op, take (nat L) c)]) rel1" "snd_win (length sent + 1) rel1"
      "room (length sent + 1) rel1 = a"
      "buf_rep tmp1 (th + min (nat L) (length c)) (drop (nat L) c) tr" "rl_offset rel1 = rl_offset rel"
      using write_loop_step [OF Suc.prems(1-4) False _ _ Suc.prems(8,9,10), of resend L w] plain Suc.prems(6,11) by auto
    let ?sent = "sent @ [(op, take (nat L) c)]"
    have left: "int (length (drop (nat L) c)) \<le> L * int a"
    proof -
      have "int (length (drop (nat L) c)) = max 0 (int (length c) - L)" using Suc.prems(6) by simp
      moreover have "L * int (Suc a) = L + L * int a" by (simp add: algebra_simps)
      moreover have "0 \<le> L * int a" using Suc.prems(6) by simp
      ultimately show ?thesis using Suc.prems(5) by linarith
    qed
    obtain rel' tmp' new where "write_loop resend L w rel1 tmp1 = Some (rel', tmp')"
      "snd_inv cap (?sent @ new) rel'" "snd_win (length (?sent @ new)) rel'"
      "concat (map snd new) = drop (nat L) c"
      using Suc.IH [OF s(2) _ _ s(5) left Suc.prems(6)] s Suc.prems(7-11) by auto
    then show ?thesis
      by (intro exI [of _ rel'] exI [of _ tmp'] exI [of _ "(op, take (nat L) c) # new"]) (simp add: s(1))
  qed
qed

lemma write_loop_total:
  assumes "snd_inv cap sent rel" "snd_win (length sent) rel" "room (length sent) rel = a" "0 < a"
    and "buf_rep tmp th c tr" "0 < L" "0 \<le> w"
    and "int (length c) \<le> (if control_packet_needs_wkc resend rel then max 0 (L - w) + L * int (a - 1) else L * int a)"
    and "1 \<le> length sent"
    and "4 \<le> rl_offset rel" "rl_offset rel + L \<le> cap" "L < BUF_SIZE_MAX" "length sent + a < 2 ^ 31"
  shows "\<exists>rel' tmp' new. write_loop resend L w rel tmp = Some (rel', tmp') \<and>
    snd_inv cap (sent @ new) rel' \<and> concat (map snd new) = c"
proof (cases "control_packet_needs_wkc resend rel \<and> c \<noteq> []")
  case False
  have wf: "rl_packet_id rel = word_of_nat (length sent)" "length sent < 2 ^ 31"
    using assms(1) by (auto simp: snd_inv_def bufs_ok_def)
  show ?thesis
  proof (cases "c = []")
    case True
    with assms(1,5) show ?thesis
      by (intro exI [of _ rel] exI [of _ tmp] exI [of _ "[]"]) (simp add: write_loop_done)
  next
    case c: False
    then have nn: "\<not> control_packet_needs_wkc resend rel" using False by simp
    have two: "\<not> resend \<or> 2 \<le> length sent"
    proof (rule ccontr)
      assume "\<not> ?thesis"
      then have "resend" "length sent = 1" using assms(9) by auto
      then show False using nn wf by (simp add: control_packet_needs_wkc_def)
    qed
    have fit: "int (length c) \<le> L * int a" using assms(8) nn by simp
    from write_loop_plain [OF assms(1-3,5) fit assms(6) two assms(10-13)] show ?thesis by blast
  qed
next
  case True
  then have id: "rl_packet_id rel = 1" by (simp add: control_packet_needs_wkc_def)
  let ?len = "max 0 (L - w)"
  obtain b where b: "a = Suc b" using assms(4) by (cases a) auto
  have len: "0 \<le> ?len" "?len \<le> L" using assms(6,7) by auto
  have f: "rl_offset rel + ?len \<le> cap" "?len < BUF_SIZE_MAX" using len assms(11,12) by linarith+
  obtain rel1 tmp1 op where s: "write_loop resend L w rel tmp = write_loop resend L w rel1 tmp1"
    "snd_inv cap (sent @ [(op, take (nat ?len) c)]) rel1" "snd_win (length sent + 1) rel1"
    "room (length sent + 1) rel1 = b"
    "buf_rep tmp1 (th + min (nat ?len) (length c)) (drop (nat ?len) c) tr" "rl_offset rel1 = rl_offset rel"
    using write_loop_step [OF assms(1,2) _ assms(5) _ _ len(1) assms(10) f, of b resend L w] True b assms(3,13)
    by auto
  let ?sent = "sent @ [(op, take (nat ?len) c)]"
  have left: "int (length (drop (nat ?len) c)) \<le> L * int b"
  proof -
    have "int (length (drop (nat ?len) c)) = max 0 (int (length c) - ?len)" using len(1) by simp
    moreover have "0 \<le> L * int b" using assms(6) by simp
    moreover have "int (length c) \<le> ?len + L * int b" using assms(8) True b by simp
    ultimately show ?thesis by linarith
  qed
  have pre: "snd_win (length ?sent) rel1" "room (length ?sent) rel1 = b" "\<not> resend \<or> 2 \<le> length ?sent"
    "4 \<le> rl_offset rel1" "rl_offset rel1 + L \<le> cap" "length ?sent + b < 2 ^ 31"
    using s assms(9-13) b by auto
  from write_loop_plain [OF s(2) pre(1,2) s(5) left assms(6) pre(3-5) assms(12) pre(6)]
  obtain rel' tmp' new where "write_loop resend L w rel1 tmp1 = Some (rel', tmp')"
    "snd_inv cap (?sent @ new) rel'" "concat (map snd new) = drop (nat ?len) c" by blast
  then show ?thesis
    by (intro exI [of _ rel'] exI [of _ tmp'] exI [of _ "(op, take (nat ?len) c) # new"]) (simp add: s(1))
qed

end
