(* ===== verification/ReliableProps.thy ===== *)
theory ReliableProps
  imports ReliableSend
begin

text \<open>
  The properties of the reliability layer: the circular comparisons, the sending and the
  receiving operations, and the guarantee of the whole link.
\<close>

section \<open>Comparisons and the end of the id space\<close>

text \<open>
  Within any half circle, \<open>reliable_pid_min\<close> is the order of the distances from its
  start; packet ids are compared correctly across the wrap of the 32 bit counter.
\<close>

theorem reliable_pid_min_order:
  assumes "unat (a - base) < 2 ^ 31" "unat (b - base) < 2 ^ 31"
  shows "reliable_pid_min a b \<longleftrightarrow> unat (a - base) < unat (b - base)"
  using assms by (rule pid_min_window)

lemma reliable_pid_min_order_witness: "reliable_pid_min (0xFFFFFFFE :: u32) 1"
  using reliable_pid_min_order [of "0xFFFFFFFE" "0xFFFFFFF0" 1] by simp

text \<open>
  C32: \<open>reliable_wont_break_sequentiality\<close> is not the window check it is meant to be once
  the counter has passed the middle of its range: an id that lies at least the window size
  ahead, because it has wrapped, passes it and passes \<open>reliable_not_replay\<close>, so that the
  receiver stores packets it can only deliver billions of packets later.
\<close>

theorem window_check_accepts_wrapped_ids:
  assumes "rel_wf rel" "unat (rl_packet_id rel) + rl_size rel < 2 ^ 32"
    and "unat pid + 2 ^ 31 < unat (rl_packet_id rel)"
    and "first_entry e_active rel = None"
  shows "reliable_wont_break_sequentiality rel pid \<and> reliable_not_replay rel pid \<and>
    unat (pid - rl_packet_id rel) \<ge> rl_size rel"
proof -
  have lt: "unat (rl_packet_id rel) < 2 ^ 32" using unsigned_less [of "rl_packet_id rel", where ?'a = nat] by simp
  have sz: "unat (word_of_nat (rl_size rel) :: u32) = rl_size rel" "rl_size rel \<le> 12"
    using assms(1) size_small by (auto simp: rel_wf_def RELIABLE_CAPACITY_def)
  have d: "unat (pid - rl_packet_id rel) = unat pid + 2 ^ 32 - unat (rl_packet_id rel)"
    using assms(3) by (subst unat_sub_if') simp
  have "reliable_wont_break_sequentiality rel pid"
    unfolding reliable_wont_break_sequentiality_def
    using in_range2_nat [of "rl_packet_id rel" "word_of_nat (rl_size rel)" pid] assms(2,3) sz by simp
  moreover have "\<not> reliable_pid_min pid (rl_packet_id rel)"
    using d assms(3) lt
    by (simp add: reliable_pid_min_def reliable_pid_in_range1_def subtract_pid_def word_less_nat_alt)
  then have "reliable_not_replay rel pid"
    using assms(4) by (auto simp: reliable_not_replay_def first_entry_None)
  moreover have "unat (pid - rl_packet_id rel) \<ge> rl_size rel"
    using d assms(2) by simp
  ultimately show ?thesis by simp
qed

definition sample_rel :: reliable where
  "sample_rel = \<lparr>rl_size = 8, rl_initial_timeout = 2, rl_packet_id = 0xFFFFFFF0, rl_offset = 4, rl_hold = False,
     rl_array = replicate 12 cleared_entry\<rparr>"

lemma window_check_accepts_wrapped_ids_witness:
  "reliable_wont_break_sequentiality sample_rel 5 \<and> reliable_not_replay sample_rel 5"
  using window_check_accepts_wrapped_ids [of sample_rel 5]
  by (simp add: sample_rel_def rel_wf_def RELIABLE_CAPACITY_def first_entry_None cleared_entry_def)

section \<open>The sending operations\<close>

text \<open>
  C30: \<open>reliable_can_send\<close> is what makes \<open>reliable_send\<close> find a packet, apart from the hold
  flag, which \<open>reliable_send\<close> itself does not look at. The \<open>ASSERT(buf)\<close> that follows the
  check in \<open>tls_process_state\<close> never fails.
\<close>

theorem reliable_can_send_spec:
  assumes "rel_wf rel"
  shows "reliable_can_send now rel \<longleftrightarrow> fst (reliable_send now rel) \<noteq> None \<and> \<not> rl_hold rel"
proof -
  have "best_entry (due now) rel = None \<longleftrightarrow> filter (due now) (entries rel) = []"
    using assms by (simp add: best_entry_None filter_empty_conv entries_def rel_wf_def all_set_conv_all_nth)
  then show ?thesis by (auto simp: reliable_can_send_def reliable_send_def split: option.splits)
qed

lemma reliable_can_send_spec_witness: "\<not> reliable_can_send 5 sample_rel"
proof -
  have "rel_wf sample_rel" by (simp add: sample_rel_def rel_wf_def RELIABLE_CAPACITY_def)
  moreover have "best_entry (due 5) sample_rel = None"
    by (simp add: best_entry_None due_def sample_rel_def cleared_entry_def)
  ultimately show ?thesis using reliable_can_send_spec [of sample_rel 5] by (simp add: reliable_send_def)
qed

text \<open>
  \<open>reliable_send\<close> returns, among the active packets whose time has come or that three
  later packets have overtaken, the one with the lowest packet id; it doubles that
  packet's timeout, sets its next try one (old) timeout ahead, forgets the overtaking
  acknowledgements, and changes nothing else.
\<close>

theorem reliable_send_spec:
  assumes "rel_wf rel" "reliable_send now rel = (Some (i, op), rel')"
    and "\<And>j. j < rl_size rel \<Longrightarrow> e_active (entry rel j) \<Longrightarrow> unat (e_packet_id (entry rel j) - base) < 2 ^ 31"
  shows "i < rl_size rel \<and> due now (entry rel i) \<and> op = e_opcode (entry rel i) \<and>
    (\<forall>j < rl_size rel. due now (entry rel j) \<longrightarrow>
       unat (e_packet_id (entry rel i) - base) \<le> unat (e_packet_id (entry rel j) - base)) \<and>
    rel' = rel\<lparr>rl_array := (rl_array rel)[i := (entry rel i)\<lparr>e_next_try := now + e_timeout (entry rel i),
      e_timeout := 2 * e_timeout (entry rel i), e_n_acks := 0\<rparr>]\<rparr>"
proof -
  have b: "best_entry (due now) rel = Some i" "op = e_opcode (entry rel i)"
    "rel' = upd_entry i (\<lambda>e. e\<lparr>e_next_try := now + e_timeout e, e_timeout := e_timeout e * 2, e_n_acks := 0\<rparr>) rel"
    using assms(2) by (auto simp: reliable_send_def split: option.splits)
  have "unat (e_packet_id (entry rel i) - base) \<le> unat (e_packet_id (entry rel j) - base)"
    if "j < rl_size rel" "due now (entry rel j)" for j
    using that assms(3) by (intro best_entry_min [OF b(1)]) (auto simp: due_def)
  then show ?thesis using b best_entry_Some [OF b(1)] by (simp add: upd_entry_def mult.commute)
qed

definition two_entries :: reliable where
  "two_entries = \<lparr>rl_size = 2, rl_initial_timeout = 2, rl_packet_id = 9, rl_offset = 4, rl_hold = False,
     rl_array = cleared_entry\<lparr>e_active := True, e_packet_id := 8, e_next_try := 0, e_timeout := 2\<rparr> #
       cleared_entry\<lparr>e_active := True, e_packet_id := 7, e_next_try := 0, e_timeout := 4\<rparr> #
       replicate 10 cleared_entry\<rparr>"

lemma two_entries_view:
  "rel_wf two_entries" "j < rl_size two_entries \<Longrightarrow> unat (e_packet_id (entry two_entries j) - 0) < 2 ^ 31"
  "fst (reliable_send 5 two_entries) = Some (1, 0)"
proof -
  show "rel_wf two_entries" by (simp add: two_entries_def rel_wf_def RELIABLE_CAPACITY_def)
  show "unat (e_packet_id (entry two_entries j) - 0) < 2 ^ 31" if "j < rl_size two_entries"
  proof -
    have "j = 0 \<or> j = 1" using that by (auto simp: two_entries_def)
    then show ?thesis by (auto simp: two_entries_def)
  qed
  show "fst (reliable_send 5 two_entries) = Some (1, 0)"
    by (simp add: two_entries_def upt_rec reliable_send_def best_entry_def due_def cleared_entry_def
        reliable_pid_min_def reliable_pid_in_range1_def subtract_pid_def)
qed

lemma reliable_send_spec_witness:
  "\<exists>rel'. reliable_send 5 two_entries = (Some (1, 0), rel') \<and> e_timeout (entry rel' 1) = 8"
proof -
  obtain rel' where r: "reliable_send 5 two_entries = (Some (1, 0), rel')"
    using two_entries_view(3) by (cases "reliable_send 5 two_entries") auto
  from reliable_send_spec [OF two_entries_view(1) r two_entries_view(2)] r show ?thesis
    by (auto simp: two_entries_def)
qed

text \<open>
  C31: \<open>reliable_send_timeout\<close> never lets a packet wait: the result is 0 exactly when some
  active packet's next try has come, and otherwise it is at most the time to every active
  packet's next try. (Early retransmission after three later acknowledgements is not
  considered, so \<open>reliable_can_send\<close> may hold while the timeout is positive.)
\<close>

lemma timeout_loop_spec:
  "0 < ret \<Longrightarrow> 0 \<le> timeout_loop now es ret \<and> timeout_loop now es ret \<le> ret \<and>
    (timeout_loop now es ret = 0 \<longleftrightarrow> (\<exists>e \<in> set es. e_active e \<and> e_next_try e \<le> now)) \<and>
    (\<forall>e \<in> set es. e_active e \<longrightarrow> e_next_try e > now \<longrightarrow> timeout_loop now es ret \<le> e_next_try e - now)"
proof (induction now es ret rule: timeout_loop.induct)
  case (2 now e es ret)
  show ?case
  proof (cases "e_active e \<and> \<not> e_next_try e \<le> now")
    case True
    then have "0 < min_int ret (e_next_try e - now)" using "2.prems" by simp
    from "2.IH"(1) [OF _ _ this] True show ?thesis by auto
  next
    case False
    with 2 show ?thesis by (auto split: if_splits)
  qed
qed simp

theorem reliable_send_timeout_spec:
  "0 \<le> reliable_send_timeout now rel \<and> reliable_send_timeout now rel \<le> BIG_TIMEOUT \<and>
   (reliable_send_timeout now rel = 0 \<longleftrightarrow> (\<exists>e \<in> set (entries rel). e_active e \<and> e_next_try e \<le> now)) \<and>
   (\<forall>e \<in> set (entries rel). e_active e \<longrightarrow> e_next_try e > now \<longrightarrow>
      reliable_send_timeout now rel \<le> e_next_try e - now)"
  unfolding reliable_send_timeout_def by (rule timeout_loop_spec) (simp add: BIG_TIMEOUT_def)

lemma reliable_send_timeout_spec_witness: "reliable_send_timeout 5 two_entries = 0"
  using reliable_send_timeout_spec [of 5 two_entries]
  by (simp add: entries_def two_entries_def cleared_entry_def)

section \<open>The guarantee of the link\<close>

lemma reliable_init_inv:
  assumes "reliable_init bsz off n hold = Some rel"
  shows "bufs_ok bsz rel" "rl_packet_id rel = 0" "rl_size rel = n" "rl_offset rel = off"
    "i < rl_size rel \<Longrightarrow> \<not> e_active (entry rel i)" "cap_of rel = bsz" "active_ids rel = {}"
proof -
  obtain b where b0: "0 < n" "n \<le> RELIABLE_CAPACITY" "alloc_buf bsz = Some b"
    using assms by (auto simp: reliable_init_def bind_eq_Some_conv)
  obtain ok b' where bi: "buf_init b off = (ok, b')" by (cases "buf_init b off")
  have b: "0 < n" "n \<le> RELIABLE_CAPACITY" "alloc_buf bsz = Some b" "buf_init b off = (True, b')"
    and r: "rel = \<lparr>rl_size = n, rl_initial_timeout = 0, rl_packet_id = 0, rl_offset = off, rl_hold = hold,
      rl_array = replicate n (cleared_entry\<lparr>e_buf := b'\<rparr>) @ replicate (RELIABLE_CAPACITY - n) cleared_entry\<rparr>"
    using assms b0 bi by (auto simp: reliable_init_def bind_eq_Some_conv)
  have bsz: "0 \<le> bsz" "bsz < BUF_SIZE_MAX"
    using b(3) by (auto simp: alloc_buf_def ASSERT_def buf_size_valid_def bind_eq_Some_conv split: if_splits)
  have "buf_rep b 0 [] (nat bsz)" using alloc_buf_rep [OF bsz] b(3) by auto
  moreover from this have "buf_ok bsz b"
    unfolding buf_ok_def by (intro exI conjI, assumption) (use bsz in simp)
  moreover have off: "0 \<le> off" "off \<le> bsz" using b(4) bsz b(3)
    by (auto simp: buf_init_def alloc_buf_def ASSERT_def bind_eq_Some_conv split: if_splits)
  ultimately have rb: "buf_rep b' (nat off) [] (nat (bsz - off))"
    using buf_ok_init [of bsz b off] b(4) by auto
  have ok: "buf_ok bsz b'"
    unfolding buf_ok_def by (intro exI conjI, rule rb) (use off in simp)
  have e: "entry rel i = cleared_entry\<lparr>e_buf := b'\<rparr>" if "i < n" for i
    using that by (simp add: r nth_append)
  show "bufs_ok bsz rel" using b(1,2) off ok e by (simp add: bufs_ok_def rel_wf_def r nth_append)
  show "rl_packet_id rel = 0" "rl_size rel = n" "rl_offset rel = off" by (simp_all add: r)
  show "i < rl_size rel \<Longrightarrow> \<not> e_active (entry rel i)" using e by (simp add: r cleared_entry_def)
  show "cap_of rel = bsz" using e [of 0] b(1) buf_ok_capacity [OF ok] by (simp add: cap_of_def)
  show "active_ids rel = {}" using e by (auto simp: active_ids_def r cleared_entry_def)
qed

lemma link_inv_init:
  assumes "reliable_init sbs soff sn hold = Some a" "reliable_init rbs roff rn hold' = Some b"
  shows "link_inv sbs rbs sid (link_init a b)"
  using reliable_init_inv [OF assms(1)] reliable_init_inv [OF assms(2)]
  by (simp add: link_inv_def link_init_def snd_inv_def rcv_inv_def)

lemma link_inv_cap: "link_inv scap rcap sid s \<Longrightarrow> cap_of (l_snd s) = scap"
proof -
  assume "link_inv scap rcap sid s"
  then have "buf_ok scap (e_buf (entry (l_snd s) 0))"
    by (auto simp: link_inv_def snd_inv_def bufs_ok_def rel_wf_def)
  then show ?thesis by (simp add: cap_of_def buf_ok_capacity)
qed

lemma reachable_inv:
  assumes "reachable sid s0 s" "link_inv scap rcap sid s0" "length sid = SID_SIZE" "session_id_defined sid"
  shows "link_inv scap rcap sid s"
  using assms
proof (induction rule: reachable.induct)
  case (step s s')
  then show ?case by (intro link_step_inv [OF _ step.hyps(2)]) (simp_all add: link_inv_cap)
qed

text \<open>
  C5: the control channel is reliable and ordered. Whatever the network loses, repeats,
  delays or reorders, in either direction, what the receiving end has handed to TLS is
  always a prefix of what the sending end has queued, with the same opcodes and bytes; and
  a chunk leaves the sender's buffers only after the receiver has stored or delivered it.
\<close>

theorem control_channel_in_order:
  assumes "reliable_init sbs soff sn hold = Some a" "reliable_init rbs roff rn hold' = Some b"
    and "length sid = SID_SIZE" "session_id_defined sid" "reachable sid (link_init a b) s"
  shows "l_dlv s = take (length (l_dlv s)) (l_sent s) \<and>
    (\<forall>k < length (l_sent s). k \<in> active_ids (l_snd s) \<or> k < length (l_dlv s) \<or> k \<in> active_ids (l_rcv s))"
  using reachable_inv [OF assms(5) link_inv_init [OF assms(1,2)] assms(3,4)]
  by (auto simp: link_inv_def stored_def)

lemma full_window_pigeonhole:
  assumes inv: "rcv_inv cap sent d rel" and missing: "d \<notin> active_ids rel"
  shows "\<exists>i < rl_size rel. \<not> e_active (entry rel i)"
proof (rule ccontr)
  assume "\<not> ?thesis"
  then have all: "\<And>i. i < rl_size rel \<Longrightarrow> e_active (entry rel i)" by blast
  let ?f = "\<lambda>i. unat (e_packet_id (entry rel i))"
  have "inj_on ?f {..<rl_size rel}"
    using inv all unfolding rcv_inv_def inj_on_def by (auto simp: word_unat_eq_iff)
  moreover have "?f ` {..<rl_size rel} \<subseteq> {Suc d..<d + rl_size rel}"
  proof
    fix k
    assume "k \<in> ?f ` {..<rl_size rel}"
    then obtain i where i: "i < rl_size rel" "k = ?f i" by auto
    then have "d \<le> k" "k < d + rl_size rel" using inv all unfolding rcv_inv_def by blast+
    moreover have "k \<noteq> d" using i all missing by (auto simp: active_ids_def)
    ultimately show "k \<in> {Suc d..<d + rl_size rel}" by simp
  qed
  ultimately have "card {..<rl_size rel} \<le> card {Suc d..<d + rl_size rel}"
    by (rule card_inj_on_le) simp
  moreover have "0 < rl_size rel" using inv by (simp add: rcv_inv_def bufs_ok_def rel_wf_def)
  ultimately show False by simp
qed

text \<open>
  C9: the link never deadlocks. As long as something queued is not yet delivered, either
  the receiver can deliver the next chunk at once, or the sender still holds it for
  retransmission and the receiver, however full it is of later packets, has a free buffer
  for it and lets it through both of its checks.
\<close>

theorem control_channel_no_deadlock:
  assumes "reliable_init sbs soff sn hold = Some a" "reliable_init rbs roff rn hold' = Some b"
    and "length sid = SID_SIZE" "session_id_defined sid" "reachable sid (link_init a b) s"
    and "d = length (l_dlv s)" "d < length (l_sent s)"
  shows "deliver_next (l_rcv s) \<noteq> None \<or>
    d \<in> active_ids (l_snd s) \<and> reliable_can_get (l_rcv s) \<and>
    reliable_wont_break_sequentiality (l_rcv s) (word_of_nat d) \<and> reliable_not_replay (l_rcv s) (word_of_nat d)"
proof -
  have inv: "link_inv sbs rbs sid s"
    by (rule reachable_inv [OF assms(5) link_inv_init [OF assms(1,2)] assms(3,4)])
  then have r: "rcv_inv rbs (l_sent s) d (l_rcv s)" by (simp add: link_inv_def assms(6))
  have lim: "d < 2 ^ 31" using r assms(7) by (auto simp: rcv_inv_def)
  then have ud: "unat (word_of_nat d :: u32) = d" by (simp add: unat_of_nat32)
  show ?thesis
  proof (cases "d \<in> active_ids (l_rcv s)")
    case True
    then obtain i where i: "i < rl_size (l_rcv s)" "e_active (entry (l_rcv s) i)"
      "unat (e_packet_id (entry (l_rcv s) i)) = d" by (auto simp: active_ids_def)
    have "e_packet_id (entry (l_rcv s) i) = rl_packet_id (l_rcv s)"
      using i(3) rcv_unat [OF r] by (simp add: word_unat_eq_iff)
    then obtain j where "reliable_get_entry_sequenced (l_rcv s) = Some j" "j < rl_size (l_rcv s)"
      using first_entry_obtain [OF i(1), of "\<lambda>e. e_active e \<and> e_packet_id e = rl_packet_id (l_rcv s)"] i(2)
      by (auto simp: reliable_get_entry_sequenced_def)
    then show ?thesis by (simp add: deliver_next_def reliable_mark_deleted_def)
  next
    case False
    then have ns: "\<not> stored d (l_rcv s) d" by (simp add: stored_def)
    then have "d \<in> active_ids (l_snd s)" using inv assms(6,7) by (auto simp: link_inv_def)
    moreover have "reliable_can_get (l_rcv s)"
      using full_window_pigeonhole [OF r False] by (auto simp: reliable_can_get_def first_entry_None)
    moreover have "reliable_wont_break_sequentiality (l_rcv s) (word_of_nat d)"
      using wont_break_iff [OF r, of "word_of_nat d"] ud r by (simp add: rcv_inv_def bufs_ok_def rel_wf_def)
    moreover have "reliable_not_replay (l_rcv s) (word_of_nat d)"
      using not_replay_iff [OF r, of "word_of_nat d"] ud lim ns by simp
    ultimately show ?thesis by blast
  qed
qed

section \<open>Queueing for the TLS library\<close>



section \<open>A concrete link\<close>

lemma sample_link:
  obtains a b s where "reliable_init 4096 64 6 False = Some a" "reliable_init 4096 64 12 False = Some b"
    "reachable sid (link_init a b) s" "l_sent s = [(4, [1, 2, 3])]" "l_dlv s = []"
    "snd_inv 4096 (l_sent s) (l_snd s)" "snd_win 1 (l_snd s)" "rl_offset (l_snd s) = 64" "rl_size (l_snd s) = 6"
proof -
  have tot: "\<exists>a. reliable_init 4096 64 n False = Some a" if "0 < n" "n \<le> 12" for n
    using that alloc_buf_rep [of 4096]
    by (auto simp: reliable_init_def RELIABLE_CAPACITY_def BUF_SIZE_MAX_def alloc_buf_def ASSERT_def
        buf_size_valid_def buf_init_def)
  obtain a where a: "reliable_init 4096 64 6 False = Some a" using tot [of 6] by auto
  obtain b where b: "reliable_init 4096 64 12 False = Some b" using tot [of 12] by auto
  note ia = reliable_init_inv [OF a]
  let ?x = "[1, 2, 3] :: u8 list"
  define tmp where "tmp = \<lparr>b_capacity = 3, b_offset = 0, b_len = 3, b_data = Some ?x\<rparr>"
  have tmp: "buf_rep tmp 0 (?x @ []) 0" by (simp add: tmp_def buf_rep_iff)
  have inv: "snd_inv 4096 [] a" using ia by (simp add: snd_inv_def)
  have win: "snd_win (length ([] :: (int \<times> u8 list) list)) a" using ia by (simp add: snd_win_def)
  have rm: "length ([] :: (int \<times> u8 list) list) - lowest (length ([] :: (int \<times> u8 list) list)) a < rl_size a"
    using ia by (simp add: lowest_def)
  have fits: "4 \<le> rl_offset a" "rl_offset a + int (length ?x) \<le> 4096" "int (length ?x) < BUF_SIZE_MAX"
    "length ([] :: (int \<times> u8 list) list) + 1 < 2 ^ 31" using ia by (simp_all add: BUF_SIZE_MAX_def)
  obtain tx tmp' where tx: "send_chunk a 4 tmp (int (length ?x)) = Some (tx, tmp')" "snd_win (Suc 0) tx"
    using send_chunk_ok [OF inv win rm tmp fits, of 4] by auto
  note ch = send_chunk_inv [OF inv tmp fits(2-4) tx(1)]
  define s where "s = link_init a b"
  have "link_step sid s (s\<lparr>l_snd := tx, l_sent := l_sent s @ [(4, ?x)]\<rparr>)"
    using tmp fits tx(1) ia by (intro link_step.queue [where tmp = tmp and tmp' = tmp'])
      (simp_all add: s_def link_init_def P_ACK_V1_def)
  then have r: "reachable sid (link_init a b) (s\<lparr>l_snd := tx, l_sent := l_sent s @ [(4, ?x)]\<rparr>)"
    unfolding s_def by (rule reachable.step [OF reachable.start])
  show ?thesis
    by (rule that [OF a b r]) (use ch tx(2) ia in \<open>simp_all add: s_def link_init_def\<close>)
qed

definition sample_sid :: session_id where
  "sample_sid = [1, 2, 3, 4, 5, 6, 7, 8]"

lemma sample_sid_ok: "length sample_sid = SID_SIZE" "session_id_defined sample_sid"
  by (simp_all add: sample_sid_def SID_SIZE_def session_id_defined_def numeral_eq_Suc)

lemma control_channel_in_order_witness:
  "\<exists>a b s. reachable sample_sid (link_init a b) s \<and> l_sent s = [(4, [1, 2, 3])] \<and> l_dlv s = take 0 (l_sent s) \<and>
    0 \<in> active_ids (l_snd s) \<union> active_ids (l_rcv s)"
proof -
  obtain a b s where s: "reliable_init 4096 64 6 False = Some a" "reliable_init 4096 64 12 False = Some b"
    "reachable sample_sid (link_init a b) s" "l_sent s = [(4, [1, 2, 3])]" "l_dlv s = []"
    by (rule sample_link)
  from control_channel_in_order [OF s(1,2) sample_sid_ok s(3)] s show ?thesis by auto
qed

lemma control_channel_no_deadlock_witness:
  "\<exists>a b s. reachable sample_sid (link_init a b) s \<and>
    (deliver_next (l_rcv s) \<noteq> None \<or> reliable_can_get (l_rcv s))"
proof -
  obtain a b s where s: "reliable_init 4096 64 6 False = Some a" "reliable_init 4096 64 12 False = Some b"
    "reachable sample_sid (link_init a b) s" "l_sent s = [(4, [1, 2, 3])]" "l_dlv s = []"
    by (rule sample_link)
  from control_channel_no_deadlock [OF s(1,2) sample_sid_ok s(3), of 0] s(4,5)
  have "deliver_next (l_rcv s) \<noteq> None \<or> reliable_can_get (l_rcv s)" by auto
  with s(3) show ?thesis by blast
qed



end
