(* ===== verification/CryptoEpoch.thy ===== *)
theory CryptoEpoch
  imports ReplayWindow
begin

text \<open>
  crypto_epoch.c with the parts of crypto.c and crypto.h it works on: the data channel keys
  of the epoch format. An epoch key \<open>E n\<close> is derived from \<open>E (n - 1)\<close> by HKDF-Expand-Label,
  and the cipher key and implicit IV of an epoch from its epoch key. The receiver keeps the
  keys of the current epoch, of the next \<open>epoch_data_keys_future_count\<close> epochs, and of the
  one it is retiring, with a replay window for the current and the retiring one.

  HMAC-SHA256 is the crypto library's: a parameter \<open>hm\<close>, key and message to digest. A
  cipher or HMAC context of the library is the key it was initialised with.
\<close>

type_synonym hmac_fun = "u8 list \<Rightarrow> u8 list \<Rightarrow> u8 list"

section \<open>HKDF\<close>

definition SHA256_DIGEST_LENGTH :: int where "SHA256_DIGEST_LENGTH = 32"

text \<open>The loop of \<open>ovpn_hkdf_expand\<close>. \<open>block\<close> is a byte: when more than 255 blocks are asked
  for it wraps to 0 and the next block would be written in front of the output.\<close>

partial_function (option) hkdf_loop ::
  "hmac_fun \<Rightarrow> u8 list \<Rightarrow> u8 list \<Rightarrow> int \<Rightarrow> u8 \<Rightarrow> u8 list \<Rightarrow> u8 list \<Rightarrow> u8 list option" where
  "hkdf_loop hm secret info out_len block t_prev out =
     (if (uint block - 1) * SHA256_DIGEST_LENGTH < out_len then
        (let t_prev = hm secret (t_prev @ info @ [block]);
             out_offset = (uint block - 1) * SHA256_DIGEST_LENGTH;
             copylen = min_int SHA256_DIGEST_LENGTH (out_len - out_offset) in
         if out_offset < 0 \<or> out_offset + copylen > int (length out) then None
         else hkdf_loop hm secret info out_len (block + 1) t_prev
                (overlay out (nat out_offset) (take (nat copylen) t_prev)))
      else Some out)"

definition ovpn_hkdf_expand :: "hmac_fun \<Rightarrow> u8 list \<Rightarrow> u8 list \<Rightarrow> u8 list \<Rightarrow> int \<Rightarrow> u8 list option" where
  "ovpn_hkdf_expand hm secret info out out_len = hkdf_loop hm secret info out_len 1 [] out"

definition ovpn_prefix :: "u8 list" where
  "ovpn_prefix = [111, 118, 112, 110, 32]"

definition expand_info :: "u8 list \<Rightarrow> u8 list \<Rightarrow> u16 \<Rightarrow> u8 list" where
  "expand_info label context out_len =
     be16 out_len @ word_of_nat (5 + length label) # ovpn_prefix @ label @
     word_of_nat (length context) # (if length context > 0 then context else [])"

text \<open>The boolean result, and the output bytes (unchanged where it is false).\<close>

definition ovpn_expand_label ::
  "hmac_fun \<Rightarrow> u8 list \<Rightarrow> u8 list \<Rightarrow> u8 list \<Rightarrow> u8 list \<Rightarrow> u16 \<Rightarrow> (bool \<times> u8 list) option" where
  "ovpn_expand_label hm secret label context out out_len =
     (if length secret \<noteq> 32 \<or> length label > 250 \<or> length context > 255 \<or> length label < 1
      then Some (False, out)
      else do {
        let hkdf_label_len = 2 + 5 + 1 + length label + 1 + length context;
        let hkdf_label = expand_info label context out_len;
        _ \<leftarrow> ASSERT (length hkdf_label = hkdf_label_len);
        out \<leftarrow> ovpn_hkdf_expand hm secret hkdf_label out (uint out_len);
        Some (True, out) })"

section \<open>Keys\<close>

record epoch_key =
  ek_key :: "u8 list"
  ek_epoch :: u16

record key_type =
  kt_key_size :: nat
  kt_iv_size :: nat

record key_parameters =
  kp_cipher :: "u8 list"
  kp_cipher_size :: nat
  kp_hmac :: "u8 list"
  kp_hmac_size :: nat
  kp_epoch :: u16

record key_ctx =
  kc_cipher :: "u8 list option"
  kc_hmac :: "u8 list option"
  kc_implicit_iv :: "u8 list"
  kc_plaintext_blocks :: u64
  kc_failed_verifications :: u64
  kc_epoch :: u16

definition OPENVPN_AEAD_MIN_IV_LEN :: nat where "OPENVPN_AEAD_MIN_IV_LEN = 12"
definition OPENVPN_MAX_IV_LENGTH :: nat where "OPENVPN_MAX_IV_LENGTH = 16"
definition MAX_CIPHER_KEY_LENGTH :: nat where "MAX_CIPHER_KEY_LENGTH = 64"
definition MAX_HMAC_KEY_LENGTH :: nat where "MAX_HMAC_KEY_LENGTH = 64"

definition cleared_ctx :: key_ctx where
  "cleared_ctx = \<lparr>kc_cipher = None, kc_hmac = None, kc_implicit_iv = replicate OPENVPN_MAX_IV_LENGTH 0,
     kc_plaintext_blocks = 0, kc_failed_verifications = 0, kc_epoch = 0\<rparr>"

definition label_upd :: "u8 list" where
  "label_upd = [100, 97, 116, 97, 107, 101, 121, 32, 117, 112, 100]"
definition label_key :: "u8 list" where
  "label_key = [100, 97, 116, 97, 95, 107, 101, 121]"
definition label_iv :: "u8 list" where
  "label_iv = [100, 97, 116, 97, 95, 105, 118]"

definition epoch_key_iterate :: "hmac_fun \<Rightarrow> epoch_key \<Rightarrow> epoch_key option" where
  "epoch_key_iterate hm k = do {
     (_, out) \<leftarrow> ovpn_expand_label hm (ek_key k) label_upd [] (replicate 32 0) 32;
     Some \<lparr>ek_key = out, ek_epoch = ek_epoch k + 1\<rparr> }"

definition epoch_data_key_derive :: "hmac_fun \<Rightarrow> epoch_key \<Rightarrow> key_type \<Rightarrow> key_parameters option" where
  "epoch_data_key_derive hm k kt = do {
     (_, cipher) \<leftarrow> ovpn_expand_label hm (ek_key k) label_key [] (replicate MAX_CIPHER_KEY_LENGTH 0)
                     (word_of_nat (kt_key_size kt));
     (_, iv) \<leftarrow> ovpn_expand_label hm (ek_key k) label_iv [] (replicate MAX_HMAC_KEY_LENGTH 0)
                     (word_of_nat (kt_iv_size kt));
     Some \<lparr>kp_cipher = cipher, kp_cipher_size = kt_key_size kt, kp_hmac = iv,
           kp_hmac_size = kt_iv_size kt, kp_epoch = ek_epoch k\<rparr> }"

text \<open>\<open>init_key_ctx\<close> for an AEAD cipher (which has no HMAC key), and
  \<open>key_ctx_update_implicit_iv\<close>. The direction only matters to the library.\<close>

definition init_key_ctx :: "key_parameters \<Rightarrow> key_type \<Rightarrow> key_ctx option" where
  "init_key_ctx key kt = do {
     _ \<leftarrow> ASSERT (kp_cipher_size key \<ge> kt_key_size kt);
     Some (cleared_ctx\<lparr>kc_cipher := Some (take (kt_key_size kt) (kp_cipher key)), kc_epoch := kp_epoch key\<rparr>) }"

definition key_ctx_update_implicit_iv :: "key_ctx \<Rightarrow> key_parameters \<Rightarrow> key_type \<Rightarrow> key_ctx option" where
  "key_ctx_update_implicit_iv ctx key kt = do {
     _ \<leftarrow> ASSERT (kt_iv_size kt \<ge> OPENVPN_AEAD_MIN_IV_LEN);
     let (len, offset) = (if kp_epoch key \<noteq> 0 then (kt_iv_size kt, 0) else (kt_iv_size kt - 4, 4));
     _ \<leftarrow> ASSERT (offset + len \<le> OPENVPN_MAX_IV_LENGTH);
     _ \<leftarrow> ASSERT (len \<le> MAX_HMAC_KEY_LENGTH);
     _ \<leftarrow> ASSERT (len \<le> kp_hmac_size key);
     Some (ctx\<lparr>kc_implicit_iv := overlay (replicate OPENVPN_MAX_IV_LENGTH 0) offset (take len (kp_hmac key))\<rparr>) }"

definition init_key_bi_ctx_send :: "key_parameters \<Rightarrow> key_type \<Rightarrow> key_ctx option" where
  "init_key_bi_ctx_send key kt = do {
     ctx \<leftarrow> init_key_ctx key kt;
     ctx \<leftarrow> key_ctx_update_implicit_iv ctx key kt;
     Some (ctx\<lparr>kc_epoch := kp_epoch key\<rparr>) }"

definition init_key_bi_ctx_recv :: "key_parameters \<Rightarrow> key_type \<Rightarrow> key_ctx option" where
  "init_key_bi_ctx_recv key kt = do {
     ctx \<leftarrow> init_key_ctx key kt;
     ctx \<leftarrow> key_ctx_update_implicit_iv ctx key kt;
     Some (ctx\<lparr>kc_epoch := kp_epoch key\<rparr>) }"

text \<open>\<open>free_key_ctx\<close> leaves the count of failed verifications as it is.\<close>

definition free_key_ctx :: "key_ctx \<Rightarrow> key_ctx" where
  "free_key_ctx ctx = ctx\<lparr>kc_cipher := None, kc_hmac := None, kc_implicit_iv := replicate OPENVPN_MAX_IV_LENGTH 0,
     kc_plaintext_blocks := 0, kc_epoch := 0\<rparr>"

section \<open>The state of a data channel\<close>

record crypto_options =
  co_encrypt :: key_ctx
  co_decrypt :: key_ctx
  co_initialized :: bool
  co_epoch_key_send :: epoch_key
  co_epoch_key_recv :: epoch_key
  co_epoch_key_type :: key_type
  co_aead_usage_limit :: u64
  co_future :: "key_ctx list"
  co_retiring :: key_ctx
  co_retiring_pid :: packet_id_rec
  co_packet_id :: packet_id
  co_epoch_format :: bool
  co_long_form :: bool
  co_ignore_packet_id :: bool

abbreviation future_count :: "crypto_options \<Rightarrow> nat" where
  "future_count co \<equiv> length (co_future co)"

definition epoch_init_send_key_ctx :: "hmac_fun \<Rightarrow> crypto_options \<Rightarrow> crypto_options option" where
  "epoch_init_send_key_ctx hm co = do {
     _ \<leftarrow> ASSERT (kc_epoch (co_encrypt co) \<noteq> ek_epoch (co_epoch_key_send co));
     key \<leftarrow> epoch_data_key_derive hm (co_epoch_key_send co) (co_epoch_key_type co);
     ctx \<leftarrow> init_key_bi_ctx_send key (co_epoch_key_type co);
     Some (co\<lparr>co_encrypt := ctx,
              co_packet_id := (co_packet_id co)\<lparr>pid_send := reset_packet_id_send (pid_send (co_packet_id co))\<rparr>\<rparr>) }"

definition epoch_init_recv_key :: "hmac_fun \<Rightarrow> crypto_options \<Rightarrow> key_ctx option" where
  "epoch_init_recv_key hm co = do {
     key \<leftarrow> epoch_data_key_derive hm (co_epoch_key_recv co) (co_epoch_key_type co);
     init_key_bi_ctx_recv key (co_epoch_key_type co) }"

text \<open>The last \<open>n\<close> future keys, one iteration of the receive epoch key each.\<close>

fun generate_keys :: "hmac_fun \<Rightarrow> nat \<Rightarrow> crypto_options \<Rightarrow> (key_ctx list \<times> crypto_options) option" where
  "generate_keys hm 0 co = Some ([], co)"
| "generate_keys hm (Suc n) co = do {
     k \<leftarrow> epoch_key_iterate hm (co_epoch_key_recv co);
     let co = co\<lparr>co_epoch_key_recv := k\<rparr>;
     ctx \<leftarrow> epoch_init_recv_key hm co;
     (ctxs, co) \<leftarrow> generate_keys hm n co;
     Some (ctx # ctxs, co) }"

definition epoch_generate_future_receive_keys :: "hmac_fun \<Rightarrow> crypto_options \<Rightarrow> crypto_options option" where
  "epoch_generate_future_receive_keys hm co = do {
     _ \<leftarrow> ASSERT (co_initialized co);
     let current = kc_epoch (co_decrypt co);
     highest \<leftarrow> nth_opt (co_future co) (int (future_count co) - 1);
     _ \<leftarrow> ASSERT (ek_epoch (co_epoch_key_recv co) = 1 \<or> kc_epoch highest = ek_epoch (co_epoch_key_recv co));
     let fut = map (\<lambda>k. if kc_epoch k > 0 \<and> kc_epoch k < current then free_key_ctx k else k) (co_future co);
     highest \<leftarrow> nth_opt fut (int (length fut) - 1);
     let current_highest_key = (if kc_epoch highest \<noteq> 0 then kc_epoch highest else 1);
     let desired_highest_key = current + word_of_nat (length fut);
     let num = unat (desired_highest_key - current_highest_key);
     _ \<leftarrow> ASSERT (num \<le> length fut \<and> (\<forall>k \<in> set (take num fut). kc_epoch k = 0));
     (ctxs, co) \<leftarrow> generate_keys hm num co;
     let fut = drop num fut @ ctxs;
     _ \<leftarrow> ASSERT (\<forall>k \<in> set fut. kc_epoch k > 0);
     Some (co\<lparr>co_future := fut\<rparr>) }"

definition epoch_iterate_send_key :: "hmac_fun \<Rightarrow> crypto_options \<Rightarrow> crypto_options option" where
  "epoch_iterate_send_key hm co = do {
     _ \<leftarrow> ASSERT (ek_epoch (co_epoch_key_send co) < 0xFFFF);
     k \<leftarrow> epoch_key_iterate hm (co_epoch_key_send co);
     epoch_init_send_key_ctx hm (co\<lparr>co_epoch_key_send := k, co_encrypt := free_key_ctx (co_encrypt co)\<rparr>) }"

text \<open>\<open>while (co->epoch_key_send.epoch < new_epoch)\<close>\<close>

function iterate_to :: "hmac_fun \<Rightarrow> u16 \<Rightarrow> epoch_key \<Rightarrow> epoch_key option" where
  "iterate_to hm new_epoch k =
     (if ek_epoch k < new_epoch then
        (case epoch_key_iterate hm k of None \<Rightarrow> None | Some k' \<Rightarrow> iterate_to hm new_epoch k')
      else Some k)"
  by pat_completeness auto
termination
proof (relation "measure (\<lambda>(hm, new_epoch, k). unat new_epoch - unat (ek_epoch k))", goal_cases)
  case (2 hm new_epoch k k')
  then have "ek_epoch k' = ek_epoch k + 1" by (auto simp: epoch_key_iterate_def bind_eq_Some_conv)
  then show ?case using 2 by (simp add: unat_succ_less word_less_nat_alt)
qed simp

declare iterate_to.simps [simp del]

definition epoch_replace_update_recv_key :: "hmac_fun \<Rightarrow> crypto_options \<Rightarrow> u16 \<Rightarrow> crypto_options option" where
  "epoch_replace_update_recv_key hm co new_epoch = do {
     fki \<leftarrow> find (\<lambda>i. kc_epoch (co_future co ! i) = new_epoch) [0..<future_count co];
     _ \<leftarrow> ASSERT (kc_epoch (co_future co ! fki) = new_epoch);
     co \<leftarrow> (if kc_epoch (co_encrypt co) < new_epoch then do {
              k \<leftarrow> iterate_to hm new_epoch (co_epoch_key_send co);
              epoch_init_send_key_ctx hm
                (co\<lparr>co_encrypt := free_key_ctx (co_encrypt co), co_epoch_key_send := k\<rparr>) }
           else Some co);
     (retiring_pid, rec) \<leftarrow> packet_id_move_recv (co_retiring_pid co) (pid_rec (co_packet_id co));
     let co = co\<lparr>co_retiring := co_decrypt co, co_retiring_pid := retiring_pid,
                 co_packet_id := (co_packet_id co)\<lparr>pid_rec := rec\<rparr>,
                 co_decrypt := co_future co ! fki,
                 co_future := (co_future co)[fki := cleared_ctx]\<rparr>;
     epoch_generate_future_receive_keys hm co }"

definition epoch_init_key_ctx ::
  "hmac_fun \<Rightarrow> crypto_options \<Rightarrow> key_type \<Rightarrow> u64 \<Rightarrow> epoch_key \<Rightarrow> epoch_key \<Rightarrow> nat \<Rightarrow> crypto_options option" where
  "epoch_init_key_ctx hm co kt aead_limit e1_send e1_recv count = do {
     _ \<leftarrow> ASSERT (ek_epoch e1_send = 1 \<and> ek_epoch e1_recv = 1);
     let co = co\<lparr>co_epoch_key_recv := e1_recv, co_epoch_key_send := e1_send, co_epoch_key_type := kt,
                 co_aead_usage_limit := aead_limit\<rparr>;
     co \<leftarrow> epoch_init_send_key_ctx hm co;
     ctx \<leftarrow> epoch_init_recv_key hm co;
     epoch_generate_future_receive_keys hm
       (co\<lparr>co_decrypt := ctx, co_initialized := True, co_future := replicate count cleared_ctx\<rparr>) }"

text \<open>The pointer that \<open>epoch_lookup_decrypt_key\<close> returns: which of the contexts.\<close>

datatype key_slot = Current | Retiring | Future nat

definition slot_ctx :: "crypto_options \<Rightarrow> key_slot \<Rightarrow> key_ctx" where
  "slot_ctx co s = (case s of Current \<Rightarrow> co_decrypt co | Retiring \<Rightarrow> co_retiring co | Future i \<Rightarrow> co_future co ! i)"

definition epoch_lookup_decrypt_key :: "crypto_options \<Rightarrow> u16 \<Rightarrow> key_slot option" where
  "epoch_lookup_decrypt_key co epoch =
     (if kc_epoch (co_decrypt co) = epoch then Some Current
      else if kc_epoch (co_retiring co) \<noteq> 0 \<and> kc_epoch (co_retiring co) = epoch then Some Retiring
      else if epoch > kc_epoch (co_decrypt co)
              \<and> uint epoch \<le> uint (kc_epoch (co_decrypt co)) + int (future_count co) then
        (let index = uint epoch - (uint (kc_epoch (co_decrypt co)) + 1) in
         if uint epoch > 65535 - int (future_count co) - 1 then None
         else Some (Future (nat index)))
      else None)"

definition aead_usage_limit_reached :: "u64 \<Rightarrow> key_ctx \<Rightarrow> u64 \<Rightarrow> bool" where
  "aead_usage_limit_reached limit ctx highest_pid \<longleftrightarrow>
     limit > 0 \<and> kc_plaintext_blocks ctx + highest_pid > limit"

definition cipher_decrypt_verify_fail_warn :: "key_ctx \<Rightarrow> bool" where
  "cipher_decrypt_verify_fail_warn ctx \<longleftrightarrow> kc_failed_verifications ctx > 2 ^ 35"

definition epoch_check_send_iterate :: "hmac_fun \<Rightarrow> crypto_options \<Rightarrow> crypto_options option" where
  "epoch_check_send_iterate hm co =
     (if ek_epoch (co_epoch_key_send co) = 0xFFFF then Some co
      else do {
        co \<leftarrow> (if co_aead_usage_limit co \<noteq> 0 then
                 (if aead_usage_limit_reached (co_aead_usage_limit co) (co_encrypt co)
                       (ps_id (pid_send (co_packet_id co)))
                  then epoch_iterate_send_key hm co
                  else if kc_epoch (co_encrypt co) = kc_epoch (co_decrypt co)
                          \<and> (aead_usage_limit_reached (co_aead_usage_limit co) (co_decrypt co)
                               (pr_id (pid_rec (co_packet_id co)))
                             \<or> cipher_decrypt_verify_fail_warn (co_decrypt co))
                  then epoch_iterate_send_key hm co
                  else Some co)
               else Some co);
        if ps_id (pid_send (co_packet_id co)) = PACKET_ID_EPOCH_MAX
        then epoch_iterate_send_key hm co else Some co })"

text \<open>\<open>crypto_check_replay\<close> with the replay windows of the epochs; the persisted packet id is
  only used by static keys and is left out.\<close>

definition crypto_check_replay ::
  "hmac_fun \<Rightarrow> int \<Rightarrow> crypto_options \<Rightarrow> packet_id_net \<Rightarrow> u16 \<Rightarrow> (bool \<times> crypto_options) option" where
  "crypto_check_replay hm now co pin epoch =
     (if epoch = 0 \<or> kc_epoch (co_decrypt co) = epoch then do {
        (good, rec) \<leftarrow> check_replay now (pid_rec (co_packet_id co)) pin;
        Some (good, co\<lparr>co_packet_id := (co_packet_id co)\<lparr>pid_rec := rec\<rparr>\<rparr>) }
      else if epoch = kc_epoch (co_retiring co) then do {
        (good, rec) \<leftarrow> check_replay now (co_retiring_pid co) pin;
        Some (good, co\<lparr>co_retiring_pid := rec\<rparr>) }
      else do {
        co \<leftarrow> epoch_replace_update_recv_key hm co epoch;
        (good, rec) \<leftarrow> check_replay now (pid_rec (co_packet_id co)) pin;
        Some (good, co\<lparr>co_packet_id := (co_packet_id co)\<lparr>pid_rec := rec\<rparr>\<rparr>) })"

text \<open>Generating receive keys only touches the receiving side's future keys.\<close>

lemma generate_keys_keeps:
  "generate_keys hm n co = Some (ctxs, co') \<Longrightarrow> co_encrypt co' = co_encrypt co \<and> co_decrypt co' = co_decrypt co \<and>
     co_initialized co' = co_initialized co"
proof (induction n arbitrary: co ctxs)
  case (Suc n)
  then obtain k ctxs' where "generate_keys hm n (co\<lparr>co_epoch_key_recv := k\<rparr>) = Some (ctxs', co')"
    by (auto simp: bind_eq_Some_conv Let_def)
  from Suc.IH [OF this] show ?case by simp
qed simp

lemma generate_future_keeps:
  assumes "epoch_generate_future_receive_keys hm co = Some co'"
  shows "co_encrypt co' = co_encrypt co \<and> co_decrypt co' = co_decrypt co \<and>
     co_initialized co' = co_initialized co"
proof -
  obtain n ctxs co1 fut where "generate_keys hm n co = Some (ctxs, co1)" "co' = co1\<lparr>co_future := fut\<rparr>"
    using assms unfolding epoch_generate_future_receive_keys_def Let_def by (auto simp: bind_eq_Some_conv)
  then show ?thesis by (simp add: generate_keys_keeps)
qed

end
