(* ===== verification/EpochKeys.thy ===== *)
theory EpochKeys
  imports CryptoEpoch
begin

text \<open>
  What crypto_epoch.c computes and keeps: HKDF-Expand as RFC 5869 states it, the chain of
  epoch keys, and the invariant that ties every stored key context to its place in the
  chain. The HMAC is assumed to return 32 bytes, as SHA-256 does.
\<close>

definition hmac_ok :: "hmac_fun \<Rightarrow> bool" where
  "hmac_ok hm \<longleftrightarrow> (\<forall>k m. length (hm k m) = 32)"

section \<open>HKDF-Expand\<close>

fun hkdf_T :: "hmac_fun \<Rightarrow> u8 list \<Rightarrow> u8 list \<Rightarrow> nat \<Rightarrow> u8 list" where
  "hkdf_T hm secret info 0 = []"
| "hkdf_T hm secret info (Suc n) = hm secret (hkdf_T hm secret info n @ info @ [word_of_nat (Suc n)])"

text \<open>The first \<open>n\<close> blocks, and the output keying material of length \<open>len\<close>.\<close>

fun hkdf_blocks :: "hmac_fun \<Rightarrow> u8 list \<Rightarrow> u8 list \<Rightarrow> nat \<Rightarrow> u8 list" where
  "hkdf_blocks hm secret info 0 = []"
| "hkdf_blocks hm secret info (Suc n) = hkdf_blocks hm secret info n @ hkdf_T hm secret info (Suc n)"

definition okm :: "hmac_fun \<Rightarrow> u8 list \<Rightarrow> u8 list \<Rightarrow> nat \<Rightarrow> u8 list" where
  "okm hm secret info len = take len (hkdf_blocks hm secret info 255)"

lemma length_hkdf_T: "hmac_ok hm \<Longrightarrow> 0 < n \<Longrightarrow> length (hkdf_T hm secret info n) = 32"
  by (cases n) (simp_all add: hmac_ok_def)

lemma length_hkdf_blocks: "hmac_ok hm \<Longrightarrow> length (hkdf_blocks hm secret info n) = 32 * n"
  by (induction n) (simp_all add: length_hkdf_T hmac_ok_def)

lemma take_hkdf_blocks:
  assumes "hmac_ok hm" "len \<le> 32 * n" "n \<le> m"
  shows "take len (hkdf_blocks hm secret info m) = take len (hkdf_blocks hm secret info n)"
  using assms(3)
proof (induction m rule: dec_induct)
  case (step m)
  have "len \<le> length (hkdf_blocks hm secret info m)"
    using assms(1,2) step.hyps by (simp add: length_hkdf_blocks)
  then show ?case using step.IH by simp
qed simp

lemma length_okm: "hmac_ok hm \<Longrightarrow> len \<le> 8160 \<Longrightarrow> length (okm hm secret info len) = len"
  by (simp add: okm_def length_hkdf_blocks)

lemma uint_word_of_nat8: "n < 256 \<Longrightarrow> uint (word_of_nat n :: u8) = int n"
  unfolding uint_nat by (simp add: unsigned_of_nat take_bit_nat_eq_self del: of_nat_unat)

text \<open>The loop at block \<open>n + 1\<close> with \<open>n\<close> blocks written.\<close>

lemma hkdf_loop_spec:
  assumes hm: "hmac_ok hm" and len: "len \<le> 8128" "len \<le> length out"
    and n: "32 * n \<le> len + 31"
  shows "hkdf_loop hm secret info (int len) (word_of_nat (n + 1)) (hkdf_T hm secret info n)
      (take len (hkdf_blocks hm secret info n) @ drop (min len (32 * n)) out) =
    Some (okm hm secret info len @ drop len out)"
  using n
proof (induction "len - 32 * n" arbitrary: n rule: less_induct)
  case less
  have n254: "n \<le> 254" using less.prems len(1) by simp
  then have blk: "uint (word_of_nat (n + 1) :: u8) = int n + 1" using uint_word_of_nat8 [of "n + 1"] by simp
  have lb: "length (hkdf_blocks hm secret info n) = 32 * n" by (rule length_hkdf_blocks [OF hm])
  show ?case
  proof (cases "32 * n < len")
    case False
    have "take len (hkdf_blocks hm secret info n) = okm hm secret info len"
      unfolding okm_def using False n254 by (intro take_hkdf_blocks [OF hm, symmetric]) auto
    moreover have "\<not> (int n + 1 - 1) * SHA256_DIGEST_LENGTH < int len"
      using False by (simp add: SHA256_DIGEST_LENGTH_def)
    moreover have "min len (32 * n) = len" using False by simp
    ultimately show ?thesis
      by (subst hkdf_loop.simps) (simp only: blk if_False)
  next
    case True
    let ?T = "hkdf_T hm secret info (Suc n)" and ?B = "hkdf_blocks hm secret info n"
    let ?k = "min 32 (len - 32 * n)"
    have lT: "length ?T = 32" using length_hkdf_T [OF hm, of "Suc n"] by simp
    have out: "take len ?B @ drop (min len (32 * n)) out = ?B @ drop (32 * n) out"
      using True lb by simp
    have ov: "overlay (?B @ drop (32 * n) out) (32 * n) (take ?k ?T) =
        take len (hkdf_blocks hm secret info (Suc n)) @ drop (min len (32 * Suc n)) out"
    proof -
      have "take len (hkdf_blocks hm secret info (Suc n)) = ?B @ take ?k ?T"
        using True lb lT by (simp add: min_def del: hkdf_T.simps)
      moreover have "32 * n + ?k = min len (32 * Suc n)" using True by auto
      ultimately show ?thesis using lb lT
        by (simp add: overlay_def del: hkdf_T.simps)
    qed
    have cond: "(int n + 1 - 1) * SHA256_DIGEST_LENGTH < int len" using True by (simp add: SHA256_DIGEST_LENGTH_def)
    have copy: "min_int SHA256_DIGEST_LENGTH (int len - (int n + 1 - 1) * SHA256_DIGEST_LENGTH) = int ?k"
      "nat ((int n + 1 - 1) * SHA256_DIGEST_LENGTH) = 32 * n"
      using True by (auto simp: SHA256_DIGEST_LENGTH_def)
    have inb: "\<not> ((int n + 1 - 1) * SHA256_DIGEST_LENGTH < 0 \<or>
        (int n + 1 - 1) * SHA256_DIGEST_LENGTH + int ?k > int (length (?B @ drop (32 * n) out)))"
      using True len(2) lb by (auto simp: SHA256_DIGEST_LENGTH_def)
    have T: "hm secret (hkdf_T hm secret info n @ info @ [word_of_nat (n + 1)]) = ?T" by simp
    have w: "word_of_nat (n + 1) + 1 = (word_of_nat (Suc n + 1) :: u8)" by simp
    have "hkdf_loop hm secret info (int len) (word_of_nat (n + 1)) (hkdf_T hm secret info n)
        (?B @ drop (32 * n) out) =
      hkdf_loop hm secret info (int len) (word_of_nat (Suc n + 1)) ?T
        (overlay (?B @ drop (32 * n) out) (32 * n) (take ?k ?T))"
      by (subst hkdf_loop.simps) (simp only: blk cond if_True Let_def T copy inb if_False w nat_int)
    also have "\<dots> = Some (okm hm secret info len @ drop len out)"
      unfolding ov using True by (intro less.hyps) auto
    finally show ?thesis unfolding out .
  qed
qed

lemma ovpn_hkdf_expand_okm:
  assumes "hmac_ok hm" "len \<le> 8128" "len \<le> length out"
  shows "ovpn_hkdf_expand hm secret info out (int len) = Some (okm hm secret info len @ drop len out)"
  using hkdf_loop_spec [OF assms, of 0 secret info] by (simp add: ovpn_hkdf_expand_def)

section \<open>Labels and key derivation\<close>

lemma ovpn_expand_label_okm:
  assumes "hmac_ok hm" "length secret = 32" "1 \<le> length label" "length label \<le> 250"
    and "unat n \<le> 8128" "unat n \<le> length out"
  shows "ovpn_expand_label hm secret label [] out n =
    Some (True, okm hm secret (expand_info label [] n) (unat n) @ drop (unat n) out)"
proof -
  have "length (expand_info label [] n) = 2 + 5 + 1 + length label + 1 + 0"
    by (simp add: expand_info_def ovpn_prefix_def)
  moreover have "ovpn_hkdf_expand hm secret (expand_info label [] n) out (uint n) =
      Some (okm hm secret (expand_info label [] n) (unat n) @ drop (unat n) out)"
    using ovpn_hkdf_expand_okm [OF assms(1,5,6)] by simp
  moreover have "\<not> (length secret \<noteq> 32 \<or> length label > 250 \<or> length ([] :: u8 list) > 255 \<or> length label < 1)"
    using assms(2-4) by auto
  ultimately show ?thesis unfolding ovpn_expand_label_def by simp
qed

definition next_epoch :: "hmac_fun \<Rightarrow> epoch_key \<Rightarrow> epoch_key" where
  "next_epoch hm k = \<lparr>ek_key = okm hm (ek_key k) (expand_info label_upd [] 32) 32, ek_epoch = ek_epoch k + 1\<rparr>"

definition kt_ok :: "key_type \<Rightarrow> bool" where
  "kt_ok kt \<longleftrightarrow> kt_key_size kt \<le> 64 \<and> 12 \<le> kt_iv_size kt \<and> kt_iv_size kt \<le> 16"

text \<open>The context of the epoch with epoch key \<open>k\<close>.\<close>

definition data_ctx :: "hmac_fun \<Rightarrow> key_type \<Rightarrow> epoch_key \<Rightarrow> key_ctx" where
  "data_ctx hm kt k = cleared_ctx\<lparr>
     kc_cipher := Some (okm hm (ek_key k) (expand_info label_key [] (word_of_nat (kt_key_size kt))) (kt_key_size kt)),
     kc_implicit_iv := okm hm (ek_key k) (expand_info label_iv [] (word_of_nat (kt_iv_size kt))) (kt_iv_size kt) @
       replicate (16 - kt_iv_size kt) 0,
     kc_epoch := ek_epoch k\<rparr>"

lemma epoch_key_iterate_next:
  assumes "hmac_ok hm" "length (ek_key k) = 32"
  shows "epoch_key_iterate hm k = Some (next_epoch hm k)" "length (ek_key (next_epoch hm k)) = 32"
proof -
  show "epoch_key_iterate hm k = Some (next_epoch hm k)"
    using ovpn_expand_label_okm [OF assms, of label_upd 32 "replicate 32 0"]
    by (simp add: epoch_key_iterate_def next_epoch_def label_upd_def)
  show "length (ek_key (next_epoch hm k)) = 32"
    using length_okm [OF assms(1)] by (simp add: next_epoch_def)
qed

lemma small_word16: "n \<le> 64 \<Longrightarrow> unat (word_of_nat n :: u16) = n"
  by (simp add: unsigned_of_nat take_bit_nat_eq_self)

lemma epoch_data_key_derive_ctx:
  assumes hm: "hmac_ok hm" and k: "length (ek_key k) = 32" "ek_epoch k \<noteq> 0" and kt: "kt_ok kt"
  shows "\<exists>key. epoch_data_key_derive hm k kt = Some key \<and>
    init_key_bi_ctx_send key kt = Some (data_ctx hm kt k) \<and> init_key_bi_ctx_recv key kt = Some (data_ctx hm kt k)"
proof -
  let ?ks = "kt_key_size kt" and ?is = "kt_iv_size kt"
  let ?ck = "okm hm (ek_key k) (expand_info label_key [] (word_of_nat ?ks)) ?ks"
  let ?iv = "okm hm (ek_key k) (expand_info label_iv [] (word_of_nat ?is)) ?is"
  have sz: "?ks \<le> 64" "?is \<le> 64" "12 \<le> ?is" "?is \<le> 16" using kt by (auto simp: kt_ok_def)
  have u: "unat (word_of_nat ?ks :: u16) = ?ks" "unat (word_of_nat ?is :: u16) = ?is"
    using sz small_word16 by blast+
  have lk: "length ?ck = ?ks" "length ?iv = ?is" using length_okm [OF hm] sz by simp_all
  have e1: "ovpn_expand_label hm (ek_key k) label_key [] (replicate 64 0) (word_of_nat ?ks) =
      Some (True, ?ck @ drop ?ks (replicate 64 0))"
    using ovpn_expand_label_okm [OF hm k(1), of label_key "word_of_nat ?ks" "replicate 64 0"] sz
    unfolding u by (simp add: label_key_def)
  have e2: "ovpn_expand_label hm (ek_key k) label_iv [] (replicate 64 0) (word_of_nat ?is) =
      Some (True, ?iv @ drop ?is (replicate 64 0))"
    using ovpn_expand_label_okm [OF hm k(1), of label_iv "word_of_nat ?is" "replicate 64 0"] sz
    unfolding u by (simp add: label_iv_def)
  define key where "key = \<lparr>kp_cipher = ?ck @ drop ?ks (replicate 64 0), kp_cipher_size = ?ks,
      kp_hmac = ?iv @ drop ?is (replicate 64 0), kp_hmac_size = ?is, kp_epoch = ek_epoch k\<rparr>"
  have d: "epoch_data_key_derive hm k kt = Some key"
    by (simp add: epoch_data_key_derive_def MAX_CIPHER_KEY_LENGTH_def MAX_HMAC_KEY_LENGTH_def e1 e2 key_def)
  have i: "init_key_ctx key kt = Some (cleared_ctx\<lparr>kc_cipher := Some ?ck, kc_epoch := ek_epoch k\<rparr>)"
    using lk by (simp add: init_key_ctx_def key_def)
  have ov: "overlay (replicate 16 0) 0 (take ?is (?iv @ drop ?is (replicate 64 0))) = ?iv @ replicate (16 - ?is) 0"
    using lk by (simp add: overlay_def)
  have "key_ctx_update_implicit_iv ctx key kt = Some (ctx\<lparr>kc_implicit_iv := ?iv @ replicate (16 - ?is) 0\<rparr>)" for ctx
    using sz k(2) ov by (simp add: key_ctx_update_implicit_iv_def OPENVPN_AEAD_MIN_IV_LEN_def
        OPENVPN_MAX_IV_LENGTH_def MAX_HMAC_KEY_LENGTH_def key_def)
  with d i show ?thesis
    by (simp add: init_key_bi_ctx_send_def init_key_bi_ctx_recv_def data_ctx_def key_def)
qed

section \<open>The chain of epoch keys\<close>

definition epoch_at :: "hmac_fun \<Rightarrow> epoch_key \<Rightarrow> nat \<Rightarrow> epoch_key" where
  "epoch_at hm e1 n = (next_epoch hm ^^ (n - 1)) e1"

definition first_key :: "epoch_key \<Rightarrow> bool" where
  "first_key e1 \<longleftrightarrow> ek_epoch e1 = 1 \<and> length (ek_key e1) = 32"

lemma epoch_at_1 [simp]: "epoch_at hm e1 (Suc 0) = e1"
  by (simp add: epoch_at_def)

lemma epoch_at_Suc: "1 \<le> n \<Longrightarrow> epoch_at hm e1 (Suc n) = next_epoch hm (epoch_at hm e1 n)"
  by (cases n) (simp_all add: epoch_at_def)

lemma epoch_at_props:
  assumes "hmac_ok hm" "first_key e1" "1 \<le> n"
  shows "length (ek_key (epoch_at hm e1 n)) = 32 \<and> ek_epoch (epoch_at hm e1 n) = word_of_nat n"
  using assms(3)
proof (induction n rule: dec_induct)
  case base
  then show ?case using assms(2) by (simp add: first_key_def)
next
  case (step n)
  then show ?case using epoch_key_iterate_next(2) [OF assms(1)]
    by (simp add: epoch_at_Suc next_epoch_def add.commute)
qed

lemma unat_word16: "n \<le> 65535 \<Longrightarrow> unat (word_of_nat n :: u16) = n"
  by (simp add: unsigned_of_nat take_bit_nat_eq_self)

lemma word16_eq_iff: "n \<le> 65535 \<Longrightarrow> m \<le> 65535 \<Longrightarrow> (word_of_nat n :: u16) = word_of_nat m \<longleftrightarrow> n = m"
  by (metis unat_word16)

definition recv_ctx :: "hmac_fun \<Rightarrow> key_type \<Rightarrow> epoch_key \<Rightarrow> nat \<Rightarrow> key_ctx" where
  "recv_ctx hm kt e1 n = data_ctx hm kt (epoch_at hm e1 n)"

lemma recv_ctx_epoch:
  "hmac_ok hm \<Longrightarrow> first_key e1 \<Longrightarrow> 1 \<le> n \<Longrightarrow> kc_epoch (recv_ctx hm kt e1 n) = word_of_nat n"
  using epoch_at_props by (simp add: recv_ctx_def data_ctx_def)

lemma derive_at:
  assumes "hmac_ok hm" "first_key e1" "kt_ok kt" "1 \<le> n" "n \<le> 65535"
  shows "\<exists>key. epoch_data_key_derive hm (epoch_at hm e1 n) kt = Some key \<and>
    init_key_bi_ctx_send key kt = Some (recv_ctx hm kt e1 n) \<and> init_key_bi_ctx_recv key kt = Some (recv_ctx hm kt e1 n)"
proof -
  note p = epoch_at_props [OF assms(1,2,4)]
  have "ek_epoch (epoch_at hm e1 n) \<noteq> 0"
    using p assms(4,5) word16_eq_iff [of n 0] by simp
  then show ?thesis using epoch_data_key_derive_ctx [OF assms(1) _ _ assms(3)] p
    by (simp add: recv_ctx_def)
qed

lemma generate_keys_chain:
  assumes "hmac_ok hm" "first_key e1" "kt_ok kt" "1 \<le> m" "m + n \<le> 65535"
    and "co_epoch_key_recv co = epoch_at hm e1 m" "co_epoch_key_type co = kt"
  shows "generate_keys hm n co = Some (map (\<lambda>i. recv_ctx hm kt e1 (m + 1 + i)) [0..<n],
    co\<lparr>co_epoch_key_recv := epoch_at hm e1 (m + n)\<rparr>)"
  using assms(4-7)
proof (induction n arbitrary: co m)
  case (Suc n)
  have it: "epoch_key_iterate hm (co_epoch_key_recv co) = Some (epoch_at hm e1 (m + 1))"
    using epoch_key_iterate_next(1) [OF assms(1)] epoch_at_props [OF assms(1,2) Suc.prems(1)] Suc.prems(1,3)
    by (simp add: epoch_at_Suc)
  let ?co = "co\<lparr>co_epoch_key_recv := epoch_at hm e1 (m + 1)\<rparr>"
  have ctx: "epoch_init_recv_key hm ?co = Some (recv_ctx hm kt e1 (m + 1))"
    using derive_at [OF assms(1-3), of "m + 1"] Suc.prems by (auto simp: epoch_init_recv_key_def)
  have rec: "generate_keys hm n ?co = Some (map (\<lambda>i. recv_ctx hm kt e1 (m + 1 + 1 + i)) [0..<n],
      ?co\<lparr>co_epoch_key_recv := epoch_at hm e1 (m + 1 + n)\<rparr>)"
    using Suc.IH [of "m + 1" ?co] Suc.prems by simp
  have "map (\<lambda>i. recv_ctx hm kt e1 (m + 1 + i)) [0..<Suc n] =
      recv_ctx hm kt e1 (m + 1) # map (\<lambda>i. recv_ctx hm kt e1 (m + 1 + 1 + i)) [0..<n]"
    by (simp add: upt_conv_Cons map_Suc_upt [symmetric] del: upt_Suc)
  then show ?case using it ctx rec by (simp del: upt_Suc)
qed simp

section \<open>The invariant of the stored keys\<close>

text \<open>Two contexts with the same key material and epoch; the counters may differ.\<close>

definition same_key :: "key_ctx \<Rightarrow> key_ctx \<Rightarrow> bool" where
  "same_key a b \<longleftrightarrow> kc_cipher a = kc_cipher b \<and> kc_implicit_iv a = kc_implicit_iv b \<and> kc_epoch a = kc_epoch b"

lemma same_key_refl [simp]: "same_key a a"
  by (simp add: same_key_def)

lemma same_key_epoch: "same_key a b \<Longrightarrow> kc_epoch a = kc_epoch b"
  by (simp add: same_key_def)

definition future_ok :: "hmac_fun \<Rightarrow> key_type \<Rightarrow> epoch_key \<Rightarrow> key_ctx list \<Rightarrow> nat \<Rightarrow> bool" where
  "future_ok hm kt e1 fut d \<longleftrightarrow> (\<forall>i < length fut. same_key (fut ! i) (recv_ctx hm kt e1 (d + 1 + i)))"

lemma nth_opt_last: "xs \<noteq> [] \<Longrightarrow> nth_opt xs (int (length xs) - 1) = Some (xs ! (length xs - 1))"
  by (cases "length xs") (simp_all add: nth_opt_def)

lemma sub_word16:
  assumes "b \<le> a" "a \<le> 65535"
  shows "unat (word_of_nat a - word_of_nat b :: u16) = a - b"
  using assms by (simp add: unat_sub_if' unat_word16)

lemma generate_future_ok:
  assumes hm: "hmac_ok hm" "first_key e1" "kt_ok kt"
    and co: "co_initialized co" "co_epoch_key_type co = kt" "kc_epoch (co_decrypt co) = word_of_nat e"
      "co_epoch_key_recv co = epoch_at hm e1 (d + c)" "length (co_future co) = c"
    and e: "1 \<le> d" "d < e" "e < d + c" "e + c \<le> 65535"
    and fut: "\<And>i. i < c \<Longrightarrow> i \<noteq> e - d - 1 \<Longrightarrow> same_key (co_future co ! i) (recv_ctx hm kt e1 (d + 1 + i))"
      "kc_epoch (co_future co ! (e - d - 1)) = 0"
  shows "\<exists>fut'. epoch_generate_future_receive_keys hm co =
      Some (co\<lparr>co_epoch_key_recv := epoch_at hm e1 (e + c), co_future := fut'\<rparr>) \<and>
    length fut' = c \<and> future_ok hm kt e1 fut' e"
proof -
  let ?f = "\<lambda>k. if kc_epoch k > 0 \<and> kc_epoch k < word_of_nat e then free_key_ctx k else k"
  define fut1 where "fut1 = map ?f (co_future co)"
  have ep: "kc_epoch (co_future co ! i) = word_of_nat (d + 1 + i)" if "i < c" "i \<noteq> e - d - 1" for i
    using same_key_epoch [OF fut(1) [OF that]] recv_ctx_epoch [OF hm(1,2), of "d + 1 + i"] by simp
  have ne: "co_future co \<noteq> []" "c - 1 \<noteq> e - d - 1" "c - 1 < c" using e co(5) by auto
  have last: "kc_epoch (co_future co ! (c - 1)) = word_of_nat (d + c)"
    using ep [OF ne(3,2)] e by simp
  have rk: "ek_epoch (co_epoch_key_recv co) = word_of_nat (d + c)"
    using epoch_at_props [OF hm(1,2), of "d + c"] e co(4) by simp
  have f1: "fut1 ! i = (if i < e - d - 1 then free_key_ctx (co_future co ! i) else co_future co ! i)" if "i < c" for i
  proof (cases "i = e - d - 1")
    case True
    then show ?thesis using that fut(2) co(5) by (simp add: fut1_def)
  next
    case False
    have w: "(word_of_nat (d + 1 + i) :: u16) > 0" "(word_of_nat (d + 1 + i) :: u16) < word_of_nat e \<longleftrightarrow> d + 1 + i < e"
      using that e unat_word16 [of "d + 1 + i"] unat_word16 [of e]
      unfolding word_less_nat_alt by simp_all
    then show ?thesis using that co(5) ep [OF that False] False e by (auto simp: fut1_def)
  qed
  have l1: "length fut1 = c" using co(5) by (simp add: fut1_def)
  have last1: "kc_epoch (fut1 ! (c - 1)) = word_of_nat (d + c)" using f1 [OF ne(3)] last e by auto
  have nz: "(word_of_nat (d + c) :: u16) \<noteq> 0" using word16_eq_iff [of "d + c" 0] e by simp
  have num: "unat (word_of_nat e + word_of_nat c - word_of_nat (d + c) :: u16) = e - d"
    using sub_word16 [of "d + c" "e + c"] e by simp
  have zero: "kc_epoch k = 0" if k: "k \<in> set (take (e - d) fut1)" for k
  proof -
    obtain i where i: "i < e - d" "i < c" "k = fut1 ! i"
      using k l1 by (auto simp: in_set_conv_nth)
    show ?thesis
    proof (cases "i = e - d - 1")
      case True
      then show ?thesis using i f1 [OF i(2)] fut(2) by simp
    next
      case False
      then have "i < e - d - 1" using i(1) by linarith
      then show ?thesis using i(3) f1 [OF i(2)] by (simp add: free_key_ctx_def)
    qed
  qed
  let ?new = "map (\<lambda>i. recv_ctx hm kt e1 (d + c + 1 + i)) [0..<e - d]"
  let ?fut = "drop (e - d) fut1 @ ?new"
  have gen: "generate_keys hm (e - d) co = Some (?new, co\<lparr>co_epoch_key_recv := epoch_at hm e1 (e + c)\<rparr>)"
  proof -
    have "d + c + (e - d) = e + c" using e by simp
    then show ?thesis using generate_keys_chain [OF hm, of "d + c" "e - d" co] co(2,4) e by (simp add: add.commute)
  qed
  have lf: "length ?fut = c" using l1 e by simp
  have fo: "same_key (?fut ! i) (recv_ctx hm kt e1 (e + 1 + i))" if "i < c" for i
  proof (cases "i < c - (e - d)")
    case True
    then have "?fut ! i = fut1 ! (e - d + i)" using l1 by (simp add: nth_append)
    also have "\<dots> = co_future co ! (e - d + i)" using f1 [of "e - d + i"] True by auto
    finally show ?thesis using fut(1) [of "e - d + i"] True e by simp
  next
    case False
    then have "?fut ! i = recv_ctx hm kt e1 (d + c + 1 + (i - (c - (e - d))))"
      using that l1 e by (simp add: nth_append)
    moreover have "d + c + 1 + (i - (c - (e - d))) = e + 1 + i" using False that e by simp
    ultimately have "?fut ! i = recv_ctx hm kt e1 (e + 1 + i)" by (simp only:)
    then show ?thesis by (simp only: same_key_refl)
  qed
  have pos: "kc_epoch k > 0" if k: "k \<in> set ?fut" for k
  proof -
    obtain i where i': "i < length ?fut" "?fut ! i = k" using k unfolding in_set_conv_nth by blast
    then have i: "i < c" "k = ?fut ! i" using lf by (simp_all only:)
    have "kc_epoch k = word_of_nat (e + 1 + i)"
      using same_key_epoch [OF fo [OF i(1)]] recv_ctx_epoch [OF hm(1,2), of "e + 1 + i"] i(2) by simp
    moreover have "(word_of_nat (e + 1 + i) :: u16) \<noteq> 0"
      using word16_eq_iff [of "e + 1 + i" 0] i(1) e by simp
    ultimately show ?thesis by (simp add: word_neq_0_conv)
  qed
  have n1: "nth_opt (co_future co) (int (length (co_future co)) - 1) = Some (co_future co ! (c - 1))"
    using nth_opt_last [OF ne(1)] co(5) by simp
  have n2: "nth_opt fut1 (int c - 1) = Some (fut1 ! (c - 1))"
    using nth_opt_last [of fut1] ne(1) l1 by (auto simp: fut1_def)
  have "epoch_generate_future_receive_keys hm co =
      Some (co\<lparr>co_epoch_key_recv := epoch_at hm e1 (e + c), co_future := ?fut\<rparr>)"
  proof -
    have a1: "ek_epoch (co_epoch_key_recv co) = 1 \<or> kc_epoch (co_future co ! (c - 1)) = ek_epoch (co_epoch_key_recv co)"
      using last rk by simp
    have a2: "ASSERT (e - d \<le> c \<and> (\<forall>k \<in> set (take (e - d) fut1). kc_epoch k = 0)) = Some ()"
      using zero l1 e by (auto simp: ASSERT_def)
    have a3: "ASSERT (\<forall>k \<in> set ?fut. kc_epoch k > 0) = Some ()" using pos by (auto simp: ASSERT_def)
    have hi: "(if kc_epoch (fut1 ! (c - 1)) \<noteq> 0 then kc_epoch (fut1 ! (c - 1)) else 1) = word_of_nat (d + c)"
      using last1 nz by simp
    show ?thesis
      unfolding epoch_generate_future_receive_keys_def Let_def
      by (simp only: co(1,3) ASSERT_simps Option.bind.bind_lunit n1 a1 fut1_def [symmetric] n2 hi l1 num
          a2 gen prod.case a3)
  qed
  with lf fo show ?thesis by (auto simp: future_ok_def)
qed

end
