(* ===== verification/EpochState.thy ===== *)
theory EpochState
  imports EpochKeys
begin

text \<open>
  The state of the epoch keys of a data channel: an invariant \<open>epoch_inv\<close> that places every
  stored context in the two key chains, that \<open>epoch_init_key_ctx\<close> establishes it, and that
  every operation of crypto_epoch.c keeps it.
\<close>

section \<open>The invariant\<close>

abbreviation recv_epoch :: "crypto_options \<Rightarrow> nat" where
  "recv_epoch co \<equiv> unat (kc_epoch (co_decrypt co))"

abbreviation send_epoch :: "crypto_options \<Rightarrow> nat" where
  "send_epoch co \<equiv> unat (ek_epoch (co_epoch_key_send co))"

definition window_ok :: "packet_id_rec \<Rightarrow> bool" where
  "window_ok p \<longleftrightarrow> pid_wf p \<and> pr_time_backtrack p \<le> MAX_TIME_BACKTRACK"

definition recv_inv :: "hmac_fun \<Rightarrow> epoch_key \<Rightarrow> crypto_options \<Rightarrow> bool" where
  "recv_inv hm e1 co \<longleftrightarrow>
     (let kt = co_epoch_key_type co; d = recv_epoch co; c = future_count co in
      kt_ok kt \<and> first_key e1 \<and> co_initialized co \<and> 0 < c \<and> 1 \<le> d \<and> d + c \<le> 65535 \<and>
      same_key (co_decrypt co) (recv_ctx hm kt e1 d) \<and>
      co_epoch_key_recv co = epoch_at hm e1 (d + c) \<and> future_ok hm kt e1 (co_future co) d \<and>
      window_ok (pid_rec (co_packet_id co)) \<and>
      (kc_epoch (co_retiring co) = 0 \<or>
        (\<exists>r. 1 \<le> r \<and> r < d \<and> same_key (co_retiring co) (recv_ctx hm kt e1 r)) \<and> window_ok (co_retiring_pid co)))"

definition send_inv :: "hmac_fun \<Rightarrow> epoch_key \<Rightarrow> crypto_options \<Rightarrow> bool" where
  "send_inv hm e1 co \<longleftrightarrow>
     kt_ok (co_epoch_key_type co) \<and> first_key e1 \<and> 1 \<le> send_epoch co \<and>
     co_epoch_key_send co = epoch_at hm e1 (send_epoch co) \<and>
     same_key (co_encrypt co) (recv_ctx hm (co_epoch_key_type co) e1 (send_epoch co))"

lemma epoch_le: "unat (e :: u16) \<le> 65535"
proof -
  have "unat e < 2 ^ LENGTH(16)" by (rule unsigned_less)
  then show ?thesis by simp
qed

lemma recv_invD:
  assumes "recv_inv hm e1 co"
  shows "kt_ok (co_epoch_key_type co)" "first_key e1" "co_initialized co" "0 < future_count co"
    "1 \<le> recv_epoch co" "recv_epoch co + future_count co \<le> 65535"
    "same_key (co_decrypt co) (recv_ctx hm (co_epoch_key_type co) e1 (recv_epoch co))"
    "co_epoch_key_recv co = epoch_at hm e1 (recv_epoch co + future_count co)"
    "future_ok hm (co_epoch_key_type co) e1 (co_future co) (recv_epoch co)"
    "window_ok (pid_rec (co_packet_id co))"
    "kc_epoch (co_retiring co) \<noteq> 0 \<Longrightarrow>
       (\<exists>r. 1 \<le> r \<and> r < recv_epoch co \<and> same_key (co_retiring co) (recv_ctx hm (co_epoch_key_type co) e1 r)) \<and>
       window_ok (co_retiring_pid co)"
  using assms by (simp_all add: recv_inv_def Let_def)

lemma send_invD:
  assumes "send_inv hm e1 co"
  shows "kt_ok (co_epoch_key_type co)" "first_key e1" "1 \<le> send_epoch co"
    "co_epoch_key_send co = epoch_at hm e1 (send_epoch co)"
    "same_key (co_encrypt co) (recv_ctx hm (co_epoch_key_type co) e1 (send_epoch co))"
  using assms by (simp_all add: send_inv_def)

lemma send_inv_encrypt_epoch:
  assumes "hmac_ok hm" "send_inv hm e1 co"
  shows "kc_epoch (co_encrypt co) = ek_epoch (co_epoch_key_send co)"
  using same_key_epoch [OF send_invD(5) [OF assms(2)]]
    recv_ctx_epoch [OF assms(1) send_invD(2,3) [OF assms(2)]] by simp

lemma future_epoch:
  assumes "hmac_ok hm" "recv_inv hm e1 co" "i < future_count co"
  shows "kc_epoch (co_future co ! i) = word_of_nat (recv_epoch co + 1 + i)"
proof -
  have "same_key (co_future co ! i) (recv_ctx hm (co_epoch_key_type co) e1 (recv_epoch co + 1 + i))"
    using recv_invD(9) [OF assms(2)] assms(3) by (simp add: future_ok_def)
  from same_key_epoch [OF this] show ?thesis
    using recv_ctx_epoch [OF assms(1) recv_invD(2) [OF assms(2)]] by simp
qed

section \<open>Installing a send key\<close>

lemma iterate_to_chain:
  assumes "hmac_ok hm" "first_key e1" "1 \<le> s" "s \<le> 65535" "e \<le> 65535"
  shows "iterate_to hm (word_of_nat e) (epoch_at hm e1 s) = Some (epoch_at hm e1 (max s e))"
  using assms(3,4)
proof (induction "e - s" arbitrary: s)
  case 0
  then have "\<not> ek_epoch (epoch_at hm e1 s) < word_of_nat e"
    using epoch_at_props [OF assms(1,2) 0(2)] assms(5) by (simp add: word_less_nat_alt unat_word16)
  then show ?case using 0 by (subst iterate_to.simps) (simp add: max_def)
next
  case (Suc n)
  have lt: "s < e" using Suc(2) by linarith
  note p = epoch_at_props [OF assms(1,2) Suc(3)]
  have w: "ek_epoch (epoch_at hm e1 s) < word_of_nat e"
    using p lt assms(5) Suc.prems by (simp add: word_less_nat_alt unat_word16)
  have st: "epoch_key_iterate hm (epoch_at hm e1 s) = Some (epoch_at hm e1 (s + 1))"
    using epoch_key_iterate_next(1) [OF assms(1)] p Suc(3) by (simp add: epoch_at_Suc)
  have "iterate_to hm (word_of_nat e) (epoch_at hm e1 s) = iterate_to hm (word_of_nat e) (epoch_at hm e1 (s + 1))"
    using w st by (subst iterate_to.simps) (simp only: if_True option.case)
  also have "\<dots> = Some (epoch_at hm e1 (max (s + 1) e))"
    using Suc(1) [of "s + 1"] Suc(2) lt assms(5) by linarith
  finally show ?case using lt by (simp add: max_def)
qed

text \<open>The state after the key of epoch \<open>s\<close> has been installed for sending.\<close>

definition with_send_key :: "hmac_fun \<Rightarrow> epoch_key \<Rightarrow> nat \<Rightarrow> crypto_options \<Rightarrow> crypto_options" where
  "with_send_key hm e1 s co = co\<lparr>co_epoch_key_send := epoch_at hm e1 s,
     co_encrypt := recv_ctx hm (co_epoch_key_type co) e1 s,
     co_packet_id := (co_packet_id co)\<lparr>pid_send := reset_packet_id_send (pid_send (co_packet_id co))\<rparr>\<rparr>"

lemma epoch_init_send_key_ctx_at:
  assumes "hmac_ok hm" "first_key e1" "kt_ok (co_epoch_key_type co)" "1 \<le> s" "s \<le> 65535"
    and "co_epoch_key_send co = epoch_at hm e1 s" "kc_epoch (co_encrypt co) = 0"
  shows "epoch_init_send_key_ctx hm co = Some (with_send_key hm e1 s co)"
proof -
  have "kc_epoch (co_encrypt co) \<noteq> ek_epoch (co_epoch_key_send co)"
    using epoch_at_props [OF assms(1,2,4)] assms(4-7) word16_eq_iff [of 0 s] by simp
  moreover obtain key where "epoch_data_key_derive hm (epoch_at hm e1 s) (co_epoch_key_type co) = Some key"
    "init_key_bi_ctx_send key (co_epoch_key_type co) = Some (recv_ctx hm (co_epoch_key_type co) e1 s)"
    using derive_at [OF assms(1-5)] by blast
  moreover have "co\<lparr>co_epoch_key_send := epoch_at hm e1 s\<rparr> = co" using assms(6) by simp
  ultimately show ?thesis using assms(6)
    by (simp add: epoch_init_send_key_ctx_def with_send_key_def)
qed

lemma with_send_key_inv:
  assumes "hmac_ok hm" "first_key e1" "kt_ok (co_epoch_key_type co)" "1 \<le> s" "s \<le> 65535"
  shows "send_inv hm e1 (with_send_key hm e1 s co)" "send_epoch (with_send_key hm e1 s co) = s"
  using assms epoch_at_props [OF assms(1,2,4)] by (simp_all add: send_inv_def with_send_key_def unat_word16)

lemma recv_inv_with_send_key [simp]: "recv_inv hm e1 (with_send_key hm e1s s co) = recv_inv hm e1 co"
  by (simp add: recv_inv_def with_send_key_def)

lemma free_key_ctx_epoch [simp]: "kc_epoch (free_key_ctx k) = 0"
  by (simp add: free_key_ctx_def)

text \<open>\<open>epoch_iterate_send_key\<close> moves the sender on by one epoch.\<close>

lemma epoch_iterate_send_key_inv:
  assumes hm: "hmac_ok hm" and s: "send_inv hm e1 co" "send_epoch co < 65535"
  shows "epoch_iterate_send_key hm co =
      Some (with_send_key hm e1 (send_epoch co + 1) (co\<lparr>co_encrypt := free_key_ctx (co_encrypt co)\<rparr>))"
proof -
  note i = send_invD [OF s(1)]
  have lt: "ek_epoch (co_epoch_key_send co) < 0xFFFF" using s(2) by (simp add: word_less_nat_alt)
  have st: "epoch_key_iterate hm (co_epoch_key_send co) = Some (epoch_at hm e1 (send_epoch co + 1))"
    using epoch_key_iterate_next(1) [OF hm, of "epoch_at hm e1 (send_epoch co)"]
      epoch_at_props [OF hm i(2,3)] epoch_at_Suc [OF i(3), of hm e1] i(4) by simp
  let ?co = "co\<lparr>co_epoch_key_send := epoch_at hm e1 (send_epoch co + 1), co_encrypt := free_key_ctx (co_encrypt co)\<rparr>"
  have "epoch_init_send_key_ctx hm ?co = Some (with_send_key hm e1 (send_epoch co + 1) ?co)"
    using epoch_init_send_key_ctx_at [OF hm i(2), of ?co "send_epoch co + 1"] i(1) s(2) by simp
  then show ?thesis using lt st by (simp add: epoch_iterate_send_key_def with_send_key_def)
qed

section \<open>Moving to a future receive key\<close>

lemma window_moveable:
  assumes "window_ok p"
  shows "\<exists>p'. packet_id_move_recv dest p = Some (p, p') \<and> window_ok p' \<and>
    pr_seq_backtrack p' = pr_seq_backtrack p \<and> pr_id p' = 0 \<and> (\<forall>j. pid_mark p' j = 0)"
proof -
  let ?bt = "uint (pr_seq_backtrack p)" and ?tb = "pr_time_backtrack p"
  have w: "pid_wf p" "?tb \<le> MAX_TIME_BACKTRACK" using assms by (simp_all add: window_ok_def)
  have tb: "0 \<le> ?tb" using w(1) by (simp add: pid_wf_def)
  have bt: "?bt \<le> MAX_SEQ_BACKTRACK"
  proof -
    have "unat (pr_seq_backtrack p) \<le> 65536"
      using w(1) by (auto simp: pid_wf_def win_wf_def split: option.splits)
    then show ?thesis by (simp add: MAX_SEQ_BACKTRACK_def uint_nat del: of_nat_unat)
  qed
  obtain rec where rec: "packet_id_init_recv cleared_rec ?bt ?tb (pr_name p) (pr_unit p) = Some rec"
    "pid_wf rec" "pr_seq_backtrack rec = word_of_int ?bt" "\<forall>j. pid_mark rec j = 0" "pr_id rec = 0"
    using packet_id_init_recv_wf [OF _ bt tb w(2), of "pr_name p" "pr_unit p"] by auto
  have "pr_time_backtrack rec \<le> MAX_TIME_BACKTRACK"
    using rec(1) w(2) by (auto simp: packet_id_init_recv_def cleared_rec_def MAX_TIME_BACKTRACK_def
        Let_def bind_eq_Some_conv split: if_splits)
  then show ?thesis using rec by (simp add: packet_id_move_recv_def window_ok_def)
qed

lemma find_future:
  assumes hm: "hmac_ok hm" "recv_inv hm e1 co" and e: "recv_epoch co < e" "e \<le> recv_epoch co + future_count co"
  shows "find (\<lambda>i. kc_epoch (co_future co ! i) = word_of_nat e) [0..<future_count co] = Some (e - recv_epoch co - 1)"
proof -
  let ?d = "recv_epoch co" and ?c = "future_count co"
  have b: "?d + ?c \<le> 65535" by (rule recv_invD(6) [OF hm(2)])
  have ep: "kc_epoch (co_future co ! i) = word_of_nat e \<longleftrightarrow> ?d + 1 + i = e" if "i < ?c" for i
    unfolding future_epoch [OF hm that] using that b e by (intro word16_eq_iff) auto
  have j: "e - ?d - 1 < ?c" "?d + 1 + (e - ?d - 1) = e" using e by linarith+
  show ?thesis unfolding find_Some_iff
  proof (intro exI [of _ "e - ?d - 1"] conjI allI impI)
    fix j assume "j < e - ?d - 1"
    then show "\<not> kc_epoch (co_future co ! ([0..<?c] ! j)) = word_of_nat e"
      using ep [of j] e by auto
  qed (use j ep [of "e - ?d - 1"] in auto)
qed

text \<open>The state the move ends in, but for the content of the future keys.\<close>

definition moved :: "hmac_fun \<Rightarrow> epoch_key \<Rightarrow> epoch_key \<Rightarrow> crypto_options \<Rightarrow> nat \<Rightarrow> packet_id_rec \<Rightarrow> key_ctx list \<Rightarrow> crypto_options" where
  "moved hm e1r e1s co e rec fut =
     (let co1 = (if send_epoch co < e then with_send_key hm e1s e (co\<lparr>co_encrypt := free_key_ctx (co_encrypt co)\<rparr>) else co) in
      co1\<lparr>co_retiring := co_decrypt co, co_retiring_pid := pid_rec (co_packet_id co),
          co_packet_id := (co_packet_id co1)\<lparr>pid_rec := rec\<rparr>,
          co_decrypt := co_future co ! (e - recv_epoch co - 1),
          co_future := fut, co_epoch_key_recv := epoch_at hm e1r (e + future_count co)\<rparr>)"

lemma epoch_replace_moved:
  assumes hm: "hmac_ok hm" and r: "recv_inv hm e1r co" and s: "send_inv hm e1s co"
    and e: "recv_epoch co < e" "e < recv_epoch co + future_count co" "e + future_count co \<le> 65535"
  shows "\<exists>rec fut. epoch_replace_update_recv_key hm co (word_of_nat e) = Some (moved hm e1r e1s co e rec fut) \<and>
    packet_id_move_recv (co_retiring_pid co) (pid_rec (co_packet_id co)) = Some (pid_rec (co_packet_id co), rec) \<and>
    length fut = future_count co \<and> future_ok hm (co_epoch_key_type co) e1r fut e"
proof -
  let ?d = "recv_epoch co" and ?c = "future_count co" and ?kt = "co_epoch_key_type co"
  let ?i = "e - ?d - 1"
  note ri = recv_invD [OF r] and si = send_invD [OF s]
  have fnd: "find (\<lambda>i. kc_epoch (co_future co ! i) = word_of_nat e) [0..<?c] = Some ?i"
    using find_future [OF hm r e(1)] e(2) by simp
  have ii: "?i < ?c" "?d + 1 + ?i = e" using e by linarith+
  have epi: "kc_epoch (co_future co ! ?i) = word_of_nat e" using future_epoch [OF hm r ii(1)] ii(2) by simp
  obtain rec where rec: "packet_id_move_recv (co_retiring_pid co) (pid_rec (co_packet_id co)) =
      Some (pid_rec (co_packet_id co), rec)"
    using window_moveable [OF ri(10)] by blast
  define co1 where "co1 = (if send_epoch co < e then
      with_send_key hm e1s e (co\<lparr>co_encrypt := free_key_ctx (co_encrypt co)\<rparr>) else co)"
  have snd_step: "(if kc_epoch (co_encrypt co) < word_of_nat e then do {
        k \<leftarrow> iterate_to hm (word_of_nat e) (co_epoch_key_send co);
        epoch_init_send_key_ctx hm (co\<lparr>co_encrypt := free_key_ctx (co_encrypt co), co_epoch_key_send := k\<rparr>) }
      else Some co) = Some co1"
  proof -
    have lt: "kc_epoch (co_encrypt co) < word_of_nat e \<longleftrightarrow> send_epoch co < e"
      using send_inv_encrypt_epoch [OF hm s] e by (simp add: word_less_nat_alt unat_word16)
    have it: "iterate_to hm (word_of_nat e) (co_epoch_key_send co) = Some (epoch_at hm e1s (max (send_epoch co) e))"
      using iterate_to_chain [OF hm si(2,3), of e] si(4) e epoch_le by simp
    show ?thesis
    proof (cases "send_epoch co < e")
      case True
      have "epoch_init_send_key_ctx hm (co\<lparr>co_encrypt := free_key_ctx (co_encrypt co), co_epoch_key_send := epoch_at hm e1s e\<rparr>) =
          Some (with_send_key hm e1s e (co\<lparr>co_encrypt := free_key_ctx (co_encrypt co), co_epoch_key_send := epoch_at hm e1s e\<rparr>))"
        using si(1,2) e by (intro epoch_init_send_key_ctx_at [OF hm]) simp_all
      then show ?thesis using True lt it by (simp add: co1_def with_send_key_def max_def)
    qed (use lt in \<open>simp add: co1_def\<close>)
  qed
  have same: "co_epoch_key_type co1 = ?kt" "co_future co1 = co_future co" "co_decrypt co1 = co_decrypt co"
    "co_retiring_pid co1 = co_retiring_pid co" "pid_rec (co_packet_id co1) = pid_rec (co_packet_id co)"
    "co_epoch_key_recv co1 = co_epoch_key_recv co" "co_initialized co1 = co_initialized co"
    by (simp_all add: co1_def with_send_key_def)
  define co2 where "co2 = co1\<lparr>co_retiring := co_decrypt co, co_retiring_pid := pid_rec (co_packet_id co),
      co_packet_id := (co_packet_id co1)\<lparr>pid_rec := rec\<rparr>,
      co_decrypt := co_future co ! ?i, co_future := (co_future co)[?i := cleared_ctx]\<rparr>"
  have "\<exists>fut'. epoch_generate_future_receive_keys hm co2 =
      Some (co2\<lparr>co_epoch_key_recv := epoch_at hm e1r (e + ?c), co_future := fut'\<rparr>) \<and>
    length fut' = ?c \<and> future_ok hm ?kt e1r fut' e"
  proof (rule generate_future_ok [OF hm ri(2,1), where d = ?d])
    show "co_initialized co2" "co_epoch_key_type co2 = ?kt" "kc_epoch (co_decrypt co2) = word_of_nat e"
      "co_epoch_key_recv co2 = epoch_at hm e1r (?d + ?c)" "length (co_future co2) = ?c"
      using same epi ri(3,8) by (simp_all add: co2_def)
    show "1 \<le> ?d" "?d < e" "e < ?d + ?c" "e + ?c \<le> 65535" using ri(5) e by simp_all
    show "same_key (co_future co2 ! i) (recv_ctx hm ?kt e1r (?d + 1 + i))" if "i < ?c" "i \<noteq> ?i" for i
      using that ri(9) by (simp add: co2_def future_ok_def)
    show "kc_epoch (co_future co2 ! ?i) = 0" using ii(1) by (simp add: co2_def cleared_ctx_def)
  qed
  then obtain fut where fut: "epoch_generate_future_receive_keys hm co2 =
      Some (co2\<lparr>co_epoch_key_recv := epoch_at hm e1r (e + ?c), co_future := fut\<rparr>)"
    "length fut = ?c" "future_ok hm ?kt e1r fut e" by blast
  have "epoch_replace_update_recv_key hm co (word_of_nat e) = epoch_generate_future_receive_keys hm co2"
    unfolding epoch_replace_update_recv_key_def
    by (simp only: fnd epi refl ASSERT_simps Option.bind.bind_lunit snd_step same rec prod.case Let_def co2_def)
  also have "\<dots> = Some (moved hm e1r e1s co e rec fut)"
    unfolding fut(1) by (simp add: moved_def co1_def [symmetric] co2_def)
  finally show ?thesis using rec fut(2,3) by blast
qed

lemma moved_simps [simp]:
  "co_decrypt (moved hm e1r e1s co e rec fut) = co_future co ! (e - recv_epoch co - 1)"
  "co_retiring (moved hm e1r e1s co e rec fut) = co_decrypt co"
  "co_retiring_pid (moved hm e1r e1s co e rec fut) = pid_rec (co_packet_id co)"
  "pid_rec (co_packet_id (moved hm e1r e1s co e rec fut)) = rec"
  "co_future (moved hm e1r e1s co e rec fut) = fut"
  "co_epoch_key_recv (moved hm e1r e1s co e rec fut) = epoch_at hm e1r (e + future_count co)"
  "co_epoch_key_type (moved hm e1r e1s co e rec fut) = co_epoch_key_type co"
  "co_initialized (moved hm e1r e1s co e rec fut) = co_initialized co"
  by (simp_all add: moved_def with_send_key_def Let_def)

lemma moved_inv:
  assumes hm: "hmac_ok hm" and r: "recv_inv hm e1r co" and s: "send_inv hm e1s co"
    and e: "recv_epoch co < e" "e \<le> recv_epoch co + future_count co" "e + future_count co \<le> 65535"
    and rec: "packet_id_move_recv (co_retiring_pid co) (pid_rec (co_packet_id co)) = Some (pid_rec (co_packet_id co), rec)"
    and fut: "length fut = future_count co" "future_ok hm (co_epoch_key_type co) e1r fut e"
  shows "recv_inv hm e1r (moved hm e1r e1s co e rec fut)" "send_inv hm e1s (moved hm e1r e1s co e rec fut)"
    "recv_epoch (moved hm e1r e1s co e rec fut) = e" "send_epoch (moved hm e1r e1s co e rec fut) = max (send_epoch co) e"
proof -
  let ?i = "e - recv_epoch co - 1" and ?m = "moved hm e1r e1s co e rec fut"
  note ri = recv_invD [OF r] and si = send_invD [OF s]
  have ii: "?i < future_count co" "recv_epoch co + 1 + ?i = e" using e by linarith+
  have k: "same_key (co_future co ! ?i) (recv_ctx hm (co_epoch_key_type co) e1r e)"
    using ri(9) ii by (auto simp: future_ok_def)
  have ek: "unat (kc_epoch (co_future co ! ?i)) = e"
    using future_epoch [OF hm r ii(1)] ii(2) e(3) by (simp add: unat_word16)
  show re: "recv_epoch ?m = e" using ek by simp
  have w: "window_ok rec" using window_moveable [OF ri(10), of "co_retiring_pid co"] rec by auto
  show "recv_inv hm e1r ?m"
    unfolding recv_inv_def Let_def re moved_simps fut(1)
    using ri k fut(2) w e ek by auto
  show "send_inv hm e1s ?m" "send_epoch ?m = max (send_epoch co) e"
    using with_send_key_inv [OF hm si(2), of "co\<lparr>co_encrypt := free_key_ctx (co_encrypt co)\<rparr>" e] si(1) s e
    by (simp_all add: moved_def Let_def send_inv_def max_def)
qed

end
