(* ===== verification/EpochChannel.thy ===== *)
theory EpochChannel
  imports EpochState
begin

text \<open>
  A data channel with epoch keys at work: setting up, looking up the key of a received
  packet, accepting it, and sending. Lemmas for the properties in EpochProps.
\<close>

section \<open>Setting up\<close>

lemma generate_first:
  assumes hm: "hmac_ok hm" "first_key e1" "kt_ok kt"
    and co: "co_initialized co" "co_epoch_key_type co = kt" "kc_epoch (co_decrypt co) = 1"
      "co_epoch_key_recv co = e1" "co_future co = replicate c cleared_ctx" "0 < c" "c < 65535"
  shows "epoch_generate_future_receive_keys hm co =
    Some (co\<lparr>co_epoch_key_recv := epoch_at hm e1 (1 + c), co_future := map (\<lambda>i. recv_ctx hm kt e1 (1 + 1 + i)) [0..<c]\<rparr>)"
proof -
  let ?f = "\<lambda>k. if kc_epoch k > 0 \<and> kc_epoch k < 1 then free_key_ctx k else k"
  let ?new = "map (\<lambda>i. recv_ctx hm kt e1 (1 + 1 + i)) [0..<c]"
  have e0: "kc_epoch cleared_ctx = 0" by (simp add: cleared_ctx_def)
  have n: "nth_opt (replicate c cleared_ctx) (int c - 1) = Some cleared_ctx" using co(6) by simp
  have fm: "map ?f (replicate c cleared_ctx) = replicate c cleared_ctx" by (simp add: e0)
  have num: "unat (1 + word_of_nat c - (1 :: u16)) = c" using co(7) by (simp add: unat_word16)
  have gen: "generate_keys hm c co = Some (?new, co\<lparr>co_epoch_key_recv := epoch_at hm e1 (1 + c)\<rparr>)"
    using generate_keys_chain [OF hm, of 1 c co] co by simp
  have pos: "ASSERT (\<forall>k \<in> set ?new. kc_epoch k > 0) = Some ()"
  proof -
    have "kc_epoch k > 0" if k: "k \<in> set ?new" for k
    proof -
      obtain i where i: "i < c" "k = recv_ctx hm kt e1 (1 + 1 + i)" using k by auto
      then have "kc_epoch k \<noteq> 0"
        using recv_ctx_epoch [OF hm(1,2), of "1 + 1 + i"] word16_eq_iff [of "1 + 1 + i" 0] co(7) by simp
      then show ?thesis by (simp add: word_neq_0_conv)
    qed
    then show ?thesis by (auto simp: ASSERT_def)
  qed
  have z: "ASSERT (c \<le> c \<and> (\<forall>k \<in> set (take c (replicate c cleared_ctx)). kc_epoch k = 0)) = Some ()"
    by (auto simp: ASSERT_def e0)
  have k1: "ek_epoch e1 = 1" using hm(2) by (simp add: first_key_def)
  show ?thesis
    unfolding epoch_generate_future_receive_keys_def Let_def co(3,4,5) length_replicate fm
    by (simp only: co(1) k1 ASSERT_simps Option.bind.bind_lunit n e0 if_False num z gen prod.case pos
        not_True_eq_False refl simp_thms length_replicate drop_replicate diff_self_eq_0 replicate_0 append_Nil)
qed

lemma epoch_init_inv:
  assumes hm: "hmac_ok hm" "first_key e1s" "first_key e1r" "kt_ok kt" "0 < c" "c < 65535"
    and co: "kc_epoch (co_encrypt co) = 0" "kc_epoch (co_retiring co) = 0" "window_ok (pid_rec (co_packet_id co))"
  shows "\<exists>co'. epoch_init_key_ctx hm co kt limit e1s e1r c = Some co' \<and> recv_inv hm e1r co' \<and> send_inv hm e1s co' \<and>
    recv_epoch co' = 1 \<and> send_epoch co' = 1 \<and> future_count co' = c \<and> ps_id (pid_send (co_packet_id co')) = 0 \<and>
    pid_rec (co_packet_id co') = pid_rec (co_packet_id co) \<and> co_epoch_key_type co' = kt \<and> co_epoch_format co' = co_epoch_format co"
proof -
  let ?co1 = "co\<lparr>co_epoch_key_recv := e1r, co_epoch_key_send := e1s, co_epoch_key_type := kt, co_aead_usage_limit := limit\<rparr>"
  have ek: "ek_epoch e1s = 1" "ek_epoch e1r = 1" using hm(2,3) by (simp_all add: first_key_def)
  have s1: "epoch_init_send_key_ctx hm ?co1 = Some (with_send_key hm e1s 1 ?co1)"
    using hm co(1) by (intro epoch_init_send_key_ctx_at) simp_all
  let ?co2 = "with_send_key hm e1s 1 ?co1"
  have r1: "epoch_init_recv_key hm ?co2 = Some (recv_ctx hm kt e1r 1)"
    using derive_at [OF hm(1,3,4), of 1] by (auto simp: epoch_init_recv_key_def with_send_key_def)
  let ?co3 = "?co2\<lparr>co_decrypt := recv_ctx hm kt e1r 1, co_initialized := True, co_future := replicate c cleared_ctx\<rparr>"
  let ?co' = "?co3\<lparr>co_epoch_key_recv := epoch_at hm e1r (1 + c), co_future := map (\<lambda>i. recv_ctx hm kt e1r (1 + 1 + i)) [0..<c]\<rparr>"
  have d1: "kc_epoch (recv_ctx hm kt e1r 1) = 1" using recv_ctx_epoch [OF hm(1,3), of 1 kt] by simp
  have "epoch_generate_future_receive_keys hm ?co3 = Some ?co'"
    using hm d1 by (intro generate_first) (simp_all add: with_send_key_def)
  then have run: "epoch_init_key_ctx hm co kt limit e1s e1r c = Some ?co'"
    using ek s1 r1 by (simp add: epoch_init_key_ctx_def)
  have "recv_inv hm e1r ?co'"
    using hm co d1 by (simp add: recv_inv_def Let_def with_send_key_def future_ok_def)
  moreover have "send_inv hm e1s ?co'"
    using with_send_key_inv(1) [OF hm(1,2), of ?co1 1] hm(4) by (simp add: send_inv_def with_send_key_def)
  moreover have "send_epoch ?co' = 1" using ek by (simp add: with_send_key_def)
  ultimately show ?thesis using run d1
    by (intro exI [of _ ?co']) (simp add: with_send_key_def reset_packet_id_send_def)
qed

section \<open>Looking up\<close>

lemma lookup_slot:
  assumes hm: "hmac_ok hm" and r: "recv_inv hm e1 co" and l: "epoch_lookup_decrypt_key co epoch = Some s"
  shows "epoch \<noteq> 0 \<and> same_key (slot_ctx co s) (recv_ctx hm (co_epoch_key_type co) e1 (unat epoch)) \<and>
    (case s of Current \<Rightarrow> unat epoch = recv_epoch co
     | Retiring \<Rightarrow> unat epoch < recv_epoch co \<and> epoch = kc_epoch (co_retiring co)
     | Future i \<Rightarrow> i < future_count co \<and> unat epoch = recv_epoch co + 1 + i \<and>
         unat epoch + future_count co < 65535)"
proof -
  note ri = recv_invD [OF r]
  consider (cur) "kc_epoch (co_decrypt co) = epoch" "s = Current"
    | (ret) "kc_epoch (co_decrypt co) \<noteq> epoch" "kc_epoch (co_retiring co) \<noteq> 0" "kc_epoch (co_retiring co) = epoch" "s = Retiring"
    | (fut) "epoch > kc_epoch (co_decrypt co)" "uint epoch \<le> uint (kc_epoch (co_decrypt co)) + int (future_count co)"
      "uint epoch \<le> 65535 - int (future_count co) - 1" "s = Future (nat (uint epoch - (uint (kc_epoch (co_decrypt co)) + 1)))"
    using l unfolding epoch_lookup_decrypt_key_def Let_def by (auto split: if_splits)
  then show ?thesis
  proof cases
    case cur
    then show ?thesis using ri(5,7) by (auto simp: slot_ctx_def)
  next
    case ret
    then obtain rr where rr: "1 \<le> rr" "rr < recv_epoch co" "same_key (co_retiring co) (recv_ctx hm (co_epoch_key_type co) e1 rr)"
      using ri(11) by blast
    have "kc_epoch (co_retiring co) = word_of_nat rr"
      using same_key_epoch [OF rr(3)] recv_ctx_epoch [OF hm ri(2) rr(1)] by simp
    then have "unat epoch = rr" using ret rr(2) ri(6) by (auto simp: unat_word16)
    then show ?thesis using ret rr by (auto simp: slot_ctx_def)
  next
    case fut
    have u: "recv_epoch co < unat epoch" "unat epoch \<le> recv_epoch co + future_count co"
      "unat epoch + future_count co < 65535"
      using fut(1-3) unfolding word_less_nat_alt uint_nat by linarith+
    let ?i = "unat epoch - recv_epoch co - 1"
    have i: "nat (uint epoch - (uint (kc_epoch (co_decrypt co)) + 1)) = ?i"
      using u(1) unfolding uint_nat by linarith
    have b: "?i < future_count co" "unat epoch = recv_epoch co + 1 + ?i" using u by linarith+
    have "same_key (co_future co ! ?i) (recv_ctx hm (co_epoch_key_type co) e1 (unat epoch))"
      using ri(9) b unfolding future_ok_def by metis
    then show ?thesis using fut(4) i b u by (auto simp: slot_ctx_def)
  qed
qed

lemma lookup_current:
  "epoch_lookup_decrypt_key co epoch = Some Current \<longleftrightarrow> kc_epoch (co_decrypt co) = epoch"
  by (auto simp: epoch_lookup_decrypt_key_def Let_def)

lemma lookup_future:
  assumes "recv_epoch co < unat epoch" "unat epoch \<le> recv_epoch co + future_count co"
    "unat epoch + future_count co < 65535" "kc_epoch (co_retiring co) \<noteq> epoch"
  shows "epoch_lookup_decrypt_key co epoch = Some (Future (unat epoch - recv_epoch co - 1))"
proof -
  have "epoch > kc_epoch (co_decrypt co)" using assms(1) by (simp add: word_less_nat_alt)
  moreover have "uint epoch \<le> uint (kc_epoch (co_decrypt co)) + int (future_count co)"
    "\<not> uint epoch > 65535 - int (future_count co) - 1"
    "nat (uint epoch - (uint (kc_epoch (co_decrypt co)) + 1)) = unat epoch - recv_epoch co - 1"
    using assms unfolding uint_nat by linarith+
  ultimately show ?thesis using assms(4) by (auto simp: epoch_lookup_decrypt_key_def Let_def)
qed

section \<open>Accepting\<close>

lemma packet_id_steps_time_backtrack:
  "packet_id_reap_test now p = Some p' \<Longrightarrow> pr_time_backtrack p' = pr_time_backtrack p"
  "packet_id_test p pin = Some (r, p') \<Longrightarrow> pr_time_backtrack p' = pr_time_backtrack p"
  "packet_id_add now p pin = Some p' \<Longrightarrow> pr_time_backtrack p' = pr_time_backtrack p"
  subgoal by (auto simp: packet_id_reap_test_def packet_id_reap_def bind_eq_Some_conv split: if_splits)
  subgoal by (auto simp: packet_id_test_def Let_def bind_eq_Some_conv split: if_splits)
  subgoal by (auto simp: packet_id_add_def Let_def bind_eq_Some_conv split: option.splits if_splits prod.splits)
  done

lemma check_replay_time_backtrack:
  assumes "check_replay now p pin = Some (r, p')"
  shows "pr_time_backtrack p' = pr_time_backtrack p"
proof -
  obtain p1 p2 where p: "packet_id_reap_test now p = Some p1" "packet_id_test p1 pin = Some (r, p2)"
    "p' = p2 \<or> packet_id_add now p2 pin = Some p'"
    using assms by (auto simp: check_replay_def bind_eq_Some_conv split: if_splits)
  then show ?thesis using packet_id_steps_time_backtrack by metis
qed

lemma check_window:
  assumes "window_ok p" "now > 1"
  shows "\<exists>r p'. check_replay now p m = Some (r, p') \<and> window_ok p' \<and> (r \<longrightarrow> \<not> pid_retired p m \<and> pid_retired p' m) \<and>
    (\<forall>q. pid_retired p q \<longrightarrow> pid_retired p' q)"
  using rw.check_ok [of p now m] assms check_replay_time_backtrack unfolding window_ok_def by fastforce

text \<open>What the receiver will not accept (again): packets of epochs it has left, and what the
  window of the epoch has retired.\<close>

definition epoch_retired :: "crypto_options \<Rightarrow> u16 \<times> packet_id_net \<Rightarrow> bool" where
  "epoch_retired co m \<longleftrightarrow>
     unat (fst m) < recv_epoch co \<and> (kc_epoch (co_retiring co) = 0 \<or> kc_epoch (co_retiring co) \<noteq> fst m)
     \<or> fst m = kc_epoch (co_retiring co) \<and> kc_epoch (co_retiring co) \<noteq> 0 \<and> pid_retired (co_retiring_pid co) (snd m)
     \<or> fst m = kc_epoch (co_decrypt co) \<and> pid_retired (pid_rec (co_packet_id co)) (snd m)"

abbreviation both_inv :: "hmac_fun \<Rightarrow> epoch_key \<Rightarrow> epoch_key \<Rightarrow> crypto_options \<Rightarrow> bool" where
  "both_inv hm e1r e1s co \<equiv> recv_inv hm e1r co \<and> send_inv hm e1s co"

lemma recv_inv_set_rec:
  "recv_inv hm e1 co \<Longrightarrow> window_ok p \<Longrightarrow> recv_inv hm e1 (co\<lparr>co_packet_id := (co_packet_id co)\<lparr>pid_rec := p\<rparr>\<rparr>)"
  by (simp add: recv_inv_def Let_def)

lemma recv_inv_set_retiring:
  "recv_inv hm e1 co \<Longrightarrow> window_ok p \<Longrightarrow> recv_inv hm e1 (co\<lparr>co_retiring_pid := p\<rparr>)"
  by (auto simp: recv_inv_def Let_def)

lemma send_inv_set [simp]:
  "send_inv hm e1 (co\<lparr>co_packet_id := x\<rparr>) = send_inv hm e1 co"
  "send_inv hm e1 (co\<lparr>co_retiring_pid := y\<rparr>) = send_inv hm e1 co"
  by (simp_all add: send_inv_def)

lemma retiring_older:
  assumes "hmac_ok hm" "recv_inv hm e1 co" "kc_epoch (co_retiring co) \<noteq> 0"
  shows "unat (kc_epoch (co_retiring co)) < recv_epoch co"
proof -
  obtain rr where rr: "1 \<le> rr" "rr < recv_epoch co" "same_key (co_retiring co) (recv_ctx hm (co_epoch_key_type co) e1 rr)"
    using recv_invD(11) [OF assms(2,3)] by blast
  then show ?thesis
    using same_key_epoch [OF rr(3)] recv_ctx_epoch [OF assms(1) recv_invD(2) [OF assms(2)] rr(1)] recv_invD(6) [OF assms(2)]
    by (simp add: unat_word16)
qed

lemma epoch_eq_of_unat: "unat (e :: u16) = n \<Longrightarrow> e = word_of_nat n"
  by auto

lemma crypto_check_replay_ok:
  assumes hm: "hmac_ok hm" and inv: "both_inv hm e1r e1s co" and now: "now > 1"
    and l: "epoch_lookup_decrypt_key co epoch = Some s" "unat epoch \<noteq> recv_epoch co + future_count co"
  shows "\<exists>good co'. crypto_check_replay hm now co pin epoch = Some (good, co') \<and> both_inv hm e1r e1s co' \<and>
    future_count co' = future_count co \<and> recv_epoch co' = max (recv_epoch co) (unat epoch) \<and>
    send_epoch co' = max (send_epoch co) (if unat epoch > recv_epoch co then unat epoch else 0) \<and>
    co_epoch_key_type co' = co_epoch_key_type co \<and>
    (good \<longrightarrow> \<not> epoch_retired co (epoch, pin) \<and> epoch_retired co' (epoch, pin)) \<and>
    (\<forall>q. epoch_retired co q \<longrightarrow> epoch_retired co' q)"
proof -
  have r: "recv_inv hm e1r co" and s: "send_inv hm e1s co" using inv by simp_all
  note ri = recv_invD [OF r] and sl = lookup_slot [OF hm r l(1)]
  show ?thesis
  proof (cases s)
    case Current
    then have e: "epoch = kc_epoch (co_decrypt co)" using l(1) lookup_current by simp
    obtain good p where p: "check_replay now (pid_rec (co_packet_id co)) pin = Some (good, p)" "window_ok p"
      "good \<longrightarrow> \<not> pid_retired (pid_rec (co_packet_id co)) pin \<and> pid_retired p pin"
      "\<forall>q. pid_retired (pid_rec (co_packet_id co)) q \<longrightarrow> pid_retired p q"
      using check_window [OF ri(10) now] by blast
    have ne: "kc_epoch (co_retiring co) \<noteq> kc_epoch (co_decrypt co)" if "kc_epoch (co_retiring co) \<noteq> 0"
      using retiring_older [OF hm r that] by auto
    show ?thesis using e p recv_inv_set_rec [OF r p(2)] s ne
      by (auto simp: crypto_check_replay_def epoch_retired_def)
  next
    case Retiring
    then have e: "epoch = kc_epoch (co_retiring co)" "epoch \<noteq> 0" "unat epoch < recv_epoch co" using sl by auto
    then have e': "kc_epoch (co_decrypt co) \<noteq> epoch" by auto
    obtain good p where p: "check_replay now (co_retiring_pid co) pin = Some (good, p)" "window_ok p"
      "good \<longrightarrow> \<not> pid_retired (co_retiring_pid co) pin \<and> pid_retired p pin"
      "\<forall>q. pid_retired (co_retiring_pid co) q \<longrightarrow> pid_retired p q"
      using check_window [of "co_retiring_pid co"] now ri(11) e by blast
    show ?thesis using e e' p recv_inv_set_retiring [OF r p(2)] s
      by (auto simp: crypto_check_replay_def epoch_retired_def)
  next
    case (Future i)
    then have e: "recv_epoch co < unat epoch" "unat epoch < recv_epoch co + future_count co"
      "unat epoch + future_count co \<le> 65535" "epoch \<noteq> 0" using sl l(2) by auto
    obtain rec fut where m: "epoch_replace_update_recv_key hm co (word_of_nat (unat epoch)) =
        Some (moved hm e1r e1s co (unat epoch) rec fut)"
      "packet_id_move_recv (co_retiring_pid co) (pid_rec (co_packet_id co)) = Some (pid_rec (co_packet_id co), rec)"
      "length fut = future_count co" "future_ok hm (co_epoch_key_type co) e1r fut (unat epoch)"
      using epoch_replace_moved [OF hm r s e(1-3)] by blast
    let ?m = "moved hm e1r e1s co (unat epoch) rec fut"
    have le: "unat epoch \<le> recv_epoch co + future_count co" using e(2) by simp
    note mi = moved_inv [OF hm r s e(1) le e(3) m(2-4)]
    obtain good p where p: "check_replay now (pid_rec (co_packet_id ?m)) pin = Some (good, p)" "window_ok p"
      "good \<longrightarrow> \<not> pid_retired (pid_rec (co_packet_id ?m)) pin \<and> pid_retired p pin"
      "\<forall>q. pid_retired (pid_rec (co_packet_id ?m)) q \<longrightarrow> pid_retired p q"
      using check_window [OF recv_invD(10) [OF mi(1)] now] by blast
    let ?co = "?m\<lparr>co_packet_id := (co_packet_id ?m)\<lparr>pid_rec := p\<rparr>\<rparr>"
    have ce: "kc_epoch (co_decrypt ?m) = epoch" using epoch_eq_of_unat [OF mi(3)] by simp
    have ne: "epoch \<noteq> kc_epoch (co_decrypt co)" "epoch \<noteq> kc_epoch (co_retiring co)"
      using e(1,4) retiring_older [OF hm r] by auto
    have run: "crypto_check_replay hm now co pin epoch = Some (good, ?co)"
      using ne e(4) m(1) p(1) by (auto simp: crypto_check_replay_def)
    have acc: "\<not> epoch_retired co (epoch, pin)" using ne e(1) by (auto simp: epoch_retired_def)
    have acc': "good \<longrightarrow> epoch_retired ?co (epoch, pin)" using p(3) ce by (auto simp: epoch_retired_def)
    have keep: "epoch_retired ?co q" if "epoch_retired co q" for q
    proof -
      have d0: "kc_epoch (co_decrypt co) \<noteq> 0" using ri(5) by auto
      have rt: "co_retiring ?co = co_decrypt co" "co_retiring_pid ?co = pid_rec (co_packet_id co)"
        "recv_epoch ?co = unat epoch" using mi(3) by simp_all
      have "unat (fst q) < recv_epoch co \<or> fst q = kc_epoch (co_decrypt co) \<and> pid_retired (pid_rec (co_packet_id co)) (snd q)"
        using that retiring_older [OF hm r] unfolding epoch_retired_def by auto
      then show ?thesis
      proof
        assume "unat (fst q) < recv_epoch co"
        then show ?thesis unfolding epoch_retired_def rt using e(1) by auto
      next
        assume "fst q = kc_epoch (co_decrypt co) \<and> pid_retired (pid_rec (co_packet_id co)) (snd q)"
        then show ?thesis unfolding epoch_retired_def rt using d0 by auto
      qed
    qed
    show ?thesis
      using run acc acc' keep mi recv_inv_set_rec [OF mi(1) p(2)] m(3) e(1) by auto
  qed
qed

text \<open>The last future key cannot be moved to: its slot is emptied before the generation
  checks it.\<close>

lemma epoch_replace_last_aborts:
  assumes hm: "hmac_ok hm" and r: "recv_inv hm e1r co" and s: "send_inv hm e1s co"
    and e: "unat epoch = recv_epoch co + future_count co"
  shows "epoch_replace_update_recv_key hm co epoch = None"
proof -
  let ?d = "recv_epoch co" and ?c = "future_count co"
  note ri = recv_invD [OF r] and si = send_invD [OF s]
  have ep: "epoch = word_of_nat (?d + ?c)" using epoch_eq_of_unat [OF e] .
  have fnd: "find (\<lambda>i. kc_epoch (co_future co ! i) = epoch) [0..<?c] = Some (?c - 1)"
    using find_future [OF hm r, of "?d + ?c"] ri(4) by (simp add: ep)
  have epi: "kc_epoch (co_future co ! (?c - 1)) = epoch" using future_epoch [OF hm r, of "?c - 1"] ri(4) by (simp add: ep)
  have ab: "epoch_generate_future_receive_keys hm co2 = None"
    if "co_future co2 = (co_future co)[?c - 1 := cleared_ctx]" "co_epoch_key_recv co2 = co_epoch_key_recv co" for co2
  proof -
    have n: "nth_opt (co_future co2) (int (length (co_future co2)) - 1) = Some cleared_ctx"
      using nth_opt_last [of "co_future co2"] that(1) ri(4) by auto
    have "ek_epoch (co_epoch_key_recv co2) = word_of_nat (?d + ?c)"
      using epoch_at_props [OF hm ri(2), of "?d + ?c"] ri(5,8) that(2) by simp
    then have "ek_epoch (co_epoch_key_recv co2) \<noteq> 1" "ek_epoch (co_epoch_key_recv co2) \<noteq> 0"
      using word16_eq_iff [of "?d + ?c" 1] word16_eq_iff [of "?d + ?c" 0] ri(4-6) by simp_all
    then have "ASSERT (ek_epoch (co_epoch_key_recv co2) = 1 \<or> kc_epoch cleared_ctx = ek_epoch (co_epoch_key_recv co2)) = None"
      by (simp add: cleared_ctx_def ASSERT_def)
    then show ?thesis unfolding epoch_generate_future_receive_keys_def Let_def n Option.bind.bind_lunit
      by (cases "ASSERT (co_initialized co2)") simp_all
  qed
  have snd_same: "co_future co1 = co_future co \<and> co_epoch_key_recv co1 = co_epoch_key_recv co"
    if "(if kc_epoch (co_encrypt co) < epoch then do {
        k \<leftarrow> iterate_to hm epoch (co_epoch_key_send co);
        epoch_init_send_key_ctx hm (co\<lparr>co_encrypt := free_key_ctx (co_encrypt co), co_epoch_key_send := k\<rparr>) }
      else Some co) = Some co1" for co1
    using that by (auto simp: epoch_init_send_key_ctx_def bind_eq_Some_conv split: if_splits)
  let ?s = "if kc_epoch (co_encrypt co) < epoch then do {
        k \<leftarrow> iterate_to hm epoch (co_epoch_key_send co);
        epoch_init_send_key_ctx hm (co\<lparr>co_encrypt := free_key_ctx (co_encrypt co), co_epoch_key_send := k\<rparr>) }
      else Some co"
  show ?thesis
  proof (cases ?s)
    case None
    then show ?thesis unfolding epoch_replace_update_recv_key_def fnd Let_def Option.bind.bind_lunit None
      by (simp only: epi ASSERT_simps refl Option.bind.bind_lunit Option.bind.bind_lzero)
  next
    case (Some co1)
    show ?thesis
    proof (cases "packet_id_move_recv (co_retiring_pid co1) (pid_rec (co_packet_id co1))")
      case None
      then show ?thesis unfolding epoch_replace_update_recv_key_def fnd Let_def Option.bind.bind_lunit Some
        by (simp only: epi ASSERT_simps refl Option.bind.bind_lunit Option.bind.bind_lzero)
    next
      case (Some p)
      obtain p1 p2 where p: "p = (p1, p2)" by (cases p)
      show ?thesis
        unfolding epoch_replace_update_recv_key_def fnd Let_def Option.bind.bind_lunit \<open>?s = Some co1\<close> Some p prod.case
        using snd_same [OF \<open>?s = Some co1\<close>] by (simp only: epi ASSERT_simps refl Option.bind.bind_lunit) (rule ab; simp)
    qed
  qed
qed

end
