(* ===== verification/CryptoAead.thy ===== *)
theory CryptoAead
  imports EpochChannel
begin

text \<open>
  The AEAD data channel of crypto.c: \<open>openvpn_encrypt_aead\<close> and \<open>openvpn_decrypt_aead\<close>, in
  the format with epochs (\<open>CO_EPOCH_DATA_KEY_FORMAT\<close>, the tag at the end) and in the older
  one (a 32 bit packet id, the tag in front of the ciphertext).

  The AEAD cipher is the crypto library's: a parameter, one function per call of the
  library, from the key the context holds, the nonce given to \<open>cipher_ctx_reset\<close>, the
  associated data and the text.
\<close>

record aead_lib =
  al_iv_length :: "u8 list \<Rightarrow> nat"
  al_block_size :: "u8 list \<Rightarrow> nat"
  al_enc_update :: "u8 list \<Rightarrow> u8 list \<Rightarrow> u8 list \<Rightarrow> u8 list \<Rightarrow> u8 list"
  al_enc_final :: "u8 list \<Rightarrow> u8 list \<Rightarrow> u8 list \<Rightarrow> u8 list \<Rightarrow> u8 list"
  al_get_tag :: "u8 list \<Rightarrow> u8 list \<Rightarrow> u8 list \<Rightarrow> u8 list \<Rightarrow> u8 list"
  al_dec_update :: "u8 list \<Rightarrow> u8 list \<Rightarrow> u8 list \<Rightarrow> u8 list \<Rightarrow> u8 list option"
  al_dec_final :: "u8 list \<Rightarrow> u8 list \<Rightarrow> u8 list \<Rightarrow> u8 list \<Rightarrow> u8 list \<Rightarrow> u8 list option"

definition OPENVPN_AEAD_TAG_LENGTH :: nat where "OPENVPN_AEAD_TAG_LENGTH = 16"
definition AEAD_LIMIT_BLOCKSIZE :: int where "AEAD_LIMIT_BLOCKSIZE = 16"

definition cipher_decrypt_verify_fail_exceeded :: "key_ctx \<Rightarrow> bool" where
  "cipher_decrypt_verify_fail_exceeded ctx \<longleftrightarrow> kc_failed_verifications ctx > 2 ^ 36"

text \<open>The limit of a cipher; the arguments are what the library says of the cipher's name.\<close>

definition cipher_get_aead_limits :: "bool \<Rightarrow> bool \<Rightarrow> u64" where
  "cipher_get_aead_limits mode_aead chacha20_poly1305 =
     (if \<not> mode_aead then 0 else if chacha20_poly1305 then 0 else push_bit 36 1 - 1)"

text \<open>The loop that xors the first \<open>iv_len\<close> bytes with the implicit IV.\<close>

definition xor_bytes :: "u8 list \<Rightarrow> u8 list \<Rightarrow> u8 list" where
  "xor_bytes as bs = map2 (XOR) as bs"

definition blocks :: "int \<Rightarrow> u64" where
  "blocks outlen = word_of_int ((outlen + (AEAD_LIMIT_BLOCKSIZE - 1)) div AEAD_LIMIT_BLOCKSIZE)"

text \<open>The library writes at \<open>BEND(b)\<close> and the caller counts what it wrote.\<close>

definition lib_output :: "buffer \<Rightarrow> u8 list \<Rightarrow> buffer option" where
  "lib_output b bs = do {
     p \<leftarrow> buf_bend b;
     _ \<leftarrow> ASSERT (p + int (length bs) \<le> b_capacity b);
     let (ok, b) = buf_inc_len (mem_write b p bs) (int (length bs));
     _ \<leftarrow> ASSERT ok;
     Some b }"

section \<open>Encryption\<close>

text \<open>
  The cipher context as \<open>cipher_ctx_reset\<close> leaves it: the key context it belongs to and the
  nonce. The library's later calls encrypt under the key of the one and the other as nonce.
\<close>

record cipher_state =
  cs_ctx :: key_ctx
  cs_iv :: "u8 list"

text \<open>The part behind the nonce: \<open>pid\<close> is the explicit part that goes into the packet.
  Result: the buffer \<open>buf\<close> on return, and the state.\<close>

definition aead_seal ::
  "aead_lib \<Rightarrow> buffer \<Rightarrow> buffer \<Rightarrow> cipher_state \<Rightarrow> u8 list \<Rightarrow> crypto_options \<Rightarrow> (buffer \<times> crypto_options) option" where
  "aead_seal lib buf work cs pid opt = do {
     key \<leftarrow> kc_cipher (cs_ctx cs);
     let iv = cs_iv cs;
     let (ok, work) = buf_write work pid;
     _ \<leftarrow> ASSERT ok;
     if \<not> buf_safe work (nat (b_len buf) + OPENVPN_AEAD_TAG_LENGTH + al_block_size lib key)
     then Some (buf\<lparr>b_len := 0\<rparr>, opt)
     else do {
       let ad = buf_content work;
       (mac_out, work) \<leftarrow> (if \<not> co_epoch_format opt
          then (case buf_write_alloc work OPENVPN_AEAD_TAG_LENGTH of (None, w) \<Rightarrow> None | (Some p, w) \<Rightarrow> Some (p, w))
          else Some (0, work));
       let out = al_enc_update lib key iv ad (buf_content buf);
       work \<leftarrow> lib_output work out;
       let opt = opt\<lparr>co_encrypt := (co_encrypt opt)\<lparr>kc_plaintext_blocks :=
             kc_plaintext_blocks (co_encrypt opt) + blocks (int (length out))\<rparr>\<rparr>;
       work \<leftarrow> lib_output work (al_enc_final lib key iv ad (buf_content buf));
       (mac_out, work) \<leftarrow> (if co_epoch_format opt
          then (case buf_write_alloc work OPENVPN_AEAD_TAG_LENGTH of (None, w) \<Rightarrow> None | (Some p, w) \<Rightarrow> Some (p, w))
          else Some (mac_out, work));
       Some (mem_write work mac_out (al_get_tag lib key iv ad (buf_content buf)), opt) } }"

text \<open>The function with the state it has put the cipher context into, or \<open>None\<close> when it
  leaves before \<open>cipher_ctx_reset\<close>.\<close>

definition aead_encrypt ::
  "hmac_fun \<Rightarrow> aead_lib \<Rightarrow> int \<Rightarrow> buffer \<Rightarrow> buffer \<Rightarrow> crypto_options \<Rightarrow>
   (buffer \<times> crypto_options \<times> cipher_state option) option" where
  "aead_encrypt hm lib now buf work opt = do {
     opt \<leftarrow> (if co_epoch_format opt then epoch_check_send_iterate hm opt else Some opt);
     let ctx = co_encrypt opt;
     key \<leftarrow> kc_cipher ctx;
     _ \<leftarrow> ASSERT (pr_initialized (pid_rec (co_packet_id opt)));
     let iv_len = al_iv_length lib key;
     _ \<leftarrow> ASSERT (OPENVPN_AEAD_MIN_IV_LEN \<le> iv_len \<and> iv_len \<le> OPENVPN_MAX_IV_LENGTH);
     let iv_buffer = \<lparr>b_capacity = int iv_len, b_offset = 0, b_len = 0, b_data = Some (replicate iv_len 0)\<rparr>;
     let (ok, send, iv_buffer) =
       (if co_epoch_format opt then packet_id_write_epoch now (pid_send (co_packet_id opt)) (kc_epoch ctx) iv_buffer
        else packet_id_write now (pid_send (co_packet_id opt)) iv_buffer False False);
     let opt = opt\<lparr>co_packet_id := (co_packet_id opt)\<lparr>pid_send := send\<rparr>\<rparr>;
     if \<not> ok then Some (buf\<lparr>b_len := 0\<rparr>, opt, None)
     else do {
       iv \<leftarrow> b_data iv_buffer;
       let cs = \<lparr>cs_ctx = ctx, cs_iv = xor_bytes iv (take iv_len (kc_implicit_iv ctx))\<rparr>;
       (buf, opt) \<leftarrow> aead_seal lib buf work cs (take (nat (buf_len iv_buffer)) iv) opt;
       Some (buf, opt, Some cs) } }"

definition openvpn_encrypt_aead ::
  "hmac_fun \<Rightarrow> aead_lib \<Rightarrow> int \<Rightarrow> buffer \<Rightarrow> buffer \<Rightarrow> crypto_options \<Rightarrow> (buffer \<times> crypto_options) option" where
  "openvpn_encrypt_aead hm lib now buf work opt = do {
     (buf, opt, _) \<leftarrow> aead_encrypt hm lib now buf work opt;
     Some (buf, opt) }"

section \<open>Decryption\<close>

definition update_slot :: "crypto_options \<Rightarrow> key_slot \<Rightarrow> (key_ctx \<Rightarrow> key_ctx) \<Rightarrow> crypto_options" where
  "update_slot co s f = (case s of
       Current \<Rightarrow> co\<lparr>co_decrypt := f (co_decrypt co)\<rparr>
     | Retiring \<Rightarrow> co\<lparr>co_retiring := f (co_retiring co)\<rparr>
     | Future i \<Rightarrow> co\<lparr>co_future := (co_future co)[i := f (co_future co ! i)]\<rparr>)"

text \<open>\<open>CRYPT_ERROR\<close> and \<open>CRYPT_DROP\<close>: the packet is dropped.\<close>

definition error_exit :: "buffer \<Rightarrow> crypto_options \<Rightarrow> (bool \<times> buffer \<times> crypto_options) option" where
  "error_exit buf opt = Some (False, buf\<lparr>b_len := 0\<rparr>, opt)"

text \<open>The part behind the choice of the key: \<open>ivp\<close> is the explicit part of the IV. \<open>ad_start\<close>
  is the position of the associated data in the object \<open>buf\<close> points into.\<close>

definition aead_open ::
  "hmac_fun \<Rightarrow> aead_lib \<Rightarrow> int \<Rightarrow> buffer \<Rightarrow> buffer \<Rightarrow> int \<Rightarrow> u8 list \<Rightarrow> packet_id_net \<Rightarrow> u16 \<Rightarrow> key_slot \<Rightarrow>
   crypto_options \<Rightarrow> (bool \<times> buffer \<times> crypto_options) option" where
  "aead_open hm lib now buf work ad_start ivp pin epoch slot opt = do {
     key \<leftarrow> kc_cipher (co_decrypt opt);
     let iv_len = al_iv_length lib key;
     let iv = xor_bytes (take iv_len (ivp @ replicate (OPENVPN_MAX_IV_LENGTH - length ivp) 0))
                (take iv_len (kc_implicit_iv (slot_ctx opt slot)));
     key \<leftarrow> kc_cipher (slot_ctx opt slot);
     let ad = mem_read buf ad_start (b_offset buf - ad_start);
     (tag, buf, data_len) \<leftarrow>
       (if co_epoch_format opt then
          (let data_len = buf_len buf - int OPENVPN_AEAD_TAG_LENGTH in
           Some (mem_read buf (b_offset buf + data_len) (int OPENVPN_AEAD_TAG_LENGTH), buf, data_len))
        else do {
          let tag = mem_read buf (b_offset buf) (int OPENVPN_AEAD_TAG_LENGTH);
          let (ok, buf) = buf_advance buf (int OPENVPN_AEAD_TAG_LENGTH);
          _ \<leftarrow> ASSERT ok;
          Some (tag, buf, buf_len buf) });
     if \<not> buf_safe work (nat (b_len buf) + al_block_size lib key) then error_exit buf opt
     else (let data = mem_read buf (b_offset buf) data_len in
       case al_dec_update lib key iv ad data of
         None \<Rightarrow> error_exit buf opt
       | Some out \<Rightarrow> do {
           work \<leftarrow> lib_output work out;
           case al_dec_final lib key iv ad data tag of
             None \<Rightarrow> error_exit buf (update_slot opt slot
                       (\<lambda>ctx. ctx\<lparr>kc_failed_verifications := kc_failed_verifications ctx + 1\<rparr>))
           | Some fin \<Rightarrow> do {
               work \<leftarrow> lib_output work fin;
               (good, opt) \<leftarrow> crypto_check_replay hm now opt pin epoch;
               if \<not> good then error_exit buf opt
               else Some (True, work, opt\<lparr>co_decrypt := (co_decrypt opt)\<lparr>kc_plaintext_blocks :=
                      kc_plaintext_blocks (co_decrypt opt) + blocks (int (length fin))\<rparr>\<rparr>) } }) }"

definition openvpn_decrypt_aead ::
  "hmac_fun \<Rightarrow> aead_lib \<Rightarrow> int \<Rightarrow> int \<Rightarrow> buffer \<Rightarrow> buffer \<Rightarrow> int \<Rightarrow> crypto_options \<Rightarrow>
   (bool \<times> buffer \<times> crypto_options) option" where
  "openvpn_decrypt_aead hm lib now headroom buf work ad_start opt =
     (if \<not> co_epoch_format opt \<and> cipher_decrypt_verify_fail_exceeded (co_decrypt opt) then error_exit buf opt
      else do {
        _ \<leftarrow> ASSERT (b_len buf > 0);
        _ \<leftarrow> ASSERT (kc_cipher (co_decrypt opt) \<noteq> None);
        _ \<leftarrow> ASSERT (0 \<le> ad_start \<and> ad_start \<le> b_offset buf);
        let (ok, work) = buf_init work headroom;
        _ \<leftarrow> ASSERT ok;
        _ \<leftarrow> ASSERT (pr_initialized (pid_rec (co_packet_id opt)));
        let min_packet_len = packet_id_size False + int OPENVPN_AEAD_TAG_LENGTH + 1 + (if co_epoch_format opt then 4 else 0);
        if b_len buf < min_packet_len then error_exit buf opt
        else if co_epoch_format opt then
          (let ivp = mem_read buf (b_offset buf) 8;
               (epoch, pin, buf) = packet_id_read_epoch \<lparr>pn_id = 0, pn_time = 0\<rparr> buf in
           if epoch = 0 then error_exit buf opt
           else (case epoch_lookup_decrypt_key opt epoch of
               None \<Rightarrow> error_exit buf opt
             | Some slot \<Rightarrow>
                 if cipher_decrypt_verify_fail_exceeded (slot_ctx opt slot) then error_exit buf opt
                 else aead_open hm lib now buf work ad_start ivp pin epoch slot opt))
        else
          (let ivp = mem_read buf (b_offset buf) (packet_id_size False) in
           case packet_id_read buf False of
             (False, pin, buf) \<Rightarrow> error_exit buf opt
           | (True, pin, buf) \<Rightarrow> aead_open hm lib now buf work ad_start ivp pin 0 Current opt) })"

end
