(* ===== verification/AeadChannel.thy ===== *)
theory AeadChannel
  imports CryptoAead
begin

text \<open>
  The AEAD packets of the epoch format: what \<open>openvpn_encrypt_aead\<close> writes, and that
  \<open>openvpn_decrypt_aead\<close> opens it again. \<open>aead_ok\<close> is what the two calls rely on in the
  crypto library: opening what was sealed, under the same key, nonce and associated data.
\<close>

definition aead_ok :: "aead_lib \<Rightarrow> key_type \<Rightarrow> bool" where
  "aead_ok lib kt \<longleftrightarrow> (\<forall>key. al_iv_length lib key = kt_iv_size kt \<and> al_block_size lib key \<le> 16) \<and>
     (\<forall>key iv ad pt. length (al_enc_update lib key iv ad pt @ al_enc_final lib key iv ad pt) = length pt \<and>
        length (al_get_tag lib key iv ad pt) = 16 \<and>
        (\<exists>out fin. al_dec_update lib key iv ad (al_enc_update lib key iv ad pt @ al_enc_final lib key iv ad pt) = Some out \<and>
          al_dec_final lib key iv ad (al_enc_update lib key iv ad pt @ al_enc_final lib key iv ad pt)
            (al_get_tag lib key iv ad pt) = Some fin \<and> out @ fin = pt))"

definition sealed :: "aead_lib \<Rightarrow> u8 list \<Rightarrow> u8 list \<Rightarrow> u8 list \<Rightarrow> u8 list \<Rightarrow> u8 list" where
  "sealed lib key iv ad pt = al_enc_update lib key iv ad pt @ al_enc_final lib key iv ad pt"

text \<open>The nonce of a packet of a context, and the packet behind the opcode bytes \<open>pre\<close>.\<close>

definition epoch_pid :: "u16 \<Rightarrow> u64 \<Rightarrow> u8 list" where
  "epoch_pid epoch i = be64 (push_bit 48 (ucast epoch) OR i)"

definition packet_nonce :: "key_type \<Rightarrow> key_ctx \<Rightarrow> u64 \<Rightarrow> u8 list" where
  "packet_nonce kt ctx i = xor_bytes (epoch_pid (kc_epoch ctx) i @ replicate (kt_iv_size kt - 8) 0)
     (take (kt_iv_size kt) (kc_implicit_iv ctx))"

definition packet_body :: "aead_lib \<Rightarrow> key_type \<Rightarrow> key_ctx \<Rightarrow> u8 list \<Rightarrow> u64 \<Rightarrow> u8 list \<Rightarrow> u8 list" where
  "packet_body lib kt ctx pre i pt =
     (let ad = pre @ epoch_pid (kc_epoch ctx) i; iv = packet_nonce kt ctx i; key = the (kc_cipher ctx) in
      epoch_pid (kc_epoch ctx) i @ sealed lib key iv ad pt @ al_get_tag lib key iv ad pt)"

lemma length_epoch_pid [simp]: "length (epoch_pid e i) = 8"
  by (simp add: epoch_pid_def)

lemma lib_output_rep:
  assumes "buf_rep b h c r" "length bs \<le> r" "h + length c + r < 1000000"
  shows "\<exists>b'. lib_output b bs = Some b' \<and> buf_rep b' h (c @ bs) (r - length bs)"
proof -
  obtain m where m: "b_data b = Some m" "length m = h + length c + r" "b_offset b = int h"
    "b_len b = int (length c)" "b_capacity b = int (h + length c + r)" "take (length c) (drop h m) = c"
    using buf_rep_cases [OF assms(1)] by blast
  have bend: "buf_bend b = Some (int (h + length c))"
    using m by (simp add: buf_bend_def buf_bptr_def buf_valid_def buf_len_def)
  let ?b1 = "mem_write b (int (h + length c)) bs"
  let ?b' = "?b1\<lparr>b_len := b_len b + int (length bs)\<rparr>"
  have inc: "buf_inc_len ?b1 (int (length bs)) = (True, ?b')"
    using m assms(2,3)
    by (simp add: buf_inc_len_def buf_safe_bidir_def buf_valid_def mem_write_def buf_size_valid_signed_def
        BUF_SIZE_MAX_def Let_def)
  have "lib_output b bs = Some ?b'"
    unfolding lib_output_def bend using m(5) assms(2) inc by simp
  moreover have "buf_rep ?b' h (c @ bs) (r - length bs)"
  proof (rule buf_repI)
    show "b_data ?b' = Some (overlay m (h + length c) bs)" using m(1) by (simp add: mem_write_def nat_int_add)
    show "length (overlay m (h + length c) bs) = h + length (c @ bs) + (r - length bs)"
      using m(2) assms(2) by simp
    show "take (length (c @ bs)) (drop h (overlay m (h + length c) bs)) = c @ bs"
      using take_drop_overlay_behind [of h "length c" bs m] m(2,6) assms(2) by simp
  qed (use m assms(2) in \<open>simp_all add: mem_write_def\<close>)
  ultimately show ?thesis by blast
qed

text \<open>Reserving room at the end and filling it in is appending.\<close>

lemma alloc_then_fill:
  assumes "buf_rep b h c r" "length bs \<le> r" "int (length bs) < BUF_SIZE_MAX"
  shows "\<exists>p w. buf_write_alloc b (length bs) = (Some p, w) \<and> buf_rep (mem_write w p bs) h (c @ bs) (r - length bs)"
  using buf_write_rep [OF assms] by (auto simp: buf_write_def split: prod.splits option.splits)

lemma iv_buffer_write:
  assumes "ps_id p < PACKET_ID_EPOCH_MAX" "8 \<le> n" "n \<le> 16"
  shows "\<exists>p' ivb. packet_id_write_epoch now p epoch \<lparr>b_capacity = int n, b_offset = 0, b_len = 0, b_data = Some (replicate n 0)\<rparr> = (True, p', ivb) \<and>
    ps_id p' = ps_id p + 1 \<and> buf_len ivb = 8 \<and> b_data ivb = Some (epoch_pid epoch (ps_id p + 1) @ replicate (n - 8) 0)"
proof -
  let ?p = "if ps_time p = 0 then p\<lparr>ps_time := now\<rparr> else p"
  have u: "packet_id_send_update_epoch now p = (True, ?p\<lparr>ps_id := ps_id p + 1\<rparr>)"
    using assms(1) by (auto simp: packet_id_send_update_epoch_def Let_def)
  have ov: "overlay (replicate n 0) 0 (epoch_pid epoch (ps_id p + 1)) = epoch_pid epoch (ps_id p + 1) @ replicate (n - 8) 0"
    by (simp add: overlay_def)
  show ?thesis using assms(2,3) u ov
    by (simp add: packet_id_write_epoch_def epoch_pid_def [symmetric] buf_write_def buf_write_alloc_def buf_safe_def
        buf_valid_def buf_size_valid_def BUF_SIZE_MAX_def buf_bptr_def mem_write_def buf_len_def Let_def)
qed

section \<open>Sealing\<close>

lemma openvpn_encrypt_aead_epoch:
  assumes lib: "aead_ok lib kt" "kt_ok kt"
    and co: "co_epoch_format co" "epoch_check_send_iterate hm co = Some co1" "co_epoch_format co1"
      "kc_cipher (co_encrypt co1) = Some key" "pr_initialized (pid_rec (co_packet_id co1))"
      "ps_id (pid_send (co_packet_id co1)) < PACKET_ID_EPOCH_MAX"
    and buf: "buf_rep buf hb pt rb" and work: "buf_rep work hw pre rw"
    and sz: "length pt + 40 \<le> rw" "hw + length pre + rw < 1000000"
  shows "\<exists>out send pb. openvpn_encrypt_aead hm lib now buf work co =
      Some (out, co1\<lparr>co_packet_id := (co_packet_id co1)\<lparr>pid_send := send\<rparr>,
                     co_encrypt := (co_encrypt co1)\<lparr>kc_plaintext_blocks := pb\<rparr>\<rparr>) \<and>
    ps_id send = ps_id (pid_send (co_packet_id co1)) + 1 \<and>
    (\<exists>r. buf_rep out hw (pre @ packet_body lib kt (co_encrypt co1) pre (ps_id send) pt) r)"
proof -
  let ?ctx = "co_encrypt co1" and ?n = "kt_iv_size kt"
  have n: "12 \<le> ?n" "?n \<le> 16" "al_iv_length lib key = ?n" "al_block_size lib key \<le> 16"
    using lib by (auto simp: kt_ok_def aead_ok_def)
  obtain send ivb where iv: "packet_id_write_epoch now (pid_send (co_packet_id co1)) (kc_epoch ?ctx)
      \<lparr>b_capacity = int ?n, b_offset = 0, b_len = 0, b_data = Some (replicate ?n 0)\<rparr> = (True, send, ivb)"
    "ps_id send = ps_id (pid_send (co_packet_id co1)) + 1" "buf_len ivb = 8"
    "b_data ivb = Some (epoch_pid (kc_epoch ?ctx) (ps_id (pid_send (co_packet_id co1)) + 1) @ replicate (?n - 8) 0)"
    using iv_buffer_write [OF co(6), of ?n now "kc_epoch ?ctx"] n by auto
  let ?pid = "epoch_pid (kc_epoch ?ctx) (ps_id send)"
  let ?iv = "packet_nonce kt ?ctx (ps_id send)" and ?ad = "pre @ ?pid"
  have ivd: "b_data ivb = Some (?pid @ replicate (?n - 8) 0)" using iv(2,4) by simp
  obtain w1 where w1: "buf_write work ?pid = (True, w1)" "buf_rep w1 hw ?ad (rw - 8)"
    using bd.appendE [OF work, of ?pid] sz by (auto simp: BUF_SIZE_MAX_def)
  define u where "u = al_enc_update lib key ?iv ?ad pt"
  define f where "f = al_enc_final lib key ?iv ?ad pt"
  have uf: "length u + length f \<le> length pt" "length (al_get_tag lib key ?iv ?ad pt) = 16"
    using lib(1) by (auto simp: aead_ok_def u_def f_def)
  have fits: "length u \<le> rw - 8" "length f \<le> rw - 8 - length u" "hw + length ?ad + (rw - 8) < 1000000"
    "hw + length (?ad @ u) + (rw - 8 - length u) < 1000000"
    using uf(1) sz by simp_all
  obtain w2 where w2: "lib_output w1 u = Some w2" "buf_rep w2 hw (?ad @ u) (rw - 8 - length u)"
    using lib_output_rep [OF w1(2) fits(1,3)] by (auto simp only: append_assoc)
  obtain w3 where w3: "lib_output w2 f = Some w3" "buf_rep w3 hw (?ad @ u @ f) (rw - 8 - length u - length f)"
    using lib_output_rep [OF w2(2) fits(2,4)] by (auto simp only: append_assoc)
  obtain p w4 where w4: "buf_write_alloc w3 16 = (Some p, w4)"
    "buf_rep (mem_write w4 p (al_get_tag lib key ?iv ?ad pt)) hw (?ad @ u @ f @ al_get_tag lib key ?iv ?ad pt)
       (rw - 8 - length u - length f - 16)"
  proof -
    have "length (al_get_tag lib key ?iv ?ad pt) \<le> rw - 8 - length u - length f" using uf sz(1) by linarith
    from alloc_then_fill [OF w3(2) this] show thesis
      using uf(2) that unfolding uf(2) append_assoc by (auto simp: BUF_SIZE_MAX_def)
  qed
  have safe: "buf_safe w1 (nat (b_len buf) + 16 + al_block_size lib key)"
    using buf_rep_simps(3-7) [OF w1(2)] buf_rep_simps(3) [OF buf] n(4) sz
    by (simp add: buf_safe_def buf_size_valid_def BUF_SIZE_MAX_def)
  have cont: "buf_content w1 = ?ad" "buf_content buf = pt"
    using buf_rep_simps(1) [OF w1(2)] buf_rep_simps(1) [OF buf] by simp_all
  have xor: "xor_bytes (?pid @ replicate (?n - 8) 0) (take ?n (kc_implicit_iv ?ctx)) = ?iv"
    by (simp add: packet_nonce_def)
  have tk: "take 8 (?pid @ replicate (?n - 8) 0) = ?pid" by simp
  let ?co2 = "co1\<lparr>co_packet_id := (co_packet_id co1)\<lparr>pid_send := send\<rparr>\<rparr>"
  have "openvpn_encrypt_aead hm lib now buf work co =
      Some (mem_write w4 p (al_get_tag lib key ?iv ?ad pt),
        ?co2\<lparr>co_encrypt := ?ctx\<lparr>kc_plaintext_blocks := kc_plaintext_blocks ?ctx + blocks (int (length u))\<rparr>\<rparr>)"
    unfolding openvpn_encrypt_aead_def aead_encrypt_def aead_seal_def Let_def
    using co n iv(1,3) ivd w1(1) safe cont xor tk w2(1) w3(1) w4(1)
    by (simp add: OPENVPN_AEAD_MIN_IV_LEN_def OPENVPN_MAX_IV_LENGTH_def OPENVPN_AEAD_TAG_LENGTH_def
        u_def [symmetric] f_def [symmetric])
  moreover have "pre @ packet_body lib kt ?ctx pre (ps_id send) pt = ?ad @ u @ f @ al_get_tag lib key ?iv ?ad pt"
    using co(4) by (simp add: packet_body_def sealed_def Let_def u_def f_def)
  moreover note iv(2) w4(2)
  ultimately show ?thesis by (intro exI conjI) (assumption | simp only:)+
qed

section \<open>Opening\<close>

lemma take_pid: "take n (epoch_pid e i @ replicate 8 0) = epoch_pid e i @ replicate (n - 8) 0" if "8 \<le> n" "n \<le> 16"
  using that by (simp add: min_def)

lemma openvpn_decrypt_aead_epoch:
  assumes lib: "aead_ok lib kt" "kt_ok kt"
    and co: "co_epoch_format co" "kc_cipher (co_decrypt co) = Some key0" "pr_initialized (pid_rec (co_packet_id co))"
    and slot: "epoch_lookup_decrypt_key co (kc_epoch ctx) = Some slot" "same_key (slot_ctx co slot) ctx"
      "kc_cipher ctx = Some key" "kc_epoch ctx \<noteq> 0" "\<not> cipher_decrypt_verify_fail_exceeded (slot_ctx co slot)"
    and whole: "buf_rep whole ha (pre @ packet_body lib kt ctx pre i pt) ra" and i: "i \<le> PACKET_ID_EPOCH_MAX"
    and sz: "pt \<noteq> []" "length (sealed lib key (packet_nonce kt ctx i) (pre @ epoch_pid (kc_epoch ctx) i) pt) = length pt"
    and work: "buf_rep work hw c rw" "0 \<le> headroom" "headroom + int (length pt) + 32 \<le> int (hw + length c + rw)"
      "hw + length c + rw < 1000000"
    and replay: "crypto_check_replay hm now co \<lparr>pn_id = i, pn_time = 0\<rparr> (kc_epoch ctx) = Some (good, co')"
  shows "\<exists>ok out co''. openvpn_decrypt_aead hm lib now headroom (snd (buf_advance whole (int (length pre)))) work (int ha) co =
      Some (ok, out, co'') \<and> ok = good \<and> (if good then buf_content out = pt else b_len out = 0) \<and>
      (\<exists>pb. co'' = (if good then co'\<lparr>co_decrypt := (co_decrypt co')\<lparr>kc_plaintext_blocks := pb\<rparr>\<rparr> else co'))"
proof -
  let ?n = "kt_iv_size kt" and ?epoch = "kc_epoch ctx"
  let ?pid = "epoch_pid ?epoch i" and ?iv = "packet_nonce kt ctx i"
  let ?ad = "pre @ ?pid"
  let ?tag = "al_get_tag lib key ?iv ?ad pt" and ?ct = "sealed lib key ?iv ?ad pt"
  have n: "12 \<le> ?n" "?n \<le> 16" "\<And>key. al_iv_length lib key = ?n" "al_block_size lib key \<le> 16"
    using lib by (auto simp: kt_ok_def aead_ok_def)
  have body: "packet_body lib kt ctx pre i pt = ?pid @ ?ct @ ?tag"
    using slot(3) by (simp add: packet_body_def Let_def)
  have tagl: "length ?tag = 16" using lib(1) by (simp add: aead_ok_def)
  obtain out fin where of: "al_dec_update lib key ?iv ?ad ?ct = Some out"
    "al_dec_final lib key ?iv ?ad ?ct ?tag = Some fin" "out @ fin = pt"
    using lib(1) unfolding aead_ok_def sealed_def by blast
  obtain m where m: "b_data whole = Some m" "b_offset whole = int ha"
    "take (length pre + (8 + (length pt + 16))) (drop ha m) = pre @ ?pid @ ?ct @ ?tag"
    "length m = ha + length pre + (8 + (length pt + 16)) + ra"
    using whole unfolding buf_rep_iff body by (auto simp: tagl sz(2))
  define b1 where "b1 = snd (buf_advance whole (int (length pre)))"
  have b1: "buf_rep b1 (ha + length pre) (?pid @ ?ct @ ?tag) ra"
    using buf_advance_rep(2) [OF whole] by (simp add: b1_def body)
  obtain b2 where b2: "buf_read b1 8 = (Some ?pid, b2)" "buf_rep b2 (ha + length pre + 8) (?ct @ ?tag) ra"
    using bd.consumeE [OF b1, of 8] by auto
  have m2: "b_data b2 = Some m"
  proof -
    have "b_data b1 = Some m" using m(1) by (auto simp: b1_def buf_advance_def)
    then show ?thesis using b2(1) by (auto simp: buf_read_def buf_read_alloc_def split: option.splits if_splits)
  qed
  have m1: "b_data b1 = Some m" using m(1) by (auto simp: b1_def buf_advance_def)
  note s1 = buf_rep_simps [OF b1] and s2 = buf_rep_simps [OF b2(2)]
  obtain w1 where w1: "buf_init work headroom = (True, w1)" "buf_rep w1 (nat headroom) [] (hw + length c + rw - nat headroom)"
    using buf_init_rep [OF work(1), of "nat headroom"] work(2,3) by (cases "buf_init work headroom") auto
  have rd: "packet_id_read_epoch \<lparr>pn_id = 0, pn_time = 0\<rparr> b1 = (?epoch, \<lparr>pn_id = i, pn_time = 0\<rparr>, b2)"
    using epoch_pack [OF i, of ?epoch] b2(1) by (simp add: packet_id_read_epoch_def epoch_pid_def Let_def)
  have split_m: "drop ha m = (pre @ ?pid @ ?ct @ ?tag) @ drop (length pre + (8 + (length pt + 16))) (drop ha m)"
    using m(3) append_take_drop_id by metis
  have dr: "drop (ha + k) m = drop k (pre @ ?pid @ ?ct @ ?tag) @ drop (length pre + (8 + (length pt + 16))) (drop ha m)"
    if "k \<le> length pre + (8 + (length pt + 16))" for k
  proof -
    have "drop (ha + k) m = drop k (drop ha m)" by (simp add: add.commute)
    also have "\<dots> = drop k (pre @ ?pid @ ?ct @ ?tag) @ drop (length pre + (8 + (length pt + 16))) (drop ha m)"
      using that tagl sz(2) by (subst split_m) (simp del: drop_drop)
    finally show ?thesis .
  qed
  have ivp: "mem_read b1 (b_offset b1) 8 = ?pid"
    using dr [of "length pre"] by (simp add: mem_read_def m1 s1(4) nat_int_add)
  have ad: "mem_read b2 (int ha) (b_offset b2 - int ha) = ?ad"
    using dr [of 0] by (simp add: mem_read_def m2 s2(4) nat_int_add)
  have o2: "nat (b_offset b2) = ha + (length pre + 8)" "nat (b_offset b2 + int (length pt)) = ha + (length pre + (8 + length pt))"
    using s2(4) by linarith+
  have ct: "mem_read b2 (b_offset b2) (int (length pt)) = ?ct"
    using dr [of "length pre + 8"] sz(2) by (simp add: mem_read_def m2 o2)
  have tg: "mem_read b2 (b_offset b2 + int (length pt)) 16 = ?tag"
    using dr [of "length pre + (8 + length pt)"] sz(2) tagl by (simp add: mem_read_def m2 o2)
  have iv: "xor_bytes (take ?n (?pid @ replicate (16 - length ?pid) 0)) (take ?n (kc_implicit_iv (slot_ctx co slot))) = ?iv"
    using take_pid [of ?n ?epoch i] n slot(2) by (simp add: packet_nonce_def same_key_def)
  have keyeq: "kc_cipher (slot_ctx co slot) = Some key" using slot(2,3) by (simp add: same_key_def)
  have dl: "buf_len b2 - 16 = int (length pt)" using s2(2) tagl sz(2) by simp
  have safe: "buf_safe w1 (nat (b_len b2) + al_block_size lib key)"
    using buf_rep_simps(3-7) [OF w1(2)] s2(3) n(4) tagl sz(2) work(2-4)
    by (simp add: buf_safe_def buf_size_valid_def BUF_SIZE_MAX_def)
  have room: "length out \<le> hw + length c + rw - nat headroom" "length fin \<le> hw + length c + rw - nat headroom - length out"
    "nat headroom + length ([] :: u8 list) + (hw + length c + rw - nat headroom) < 1000000"
    "nat headroom + length out + (hw + length c + rw - nat headroom - length out) < 1000000"
  proof -
    have l: "length out + length fin = length pt" using arg_cong [OF of(3), of length] by simp
    have h: "nat headroom + length pt \<le> hw + length c + rw" using work(2,3) by linarith
    then show "length out \<le> hw + length c + rw - nat headroom" "length fin \<le> hw + length c + rw - nat headroom - length out"
      "nat headroom + length ([] :: u8 list) + (hw + length c + rw - nat headroom) < 1000000"
      "nat headroom + length out + (hw + length c + rw - nat headroom - length out) < 1000000"
      using l work(4) by simp_all
  qed
  obtain w2 where w2: "lib_output w1 out = Some w2" "buf_rep w2 (nat headroom) out (hw + length c + rw - nat headroom - length out)"
    using lib_output_rep [OF w1(2) room(1,3)] by (auto simp only: append_Nil)
  obtain w3 where w3: "lib_output w2 fin = Some w3" "buf_content w3 = pt"
  proof -
    obtain w3 where "lib_output w2 fin = Some w3"
      "buf_rep w3 (nat headroom) (out @ fin) (hw + length c + rw - nat headroom - length out - length fin)"
      using lib_output_rep [OF w2(2) room(2,4)] by blast
    then show thesis using that of(3) buf_rep_simps(1) by metis
  qed
  have opened: "aead_open hm lib now b2 w1 (int ha) ?pid \<lparr>pn_id = i, pn_time = 0\<rparr> ?epoch slot co =
    (if good then Some (True, w3, co'\<lparr>co_decrypt := (co_decrypt co')\<lparr>kc_plaintext_blocks :=
                      kc_plaintext_blocks (co_decrypt co') + blocks (int (length fin))\<rparr>\<rparr>)
     else error_exit b2 co')"
    unfolding aead_open_def Let_def
    using co(1,2) keyeq n(3) iv ad ct tg dl safe of(1,2) w2(1) w3(1) replay
    by (simp add: OPENVPN_AEAD_TAG_LENGTH_def OPENVPN_MAX_IV_LENGTH_def)
  have "openvpn_decrypt_aead hm lib now headroom b1 work (int ha) co =
      aead_open hm lib now b2 w1 (int ha) ?pid \<lparr>pn_id = i, pn_time = 0\<rparr> ?epoch slot co"
    unfolding openvpn_decrypt_aead_def Let_def
    using co slot(1,4,5) rd ivp w1(1) s1(3,4) tagl sz
    by (simp add: packet_id_size_def OPENVPN_AEAD_TAG_LENGTH_def Suc_le_eq)
  then show ?thesis unfolding b1_def [symmetric] opened using w3(2) by (auto simp: error_exit_def)
qed

end
