(* ===== verification/EpochSend.thy ===== *)
theory EpochSend
  imports AeadChannel
begin

text \<open>
  The sending side over time: the pair of epoch and packet id that \<open>openvpn_encrypt_aead\<close>
  builds the nonce from only grows, also when a received packet moves the sender to a later
  epoch; the key and nonce the cipher is given are those of that pair, and under one key
  different pairs have different nonces.
\<close>

definition send_pos :: "crypto_options \<Rightarrow> nat \<times> nat" where
  "send_pos co = (send_epoch co, unat (ps_id (pid_send (co_packet_id co))))"

definition pos_less :: "nat \<times> nat \<Rightarrow> nat \<times> nat \<Rightarrow> bool" where
  "pos_less p q \<longleftrightarrow> fst p < fst q \<or> fst p = fst q \<and> snd p < snd q"

lemma pos_less_trans: "pos_less p q \<Longrightarrow> pos_less q r \<Longrightarrow> pos_less p r"
  by (auto simp: pos_less_def)

lemma pos_less_irrefl: "\<not> pos_less p p"
  by (simp add: pos_less_def)

definition pos_le :: "nat \<times> nat \<Rightarrow> nat \<times> nat \<Rightarrow> bool" where
  "pos_le p q \<longleftrightarrow> p = q \<or> pos_less p q"

lemma pos_le_trans [trans]: "pos_le p q \<Longrightarrow> pos_le q r \<Longrightarrow> pos_le p r"
  by (auto simp: pos_le_def intro: pos_less_trans)

lemma pos_le_less_trans: "pos_le p q \<Longrightarrow> pos_less q r \<Longrightarrow> pos_less p r"
  by (auto simp: pos_le_def intro: pos_less_trans)

lemma iterate_send_pos:
  assumes "hmac_ok hm" "send_inv hm e1 co" "send_epoch co < 65535"
  shows "\<exists>co'. epoch_iterate_send_key hm co = Some co' \<and> send_inv hm e1 co' \<and> send_epoch co' = send_epoch co + 1 \<and>
    ps_id (pid_send (co_packet_id co')) = 0 \<and> (\<forall>e1r. recv_inv hm e1r co' = recv_inv hm e1r co) \<and>
    co_epoch_format co' = co_epoch_format co \<and> pid_rec (co_packet_id co') = pid_rec (co_packet_id co) \<and>
    co_epoch_key_type co' = co_epoch_key_type co"
proof -
  let ?co = "co\<lparr>co_encrypt := free_key_ctx (co_encrypt co)\<rparr>"
  have run: "epoch_iterate_send_key hm co = Some (with_send_key hm e1 (send_epoch co + 1) ?co)"
    by (rule epoch_iterate_send_key_inv [OF assms])
  have "recv_inv hm e1r ?co = recv_inv hm e1r co" for e1r by (simp add: recv_inv_def)
  with run with_send_key_inv [OF assms(1) send_invD(2) [OF assms(2)], of ?co "send_epoch co + 1"]
    send_invD(1) [OF assms(2)] assms(3)
  show ?thesis by (simp add: with_send_key_def recv_inv_def reset_packet_id_send_def Let_def)
qed

lemma check_send_iterate_ok:
  assumes hm: "hmac_ok hm" and s: "send_inv hm e1 co"
  shows "\<exists>co'. epoch_check_send_iterate hm co = Some co' \<and> send_inv hm e1 co' \<and> pos_le (send_pos co) (send_pos co') \<and>
    (\<forall>e1r. recv_inv hm e1r co' = recv_inv hm e1r co) \<and> co_epoch_format co' = co_epoch_format co \<and>
    pid_rec (co_packet_id co') = pid_rec (co_packet_id co) \<and> co_epoch_key_type co' = co_epoch_key_type co \<and>
    (ps_id (pid_send (co_packet_id co')) = 0 \<or> ps_id (pid_send (co_packet_id co')) = ps_id (pid_send (co_packet_id co)))"
    (is "\<exists>co'. _ = Some co' \<and> ?P co'")
proof (cases "send_epoch co = 65535")
  case True
  then have "ek_epoch (co_epoch_key_send co) = 0xFFFF" by (simp add: word_unat_eq_iff)
  then show ?thesis using s by (simp add: epoch_check_send_iterate_def pos_le_def)
next
  case False
  then have lt: "send_epoch co < 65535" using epoch_le [of "ek_epoch (co_epoch_key_send co)"] by linarith
  have ne: "ek_epoch (co_epoch_key_send co) \<noteq> 0xFFFF" using lt by auto
  have id: "?P co" using s by (simp add: pos_le_def)
  obtain co1 where it: "epoch_iterate_send_key hm co = Some co1" "send_inv hm e1 co1" "send_epoch co1 = send_epoch co + 1"
    "ps_id (pid_send (co_packet_id co1)) = 0" "\<forall>e1r. recv_inv hm e1r co1 = recv_inv hm e1r co"
    "co_epoch_format co1 = co_epoch_format co" "pid_rec (co_packet_id co1) = pid_rec (co_packet_id co)"
    "co_epoch_key_type co1 = co_epoch_key_type co"
    using iterate_send_pos [OF hm s lt] by blast
  have P1: "?P co1" using it by (simp add: pos_le_def pos_less_def send_pos_def)
  have m1: "ps_id (pid_send (co_packet_id co1)) \<noteq> PACKET_ID_EPOCH_MAX" using it(4) by (simp add: PACKET_ID_EPOCH_MAX_def)
  define step where "step = (if co_aead_usage_limit co \<noteq> 0 then
                 (if aead_usage_limit_reached (co_aead_usage_limit co) (co_encrypt co)
                       (ps_id (pid_send (co_packet_id co)))
                  then epoch_iterate_send_key hm co
                  else if kc_epoch (co_encrypt co) = kc_epoch (co_decrypt co)
                          \<and> (aead_usage_limit_reached (co_aead_usage_limit co) (co_decrypt co)
                               (pr_id (pid_rec (co_packet_id co)))
                             \<or> cipher_decrypt_verify_fail_warn (co_decrypt co))
                  then epoch_iterate_send_key hm co
                  else Some co)
               else Some co)"
  have "step = Some co \<or> step = Some co1" unfolding step_def it(1) by (simp only: split: if_split) blast
  moreover have "epoch_check_send_iterate hm co = step \<bind> (\<lambda>co. if ps_id (pid_send (co_packet_id co)) = PACKET_ID_EPOCH_MAX
        then epoch_iterate_send_key hm co else Some co)"
    using ne by (simp only: epoch_check_send_iterate_def step_def if_False)
  ultimately show ?thesis using id P1 it(1) m1 by (auto simp del: not_None_eq)
qed

lemma iterate_send_reset: "epoch_iterate_send_key hm co = Some co' \<Longrightarrow> ps_id (pid_send (co_packet_id co')) = 0"
  by (auto simp: epoch_iterate_send_key_def epoch_init_send_key_ctx_def reset_packet_id_send_def bind_eq_Some_conv)

lemma check_send_iterate_room:
  assumes "epoch_check_send_iterate hm co = Some co'" "send_epoch co < 65535"
  shows "ps_id (pid_send (co_packet_id co')) \<noteq> PACKET_ID_EPOCH_MAX"
proof -
  have "ek_epoch (co_epoch_key_send co) \<noteq> 0xFFFF" using assms(2) by auto
  then obtain co1 where "(if ps_id (pid_send (co_packet_id co1)) = PACKET_ID_EPOCH_MAX
      then epoch_iterate_send_key hm co1 else Some co1) = Some co'"
    using assms(1) by (auto simp: epoch_check_send_iterate_def bind_eq_Some_conv)
  then show ?thesis using iterate_send_reset by (auto simp: PACKET_ID_EPOCH_MAX_def split: if_splits)
qed

section \<open>Nonces\<close>

text \<open>Under one key the nonce determines the packet id.\<close>

lemma xor_bytes_inj:
  "xor_bytes as cs = xor_bytes bs cs \<Longrightarrow> length as = length bs \<Longrightarrow> length bs \<le> length cs \<Longrightarrow> as = bs"
proof (induction as arbitrary: bs cs)
  case (Cons a as)
  then obtain b bs' c cs' where eq: "bs = b # bs'" "cs = c # cs'" by (cases bs; cases cs) auto
  have "a XOR c = b XOR c" using Cons.prems(1) eq by (simp add: xor_bytes_def)
  then have "(a XOR c) XOR c = (b XOR c) XOR c" by (rule arg_cong)
  then have "a = b" by (simp add: xor.assoc)
  with Cons eq show ?case by (auto simp: xor_bytes_def)
qed simp

lemma epoch_pid_inj:
  assumes "epoch_pid e i = epoch_pid e j" "i \<le> PACKET_ID_EPOCH_MAX" "j \<le> PACKET_ID_EPOCH_MAX"
  shows "i = j"
  using epoch_pack(2) [OF assms(2), of e] epoch_pack(2) [OF assms(3), of e] assms(1)
  unfolding epoch_pid_def by (metis of_be64_be64)

lemma packet_nonce_inj:
  assumes "packet_nonce kt ctx i = packet_nonce kt ctx j" "i \<le> PACKET_ID_EPOCH_MAX" "j \<le> PACKET_ID_EPOCH_MAX"
    and "kt_ok kt" "kt_iv_size kt \<le> length (kc_implicit_iv ctx)"
  shows "i = j"
proof -
  have "epoch_pid (kc_epoch ctx) i @ replicate (kt_iv_size kt - 8) 0 = epoch_pid (kc_epoch ctx) j @ replicate (kt_iv_size kt - 8) (0::u8)"
    using xor_bytes_inj [OF assms(1) [unfolded packet_nonce_def]] assms(4,5) by (simp add: kt_ok_def)
  then show ?thesis using epoch_pid_inj assms(2,3) by simp
qed

lemma length_implicit_iv: "hmac_ok hm \<Longrightarrow> kt_ok kt \<Longrightarrow> length (kc_implicit_iv (recv_ctx hm kt e1 n)) = 16"
  using length_okm by (simp add: recv_ctx_def data_ctx_def kt_ok_def)

text \<open>The epoch, the key and the nonce the cipher is given at a position of the sender.\<close>

definition nonce_at :: "hmac_fun \<Rightarrow> key_type \<Rightarrow> epoch_key \<Rightarrow> nat \<times> nat \<Rightarrow> u16 \<times> u8 list option \<times> u8 list" where
  "nonce_at hm kt e1 p = (let ctx = recv_ctx hm kt e1 (fst p) in
     (word_of_nat (fst p), kc_cipher ctx, packet_nonce kt ctx (word_of_nat (snd p))))"

definition pos_ok :: "nat \<times> nat \<Rightarrow> bool" where
  "pos_ok p \<longleftrightarrow> 1 \<le> fst p \<and> fst p \<le> 65535 \<and> snd p < 2 ^ 48"

lemma nonce_at_inj:
  assumes "hmac_ok hm" "kt_ok kt" "first_key e1" "pos_ok p" "pos_ok q"
    and "fst (nonce_at hm kt e1 p) = fst (nonce_at hm kt e1 q)"
      "snd (snd (nonce_at hm kt e1 p)) = snd (snd (nonce_at hm kt e1 q))"
  shows "p = q"
proof -
  have e: "fst p = fst q" using assms(4-6) word16_eq_iff by (simp add: nonce_at_def pos_ok_def Let_def)
  have le: "(word_of_nat n :: u64) \<le> PACKET_ID_EPOCH_MAX" "unat (word_of_nat n :: u64) = n" if "n < 2 ^ 48" for n
    using that by (simp_all add: word_le_nat_alt PACKET_ID_EPOCH_MAX_def unsigned_of_nat take_bit_nat_eq_self)
  have "(word_of_nat (snd p) :: u64) = word_of_nat (snd q)"
    using packet_nonce_inj [of kt "recv_ctx hm kt e1 (fst q)" "word_of_nat (snd p)" "word_of_nat (snd q)"]
      assms(2,4,5,7) e le length_implicit_iv [OF assms(1,2)]
    by (simp add: nonce_at_def pos_ok_def Let_def kt_ok_def)
  then have "snd p = snd q" using le(2) assms(4,5) unfolding pos_ok_def by metis
  with e show ?thesis by (simp add: prod_eq_iff)
qed

section \<open>One call of the encryption\<close>

lemma aead_seal_opt:
  assumes "aead_seal lib buf work cs pid opt = Some (out, opt')"
  shows "\<exists>pb. opt' = opt\<lparr>co_encrypt := (co_encrypt opt)\<lparr>kc_plaintext_blocks := pb\<rparr>\<rparr>"
proof -
  obtain ok w where w: "buf_write work pid = (ok, w)" by (cases "buf_write work pid")
  obtain key where key: "kc_cipher (cs_ctx cs) = Some key"
    using assms by (cases "kc_cipher (cs_ctx cs)") (simp_all add: aead_seal_def)
  show ?thesis
  proof (cases "buf_safe w (nat (b_len buf) + OPENVPN_AEAD_TAG_LENGTH + al_block_size lib key)")
    case False
    then have "opt' = opt" using assms w key by (auto simp: aead_seal_def Let_def bind_eq_Some_conv)
    then show ?thesis by (intro exI [of _ "kc_plaintext_blocks (co_encrypt opt)"]) simp
  next
    case True
    then show ?thesis using assms w key
      by (clarsimp simp: aead_seal_def Let_def bind_eq_Some_conv) blast
  qed
qed

lemma write_epoch_pos:
  assumes "packet_id_write_epoch now p e b = (ok, p', b')" "ps_id p \<le> PACKET_ID_EPOCH_MAX"
  shows "unat (ps_id p) \<le> unat (ps_id p') \<and> ps_id p' \<le> PACKET_ID_EPOCH_MAX \<and> (ok \<longrightarrow> unat (ps_id p') = unat (ps_id p) + 1)"
proof -
  have "(ps_id p' = ps_id p \<and> \<not> ok) \<or> (ps_id p' = ps_id p + 1 \<and> ps_id p \<noteq> PACKET_ID_EPOCH_MAX)"
    using assms(1) by (auto simp: packet_id_write_epoch_def packet_id_send_update_epoch_def Let_def split: prod.splits if_splits)
  moreover have "unat (ps_id p + 1) = unat (ps_id p) + 1 \<and> ps_id p + 1 \<le> PACKET_ID_EPOCH_MAX"
    if "ps_id p \<noteq> PACKET_ID_EPOCH_MAX"
  proof -
    have lt: "ps_id p < PACKET_ID_EPOCH_MAX" using that assms(2) by simp
    then show ?thesis using unat_succ_less [OF lt] by (simp add: word_less_nat_alt word_le_nat_alt)
  qed
  ultimately show ?thesis using assms(2) by auto
qed

definition send_ok :: "hmac_fun \<Rightarrow> epoch_key \<Rightarrow> crypto_options \<Rightarrow> bool" where
  "send_ok hm e1 co \<longleftrightarrow> send_inv hm e1 co \<and> ps_id (pid_send (co_packet_id co)) \<le> PACKET_ID_EPOCH_MAX \<and> co_epoch_format co"

text \<open>The epoch, key and nonce of a cipher context.\<close>

definition cipher_nonce :: "cipher_state \<Rightarrow> u16 \<times> u8 list option \<times> u8 list" where
  "cipher_nonce cs = (kc_epoch (cs_ctx cs), kc_cipher (cs_ctx cs), cs_iv cs)"

lemma encrypt_pos:
  assumes hm: "hmac_ok hm" and s: "send_ok hm e1 co" and lib: "\<forall>key. al_iv_length lib key = kt_iv_size (co_epoch_key_type co)"
    and run: "aead_encrypt hm lib now buf work co = Some (out, co', cs)"
  shows "send_ok hm e1 co' \<and> pos_le (send_pos co) (send_pos co') \<and>
    (\<forall>e1r. recv_inv hm e1r co' = recv_inv hm e1r co) \<and> co_epoch_key_type co' = co_epoch_key_type co \<and>
    (case cs of None \<Rightarrow> b_len out = 0
     | Some c \<Rightarrow> pos_less (send_pos co) (send_pos co') \<and> cipher_nonce c = nonce_at hm (co_epoch_key_type co) e1 (send_pos co'))"
proof -
  have s': "send_inv hm e1 co" "co_epoch_format co" using s by (simp_all add: send_ok_def)
  let ?kt = "co_epoch_key_type co" and ?n = "kt_iv_size (co_epoch_key_type co)"
  obtain co1 where c1: "epoch_check_send_iterate hm co = Some co1" "send_inv hm e1 co1" "pos_le (send_pos co) (send_pos co1)"
    "\<forall>e1r. recv_inv hm e1r co1 = recv_inv hm e1r co" "co_epoch_format co1" "co_epoch_key_type co1 = ?kt"
    "ps_id (pid_send (co_packet_id co1)) \<le> PACKET_ID_EPOCH_MAX"
    using check_send_iterate_ok [OF hm s'(1)] s by (fastforce simp: send_ok_def)
  let ?ctx = "co_encrypt co1"
  obtain key where key: "kc_cipher ?ctx = Some key"
    using run s'(2) c1(1) by (cases "kc_cipher ?ctx") (simp_all add: aead_encrypt_def Let_def)
  have n: "12 \<le> ?n" "?n \<le> 16" using send_invD(1) [OF s'(1)] by (simp_all add: kt_ok_def)
  let ?ivb = "\<lparr>b_capacity = int ?n, b_offset = 0, b_len = 0, b_data = Some (replicate ?n (0::u8))\<rparr>"
  obtain ok send ivb where w: "packet_id_write_epoch now (pid_send (co_packet_id co1)) (kc_epoch ?ctx) ?ivb = (ok, send, ivb)"
    by (cases "packet_id_write_epoch now (pid_send (co_packet_id co1)) (kc_epoch ?ctx) ?ivb") auto
  note wp = write_epoch_pos [OF w c1(7)]
  let ?co2 = "co1\<lparr>co_packet_id := (co_packet_id co1)\<lparr>pid_send := send\<rparr>\<rparr>"
  let ?iv = "packet_nonce ?kt ?ctx (ps_id send)"
  have ivd: "b_data ivb = Some (epoch_pid (kc_epoch ?ctx) (ps_id send) @ replicate (?n - 8) 0)" if ok
  proof -
    have "unat (ps_id (pid_send (co_packet_id co1))) + 1 \<le> unat PACKET_ID_EPOCH_MAX"
      using wp that by (simp add: word_le_nat_alt)
    then have "ps_id (pid_send (co_packet_id co1)) < PACKET_ID_EPOCH_MAX" by (simp add: word_less_nat_alt)
    from iv_buffer_write [OF this, of ?n now "kc_epoch ?ctx"] n w show ?thesis by auto
  qed
  have res: "(\<not> ok \<and> co' = ?co2 \<and> b_len out = 0 \<and> cs = None) \<or>
      (ok \<and> cs = Some \<lparr>cs_ctx = ?ctx, cs_iv = ?iv\<rparr> \<and> (\<exists>c pid. aead_seal lib buf work c pid ?co2 = Some (out, co')))"
  proof (cases ok)
    case True
    with run s'(2) c1(1,5) key w lib ivd show ?thesis
      by (auto simp: aead_encrypt_def packet_nonce_def Let_def bind_eq_Some_conv split: if_splits)
  next
    case False
    with run s'(2) c1(1,5) key w lib show ?thesis
      by (auto simp: aead_encrypt_def Let_def bind_eq_Some_conv split: if_splits)
  qed
  then obtain pb where co': "co' = ?co2\<lparr>co_encrypt := (co_encrypt ?co2)\<lparr>kc_plaintext_blocks := pb\<rparr>\<rparr>"
  proof
    assume "\<not> ok \<and> co' = ?co2 \<and> b_len out = 0 \<and> cs = None"
    then show thesis using that [of "kc_plaintext_blocks (co_encrypt co1)"] by simp
  next
    assume "ok \<and> cs = Some \<lparr>cs_ctx = ?ctx, cs_iv = ?iv\<rparr> \<and> (\<exists>c pid. aead_seal lib buf work c pid ?co2 = Some (out, co'))"
    then show thesis using that aead_seal_opt by blast
  qed
  have inv: "send_ok hm e1 co'" using c1(2,5) wp by (simp add: co' send_ok_def send_inv_def same_key_def)
  have le: "pos_le (send_pos co1) (send_pos co')" "ok \<Longrightarrow> pos_less (send_pos co1) (send_pos co')"
    using wp by (auto simp: co' pos_le_def pos_less_def send_pos_def)
  have rv: "recv_inv hm e1r co' = recv_inv hm e1r co" for e1r
    using c1(4) by (simp add: co' recv_inv_def Let_def)
  have "same_key ?ctx (recv_ctx hm ?kt e1 (send_epoch co1))" using send_invD(5) [OF c1(2)] c1(6) by simp
  moreover have "kc_epoch ?ctx = word_of_nat (send_epoch co1)"
    using send_inv_encrypt_epoch [OF hm c1(2)] by simp
  ultimately have "cipher_nonce \<lparr>cs_ctx = ?ctx, cs_iv = ?iv\<rparr> = nonce_at hm ?kt e1 (send_pos co')"
    by (simp add: cipher_nonce_def nonce_at_def send_pos_def co' same_key_def packet_nonce_def Let_def)
  then show ?thesis
    using inv rv pos_le_trans [OF c1(3) le(1)] pos_le_less_trans [OF c1(3) le(2)] res c1(6) by (auto simp: co')
qed

lemma send_pos_ok:
  assumes "send_ok hm e1 co"
  shows "pos_ok (send_pos co)"
  using assms send_invD(3) [of hm e1 co] epoch_le [of "ek_epoch (co_epoch_key_send co)"]
  by (auto simp: pos_ok_def send_pos_def send_ok_def word_le_nat_alt PACKET_ID_EPOCH_MAX_def)

text \<open>A received packet can only move the sender forward.\<close>

lemma receive_pos:
  assumes hm: "hmac_ok hm" and inv: "recv_inv hm e1r co" "send_ok hm e1s co" and now: "now > 1"
    and l: "epoch_lookup_decrypt_key co epoch = Some slot"
    and run: "crypto_check_replay hm now co pin epoch = Some (good, co')"
  shows "recv_inv hm e1r co' \<and> send_ok hm e1s co' \<and> pos_le (send_pos co) (send_pos co') \<and>
    co_epoch_key_type co' = co_epoch_key_type co"
proof -
  have s: "send_inv hm e1s co" using inv(2) by (simp add: send_ok_def)
  have sk: "send_pos co1 = send_pos co \<and> ps_id (pid_send (co_packet_id co1)) = ps_id (pid_send (co_packet_id co)) \<and>
      co_epoch_format co1 = co_epoch_format co \<and> co_epoch_key_type co1 = co_epoch_key_type co"
    if "co1 = co\<lparr>co_retiring_pid := p\<rparr> \<or> co1 = co\<lparr>co_packet_id := (co_packet_id co)\<lparr>pid_rec := q\<rparr>\<rparr>" for co1 p q
    using that by (auto simp: send_pos_def)
  show ?thesis
  proof (cases "unat epoch = recv_epoch co + future_count co")
    case True
    have "recv_epoch co < unat epoch" using True recv_invD(4) [OF inv(1)] by linarith
    then have e0: "epoch \<noteq> 0" "unat epoch > recv_epoch co" by auto
    then have ne: "kc_epoch (co_decrypt co) \<noteq> epoch" "epoch \<noteq> kc_epoch (co_retiring co)"
      using retiring_older [OF hm inv(1)] by auto
    then have "crypto_check_replay hm now co pin epoch = None"
      using epoch_replace_last_aborts [OF hm inv(1) s True] e0 by (auto simp: crypto_check_replay_def)
    then show ?thesis using run by simp
  next
    case False
    have b: "both_inv hm e1r e1s co" using inv(1) s by simp
    have ok: "both_inv hm e1r e1s co'" using crypto_check_replay_ok [OF hm b now l False, of pin] run by auto
    show ?thesis
    proof (cases "unat epoch > recv_epoch co")
      case False
      have "epoch = kc_epoch (co_decrypt co) \<or> epoch = kc_epoch (co_retiring co)"
      proof (cases slot)
        case Current
        then show ?thesis using l lookup_current [of co epoch] by simp
      next
        case Retiring
        then show ?thesis using lookup_slot [OF hm inv(1) l] by simp
      next
        case (Future i)
        then show ?thesis using lookup_slot [OF hm inv(1) l] False by simp
      qed
      then obtain p q where c: "co' = co\<lparr>co_retiring_pid := p\<rparr> \<or> co' = co\<lparr>co_packet_id := (co_packet_id co)\<lparr>pid_rec := q\<rparr>\<rparr>"
        using run by (auto simp: crypto_check_replay_def bind_eq_Some_conv split: if_splits)
      from sk [OF c] show ?thesis using ok inv(2) by (simp add: send_ok_def pos_le_def)
    next
      case True
      then have e: "recv_epoch co < unat epoch" "unat epoch < recv_epoch co + future_count co" "unat epoch + future_count co \<le> 65535"
        using lookup_slot [OF hm inv(1) l] False by (cases slot; simp)+
      obtain rec fut where m: "epoch_replace_update_recv_key hm co (word_of_nat (unat epoch)) =
          Some (moved hm e1r e1s co (unat epoch) rec fut)"
        using epoch_replace_moved [OF hm inv(1) s e] by blast
      have ne: "epoch \<noteq> 0" "kc_epoch (co_decrypt co) \<noteq> epoch" "epoch \<noteq> kc_epoch (co_retiring co)"
        using e(1) retiring_older [OF hm inv(1)] by (cases "kc_epoch (co_retiring co) = 0"; force)+
      let ?m = "moved hm e1r e1s co (unat epoch) rec fut"
      obtain p where co': "co' = ?m\<lparr>co_packet_id := (co_packet_id ?m)\<lparr>pid_rec := p\<rparr>\<rparr>"
        using run ne m by (auto simp: crypto_check_replay_def bind_eq_Some_conv)
      have "pos_le (send_pos co) (send_pos co') \<and> ps_id (pid_send (co_packet_id co')) \<le> PACKET_ID_EPOCH_MAX \<and> co_epoch_format co' \<and>
          co_epoch_key_type co' = co_epoch_key_type co"
        using inv(2) e(3) epoch_at_props [OF hm send_invD(2) [OF s], of "unat epoch"] e(1)
        by (auto simp: co' moved_def Let_def with_send_key_def send_pos_def pos_le_def pos_less_def send_ok_def
            reset_packet_id_send_def)
      then show ?thesis using ok by (simp add: send_ok_def)
    qed
  qed
qed

end
