(* ===== verification/EpochProps.thy ===== *)
theory EpochProps
  imports EpochSend
begin

text \<open>
  The properties of the data channel keys and packets: derivation, lookup, replay protection
  across epochs, nonces, the round trip of a packet, and the epoch that cannot be entered.
\<close>

section \<open>Histories of received packets\<close>

text \<open>What \<open>openvpn_decrypt_aead\<close> does with the epoch and packet id of an authentic packet;
  the state \<open>None\<close> is that of a process that has aborted.\<close>

definition epoch_receive ::
  "hmac_fun \<Rightarrow> int \<Rightarrow> crypto_options option \<Rightarrow> u16 \<times> packet_id_net \<Rightarrow> (bool \<times> crypto_options option) option" where
  "epoch_receive hm now st m = (case st of
       None \<Rightarrow> Some (False, None)
     | Some co \<Rightarrow> (case epoch_lookup_decrypt_key co (fst m) of
         None \<Rightarrow> Some (False, st)
       | Some slot \<Rightarrow> (case crypto_check_replay hm now co (snd m) (fst m) of
           None \<Rightarrow> Some (False, None)
         | Some (good, co') \<Rightarrow> Some (good, Some co'))))"

definition channel_ok :: "hmac_fun \<Rightarrow> crypto_options option \<Rightarrow> bool" where
  "channel_ok hm st \<longleftrightarrow> hmac_ok hm \<and> (case st of None \<Rightarrow> True | Some co \<Rightarrow> \<exists>e1r e1s. both_inv hm e1r e1s co)"

definition channel_retired :: "crypto_options option \<Rightarrow> u16 \<times> packet_id_net \<Rightarrow> bool" where
  "channel_retired st m = (case st of None \<Rightarrow> True | Some co \<Rightarrow> epoch_retired co m)"

text \<open>The replay contract holds of the whole channel: the second model of the same interface,
  on top of the first.\<close>

interpretation ch: replay_filter "channel_ok hm" channel_retired "epoch_receive hm"
  for hm
proof
  fix st m and now :: int
  assume ok: "channel_ok hm st" and now: "now > 1"
  show "\<exists>r st'. epoch_receive hm now st m = Some (r, st') \<and> channel_ok hm st' \<and>
      (r \<longrightarrow> \<not> channel_retired st m \<and> channel_retired st' m) \<and> (\<forall>q. channel_retired st q \<longrightarrow> channel_retired st' q)"
  proof (cases st)
    case None
    then show ?thesis using ok
      by (intro exI [of _ False] exI [of _ None]) (simp add: epoch_receive_def channel_ok_def channel_retired_def)
  next
    case (Some co)
    obtain epoch pin where m: "m = (epoch, pin)" by (cases m)
    obtain e1r e1s where hm: "hmac_ok hm" and inv: "both_inv hm e1r e1s co" using ok Some by (auto simp: channel_ok_def)
    show ?thesis
    proof (cases "epoch_lookup_decrypt_key co epoch")
      case None
      then show ?thesis using ok Some m by (intro exI [of _ False] exI [of _ st]) (simp add: epoch_receive_def)
    next
      case l: (Some slot)
      show ?thesis
      proof (cases "unat epoch = recv_epoch co + future_count co")
        case True
        have "recv_epoch co < unat epoch" using True recv_invD(4) [OF conjunct1 [OF inv]] by linarith
        then have e0: "epoch \<noteq> 0" "unat epoch > recv_epoch co" by auto
        then have ne: "kc_epoch (co_decrypt co) \<noteq> epoch" "epoch \<noteq> kc_epoch (co_retiring co)"
          using retiring_older [OF hm conjunct1 [OF inv]] by auto
        then have "crypto_check_replay hm now co pin epoch = None"
          using epoch_replace_last_aborts [OF hm _ _ True] inv e0 by (auto simp: crypto_check_replay_def)
        then show ?thesis using hm l Some m
          by (intro exI [of _ False] exI [of _ None]) (simp add: epoch_receive_def channel_ok_def channel_retired_def)
      next
        case False
        from crypto_check_replay_ok [OF hm inv now l False, of pin] show ?thesis
          using hm l Some m by (fastforce simp: epoch_receive_def channel_ok_def channel_retired_def)
      qed
    qed
  qed
qed

fun channel_history ::
  "hmac_fun \<Rightarrow> crypto_options option \<Rightarrow> (int \<times> u16 \<times> packet_id_net) list \<Rightarrow> (u16 \<times> packet_id_net) list option" where
  "channel_history hm st [] = Some []"
| "channel_history hm st ((now, m) # es) = do {
     (r, st') \<leftarrow> epoch_receive hm now st m;
     ms \<leftarrow> channel_history hm st' es;
     Some (if r then m # ms else ms) }"

lemma channel_history_accepts: "channel_history hm st es = ch.accepts hm st es"
  by (induction hm st es rule: channel_history.induct) (auto split: Option.bind_splits)

section \<open>A concrete library for the witnesses\<close>

definition demo_hmac :: hmac_fun where
  "demo_hmac k m = replicate 32 (sum_list k + 3 * sum_list m)"

definition demo_key :: "u8 \<Rightarrow> epoch_key" where
  "demo_key b = \<lparr>ek_key = replicate 32 b, ek_epoch = 1\<rparr>"

definition demo_kt :: key_type where "demo_kt = \<lparr>kt_key_size = 32, kt_iv_size = 12\<rparr>"

definition demo_window :: packet_id_rec where
  "demo_window = the (packet_id_init_recv cleared_rec 64 15 [] 0)"

definition sample_packet :: buffer where
  "sample_packet = \<lparr>b_capacity = 8, b_offset = 2, b_len = 3, b_data = Some [0, 0, 1, 2, 3, 0, 0, 0]\<rparr>"

definition sample_work :: buffer where
  "sample_work = \<lparr>b_capacity = 100, b_offset = 4, b_len = 1, b_data = Some (replicate 4 0 @ [9] @ replicate 95 0)\<rparr>"

definition demo_co :: crypto_options where
  "demo_co = \<lparr>co_encrypt = cleared_ctx, co_decrypt = cleared_ctx, co_initialized = False,
     co_epoch_key_send = demo_key 0, co_epoch_key_recv = demo_key 0, co_epoch_key_type = demo_kt,
     co_aead_usage_limit = 0, co_future = [], co_retiring = cleared_ctx, co_retiring_pid = cleared_rec,
     co_packet_id = \<lparr>pid_send = \<lparr>ps_id = 0, ps_time = 0\<rparr>, pid_rec = demo_window\<rparr>, co_epoch_format = True,
     co_long_form = False, co_ignore_packet_id = False\<rparr>"

lemma demo_ok:
  "hmac_ok demo_hmac" "first_key (demo_key b)" "kt_ok demo_kt"
  "kc_epoch (co_encrypt demo_co) = 0" "kc_epoch (co_retiring demo_co) = 0"
  "window_ok (pid_rec (co_packet_id demo_co))"
proof -
  obtain r where r: "packet_id_init_recv cleared_rec 64 15 [] 0 = Some r" "pid_wf r"
    using packet_id_init_recv_wf [of 64 15 "[]" 0] by (auto simp: MAX_SEQ_BACKTRACK_def MAX_TIME_BACKTRACK_def)
  then have "pr_time_backtrack r \<le> MAX_TIME_BACKTRACK"
    by (auto simp: packet_id_init_recv_def cleared_rec_def Let_def MAX_TIME_BACKTRACK_def bind_eq_Some_conv)
  then show "window_ok (pid_rec (co_packet_id demo_co))" using r by (simp add: demo_co_def demo_window_def window_ok_def)
qed (simp_all add: hmac_ok_def demo_hmac_def first_key_def demo_key_def kt_ok_def demo_kt_def demo_co_def cleared_ctx_def)

section \<open>Properties\<close>

text \<open>
  C33: the HKDF loop computes HKDF-Expand of RFC 5869, \<open>T(1) | T(2) | ...\<close> cut at the length
  asked for, for every length up to 254 blocks (a key or IV is at most 64 bytes); what lies
  behind that length in the output is left alone, and the loop ends.
\<close>

theorem ovpn_hkdf_expand_rfc5869:
  assumes "hmac_ok hm" "len \<le> 8128" "len \<le> length out"
  shows "ovpn_hkdf_expand hm secret info out (int len) =
    Some (take len (hkdf_blocks hm secret info 255) @ drop len out)"
  using ovpn_hkdf_expand_okm [OF assms] by (simp add: okm_def)

lemma ovpn_hkdf_expand_rfc5869_witness:
  "ovpn_hkdf_expand demo_hmac [1] [2] (replicate 40 0) 33 =
     Some (take 33 (hkdf_blocks demo_hmac [1] [2] 255) @ drop 33 (replicate 40 0))"
  using ovpn_hkdf_expand_rfc5869 [OF demo_ok(1), of 33 "replicate 40 0" "[1]" "[2]"] by simp

text \<open>
  C3: whatever authentic packets of whatever epochs arrive in whatever order, no pair of
  epoch and packet id is accepted twice, from the state \<open>epoch_init_key_ctx\<close> sets up on; the
  key changes on the way and the window of the epoch being retired are part of the history.
\<close>

theorem epoch_replay_protection:
  assumes "hmac_ok hm" "first_key e1s" "first_key e1r" "kt_ok kt" "0 < c" "c < 65535"
    and "kc_epoch (co_encrypt co) = 0" "kc_epoch (co_retiring co) = 0" "window_ok (pid_rec (co_packet_id co))"
    and "\<forall>(now, m) \<in> set es. now > 1"
  shows "\<exists>co' acc. epoch_init_key_ctx hm co kt limit e1s e1r c = Some co' \<and>
    channel_history hm (Some co') es = Some acc \<and> distinct acc"
proof -
  obtain co' where co': "epoch_init_key_ctx hm co kt limit e1s e1r c = Some co'" "both_inv hm e1r e1s co'"
    using epoch_init_inv [OF assms(1-9)] by blast
  have "channel_ok hm (Some co')" using assms(1) co'(2) by (auto simp: channel_ok_def)
  from ch.accepts_once [OF this assms(10)] co'(1) show ?thesis by (auto simp: channel_history_accepts)
qed

lemma epoch_replay_protection_witness:
  "\<exists>co' acc. epoch_init_key_ctx demo_hmac demo_co demo_kt 0 (demo_key 1) (demo_key 2) 16 = Some co' \<and>
    channel_history demo_hmac (Some co')
      [(10, 1, \<lparr>pn_id = 1, pn_time = 0\<rparr>), (10, 2, \<lparr>pn_id = 1, pn_time = 0\<rparr>), (11, 1, \<lparr>pn_id = 1, pn_time = 0\<rparr>)] = Some acc \<and>
    distinct acc"
  by (rule epoch_replay_protection) (simp_all add: demo_ok)

text \<open>
  The receiver answers a packet of epoch \<open>e\<close> only with the key material of epoch \<open>e\<close> of
  the chain that starts at the first receive key, whatever it has moved through before; and
  it does have the key of the current epoch and of all the next ones it keeps, up to the end
  of the epoch space.
\<close>

theorem epoch_lookup_exact:
  assumes "hmac_ok hm" "recv_inv hm e1 co"
  shows "(\<forall>slot. epoch_lookup_decrypt_key co e = Some slot \<longrightarrow>
      same_key (slot_ctx co slot) (data_ctx hm (co_epoch_key_type co) ((next_epoch hm ^^ (unat e - 1)) e1))) \<and>
    (recv_epoch co \<le> unat e \<and> unat e \<le> recv_epoch co + future_count co \<and>
       (unat e + future_count co < 65535 \<or> unat e = recv_epoch co) \<longrightarrow> epoch_lookup_decrypt_key co e \<noteq> None)"
proof (intro conjI allI impI)
  fix slot
  assume "epoch_lookup_decrypt_key co e = Some slot"
  from lookup_slot [OF assms this]
  show "same_key (slot_ctx co slot) (data_ctx hm (co_epoch_key_type co) ((next_epoch hm ^^ (unat e - 1)) e1))"
    by (simp add: recv_ctx_def epoch_at_def)
next
  assume e: "recv_epoch co \<le> unat e \<and> unat e \<le> recv_epoch co + future_count co \<and>
       (unat e + future_count co < 65535 \<or> unat e = recv_epoch co)"
  show "epoch_lookup_decrypt_key co e \<noteq> None"
  proof (cases "unat e = recv_epoch co")
    case True
    then have "kc_epoch (co_decrypt co) = e" by (metis unsigned_word_eqI)
    then show ?thesis using lookup_current [of co e] by simp
  next
    case False
    then have "recv_epoch co < unat e" using e by simp
    moreover have "kc_epoch (co_retiring co) \<noteq> e"
      using retiring_older [OF assms] calculation by fastforce
    ultimately show ?thesis using lookup_future [of co e] e False by simp
  qed
qed

lemma demo_run: "\<exists>co. epoch_init_key_ctx demo_hmac demo_co demo_kt 0 (demo_key 1) (demo_key 2) 16 = Some co \<and>
    recv_inv demo_hmac (demo_key 2) co \<and> send_inv demo_hmac (demo_key 1) co \<and> recv_epoch co = 1 \<and> send_epoch co = 1 \<and>
    future_count co = 16 \<and> ps_id (pid_send (co_packet_id co)) = 0 \<and>
    pid_rec (co_packet_id co) = pid_rec (co_packet_id demo_co) \<and> co_epoch_key_type co = demo_kt \<and>
    co_epoch_format co = co_epoch_format demo_co"
  by (rule epoch_init_inv) (simp_all add: demo_ok)

lemma epoch_lookup_exact_witness:
  "\<exists>co. epoch_init_key_ctx demo_hmac demo_co demo_kt 0 (demo_key 1) (demo_key 2) 16 = Some co \<and>
    epoch_lookup_decrypt_key co 7 \<noteq> None"
  using demo_run epoch_lookup_exact [OF demo_ok(1), of "demo_key 2" _ 7] by fastforce

datatype channel_event = Send int buffer buffer | Receive int u16 packet_id_net

text \<open>The epoch, key and nonce that \<open>cipher_ctx_reset\<close> is called with for each packet of a
  run of a channel, up to the end of the run or to an abort.\<close>

fun nonces_sent ::
  "hmac_fun \<Rightarrow> aead_lib \<Rightarrow> crypto_options \<Rightarrow> channel_event list \<Rightarrow> (u16 \<times> u8 list option \<times> u8 list) list" where
  "nonces_sent hm lib co [] = []"
| "nonces_sent hm lib co (Send now buf work # es) =
     (case aead_encrypt hm lib now buf work co of
        None \<Rightarrow> []
      | Some (out, co', cs) \<Rightarrow>
          (case cs of None \<Rightarrow> [] | Some c \<Rightarrow> [cipher_nonce c]) @ nonces_sent hm lib co' es)"
| "nonces_sent hm lib co (Receive now epoch pin # es) =
     (case epoch_lookup_decrypt_key co epoch of
        None \<Rightarrow> nonces_sent hm lib co es
      | Some slot \<Rightarrow>
          (case crypto_check_replay hm now co pin epoch of
             None \<Rightarrow> []
           | Some (good, co') \<Rightarrow> nonces_sent hm lib co' es))"

lemma nonces_sent_positions:
  assumes "hmac_ok hm" "recv_inv hm e1r co" "send_ok hm e1s co" "co_epoch_key_type co = kt"
    and lib: "\<forall>key. al_iv_length lib key = kt_iv_size kt"
    and "\<forall>now epoch pin. Receive now epoch pin \<in> set es \<longrightarrow> now > 1"
  shows "\<exists>ps. nonces_sent hm lib co es = map (nonce_at hm kt e1s) ps \<and> sorted_wrt pos_less ps \<and>
    (\<forall>p \<in> set ps. pos_less (send_pos co) p \<and> pos_ok p)"
  using assms(2-4,6)
proof (induction es arbitrary: co)
  case (Cons e es)
  have ev: "\<forall>now epoch pin. Receive now epoch pin \<in> set es \<longrightarrow> now > 1" using Cons.prems(4) by simp
  show ?case
  proof (cases e)
    case (Send now buf work)
    show ?thesis
    proof (cases "aead_encrypt hm lib now buf work co")
      case (Some r)
      obtain out co' cs where r: "r = (out, co', cs)" by (cases r) auto
      note p = encrypt_pos [OF assms(1) Cons.prems(2) lib [folded Cons.prems(3)] Some [unfolded r], unfolded Cons.prems(3)]
      have "recv_inv hm e1r co'" "send_ok hm e1s co'" "co_epoch_key_type co' = kt" using p Cons.prems(1) by blast+
      from Cons.IH [OF this ev] obtain ps where ps: "nonces_sent hm lib co' es = map (nonce_at hm kt e1s) ps"
        "sorted_wrt pos_less ps" "\<forall>q \<in> set ps. pos_less (send_pos co') q \<and> pos_ok q" by blast
      have lt: "pos_less (send_pos co) q" if "q \<in> set ps" for q
        using pos_le_less_trans [of "send_pos co" "send_pos co'" q] p ps(3) that by blast
      show ?thesis
      proof (cases cs)
        case None
        then show ?thesis using ps lt by (auto simp: Send Some r)
      next
        case (Some c)
        then show ?thesis using \<open>aead_encrypt hm lib now buf work co = Some r\<close> ps lt p send_pos_ok [of hm e1s co']
          by (intro exI [of _ "send_pos co' # ps"]) (simp add: Send r)
      qed
    qed (simp add: Send)
  next
    case (Receive now epoch pin)
    then have now: "now > 1" using Cons.prems(4) by auto
    show ?thesis
    proof (cases "epoch_lookup_decrypt_key co epoch")
      case None
      then show ?thesis using Cons.IH [OF Cons.prems(1-3) ev] by (simp add: Receive)
    next
      case l: (Some slot)
      show ?thesis
      proof (cases "crypto_check_replay hm now co pin epoch")
        case (Some r)
        obtain good co' where r: "r = (good, co')" by (cases r)
        note p = receive_pos [OF assms(1) Cons.prems(1,2) now l Some [unfolded r]]
        then have "recv_inv hm e1r co'" "send_ok hm e1s co'" "co_epoch_key_type co' = kt" "pos_le (send_pos co) (send_pos co')"
          using Cons.prems(3) by simp_all
        with Cons.IH [OF this(1-3) ev] show ?thesis
          unfolding Receive nonces_sent.simps l Some r option.case prod.case using pos_le_less_trans by blast
      qed (simp add: Receive l)
    qed
  qed
qed simp

lemma distinct_nonces:
  assumes "hmac_ok hm" "kt_ok kt" "first_key e1" "sorted_wrt pos_less ps" "\<forall>p \<in> set ps. pos_ok p"
  shows "distinct (map (\<lambda>(epoch, key, nonce). (epoch, nonce)) (map (nonce_at hm kt e1) ps))"
proof -
  have "distinct ps" using assms(4) by (induction ps) (auto simp: pos_less_irrefl)
  moreover have "inj_on ((\<lambda>(epoch, key, nonce). (epoch, nonce)) \<circ> nonce_at hm kt e1) (set ps)"
    using assms(5) nonce_at_inj [OF assms(1-3)] by (intro inj_onI) (auto split: prod.splits)
  ultimately show ?thesis by (simp add: distinct_map comp_def)
qed

text \<open>
  C2: no nonce is used twice under a key. Over any run of sends and receives from the state
  \<open>epoch_init_key_ctx\<close> sets up on, every packet is encrypted under the key derived for the
  sender's epoch and the nonce that xors the pair of epoch and packet id into the implicit
  IV derived with the key; these pairs grow strictly, through key changes of the sender's
  own and those that a packet of the peer forces, and no two of the nonces the cipher is
  reset with in one epoch are the same. The library is only assumed to report the IV length
  of the negotiated cipher.
\<close>

theorem nonces_never_reused:
  assumes "hmac_ok hm" "first_key e1s" "first_key e1r" "kt_ok kt" "0 < c" "c < 65535"
    and "kc_epoch (co_encrypt co) = 0" "kc_epoch (co_retiring co) = 0" "window_ok (pid_rec (co_packet_id co))"
    and "co_epoch_format co" "\<forall>now epoch pin. Receive now epoch pin \<in> set es \<longrightarrow> now > 1"
    and "\<forall>key. al_iv_length lib key = kt_iv_size kt"
  shows "\<exists>co' ps. epoch_init_key_ctx hm co kt limit e1s e1r c = Some co' \<and>
    nonces_sent hm lib co' es = map (nonce_at hm kt e1s) ps \<and> sorted_wrt pos_less ps \<and>
    distinct (map (\<lambda>(epoch, key, nonce). (epoch, nonce)) (nonces_sent hm lib co' es))"
proof -
  obtain co' where co': "epoch_init_key_ctx hm co kt limit e1s e1r c = Some co'" "recv_inv hm e1r co'" "send_inv hm e1s co'"
    "ps_id (pid_send (co_packet_id co')) = 0" "co_epoch_format co' = co_epoch_format co" "co_epoch_key_type co' = kt"
    using epoch_init_inv [OF assms(1-9)] by blast
  then have ok: "send_ok hm e1s co'" using co' assms(10) by (simp add: send_ok_def)
  obtain ps where ps: "nonces_sent hm lib co' es = map (nonce_at hm kt e1s) ps" "sorted_wrt pos_less ps" "\<forall>p \<in> set ps. pos_ok p"
    using nonces_sent_positions [OF assms(1) co'(2) ok co'(6) assms(12,11)] by blast
  have "distinct (map (\<lambda>(epoch, key, nonce). (epoch, nonce)) (nonces_sent hm lib co' es))"
    unfolding ps(1) by (rule distinct_nonces [OF assms(1,4,2) ps(2,3)])
  with ps co'(1) show ?thesis by blast
qed

definition demo_lib :: aead_lib where
  "demo_lib = \<lparr>al_iv_length = (\<lambda>key. 12), al_block_size = (\<lambda>key. 16),
     al_enc_update = (\<lambda>key iv ad pt. map (\<lambda>b. b XOR hd (iv @ [0])) pt), al_enc_final = (\<lambda>key iv ad pt. []),
     al_get_tag = (\<lambda>key iv ad pt. replicate 16 (sum_list pt)),
     al_dec_update = (\<lambda>key iv ad ct. Some (map (\<lambda>b. b XOR hd (iv @ [0])) ct)),
     al_dec_final = (\<lambda>key iv ad ct tag. if tag = replicate 16 (sum_list (map (\<lambda>b. b XOR hd (iv @ [0])) ct)) then Some [] else None)\<rparr>"

lemma demo_format: "co_epoch_format demo_co"
  by (simp add: demo_co_def)

lemma demo_iv_length: "al_iv_length demo_lib key = kt_iv_size demo_kt"
  by (simp add: demo_lib_def demo_kt_def)

lemma demo_lib_ok: "aead_ok demo_lib demo_kt"
  by (auto simp: aead_ok_def demo_lib_def demo_kt_def o_def xor.assoc)

lemma nonces_never_reused_witness:
  "\<exists>co' ps. epoch_init_key_ctx demo_hmac demo_co demo_kt 0 (demo_key 1) (demo_key 2) 16 = Some co' \<and>
    nonces_sent demo_hmac demo_lib co' [Send 5 sample_packet sample_work, Receive 7 3 \<lparr>pn_id = 1, pn_time = 0\<rparr>,
      Send 8 sample_packet sample_work] = map (nonce_at demo_hmac demo_kt (demo_key 1)) ps \<and> sorted_wrt pos_less ps \<and>
    distinct (map (\<lambda>(epoch, key, nonce). (epoch, nonce))
      (nonces_sent demo_hmac demo_lib co' [Send 5 sample_packet sample_work, Receive 7 3 \<lparr>pn_id = 1, pn_time = 0\<rparr>,
        Send 8 sample_packet sample_work]))"
  by (rule nonces_never_reused) (auto simp: demo_ok demo_format demo_iv_length)

text \<open>
  C4: the round trip of a data packet of the epoch format. What \<open>openvpn_encrypt_aead\<close>
  appends behind the opcode bytes \<open>pre\<close>, \<open>openvpn_decrypt_aead\<close> opens to the same plaintext,
  wherever the receiver is in the key chain, if it still or already has the key of the
  packet's epoch and \<open>crypto_check_replay\<close> lets the id through; a replayed packet yields
  nothing. The opcode bytes are authenticated with it.
\<close>

theorem data_channel_roundtrip:
  assumes "hmac_ok hm" "aead_ok lib kt"
    and cs: "send_ok hm e1 cs" "co_epoch_key_type cs = kt" "send_epoch cs < 65535" "pr_initialized (pid_rec (co_packet_id cs))"
    and cr: "recv_inv hm e1 cr" "co_epoch_key_type cr = kt" "co_epoch_format cr"
    and buf: "buf_rep buf hb pt rb" "pt \<noteq> []" "buf_rep work hw pre rw" "length pt + 40 \<le> rw" "hw + length pre + rw < 1000000"
  shows "\<exists>out cs' epoch i wire r. openvpn_encrypt_aead hm lib now buf work cs = Some (out, cs') \<and>
    send_pos cs' = (unat epoch, unat i) \<and> buf_rep out hw (pre @ wire) r \<and>
    (\<forall>slot now' whole ha ra rwork h c rw' headroom good cr'.
      epoch_lookup_decrypt_key cr epoch = Some slot \<and> \<not> cipher_decrypt_verify_fail_exceeded (slot_ctx cr slot) \<and>
      buf_rep whole ha (pre @ wire) ra \<and> buf_rep rwork h c rw' \<and> h + length c + rw' < 1000000 \<and>
      0 \<le> headroom \<and> headroom + int (length pt) + 32 \<le> int (h + length c + rw') \<and>
      crypto_check_replay hm now' cr \<lparr>pn_id = i, pn_time = 0\<rparr> epoch = Some (good, cr') \<longrightarrow>
      (\<exists>pbuf cr''. openvpn_decrypt_aead hm lib now' headroom (snd (buf_advance whole (int (length pre)))) rwork (int ha) cr =
         Some (good, pbuf, cr'') \<and> (if good then buf_content pbuf = pt else b_len pbuf = 0)))"
proof -
  have s: "send_inv hm e1 cs" "co_epoch_format cs" using cs(1) by (simp_all add: send_ok_def)
  obtain c1 where c1: "epoch_check_send_iterate hm cs = Some c1" "send_inv hm e1 c1" "co_epoch_format c1"
    "pid_rec (co_packet_id c1) = pid_rec (co_packet_id cs)" "co_epoch_key_type c1 = kt"
    "ps_id (pid_send (co_packet_id c1)) \<le> PACKET_ID_EPOCH_MAX"
    using check_send_iterate_ok [OF assms(1) s(1)] cs(1,2) by (fastforce simp: send_ok_def)
  let ?ctx = "co_encrypt c1"
  have kt: "kt_ok kt" using send_invD(1) [OF c1(2)] c1(5) by simp
  have sk: "same_key ?ctx (recv_ctx hm kt e1 (send_epoch c1))" using send_invD(5) [OF c1(2)] c1(5) by simp
  obtain key where key: "kc_cipher ?ctx = Some key"
    using sk by (auto simp: same_key_def recv_ctx_def data_ctx_def)
  have lt: "ps_id (pid_send (co_packet_id c1)) < PACKET_ID_EPOCH_MAX"
    using c1(6) check_send_iterate_room [OF c1(1) cs(3)] by simp
  have ini: "pr_initialized (pid_rec (co_packet_id c1))" using c1(4) cs(4) by simp
  obtain out send pb r where run: "openvpn_encrypt_aead hm lib now buf work cs =
      Some (out, c1\<lparr>co_packet_id := (co_packet_id c1)\<lparr>pid_send := send\<rparr>, co_encrypt := ?ctx\<lparr>kc_plaintext_blocks := pb\<rparr>\<rparr>)"
    "ps_id send = ps_id (pid_send (co_packet_id c1)) + 1" "buf_rep out hw (pre @ packet_body lib kt ?ctx pre (ps_id send) pt) r"
    using openvpn_encrypt_aead_epoch [OF assms(2) kt s(2) c1(1,3) key ini lt buf(1,3-5)] by blast
  let ?e = "kc_epoch ?ctx" and ?i = "ps_id send" and ?wire = "packet_body lib kt ?ctx pre (ps_id send) pt"
  let ?cs = "c1\<lparr>co_packet_id := (co_packet_id c1)\<lparr>pid_send := send\<rparr>, co_encrypt := ?ctx\<lparr>kc_plaintext_blocks := pb\<rparr>\<rparr>"
  have ee: "?e = ek_epoch (co_epoch_key_send c1)" by (rule send_inv_encrypt_epoch [OF assms(1) c1(2)])
  have le: "?i \<le> PACKET_ID_EPOCH_MAX" using unat_succ_less [OF lt] lt run(2)
    by (simp add: word_less_nat_alt word_le_nat_alt)
  have e0: "?e \<noteq> 0" using ee send_invD(3) [OF c1(2)] by auto
  have len: "length (sealed lib key (packet_nonce kt ?ctx ?i) (pre @ epoch_pid ?e ?i) pt) = length pt"
    using assms(2) by (auto simp: aead_ok_def sealed_def)
  have dec: "\<exists>pbuf cr''. openvpn_decrypt_aead hm lib now' headroom (snd (buf_advance whole (int (length pre)))) rwork (int ha) cr =
         Some (good, pbuf, cr'') \<and> (if good then buf_content pbuf = pt else b_len pbuf = 0)"
    if a: "epoch_lookup_decrypt_key cr ?e = Some slot" "\<not> cipher_decrypt_verify_fail_exceeded (slot_ctx cr slot)"
      "buf_rep whole ha (pre @ ?wire) ra" "buf_rep rwork h c rw'" "h + length c + rw' < 1000000"
      "0 \<le> headroom" "headroom + int (length pt) + 32 \<le> int (h + length c + rw')"
      "crypto_check_replay hm now' cr \<lparr>pn_id = ?i, pn_time = 0\<rparr> ?e = Some (good, cr')"
    for slot now' whole ha ra rwork h c rw' headroom good cr'
  proof -
    have "same_key (slot_ctx cr slot) ?ctx"
      using lookup_slot [OF assms(1) cr(1) a(1)] sk cr(2) ee by (simp add: same_key_def)
    moreover obtain key0 where "kc_cipher (co_decrypt cr) = Some key0"
      using recv_invD(7) [OF cr(1)] by (auto simp: same_key_def recv_ctx_def data_ctx_def)
    moreover have "pr_initialized (pid_rec (co_packet_id cr))"
      using recv_invD(10) [OF cr(1)] by (auto simp: window_ok_def pid_wf_def)
    ultimately show ?thesis
      using openvpn_decrypt_aead_epoch [OF assms(2) kt cr(3) _ _ a(1) _ key e0 a(2,3) le buf(2) len a(4,6,7,5,8)] by blast
  qed
  show ?thesis
  proof (rule exI [of _ out], rule exI [of _ ?cs], rule exI [of _ ?e], rule exI [of _ ?i], rule exI [of _ ?wire],
      rule exI [of _ r], intro conjI allI impI)
    show "send_pos ?cs = (unat ?e, unat ?i)" using ee by (simp add: send_pos_def)
  qed (rule run, rule run, elim conjE, rule dec)
qed

lemma sample_bufs: "buf_rep sample_packet 2 [1, 2, 3] 3" "buf_rep sample_work 4 [9] 95"
  by (simp_all add: buf_rep_iff sample_packet_def sample_work_def)

lemma demo_send_ok:
  "\<exists>co. epoch_init_key_ctx demo_hmac demo_co demo_kt 0 (demo_key 2) (demo_key 2) 16 = Some co \<and>
    send_ok demo_hmac (demo_key 2) co \<and> recv_inv demo_hmac (demo_key 2) co \<and> co_epoch_key_type co = demo_kt \<and>
    send_epoch co = 1 \<and> recv_epoch co = 1 \<and> future_count co = 16 \<and> pr_initialized (pid_rec (co_packet_id co)) \<and> co_epoch_format co"
proof -
  obtain co where co: "epoch_init_key_ctx demo_hmac demo_co demo_kt 0 (demo_key 2) (demo_key 2) 16 = Some co"
    "recv_inv demo_hmac (demo_key 2) co" "send_inv demo_hmac (demo_key 2) co" "send_epoch co = 1" "recv_epoch co = 1"
    "future_count co = 16" "ps_id (pid_send (co_packet_id co)) = 0" "co_epoch_key_type co = demo_kt"
    "co_epoch_format co = co_epoch_format demo_co"
    using epoch_init_inv [OF demo_ok(1,2,2,3) _ _ demo_ok(4,5,6), of 16 0 2 2] by auto
  moreover have "pr_initialized (pid_rec (co_packet_id co))"
    using recv_invD(10) [OF co(2)] by (simp add: window_ok_def pid_wf_def)
  ultimately show ?thesis by (simp add: send_ok_def demo_format)
qed

lemma data_channel_roundtrip_witness:
  "\<exists>co out cs' epoch i wire r. epoch_init_key_ctx demo_hmac demo_co demo_kt 0 (demo_key 2) (demo_key 2) 16 = Some co \<and>
    openvpn_encrypt_aead demo_hmac demo_lib 5 sample_packet sample_work co = Some (out, cs') \<and>
    send_pos cs' = (unat (epoch :: u16), unat (i :: u64)) \<and> buf_rep out 4 ([9] @ wire) r"
proof -
  obtain co where co: "epoch_init_key_ctx demo_hmac demo_co demo_kt 0 (demo_key 2) (demo_key 2) 16 = Some co"
    "send_ok demo_hmac (demo_key 2) co" "recv_inv demo_hmac (demo_key 2) co" "co_epoch_key_type co = demo_kt"
    "send_epoch co = 1" "pr_initialized (pid_rec (co_packet_id co))" "co_epoch_format co"
    using demo_send_ok by blast
  have "send_epoch co < 65535" using co(5) by simp
  note lt = this
  have ne: "[1, 2, 3 :: u8] \<noteq> []" and sz: "length [1, 2, 3 :: u8] + 40 \<le> 95" "4 + length [9 :: u8] + 95 < 1000000"
    by simp_all
  obtain out cs' epoch i wire r where
    "openvpn_encrypt_aead demo_hmac demo_lib 5 sample_packet sample_work co = Some (out, cs')"
    "send_pos cs' = (unat (epoch :: u16), unat (i :: u64))" "buf_rep out 4 ([9] @ wire) r"
    using data_channel_roundtrip [OF demo_ok(1) demo_lib_ok co(2,4) lt co(6,3,4,7) sample_bufs(1) ne sample_bufs(2) sz, of 5]
    by (elim exE conjE) blast
  with co(1) show ?thesis by blast
qed

text \<open>
  C23: the invariant of the keys. Accepting or refusing an authentic packet of any epoch the
  receiver answers, but the very last one it keeps, ends in a state in which every stored
  key again has its place in the chains; the receive epoch only grows, the send epoch is at
  least the epoch of the newest packet, and as many future keys are kept as before.
\<close>

theorem epoch_keys_invariant:
  assumes "hmac_ok hm" "recv_inv hm e1r co \<and> send_inv hm e1s co" "now > 1"
    and "epoch_lookup_decrypt_key co epoch = Some slot" "unat epoch \<noteq> recv_epoch co + future_count co"
  shows "\<exists>good co'. crypto_check_replay hm now co pin epoch = Some (good, co') \<and>
    recv_inv hm e1r co' \<and> send_inv hm e1s co' \<and> future_count co' = future_count co \<and>
    recv_epoch co' = max (recv_epoch co) (unat epoch) \<and>
    send_epoch co' = max (send_epoch co) (if unat epoch > recv_epoch co then unat epoch else 0)"
  using crypto_check_replay_ok [OF assms, of pin] by blast

lemma epoch_keys_invariant_witness:
  "\<exists>co good co'. epoch_init_key_ctx demo_hmac demo_co demo_kt 0 (demo_key 2) (demo_key 2) 16 = Some co \<and>
    crypto_check_replay demo_hmac 5 co \<lparr>pn_id = 1, pn_time = 0\<rparr> 9 = Some (good, co') \<and> recv_epoch co' = 9 \<and> send_epoch co' = 9"
proof -
  obtain co where co: "epoch_init_key_ctx demo_hmac demo_co demo_kt 0 (demo_key 2) (demo_key 2) 16 = Some co"
    "send_ok demo_hmac (demo_key 2) co" "recv_inv demo_hmac (demo_key 2) co" "send_epoch co = 1" "recv_epoch co = 1" "future_count co = 16"
    using demo_send_ok by blast
  have r: "kc_epoch (co_retiring co) \<noteq> 9" using retiring_older [OF demo_ok(1) co(3)] co(5) by fastforce
  have l: "epoch_lookup_decrypt_key co 9 = Some (Future 7)" using lookup_future [of co 9] co(5,6) r by simp
  have "recv_inv demo_hmac (demo_key 2) co \<and> send_inv demo_hmac (demo_key 2) co" using co(2,3) by (simp add: send_ok_def)
  from epoch_keys_invariant [OF demo_ok(1) this _ l, of 5 "\<lparr>pn_id = 1, pn_time = 0\<rparr>"] co(1,4-6) show ?thesis
    by fastforce
qed

text \<open>
  C34: the receiver gives out the key of the last future epoch it keeps, but an authentic
  packet of that epoch stops the process: \<open>epoch_replace_update_recv_key\<close> empties the last
  slot before \<open>epoch_generate_future_receive_keys\<close> asserts that it holds the highest epoch.
\<close>

theorem last_future_epoch_aborts:
  assumes "hmac_ok hm" "recv_inv hm e1r co" "send_inv hm e1s co"
    and "unat epoch = recv_epoch co + future_count co" "unat epoch + future_count co < 65535"
  shows "epoch_lookup_decrypt_key co epoch = Some (Future (future_count co - 1)) \<and>
    crypto_check_replay hm now co pin epoch = None"
proof -
  have c: "0 < future_count co" by (rule recv_invD(4) [OF assms(2)])
  have e0: "epoch \<noteq> 0" "unat epoch > recv_epoch co" using assms(4) c by auto
  then have ne: "kc_epoch (co_decrypt co) \<noteq> epoch" "kc_epoch (co_retiring co) \<noteq> epoch"
    using retiring_older [OF assms(1,2)] by auto
  have "epoch_lookup_decrypt_key co epoch = Some (Future (unat epoch - recv_epoch co - 1))"
    using assms(4,5) e0 ne by (intro lookup_future) simp_all
  moreover have "crypto_check_replay hm now co pin epoch = None"
    using epoch_replace_last_aborts [OF assms(1-4)] e0 ne by (auto simp: crypto_check_replay_def)
  ultimately show ?thesis using assms(4) by simp
qed

lemma last_future_epoch_aborts_witness:
  "\<exists>co. epoch_init_key_ctx demo_hmac demo_co demo_kt 0 (demo_key 2) (demo_key 2) 16 = Some co \<and>
    epoch_lookup_decrypt_key co 17 = Some (Future 15) \<and> crypto_check_replay demo_hmac 5 co \<lparr>pn_id = 1, pn_time = 0\<rparr> 17 = None"
proof -
  obtain co where co: "epoch_init_key_ctx demo_hmac demo_co demo_kt 0 (demo_key 2) (demo_key 2) 16 = Some co"
    "send_ok demo_hmac (demo_key 2) co" "recv_inv demo_hmac (demo_key 2) co" "recv_epoch co = 1" "future_count co = 16"
    using demo_send_ok by blast
  have "send_inv demo_hmac (demo_key 2) co" using co(2) by (simp add: send_ok_def)
  from last_future_epoch_aborts [OF demo_ok(1) co(3) this, of 17 5 "\<lparr>pn_id = 1, pn_time = 0\<rparr>"] co(1,4,5) show ?thesis
    by simp
qed

text \<open>
  C35: the plaintext blocks of received packets are not counted. \<open>outlen\<close> is overwritten by
  the last call of the library, which for an AEAD cipher outputs no more bytes; so accepting
  a packet leaves the count of the decryption key, which the usage limit looks at, as
  \<open>crypto_check_replay\<close> left it, however long the packet was.
\<close>

theorem received_blocks_not_counted:
  assumes "\<And>key iv ad ct tag fin. al_dec_final lib key iv ad ct tag = Some fin \<Longrightarrow> fin = []"
    and "aead_open hm lib now buf work ad_start ivp pin epoch slot co = Some (True, out, co')"
  shows "crypto_check_replay hm now co pin epoch = Some (True, co')"
proof -
  have b0: "blocks (int (length ([] :: u8 list))) = 0" by (simp add: blocks_def AEAD_LIMIT_BLOCKSIZE_def)
  show ?thesis
    using assms(2) b0 unfolding aead_open_def error_exit_def Let_def
    by (auto simp: bind_eq_Some_conv dest!: assms(1) split: if_splits option.splits prod.splits)
qed

definition demo_co32 :: crypto_options where
  "demo_co32 = demo_co\<lparr>co_epoch_format := False, co_decrypt := cleared_ctx\<lparr>kc_cipher := Some [1]\<rparr>\<rparr>"

definition demo_rx :: buffer where
  "demo_rx = \<lparr>b_capacity = 23, b_offset = 4, b_len = 19, b_data = Some ([0, 0, 0, 1] @ replicate 16 6 @ [1, 2, 3])\<rparr>"

lemma demo_open:
  "case aead_open demo_hmac demo_lib 5 demo_rx sample_work 0 [0, 0, 0, 1] \<lparr>pn_id = 1, pn_time = 0\<rparr> 0 Current demo_co32 of
     Some (good, _) \<Rightarrow> good | None \<Rightarrow> False"
  by code_simp

lemma received_blocks_not_counted_witness:
  "\<exists>out co'. aead_open demo_hmac demo_lib 5 demo_rx sample_work 0 [0, 0, 0, 1] \<lparr>pn_id = 1, pn_time = 0\<rparr> 0 Current demo_co32 =
      Some (True, out, co') \<and>
    crypto_check_replay demo_hmac 5 demo_co32 \<lparr>pn_id = 1, pn_time = 0\<rparr> 0 = Some (True, co')"
proof -
  obtain out co' where r: "aead_open demo_hmac demo_lib 5 demo_rx sample_work 0 [0, 0, 0, 1] \<lparr>pn_id = 1, pn_time = 0\<rparr> 0 Current demo_co32 =
      Some (True, out, co')"
    using demo_open by (auto split: option.splits prod.splits)
  have "crypto_check_replay demo_hmac 5 demo_co32 \<lparr>pn_id = 1, pn_time = 0\<rparr> 0 = Some (True, co')"
    by (rule received_blocks_not_counted [OF _ r]) (simp add: demo_lib_def split: if_splits)
  with r show ?thesis by blast
qed

end
