(* ===== verification/Fragment.thy ===== *)
theory Fragment
  imports Buffers Timing "HOL-Library.Signed_Division"
begin

text \<open>
  fragment.c and fragment.h: datagrams that are too long for one packet are sent as up to 32
  fragments with a common sequence id, and joined again by the receiver. A fragment starts
  with a 32 bit header: type, sequence id, fragment id and (in the last one) the size of the
  others. The headroom and limits come from \<open>struct frame\<close> of mtu.h.
\<close>

section \<open>Data\<close>

record frame =
  fr_payload_size :: int
  fr_headroom :: int
  fr_tailroom :: int
  fr_mss_fix :: u16
  fr_max_fragment_size :: int
  fr_tun_mtu :: int
  fr_tun_max_mtu :: int
  fr_extra_tun :: int

definition BUF_SIZE :: "frame \<Rightarrow> int" where
  "BUF_SIZE f = fr_headroom f + fr_payload_size f + fr_tailroom f"

definition alloc_buf_sock_tun :: "frame \<Rightarrow> buffer option" where
  "alloc_buf_sock_tun frame = do {
     buf \<leftarrow> alloc_buf (BUF_SIZE frame);
     let (ok, buf) = buf_init buf (fr_headroom frame);
     _ \<leftarrow> ASSERT ok;
     let buf = buf\<lparr>b_len := fr_payload_size frame\<rparr>;
     _ \<leftarrow> ASSERT (buf_safe buf 0);
     Some buf }"

definition N_FRAG_BUF :: int where "N_FRAG_BUF = 25"
definition FRAG_TTL_SEC :: int where "FRAG_TTL_SEC = 10"
definition FRAG_WAKEUP_INTERVAL :: int where "FRAG_WAKEUP_INTERVAL = 5"
definition FRAG_MAP_MASK :: u32 where "FRAG_MAP_MASK = 0xFFFFFFFF"
definition MAX_FRAGS :: int where "MAX_FRAGS = 32"
definition N_SEQ_ID :: int where "N_SEQ_ID = 256"

definition FRAG_TYPE_MASK :: u32 where "FRAG_TYPE_MASK = 0x00000003"
definition FRAG_WHOLE :: u32 where "FRAG_WHOLE = 0"
definition FRAG_YES_NOTLAST :: u32 where "FRAG_YES_NOTLAST = 1"
definition FRAG_YES_LAST :: u32 where "FRAG_YES_LAST = 2"
definition FRAG_TEST :: u32 where "FRAG_TEST = 3"
definition FRAG_SEQ_ID_MASK :: u32 where "FRAG_SEQ_ID_MASK = 0x000000ff"
definition FRAG_SEQ_ID_SHIFT :: nat where "FRAG_SEQ_ID_SHIFT = 2"
definition FRAG_ID_MASK :: u32 where "FRAG_ID_MASK = 0x0000001f"
definition FRAG_ID_SHIFT :: nat where "FRAG_ID_SHIFT = 10"
definition FRAG_SIZE_MASK :: u32 where "FRAG_SIZE_MASK = 0x00003fff"
definition FRAG_SIZE_SHIFT :: nat where "FRAG_SIZE_SHIFT = 15"
definition FRAG_SIZE_ROUND_SHIFT :: nat where "FRAG_SIZE_ROUND_SHIFT = 2"
definition FRAG_SIZE_ROUND_MASK :: int where "FRAG_SIZE_ROUND_MASK = 3"

record fragment =
  fg_defined :: bool
  fg_max_frag_size :: int
  fg_map :: u32
  fg_timestamp :: int
  fg_buf :: buffer

record fragment_list =
  fl_seq_id :: int
  fl_index :: int
  fl_fragments :: "fragment list"

record fragment_master =
  fm_wakeup :: event_timeout
  fm_outgoing_seq_id :: int
  fm_outgoing_frag_size :: int
  fm_outgoing_frag_id :: int
  fm_outgoing :: buffer
  fm_outgoing_return :: buffer
  fm_incoming :: fragment_list

section \<open>Setting up\<close>

text \<open>\<open>random\<close> is the result of \<open>get_random\<close>.\<close>

definition cleared_fragment :: fragment where
  "cleared_fragment = \<lparr>fg_defined = False, fg_max_frag_size = 0, fg_map = 0, fg_timestamp = 0, fg_buf = clear_buf\<rparr>"

definition fragment_init :: "int \<Rightarrow> int \<Rightarrow> fragment_master" where
  "fragment_init now random = \<lparr>fm_wakeup = event_timeout_init FRAG_WAKEUP_INTERVAL now,
     fm_outgoing_seq_id = random AND (N_SEQ_ID - 1), fm_outgoing_frag_size = 0, fm_outgoing_frag_id = 0,
     fm_outgoing = clear_buf, fm_outgoing_return = clear_buf,
     fm_incoming = \<lparr>fl_seq_id = 0, fl_index = 0, fl_fragments = replicate (nat N_FRAG_BUF) cleared_fragment\<rparr>\<rparr>"

definition fragment_list_buf_init :: "fragment_list \<Rightarrow> frame \<Rightarrow> fragment_list option" where
  "fragment_list_buf_init l frame = do {
     b \<leftarrow> alloc_buf (BUF_SIZE frame);
     Some (l\<lparr>fl_fragments := map (\<lambda>f. f\<lparr>fg_buf := b\<rparr>) (fl_fragments l)\<rparr>) }"

definition fragment_frame_init :: "fragment_master \<Rightarrow> frame \<Rightarrow> fragment_master option" where
  "fragment_frame_init f frame = do {
     l \<leftarrow> fragment_list_buf_init (fm_incoming f) frame;
     b \<leftarrow> alloc_buf (BUF_SIZE frame);
     Some (f\<lparr>fm_incoming := l, fm_outgoing := b, fm_outgoing_return := b\<rparr>) }"

section \<open>Receiving\<close>

text \<open>The loop that slides the window of reassembly buffers forward.\<close>

fun slide :: "nat \<Rightarrow> fragment_list \<Rightarrow> fragment_list option" where
  "slide 0 l = Some l"
| "slide (Suc diff) l = do {
     i \<leftarrow> modulo_add (fl_index l) 1 N_FRAG_BUF;
     frag \<leftarrow> nth_opt (fl_fragments l) i;
     s \<leftarrow> modulo_add (fl_seq_id l) 1 N_SEQ_ID;
     slide diff (l\<lparr>fl_index := i, fl_seq_id := s, fl_fragments := (fl_fragments l)[nat i := frag\<lparr>fg_defined := False\<rparr>]\<rparr>) }"

text \<open>The index of the fragment buffer, and the list.\<close>

definition fragment_list_get_buf :: "fragment_list \<Rightarrow> int \<Rightarrow> (int \<times> fragment_list) option" where
  "fragment_list_get_buf l seq_id = do {
     diff \<leftarrow> modulo_subtract seq_id (fl_seq_id l) N_SEQ_ID;
     let (l, diff) =
       (if \<bar>diff\<bar> \<ge> N_FRAG_BUF
        then (l\<lparr>fl_fragments := map (\<lambda>f. f\<lparr>fg_defined := False\<rparr>) (fl_fragments l), fl_index := 0, fl_seq_id := seq_id\<rparr>, 0)
        else (l, diff));
     l \<leftarrow> slide (nat diff) l;
     i \<leftarrow> modulo_add (fl_index l) (if diff > 0 then 0 else diff) N_FRAG_BUF;
     _ \<leftarrow> nth_opt (fl_fragments l) i;
     Some (i, l) }"

text \<open>The fields of a header.\<close>

definition frag_type_of :: "u32 \<Rightarrow> u32" where
  "frag_type_of flags = flags AND FRAG_TYPE_MASK"

definition frag_seq_id_of :: "u32 \<Rightarrow> int" where
  "frag_seq_id_of flags = uint (drop_bit FRAG_SEQ_ID_SHIFT flags AND FRAG_SEQ_ID_MASK)"

definition frag_id_of :: "u32 \<Rightarrow> nat" where
  "frag_id_of flags = unat (drop_bit FRAG_ID_SHIFT flags AND FRAG_ID_MASK)"

definition frag_size_of :: "u32 \<Rightarrow> int" where
  "frag_size_of flags = uint (push_bit FRAG_SIZE_ROUND_SHIFT (drop_bit FRAG_SIZE_SHIFT flags AND FRAG_SIZE_MASK))"

text \<open>The buffer starts over when it is free or the fragment size has changed.\<close>

definition fragment_enter :: "frame \<Rightarrow> fragment \<Rightarrow> int \<Rightarrow> fragment option" where
  "fragment_enter frame frag sz =
     (if \<not> fg_defined frag \<or> fg_max_frag_size frag \<noteq> sz then do {
        let (ok, b) = buf_init (fg_buf frag) (fr_headroom frame);
        _ \<leftarrow> ASSERT ok;
        Some (frag\<lparr>fg_defined := True, fg_max_frag_size := sz, fg_map := 0, fg_buf := b\<rparr>) }
      else Some frag)"

text \<open>One fragment: \<open>None\<close> in the first component is one of the two errors.\<close>

definition join_fragment ::
  "int \<Rightarrow> frame \<Rightarrow> fragment \<Rightarrow> u32 \<Rightarrow> buffer \<Rightarrow> (buffer option \<times> fragment) option" where
  "join_fragment now frame frag flags buf =
     (let frag_type = frag_type_of flags; n = frag_id_of flags;
          size = (if frag_type = FRAG_YES_LAST then frag_size_of flags else b_len buf) in
      if size AND FRAG_SIZE_ROUND_MASK \<noteq> 0 then Some (None, frag)
      else do {
        frag \<leftarrow> fragment_enter frame frag size;
        (case buf_copy_range (fg_buf frag) (int n * size) buf 0 (b_len buf) of
           (False, b) \<Rightarrow> Some (None, frag)
         | (True, b) \<Rightarrow>
             (let frag = frag\<lparr>fg_buf := b,
                fg_map := fg_map frag OR push_bit n (if frag_type = FRAG_YES_LAST then FRAG_MAP_MASK else 1),
                fg_timestamp := now\<rparr> in
              if fg_map frag AND FRAG_MAP_MASK = FRAG_MAP_MASK
              then Some (Some (fg_buf frag), frag\<lparr>fg_defined := False\<rparr>)
              else Some (Some (buf\<lparr>b_len := 0\<rparr>), frag))) })"

definition fragment_incoming ::
  "int \<Rightarrow> frame \<Rightarrow> fragment_master \<Rightarrow> buffer \<Rightarrow> (buffer \<times> fragment_master) option" where
  "fragment_incoming now frame f buf =
     (if b_len buf > 0 then
        (case buf_read buf 4 of
           (None, buf) \<Rightarrow> Some (buf\<lparr>b_len := 0\<rparr>, f)
         | (Some bs, buf) \<Rightarrow>
             (let flags = of_be32 bs; frag_type = frag_type_of flags in
              if frag_type = FRAG_WHOLE then
                (if flags AND (FRAG_SEQ_ID_MASK OR FRAG_ID_MASK) \<noteq> 0 then Some (buf\<lparr>b_len := 0\<rparr>, f)
                 else Some (buf, f))
              else if frag_type = FRAG_YES_NOTLAST \<or> frag_type = FRAG_YES_LAST then do {
                (i, l) \<leftarrow> fragment_list_get_buf (fm_incoming f) (frag_seq_id_of flags);
                frag \<leftarrow> nth_opt (fl_fragments l) i;
                (res, frag) \<leftarrow> join_fragment now frame frag flags buf;
                let f = f\<lparr>fm_incoming := l\<lparr>fl_fragments := (fl_fragments l)[nat i := frag]\<rparr>\<rparr>;
                Some (case res of None \<Rightarrow> (buf\<lparr>b_len := 0\<rparr>, f) | Some b \<Rightarrow> (b, f)) }
              else Some (buf\<lparr>b_len := 0\<rparr>, f)))
      else Some (buf, f))"

section \<open>Sending\<close>

definition frag_header :: "u32 \<Rightarrow> int \<Rightarrow> int \<Rightarrow> int \<Rightarrow> u32" where
  "frag_header type seq_id frag_id frag_size =
     (let flags = (type AND FRAG_TYPE_MASK)
            OR push_bit FRAG_SEQ_ID_SHIFT (word_of_int seq_id AND FRAG_SEQ_ID_MASK)
            OR push_bit FRAG_ID_SHIFT (word_of_int frag_id AND FRAG_ID_MASK) in
      if type = FRAG_WHOLE \<or> type = FRAG_YES_NOTLAST then flags
      else flags OR push_bit FRAG_SIZE_SHIFT (drop_bit FRAG_SIZE_ROUND_SHIFT (word_of_int frag_size) AND FRAG_SIZE_MASK))"

definition fragment_prepend_flags :: "buffer \<Rightarrow> u32 \<Rightarrow> int \<Rightarrow> int \<Rightarrow> int \<Rightarrow> buffer option" where
  "fragment_prepend_flags buf type seq_id frag_id frag_size = do {
     let (ok, buf) = buf_write_prepend buf (be32 (frag_header type seq_id frag_id frag_size));
     _ \<leftarrow> ASSERT ok;
     Some buf }"

text \<open>A division by zero where no byte of a datagram fits a fragment.\<close>

definition optimal_fragment_size :: "int \<Rightarrow> int \<Rightarrow> int option" where
  "optimal_fragment_size len max_frag_size = do {
     let mfs_aligned = max_frag_size AND NOT FRAG_SIZE_ROUND_MASK;
     _ \<leftarrow> ASSERT (mfs_aligned \<noteq> 0);
     let d = len sdiv mfs_aligned;
     let m = len smod mfs_aligned;
     if d > 0 \<and> m > 0 \<and> m < (mfs_aligned * 3) sdiv 4
     then Some (min_int mfs_aligned
            ((max_frag_size - ((max_frag_size - m) sdiv (d + 1)) + FRAG_SIZE_ROUND_MASK) AND NOT FRAG_SIZE_ROUND_MASK))
     else Some mfs_aligned }"

definition fragment_outgoing_defined :: "fragment_master \<Rightarrow> bool" where
  "fragment_outgoing_defined f \<longleftrightarrow> b_len (fm_outgoing f) > 0"

definition fragment_ready_to_send ::
  "frame \<Rightarrow> fragment_master \<Rightarrow> buffer \<Rightarrow> (bool \<times> buffer \<times> fragment_master) option" where
  "fragment_ready_to_send frame f buf =
     (if fragment_outgoing_defined f then do {
        let size = fm_outgoing_frag_size f;
        let (size, final) = (if b_len (fm_outgoing f) \<le> size then (b_len (fm_outgoing f), True) else (size, False));
        let (ok, buf) = buf_init (fm_outgoing_return f) (fr_headroom frame);
        _ \<leftarrow> ASSERT ok;
        let (ok, buf, outgoing) = buf_copy_n buf (fm_outgoing f) size;
        _ \<leftarrow> ASSERT ok;
        buf \<leftarrow> fragment_prepend_flags buf (if final then FRAG_YES_LAST else FRAG_YES_NOTLAST)
                 (fm_outgoing_seq_id f) (fm_outgoing_frag_id f) (fm_outgoing_frag_size f);
        let f = f\<lparr>fm_outgoing := outgoing, fm_outgoing_frag_id := fm_outgoing_frag_id f + 1\<rparr>;
        _ \<leftarrow> ASSERT (\<not> final \<or> b_len (fm_outgoing f) = 0);
        Some (True, buf, f) }
      else Some (False, buf, f))"

definition fragment_outgoing ::
  "frame \<Rightarrow> fragment_master \<Rightarrow> buffer \<Rightarrow> (buffer \<times> fragment_master) option" where
  "fragment_outgoing frame f buf =
     (if b_len buf > 0 then
        (if b_len buf > fr_max_fragment_size frame then do {
           size \<leftarrow> optimal_fragment_size (b_len buf) (fr_max_fragment_size frame);
           let f = f\<lparr>fm_outgoing_frag_size := size\<rparr>;
           if b_len buf > size * MAX_FRAGS then Some (buf\<lparr>b_len := 0\<rparr>, f)
           else do {
             let (ok, out) = buf_init (fm_outgoing f) (fr_headroom frame);
             _ \<leftarrow> ASSERT ok;
             let (ok, out) = buf_copy out buf;
             _ \<leftarrow> ASSERT ok;
             seq \<leftarrow> modulo_add (fm_outgoing_seq_id f) 1 N_SEQ_ID;
             let f = f\<lparr>fm_outgoing := out, fm_outgoing_seq_id := seq, fm_outgoing_frag_id := 0\<rparr>;
             (ok, buf, f) \<leftarrow> fragment_ready_to_send frame f (buf\<lparr>b_len := 0\<rparr>);
             _ \<leftarrow> ASSERT ok;
             Some (buf, f) } }
         else do {
           buf \<leftarrow> fragment_prepend_flags buf FRAG_WHOLE 0 0 0;
           Some (buf, f) })
      else Some (buf, f))"

section \<open>Housekeeping\<close>

definition fragment_ttl_reap :: "int \<Rightarrow> fragment_master \<Rightarrow> fragment_master" where
  "fragment_ttl_reap now f = f\<lparr>fm_incoming := (fm_incoming f)\<lparr>fl_fragments :=
     map (\<lambda>frag. if fg_defined frag \<and> fg_timestamp frag + FRAG_TTL_SEC \<le> now then frag\<lparr>fg_defined := False\<rparr> else frag)
       (fl_fragments (fm_incoming f))\<rparr>\<rparr>"

definition fragment_wakeup :: "int \<Rightarrow> fragment_master \<Rightarrow> fragment_master" where
  "fragment_wakeup now f = fragment_ttl_reap now f"

definition fragment_housekeeping ::
  "int \<Rightarrow> fragment_master \<Rightarrow> timeval option \<Rightarrow> fragment_master \<times> timeval option" where
  "fragment_housekeeping now f tv =
     (case event_timeout_trigger now (fm_wakeup f) tv ETT_DEFAULT of
        (fired, et, tv) \<Rightarrow> (let f = f\<lparr>fm_wakeup := et\<rparr> in (if fired then fragment_wakeup now f else f, tv)))"

end
