(* ===== verification/FragmentSend.thy ===== *)
theory FragmentSend
  imports Fragment
begin

text \<open>
  The header of a fragment and the sending side: the packets \<open>fragment_outgoing\<close> and
  \<open>fragment_ready_to_send\<close> produce for a datagram.
\<close>

section \<open>The header\<close>

lemma frag_masks:
  "FRAG_TYPE_MASK = mask 2" "FRAG_SEQ_ID_MASK = mask 8" "FRAG_ID_MASK = mask 5" "FRAG_SIZE_MASK = mask 14"
  "FRAG_MAP_MASK = mask 32"
  by (simp_all add: FRAG_TYPE_MASK_def FRAG_SEQ_ID_MASK_def FRAG_ID_MASK_def FRAG_SIZE_MASK_def FRAG_MAP_MASK_def
      mask_eq_exp_minus_1)

lemma header_bits:
  fixes t a b :: u32
  defines "flags \<equiv> (t AND mask 2) OR push_bit 2 (a AND mask 8) OR push_bit 10 (b AND mask 5)"
  shows "flags AND mask 2 = t AND mask 2" "drop_bit 2 flags AND mask 8 = a AND mask 8"
    "drop_bit 10 flags AND mask 5 = b AND mask 5"
  unfolding flags_def by (rule bit_word_eqI; auto simp: bit_simps)+

lemma header_bits_last:
  fixes t a b c :: u32
  defines "flags \<equiv> ((t AND mask 2) OR push_bit 2 (a AND mask 8) OR push_bit 10 (b AND mask 5)) OR push_bit 15 (c AND mask 14)"
  shows "flags AND mask 2 = t AND mask 2" "drop_bit 2 flags AND mask 8 = a AND mask 8"
    "drop_bit 10 flags AND mask 5 = b AND mask 5" "drop_bit 15 flags AND mask 14 = c AND mask 14"
  unfolding flags_def by (rule bit_word_eqI; auto simp: bit_simps)+

lemma and_mask_id:
  assumes "0 \<le> x" "x < 2 ^ n" "n \<le> 32"
  shows "(word_of_int x :: u32) AND mask n = word_of_int x"
proof -
  have "(2 :: int) ^ n \<le> 2 ^ 32" using assms(3) by (rule power_increasing) simp
  then have "x < 4294967296" using assms(2) by simp
  then have "x mod 4294967296 = x" using assms(1) by simp
  then show ?thesis using assms(1,2) unfolding take_bit_eq_mask [symmetric]
    by (simp add: word_uint_eq_iff uint_word_of_int unsigned_take_bit_eq take_bit_int_eq_self)
qed

lemma uint_small: "0 \<le> x \<Longrightarrow> x < 2 ^ 32 \<Longrightarrow> uint (word_of_int x :: u32) = x"
  by (simp add: uint_word_of_int take_bit_int_eq_self)

lemma drop_push_size:
  assumes "0 \<le> q" "q < 2 ^ 14"
  shows "drop_bit 2 (word_of_int (4 * q) :: u32) AND mask 14 = word_of_int q"
    "push_bit 2 (word_of_int q :: u32) = word_of_int (4 * q)"
proof -
  show p: "push_bit 2 (word_of_int q :: u32) = word_of_int (4 * q)"
    by (simp add: push_bit_eq_mult)
  have w: "(word_of_int q :: u32) = word_of_int q AND mask 14" using assms and_mask_id [of q 14] by simp
  show "drop_bit 2 (word_of_int (4 * q) :: u32) AND mask 14 = word_of_int q"
    unfolding p [symmetric] by (subst (1 2) w) (rule bit_word_eqI, auto simp: bit_simps)
qed

definition frag_ok :: "int \<Rightarrow> int \<Rightarrow> int \<Rightarrow> bool" where
  "frag_ok seq_id frag_id frag_size \<longleftrightarrow> 0 \<le> seq_id \<and> seq_id < 256 \<and> 0 \<le> frag_id \<and> frag_id < 32 \<and>
     0 \<le> frag_size \<and> frag_size < 65536 \<and> 4 dvd frag_size"

lemma frag_header_fields:
  assumes "frag_ok s i z" "t = FRAG_YES_NOTLAST \<or> t = FRAG_YES_LAST"
  shows "frag_type_of (frag_header t s i z) = t" "frag_seq_id_of (frag_header t s i z) = s"
    "frag_id_of (frag_header t s i z) = nat i"
    "t = FRAG_YES_LAST \<Longrightarrow> frag_size_of (frag_header t s i z) = z"
proof -
  have ok: "0 \<le> s" "s < 2 ^ 8" "0 \<le> i" "i < 2 ^ 5" using assms(1) by (simp_all add: frag_ok_def)
  obtain q where q: "z = 4 * q" "0 \<le> q" "q < 2 ^ 14" using assms(1) by (auto simp: frag_ok_def)
  let ?s = "word_of_int s :: u32" and ?i = "word_of_int i :: u32" and ?c = "drop_bit 2 (word_of_int z :: u32)"
  let ?f = "(t AND mask 2) OR push_bit 2 (?s AND mask 8) OR push_bit 10 (?i AND mask 5)"
  have h: "frag_header t s i z = (if t = FRAG_YES_NOTLAST then ?f else ?f OR push_bit 15 (?c AND mask 14))"
    using assms(2) by (auto simp: frag_header_def Let_def frag_masks FRAG_SEQ_ID_SHIFT_def FRAG_ID_SHIFT_def
        FRAG_SIZE_SHIFT_def FRAG_SIZE_ROUND_SHIFT_def FRAG_WHOLE_def FRAG_YES_LAST_def FRAG_YES_NOTLAST_def)
  have t: "t AND mask 2 = t" using assms(2) by (auto simp: FRAG_YES_NOTLAST_def FRAG_YES_LAST_def mask_eq_exp_minus_1)
  note b = header_bits [of t ?s ?i] header_bits_last [of t ?s ?i ?c]
  show "frag_type_of (frag_header t s i z) = t"
    unfolding frag_type_of_def frag_masks h using b(1,4) t by (cases "t = FRAG_YES_NOTLAST"; simp only: if_True if_False)
  have "drop_bit 2 (frag_header t s i z) AND mask 8 = ?s" 
    unfolding h using b(2,5) and_mask_id [OF ok(1,2)] by (cases "t = FRAG_YES_NOTLAST"; simp)
  then show "frag_seq_id_of (frag_header t s i z) = s"
    using uint_small [of s] ok by (simp add: frag_seq_id_of_def FRAG_SEQ_ID_SHIFT_def frag_masks)
  have "drop_bit 10 (frag_header t s i z) AND mask 5 = ?i" 
    unfolding h using b(3,6) and_mask_id [OF ok(3,4)] by (cases "t = FRAG_YES_NOTLAST"; simp)
  then show "frag_id_of (frag_header t s i z) = nat i"
    using uint_small [of i] ok by (simp add: frag_id_of_def FRAG_ID_SHIFT_def frag_masks unat_eq_nat_uint)
  assume "t = FRAG_YES_LAST"
  then have ne: "t \<noteq> FRAG_YES_NOTLAST" by (simp add: FRAG_YES_LAST_def FRAG_YES_NOTLAST_def)
  have "drop_bit 15 (frag_header t s i z) AND mask 14 = word_of_int q"
    unfolding h if_not_P [OF ne] b(7) unfolding q(1) by (rule drop_push_size(1) [OF q(2,3)])
  then have "push_bit 2 (drop_bit 15 (frag_header t s i z) AND mask 14) = word_of_int z"
    using drop_push_size(2) [OF q(2,3)] by (simp only: q(1))
  then show "frag_size_of (frag_header t s i z) = z"
    using uint_small [of z] q unfolding frag_size_of_def FRAG_SIZE_ROUND_SHIFT_def FRAG_SIZE_SHIFT_def frag_masks by simp
qed

section \<open>The size of the fragments\<close>

lemma round_mask: "FRAG_SIZE_ROUND_MASK = mask 2"
  by (simp add: FRAG_SIZE_ROUND_MASK_def mask_eq_exp_minus_1)

lemma and3_mod: "(x :: int) AND FRAG_SIZE_ROUND_MASK = x mod 4"
  unfolding round_mask take_bit_eq_mask [symmetric] by (simp add: take_bit_eq_mod)

lemma align4: "(x :: int) AND NOT FRAG_SIZE_ROUND_MASK = x - x mod 4"
proof -
  have "x - (x AND mask 2) = x AND NOT (x AND mask 2)"
    by (rule disjunctive_diff_eq_and_not, rule bit_eqI) (auto simp: bit_simps)
  also have "\<dots> = x AND NOT (mask 2)" by (rule bit_eqI) (auto simp: bit_simps)
  finally show ?thesis using and3_mod [of x] by (simp add: round_mask)
qed

lemma sdiv_nonneg: "0 \<le> a \<Longrightarrow> 0 < b \<Longrightarrow> (a :: int) sdiv b = a div b \<and> a smod b = a mod b"
  by (cases "a = 0") (simp_all add: signed_divide_int_def signed_modulo_int_def sgn_if minus_div_mult_eq_mod)

text \<open>The number of fragments of size \<open>s\<close>.\<close>

definition frag_count :: "int \<Rightarrow> int \<Rightarrow> int" where
  "frag_count len s = (len + s - 1) div s"

lemma div_eq_iff_bounds:
  fixes s :: int
  assumes "0 < s"
  shows "x div s = n \<longleftrightarrow> n * s \<le> x \<and> x < (n + 1) * s"
proof
  assume "x div s = n"
  moreover have "x = x div s * s + x mod s" by simp
  moreover have "0 \<le> x mod s" "x mod s < s" using assms by simp_all
  ultimately show "n * s \<le> x \<and> x < (n + 1) * s" by (simp add: distrib_right)
next
  assume a: "n * s \<le> x \<and> x < (n + 1) * s"
  have "x = n * s + (x - n * s)" by simp
  moreover have "0 \<le> x - n * s" "x - n * s < s" using a by (simp_all add: algebra_simps)
  ultimately show "x div s = n"
    by (metis div_pos_pos_trivial div_mult_self3 add.right_neutral assms add.commute less_irrefl)
qed

lemma frag_count_bounds:
  assumes "0 < s"
  shows "frag_count len s = n \<longleftrightarrow> (n - 1) * s < len \<and> len \<le> n * s"
  unfolding frag_count_def div_eq_iff_bounds [OF assms] by (auto simp: algebra_simps)

lemma optimal_fragment_size_ok:
  assumes "4 \<le> m" "0 < len"
  shows "\<exists>s. optimal_fragment_size len m = Some s \<and> 4 dvd s \<and> 0 < s \<and> s \<le> m - m mod 4 \<and>
    frag_count len s = frag_count len (m - m mod 4)"
proof -
  define a where "a = m - m mod 4"
  have a: "0 < a" "a \<le> m" "4 dvd a"
  proof -
    have "m mod 4 < 4" "0 \<le> m mod 4" by simp_all
    then show "0 < a" "a \<le> m" using assms(1) by (simp_all add: a_def)
    show "4 dvd a" by (simp add: a_def)
  qed
  define d where "d = len div a"
  define r where "r = len mod a"
  have len: "len = d * a + r" "0 \<le> r" "r < a" "0 \<le> d"
    using a assms(2) by (simp_all add: d_def r_def pos_imp_zdiv_nonneg_iff)
  have sd: "len sdiv a = d" "len smod a = r" using sdiv_nonneg [of len a] a assms(2) by (simp_all add: d_def r_def)
  have th: "(a * 3) sdiv 4 = a * 3 div 4" using sdiv_nonneg [of "a * 3" 4] a by simp
  show ?thesis
  proof (cases "d > 0 \<and> r > 0 \<and> r < a * 3 div 4")
    case False
    then show ?thesis using a sd th unfolding optimal_fragment_size_def align4 Let_def a_def [symmetric]
      by (intro exI [of _ a]) auto
  next
    case True
    define x where "x = m - (m - r) div (d + 1) + 3"
    define o' where "o' = x - x mod 4"
    have mr: "0 \<le> m - r" using len a by linarith
    have s: "(m - r) sdiv (d + 1) = (m - r) div (d + 1)" using sdiv_nonneg [OF mr, of "d + 1"] True by simp
    have run: "optimal_fragment_size len m = Some (min a o')"
      using a sd th True s unfolding optimal_fragment_size_def align4 Let_def a_def [symmetric]
      by (simp add: x_def o'_def FRAG_SIZE_ROUND_MASK_def)
    have q: "(m - r) div (d + 1) * (d + 1) \<le> m - r" "0 \<le> (m - r) div (d + 1)"
      using True mr div_eq_iff_bounds [of "d + 1" "m - r" "(m - r) div (d + 1)"] by (simp_all add: pos_imp_zdiv_nonneg_iff)
    have o1: "m - (m - r) div (d + 1) \<le> o'"
    proof -
      have "x mod 4 \<le> 3" using pos_mod_bound [of 4 x] by linarith
      then show ?thesis by (simp add: o'_def x_def)
    qed
    have big: "len \<le> (d + 1) * o'"
    proof -
      define Q where "Q = (m - r) div (d + 1)"
      have "(d + 1) * (m - Q) \<le> (d + 1) * o'" using o1 len(4) unfolding Q_def by (intro mult_left_mono) simp_all
      moreover have "(d + 1) * (m - Q) = d * m + m - Q * (d + 1)" by (simp add: algebra_simps)
      moreover have "d * a \<le> d * m" using a len(4) by (intro mult_left_mono)
      moreover note q(1) [folded Q_def]
      ultimately show ?thesis using len(1) by linarith
    qed
    have o0: "0 < o'"
    proof (rule ccontr)
      assume "\<not> 0 < o'"
      then have "(d + 1) * o' \<le> 0" using len(4) by (simp add: mult_le_0_iff)
      then show False using big assms(2) by linarith
    qed
    have big': "len \<le> (d + 1) * min a o'"
    proof (cases "a \<le> o'")
      case True
      have "len \<le> d * a + a" using len by linarith
      then show ?thesis using True by (simp add: min_def algebra_simps)
    qed (use big in \<open>simp add: min_def\<close>)
    have small: "d * min a o' < len"
    proof -
      have "d * min a o' \<le> d * a" using len(4) by (intro mult_left_mono) simp_all
      then show ?thesis using len(1) True by linarith
    qed
    have c1: "frag_count len (min a o') = d + 1"
      using frag_count_bounds [of "min a o'" len "d + 1"] a(1) o0 big' small by simp
    have c2: "frag_count len a = d + 1"
      using frag_count_bounds [of a len "d + 1"] a(1) len True by (simp add: algebra_simps)
    have "4 dvd o'" by (simp add: o'_def)
    then show ?thesis using run a o0 c1 c2 unfolding a_def [symmetric]
      by (intro exI [of _ "min a o'"]) (auto simp: min_def)
  qed
qed

section \<open>The packets of a datagram\<close>

definition chunk :: "nat \<Rightarrow> 'a list \<Rightarrow> nat \<Rightarrow> 'a list" where
  "chunk s d i = take s (drop (i * s) d)"

text \<open>The \<open>i\<close>-th of the \<open>k\<close> packets.\<close>

definition frag_packet :: "int \<Rightarrow> nat \<Rightarrow> nat \<Rightarrow> u8 list \<Rightarrow> nat \<Rightarrow> u8 list" where
  "frag_packet seq s k d i =
     be32 (frag_header (if Suc i = k then FRAG_YES_LAST else FRAG_YES_NOTLAST) seq (int i) (int s)) @ chunk s d i"

lemma buf_copy_n_eq:
  "buf_copy_n dest src n = (case buf_read src n of
     (None, src) \<Rightarrow> (False, dest, src)
   | (Some bs, src) \<Rightarrow> (case buf_write dest bs of (ok, dest) \<Rightarrow> (ok, dest, src)))"
  by (simp add: buf_copy_n_def buf_read_def split: prod.splits option.splits)

lemma fragment_prepend_ok:
  assumes "buf_rep b h c r" "4 \<le> h"
  shows "\<exists>b'. fragment_prepend_flags b t s i z = Some b' \<and> buf_rep b' (h - 4) (be32 (frag_header t s i z) @ c) r"
  using buf_write_prepend_rep [OF assms(1), of "be32 (frag_header t s i z)"] assms(2)
  by (cases "buf_write_prepend b (be32 (frag_header t s i z))") (simp add: fragment_prepend_flags_def)

text \<open>The state in which fragments from \<open>i\<close> on are still to be sent.\<close>

definition sending :: "frame \<Rightarrow> int \<Rightarrow> nat \<Rightarrow> u8 list \<Rightarrow> nat \<Rightarrow> fragment_master \<Rightarrow> bool" where
  "sending frame seq s d i f \<longleftrightarrow> fm_outgoing_seq_id f = seq \<and> fm_outgoing_frag_size f = int s \<and>
     fm_outgoing_frag_id f = int i \<and> (\<exists>h r. buf_rep (fm_outgoing f) h (drop (i * s) d) r) \<and>
     (\<exists>h c r. buf_rep (fm_outgoing_return f) h c r \<and> fr_headroom frame + int s \<le> int (h + length c + r)) \<and>
     4 \<le> fr_headroom frame \<and> int s < BUF_SIZE_MAX"

lemma fragment_ready_to_send_step:
  assumes f: "sending frame seq s d i f" and k: "i < k" "length d \<le> k * s" "(k - 1) * s < length d" and s: "0 < s"
  shows "\<exists>b f'. fragment_ready_to_send frame f buf = Some (True, b, f') \<and> buf_content b = frag_packet seq s k d i \<and>
    sending frame seq s d (Suc i) f' \<and> fm_incoming f' = fm_incoming f"
proof -
  obtain h r where out: "buf_rep (fm_outgoing f) h (drop (i * s) d) r" using f by (auto simp: sending_def)
  obtain h1 c1 r1 where ret: "buf_rep (fm_outgoing_return f) h1 c1 r1" "fr_headroom frame + int s \<le> int (h1 + length c1 + r1)"
    using f by (auto simp: sending_def)
  have hd: "4 \<le> fr_headroom frame" using f by (simp add: sending_def)
  let ?rest = "drop (i * s) d" and ?last = "Suc i = k"
  have lt: "i * s < length d"
  proof -
    have "i * s \<le> (k - 1) * s" using k(1) by (intro mult_right_mono) auto
    then show ?thesis using k(3) by linarith
  qed
  have last: "length ?rest \<le> s \<longleftrightarrow> ?last"
  proof
    assume "length ?rest \<le> s"
    then have "length d \<le> Suc i * s" by simp
    then have "\<not> Suc i \<le> k - 1" using k(3) by (metis le_trans mult_le_mono1 not_le)
    then show "?last" using k(1) by linarith
  next
    assume "?last"
    then show "length ?rest \<le> s" using k(2) by auto
  qed
  define n where "n = min s (length ?rest)"
  have sz: "(if b_len (fm_outgoing f) \<le> int s then (b_len (fm_outgoing f), True) else (int s, False)) = (int n, ?last)"
    using buf_rep_simps(3) [OF out] last by (auto simp: n_def)
  have tk: "take n ?rest = chunk s d i" by (cases "s \<le> length ?rest") (simp_all add: n_def chunk_def)
  obtain b1 where b1: "buf_init (fm_outgoing_return f) (fr_headroom frame) = (True, b1)"
    "buf_rep b1 (nat (fr_headroom frame)) [] (h1 + length c1 + r1 - nat (fr_headroom frame))"
    using buf_init_rep [OF ret(1), of "nat (fr_headroom frame)"] ret(2) hd
    by (cases "buf_init (fm_outgoing_return f) (fr_headroom frame)") auto
  have split: "?rest = chunk s d i @ drop (Suc i * s) d"
    by (simp add: chunk_def add.commute flip: drop_drop)
  obtain out' where o': "buf_read (fm_outgoing f) (int n) = (Some (chunk s d i), out')" "buf_rep out' (h + n) (drop (Suc i * s) d) r"
  proof -
    have "n = length (chunk s d i)" by (simp add: n_def chunk_def min.commute)
    with bd.consumeE [OF out [unfolded split], of n] that show thesis by blast
  qed
  have nl: "length (chunk s d i) \<le> s" by (simp add: chunk_def)
  obtain b2 where b2: "buf_write b1 (chunk s d i) = (True, b2)"
    "buf_rep b2 (nat (fr_headroom frame)) (chunk s d i) (h1 + length c1 + r1 - nat (fr_headroom frame) - length (chunk s d i))"
  proof -
    have "length (chunk s d i) \<le> h1 + length c1 + r1 - nat (fr_headroom frame)" using ret(2) hd nl by linarith
    moreover have "int (length (chunk s d i)) < BUF_SIZE_MAX" using f nl unfolding sending_def by linarith
    ultimately show thesis by (rule bd.appendE [OF b1(2)]) (use that in simp)
  qed
  have "4 \<le> nat (fr_headroom frame)" using hd by linarith
  from fragment_prepend_ok [OF b2(2) this, of "if ?last then FRAG_YES_LAST else FRAG_YES_NOTLAST" seq "int i" "int s"]
  obtain b3 where b3: "fragment_prepend_flags b2 (if ?last then FRAG_YES_LAST else FRAG_YES_NOTLAST) seq (int i) (int s) = Some b3"
    "buf_content b3 = frag_packet seq s k d i"
    unfolding frag_packet_def using buf_rep_simps(1) by blast
  have fs: "fm_outgoing_seq_id f = seq" "fm_outgoing_frag_size f = int s" "fm_outgoing_frag_id f = int i"
    using f by (simp_all add: sending_def)
  have "0 < length ?rest" using lt by simp
  then have def: "fragment_outgoing_defined f"
    using buf_rep_simps(3) [OF out] by (simp only: fragment_outgoing_defined_def of_nat_0_less_iff)
  let ?f = "f\<lparr>fm_outgoing := out', fm_outgoing_frag_id := int i + 1\<rparr>"
  have fin: "\<not> ?last \<or> b_len out' = 0" using buf_rep_simps(3) [OF o'(2)] k(2) by auto
  have "fragment_ready_to_send frame f buf = Some (True, b3, ?f)"
    unfolding fragment_ready_to_send_def buf_copy_n_eq
    using def sz b1(1) o'(1) b2(1) b3(1) fin fs by (simp add: Let_def)
  moreover have "sending frame seq s d (Suc i) ?f" using f o'(2) fs by (auto simp: sending_def)
  ultimately show ?thesis using b3(2) by auto
qed

text \<open>What the event loop sends until \<open>fragment_ready_to_send\<close> is false, at most \<open>n\<close> packets.\<close>

fun drain :: "nat \<Rightarrow> frame \<Rightarrow> fragment_master \<Rightarrow> (u8 list list \<times> fragment_master) option" where
  "drain 0 frame f = Some ([], f)"
| "drain (Suc n) frame f = do {
     (ok, b, f) \<leftarrow> fragment_ready_to_send frame f clear_buf;
     if ok then do { (ps, f) \<leftarrow> drain n frame f; Some (buf_content b # ps, f) } else Some ([], f) }"

lemma sent_all:
  assumes "sending frame seq s d k f" "length d \<le> k * s"
  shows "b_len (fm_outgoing f) = 0" "drain n frame f = Some ([], f)"
proof -
  obtain h r where out: "buf_rep (fm_outgoing f) h (drop (k * s) d) r" using assms(1) by (auto simp: sending_def)
  then show l: "b_len (fm_outgoing f) = 0" using buf_rep_simps(3) [OF out] assms(2) by simp
  show "drain n frame f = Some ([], f)"
    using l by (cases n) (simp_all add: fragment_ready_to_send_def fragment_outgoing_defined_def)
qed

lemma drain_packets:
  assumes "sending frame seq s d i f" "i \<le> k" "length d \<le> k * s" "(k - 1) * s < length d" "0 < s" "k - i \<le> n"
  shows "\<exists>f'. drain n frame f = Some (map (frag_packet seq s k d) [i..<k], f') \<and> sending frame seq s d k f' \<and>
    fm_incoming f' = fm_incoming f"
  using assms
proof (induction n arbitrary: i f)
  case 0
  then show ?case by (intro exI [of _ f]) auto
next
  case (Suc n)
  show ?case
  proof (cases "i = k")
    case True
    then show ?thesis using sent_all(2) [of frame seq s d k f "Suc n"] Suc.prems by auto
  next
    case False
    then have ik: "i < k" using Suc.prems by simp
    obtain b f1 where f1: "fragment_ready_to_send frame f clear_buf = Some (True, b, f1)" "buf_content b = frag_packet seq s k d i"
      "sending frame seq s d (Suc i) f1" "fm_incoming f1 = fm_incoming f"
      using fragment_ready_to_send_step [OF Suc.prems(1) ik Suc.prems(3-5)] by blast
    have "Suc i \<le> k" "k - Suc i \<le> n" using ik Suc.prems(6) by simp_all
    from Suc.IH [OF f1(3) this(1) Suc.prems(3-5) this(2)] show ?thesis
      using f1 ik by (auto simp: upt_conv_Cons)
  qed
qed

text \<open>A sender ready for the next datagram, with buffers that hold it.\<close>

definition frag_sender :: "frame \<Rightarrow> nat \<Rightarrow> fragment_master \<Rightarrow> bool" where
  "frag_sender frame n f \<longleftrightarrow> 4 \<le> fr_headroom frame \<and> 4 \<le> fr_max_fragment_size frame \<and> int n < BUF_SIZE_MAX \<and>
     0 \<le> fm_outgoing_seq_id f \<and> fm_outgoing_seq_id f < N_SEQ_ID \<and>
     (\<exists>h c r. buf_rep (fm_outgoing f) h c r \<and> fr_headroom frame + int n \<le> int (h + length c + r)) \<and>
     (\<exists>h c r. buf_rep (fm_outgoing_return f) h c r \<and> fr_headroom frame + int n \<le> int (h + length c + r))"

lemma fragment_outgoing_packets:
  assumes f: "frag_sender frame (length d) f" and buf: "buf_rep buf h d r"
    and len: "fr_max_fragment_size frame < int (length d)"
    and fits: "frag_count (int (length d)) (fr_max_fragment_size frame - fr_max_fragment_size frame mod 4) \<le> MAX_FRAGS"
  shows "\<exists>s k b f1 f'. fragment_outgoing frame f buf = Some (b, f1) \<and> drain 32 frame f1 = Some (map (frag_packet ((fm_outgoing_seq_id f + 1) mod 256) s k d) [1..<k], f') \<and>
    buf_content b = frag_packet ((fm_outgoing_seq_id f + 1) mod 256) s k d 0 \<and> b_len (fm_outgoing f') = 0 \<and>
    fm_incoming f' = fm_incoming f \<and>
    0 < s \<and> 4 dvd s \<and> int s \<le> fr_max_fragment_size frame \<and> 0 < k \<and> k \<le> 32 \<and> (k - 1) * s < length d \<and> length d \<le> k * s"
proof -
  let ?m = "fr_max_fragment_size frame" and ?seq = "(fm_outgoing_seq_id f + 1) mod 256"
  have fs: "4 \<le> ?m" "4 \<le> fr_headroom frame" "int (length d) < BUF_SIZE_MAX" "0 \<le> fm_outgoing_seq_id f"
    "fm_outgoing_seq_id f < 256" using f by (simp_all add: frag_sender_def N_SEQ_ID_def)
  have pos: "0 < int (length d)" using fs len by linarith
  obtain s' where s': "optimal_fragment_size (int (length d)) ?m = Some s'" "4 dvd s'" "0 < s'" "s' \<le> ?m - ?m mod 4"
    "frag_count (int (length d)) s' = frag_count (int (length d)) (?m - ?m mod 4)"
    using optimal_fragment_size_ok [OF fs(1) pos] by blast
  define s where "s = nat s'"
  define k where "k = nat (frag_count (int (length d)) s')"
  have s: "s' = int s" "0 < s" "4 dvd s" using s' by (simp_all add: s_def) (metis int_dvd_int_iff int_nat_eq of_nat_numeral s'(2) s'(3) less_imp_le)
  have "0 \<le> ?m mod 4" by simp
  then have sm: "int s \<le> ?m" using s'(4) s(1) by linarith
  let ?c = "frag_count (int (length d)) (int s)"
  have cb: "(?c - 1) * int s < int (length d)" "int (length d) \<le> ?c * int s"
    using frag_count_bounds [of "int s" "int (length d)" ?c] s by auto
  have c0: "0 < ?c"
  proof (rule ccontr)
    assume "\<not> 0 < ?c"
    then have "?c * int s \<le> 0" using s by (simp add: mult_le_0_iff)
    then show False using cb(2) pos by linarith
  qed
  have ck: "?c = int k" using c0 by (simp add: k_def s(1))
  have k: "0 < k" "k \<le> 32" "length d \<le> k * s" "(k - 1) * s < length d"
  proof -
    show "0 < k" using c0 ck by simp
    show "k \<le> 32" using fits s'(5) ck s(1) by (simp add: MAX_FRAGS_def)
    show "length d \<le> k * s" using cb(2) unfolding ck by (simp flip: of_nat_mult)
    have "?c - 1 = int (k - 1)" using ck c0 by simp
    then show "(k - 1) * s < length d" using cb(1) by (simp flip: of_nat_mult)
  qed
  have fit: "\<not> b_len buf > s' * MAX_FRAGS"
  proof -
    have "k * s \<le> 32 * s" using k(2) by simp
    then have "int (length d) \<le> int (32 * s)" using k(3) by linarith
    then show ?thesis using buf_rep_simps(3) [OF buf] by (simp add: s(1) MAX_FRAGS_def)
  qed
  obtain h1 c1 r1 where o1: "buf_rep (fm_outgoing f) h1 c1 r1" "fr_headroom frame + int (length d) \<le> int (h1 + length c1 + r1)"
    using f by (auto simp: frag_sender_def)
  obtain b1 where b1: "buf_init (fm_outgoing f) (fr_headroom frame) = (True, b1)"
    "buf_rep b1 (nat (fr_headroom frame)) [] (h1 + length c1 + r1 - nat (fr_headroom frame))"
    using buf_init_rep [OF o1(1), of "nat (fr_headroom frame)"] o1(2) fs(2)
    by (cases "buf_init (fm_outgoing f) (fr_headroom frame)") auto
  obtain b2 where b2: "buf_copy b1 buf = (True, b2)"
    "buf_rep b2 (nat (fr_headroom frame)) d (h1 + length c1 + r1 - nat (fr_headroom frame) - length d)"
  proof -
    have "length d \<le> h1 + length c1 + r1 - nat (fr_headroom frame)" using o1(2) fs(2) by linarith
    from bd.appendE [OF b1(2) this fs(3)] show thesis
      using that buf_rep_simps(1) [OF buf] by (auto simp: buf_copy_def)
  qed
  have sq: "modulo_add (fm_outgoing_seq_id f) 1 N_SEQ_ID = Some ?seq"
    using modulo_add_Some [of "fm_outgoing_seq_id f" 256 1] fs by (simp add: N_SEQ_ID_def)
  let ?f = "f\<lparr>fm_outgoing_frag_size := int s, fm_outgoing := b2, fm_outgoing_seq_id := ?seq, fm_outgoing_frag_id := 0\<rparr>"
  have snd: "sending frame ?seq s d 0 ?f"
  proof -
    have "s \<le> length d" using sm len by linarith
    then have "int s < BUF_SIZE_MAX" using fs(3) by linarith
    moreover obtain h3 c3 r3 where "buf_rep (fm_outgoing_return f) h3 c3 r3" "fr_headroom frame + int (length d) \<le> int (h3 + length c3 + r3)"
      using f by (auto simp: frag_sender_def)
    ultimately show ?thesis using b2(2) fs(2) \<open>s \<le> length d\<close> unfolding sending_def
      by simp (metis add_left_mono of_nat_le_iff order_trans of_nat_add)
  qed
  obtain b f1 where st: "fragment_ready_to_send frame ?f (buf\<lparr>b_len := 0\<rparr>) = Some (True, b, f1)"
    "buf_content b = frag_packet ?seq s k d 0" "sending frame ?seq s d (Suc 0) f1" "fm_incoming f1 = fm_incoming f"
    using fragment_ready_to_send_step [OF snd k(1,3,4) s(2), of "buf\<lparr>b_len := 0\<rparr>"] by auto
  have run: "fragment_outgoing frame f buf = Some (b, f1)"
    using buf_rep_simps(3) [OF buf] pos len s'(1) fit b1(1) b2(1) sq st(1)
    by (simp add: fragment_outgoing_def s(1) Let_def)
  have k1: "Suc 0 \<le> k" "k - Suc 0 \<le> 32" using k by simp_all
  from drain_packets [OF st(3) k1(1) k(3,4) s(2) k1(2)] obtain f' where
    "drain 32 frame f1 = Some (map (frag_packet ?seq s k d) [1..<k], f')" "sending frame ?seq s d k f'" "fm_incoming f' = fm_incoming f1"
    by auto
  then show ?thesis using run st(2,4) sent_all(1) k s sm by (metis (no_types, lifting))
qed

end
