(* ===== verification/FragmentRecv.thy ===== *)
theory FragmentRecv
  imports FragmentSend
begin

text \<open>
  The receiving side: the reassembly buffer of a datagram of which the fragments in a set \<open>S\<close>
  have arrived, and the window of sequence ids that the buffers are found by.
\<close>

section \<open>One reassembly buffer\<close>

text \<open>\<open>d\<close> is cut into \<open>k\<close> fragments of size \<open>s\<close>.\<close>

definition frag_cut :: "nat \<Rightarrow> nat \<Rightarrow> u8 list \<Rightarrow> bool" where
  "frag_cut s k d \<longleftrightarrow> 0 < s \<and> 4 dvd s \<and> s < 65536 \<and> 0 < k \<and> k \<le> 32 \<and> (k - 1) * s < length d \<and> length d \<le> k * s"

lemma frag_cut_div:
  assumes "frag_cut s k d" "q < length d"
  shows "q div s < k"
  using assms by (metis frag_cut_def div_less_iff_less_mult order_less_le_trans)

lemma length_chunk:
  assumes "frag_cut s k d" "i < k"
  shows "length (chunk s d i) = (if Suc i = k then length d - i * s else s)" "i * s + length (chunk s d i) \<le> length d"
    "0 < length (chunk s d i)"
proof -
  have le: "(k - 1) * s < length d" "length d \<le> k * s" "0 < s" using assms by (simp_all add: frag_cut_def)
  have i: "i * s \<le> (k - 1) * s" using assms(2) by (intro mult_right_mono) auto
  show l: "length (chunk s d i) = (if Suc i = k then length d - i * s else s)"
  proof (cases "Suc i = k")
    case True
    then show ?thesis using le by (auto simp: chunk_def)
  next
    case False
    then have "Suc i \<le> k - 1" using assms(2) by linarith
    then have "Suc i * s \<le> (k - 1) * s" by (intro mult_right_mono) auto
    then show ?thesis using False le by (simp add: chunk_def)
  qed
  show "i * s + length (chunk s d i) \<le> length d"
  proof (cases "Suc i = k")
    case True
    have "i * s \<le> length d" using i le by linarith
    then show ?thesis using True l by simp
  next
    case False
    then have "Suc i \<le> k - 1" using assms(2) by linarith
    then have "Suc i * s \<le> (k - 1) * s" by (intro mult_right_mono) auto
    then show ?thesis using False l le by simp
  qed
  have "i * s < length d" using i le by linarith
  then show "0 < length (chunk s d i)" using l le(3) by (cases "Suc i = k") simp_all
qed

definition frag_bits :: "nat \<Rightarrow> nat set \<Rightarrow> u32 \<Rightarrow> bool" where
  "frag_bits k S m \<longleftrightarrow> (\<forall>n<32. bit m n \<longleftrightarrow> n \<in> S \<or> k - 1 \<in> S \<and> k - 1 \<le> n)"

lemma frag_bits_full:
  assumes "frag_bits k S m" "S \<subseteq> {..<k}" "0 < k" "k \<le> 32"
  shows "m AND FRAG_MAP_MASK = FRAG_MAP_MASK \<longleftrightarrow> S = {..<k}"
proof -
  have "m AND mask 32 = mask 32 \<longleftrightarrow> (\<forall>n<32. bit m n)"
    by (auto simp: bit_eq_iff bit_simps)
  also have "\<dots> \<longleftrightarrow> S = {..<k}"
  proof
    assume all: "\<forall>n<32. bit m n"
    have "n \<in> S" if "n < k" for n
    proof -
      have "n \<in> S \<or> k - 1 \<in> S \<and> k - 1 \<le> n" using all that assms(1,4) by (simp add: frag_bits_def)
      then show ?thesis using that by (cases "n = k - 1") auto
    qed
    then show "S = {..<k}" using assms(2) by auto
  next
    assume S: "S = {..<k}"
    show "\<forall>n<32. bit m n"
    proof (intro allI impI)
      fix n :: nat assume "n < 32"
      then show "bit m n" using assms(1,3) unfolding frag_bits_def S by (cases "n < k") auto
    qed
  qed
  finally show ?thesis by (simp add: frag_masks)
qed

lemma frag_bits_add:
  assumes "frag_bits k S m" "i < k" "k \<le> 32"
  shows "frag_bits k (insert i S) (m OR push_bit i (if Suc i = k then FRAG_MAP_MASK else 1))"
proof -
  have "bit (m OR push_bit i (if Suc i = k then FRAG_MAP_MASK else 1)) n \<longleftrightarrow>
      n \<in> insert i S \<or> k - 1 \<in> insert i S \<and> k - 1 \<le> n" if "n < 32" for n
  proof -
    have b: "bit m n \<longleftrightarrow> n \<in> S \<or> k - 1 \<in> S \<and> k - 1 \<le> n" using assms(1) that by (simp add: frag_bits_def)
    show ?thesis
    proof (cases "Suc i = k")
      case True
      then show ?thesis using b that by (auto simp: bit_simps frag_masks)
    next
      case False
      then show ?thesis using b that assms(2) by (auto simp: bit_simps bit_1_iff)
    qed
  qed
  then show ?thesis by (simp add: frag_bits_def)
qed

text \<open>The buffer can take the datagram.\<close>

definition frag_room :: "frame \<Rightarrow> nat \<Rightarrow> fragment \<Rightarrow> bool" where
  "frag_room frame n frag \<longleftrightarrow> 0 \<le> fr_headroom frame \<and>
     (\<exists>m. b_data (fg_buf frag) = Some m \<and> b_capacity (fg_buf frag) = int (length m) \<and>
        fr_headroom frame + int n \<le> int (length m))"

definition joining :: "frame \<Rightarrow> nat \<Rightarrow> nat \<Rightarrow> u8 list \<Rightarrow> nat set \<Rightarrow> fragment \<Rightarrow> bool" where
  "joining frame s k d S frag \<longleftrightarrow> fg_defined frag \<and> fg_max_frag_size frag = int s \<and> S \<subseteq> {..<k} \<and>
     frag_bits k S (fg_map frag) \<and> frag_room frame (length d) frag \<and> b_offset (fg_buf frag) = fr_headroom frame \<and>
     0 \<le> b_len (fg_buf frag) \<and> b_len (fg_buf frag) \<le> int (length d) \<and>
     (k - 1 \<in> S \<longrightarrow> b_len (fg_buf frag) = int (length d)) \<and>
     (\<forall>q < length d. q div s \<in> S \<longrightarrow> the (b_data (fg_buf frag)) ! (nat (fr_headroom frame) + q) = d ! q)"

lemma joining_content:
  assumes c: "frag_cut s k d" and j: "joining frame s k d {..<k} frag"
  shows "buf_content (fg_buf frag) = d"
proof -
  obtain m where m: "b_data (fg_buf frag) = Some m" "fr_headroom frame + int (length d) \<le> int (length m)" "0 \<le> fr_headroom frame"
    using j by (auto simp: joining_def frag_room_def)
  have "0 < k" using c by (simp add: frag_cut_def)
  then have l: "b_len (fg_buf frag) = int (length d)" using j by (simp add: joining_def)
  have at: "m ! (nat (fr_headroom frame) + q) = d ! q" if "q < length d" for q
    using j m(1) frag_cut_div [OF c that] that by (simp add: joining_def)
  have "take (length d) (drop (nat (fr_headroom frame)) m) = d"
  proof (rule nth_equalityI)
    show "length (take (length d) (drop (nat (fr_headroom frame)) m)) = length d" using m(2,3) by simp
    fix q assume "q < length (take (length d) (drop (nat (fr_headroom frame)) m))"
    then show "take (length d) (drop (nat (fr_headroom frame)) m) ! q = d ! q" using at m(2,3) by simp
  qed
  then show ?thesis using m(1) l j by (simp add: buf_content_def buf_len_def buf_valid_def joining_def)
qed

text \<open>The arrival of fragment \<open>i\<close> in a buffer that is joining, or is free.\<close>

definition slot_state :: "frame \<Rightarrow> nat \<Rightarrow> nat \<Rightarrow> u8 list \<Rightarrow> nat set \<Rightarrow> fragment \<Rightarrow> bool" where
  "slot_state frame s k d S frag \<longleftrightarrow> frag_room frame (length d) frag \<and>
     (if S = {} then \<not> fg_defined frag else joining frame s k d S frag)"

lemma chunk_at:
  assumes "p < length (chunk s d i)"
  shows "chunk s d i ! p = d ! (i * s + p)"
proof -
  have "i * s + p < length d" using assms by (auto simp: chunk_def)
  then show ?thesis using assms by (simp add: chunk_def nth_drop)
qed

lemma chunk_range:
  assumes "frag_cut s k d" "i < k" "q < length d"
  shows "i * s \<le> q \<and> q < i * s + length (chunk s d i) \<longleftrightarrow> q div s = i"
proof -
  have s: "0 < s" using assms(1) by (simp add: frag_cut_def)
  have r: "q div s = i \<longleftrightarrow> i * s \<le> q \<and> q < Suc i * s"
    using s by (metis div_nat_eqI dividend_less_div_times div_times_less_eq_dividend add.commute mult.commute mult_Suc)
  show ?thesis
  proof (cases "Suc i = k")
    case True
    then show ?thesis using length_chunk [OF assms(1,2)] r assms(1,3) by (auto simp: frag_cut_def)
  next
    case False
    then show ?thesis using length_chunk(1) [OF assms(1,2)] r by (simp add: add.commute)
  qed
qed


lemma frag_bits_none: "frag_bits k {} 0"
  by (simp add: frag_bits_def)

text \<open>A buffer is set up at the first fragment of a datagram.\<close>

lemma slot_enter:
  assumes "slot_state frame s k d S frag"
  shows "\<exists>frag1. fragment_enter frame frag (int s) = Some frag1 \<and> joining frame s k d S frag1"
proof (cases "S = {}")
  case True
  then have nd: "\<not> fg_defined frag" and room: "frag_room frame (length d) frag" using assms by (simp_all add: slot_state_def)
  from room obtain m where m: "b_data (fg_buf frag) = Some m" "b_capacity (fg_buf frag) = int (length m)"
    "fr_headroom frame + int (length d) \<le> int (length m)" "0 \<le> fr_headroom frame"
    by (auto simp: frag_room_def)
  have init: "buf_init (fg_buf frag) (fr_headroom frame) = (True, (fg_buf frag)\<lparr>b_len := 0, b_offset := fr_headroom frame\<rparr>)"
    using m by (simp add: buf_init_def)
  show ?thesis using nd True m init by (simp add: fragment_enter_def joining_def frag_room_def frag_bits_none)
next
  case False
  then show ?thesis using assms by (auto simp: slot_state_def joining_def fragment_enter_def)
qed

text \<open>The bytes of a fragment are copied to their place.\<close>

lemma join_copy:
  assumes c: "frag_cut s k d" and i: "i < k" and j: "joining frame s k d S frag" and buf: "buf_rep buf h (chunk s d i) r"
  defines "ext \<equiv> push_bit i (if Suc i = k then FRAG_MAP_MASK else 1)"
  shows "\<exists>b. buf_copy_range (fg_buf frag) (int i * int s) buf 0 (b_len buf) = (True, b) \<and>
    joining frame s k d (insert i S) (frag\<lparr>fg_buf := b, fg_map := fg_map frag OR ext, fg_timestamp := now\<rparr>)"
proof -
  let ?c = "chunk s d i" and ?dst = "fg_buf frag"
  obtain m where m: "b_data ?dst = Some m" "b_capacity ?dst = int (length m)"
    "fr_headroom frame + int (length d) \<le> int (length m)" "0 \<le> fr_headroom frame"
    using j by (auto simp: joining_def frag_room_def)
  have js: "b_offset ?dst = fr_headroom frame" "0 \<le> b_len ?dst" "b_len ?dst \<le> int (length d)" "S \<subseteq> {..<k}"
    "frag_bits k S (fg_map frag)" "k \<le> 32" "fg_defined frag" "fg_max_frag_size frag = int s"
    using j c by (simp_all add: joining_def frag_cut_def)
  note lc = length_chunk [OF c i]
  define o' where "o' = nat (fr_headroom frame)"
  have o': "fr_headroom frame = int o'" using m(4) by (simp add: o'_def)
  have rd: "mem_read buf (b_offset buf + 0) (b_len buf) = ?c" "b_len buf = int (length ?c)"
    using buf_rep_simps [OF buf] by (simp_all add: buf_content_def mem_read_def buf_len_def split: option.splits)
  have fit: "o' + i * s + length ?c \<le> length m" using lc(2) m(3) o' by linarith
  define m' where "m' = overlay m (o' + i * s) ?c"
  have p: "nat (int o' + int i * int s) = o' + i * s" by (simp add: nat_eq_iff)
  define b where "b = ?dst\<lparr>b_data := Some m', b_len := max (b_len ?dst) (int (i * s + length ?c))\<rparr>"
  have copy: "buf_copy_range ?dst (int i * int s) buf 0 (b_len buf) = (True, b)"
  proof -
    have "int o' + int i * int s + int (length ?c) \<le> int (length m)" using fit by (simp flip: of_nat_mult of_nat_add)
    moreover have "int_add (int_add (int o') (int i * int s)) (int (length ?c)) \<le> int o' + int i * int s + int (length ?c)"
      unfolding int_add_add by (rule int_add_le) (simp flip: of_nat_mult of_nat_add)
    ultimately have g1: "int_add (int_add (int o') (int i * int s)) (int (length ?c)) \<le> int (length m)" by linarith
    have "k * s \<le> 32 * 65536" using c by (intro mult_mono) (simp_all add: frag_cut_def)
    then have "i * s + length ?c < 2 ^ 31" using lc(2) c by (simp add: frag_cut_def)
    then have "int i * int s + int (length ?c) < 2 ^ 31" by (simp flip: of_nat_mult of_nat_add)
    moreover have "0 \<le> int i * int s + int (length ?c)" by simp
    ultimately have g2: "int_add (int i * int s) (int (length ?c)) = int i * int s + int (length ?c)"
      by (intro int_add_id) linarith+
    have g3: "int_add 0 (int (length ?c)) \<le> int (length ?c)" using int_add_le [of 0 "int (length ?c)"] by simp
    have "\<not> int i * int s < 0" by (simp add: not_less)
    then show ?thesis using m(1,2) js(1) rd p fit g1 g2 g3 unfolding buf_copy_range_def b_def m'_def
      by (simp add: o' mem_write_def Let_def max_def)
  qed
  have len: "length m' = length m" using fit by (simp add: m'_def)
  have at: "m' ! (o' + q) = d ! q" if q: "q < length d" "q div s = i \<or> q div s \<in> S" for q
  proof (cases "q div s = i")
    case True
    then have r: "i * s \<le> q" "q < i * s + length ?c" using chunk_range [OF c i q(1)] by blast+
    have "m' ! (o' + q) = ?c ! (q - i * s)" using fit r unfolding m'_def by (subst nth_overlay) auto
    then show ?thesis using chunk_at [of "q - i * s" s d i] r by simp
  next
    case False
    then have "\<not> (i * s \<le> q \<and> q < i * s + length ?c)" using chunk_range [OF c i q(1)] by blast
    moreover have "o' + q < length m" using q m(3) o' by linarith
    ultimately have "m' ! (o' + q) = m ! (o' + q)" using fit unfolding m'_def by (subst nth_overlay) auto
    then show ?thesis using j q False m(1) by (simp add: joining_def o'_def)
  qed
  have le: "int (i * s + length ?c) \<le> int (length d)" using lc(2) by linarith
  have last: "max (b_len ?dst) (int (i * s + length ?c)) = int (length d)" if "k - 1 = i \<or> k - 1 \<in> S"
  proof (cases "k - 1 \<in> S")
    case True
    then have "b_len ?dst = int (length d)" using j by (simp add: joining_def)
    then show ?thesis using le by simp
  next
    case False
    then have "Suc i = k" using that i by linarith
    then have "i * s + length ?c = length d" using lc(1) lc(2,3) by auto
    then show ?thesis using js(3) by simp
  qed
  have "joining frame s k d (insert i S) (frag\<lparr>fg_buf := b, fg_map := fg_map frag OR ext, fg_timestamp := now\<rparr>)"
    unfolding joining_def frag_room_def ext_def using js m le last at len i frag_bits_add [OF js(5) i js(6)]
    by (simp add: b_def o' del: of_nat_add of_nat_mult)
  then show ?thesis using copy by blast
qed


lemma slot_insert:
  assumes "joining frame s k d (insert i S) frag"
  shows "slot_state frame s k d (insert i S) frag" "slot_state frame s k d {} (frag\<lparr>fg_defined := False\<rparr>)"
  using assms by (simp_all add: slot_state_def joining_def frag_room_def)

lemma join_step:
  assumes c: "frag_cut s k d" and i: "i < k" and seq: "0 \<le> seq" "seq < 256"
    and st: "slot_state frame s k d S frag" and buf: "buf_rep buf h (chunk s d i) r"
  defines "flags \<equiv> frag_header (if Suc i = k then FRAG_YES_LAST else FRAG_YES_NOTLAST) seq (int i) (int s)"
  shows "\<exists>b frag'. join_fragment now frame frag flags buf = Some (Some b, frag') \<and>
    (if insert i S = {..<k} then buf_content b = d \<and> slot_state frame s k d {} frag'
     else buf_content b = [] \<and> slot_state frame s k d (insert i S) frag')"
proof -
  have "4 dvd s" using c by (simp add: frag_cut_def)
  then have s4: "int s mod 4 = 0" "4 dvd int s" by presburger+
  have ok: "frag_ok seq (int i) (int s)" using c i seq s4 by (simp add: frag_ok_def frag_cut_def)
  let ?t = "if Suc i = k then FRAG_YES_LAST else FRAG_YES_NOTLAST"
  have ty: "?t = FRAG_YES_NOTLAST \<or> ?t = FRAG_YES_LAST" by simp
  have ne: "FRAG_YES_LAST \<noteq> FRAG_YES_NOTLAST" by (simp add: FRAG_YES_LAST_def FRAG_YES_NOTLAST_def)
  note fl = frag_header_fields [OF ok ty, folded flags_def]
  have len: "b_len buf = int (length (chunk s d i))" using buf_rep_simps(3) [OF buf] .
  have size: "(if frag_type_of flags = FRAG_YES_LAST then frag_size_of flags else b_len buf) = int s"
    using fl ne length_chunk(1) [OF c i] len by (cases "Suc i = k") auto
  have last: "frag_type_of flags = FRAG_YES_LAST \<longleftrightarrow> Suc i = k" using fl(1) ne by auto
  obtain frag1 where f1: "fragment_enter frame frag (int s) = Some frag1" "joining frame s k d S frag1"
    using slot_enter [OF st] by blast
  let ?ext = "push_bit i (if Suc i = k then FRAG_MAP_MASK else 1) :: u32"
  obtain b where b: "buf_copy_range (fg_buf frag1) (int i * int s) buf 0 (b_len buf) = (True, b)"
    "joining frame s k d (insert i S) (frag1\<lparr>fg_buf := b, fg_map := fg_map frag1 OR ?ext, fg_timestamp := now\<rparr>)"
    (is "joining frame s k d _ ?f2")
    using join_copy [OF c i f1(2) buf] by blast
  have full: "fg_map ?f2 AND FRAG_MAP_MASK = FRAG_MAP_MASK \<longleftrightarrow> insert i S = {..<k}"
    using b(2) c by (intro frag_bits_full) (auto simp: joining_def frag_cut_def)
  have run: "join_fragment now frame frag flags buf =
    (if fg_map ?f2 AND FRAG_MAP_MASK = FRAG_MAP_MASK then Some (Some (fg_buf ?f2), ?f2\<lparr>fg_defined := False\<rparr>)
     else Some (Some (buf\<lparr>b_len := 0\<rparr>), ?f2))"
    unfolding join_fragment_def Let_def size unfolding last fl(3) nat_int and3_mod
    by (simp add: f1(1) b(1) s4(1))
  show ?thesis
  proof (cases "insert i S = {..<k}")
    case True
    have "buf_content (fg_buf ?f2) = d" using joining_content [OF c b(2) [unfolded True]] .
    then show ?thesis using True run full slot_insert(2) [OF b(2)] by auto
  next
    case False
    have "buf_content (buf\<lparr>b_len := 0\<rparr>) = []" by (simp add: buf_content_def buf_len_def split: option.splits)
    then show ?thesis using False run full slot_insert(1) [OF b(2)] by auto
  qed
qed


section \<open>The window of buffers\<close>

definition list_wf :: "frame \<Rightarrow> nat \<Rightarrow> fragment_list \<Rightarrow> bool" where
  "list_wf frame n l \<longleftrightarrow> 0 \<le> fl_seq_id l \<and> fl_seq_id l < 256 \<and> 0 \<le> fl_index l \<and> fl_index l < 25 \<and>
     length (fl_fragments l) = 25 \<and> (\<forall>frag \<in> set (fl_fragments l). frag_room frame n frag)"

lemma frag_room_undefine [simp]: "frag_room frame n (frag\<lparr>fg_defined := v\<rparr>) = frag_room frame n frag"
  by (simp add: frag_room_def)

lemma set_update_wf: "\<forall>x \<in> set xs. P x \<Longrightarrow> P y \<Longrightarrow> \<forall>x \<in> set (xs[i := y]). P x"
  using set_update_subset_insert [of xs i y] by blast

lemma list_wf_update:
  assumes "list_wf frame n l" "frag_room frame n frag"
  shows "list_wf frame n (l\<lparr>fl_fragments := (fl_fragments l)[i := frag]\<rparr>)"
  using assms set_update_wf [of "fl_fragments l" "frag_room frame n"] by (simp add: list_wf_def)

lemma slide_wf:
  assumes "list_wf frame n l"
  shows "\<exists>l'. slide m l = Some l' \<and> list_wf frame n l' \<and> fl_seq_id l' = (fl_seq_id l + int m) mod 256 \<and>
    fl_index l' = (fl_index l + int m) mod 25"
  using assms
proof (induction m arbitrary: l)
  case 0
  then show ?case by (simp add: list_wf_def)
next
  case (Suc m)
  have b: "0 \<le> fl_seq_id l" "fl_seq_id l < 256" "0 \<le> fl_index l" "fl_index l < 25" "length (fl_fragments l) = 25"
    "\<forall>frag \<in> set (fl_fragments l). frag_room frame n frag"
    using Suc.prems by (simp_all add: list_wf_def)
  let ?i = "(fl_index l + 1) mod 25" and ?s = "(fl_seq_id l + 1) mod 256"
  have i: "modulo_add (fl_index l) 1 N_FRAG_BUF = Some ?i" "modulo_add (fl_seq_id l) 1 N_SEQ_ID = Some ?s"
    using b by (simp_all add: modulo_add_Some N_FRAG_BUF_def N_SEQ_ID_def)
  have ib: "0 \<le> ?i" "?i < 25" by simp_all
  let ?frag = "fl_fragments l ! nat ?i"
  have mem: "frag_room frame n ?frag" using b(5,6) ib by simp
  let ?l = "l\<lparr>fl_index := ?i, fl_seq_id := ?s, fl_fragments := (fl_fragments l)[nat ?i := ?frag\<lparr>fg_defined := False\<rparr>]\<rparr>"
  have "\<forall>frag \<in> set ((fl_fragments l)[nat ?i := ?frag\<lparr>fg_defined := False\<rparr>]). frag_room frame n frag"
    by (rule set_update_wf [OF b(6)]) (simp add: mem)
  then have wf: "list_wf frame n ?l" using b(5) by (simp add: list_wf_def)
  have run: "slide (Suc m) l = slide m ?l" using i ib b(5) by simp
  have "(?s + int m) mod 256 = (fl_seq_id l + int (Suc m)) mod 256" "(?i + int m) mod 25 = (fl_index l + int (Suc m)) mod 25"
    by (simp_all add: mod_simps add.assoc add.commute [of 1])
  then show ?case using Suc.IH [OF wf] run by simp
qed

text \<open>A later packet of the same datagram finds the same buffer.\<close>

lemma get_buf_stable:
  assumes wf: "list_wf frame n l" and seq: "0 \<le> seq" "seq < 256"
  shows "\<exists>i l'. fragment_list_get_buf l seq = Some (i, l') \<and> 0 \<le> i \<and> i < 25 \<and> list_wf frame n l' \<and>
    (\<forall>frag. fragment_list_get_buf (l'\<lparr>fl_fragments := (fl_fragments l')[nat i := frag]\<rparr>) seq =
      Some (i, l'\<lparr>fl_fragments := (fl_fragments l')[nat i := frag]\<rparr>))"
proof -
  have b: "0 \<le> fl_seq_id l" "fl_seq_id l < 256" "0 \<le> fl_index l" "fl_index l < 25" using wf by (simp_all add: list_wf_def)
  have same: "modulo_subtract seq seq 256 = Some 0" using seq by (simp add: modulo_subtract_def)
  obtain diff where d: "modulo_subtract seq (fl_seq_id l) 256 = Some diff" "diff mod 256 = (seq - fl_seq_id l) mod 256" "2 * \<bar>diff\<bar> \<le> 256"
    using modulo_subtract_Some [OF seq b(1,2)] by auto
  have at0: "modulo_add x 0 25 = Some x" if "0 \<le> x" "x < 25" for x
    using modulo_add_Some [of x 25 0] that by simp
  have len: "length (fl_fragments l) = 25" using wf by (simp add: list_wf_def)
  show ?thesis
  proof (cases "\<bar>diff\<bar> \<ge> 25")
    case True
    let ?l = "l\<lparr>fl_fragments := map (\<lambda>f. f\<lparr>fg_defined := False\<rparr>) (fl_fragments l), fl_index := 0, fl_seq_id := seq\<rparr>"
    have "list_wf frame n ?l" using wf seq by (simp add: list_wf_def)
    moreover have "fragment_list_get_buf l seq = Some (0, ?l)"
      using d(1) True len at0 [of 0] by (simp add: fragment_list_get_buf_def N_FRAG_BUF_def N_SEQ_ID_def Let_def)
    moreover have "fragment_list_get_buf (?l\<lparr>fl_fragments := (fl_fragments ?l)[nat 0 := frag]\<rparr>) seq =
      Some (0, ?l\<lparr>fl_fragments := (fl_fragments ?l)[nat 0 := frag]\<rparr>)" for frag
      using same len at0 [of 0] by (simp add: fragment_list_get_buf_def N_FRAG_BUF_def N_SEQ_ID_def)
    ultimately show ?thesis by (intro exI [of _ 0] exI [of _ ?l]) auto
  next
    case False
    show ?thesis
    proof (cases "diff > 0")
      case True
      obtain l1 where l1: "slide (nat diff) l = Some l1" "list_wf frame n l1" "fl_seq_id l1 = (fl_seq_id l + diff) mod 256"
        "fl_index l1 = (fl_index l + diff) mod 25"
        using slide_wf [OF wf, of "nat diff"] True by auto
      have s: "fl_seq_id l1 = seq"
      proof -
        have "(fl_seq_id l + diff) mod 256 = (fl_seq_id l + (seq - fl_seq_id l)) mod 256"
          using d(2) by (metis mod_add_right_eq)
        then show ?thesis using l1(3) seq by simp
      qed
      have i: "0 \<le> fl_index l1" "fl_index l1 < 25" "length (fl_fragments l1) = 25" using l1(2) by (simp_all add: list_wf_def)
      have "fragment_list_get_buf l seq = Some (fl_index l1, l1)"
        using d(1) True False l1(1) at0 [OF i(1,2)] i by (simp add: fragment_list_get_buf_def N_FRAG_BUF_def N_SEQ_ID_def)
      moreover have "fragment_list_get_buf (l1\<lparr>fl_fragments := (fl_fragments l1)[nat (fl_index l1) := frag]\<rparr>) seq =
        Some (fl_index l1, l1\<lparr>fl_fragments := (fl_fragments l1)[nat (fl_index l1) := frag]\<rparr>)" for frag
        using same s i at0 [OF i(1,2)] by (simp add: fragment_list_get_buf_def N_FRAG_BUF_def N_SEQ_ID_def)
      ultimately show ?thesis using i l1(2) by blast
    next
      case neg: False
      let ?i = "(fl_index l + diff) mod 25"
      have i: "modulo_add (fl_index l) diff 25 = Some ?i" "0 \<le> ?i" "?i < 25"
        using b neg False by (simp_all add: modulo_add_Some)
      have run: "fragment_list_get_buf l2 seq = Some (?i, l2)" if "fl_seq_id l2 = fl_seq_id l" "fl_index l2 = fl_index l"
        "length (fl_fragments l2) = 25" for l2
        using that d(1) i False neg by (simp add: fragment_list_get_buf_def N_FRAG_BUF_def N_SEQ_ID_def)
      show ?thesis using run wf len i(2,3) by (intro exI [of _ ?i] exI [of _ l]) auto
    qed
  qed
qed

end
