(* ===== verification/FragmentProps.thy ===== *)
theory FragmentProps
  imports FragmentRecv
begin

text \<open>
  The properties of fragmentation: the fragments of a datagram give back the datagram, in
  whatever order they arrive.
\<close>

section \<open>Receiving the fragments of a datagram\<close>

text \<open>The contents of what \<open>fragment_incoming\<close> makes of packets that arrive at the given times.\<close>

fun receive_packets ::
  "frame \<Rightarrow> fragment_master \<Rightarrow> (int \<times> buffer) list \<Rightarrow> (u8 list list \<times> fragment_master) option" where
  "receive_packets frame f [] = Some ([], f)"
| "receive_packets frame f ((now, buf) # ps) = do {
     (b, f) \<leftarrow> fragment_incoming now frame f buf;
     (ds, f) \<leftarrow> receive_packets frame f ps;
     Some (buf_content b # ds, f) }"

text \<open>
  What a receiver should make of the fragments \<open>i # is\<close> of a datagram \<open>d\<close> in \<open>k\<close> parts, when
  those in \<open>S\<close> have arrived: nothing, until the last missing one comes.
\<close>

fun joined_outputs :: "nat \<Rightarrow> u8 list \<Rightarrow> nat set \<Rightarrow> nat list \<Rightarrow> u8 list list" where
  "joined_outputs k d S [] = []"
| "joined_outputs k d S (i # is) =
     (if {..<k} \<subseteq> insert i S then d # joined_outputs k d {} is else [] # joined_outputs k d (insert i S) is)"

text \<open>The buffer that the next fragment with sequence id \<open>seq\<close> joins.\<close>

definition seq_slot :: "fragment_list \<Rightarrow> int \<Rightarrow> fragment option" where
  "seq_slot l seq = do { (i, l) \<leftarrow> fragment_list_get_buf l seq; nth_opt (fl_fragments l) i }"

definition frag_receiver :: "frame \<Rightarrow> nat \<Rightarrow> fragment_master \<Rightarrow> bool" where
  "frag_receiver frame n f \<longleftrightarrow> list_wf frame n (fm_incoming f)"

definition seq_free :: "int \<Rightarrow> fragment_master \<Rightarrow> bool" where
  "seq_free seq f = (case seq_slot (fm_incoming f) seq of None \<Rightarrow> False | Some frag \<Rightarrow> \<not> fg_defined frag)"

lemma incoming_step:
  assumes c: "frag_cut s k d" and i: "i < k" and seq: "0 \<le> seq" "seq < 256"
    and wf: "list_wf frame (length d) (fm_incoming f)" and slot: "seq_slot (fm_incoming f) seq = Some frag"
    and st: "slot_state frame s k d S frag" and buf: "buf_rep buf h (frag_packet seq s k d i) r"
  shows "\<exists>b f' frag'. fragment_incoming now frame f buf = Some (b, f') \<and>
    list_wf frame (length d) (fm_incoming f') \<and> seq_slot (fm_incoming f') seq = Some frag' \<and>
    (if insert i S = {..<k} then buf_content b = d \<and> slot_state frame s k d {} frag'
     else buf_content b = [] \<and> slot_state frame s k d (insert i S) frag')"
proof -
  let ?t = "if Suc i = k then FRAG_YES_LAST else FRAG_YES_NOTLAST"
  define flags where "flags = frag_header ?t seq (int i) (int s)"
  have ok: "frag_ok seq (int i) (int s)"
  proof -
    have "4 dvd s" using c by (simp add: frag_cut_def)
    then have "4 dvd int s" by presburger
    then show ?thesis using c i seq by (simp add: frag_ok_def frag_cut_def)
  qed
  have ty: "?t = FRAG_YES_NOTLAST \<or> ?t = FRAG_YES_LAST" by simp
  note fl = frag_header_fields [OF ok ty, folded flags_def]
  have nw: "?t \<noteq> FRAG_WHOLE" by (simp add: FRAG_YES_LAST_def FRAG_YES_NOTLAST_def FRAG_WHOLE_def)
  have rep: "buf_rep buf h (be32 flags @ chunk s d i) r" using buf by (simp only: frag_packet_def flags_def)
  obtain buf' where rd: "buf_read buf 4 = (Some (be32 flags), buf')" "buf_rep buf' (h + 4) (chunk s d i) r"
    by (rule bd.consumeE [OF rep, of 4]) simp_all
  obtain j l where g: "fragment_list_get_buf (fm_incoming f) seq = Some (j, l)" "0 \<le> j" "j < 25" "list_wf frame (length d) l"
    "\<And>x. fragment_list_get_buf (l\<lparr>fl_fragments := (fl_fragments l)[nat j := x]\<rparr>) seq =
      Some (j, l\<lparr>fl_fragments := (fl_fragments l)[nat j := x]\<rparr>)"
    using get_buf_stable [OF wf seq] by blast
  have len: "length (fl_fragments l) = 25" using g(4) by (simp add: list_wf_def)
  have nj: "nth_opt (fl_fragments l) j = Some frag" using slot g(1) by (simp add: seq_slot_def)
  obtain b frag' where jn: "join_fragment now frame frag flags buf' = Some (Some b, frag')"
    "if insert i S = {..<k} then buf_content b = d \<and> slot_state frame s k d {} frag'
     else buf_content b = [] \<and> slot_state frame s k d (insert i S) frag'"
    using join_step [OF c i seq st rd(2)] unfolding flags_def by blast
  let ?l = "l\<lparr>fl_fragments := (fl_fragments l)[nat j := frag']\<rparr>"
  have pos: "0 < b_len buf" using buf_rep_simps(3) [OF rep] by simp
  have "fragment_incoming now frame f buf = Some (b, f\<lparr>fm_incoming := ?l\<rparr>)"
    unfolding fragment_incoming_def using pos rd(1) fl(1,2) ty nw g(1) nj jn(1)
    by (simp only: if_True prod.case option.case Let_def of_be32_be32 if_False Option.bind.bind_lunit)
  moreover have "list_wf frame (length d) ?l"
    using g(4) jn(2) by (intro list_wf_update) (auto simp: slot_state_def split: if_splits)
  moreover have "seq_slot ?l seq = Some frag'" using g(2,3,5) len by (simp add: seq_slot_def)
  ultimately show ?thesis using jn(2) by auto
qed

lemma receive_packets_outputs:
  assumes c: "frag_cut s k d" and seq: "0 \<le> seq" "seq < 256"
  shows "list_wf frame (length d) (fm_incoming f) \<Longrightarrow> seq_slot (fm_incoming f) seq = Some frag \<Longrightarrow>
    slot_state frame s k d S frag \<Longrightarrow> S \<subseteq> {..<k} \<Longrightarrow> \<forall>j \<in> set js. j < k \<Longrightarrow>
    list_all2 (\<lambda>j a. \<exists>h r. buf_rep (snd a) h (frag_packet seq s k d j) r) js arrivals \<Longrightarrow>
    \<exists>f'. receive_packets frame f arrivals = Some (joined_outputs k d S js, f')"
proof (induction js arbitrary: f frag S arrivals)
  case Nil
  then show ?case by simp
next
  case (Cons j js)
  obtain now buf rest where a: "arrivals = (now, buf) # rest" using Cons.prems(6) by (auto simp: list_all2_Cons1)
  obtain h r where rep: "buf_rep buf h (frag_packet seq s k d j) r" using Cons.prems(6) a by auto
  have rest: "list_all2 (\<lambda>j a. \<exists>h r. buf_rep (snd a) h (frag_packet seq s k d j) r) js rest"
    "\<forall>j \<in> set js. j < k" "j < k" using Cons.prems(5,6) a by auto
  have full: "{..<k} \<subseteq> insert j S \<longleftrightarrow> insert j S = {..<k}" using Cons.prems(4) rest(3) by auto
  obtain b f1 frag1 where st: "fragment_incoming now frame f buf = Some (b, f1)"
    "list_wf frame (length d) (fm_incoming f1)" "seq_slot (fm_incoming f1) seq = Some frag1"
    "if insert j S = {..<k} then buf_content b = d \<and> slot_state frame s k d {} frag1
     else buf_content b = [] \<and> slot_state frame s k d (insert j S) frag1"
    using incoming_step [OF c rest(3) seq Cons.prems(1,2,3) rep] by blast
  show ?case
  proof (cases "insert j S = {..<k}")
    case True
    then have s1: "slot_state frame s k d {} frag1" "buf_content b = d" using st(4) by simp_all
    obtain f' where "receive_packets frame f1 rest = Some (joined_outputs k d {} js, f')"
      using Cons.IH [OF st(2,3) s1(1) _ rest(2,1)] by blast
    then show ?thesis using True full st(1) s1(2) by (simp add: a)
  next
    case False
    then have s1: "slot_state frame s k d (insert j S) frag1" "buf_content b = []" using st(4) by simp_all
    have "insert j S \<subseteq> {..<k}" using Cons.prems(4) rest(3) by auto
    then obtain f' where "receive_packets frame f1 rest = Some (joined_outputs k d (insert j S) js, f')"
      using Cons.IH [OF st(2,3) s1(1) _ rest(2,1)] by blast
    then show ?thesis using False full st(1) s1(2) by (simp add: a)
  qed
qed

lemma joined_outputs_once:
  "distinct js \<Longrightarrow> set js \<inter> S = {} \<Longrightarrow> set js \<union> S = {..<k} \<Longrightarrow> js \<noteq> [] \<Longrightarrow>
   joined_outputs k d S js = replicate (length js - 1) [] @ [d]"
proof (induction js arbitrary: S)
  case (Cons j js)
  show ?case
  proof (cases "js = []")
    case True
    then show ?thesis using Cons.prems(3) by auto
  next
    case False
    then obtain x where x: "x \<in> set js" by (cases js) auto
    then have "x \<notin> insert j S" "x < k" using Cons.prems by auto
    then have "\<not> {..<k} \<subseteq> insert j S" by blast
    moreover have "joined_outputs k d (insert j S) js = replicate (length js - 1) [] @ [d]"
      using Cons.prems False by (intro Cons.IH) auto
    moreover have "length js = Suc (length js - 1)" using False by (cases js) simp_all
    ultimately show ?thesis by (metis joined_outputs.simps(2) length_Cons diff_Suc_1 replicate_Suc append_Cons)
  qed
qed simp

section \<open>The round trip\<close>

text \<open>
  C16: A datagram longer than the maximal fragment size that fits 32 fragments is sent, by
  \<open>fragment_outgoing\<close> and as many calls of \<open>fragment_ready_to_send\<close> as the event loop makes,
  as packets from which a receiver with a free buffer for the sequence id recovers it: the packets
  may arrive in any order, repeatedly and at any time, all but the one that completes the datagram
  give the empty packet, and that one gives exactly the datagram. No assertion fails on either side.
\<close>
theorem fragmentation_roundtrip:
  assumes "frag_sender frame (length d) f" "buf_rep buf h d r" "fr_max_fragment_size frame < int (length d)"
    and "frag_count (int (length d)) (fr_max_fragment_size frame - fr_max_fragment_size frame mod 4) \<le> MAX_FRAGS"
    and "fr_max_fragment_size frame < 65536"
    and "frag_receiver rframe (length d) g" "seq_free ((fm_outgoing_seq_id f + 1) mod 256) g"
  shows "\<exists>b f1 ps f2. fragment_outgoing frame f buf = Some (b, f1) \<and> drain 32 frame f1 = Some (ps, f2) \<and>
    \<not> fragment_outgoing_defined f2 \<and>
    (\<forall>js arrivals. (\<forall>j \<in> set js. j < Suc (length ps)) \<longrightarrow>
       list_all2 (\<lambda>j a. \<exists>h r. buf_rep (snd a) h ((buf_content b # ps) ! j) r) js arrivals \<longrightarrow>
       (\<exists>g'. receive_packets rframe g arrivals = Some (joined_outputs (Suc (length ps)) d {} js, g'))) \<and>
    (\<forall>js. distinct js \<longrightarrow> set js = {..<Suc (length ps)} \<longrightarrow>
       joined_outputs (Suc (length ps)) d {} js = replicate (length ps) [] @ [d])"
proof -
  let ?seq = "(fm_outgoing_seq_id f + 1) mod 256"
  obtain s k b f1 f2 where out: "fragment_outgoing frame f buf = Some (b, f1)"
    "drain 32 frame f1 = Some (map (frag_packet ?seq s k d) [1..<k], f2)"
    "buf_content b = frag_packet ?seq s k d 0" "b_len (fm_outgoing f2) = 0"
    "0 < s" "4 dvd s" "int s \<le> fr_max_fragment_size frame" "0 < k" "k \<le> 32" "(k - 1) * s < length d" "length d \<le> k * s"
    using fragment_outgoing_packets [OF assms(1-4)] by blast
  have c: "frag_cut s k d" using out assms(5) by (simp add: frag_cut_def)
  define ps where "ps = map (frag_packet ?seq s k d) [1..<k]"
  have lk: "Suc (length ps) = k" using out(8) by (simp add: ps_def)
  have at: "(buf_content b # ps) ! j = frag_packet ?seq s k d j" if "j < k" for j
    using that out(3) by (cases j) (simp_all add: ps_def)
  obtain frag where slot: "seq_slot (fm_incoming g) ?seq = Some frag" "\<not> fg_defined frag"
    using assms(7) by (auto simp: seq_free_def split: option.splits)
  have wf: "list_wf rframe (length d) (fm_incoming g)" using assms(6) by (simp add: frag_receiver_def)
  have "frag_room rframe (length d) frag"
  proof -
    obtain i l where g: "fragment_list_get_buf (fm_incoming g) ?seq = Some (i, l)" "list_wf rframe (length d) l"
      using get_buf_stable [OF wf, of ?seq] by auto
    then have "nth_opt (fl_fragments l) i = Some frag" using slot(1) by (simp add: seq_slot_def)
    then have "frag \<in> set (fl_fragments l)" by (auto dest: nth_opt_eq_SomeD)
    then show ?thesis using g(2) by (simp add: list_wf_def)
  qed
  then have st: "slot_state rframe s k d {} frag" using slot(2) by (simp add: slot_state_def)
  have recv: "\<exists>g'. receive_packets rframe g arrivals = Some (joined_outputs (Suc (length ps)) d {} js, g')"
    if js: "\<forall>j \<in> set js. j < Suc (length ps)"
      "list_all2 (\<lambda>j a. \<exists>h r. buf_rep (snd a) h ((buf_content b # ps) ! j) r) js arrivals" for js arrivals
  proof -
    have "list_all2 (\<lambda>j a. \<exists>h r. buf_rep (snd a) h (frag_packet ?seq s k d j) r) js arrivals"
      using js(2) by (rule list.rel_mono_strong) (use js(1) at lk in auto)
    then show ?thesis using receive_packets_outputs [OF c _ _ wf slot(1) st] js(1) lk by simp
  qed
  have once: "joined_outputs (Suc (length ps)) d {} js = replicate (length ps) [] @ [d]"
    if "distinct js" "set js = {..<Suc (length ps)}" for js
  proof -
    have l: "length js = Suc (length ps)" using distinct_card [OF that(1)] by (simp only: that(2) card_lessThan)
    then have "js \<noteq> []" by (metis length_0_conv nat.distinct(1))
    with that have "joined_outputs (Suc (length ps)) d {} js = replicate (length js - 1) [] @ [d]"
      by (intro joined_outputs_once) (simp_all only: Int_empty_right Un_empty_right not_False_eq_True)
    then show ?thesis by (simp only: l diff_Suc_1)
  qed
  have nd: "\<not> fragment_outgoing_defined f2" using out(4) by (simp add: fragment_outgoing_defined_def)
  have "\<forall>js arrivals. (\<forall>j \<in> set js. j < Suc (length ps)) \<longrightarrow>
       list_all2 (\<lambda>j a. \<exists>h r. buf_rep (snd a) h ((buf_content b # ps) ! j) r) js arrivals \<longrightarrow>
       (\<exists>g'. receive_packets rframe g arrivals = Some (joined_outputs (Suc (length ps)) d {} js, g'))"
    by (intro allI impI) (rule recv)
  moreover have "\<forall>js. distinct js \<longrightarrow> set js = {..<Suc (length ps)} \<longrightarrow>
       joined_outputs (Suc (length ps)) d {} js = replicate (length ps) [] @ [d]"
    by (intro allI impI) (rule once)
  moreover note nd out(1) out(2) [folded ps_def]
  ultimately show ?thesis by (intro exI conjI)
qed

definition example_frame :: frame where
  "example_frame = \<lparr>fr_payload_size = 40, fr_headroom = 8, fr_tailroom = 0, fr_mss_fix = 0,
     fr_max_fragment_size = 10, fr_tun_mtu = 40, fr_tun_max_mtu = 40, fr_extra_tun = 0\<rparr>"

definition example_peer :: fragment_master where
  "example_peer = the (fragment_frame_init (fragment_init 0 6) example_frame)"

definition example_datagram :: "u8 list" where
  "example_datagram = map word_of_nat [0..<21]"

definition example_buffer :: buffer where
  "example_buffer = \<lparr>b_capacity = 21, b_offset = 0, b_len = 21, b_data = Some example_datagram\<rparr>"

lemma example_peer_simps:
  "fm_incoming example_peer = \<lparr>fl_seq_id = 0, fl_index = 0, fl_fragments =
     replicate 25 (cleared_fragment\<lparr>fg_buf := \<lparr>b_capacity = 48, b_offset = 0, b_len = 0, b_data = Some (replicate 48 0)\<rparr>\<rparr>)\<rparr>"
  "fm_outgoing_seq_id example_peer = 6"
  "fm_outgoing example_peer = \<lparr>b_capacity = 48, b_offset = 0, b_len = 0, b_data = Some (replicate 48 0)\<rparr>"
  "fm_outgoing_return example_peer = \<lparr>b_capacity = 48, b_offset = 0, b_len = 0, b_data = Some (replicate 48 0)\<rparr>"
  by (simp_all add: example_peer_def fragment_frame_init_def fragment_list_buf_init_def alloc_buf_def BUF_SIZE_def
      example_frame_def buf_size_valid_def BUF_SIZE_MAX_def fragment_init_def N_FRAG_BUF_def N_SEQ_ID_def)

lemma fragmentation_roundtrip_witness:
  "\<exists>b f1 ps f2. fragment_outgoing example_frame example_peer example_buffer = Some (b, f1) \<and>
    drain 32 example_frame f1 = Some (ps, f2) \<and> \<not> fragment_outgoing_defined f2 \<and>
    (\<forall>js arrivals. (\<forall>j \<in> set js. j < Suc (length ps)) \<longrightarrow>
       list_all2 (\<lambda>j a. \<exists>h r. buf_rep (snd a) h ((buf_content b # ps) ! j) r) js arrivals \<longrightarrow>
       (\<exists>g'. receive_packets example_frame example_peer arrivals =
          Some (joined_outputs (Suc (length ps)) example_datagram {} js, g'))) \<and>
    (\<forall>js. distinct js \<longrightarrow> set js = {..<Suc (length ps)} \<longrightarrow>
       joined_outputs (Suc (length ps)) example_datagram {} js = replicate (length ps) [] @ [example_datagram])"
proof (rule fragmentation_roundtrip [where r = 0 and h = 0])
  have room: "buf_rep \<lparr>b_capacity = 48, b_offset = 0, b_len = 0, b_data = Some (replicate 48 0)\<rparr> 0 [] 48"
    by (simp add: buf_rep_iff)
  then show "frag_sender example_frame (length example_datagram) example_peer"
    unfolding frag_sender_def example_peer_simps
    by (intro conjI exI [of _ 0] exI [of _ "[]"] exI [of _ 48])
      (simp_all add: example_frame_def example_datagram_def BUF_SIZE_MAX_def N_SEQ_ID_def)
  show "buf_rep example_buffer 0 example_datagram 0" by (simp add: buf_rep_iff example_buffer_def example_datagram_def)
  show "frag_receiver example_frame (length example_datagram) example_peer"
    by (simp add: frag_receiver_def example_peer_simps list_wf_def frag_room_def example_frame_def example_datagram_def)
  show "seq_free ((fm_outgoing_seq_id example_peer + 1) mod 256) example_peer"
    unfolding seq_free_def example_peer_simps by code_simp
qed (simp_all add: example_frame_def example_datagram_def frag_count_def MAX_FRAGS_def)

end
