(* ===== verification/TimingProps.thy ===== *)
theory TimingProps
  imports Timing
begin

text \<open>
  Properties of the clock, the timers and the shaper.
\<close>

definition usecs :: "timeval \<Rightarrow> int" where
  "usecs tv = tv_sec tv * 1000000 + tv_usec tv"

definition tv_wf :: "timeval \<Rightarrow> bool" where
  "tv_wf tv \<longleftrightarrow> 0 \<le> tv_usec tv \<and> tv_usec tv < 1000000"

section \<open>The clock\<close>

fun clock_run :: "clock \<Rightarrow> int list \<Rightarrow> clock list" where
  "clock_run ck [] = []"
| "clock_run ck (t # ts) = (let ck' = update_now ck t in ck' # clock_run ck' ts)"

lemma update_now_step:
  "0 \<le> ck_adj ck \<Longrightarrow> ck_now ck \<le> ck_now (update_now ck t) \<and> 0 \<le> ck_adj (update_now ck t)"
  by (simp add: update_now_def Let_def)

lemma clock_run_ge:
  "0 \<le> ck_adj ck \<Longrightarrow> sorted (map ck_now (clock_run ck ts)) \<and> (\<forall>n \<in> set (map ck_now (clock_run ck ts)). ck_now ck \<le> n)"
proof (induction ts arbitrary: ck)
  case (Cons t ts)
  let ?ck = "update_now ck t"
  have s: "ck_now ck \<le> ck_now ?ck" "0 \<le> ck_adj ?ck" using update_now_step [OF Cons.prems] by blast+
  from Cons.IH [OF s(2)] s(1) show ?case by (auto simp: Let_def intro: order_trans)
qed simp

text \<open>The adjusted time a clock was last updated with is at most the trigger behind it.\<close>

definition within_trigger :: "int \<Rightarrow> clock \<Rightarrow> bool" where
  "within_trigger t ck \<longleftrightarrow> ck_now ck - 10 \<le> t + ck_adj ck \<and> t + ck_adj ck \<le> ck_now ck"

lemma update_now_within: "within_trigger t (update_now ck t)"
  by (simp add: update_now_def within_trigger_def Let_def)

lemma clock_run_within: "list_all2 within_trigger ts (clock_run ck ts)"
  by (induction ts arbitrary: ck) (simp_all add: update_now_within Let_def)

lemma clock_run_follows:
  "ck_adj ck = 0 \<Longrightarrow> sorted (ck_now ck # ts) \<Longrightarrow> map ck_now (clock_run ck ts) = ts"
proof (induction ts arbitrary: ck)
  case (Cons t ts)
  have "ck_now (update_now ck t) = t" "ck_adj (update_now ck t) = 0"
    using Cons.prems by (auto simp: update_now_def Let_def)
  with Cons show ?case by (simp add: Let_def)
qed simp

text \<open>
  C36: \<open>now\<close> never goes backward, whatever times the system clock reports, and after each
  update the system time, adjusted by what the filter has added up, is at most the trigger
  of 10 seconds behind \<open>now\<close> and not ahead of it. While nothing has been added up and the
  system clock does not go backward, \<open>now\<close> is the system time; an adjusted time ahead of
  \<open>now\<close> always moves it on, but by one second only for a jump of more than a day that what has
  been added up covers, which is taken out of it again. Where the system clock is set back by more than the trigger,
  \<open>now\<close> stands still once and from then on follows the system clock second by second.
\<close>

theorem clock_filter:
  assumes "0 \<le> ck_adj ck"
  shows "sorted (ck_now ck # map ck_now (clock_run ck ts)) \<and>
    list_all2 (\<lambda>t c. ck_now c - 10 \<le> t + ck_adj c \<and> t + ck_adj c \<le> ck_now c) ts (clock_run ck ts) \<and>
    (ck_adj ck = 0 \<and> sorted (ck_now ck # ts) \<longrightarrow> map ck_now (clock_run ck ts) = ts) \<and>
    (t + ck_adj ck > ck_now ck \<longrightarrow> ck_now (update_now ck t) > ck_now ck) \<and>
    (86401 < t + ck_adj ck - ck_now ck \<and> t + ck_adj ck - ck_now ck \<le> ck_adj ck + 1 \<longrightarrow>
       ck_now (update_now ck t) = ck_now ck + 1 \<and> t + ck_adj (update_now ck t) = ck_now ck + 1) \<and>
    (t + ck_adj ck < ck_now ck - 10 \<longrightarrow>
       ck_now (update_now ck t) = ck_now ck \<and>
       (\<forall>d. 0 \<le> d \<and> d \<le> 86401 \<longrightarrow> ck_now (update_now (update_now ck t) (t + d)) = ck_now ck + d))"
proof (intro conjI)
  show "list_all2 (\<lambda>t c. ck_now c - 10 \<le> t + ck_adj c \<and> t + ck_adj c \<le> ck_now c) ts (clock_run ck ts)"
    using clock_run_within [of ts ck] unfolding within_trigger_def [abs_def] .
  show "ck_adj ck = 0 \<and> sorted (ck_now ck # ts) \<longrightarrow> map ck_now (clock_run ck ts) = ts"
    using clock_run_follows by blast
qed (use clock_run_ge [OF assms, of ts] in \<open>auto simp: update_now_def Let_def\<close>)

lemma clock_filter_witness:
  "ck_now (update_now \<lparr>ck_now = 1000, ck_adj = 0, ck_usec = 0\<rparr> 500) = 1000 \<and>
   ck_now (update_now (update_now \<lparr>ck_now = 1000, ck_adj = 0, ck_usec = 0\<rparr> 500) (500 + 7)) = 1000 + 7 \<and>
   map ck_now (clock_run \<lparr>ck_now = 1000, ck_adj = 0, ck_usec = 0\<rparr> [1001, 200000]) = [1001, 200000]"
  using clock_filter [of "\<lparr>ck_now = 1000, ck_adj = 0, ck_usec = 0\<rparr>" "[1001, 200000]" 500] by (auto dest: spec [of _ 7])

section \<open>Adding times\<close>

lemma bits20: "drop_bit 20 (u :: int) = u div 1048576" "u AND 0x000FFFFF = u mod 1048576"
proof -
  show "drop_bit 20 u = u div 1048576" by (simp add: drop_bit_eq_div)
  have "u AND mask 20 = take_bit 20 u" by (simp add: take_bit_eq_mask)
  then show "u AND 0x000FFFFF = u mod 1048576" by (simp add: mask_eq_exp_minus_1 take_bit_eq_mod)
qed

lemma tv_add_usecs:
  assumes "0 \<le> tv_usec a + tv_usec b"
  shows "usecs (tv_add a b) = usecs a + usecs b - 48576 * ((tv_usec a + tv_usec b) div 1048576)" "tv_wf (tv_add a b)"
proof -
  let ?u = "tv_usec a + tv_usec b"
  have m: "?u = 1048576 * (?u div 1048576) + ?u mod 1048576" by simp
  have b: "0 \<le> ?u mod 1048576" "?u mod 1048576 < 1048576" by simp_all
  show "usecs (tv_add a b) = usecs a + usecs b - 48576 * (?u div 1048576)"
    using m unfolding tv_add_def Let_def bits20 usecs_def by (simp add: algebra_simps)
  show "tv_wf (tv_add a b)"
  proof -
    define r where "r = ?u mod 1048576"
    have "0 \<le> r" "r < 1048576" by (simp_all add: r_def)
    then show ?thesis unfolding tv_add_def Let_def bits20 tv_wf_def r_def [symmetric] by simp
  qed
qed

section \<open>The shaper\<close>

text \<open>
  C38: the delay of the shaper. Right after a packet, \<open>shaper_delay\<close> is the delay that was
  asked for less 48576 microseconds for every 2^20 microseconds in the sum \<open>tv_add\<close> forms
  (it takes 2^20 for a second), and no delay at all when the wakeup time falls on a whole
  second, which \<open>tv_defined\<close> takes for undefined.
\<close>

theorem shaper_delay_after_write:
  assumes "tv_wf tv" "0 < tv_sec tv" "0 < scaled (max nbytes 100) (sh_bytes_per_second s)"
  shows "let s' = shaper_wrote_bytes scaled tv s nbytes;
             asked = min (scaled (max nbytes 100) (sh_bytes_per_second s)) 10000000 in
    shaper_delay tv s' = (if tv_usec (sh_wakeup s') = 0 then 0
      else asked - 48576 * ((tv_usec tv + asked) div 1048576))"
proof -
  define asked where "asked = min (scaled (max nbytes 100) (sh_bytes_per_second s)) 10000000"
  let ?w = "tv_add tv \<lparr>tv_sec = 0, tv_usec = asked\<rparr>"
  have a: "0 < asked" "asked \<le> 10000000" using assms(3) by (simp_all add: asked_def)
  have u: "0 \<le> tv_usec tv" "tv_usec tv < 1000000" using assms(1) by (simp_all add: tv_wf_def)
  have w: "usecs ?w = usecs tv + asked - 48576 * ((tv_usec tv + asked) div 1048576)" "tv_wf ?w"
    using tv_add_usecs [of tv "\<lparr>tv_sec = 0, tv_usec = asked\<rparr>"] a u by (simp_all add: usecs_def)
  let ?d = "asked - 48576 * ((tv_usec tv + asked) div 1048576)"
  have q: "1048576 * ((tv_usec tv + asked) div 1048576) \<le> tv_usec tv + asked" by simp
  have d: "0 < ?d" "?d \<le> 10000000"
  proof -
    let ?q = "(tv_usec tv + asked) div 1048576"
    have q0: "0 \<le> ?q" using a u by simp
    show "?d \<le> 10000000" using q0 a by linarith
    show "0 < ?d"
    proof (cases "?q = 0")
      case False
      then have "1 \<le> ?q" using q0 by linarith
      then show ?thesis using q u by linarith
    qed (use a in simp)
  qed
  have wu: "0 \<le> tv_usec ?w" "tv_usec ?w < 1000000" using w(2) by (simp_all add: tv_wf_def)
  have s: "tv_sec ?w > 0"
  proof -
    have "tv_sec ?w * 1000000 > usecs tv - 1000000" using w(1) d wu unfolding usecs_def [of ?w] by linarith
    moreover have "usecs tv \<ge> 1000000" using assms(2) u by (simp add: usecs_def)
    ultimately show ?thesis by linarith
  qed
  define D where "D = ?d"
  have diff: "(tv_sec ?w - tv_sec tv) * 1000000 + (tv_usec ?w - tv_usec tv) = ?d"
    using w(1) unfolding usecs_def by (simp add: algebra_simps)
  have sd: "tv_sec ?w - tv_sec tv \<le> 11" "- 11 \<le> tv_sec ?w - tv_sec tv"
    using diff [unfolded left_diff_distrib] d wu u unfolding D_def [symmetric] by linarith+
  have "tv_subtract ?w tv SHAPER_MAX_TIMEOUT = ?d"
    using diff d sd by (simp add: tv_subtract_def SHAPER_MAX_TIMEOUT_def constrain_int_def Let_def)
  moreover have "tv_defined ?w \<longleftrightarrow> tv_usec ?w \<noteq> 0" using s w(2) by (auto simp: tv_defined_def tv_wf_def)
  moreover have "shaper_wrote_bytes scaled tv s nbytes = s\<lparr>sh_wakeup := ?w\<rparr>"
    using a unfolding shaper_wrote_bytes_def SHAPER_MAX_TIMEOUT_def by (simp add: asked_def Let_def)
  ultimately show ?thesis using d by (simp add: Let_def asked_def [symmetric] shaper_delay_def)
qed

lemma shaper_delay_after_write_witness:
  "let s' = shaper_wrote_bytes (\<lambda>n bps. n * 1000000 div bps) \<lparr>tv_sec = 50, tv_usec = 600000\<rparr>
              (shaper_init \<lparr>sh_bytes_per_second = 0, sh_wakeup = tv_clear\<rparr> 2000) 1000;
       asked = min (max 1000 100 * 1000000 div 2000) 10000000 in
   shaper_delay \<lparr>tv_sec = 50, tv_usec = 600000\<rparr> s' = (if tv_usec (sh_wakeup s') = 0 then 0
      else asked - 48576 * ((600000 + asked) div 1048576))"
  using shaper_delay_after_write [of "\<lparr>tv_sec = 50, tv_usec = 600000\<rparr>" "\<lambda>n bps. n * 1000000 div bps" 1000
      "shaper_init \<lparr>sh_bytes_per_second = 0, sh_wakeup = tv_clear\<rparr> 2000"]
  by (simp add: tv_wf_def shaper_init_def shaper_reset_def shaper_reset_wakeup_def constrain_int_def SHAPER_MIN_def
      SHAPER_MAX_def Let_def)

section \<open>Timers\<close>

text \<open>
  C37: the wakeup time of an interval is exact. When \<open>interval_test\<close> is false at \<open>now\<close> and
  \<open>interval_schedule_wakeup\<close> lowers the sleep to \<open>w\<close> seconds, then without an action in
  between \<open>interval_test\<close> stays false for the seconds before and is true after exactly \<open>w\<close>.
\<close>

theorem interval_wakeup_exact:
  assumes "interval_test now iv = (False, iv')" "0 < now"
    and "w = interval_schedule_wakeup now iv' wakeup" "w < wakeup"
  shows "0 < w \<and> (\<forall>t. now \<le> t \<and> t < now + w \<longrightarrow> interval_test t iv' = (False, iv')) \<and>
    fst (interval_test (now + w) iv')"
proof -
  have f: "\<not> (iv_future_trigger iv \<noteq> 0 \<and> now \<ge> iv_future_trigger iv)" and iv': "iv' = iv"
    and h: "iv_last_action iv + iv_horizon iv \<le> now" "now < iv_last_test_true iv + iv_refresh iv"
    using assms(1) by (auto simp: interval_test_def Let_def split: if_splits)
  define due where "due = iv_last_test_true iv + iv_refresh iv"
  define trig where "trig = iv_future_trigger iv"
  have wk: "0 < w" "now + w \<le> due" "trig = 0 \<or> now + w \<le> trig" "now + w = due \<or> trig \<noteq> 0 \<and> now + w = trig"
    using assms(2-4) h f unfolding iv' interval_schedule_wakeup_def interval_earliest_wakeup_def Let_def due_def [symmetric] trig_def [symmetric]
    by (simp_all split: if_splits)
  have no: "interval_test t iv = (False, iv)" if "now \<le> t" "t < now + w" for t
    using that wk(2,3) h(1) unfolding interval_test_def Let_def due_def trig_def by auto
  have "fst (interval_test (now + w) iv)"
    using wk(1,4) unfolding interval_test_def Let_def due_def trig_def by auto
  with wk(1) no show ?thesis by (simp add: iv')
qed

lemma interval_wakeup_exact_witness:
  "let iv = interval_future_trigger 100 \<lparr>iv_refresh = 60, iv_horizon = 10, iv_future_trigger = 0, iv_last_action = 20,
        iv_last_test_true = 70\<rparr> 5 in
   interval_test 104 iv = (False, iv) \<and> fst (interval_test (100 + 5) iv)"
proof -
  let ?iv = "\<lparr>iv_refresh = 60, iv_horizon = 10, iv_future_trigger = 105, iv_last_action = 20, iv_last_test_true = 70\<rparr>"
  have "interval_test 100 ?iv = (False, ?iv)" by (simp add: interval_test_def)
  from interval_wakeup_exact [OF this, of 5 604800] show ?thesis
    by (simp add: interval_schedule_wakeup_def interval_earliest_wakeup_def interval_future_trigger_def)
qed

text \<open>
  A recurring timer. \<open>event_timeout_trigger\<close> fires exactly when the interval has passed
  since the last event, is then due again exactly one interval later, and never lets the
  event loop sleep past the next time it is due; it never lengthens the sleep.
\<close>

theorem event_timeout_trigger_spec:
  assumes "et_defined et" "0 \<le> et_n et" "event_timeout_trigger now et (Some tv) ETT_DEFAULT = (fired, et', tv')"
  shows "(fired \<longleftrightarrow> et_last et + et_n et \<le> now) \<and>
    (et_defined et' \<and> et_n et' = et_n et \<and> et_last et' = (if fired then now else et_last et)) \<and>
    (\<exists>t. tv' = Some t \<and> tv_sec t \<le> event_timeout_remaining now et' \<and> tv_sec t \<le> tv_sec tv)"
  using assms
  by (auto simp: event_timeout_trigger_def event_timeout_remaining_def ETT_DEFAULT_def Let_def split: if_splits)

lemma event_timeout_trigger_spec_witness:
  "\<exists>et' t. event_timeout_trigger 17 (event_timeout_init 5 12) (Some \<lparr>tv_sec = 100, tv_usec = 3\<rparr>) ETT_DEFAULT = (True, et', Some t) \<and>
    et_last et' = 17 \<and> tv_sec t \<le> 5"
proof -
  obtain fired et' tv' where r: "event_timeout_trigger 17 (event_timeout_init 5 12) (Some \<lparr>tv_sec = 100, tv_usec = 3\<rparr>) ETT_DEFAULT =
      (fired, et', tv')"
    by (metis prod_cases3)
  have "et_defined (event_timeout_init 5 12)" "0 \<le> et_n (event_timeout_init 5 12)" by (simp_all add: event_timeout_init_def)
  from event_timeout_trigger_spec [OF this r] r show ?thesis
    by (auto simp: event_timeout_init_def event_timeout_remaining_def)
qed

end
