(* ===== verification/HashTable.thy ===== *)
theory HashTable
  imports CInteger
begin

text \<open>
  list.c and list.h: hash tables with chained buckets. A pointer to a bucket is its index, the
  chain of a bucket is a list, and a pointer to an element of the locked bucket of an iterator
  is its position. A key that an iterator has marked is the null pointer (\<open>None\<close>); comparing with
  it aborts.
\<close>

section \<open>Data\<close>

record ('k, 'v) hash_element =
  he_value :: 'v
  he_key :: "'k option"
  he_hash_value :: u32

record ('k, 'v) hash_table =
  ht_n_buckets :: int
  ht_n_elements :: int
  ht_mask :: int
  ht_iv :: u32
  ht_hash_function :: "'k \<Rightarrow> u32 \<Rightarrow> u32"
  ht_compare_function :: "'k \<Rightarrow> 'k \<Rightarrow> bool"
  ht_buckets :: "('k, 'v) hash_element list list"

record hash_iterator =
  hi_bucket_index :: int
  hi_bucket :: "int option"
  hi_elem :: "nat option"
  hi_last :: "nat option"
  hi_bucket_marked :: bool
  hi_bucket_index_start :: int
  hi_bucket_index_end :: int

section \<open>Creation\<close>

text \<open>A number of buckets above \<open>2 ^ 30\<close> would not fit an \<open>int\<close> when it is rounded up.\<close>

definition hash_init ::
  "int \<Rightarrow> u32 \<Rightarrow> ('k \<Rightarrow> u32 \<Rightarrow> u32) \<Rightarrow> ('k \<Rightarrow> 'k \<Rightarrow> bool) \<Rightarrow> ('k, 'v) hash_table option" where
  "hash_init n_buckets iv hash_function compare_function = do {
     _ \<leftarrow> ASSERT (n_buckets > 0);
     p \<leftarrow> adjust_power_of_2 (nat n_buckets);
     _ \<leftarrow> ASSERT (int p < 2 ^ 31);
     Some \<lparr>ht_n_buckets = int p, ht_n_elements = 0, ht_mask = int p - 1, ht_iv = iv,
       ht_hash_function = hash_function, ht_compare_function = compare_function,
       ht_buckets = replicate p []\<rparr> }"

definition hash_value :: "('k, 'v) hash_table \<Rightarrow> 'k \<Rightarrow> u32" where
  "hash_value h key = ht_hash_function h key (ht_iv h)"

definition hash_bucket :: "('k, 'v) hash_table \<Rightarrow> u32 \<Rightarrow> int" where
  "hash_bucket h hv = uint (hv AND word_of_int (ht_mask h))"

definition hash_n_elements :: "('k, 'v) hash_table \<Rightarrow> int" where
  "hash_n_elements h = ht_n_elements h"

definition hash_n_buckets :: "('k, 'v) hash_table \<Rightarrow> int" where
  "hash_n_buckets h = ht_n_buckets h"

section \<open>Lookup, insertion, removal\<close>

text \<open>The loop over a chain: what is before the element found, the element, what is behind it.\<close>

fun chain_find ::
  "('k \<Rightarrow> 'k \<Rightarrow> bool) \<Rightarrow> 'k \<Rightarrow> u32 \<Rightarrow> ('k, 'v) hash_element list \<Rightarrow>
   (('k, 'v) hash_element list \<times> ('k, 'v) hash_element \<times> ('k, 'v) hash_element list) option option" where
  "chain_find cmp key hv [] = Some None"
| "chain_find cmp key hv (he # rest) = do {
     found \<leftarrow> (if hv = he_hash_value he then map_option (cmp key) (he_key he) else Some False);
     if found then Some (Some ([], he, rest))
     else do {
       r \<leftarrow> chain_find cmp key hv rest;
       Some (map_option (\<lambda>(prev, x, next). (he # prev, x, next)) r) } }"

text \<open>The element found moves to the head of its chain.\<close>

definition hash_lookup_fast ::
  "('k, 'v) hash_table \<Rightarrow> int \<Rightarrow> 'k \<Rightarrow> u32 \<Rightarrow> (('k, 'v) hash_element option \<times> ('k, 'v) hash_table) option" where
  "hash_lookup_fast h bucket key hv = do {
     chain \<leftarrow> nth_opt (ht_buckets h) bucket;
     r \<leftarrow> chain_find (ht_compare_function h) key hv chain;
     Some (case r of
         None \<Rightarrow> (None, h)
       | Some (prev, he, next) \<Rightarrow> (Some he, h\<lparr>ht_buckets := (ht_buckets h)[nat bucket := he # prev @ next]\<rparr>)) }"

definition hash_remove_fast ::
  "('k, 'v) hash_table \<Rightarrow> int \<Rightarrow> 'k \<Rightarrow> u32 \<Rightarrow> (bool \<times> ('k, 'v) hash_table) option" where
  "hash_remove_fast h bucket key hv = do {
     chain \<leftarrow> nth_opt (ht_buckets h) bucket;
     r \<leftarrow> chain_find (ht_compare_function h) key hv chain;
     Some (case r of
         None \<Rightarrow> (False, h)
       | Some (prev, he, next) \<Rightarrow>
           (True, h\<lparr>ht_buckets := (ht_buckets h)[nat bucket := prev @ next], ht_n_elements := ht_n_elements h - 1\<rparr>)) }"

definition hash_add_fast ::
  "('k, 'v) hash_table \<Rightarrow> int \<Rightarrow> 'k \<Rightarrow> u32 \<Rightarrow> 'v \<Rightarrow> ('k, 'v) hash_table option" where
  "hash_add_fast h bucket key hv v = do {
     chain \<leftarrow> nth_opt (ht_buckets h) bucket;
     let he = \<lparr>he_value = v, he_key = Some key, he_hash_value = hv\<rparr>;
     Some (h\<lparr>ht_buckets := (ht_buckets h)[nat bucket := he # chain], ht_n_elements := ht_n_elements h + 1\<rparr>) }"

definition hash_lookup :: "('k, 'v) hash_table \<Rightarrow> 'k \<Rightarrow> ('v option \<times> ('k, 'v) hash_table) option" where
  "hash_lookup h key = do {
     let hv = hash_value h key;
     let bucket = hash_bucket h hv;
     (he, h) \<leftarrow> hash_lookup_fast h bucket key hv;
     Some (map_option he_value he, h) }"

text \<open>After a lookup that succeeded, the element is at the head of the chain.\<close>

definition set_head_value :: "('k, 'v) hash_table \<Rightarrow> int \<Rightarrow> 'v \<Rightarrow> ('k, 'v) hash_table" where
  "set_head_value h bucket v =
     h\<lparr>ht_buckets := (ht_buckets h)[nat bucket :=
       (case ht_buckets h ! nat bucket of [] \<Rightarrow> [] | he # rest \<Rightarrow> he\<lparr>he_value := v\<rparr> # rest)]\<rparr>"

definition hash_add :: "('k, 'v) hash_table \<Rightarrow> 'k \<Rightarrow> 'v \<Rightarrow> bool \<Rightarrow> (bool \<times> ('k, 'v) hash_table) option" where
  "hash_add h key v replace = do {
     let hv = hash_value h key;
     let bucket = hash_bucket h hv;
     (he, h) \<leftarrow> hash_lookup_fast h bucket key hv;
     (case he of
        Some _ \<Rightarrow> Some (if replace then (True, set_head_value h bucket v) else (False, h))
      | None \<Rightarrow> do { h \<leftarrow> hash_add_fast h bucket key hv v; Some (True, h) }) }"

definition hash_remove :: "('k, 'v) hash_table \<Rightarrow> 'k \<Rightarrow> (bool \<times> ('k, 'v) hash_table) option" where
  "hash_remove h key = do {
     let hv = hash_value h key;
     let bucket = hash_bucket h hv;
     hash_remove_fast h bucket key hv }"

section \<open>Iteration\<close>

text \<open>The chain without its marked elements, and how many those were.\<close>

fun unmarked :: "('k, 'v) hash_element list \<Rightarrow> ('k, 'v) hash_element list \<times> int" where
  "unmarked [] = ([], 0)"
| "unmarked (he # rest) = (case unmarked rest of (kept, n) \<Rightarrow>
     if he_key he = None then (kept, n + 1) else (he # kept, n))"

definition hash_remove_marked :: "('k, 'v) hash_table \<Rightarrow> int \<Rightarrow> ('k, 'v) hash_table option" where
  "hash_remove_marked h bucket = do {
     chain \<leftarrow> nth_opt (ht_buckets h) bucket;
     let (kept, n) = unmarked chain;
     Some (h\<lparr>ht_buckets := (ht_buckets h)[nat bucket := kept], ht_n_elements := ht_n_elements h - n\<rparr>) }"

definition hash_iterator_init_range :: "('k, 'v) hash_table \<Rightarrow> int \<Rightarrow> int \<Rightarrow> hash_iterator option" where
  "hash_iterator_init_range h start_bucket end_bucket = do {
     let end_bucket = (if end_bucket > ht_n_buckets h then ht_n_buckets h else end_bucket);
     _ \<leftarrow> ASSERT (start_bucket \<ge> 0 \<and> start_bucket \<le> end_bucket);
     Some \<lparr>hi_bucket_index = start_bucket - 1, hi_bucket = None, hi_elem = None, hi_last = None,
       hi_bucket_marked = False, hi_bucket_index_start = start_bucket, hi_bucket_index_end = end_bucket\<rparr> }"

definition hash_iterator_init :: "('k, 'v) hash_table \<Rightarrow> hash_iterator option" where
  "hash_iterator_init h = hash_iterator_init_range h 0 (ht_n_buckets h)"

definition hash_iterator_lock :: "hash_iterator \<Rightarrow> int \<Rightarrow> hash_iterator" where
  "hash_iterator_lock hi b = hi\<lparr>hi_bucket := Some b, hi_last := None, hi_bucket_marked := False\<rparr>"

definition hash_iterator_unlock ::
  "('k, 'v) hash_table \<Rightarrow> hash_iterator \<Rightarrow> (('k, 'v) hash_table \<times> hash_iterator) option" where
  "hash_iterator_unlock h hi =
     (case hi_bucket hi of
        None \<Rightarrow> Some (h, hi)
      | Some b \<Rightarrow> do {
          h \<leftarrow> (if hi_bucket_marked hi then hash_remove_marked h b else Some h);
          Some (h, hi\<lparr>hi_bucket_marked := False, hi_bucket := None, hi_last := None\<rparr>) })"

lemma unlock_index:
  "hash_iterator_unlock h hi = Some (h', hi') \<Longrightarrow>
   hi_bucket_index hi' = hi_bucket_index hi \<and> hi_bucket_index_end hi' = hi_bucket_index_end hi"
  by (auto simp: hash_iterator_unlock_def bind_eq_Some_conv split: option.splits)

text \<open>\<open>n\<close> is the length of the locked chain.\<close>

definition hash_iterator_advance :: "nat \<Rightarrow> hash_iterator \<Rightarrow> hash_iterator" where
  "hash_iterator_advance n hi = hi\<lparr>hi_last := hi_elem hi,
     hi_elem := (case hi_elem hi of None \<Rightarrow> None | Some i \<Rightarrow> if Suc i < n then Some (Suc i) else None)\<rparr>"

text \<open>The search for the next bucket that is not empty.\<close>

function next_bucket ::
  "('k, 'v) hash_table \<Rightarrow> hash_iterator \<Rightarrow>
   (('k, 'v) hash_element option \<times> ('k, 'v) hash_table \<times> hash_iterator) option" where
  "next_bucket h hi =
     (let hi = hi\<lparr>hi_bucket_index := hi_bucket_index hi + 1\<rparr> in
      if hi_bucket_index hi < hi_bucket_index_end hi
      then (case hash_iterator_unlock h hi of
          None \<Rightarrow> None
        | Some (h, hi) \<Rightarrow>
            (case nth_opt (ht_buckets h) (hi_bucket_index hi) of
               None \<Rightarrow> None
             | Some [] \<Rightarrow> next_bucket h hi
             | Some (he # rest) \<Rightarrow>
                 Some (Some he, h, hash_iterator_advance (Suc (length rest))
                   ((hash_iterator_lock hi (hi_bucket_index hi))\<lparr>hi_elem := Some 0\<rparr>))))
      else Some (None, h, hi))"
  by pat_completeness auto
termination
  by (relation "measure (\<lambda>(h, hi). nat (hi_bucket_index_end hi - hi_bucket_index hi))")
    (auto dest!: sym [of "Some _"] unlock_index)

declare next_bucket.simps [simp del]

definition hash_iterator_next ::
  "('k, 'v) hash_table \<Rightarrow> hash_iterator \<Rightarrow>
   (('k, 'v) hash_element option \<times> ('k, 'v) hash_table \<times> hash_iterator) option" where
  "hash_iterator_next h hi =
     (case hi_elem hi of
        Some i \<Rightarrow> do {
          b \<leftarrow> hi_bucket hi;
          chain \<leftarrow> nth_opt (ht_buckets h) b;
          he \<leftarrow> nth_opt chain (int i);
          Some (Some he, h, hash_iterator_advance (length chain) hi) }
      | None \<Rightarrow> next_bucket h hi)"

definition hash_iterator_delete_element ::
  "('k, 'v) hash_table \<Rightarrow> hash_iterator \<Rightarrow> (('k, 'v) hash_table \<times> hash_iterator) option" where
  "hash_iterator_delete_element h hi = do {
     i \<leftarrow> hi_last hi;
     b \<leftarrow> hi_bucket hi;
     chain \<leftarrow> nth_opt (ht_buckets h) b;
     he \<leftarrow> nth_opt chain (int i);
     Some (h\<lparr>ht_buckets := (ht_buckets h)[nat b := chain[i := he\<lparr>he_key := None\<rparr>]]\<rparr>, hi\<lparr>hi_bucket_marked := True\<rparr>) }"

definition hash_iterator_free :: "('k, 'v) hash_table \<Rightarrow> hash_iterator \<Rightarrow> ('k, 'v) hash_table option" where
  "hash_iterator_free h hi = map_option fst (hash_iterator_unlock h hi)"

text \<open>Delete, through the iterator, every element of which the value satisfies \<open>p\<close>.\<close>

partial_function (option) delete_loop ::
  "('v \<Rightarrow> bool) \<Rightarrow> ('k, 'v) hash_table \<Rightarrow> hash_iterator \<Rightarrow> (('k, 'v) hash_table \<times> hash_iterator) option" where
  "delete_loop p h hi = Option.bind (hash_iterator_next h hi) (\<lambda>(r, h, hi).
     case r of
       None \<Rightarrow> Some (h, hi)
     | Some he \<Rightarrow> Option.bind (if p (he_value he) then hash_iterator_delete_element h hi else Some (h, hi))
         (\<lambda>(h, hi). delete_loop p h hi))"

definition hash_remove_by_value :: "('k, 'v) hash_table \<Rightarrow> 'v \<Rightarrow> ('k, 'v) hash_table option" where
  "hash_remove_by_value h v = do {
     hi \<leftarrow> hash_iterator_init h;
     (h, hi) \<leftarrow> delete_loop (\<lambda>w. w = v) h hi;
     hash_iterator_free h hi }"

section \<open>The hash function\<close>

definition hash_mix :: "u32 \<Rightarrow> u32 \<Rightarrow> u32 \<Rightarrow> u32 \<times> u32 \<times> u32" where
  "hash_mix a b c =
     (let a = a - b; a = a - c; a = a XOR drop_bit 13 c;
          b = b - c; b = b - a; b = b XOR push_bit 8 a;
          c = c - a; c = c - b; c = c XOR drop_bit 13 b;
          a = a - b; a = a - c; a = a XOR drop_bit 12 c;
          b = b - c; b = b - a; b = b XOR push_bit 16 a;
          c = c - a; c = c - b; c = c XOR drop_bit 5 b;
          a = a - b; a = a - c; a = a XOR drop_bit 3 c;
          b = b - c; b = b - a; b = b XOR push_bit 10 a;
          c = c - a; c = c - b; c = c XOR drop_bit 15 b
      in (a, b, c))"

text \<open>The byte \<open>k[i]\<close> shifted left, where there is such a byte.\<close>

definition hash_byte :: "u8 list \<Rightarrow> nat \<Rightarrow> nat \<Rightarrow> u32" where
  "hash_byte k i s = (if i < length k then push_bit s (ucast (k ! i)) else 0)"

definition hash_word :: "u8 list \<Rightarrow> nat \<Rightarrow> u32" where
  "hash_word k i = hash_byte k i 0 + hash_byte k (i + 1) 8 + hash_byte k (i + 2) 16 + hash_byte k (i + 3) 24"

function hash_blocks :: "u8 list \<Rightarrow> u32 \<Rightarrow> u32 \<Rightarrow> u32 \<Rightarrow> u8 list \<times> u32 \<times> u32 \<times> u32" where
  "hash_blocks k a b c =
     (if length k \<ge> 12 then
        (case hash_mix (a + hash_word k 0) (b + hash_word k 4) (c + hash_word k 8) of
           (a, b, c) \<Rightarrow> hash_blocks (drop 12 k) a b c)
      else (k, a, b, c))"
  by pat_completeness auto
termination by (relation "measure (\<lambda>(k, a, b, c). length k)") auto

declare hash_blocks.simps [simp del]

text \<open>\<open>k\<close> holds the \<open>length\<close> bytes of the key.\<close>

definition hash_func :: "u8 list \<Rightarrow> u32 \<Rightarrow> u32" where
  "hash_func key initval =
     (case hash_blocks key 0x9e3779b9 0x9e3779b9 initval of (k, a, b, c) \<Rightarrow>
        (let c = c + word_of_nat (length key);
             c = c + hash_byte k 10 24 + hash_byte k 9 16 + hash_byte k 8 8;
             b = b + hash_byte k 7 24 + hash_byte k 6 16 + hash_byte k 5 8 + hash_byte k 4 0;
             a = a + hash_byte k 3 24 + hash_byte k 2 16 + hash_byte k 1 8 + hash_byte k 0 0
         in snd (snd (hash_mix a b c))))"

end
