(* ===== verification/HashRefine.thy ===== *)
theory HashRefine
  imports HashTable
begin

text \<open>
  A hash table as a finite map: the invariant of the chains, the map a table stands for, and the
  effect of every operation on it.
\<close>

section \<open>Chains\<close>

definition keys_apart :: "('k \<Rightarrow> 'k \<Rightarrow> bool) \<Rightarrow> ('k, 'v) hash_element list \<Rightarrow> bool" where
  "keys_apart cmp = sorted_wrt (\<lambda>x y. \<not> cmp (the (he_key x)) (the (he_key y)))"

definition chain_map :: "('k \<Rightarrow> 'k \<Rightarrow> bool) \<Rightarrow> ('k, 'v) hash_element list \<Rightarrow> 'k \<Rightarrow> 'v option" where
  "chain_map cmp chain k = map_option he_value (find (\<lambda>he. cmp k (the (he_key he))) chain)"

lemma chain_map_simps [simp]:
  "chain_map cmp [] k = None"
  "chain_map cmp (he # chain) k = (if cmp k (the (he_key he)) then Some (he_value he) else chain_map cmp chain k)"
  by (simp_all add: chain_map_def)

lemma chain_map_None: "chain_map cmp chain k = None \<longleftrightarrow> (\<forall>he \<in> set chain. \<not> cmp k (the (he_key he)))"
  by (auto simp: chain_map_def find_None_iff)

lemma chain_map_append:
  "chain_map cmp (xs @ ys) k = (case chain_map cmp xs k of None \<Rightarrow> chain_map cmp ys k | Some v \<Rightarrow> Some v)"
  by (induction xs) auto

lemma keys_apart_simps:
  "keys_apart cmp []"
  "keys_apart cmp (he # chain) \<longleftrightarrow> (\<forall>x \<in> set chain. \<not> cmp (the (he_key he)) (the (he_key x))) \<and> keys_apart cmp chain"
  "keys_apart cmp (xs @ ys) \<longleftrightarrow> keys_apart cmp xs \<and> keys_apart cmp ys \<and>
     (\<forall>x \<in> set xs. \<forall>y \<in> set ys. \<not> cmp (the (he_key x)) (the (he_key y)))"
  by (simp_all add: keys_apart_def sorted_wrt_append)

lemma same_class: "equivp cmp \<Longrightarrow> cmp a b \<Longrightarrow> cmp x a = cmp x b \<and> cmp a x = cmp b x"
  by (metis equivp_symp equivp_transp)

text \<open>Moving an element of a chain to the front, and removing it.\<close>

lemma chain_map_front:
  assumes "equivp cmp" "keys_apart cmp (prev @ he # next)"
  shows "chain_map cmp (he # prev @ next) = chain_map cmp (prev @ he # next)" "keys_apart cmp (he # prev @ next)"
proof -
  have apart: "\<not> cmp (the (he_key x)) (the (he_key he))" "\<not> cmp (the (he_key he)) (the (he_key x))" if "x \<in> set prev" for x
    using assms that by (auto simp: keys_apart_simps dest: equivp_symp)
  show "chain_map cmp (he # prev @ next) = chain_map cmp (prev @ he # next)"
  proof
    fix k
    have "chain_map cmp prev k = None" if "cmp k (the (he_key he))"
      using apart same_class [OF assms(1) that] by (auto simp: chain_map_None dest: equivp_symp [OF assms(1)])
    then show "chain_map cmp (he # prev @ next) k = chain_map cmp (prev @ he # next) k"
      by (simp add: chain_map_append split: option.splits)
  qed
  show "keys_apart cmp (he # prev @ next)" using assms(2) apart by (auto simp: keys_apart_simps)
qed

lemma chain_map_removed:
  assumes "equivp cmp" "keys_apart cmp (prev @ he # next)" "cmp key (the (he_key he))"
  shows "chain_map cmp (prev @ next) = (\<lambda>k. if cmp key k then None else chain_map cmp (prev @ he # next) k)"
    "keys_apart cmp (prev @ next)"
proof -
  have f: "chain_map cmp (he # prev @ next) = chain_map cmp (prev @ he # next)" "keys_apart cmp (he # prev @ next)"
    using chain_map_front [OF assms(1,2)] by simp_all
  show "chain_map cmp (prev @ next) = (\<lambda>k. if cmp key k then None else chain_map cmp (prev @ he # next) k)"
  proof
    fix k
    have eq: "cmp k (the (he_key he)) = cmp key k"
      using same_class [OF assms(1,3)] equivp_symp [OF assms(1)] by metis
    have "chain_map cmp (prev @ next) k = None" if "cmp key k"
      using f(2) same_class [OF assms(1), of k "the (he_key he)"] that eq by (auto simp: chain_map_None keys_apart_simps)
    then show "chain_map cmp (prev @ next) k = (if cmp key k then None else chain_map cmp (prev @ he # next) k)"
      unfolding f(1) [symmetric] by (simp add: eq)
  qed
  show "keys_apart cmp (prev @ next)" using f(2) by (simp add: keys_apart_simps)
qed

lemma chain_find_spec:
  assumes "\<forall>he \<in> set chain. he_key he \<noteq> None \<and> (cmp key (the (he_key he)) \<longrightarrow> he_hash_value he = hv)"
  shows "\<exists>r. chain_find cmp key hv chain = Some r \<and>
    (case r of None \<Rightarrow> chain_map cmp chain key = None
     | Some (prev, he, next) \<Rightarrow> chain = prev @ he # next \<and> cmp key (the (he_key he)) \<and>
         chain_map cmp chain key = Some (he_value he))"
  using assms
proof (induction chain)
  case (Cons he chain)
  then obtain r where r: "chain_find cmp key hv chain = Some r"
    "case r of None \<Rightarrow> chain_map cmp chain key = None
     | Some (prev, he, next) \<Rightarrow> chain = prev @ he # next \<and> cmp key (the (he_key he)) \<and> chain_map cmp chain key = Some (he_value he)"
    by auto
  have k: "he_key he \<noteq> None" "cmp key (the (he_key he)) \<Longrightarrow> he_hash_value he = hv" using Cons.prems by simp_all
  show ?case
  proof (cases "cmp key (the (he_key he))")
    case True
    then show ?thesis using k by auto
  next
    case False
    have "chain_find cmp key hv (he # chain) = Some (map_option (\<lambda>(prev, x, next). (he # prev, x, next)) r)"
      using False k r(1) by (auto split: if_splits)
    then show ?thesis using r(2) False by (auto split: option.splits)
  qed
qed simp

section \<open>The table\<close>

definition chain_ok :: "('k, 'v) hash_table \<Rightarrow> int \<Rightarrow> ('k, 'v) hash_element list \<Rightarrow> bool" where
  "chain_ok h b chain \<longleftrightarrow> keys_apart (ht_compare_function h) chain \<and>
     (\<forall>he \<in> set chain. \<exists>k. he_key he = Some k \<and> he_hash_value he = hash_value h k \<and> hash_bucket h (hash_value h k) = b)"

text \<open>
  \<open>cmp\<close> is the equality of keys that the comparison function decides, and equal keys have equal
  hash values.
\<close>

definition hash_ok :: "('k \<Rightarrow> 'k \<Rightarrow> bool) \<Rightarrow> ('k, 'v) hash_table \<Rightarrow> bool" where
  "hash_ok cmp h \<longleftrightarrow> ht_compare_function h = cmp \<and> equivp cmp \<and>
     (\<forall>k k'. cmp k k' \<longrightarrow> hash_value h k = hash_value h k') \<and>
     (\<exists>j \<le> 30. ht_n_buckets h = 2 ^ j \<and> ht_mask h = 2 ^ j - 1 \<and> length (ht_buckets h) = 2 ^ j) \<and>
     (\<forall>b < length (ht_buckets h). chain_ok h (int b) (ht_buckets h ! b)) \<and>
     ht_n_elements h = int (sum_list (map length (ht_buckets h)))"

definition hash_map :: "('k, 'v) hash_table \<Rightarrow> 'k \<Rightarrow> 'v option" where
  "hash_map h k = chain_map (ht_compare_function h) (ht_buckets h ! nat (hash_bucket h (hash_value h k))) k"

lemma hash_bucket_range:
  assumes "hash_ok cmp h"
  shows "0 \<le> hash_bucket h hv" "hash_bucket h hv < int (length (ht_buckets h))"
proof -
  obtain j where j: "j \<le> 30" "ht_mask h = 2 ^ j - 1" "length (ht_buckets h) = 2 ^ j"
    using assms by (auto simp: hash_ok_def)
  have "word_of_int (ht_mask h) = (mask j :: u32)" by (simp add: j(2) mask_eq_exp_minus_1)
  then have "hash_bucket h hv = uint (take_bit j hv)" by (simp add: hash_bucket_def take_bit_eq_mask)
  then have "hash_bucket h hv = take_bit j (uint hv)" by (simp only: unsigned_take_bit_eq)
  then have "hash_bucket h hv = uint hv mod 2 ^ j" by (simp only: take_bit_eq_mod)
  then show "0 \<le> hash_bucket h hv" "hash_bucket h hv < int (length (ht_buckets h))" by (simp_all add: j(3))
qed

lemma sum_list_update_len:
  fixes xs :: "'a list list"
  assumes "i < length xs"
  shows "int (sum_list (map length (xs[i := ys]))) = int (sum_list (map length xs)) - int (length (xs ! i)) + int (length ys)"
  using assms
proof (induction xs arbitrary: i)
  case (Cons x xs)
  then show ?case by (cases i) auto
qed simp

text \<open>One chain is replaced.\<close>

lemma hash_ok_update:
  assumes ok: "hash_ok cmp h" and b: "b < length (ht_buckets h)" and chain: "chain_ok h (int b) chain"
    and n: "n = ht_n_elements h - int (length (ht_buckets h ! b)) + int (length chain)"
  shows "hash_ok cmp (h\<lparr>ht_buckets := (ht_buckets h)[b := chain], ht_n_elements := n\<rparr>)"
proof -
  let ?h = "h\<lparr>ht_buckets := (ht_buckets h)[b := chain], ht_n_elements := n\<rparr>"
  have "chain_ok ?h = chain_ok h" by (intro ext) (simp add: chain_ok_def hash_value_def hash_bucket_def)
  moreover have "n = int (sum_list (map length ((ht_buckets h)[b := chain])))"
    using sum_list_update_len [OF b, of chain] ok n by (simp add: hash_ok_def)
  ultimately show ?thesis using ok b chain by (auto simp: hash_ok_def hash_value_def nth_list_update)
qed

lemma hash_map_update:
  assumes ok: "hash_ok cmp h" and b: "b < length (ht_buckets h)"
  shows "hash_map (h\<lparr>ht_buckets := (ht_buckets h)[b := chain], ht_n_elements := n\<rparr>) k =
    (if hash_bucket h (hash_value h k) = int b then chain_map cmp chain k else hash_map h k)"
proof -
  let ?h = "h\<lparr>ht_buckets := (ht_buckets h)[b := chain], ht_n_elements := n\<rparr>"
  have hv: "hash_bucket ?h (hash_value ?h k) = hash_bucket h (hash_value h k)" by (simp add: hash_bucket_def hash_value_def)
  have c: "ht_compare_function h = cmp" using ok by (simp add: hash_ok_def)
  show ?thesis
    using hash_bucket_range [OF ok, of "hash_value h k"] b unfolding hash_map_def hv
    by (auto simp: c nat_eq_iff2)
qed

lemma hash_map_same: "hash_ok cmp h \<Longrightarrow> cmp k k' \<Longrightarrow> hash_value h k = hash_value h k'"
  by (simp add: hash_ok_def)


section \<open>The operations\<close>

lemma hash_ok_cmp: "hash_ok cmp h \<Longrightarrow> ht_compare_function h = cmp"
  by (simp add: hash_ok_def)

lemma table_chain:
  fixes key
  assumes "hash_ok cmp h"
  defines "hv \<equiv> hash_value h key"
  defines "b \<equiv> hash_bucket h hv"
  shows "nth_opt (ht_buckets h) b = Some (ht_buckets h ! nat b)" "nat b < length (ht_buckets h)"
    "chain_ok h b (ht_buckets h ! nat b)" "0 \<le> b"
    "hash_map h key = chain_map cmp (ht_buckets h ! nat b) key"
    "\<exists>r. chain_find cmp key hv (ht_buckets h ! nat b) = Some r \<and>
      (case r of None \<Rightarrow> chain_map cmp (ht_buckets h ! nat b) key = None
       | Some (prev, he, next) \<Rightarrow> ht_buckets h ! nat b = prev @ he # next \<and> cmp key (the (he_key he)) \<and>
           chain_map cmp (ht_buckets h ! nat b) key = Some (he_value he))"
proof -
  have r: "0 \<le> b" "b < int (length (ht_buckets h))" using hash_bucket_range [OF assms(1)] by (simp_all add: b_def)
  then show "nth_opt (ht_buckets h) b = Some (ht_buckets h ! nat b)" and nb: "nat b < length (ht_buckets h)" by simp_all
  have "chain_ok h (int (nat b)) (ht_buckets h ! nat b)" using assms(1) nb unfolding hash_ok_def by blast
  then show c: "chain_ok h b (ht_buckets h ! nat b)" using r by simp
  have cmp: "ht_compare_function h = cmp" using assms(1) by (simp add: hash_ok_def)
  show "0 \<le> b" by (rule r)
  show "hash_map h key = chain_map cmp (ht_buckets h ! nat b) key" by (simp add: hash_map_def cmp b_def hv_def)
  have "\<forall>he \<in> set (ht_buckets h ! nat b). he_key he \<noteq> None \<and> (cmp key (the (he_key he)) \<longrightarrow> he_hash_value he = hv)"
    using c hash_map_same [OF assms(1), of key] unfolding chain_ok_def hv_def by fastforce
  then show "\<exists>r. chain_find cmp key hv (ht_buckets h ! nat b) = Some r \<and>
      (case r of None \<Rightarrow> chain_map cmp (ht_buckets h ! nat b) key = None
       | Some (prev, he, next) \<Rightarrow> ht_buckets h ! nat b = prev @ he # next \<and> cmp key (the (he_key he)) \<and>
           chain_map cmp (ht_buckets h ! nat b) key = Some (he_value he))"
    by (rule chain_find_spec)
qed

text \<open>A replaced chain that stands for an update of the map.\<close>

lemma hash_map_new_chain:
  assumes ok: "hash_ok cmp h" and chain: "chain_map cmp chain =
      (\<lambda>k. if cmp key k then x else chain_map cmp (ht_buckets h ! nat (hash_bucket h (hash_value h key))) k)"
  shows "hash_map (h\<lparr>ht_buckets := (ht_buckets h)[nat (hash_bucket h (hash_value h key)) := chain], ht_n_elements := n\<rparr>) =
    (\<lambda>k. if cmp key k then x else hash_map h k)"
proof
  fix k
  note t = table_chain [OF ok, of key] and hc = hash_ok_cmp [OF ok]
  have "int (nat (hash_bucket h (hash_value h key))) = hash_bucket h (hash_value h key)"
    using hash_bucket_range [OF ok] by simp
  with hash_map_update [OF ok t(2), where chain = chain and n = n and k = k]
  have up: "hash_map (h\<lparr>ht_buckets := (ht_buckets h)[nat (hash_bucket h (hash_value h key)) := chain], ht_n_elements := n\<rparr>) k =
    (if hash_bucket h (hash_value h k) = hash_bucket h (hash_value h key) then chain_map cmp chain k else hash_map h k)" by simp
  show "hash_map (h\<lparr>ht_buckets := (ht_buckets h)[nat (hash_bucket h (hash_value h key)) := chain], ht_n_elements := n\<rparr>) k =
    (if cmp key k then x else hash_map h k)"
  proof (cases "cmp key k")
    case True
    then have "hash_value h k = hash_value h key" using hash_map_same [OF ok True] by simp
    then show ?thesis unfolding up chain using True by simp
  next
    case False
    then show ?thesis unfolding up chain by (simp add: hash_map_def hc)
  qed
qed

lemma keep_n: "h\<lparr>ht_buckets := bs\<rparr> = h\<lparr>ht_buckets := bs, ht_n_elements := ht_n_elements h\<rparr>"
  by simp

lemma hash_lookup_fast_spec:
  fixes key
  assumes ok: "hash_ok cmp h"
  defines "b \<equiv> hash_bucket h (hash_value h key)"
  shows "\<exists>r h'. hash_lookup_fast h b key (hash_value h key) = Some (r, h') \<and> map_option he_value r = hash_map h key \<and>
    hash_ok cmp h' \<and> hash_map h' = hash_map h \<and> ht_n_elements h' = ht_n_elements h \<and>
    hash_value h' = hash_value h \<and> hash_bucket h' = hash_bucket h \<and>
    (r \<noteq> None \<longrightarrow> (\<exists>he rest. ht_buckets h' ! nat b = he # rest \<and> cmp key (the (he_key he))))"
proof -
  note t = table_chain [OF ok, of key, folded b_def] and hc = hash_ok_cmp [OF ok]
  have eq: "equivp cmp" using ok by (simp add: hash_ok_def)
  have ib: "int (nat b) = b" using hash_bucket_range [OF ok] by (simp add: b_def)
  obtain r where r: "chain_find cmp key (hash_value h key) (ht_buckets h ! nat b) = Some r"
    "case r of None \<Rightarrow> chain_map cmp (ht_buckets h ! nat b) key = None
       | Some (prev, he, next) \<Rightarrow> ht_buckets h ! nat b = prev @ he # next \<and> cmp key (the (he_key he)) \<and>
           chain_map cmp (ht_buckets h ! nat b) key = Some (he_value he)"
    using t(6) by blast
  show ?thesis
  proof (cases r)
    case None
    then show ?thesis using r t ok by (simp add: hash_lookup_fast_def hc)
  next
    case (Some x)
    obtain prev he "next" where x: "x = (prev, he, next)" by (cases x) auto
    have sp: "ht_buckets h ! nat b = prev @ he # next \<and> cmp key (the (he_key he)) \<and>
      chain_map cmp (ht_buckets h ! nat b) key = Some (he_value he)" by (rule r(2) [unfolded Some x option.case prod.case])
    note split = conjunct1 [OF sp] conjunct1 [OF conjunct2 [OF sp]] conjunct2 [OF conjunct2 [OF sp]]
    let ?c = "he # prev @ next"
    let ?h = "h\<lparr>ht_buckets := (ht_buckets h)[nat b := ?c]\<rparr>"
    have ka: "keys_apart cmp (prev @ he # next)" using t(3) hc split(1) by (simp add: chain_ok_def)
    note f = chain_map_front [OF eq ka]
    have co: "chain_ok h (int (nat b)) ?c"
      using t(3) hc f(2) unfolding ib by (auto simp: chain_ok_def split(1))
    have run: "hash_lookup_fast h b key (hash_value h key) = Some (Some he, ?h)"
      using t(1) r(1) by (simp add: hc hash_lookup_fast_def Some x)
    have "hash_ok cmp ?h" using hash_ok_update [OF ok t(2) co, of "ht_n_elements h"] by (simp add: split(1))
    moreover have "hash_map ?h = hash_map h"
    proof
      fix k
      show "hash_map ?h k = hash_map h k"
        using hash_map_update [OF ok t(2), where chain = ?c and n = "ht_n_elements h" and k = k] f(1) [folded split(1)]
        by (cases "hash_bucket h (hash_value h k) = b") (simp_all add: ib t(4), simp add: hash_map_def hc)
    qed
    moreover have "ht_buckets ?h ! nat b = he # prev @ next" using t(2) by simp
    ultimately show ?thesis using run split t(5) by (auto simp: hash_value_def hash_bucket_def)
  qed
qed

lemma hash_lookup_spec:
  assumes "hash_ok cmp h"
  shows "\<exists>h'. hash_lookup h key = Some (hash_map h key, h') \<and> hash_ok cmp h' \<and> hash_map h' = hash_map h \<and>
    ht_n_elements h' = ht_n_elements h"
  using hash_lookup_fast_spec [OF assms, of key] by (auto simp: hash_lookup_def Let_def)

lemma hash_remove_spec:
  assumes ok: "hash_ok cmp h"
  shows "\<exists>h'. hash_remove h key = Some (hash_map h key \<noteq> None, h') \<and> hash_ok cmp h' \<and>
    hash_map h' = (\<lambda>k. if cmp key k then None else hash_map h k) \<and>
    ht_n_elements h' = ht_n_elements h - (if hash_map h key = None then 0 else 1)"
proof -
  define b where "b = hash_bucket h (hash_value h key)"
  note t = table_chain [OF ok, of key, folded b_def] and hc = hash_ok_cmp [OF ok]
  have eq: "equivp cmp" using ok by (simp add: hash_ok_def)
  have ib: "int (nat b) = b" using hash_bucket_range [OF ok] by (simp add: b_def)
  obtain r where r: "chain_find cmp key (hash_value h key) (ht_buckets h ! nat b) = Some r"
    "case r of None \<Rightarrow> chain_map cmp (ht_buckets h ! nat b) key = None
       | Some (prev, he, next) \<Rightarrow> ht_buckets h ! nat b = prev @ he # next \<and> cmp key (the (he_key he)) \<and>
           chain_map cmp (ht_buckets h ! nat b) key = Some (he_value he)"
    using t(6) by blast
  show ?thesis
  proof (cases r)
    case None
    then have n: "hash_map h key = None" using r t(5) by simp
    have "hash_map h k = None" if "cmp key k" for k
    proof -
      have "hash_value h k = hash_value h key" using hash_map_same [OF ok that] by simp
      moreover have "chain_map cmp chain k = None" if "chain_map cmp chain key = None" for chain :: "('a, 'b) hash_element list"
        using that same_class [OF eq \<open>cmp key k\<close>] by (simp add: chain_map_None)
      ultimately show ?thesis using n t(5) by (simp add: hash_map_def hc b_def)
    qed
    then have "hash_map h = (\<lambda>k. if cmp key k then None else hash_map h k)" by auto
    moreover have "hash_remove h key = Some (False, h)"
      using None r(1) t(1) by (simp add: hc hash_remove_def hash_remove_fast_def Let_def b_def)
    ultimately show ?thesis using ok n by (intro exI [of _ h]) (simp only: simp_thms if_True diff_zero)
  next
    case (Some x)
    obtain prev he "next" where x: "x = (prev, he, next)" by (cases x) auto
    have sp: "ht_buckets h ! nat b = prev @ he # next \<and> cmp key (the (he_key he)) \<and>
      chain_map cmp (ht_buckets h ! nat b) key = Some (he_value he)" by (rule r(2) [unfolded Some x option.case prod.case])
    note split = conjunct1 [OF sp] conjunct1 [OF conjunct2 [OF sp]] conjunct2 [OF conjunct2 [OF sp]]
    let ?n = "ht_n_elements h - 1"
    let ?h = "h\<lparr>ht_buckets := (ht_buckets h)[nat b := prev @ next], ht_n_elements := ?n\<rparr>"
    have ka: "keys_apart cmp (prev @ he # next)" using t(3) hc split(1) by (simp add: chain_ok_def)
    note f = chain_map_removed [OF eq ka split(2)]
    have co: "chain_ok h (int (nat b)) (prev @ next)"
      using t(3) hc f(2) unfolding ib by (auto simp: chain_ok_def split(1))
    have "hash_ok cmp ?h" using hash_ok_update [OF ok t(2) co, of ?n] by (simp add: split(1))
    moreover have "hash_map ?h = (\<lambda>k. if cmp key k then None else hash_map h k)"
      by (rule hash_map_new_chain [OF ok, where key = key, folded b_def]) (rule f(1) [folded split(1)])
    moreover have "hash_remove h key = Some (True, ?h)"
      using t(1) r(1) by (simp add: hc hash_remove_def hash_remove_fast_def Let_def b_def [symmetric] Some x)
    ultimately show ?thesis using split(3) t(5) by simp
  qed
qed


lemma hash_add_spec:
  assumes ok: "hash_ok cmp h"
  shows "\<exists>h'. hash_add h key v replace = Some (replace \<or> hash_map h key = None, h') \<and> hash_ok cmp h' \<and>
    hash_map h' = (if replace \<or> hash_map h key = None then (\<lambda>k. if cmp key k then Some v else hash_map h k) else hash_map h) \<and>
    ht_n_elements h' = ht_n_elements h + (if hash_map h key = None then 1 else 0)"
proof -
  define b where "b = hash_bucket h (hash_value h key)"
  have eq: "equivp cmp" using ok by (simp add: hash_ok_def)
  obtain r h1 where l: "hash_lookup_fast h b key (hash_value h key) = Some (r, h1)" "map_option he_value r = hash_map h key"
    "hash_ok cmp h1" "hash_map h1 = hash_map h" "ht_n_elements h1 = ht_n_elements h" "hash_value h1 = hash_value h"
    "hash_bucket h1 = hash_bucket h"
    "r \<noteq> None \<longrightarrow> (\<exists>he rest. ht_buckets h1 ! nat b = he # rest \<and> cmp key (the (he_key he)))"
    using hash_lookup_fast_spec [OF ok, of key] unfolding b_def by blast
  note t = table_chain [OF l(3), of key, unfolded l(6,7), folded b_def] and hc = hash_ok_cmp [OF l(3)]
  have ib: "int (nat b) = b" using t(4) by simp
  have b1: "hash_bucket h1 (hash_value h1 key) = b" by (simp add: l(6,7) b_def)
  note new = hash_map_new_chain [OF l(3), of _ key "Some v", unfolded b1 l(4)]
  show ?thesis
  proof (cases r)
    case None
    then have none: "hash_map h key = None" using l(2) by simp
    let ?he = "\<lparr>he_value = v, he_key = Some key, he_hash_value = hash_value h key\<rparr>"
    let ?c = "?he # ht_buckets h1 ! nat b" and ?n = "ht_n_elements h1 + 1"
    let ?h = "h1\<lparr>ht_buckets := (ht_buckets h1)[nat b := ?c], ht_n_elements := ?n\<rparr>"
    have miss: "\<forall>he \<in> set (ht_buckets h1 ! nat b). \<not> cmp key (the (he_key he))"
      using none t(5) l(4) unfolding chain_map_None [symmetric] by simp
    have co: "chain_ok h1 (int (nat b)) ?c"
      using t(3,4) miss b1 by (simp add: chain_ok_def hc keys_apart_simps ib l(6))
    have "hash_ok cmp ?h" using hash_ok_update [OF l(3) t(2) co, of ?n] by simp
    moreover have "hash_map ?h = (\<lambda>k. if cmp key k then Some v else hash_map h k)"
    proof (rule new)
      show "chain_map cmp ?c = (\<lambda>k. if cmp key k then Some v else chain_map cmp (ht_buckets h1 ! nat b) k)"
        using equivp_symp [OF eq] by (intro ext) auto
    qed
    moreover have "hash_add h key v replace = Some (True, ?h)"
      using l(1) None t(1) by (simp add: hash_add_def hash_add_fast_def Let_def b_def [symmetric])
    ultimately show ?thesis using none l(5) by simp
  next
    case (Some he0)
    then have has: "hash_map h key = Some (he_value he0)" using l(2) by simp
    obtain he rest where c: "ht_buckets h1 ! nat b = he # rest" "cmp key (the (he_key he))" using Some l(8) by auto
    show ?thesis
    proof (cases replace)
      case False
      then have "hash_add h key v replace = Some (False, h1)"
        using l(1) Some by (simp add: hash_add_def Let_def b_def [symmetric])
      then show ?thesis using False has l by simp
    next
      case True
      let ?c = "he\<lparr>he_value := v\<rparr> # rest"
      let ?h = "h1\<lparr>ht_buckets := (ht_buckets h1)[nat b := ?c]\<rparr>"
      have run: "hash_add h key v replace = Some (True, ?h)"
        using l(1) Some True c(1) by (simp add: hash_add_def set_head_value_def Let_def b_def [symmetric])
      have co: "chain_ok h1 (int (nat b)) ?c"
        using t(3,4) by (simp add: chain_ok_def hc keys_apart_simps ib c(1))
      have ok': "hash_ok cmp ?h" using hash_ok_update [OF l(3) t(2) co, of "ht_n_elements h1"] by (simp add: c(1))
      have mp: "hash_map (h1\<lparr>ht_buckets := (ht_buckets h1)[nat b := ?c], ht_n_elements := ht_n_elements h1\<rparr>) =
        (\<lambda>k. if cmp key k then Some v else hash_map h k)"
      proof (rule new)
        have k: "cmp k (the (he_key he)) = cmp key k" for k
          using same_class [OF eq c(2)] equivp_symp [OF eq] by metis
        show "chain_map cmp ?c = (\<lambda>k. if cmp key k then Some v else chain_map cmp (ht_buckets h1 ! nat b) k)"
          unfolding c(1) by (intro ext) (simp add: k)
      qed
      then have "hash_map ?h = (\<lambda>k. if cmp key k then Some v else hash_map h k)" by simp
      then show ?thesis using True run has l(5) ok' by simp
    qed
  qed
qed

end
