(* ===== verification/HashIterate.thy ===== *)
theory HashIterate
  imports HashRefine
begin

text \<open>
  Deleting elements through an iterator: the loop visits every element once, and what is left is
  what does not satisfy the predicate.
\<close>

section \<open>The marked elements of a chain\<close>

definition mark :: "('v \<Rightarrow> bool) \<Rightarrow> ('k, 'v) hash_element \<Rightarrow> ('k, 'v) hash_element" where
  "mark p he = (if p (he_value he) then he\<lparr>he_key := None\<rparr> else he)"

lemma unmarked_eq:
  "unmarked chain = (filter (\<lambda>he. he_key he \<noteq> None) chain, int (length (filter (\<lambda>he. he_key he = None) chain)))"
  by (induction chain) auto

lemma unmarked_map_mark:
  assumes "\<forall>he \<in> set chain. he_key he \<noteq> None"
  shows "unmarked (map (mark p) chain) =
    (filter (\<lambda>he. \<not> p (he_value he)) chain, int (length (filter (\<lambda>he. p (he_value he)) chain)))"
  using assms by (induction chain) (auto simp: mark_def)

section \<open>The state of the loop\<close>

definition deleted :: "('v \<Rightarrow> bool) \<Rightarrow> ('k, 'v) hash_table \<Rightarrow> nat \<Rightarrow> ('k, 'v) hash_table" where
  "deleted p h b = h\<lparr>ht_buckets := map (filter (\<lambda>he. \<not> p (he_value he))) (take b (ht_buckets h)) @ drop b (ht_buckets h),
     ht_n_elements := ht_n_elements h -
       int (sum_list (map (\<lambda>c. length (filter (\<lambda>he. p (he_value he)) c)) (take b (ht_buckets h))))\<rparr>"

lemma deleted_nth:
  "b \<le> c \<Longrightarrow> c < length (ht_buckets h) \<Longrightarrow> ht_buckets (deleted p h b) ! c = ht_buckets h ! c"
  "length (ht_buckets (deleted p h b)) = length (ht_buckets h)"
  by (simp_all add: deleted_def nth_append)

lemma deleted_Suc:
  assumes "b < length (ht_buckets h)"
  shows "deleted p h (Suc b) = (deleted p h b)\<lparr>ht_buckets := (ht_buckets (deleted p h b))[b := filter (\<lambda>he. \<not> p (he_value he)) (ht_buckets h ! b)],
     ht_n_elements := ht_n_elements (deleted p h b) - int (length (filter (\<lambda>he. p (he_value he)) (ht_buckets h ! b)))\<rparr>"
  using assms by (simp add: deleted_def take_Suc_conv_app_nth list_update_append Cons_nth_drop_Suc [symmetric])

text \<open>Before bucket \<open>b\<close>.\<close>

definition before_bucket ::
  "('v \<Rightarrow> bool) \<Rightarrow> ('k, 'v) hash_table \<Rightarrow> nat \<Rightarrow> ('k, 'v) hash_table \<Rightarrow> hash_iterator \<Rightarrow> bool" where
  "before_bucket p h0 b h hi \<longleftrightarrow> hi_bucket_index hi = int b - 1 \<and> hi_elem hi = None \<and>
     hi_bucket_index_end hi = int (length (ht_buckets h0)) \<and> b \<le> length (ht_buckets h0) \<and>
     map_option fst (hash_iterator_unlock h hi) = Some (deleted p h0 b)"

text \<open>In bucket \<open>b\<close>, behind the element at position \<open>i - 1\<close>.\<close>

definition in_bucket ::
  "('v \<Rightarrow> bool) \<Rightarrow> ('k, 'v) hash_table \<Rightarrow> nat \<Rightarrow> nat \<Rightarrow> ('k, 'v) hash_table \<Rightarrow> hash_iterator \<Rightarrow> bool" where
  "in_bucket p h0 b i h hi \<longleftrightarrow> b < length (ht_buckets h0) \<and> i \<le> length (ht_buckets h0 ! b) \<and>
     hi_bucket_index hi = int b \<and> hi_bucket_index_end hi = int (length (ht_buckets h0)) \<and> hi_bucket hi = Some (int b) \<and>
     hi_elem hi = (if i < length (ht_buckets h0 ! b) then Some i else None) \<and>
     (hi_bucket_marked hi \<longleftrightarrow> (\<exists>he \<in> set (take i (ht_buckets h0 ! b)). p (he_value he))) \<and>
     h = (deleted p h0 b)\<lparr>ht_buckets := (ht_buckets (deleted p h0 b))[b :=
       map (mark p) (take i (ht_buckets h0 ! b)) @ drop i (ht_buckets h0 ! b)]\<rparr>"

definition keys_set :: "('k, 'v) hash_table \<Rightarrow> bool" where
  "keys_set h \<longleftrightarrow> (\<forall>chain \<in> set (ht_buckets h). \<forall>he \<in> set chain. he_key he \<noteq> None)"

text \<open>The bucket is finished.\<close>

lemma in_bucket_end:
  assumes "in_bucket p h0 b (length (ht_buckets h0 ! b)) h hi" "keys_set h0"
  shows "before_bucket p h0 (Suc b) h hi"
proof -
  let ?chain = "ht_buckets h0 ! b"
  have a: "b < length (ht_buckets h0)" "hi_bucket_index hi = int b" "hi_bucket_index_end hi = int (length (ht_buckets h0))"
    "hi_bucket hi = Some (int b)" "hi_elem hi = None"
    "hi_bucket_marked hi \<longleftrightarrow> (\<exists>he \<in> set ?chain. p (he_value he))"
    "h = (deleted p h0 b)\<lparr>ht_buckets := (ht_buckets (deleted p h0 b))[b := map (mark p) ?chain]\<rparr>"
    using assms(1) by (simp_all add: in_bucket_def)
  have keys: "\<forall>he \<in> set ?chain. he_key he \<noteq> None" using assms(2) nth_mem [OF a(1)] unfolding keys_set_def by blast
  have "map_option fst (hash_iterator_unlock h hi) = Some (deleted p h0 (Suc b))"
  proof (cases "hi_bucket_marked hi")
    case True
    then show ?thesis using a(1,4)
      by (simp add: hash_iterator_unlock_def hash_remove_marked_def a(7) deleted_nth unmarked_map_mark [OF keys] deleted_Suc)
  next
    case False
    then have n: "\<forall>he \<in> set ?chain. \<not> p (he_value he)" using a(6) by blast
    then have "map (mark p) ?chain = ?chain" "filter (\<lambda>he. \<not> p (he_value he)) ?chain = ?chain"
      "filter (\<lambda>he. p (he_value he)) ?chain = []"
      by (auto simp: mark_def filter_empty_conv intro: map_idI)
    then show ?thesis using False a(1,4) by (simp add: hash_iterator_unlock_def a(7) deleted_Suc)
  qed
  then show ?thesis using a(1-5) by (simp add: before_bucket_def)
qed

text \<open>One element of the bucket.\<close>

lemma mark_step:
  assumes "i < length (ht_buckets h0 ! b)" "in_bucket p h0 b i h hi"
  defines "he \<equiv> ht_buckets h0 ! b ! i" and "hi' \<equiv> hash_iterator_advance (length (ht_buckets h0 ! b)) hi"
  shows "hash_iterator_next h hi = Some (Some he, h, hi')"
    "\<exists>h2 hi2. (if p (he_value he) then hash_iterator_delete_element h hi' else Some (h, hi')) = Some (h2, hi2) \<and>
      in_bucket p h0 b (Suc i) h2 hi2"
proof -
  let ?chain = "ht_buckets h0 ! b"
  have a: "b < length (ht_buckets h0)" "hi_bucket_index hi = int b" "hi_bucket_index_end hi = int (length (ht_buckets h0))"
    "hi_bucket hi = Some (int b)" "hi_elem hi = Some i"
    "hi_bucket_marked hi \<longleftrightarrow> (\<exists>he \<in> set (take i ?chain). p (he_value he))"
    "h = (deleted p h0 b)\<lparr>ht_buckets := (ht_buckets (deleted p h0 b))[b := map (mark p) (take i ?chain) @ drop i ?chain]\<rparr>"
    using assms(1,2) by (simp_all add: in_bucket_def)
  have at: "ht_buckets h ! b = map (mark p) (take i ?chain) @ drop i ?chain" "b < length (ht_buckets h)"
    using a(1) by (simp_all add: a(7) deleted_nth)
  have el: "(map (mark p) (take i ?chain) @ drop i ?chain) ! i = he" using assms(1) by (simp add: nth_append he_def)
  have len: "length (map (mark p) (take i ?chain) @ drop i ?chain) = length ?chain" using assms(1) by simp
  show "hash_iterator_next h hi = Some (Some he, h, hi')"
    using at assms(1) el len by (simp add: hash_iterator_next_def a(4,5) hi'_def)
  have hi': "hi' = hi\<lparr>hi_last := Some i, hi_elem := if Suc i < length ?chain then Some (Suc i) else None\<rparr>"
    by (simp add: hi'_def hash_iterator_advance_def a(5))
  have snoc: "take (Suc i) ?chain = take i ?chain @ [he]" using assms(1) by (simp add: take_Suc_conv_app_nth he_def)
  show "\<exists>h2 hi2. (if p (he_value he) then hash_iterator_delete_element h hi' else Some (h, hi')) = Some (h2, hi2) \<and>
      in_bucket p h0 b (Suc i) h2 hi2"
  proof (cases "p (he_value he)")
    case True
    have upd: "(map (mark p) (take i ?chain) @ drop i ?chain)[i := he\<lparr>he_key := None\<rparr>] =
        map (mark p) (take (Suc i) ?chain) @ drop (Suc i) ?chain"
      using assms(1) True by (simp add: snoc list_update_append Cons_nth_drop_Suc [symmetric] mark_def)
    have "hash_iterator_delete_element h hi' =
      Some (h\<lparr>ht_buckets := (ht_buckets h)[b := map (mark p) (take (Suc i) ?chain) @ drop (Suc i) ?chain]\<rparr>,
        hi'\<lparr>hi_bucket_marked := True\<rparr>)"
      using at assms(1) el len upd by (simp add: hash_iterator_delete_element_def hi' a(4))
    then show ?thesis using True a(1-4) assms(1) by (auto simp: in_bucket_def a(7) hi' snoc)
  next
    case False
    have "map (mark p) (take i ?chain) @ drop i ?chain = map (mark p) (take (Suc i) ?chain) @ drop (Suc i) ?chain"
      using assms(1) False by (simp add: snoc Cons_nth_drop_Suc [symmetric] mark_def he_def)
    then have "in_bucket p h0 b (Suc i) h hi'" using a(1-4,6) assms(1) False by (auto simp: in_bucket_def a(7) hi' snoc)
    then show ?thesis using False by simp
  qed
qed


lemma delete_loop_next:
  assumes "hash_iterator_next h hi = hash_iterator_next h' hi'"
  shows "delete_loop p h hi = delete_loop p h' hi'"
  by (subst (1 2) delete_loop.simps) (simp only: assms)

lemma rest_of_bucket:
  assumes "in_bucket p h0 b i h hi"
  shows "\<exists>h2 hi2. delete_loop p h hi = delete_loop p h2 hi2 \<and> in_bucket p h0 b (length (ht_buckets h0 ! b)) h2 hi2"
  using assms
proof (induction "length (ht_buckets h0 ! b) - i" arbitrary: i h hi)
  case 0
  then have "i = length (ht_buckets h0 ! b)" by (simp add: in_bucket_def)
  then show ?case using "0.prems" by blast
next
  case (Suc n)
  then have i: "i < length (ht_buckets h0 ! b)" by simp
  obtain h2 hi2 where st: "(if p (he_value (ht_buckets h0 ! b ! i)) then hash_iterator_delete_element h
      (hash_iterator_advance (length (ht_buckets h0 ! b)) hi) else Some (h, hash_iterator_advance (length (ht_buckets h0 ! b)) hi)) =
      Some (h2, hi2)" "in_bucket p h0 b (Suc i) h2 hi2"
    using mark_step(2) [OF i Suc.prems] by blast
  have "delete_loop p h hi = delete_loop p h2 hi2"
    by (subst delete_loop.simps) (simp add: mark_step(1) [OF i Suc.prems] st(1))
  moreover have "n = length (ht_buckets h0 ! b) - Suc i" using Suc.hyps(2) by simp
  note Suc.hyps(1) [OF this st(2)]
  ultimately show ?case by simp
qed

text \<open>The search for the next bucket.\<close>

lemma next_bucket_search:
  assumes "before_bucket p h0 b h hi"
  shows "(\<exists>h' hi'. next_bucket h hi = Some (None, h', hi') \<and>
      hash_iterator_free h' hi' = Some (deleted p h0 (length (ht_buckets h0)))) \<or>
    (\<exists>c h1 hi1. b \<le> c \<and> c < length (ht_buckets h0) \<and> in_bucket p h0 c 0 h1 hi1 \<and>
      next_bucket h hi = hash_iterator_next h1 hi1)"
  using assms
proof (induction "length (ht_buckets h0) - b" arbitrary: b h hi)
  case 0
  then have b: "b = length (ht_buckets h0)" by (simp add: before_bucket_def)
  have "next_bucket h hi = Some (None, h, hi\<lparr>hi_bucket_index := int b\<rparr>)"
    using "0.prems" b by (subst next_bucket.simps) (simp add: before_bucket_def)
  moreover have "hash_iterator_free h (hi\<lparr>hi_bucket_index := int b\<rparr>) = Some (deleted p h0 (length (ht_buckets h0)))"
    using "0.prems" b by (auto simp: before_bucket_def hash_iterator_free_def hash_iterator_unlock_def bind_eq_Some_conv split: option.splits)
  ultimately show ?case by blast
next
  case (Suc n)
  let ?hi = "hi\<lparr>hi_bucket_index := int b\<rparr>"
  have pre: "hi_bucket_index hi = int b - 1" "hi_elem hi = None" "hi_bucket_index_end hi = int (length (ht_buckets h0))"
    "map_option fst (hash_iterator_unlock h hi) = Some (deleted p h0 b)" "b < length (ht_buckets h0)"
    using Suc.prems Suc.hyps(2) by (simp_all add: before_bucket_def)
  obtain hi1 where un: "hash_iterator_unlock h ?hi = Some (deleted p h0 b, hi1)"
    "hi_bucket hi1 = None" "hi_bucket_index hi1 = int b" "hi_bucket_index_end hi1 = int (length (ht_buckets h0))" "hi_elem hi1 = None"
    using pre(2,3,4) by (auto simp: hash_iterator_unlock_def bind_eq_Some_conv split: option.splits)
  have nth: "nth_opt (ht_buckets (deleted p h0 b)) (int b) = Some (ht_buckets h0 ! b)"
    using pre(5) by (simp add: deleted_nth)
  show ?case
  proof (cases "ht_buckets h0 ! b")
    case Nil
    have run: "next_bucket h hi = next_bucket (deleted p h0 b) hi1"
      using pre un nth Nil by (subst next_bucket.simps) simp
    have "deleted p h0 (Suc b) = deleted p h0 b"
      using deleted_Suc [OF pre(5), of p] deleted_nth(1) [of b b h0 p] pre(5) Nil by (simp add: list_update_same_conv deleted_nth(2))
    then have "before_bucket p h0 (Suc b) (deleted p h0 b) hi1"
      using un pre(5) by (simp add: before_bucket_def hash_iterator_unlock_def)
    from Suc.hyps(1) [OF _ this] Suc.hyps(2) show ?thesis unfolding run using Suc_leD by (metis diff_Suc_1 Suc_diff_Suc pre(5))
  next
    case (Cons he rest)
    let ?hi1 = "(hash_iterator_lock hi1 (int b))\<lparr>hi_elem := Some 0\<rparr>"
    have in0: "in_bucket p h0 b 0 (deleted p h0 b) ?hi1"
    proof -
      have "(ht_buckets (deleted p h0 b))[b := he # rest] = ht_buckets (deleted p h0 b)"
        using deleted_nth(1) [of b b h0 p] pre(5) Cons by (metis list_update_id order_refl)
      then show ?thesis using pre(5) un Cons by (simp add: in_bucket_def hash_iterator_lock_def)
    qed
    have "next_bucket h hi = Some (Some he, deleted p h0 b, hash_iterator_advance (Suc (length rest)) ?hi1)"
      using pre un nth Cons by (subst next_bucket.simps) simp
    also have "\<dots> = hash_iterator_next (deleted p h0 b) ?hi1"
      using nth Cons by (simp add: hash_iterator_next_def hash_iterator_lock_def)
    finally show ?thesis using in0 pre(5) by blast
  qed
qed

lemma delete_loop_deleted:
  assumes "before_bucket p h0 b h hi" "keys_set h0"
  shows "\<exists>h' hi'. delete_loop p h hi = Some (h', hi') \<and>
    hash_iterator_free h' hi' = Some (deleted p h0 (length (ht_buckets h0)))"
  using assms
proof (induction "length (ht_buckets h0) - b" arbitrary: b h hi rule: less_induct)
  case less
  have it: "hash_iterator_next h hi = next_bucket h hi" using less.prems(1) by (simp add: before_bucket_def hash_iterator_next_def)
  from next_bucket_search [OF less.prems(1)] show ?case
  proof (elim disjE exE conjE)
    fix h' hi' assume "next_bucket h hi = Some (None, h', hi')"
      "hash_iterator_free h' hi' = Some (deleted p h0 (length (ht_buckets h0)))"
    then show ?case using it by (subst delete_loop.simps) simp
  next
    fix c h1 hi1 assume c: "b \<le> c" "c < length (ht_buckets h0)" "in_bucket p h0 c 0 h1 hi1"
      "next_bucket h hi = hash_iterator_next h1 hi1"
    obtain h2 hi2 where st: "delete_loop p h1 hi1 = delete_loop p h2 hi2" "in_bucket p h0 c (length (ht_buckets h0 ! c)) h2 hi2"
      using rest_of_bucket [OF c(3)] by blast
    have run: "delete_loop p h hi = delete_loop p h2 hi2"
      using delete_loop_next [of h hi h1 hi1 p] it c(4) st(1) by simp
    have "length (ht_buckets h0) - Suc c < length (ht_buckets h0) - b" using c(1,2) by linarith
    from less.hyps [OF this in_bucket_end [OF st(2) less.prems(2)] less.prems(2)] show ?case unfolding run .
  qed
qed

section \<open>hash_remove_by_value\<close>

lemma hash_remove_by_value_deleted:
  assumes "hash_ok cmp h"
  shows "hash_remove_by_value h v = Some (deleted (\<lambda>w. w = v) h (length (ht_buckets h)))"
proof -
  have "keys_set h"
    unfolding keys_set_def
  proof (intro ballI)
    fix chain he assume "chain \<in> set (ht_buckets h)" "he \<in> set chain"
    then obtain b where "b < length (ht_buckets h)" "he \<in> set (ht_buckets h ! b)" by (auto simp: in_set_conv_nth)
    then show "he_key he \<noteq> None" using assms by (fastforce simp: hash_ok_def chain_ok_def)
  qed
  have n: "ht_n_buckets h = int (length (ht_buckets h))" using assms by (auto simp: hash_ok_def)
  let ?hi = "\<lparr>hi_bucket_index = - 1, hi_bucket = None, hi_elem = None, hi_last = None,
     hi_bucket_marked = False, hi_bucket_index_start = 0, hi_bucket_index_end = ht_n_buckets h\<rparr>"
  have init: "hash_iterator_init h = Some ?hi"
    using n by (simp add: hash_iterator_init_def hash_iterator_init_range_def)
  have "deleted p h 0 = h" for p by (simp add: deleted_def)
  then have "before_bucket (\<lambda>w. w = v) h 0 h ?hi" using n by (simp add: before_bucket_def hash_iterator_unlock_def)
  from delete_loop_deleted [OF this \<open>keys_set h\<close>] show ?thesis
    unfolding hash_remove_by_value_def init by auto
qed

end
