(* ===== verification/HashProps.thy ===== *)
theory HashProps
  imports HashIterate Refinement
begin

text \<open>
  Hash tables refine finite maps from classes of keys to values, over every sequence of
  operations.
\<close>

section \<open>Deleting by value\<close>

lemma chain_map_filter:
  assumes "equivp cmp" "keys_apart cmp chain"
  shows "chain_map cmp (filter (\<lambda>he. \<not> p (he_value he)) chain) k =
    (case chain_map cmp chain k of None \<Rightarrow> None | Some v \<Rightarrow> if p v then None else Some v)"
  using assms(2)
proof (induction chain)
  case (Cons he chain)
  have "chain_map cmp chain k = None" if "cmp k (the (he_key he))"
    using Cons.prems that same_class [OF assms(1) that] equivp_symp [OF assms(1)]
    by (auto simp: chain_map_None keys_apart_simps)
  then show ?case using Cons by (auto simp: keys_apart_simps split: option.splits)
qed simp

lemma keys_apart_filter: "keys_apart cmp chain \<Longrightarrow> keys_apart cmp (filter q chain)"
  by (simp add: keys_apart_def sorted_wrt_filter)

lemma sum_filter_lengths:
  "int (sum_list (map (\<lambda>c. length (filter p c)) xss)) =
   int (sum_list (map length xss)) - int (sum_list (map (\<lambda>c. length (filter (\<lambda>x. \<not> p x) c)) xss))"
proof (induction xss)
  case (Cons xs xss)
  then show ?case using sum_length_filter_compl [of p xs] by simp
qed simp

lemma deleted_spec:
  fixes p
  assumes ok: "hash_ok cmp h"
  defines "h' \<equiv> deleted p h (length (ht_buckets h))"
  shows "hash_ok cmp h'" "hash_map h' = (\<lambda>k. case hash_map h k of None \<Rightarrow> None | Some v \<Rightarrow> if p v then None else Some v)"
proof -
  have h': "h' = h\<lparr>ht_buckets := map (filter (\<lambda>he. \<not> p (he_value he))) (ht_buckets h), ht_n_elements := ht_n_elements h -
      int (sum_list (map (\<lambda>c. length (filter (\<lambda>he. p (he_value he)) c)) (ht_buckets h)))\<rparr>"
    by (simp add: h'_def deleted_def)
  have eq: "equivp cmp" "ht_compare_function h = cmp" using ok by (simp_all add: hash_ok_def)
  have same: "chain_ok h' = chain_ok h" "hash_value h' = hash_value h" "hash_bucket h' = hash_bucket h"
    by (intro ext; simp add: h' chain_ok_def hash_value_def hash_bucket_def)+
  have "chain_ok h b (filter q chain)" if "chain_ok h b chain" for b q chain
    using that by (auto simp: chain_ok_def keys_apart_filter)
  moreover have "ht_n_elements h' = int (sum_list (map length (ht_buckets h')))"
    using ok sum_filter_lengths [of "\<lambda>he. \<not> p (he_value he)" "ht_buckets h"]
    by (simp add: h' hash_ok_def comp_def)
  ultimately show "hash_ok cmp h'" using ok unfolding hash_ok_def same by (auto simp: h')
  show "hash_map h' = (\<lambda>k. case hash_map h k of None \<Rightarrow> None | Some v \<Rightarrow> if p v then None else Some v)"
  proof
    fix k
    let ?b = "nat (hash_bucket h (hash_value h k))"
    note t = table_chain [OF ok, of k]
    have "keys_apart cmp (ht_buckets h ! ?b)" using t(3) eq(2) by (simp add: chain_ok_def)
    moreover have "hash_map h' k = chain_map cmp (filter (\<lambda>he. \<not> p (he_value he)) (ht_buckets h ! ?b)) k"
      using t(2) by (simp add: hash_map_def same) (simp add: h' eq(2))
    ultimately show "hash_map h' k = (case hash_map h k of None \<Rightarrow> None | Some v \<Rightarrow> if p v then None else Some v)"
      using chain_map_filter [OF eq(1)] by (simp add: hash_map_def eq(2))
  qed
qed

section \<open>A new table\<close>

lemma hash_init_ok:
  assumes "0 < n" "n \<le> 2 ^ 30" "equivp cmp" "\<And>k k'. cmp k k' \<Longrightarrow> f k iv = f k' iv"
  shows "\<exists>h :: ('k, 'v) hash_table. hash_init n iv f cmp = Some h \<and> hash_ok cmp h \<and> hash_map h = (\<lambda>k. None)"
proof -
  have "nat n \<le> 2 ^ 30" using assms(2) by (simp add: nat_le_iff)
  then have le: "nat n \<le> 2 ^ 63" by (rule order_trans) simp
  obtain j where j: "adjust_power_of_2 (nat n) = Some (2 ^ j)" "\<forall>i<j. 2 ^ i < nat n"
    using adjust_power_of_2_Some [OF le] by blast
  have j30: "j \<le> 30"
  proof (rule ccontr)
    assume "\<not> j \<le> 30"
    then have "(2::nat) ^ 30 < nat n" using j(2) by (meson not_le)
    then show False using \<open>nat n \<le> 2 ^ 30\<close> by linarith
  qed
  then have "(2::nat) ^ j < 2 ^ 31" by (intro power_strict_increasing) simp_all
  then have p: "(int (2 ^ j) < 2 ^ 31) = True" by (metis of_nat_less_iff of_nat_numeral of_nat_power)
  define h0 :: "('k, 'v) hash_table" where "h0 = \<lparr>ht_n_buckets = 2 ^ j, ht_n_elements = 0, ht_mask = 2 ^ j - 1, ht_iv = iv,
       ht_hash_function = f, ht_compare_function = cmp, ht_buckets = replicate (2 ^ j) []\<rparr>"
  have init: "hash_init n iv f cmp = Some h0"
    unfolding hash_init_def j(1) Option.bind.bind_lunit p using assms(1) by (simp add: h0_def)
  have "sum_list (map length (replicate m [])) = 0" for m by (induction m) simp_all
  then have ok: "hash_ok cmp h0"
    using assms(3,4) j30 unfolding hash_ok_def by (auto simp: h0_def hash_value_def chain_ok_def keys_apart_simps intro!: exI [of _ j])
  have "hash_map h0 = (\<lambda>k. None)"
  proof
    fix k
    have "ht_buckets h0 ! nat (hash_bucket h0 (hash_value h0 k)) \<in> set (ht_buckets h0)"
      by (rule nth_mem [OF table_chain(2) [OF ok]])
    then have "ht_buckets h0 ! nat (hash_bucket h0 (hash_value h0 k)) = []" by (simp add: h0_def)
    then show "hash_map h0 k = None" unfolding hash_map_def by (simp only: chain_map_simps)
  qed
  then show ?thesis using init ok by blast
qed

section \<open>The refinement\<close>

datatype ('k, 'v) hash_op = HAdd 'k 'v bool | HRemove 'k | HLookup 'k | HRemoveValue 'v

datatype 'v hash_result = HBool bool | HValue "'v option" | HUnit

fun hash_step ::
  "('k, 'v) hash_table \<Rightarrow> ('k, 'v) hash_op \<Rightarrow> ('v hash_result \<times> ('k, 'v) hash_table) option" where
  "hash_step h (HAdd k v replace) = map_option (apfst HBool) (hash_add h k v replace)"
| "hash_step h (HRemove k) = map_option (apfst HBool) (hash_remove h k)"
| "hash_step h (HLookup k) = map_option (apfst HValue) (hash_lookup h k)"
| "hash_step h (HRemoveValue v) = map_option (Pair HUnit) (hash_remove_by_value h v)"

text \<open>The same operations on a map.\<close>

fun map_step ::
  "('k \<Rightarrow> 'k \<Rightarrow> bool) \<Rightarrow> ('k \<Rightarrow> 'v option) \<Rightarrow> ('k, 'v) hash_op \<Rightarrow> 'v hash_result \<times> ('k \<Rightarrow> 'v option)" where
  "map_step eq m (HAdd k v replace) = (if replace \<or> m k = None
     then (HBool True, \<lambda>k'. if eq k k' then Some v else m k') else (HBool False, m))"
| "map_step eq m (HRemove k) = (HBool (m k \<noteq> None), \<lambda>k'. if eq k k' then None else m k')"
| "map_step eq m (HLookup k) = (HValue (m k), m)"
| "map_step eq m (HRemoveValue v) = (HUnit, \<lambda>k. if m k = Some v then None else m k)"

interpretation ht: data_refinement "hash_ok cmp" hash_map "\<lambda>_ _. True" hash_step "map_step cmp" for cmp
proof unfold_locales
  fix h :: "('a, 'b) hash_table" and x
  assume ok: "hash_ok cmp h"
  show "\<exists>s'. hash_step h x = Some (fst (map_step cmp (hash_map h) x), s') \<and> hash_ok cmp s' \<and>
    hash_map s' = snd (map_step cmp (hash_map h) x)"
  proof (cases x)
    case (HAdd k v replace)
    obtain h' where "hash_add h k v replace = Some (replace \<or> hash_map h k = None, h')" "hash_ok cmp h'"
      "hash_map h' = (if replace \<or> hash_map h k = None then (\<lambda>k'. if cmp k k' then Some v else hash_map h k') else hash_map h)"
      using hash_add_spec [OF ok, of k v replace] by blast
    then show ?thesis using HAdd by (intro exI [of _ h']) simp
  next
    case (HRemove k)
    then show ?thesis using hash_remove_spec [OF ok, of k] by auto
  next
    case (HLookup k)
    then show ?thesis using hash_lookup_spec [OF ok, of k] by auto
  next
    case (HRemoveValue v)
    have "(\<lambda>k. case hash_map h k of None \<Rightarrow> None | Some w \<Rightarrow> if w = v then None else Some w) =
      (\<lambda>k. if hash_map h k = Some v then None else hash_map h k)"
      by (intro ext) (simp split: option.splits)
    then show ?thesis
      using hash_remove_by_value_deleted [OF ok, of v] deleted_spec [OF ok, of "\<lambda>w. w = v"] HRemoveValue by auto
  qed
qed

text \<open>
  C17: Hash tables refine finite maps. Where the comparison function decides an equivalence of
  keys that the hash function respects, a new table of at most \<open>2 ^ 30\<close> buckets answers every
  sequence of additions, removals, lookups and removals by value as the map does that starts
  empty, whatever keys share a bucket; it never aborts, the chains stay sound, and the element
  count is the number of stored elements.
\<close>
theorem hash_table_refines_map:
  assumes "0 < n" "n \<le> 2 ^ 30" "equivp cmp" "\<And>k k'. cmp k k' \<Longrightarrow> f k iv = f k' iv"
  shows "\<exists>h h'. hash_init n iv f cmp = Some h \<and>
    run_steps hash_step h xs = Some (fst (run_spec (map_step cmp) (\<lambda>k. None) xs), h') \<and>
    hash_map h' = snd (run_spec (map_step cmp) (\<lambda>k. None) xs) \<and>
    hash_n_elements h' = int (sum_list (map length (ht_buckets h')))"
proof -
  obtain h :: "('a, 'b) hash_table" where h: "hash_init n iv f cmp = Some h" "hash_ok cmp h" "hash_map h = (\<lambda>k. None)"
    using hash_init_ok [OF assms(1-3), of f iv] assms(4) by blast
  have "run_pre (map_step cmp) (\<lambda>_ _. True) m xs" for m by (induction xs arbitrary: m) auto
  with ht.run_refines [OF h(2)] h(3) obtain h' where
    "run_steps hash_step h xs = Some (fst (run_spec (map_step cmp) (\<lambda>k. None) xs), h')" "hash_ok cmp h'"
    "hash_map h' = snd (run_spec (map_step cmp) (\<lambda>k. None) xs)" by auto
  then show ?thesis using h(1) by (auto simp: hash_n_elements_def hash_ok_def)
qed

text \<open>Three addresses in a table of two buckets, with the hash function of the program.\<close>

definition addr_hash :: "u32 \<Rightarrow> u32 \<Rightarrow> u32" where
  "addr_hash a iv = hash_func (be32 a) iv"

lemma hash_table_refines_map_witness:
  "\<exists>h h'. hash_init 2 7 addr_hash (=) = Some h \<and>
    run_steps hash_step h [HAdd 1 (10 :: nat) False, HAdd 2 20 False, HAdd 3 10 True, HAdd 1 11 False, HRemoveValue 10, HLookup 1, HRemove 2] =
      Some ([HBool True, HBool True, HBool True, HBool False, HUnit, HValue None, HBool True], h')"
  using hash_table_refines_map [of 2 "(=)" addr_hash 7
    "[HAdd 1 (10 :: nat) False, HAdd 2 20 False, HAdd 3 10 True, HAdd 1 11 False, HRemoveValue 10, HLookup 1, HRemove 2]"]
  by (auto intro: identity_equivp)

end
