(* ===== verification/IpProto.thy ===== *)
theory IpProto
  imports Buffers
begin

text \<open>
  proto.c and proto.h: the headers of Ethernet, IP and TCP as bytes of a packet, recognising IP
  packets, and the Internet checksum. A field of a packed struct is read at its byte offset; reading
  behind the content is \<open>None\<close>. 16 bit fields are held in memory in network order;
  \<open>raw16\<close> is such a field as the little-endian program sees it.
\<close>

section \<open>Fields\<close>

definition byte_at :: "u8 list \<Rightarrow> int \<Rightarrow> int option" where
  "byte_at bs i = map_option uint (nth_opt bs i)"

text \<open>\<open>ntohs\<close> of the field, and the field itself.\<close>

definition net16_at :: "u8 list \<Rightarrow> int \<Rightarrow> int option" where
  "net16_at bs i = do { a \<leftarrow> byte_at bs i; b \<leftarrow> byte_at bs (i + 1); Some (a * 256 + b) }"

definition raw16_at :: "u8 list \<Rightarrow> int \<Rightarrow> int option" where
  "raw16_at bs i = do { a \<leftarrow> byte_at bs i; b \<leftarrow> byte_at bs (i + 1); Some (a + b * 256) }"

definition poke :: "u8 list \<Rightarrow> int \<Rightarrow> u8 list \<Rightarrow> u8 list option" where
  "poke bs i new = (if 0 \<le> i \<and> i + int (length new) \<le> int (length bs) then Some (overlay bs (nat i) new) else None)"

text \<open>\<open>htons\<close>\<close>

definition swap16 :: "int \<Rightarrow> int" where
  "swap16 x = x mod 256 * 256 + x div 256"

definition raw16_bytes :: "int \<Rightarrow> u8 list" where
  "raw16_bytes x = [word_of_int (x mod 256), word_of_int (x div 256 mod 256)]"

definition DEV_TYPE_TUN :: int where "DEV_TYPE_TUN = 2"
definition DEV_TYPE_TAP :: int where "DEV_TYPE_TAP = 3"
definition OPENVPN_ETH_P_IPV4 :: int where "OPENVPN_ETH_P_IPV4 = 0x0800"
definition OPENVPN_ETH_P_IPV6 :: int where "OPENVPN_ETH_P_IPV6 = 0x86DD"
definition OPENVPN_ETH_P_8021Q :: int where "OPENVPN_ETH_P_8021Q = 0x8100"
definition OPENVPN_IPPROTO_TCP :: int where "OPENVPN_IPPROTO_TCP = 6"
definition OPENVPN_IP_OFFMASK :: int where "OPENVPN_IP_OFFMASK = 0x1fff"
definition OPENVPN_TCPH_SYN_MASK :: int where "OPENVPN_TCPH_SYN_MASK = 2"
definition OPENVPN_TCPOPT_EOL :: int where "OPENVPN_TCPOPT_EOL = 0"
definition OPENVPN_TCPOPT_NOP :: int where "OPENVPN_TCPOPT_NOP = 1"
definition OPENVPN_TCPOPT_MAXSEG :: int where "OPENVPN_TCPOPT_MAXSEG = 2"
definition OPENVPN_TCPOLEN_MAXSEG :: int where "OPENVPN_TCPOLEN_MAXSEG = 4"

definition SIZEOF_IPHDR :: int where "SIZEOF_IPHDR = 20"
definition SIZEOF_IPV6HDR :: int where "SIZEOF_IPV6HDR = 40"
definition SIZEOF_TCPHDR :: int where "SIZEOF_TCPHDR = 20"
definition SIZEOF_ETHHDR :: int where "SIZEOF_ETHHDR = 14"
definition SIZEOF_8021QHDR :: int where "SIZEOF_8021QHDR = 18"

definition OPENVPN_IPH_GET_VER :: "int \<Rightarrow> int" where
  "OPENVPN_IPH_GET_VER v = drop_bit 4 v AND 0x0F"

definition OPENVPN_IPH_GET_LEN :: "int \<Rightarrow> int" where
  "OPENVPN_IPH_GET_LEN v = push_bit 2 (v AND 0x0F)"

definition OPENVPN_TCPH_GET_DOFF :: "int \<Rightarrow> int" where
  "OPENVPN_TCPH_GET_DOFF d = drop_bit 2 (d AND 0xF0)"

section \<open>Recognising IP packets\<close>

text \<open>
  The offset of the IP header and the type of the payload are read from the Ethernet header of a
  tap device; \<open>Some (Inl ())\<close> is the early \<open>return false\<close>.
\<close>

definition ip_offset :: "int \<Rightarrow> buffer \<Rightarrow> int \<Rightarrow> (unit + int) option" where
  "ip_offset tunnel_type buf ip_ver =
     (let c = buf_content buf in
      if tunnel_type = DEV_TYPE_TUN then
        (if buf_len buf < SIZEOF_IPHDR then Some (Inl ()) else Some (Inr 0))
      else if tunnel_type = DEV_TYPE_TAP then
        (if buf_len buf < SIZEOF_ETHHDR + SIZEOF_IPHDR then Some (Inl ())
         else do {
           proto \<leftarrow> net16_at c 12;
           (proto, offset) \<leftarrow>
             (if proto = OPENVPN_ETH_P_8021Q
              then do { p \<leftarrow> net16_at c 16; Some (p, SIZEOF_8021QHDR) }
              else Some (proto, SIZEOF_ETHHDR));
           Some (if proto \<noteq> (if ip_ver = 6 then OPENVPN_ETH_P_IPV6 else OPENVPN_ETH_P_IPV4) then Inl () else Inr offset) })
      else Some (Inl ()))"

definition is_ipv_X :: "int \<Rightarrow> buffer \<Rightarrow> int \<Rightarrow> (bool \<times> buffer) option" where
  "is_ipv_X tunnel_type buf ip_ver = do {
     r \<leftarrow> ip_offset tunnel_type buf ip_ver;
     (case r of
        Inl _ \<Rightarrow> Some (False, buf)
      | Inr offset \<Rightarrow> do {
          v \<leftarrow> byte_at (buf_content buf) offset;
          Some (if OPENVPN_IPH_GET_VER v = ip_ver then buf_advance buf offset else (False, buf)) }) }"

definition is_ipv4 :: "int \<Rightarrow> buffer \<Rightarrow> (bool \<times> buffer) option" where
  "is_ipv4 tunnel_type buf = is_ipv_X tunnel_type buf 4"

definition is_ipv6 :: "int \<Rightarrow> buffer \<Rightarrow> (bool \<times> buffer) option" where
  "is_ipv6 tunnel_type buf = is_ipv_X tunnel_type buf 6"

text \<open>The IP version, or -1, and the offset of the IP header where it is set.\<close>

definition get_tun_ip_ver :: "int \<Rightarrow> buffer \<Rightarrow> (int \<times> int option) option" where
  "get_tun_ip_ver tunnel_type buf =
     (if tunnel_type = DEV_TYPE_TUN then
        (if buf_len buf \<ge> SIZEOF_IPHDR
         then do { v \<leftarrow> byte_at (buf_content buf) 0; Some (OPENVPN_IPH_GET_VER v, Some 0) }
         else Some (- 1, Some 0))
      else if tunnel_type = DEV_TYPE_TAP then
        (if buf_len buf \<ge> SIZEOF_ETHHDR
         then do {
           proto \<leftarrow> net16_at (buf_content buf) 12;
           Some (if proto = OPENVPN_ETH_P_IPV6 then 6 else if proto = OPENVPN_ETH_P_IPV4 then 4 else - 1,
             Some SIZEOF_ETHHDR) }
         else Some (- 1, Some SIZEOF_ETHHDR))
      else Some (- 1, None))"

section \<open>The Internet checksum\<close>

text \<open>The sum of the 16 bit words of a byte string in a \<open>uint32_t\<close>, an odd last byte padded with 0.\<close>

fun sum_words :: "u8 list \<Rightarrow> nat \<Rightarrow> nat" where
  "sum_words [] s = s"
| "sum_words [a] s = (s + unat a * 256) mod 2 ^ 32"
| "sum_words (a # b # rest) s = sum_words rest ((s + (unat a * 256 + unat b)) mod 2 ^ 32)"

function fold_carries :: "nat \<Rightarrow> nat" where
  "fold_carries s = (if s div 65536 \<noteq> 0 then fold_carries (s mod 65536 + s div 65536) else s)"
  by pat_completeness auto
termination
proof (relation "measure id", goal_cases)
  case (2 s)
  have "0 < s div 65536" using 2 by simp
  moreover have "s = s div 65536 * 65536 + s mod 65536" by simp
  ultimately have "s mod 65536 + s div 65536 < s" by linarith
  then show ?case by simp
qed simp

declare fold_carries.simps [simp del]

text \<open>\<open>src\<close> and \<open>dest\<close> are the addresses: 4 bytes for \<open>AF_INET\<close>, else 16.\<close>

definition ip_checksum :: "u8 list \<Rightarrow> u8 list \<Rightarrow> u8 list \<Rightarrow> nat \<Rightarrow> nat" where
  "ip_checksum payload src dest proto =
     (let s = sum_words payload 0;
          s = sum_words src s;
          s = sum_words dest s;
          s = (s + length payload mod 65536) mod 2 ^ 32;
          s = (s + proto mod 65536) mod 2 ^ 32
      in 65535 - fold_carries s)"

text \<open>\<open>ADJUST_CHECKSUM\<close>: \<open>acc\<close> and the checksum are \<open>int\<close>s, the result is cast to \<open>uint16_t\<close>.\<close>

definition fold_int :: "int \<Rightarrow> int" where
  "fold_int a = (let a = drop_bit 16 a + (a AND 0xffff) in a + drop_bit 16 a)"

definition ADJUST_CHECKSUM :: "int \<Rightarrow> int \<Rightarrow> int" where
  "ADJUST_CHECKSUM acc cksum =
     (let a = acc + cksum in
      if a < 0 then NOT (fold_int (- a)) mod 65536 else fold_int a mod 65536)"

end
