(* ===== verification/Mss.thy ===== *)
theory Mss
  imports IpProto
begin

text \<open>
  mss.c: lowering the maximum segment size that a TCP SYN packet announces, and the change of the
  checksum that goes with it.
\<close>

text \<open>The options of the TCP header \<open>tc\<close>: \<open>olen\<close> bytes of them are left at \<open>opt\<close>.\<close>

function mss_options :: "nat \<Rightarrow> int \<Rightarrow> u8 list \<Rightarrow> u16 \<Rightarrow> u8 list option" where
  "mss_options olen opt tc maxmss =
     (if olen \<le> 1 then Some tc
      else do {
        kind \<leftarrow> byte_at tc opt;
        if kind = OPENVPN_TCPOPT_EOL then Some tc
        else if kind = OPENVPN_TCPOPT_NOP then mss_options (olen - 1) (opt + 1) tc maxmss
        else do {
          optlen \<leftarrow> byte_at tc (opt + 1);
          if optlen \<le> 0 \<or> optlen > int olen then Some tc
          else do {
            tc \<leftarrow> (if kind = OPENVPN_TCPOPT_MAXSEG \<and> optlen = OPENVPN_TCPOLEN_MAXSEG
              then do {
                mssval \<leftarrow> net16_at tc (opt + 2);
                if mssval > uint maxmss then do {
                  tc \<leftarrow> poke tc (opt + 2) [ucast (drop_bit 8 maxmss), ucast maxmss];
                  check \<leftarrow> raw16_at tc 16;
                  poke tc 16 (raw16_bytes (ADJUST_CHECKSUM (swap16 mssval - swap16 (uint maxmss)) check)) }
                else Some tc }
              else Some tc);
            mss_options (olen - nat optlen) (opt + optlen) tc maxmss } } })"
  by pat_completeness auto
termination by (relation "measure (\<lambda>(olen, _). olen)") auto

declare mss_options.simps [simp del]

text \<open>The content of a buffer, changed in place.\<close>

definition write_content :: "buffer \<Rightarrow> u8 list \<Rightarrow> buffer" where
  "write_content b bs = mem_write b (b_offset b) bs"

definition mss_fixup_dowork :: "buffer \<Rightarrow> u16 \<Rightarrow> buffer option" where
  "mss_fixup_dowork buf maxmss =
     (if buf_len buf < SIZEOF_TCPHDR then Some buf
      else do {
        doff_res \<leftarrow> byte_at (buf_content buf) 12;
        let hlen = OPENVPN_TCPH_GET_DOFF doff_res;
        if hlen \<le> SIZEOF_TCPHDR \<or> hlen > buf_len buf then Some buf
        else map_option (write_content buf)
               (mss_options (nat (hlen - SIZEOF_TCPHDR)) SIZEOF_TCPHDR (buf_content buf) maxmss) })"

text \<open>\<open>newbuf\<close> is a copy of the buffer that shares its bytes, advanced to the TCP header.\<close>

definition fixup_tcp :: "buffer \<Rightarrow> buffer \<Rightarrow> u16 \<Rightarrow> buffer option" where
  "fixup_tcp buf newbuf maxmss = do {
     flags \<leftarrow> byte_at (buf_content newbuf) 13;
     if flags AND OPENVPN_TCPH_SYN_MASK \<noteq> 0
     then do { newbuf \<leftarrow> mss_fixup_dowork newbuf maxmss; Some (buf\<lparr>b_data := b_data newbuf\<rparr>) }
     else Some buf }"

definition mss_fixup_ipv4 :: "buffer \<Rightarrow> u16 \<Rightarrow> buffer option" where
  "mss_fixup_ipv4 buf maxmss =
     (if buf_len buf < SIZEOF_IPHDR then Some buf
      else do {
        version_len \<leftarrow> byte_at (buf_content buf) 0;
        protocol \<leftarrow> byte_at (buf_content buf) 9;
        tot_len \<leftarrow> net16_at (buf_content buf) 2;
        frag_off \<leftarrow> net16_at (buf_content buf) 6;
        let hlen = OPENVPN_IPH_GET_LEN version_len;
        if protocol = OPENVPN_IPPROTO_TCP \<and> tot_len = buf_len buf \<and> frag_off AND OPENVPN_IP_OFFMASK = 0 \<and>
           hlen \<le> buf_len buf \<and> buf_len buf - hlen \<ge> SIZEOF_TCPHDR
        then (case buf_advance buf hlen of
            (False, _) \<Rightarrow> Some buf
          | (True, newbuf) \<Rightarrow> fixup_tcp buf newbuf maxmss)
        else Some buf })"

definition mss_fixup_ipv6 :: "buffer \<Rightarrow> u16 \<Rightarrow> buffer option" where
  "mss_fixup_ipv6 buf maxmss =
     (if buf_len buf < SIZEOF_IPV6HDR then Some buf
      else do {
        payload_len \<leftarrow> net16_at (buf_content buf) 4;
        nexthdr \<leftarrow> byte_at (buf_content buf) 6;
        if buf_len buf \<noteq> payload_len + 40 then Some buf
        else if nexthdr \<noteq> OPENVPN_IPPROTO_TCP then Some buf
        else (case buf_advance buf 40 of
            (False, _) \<Rightarrow> Some buf
          | (True, newbuf) \<Rightarrow>
              if buf_len newbuf \<ge> SIZEOF_TCPHDR then fixup_tcp buf newbuf (maxmss - 20) else Some buf) })"

end
