(* ===== verification/Checksum.thy ===== *)
theory Checksum
  imports Mss
begin

text \<open>
  The Internet checksum: what \<open>ip_checksum\<close> accepts, and that \<open>ADJUST_CHECKSUM\<close> follows a change
  of a word. The sums are taken modulo 65535, the arithmetic of one's complement.
\<close>

section \<open>Sums of words\<close>

fun word_sum :: "u8 list \<Rightarrow> nat" where
  "word_sum [] = 0"
| "word_sum [a] = unat a * 256"
| "word_sum (a # b # rest) = unat a * 256 + unat b + word_sum rest"

lemma sum_words_eq: "s < 2 ^ 32 \<Longrightarrow> sum_words bs s = (s + word_sum bs) mod 2 ^ 32"
proof (induction bs s rule: sum_words.induct)
  case (3 a b rest s)
  then show ?case by (simp add: mod_simps add.assoc)
qed simp_all

lemma unat_u8: "unat (x :: u8) \<le> 255"
proof -
  have "unat x < 2 ^ 8" using unsigned_less [of x] by simp
  then show ?thesis by simp
qed

lemma word_sum_bound: "2 * word_sum bs \<le> 65535 * (length bs + 1)"
proof (induction bs rule: word_sum.induct)
  case (2 a)
  then show ?case using unat_u8 [of a] by simp
next
  case (3 a b rest)
  then show ?case using unat_u8 [of a] unat_u8 [of b] by simp
qed simp

lemma fold_carries_spec:
  "fold_carries s < 65536 \<and> fold_carries s mod 65535 = s mod 65535 \<and> (fold_carries s = 0 \<longleftrightarrow> s = 0)"
proof (induction s rule: fold_carries.induct)
  case (1 s)
  show ?case
  proof (cases "s div 65536 = 0")
    case True
    then show ?thesis by (subst (1 2 3) fold_carries.simps) (auto simp: div_eq_0_iff)
  next
    case False
    let ?t = "s mod 65536 + s div 65536"
    have eq: "s = s div 65536 * 65535 + ?t" using div_mult_mod_eq [of s 65536] by linarith
    then have "s mod 65535 = ?t mod 65535" by (metis mod_mult_self3)
    then show ?thesis using 1 False by (subst (1 2 3) fold_carries.simps) auto
  qed
qed

text \<open>The packet is accepted: the words of the segment and of the pseudo header sum up to 0.\<close>

definition pseudo_sum :: "nat \<Rightarrow> u8 list \<Rightarrow> u8 list \<Rightarrow> nat \<Rightarrow> nat" where
  "pseudo_sum n src dest proto = word_sum src + word_sum dest + n + proto"

lemma ip_checksum_valid:
  assumes "length payload < 65536" "length src \<le> 16" "length dest \<le> 16" "0 < proto" "proto < 256"
  shows "ip_checksum payload src dest proto = 0 \<longleftrightarrow>
    (word_sum payload + pseudo_sum (length payload) src dest proto) mod 65535 = 0"
proof -
  define t where "t = word_sum payload + pseudo_sum (length payload) src dest proto"
  have b1: "word_sum payload \<le> 2147450880" using word_sum_bound [of payload] assms(1) by simp
  have b2: "word_sum src \<le> 600000" using word_sum_bound [of src] assms(2) by simp
  have b3: "word_sum dest \<le> 600000" using word_sum_bound [of dest] assms(3) by simp
  note b = b1 b2 b3
  then have small: "t < 2 ^ 32" using assms by (simp add: t_def pseudo_sum_def)
  have run: "ip_checksum payload src dest proto = 65535 - fold_carries t"
    unfolding ip_checksum_def Let_def using assms(1,5) small
    by (simp add: sum_words_eq mod_simps add.assoc t_def pseudo_sum_def)
  have pos: "0 < t" using assms(4) by (simp add: t_def pseudo_sum_def)
  have "65535 - fold_carries t = 0 \<longleftrightarrow> fold_carries t = 65535" using fold_carries_spec [of t] by linarith
  also have "\<dots> \<longleftrightarrow> t mod 65535 = 0"
  proof
    assume "t mod 65535 = 0"
    then have m: "fold_carries t mod 65535 = 0" "0 < fold_carries t" "fold_carries t < 65536"
      using fold_carries_spec [of t] pos by auto
    then have "\<not> fold_carries t < 65535" by auto
    then show "fold_carries t = 65535" using m(3) by linarith
  next
    assume "fold_carries t = 65535"
    then show "t mod 65535 = 0" using fold_carries_spec [of t] by simp
  qed
  finally show ?thesis using run by (simp add: t_def)
qed

section \<open>Changing a word\<close>

lemma word_sum_overlay:
  assumes "2 * k + 2 \<le> length bs"
  shows "word_sum (overlay bs (2 * k) [a, b]) + (unat (bs ! (2 * k)) * 256 + unat (bs ! (2 * k + 1))) =
    word_sum bs + (unat a * 256 + unat b)"
  using assms
proof (induction k arbitrary: bs)
  case 0
  then obtain x y rest where "bs = x # y # rest" by (metis One_nat_def Suc_1 Suc_le_length_iff add_0 mult_0_right)
  then show ?case by (simp add: overlay_def)
next
  case (Suc k)
  then obtain x y rest where bs: "bs = x # y # rest"
    by (metis Suc_le_length_iff add_Suc_shift mult_Suc_right numeral_2_eq_2 plus_1_eq_Suc add_Suc)
  have "overlay bs (2 * Suc k) [a, b] = x # y # overlay rest (2 * k) [a, b]" by (simp add: bs overlay_def)
  moreover have "2 * k + 2 \<le> length rest" using Suc.prems bs by simp
  ultimately show ?case using Suc.IH [of rest] by (simp add: bs)
qed

lemma swap16_mod:
  assumes "0 \<le> x" "x < 65536"
  shows "swap16 x mod 65535 = 256 * x mod 65535" "0 \<le> swap16 x" "swap16 x < 65536" "swap16 (swap16 x) = x"
proof -
  define h l where "h = x div 256" and "l = x mod 256"
  have x: "x = 256 * h + l" "0 \<le> l" "l < 256" "0 \<le> h" "h < 256"
    using assms by (simp_all add: h_def l_def)
  have s: "swap16 x = 256 * l + h" by (simp add: swap16_def h_def l_def)
  have "256 * x = 65535 * h + swap16 x" unfolding s using x(1) by linarith
  then show "swap16 x mod 65535 = 256 * x mod 65535" by (metis mod_mult_self4)
  show "0 \<le> swap16 x" "swap16 x < 65536" using x(2-5) unfolding s by linarith+
  have "(256 * l + h) mod 256 = h" "(256 * l + h) div 256 = l" using x by simp_all
  then have "swap16 (256 * l + h) = h * 256 + l" unfolding swap16_def by (simp only:)
  then show "swap16 (swap16 x) = x" unfolding s using x(1) by linarith
qed

lemma fold_int_mod:
  assumes "0 \<le> a" "a < 4294967296"
  shows "fold_int a mod 65536 mod 65535 = a mod 65535"
proof -
  define q r where "q = a div 65536" and "r = a mod 65536"
  have a: "a = 65536 * q + r" "0 \<le> r" "r < 65536" "0 \<le> q" "q < 65536" using assms by (simp_all add: q_def r_def)
  have d: "drop_bit 16 x = x div 65536" for x :: int by (simp add: drop_bit_eq_div)
  have m: "x AND 65535 = x mod 65536" for x :: int
    using take_bit_eq_mask [of 16 x] by (simp add: mask_eq_exp_minus_1 take_bit_eq_mod)
  have f: "fold_int a = q + r + (q + r) div 65536" using a(2,3) by (simp add: fold_int_def Let_def d m q_def r_def)
  have am: "a mod 65535 = (q + r) mod 65535"
  proof -
    have "a = q * 65535 + (q + r)" by (simp add: a(1))
    then show ?thesis by (metis mod_mult_self3)
  qed
  show ?thesis
  proof (cases "q + r < 65536")
    case True
    then show ?thesis using a(2,4) am f by simp
  next
    case False
    then have "(q + r) div 65536 = 1" using a by simp
    then have "fold_int a = q + r + 1" using f by simp
    moreover have "(q + r + 1) mod 65536 = q + r - 65535"
    proof -
      have "q + r + 1 = q + r - 65535 + 65536" by simp
      moreover have "0 \<le> q + r - 65535" "q + r - 65535 < 65536" using a False by linarith+
      ultimately show ?thesis by (metis mod_add_self2 mod_pos_pos_trivial)
    qed
    ultimately have "fold_int a mod 65536 mod 65535 = (q + r - 65535) mod 65535" by simp
    then show ?thesis using am by (simp add: mod_diff_eq)
  qed
qed

lemma ADJUST_CHECKSUM_mod:
  assumes "\<bar>acc\<bar> < 65536" "0 \<le> c" "c < 65536"
  shows "ADJUST_CHECKSUM acc c mod 65535 = (acc + c) mod 65535" "0 \<le> ADJUST_CHECKSUM acc c" "ADJUST_CHECKSUM acc c < 65536"
proof -
  have not_mod: "NOT x mod 65536 = 65535 - x mod 65536" for x :: int
  proof -
    have "NOT x = 65535 - x mod 65536 + 65536 * (- (x div 65536) - 1)"
    proof -
      define q r where "q = x div 65536" and "r = x mod 65536"
      have "x = q * 65536 + r" by (simp add: q_def r_def)
      then show ?thesis unfolding q_def [symmetric] r_def [symmetric] not_int_def by (simp add: right_diff_distrib)
    qed
    moreover have "0 \<le> 65535 - x mod 65536" "65535 - x mod 65536 < 65536" by simp_all
    ultimately show ?thesis by (metis mod_mult_self2 mod_pos_pos_trivial)
  qed
  show "ADJUST_CHECKSUM acc c mod 65535 = (acc + c) mod 65535"
  proof (cases "acc + c < 0")
    case True
    have "fold_int (- (acc + c)) mod 65536 mod 65535 = - (acc + c) mod 65535"
      using assms True by (intro fold_int_mod) linarith+
    then have "(65535 - fold_int (- (acc + c)) mod 65536) mod 65535 = (65535 - - (acc + c)) mod 65535"
      by (metis mod_diff_right_eq)
    then show ?thesis using True by (simp add: ADJUST_CHECKSUM_def Let_def not_mod add.commute)
  next
    case False
    then show ?thesis using assms fold_int_mod [of "acc + c"] by (simp add: ADJUST_CHECKSUM_def Let_def)
  qed
  show "0 \<le> ADJUST_CHECKSUM acc c" "ADJUST_CHECKSUM acc c < 65536" by (simp_all add: ADJUST_CHECKSUM_def Let_def)
qed

text \<open>One's complement is independent of the byte order.\<close>

lemma adjusted_word:
  assumes "0 \<le> old" "old < 65536" "0 \<le> new" "new < 65536" "0 \<le> c" "c < 65536"
  defines "r \<equiv> ADJUST_CHECKSUM (swap16 old - swap16 new) (swap16 c)"
  shows "swap16 r mod 65535 = (c + old - new) mod 65535" "0 \<le> r" "r < 65536"
proof -
  note so = swap16_mod [OF assms(1,2)] and sn = swap16_mod [OF assms(3,4)] and sc = swap16_mod [OF assms(5,6)]
  have "\<bar>swap16 old - swap16 new\<bar> < 65536" using so(2,3) sn(2,3) by linarith
  note ad = ADJUST_CHECKSUM_mod [OF this sc(2,3), folded r_def]
  show "0 \<le> r" "r < 65536" by (rule ad)+
  have rm: "r mod 65535 = (256 * (c + old - new)) mod 65535"
  proof -
    have "(swap16 old - swap16 new + swap16 c) mod 65535 = (256 * old - 256 * new + 256 * c) mod 65535"
      using so(1) sn(1) sc(1) by (intro mod_add_cong mod_diff_cong)
    then show ?thesis using ad(1) by (simp add: algebra_simps)
  qed
  have "swap16 r mod 65535 = (256 * r) mod 65535" using swap16_mod(1) [OF ad(2,3)] .
  also have "\<dots> = (256 * (256 * (c + old - new))) mod 65535" using rm by (metis mod_mult_right_eq)
  also have "\<dots> = (c + old - new) mod 65535"
  proof -
    have "256 * (256 * (c + old - new)) = (c + old - new) + (c + old - new) * 65535" by simp
    then show ?thesis by (metis mod_mult_self1)
  qed
  finally show "swap16 r mod 65535 = (c + old - new) mod 65535" .
qed

end
