(* ===== verification/MssProps.thy ===== *)
theory MssProps
  imports Checksum
begin

text \<open>
  What \<open>mss_fixup_dowork\<close> does to a TCP segment: the announced sizes, the other bytes, and the
  checksum.
\<close>

section \<open>Bytes\<close>

lemma byte_at_Some: "0 \<le> i \<Longrightarrow> i < int (length bs) \<Longrightarrow> byte_at bs i = Some (uint (bs ! nat i))"
  by (simp add: byte_at_def)

lemma byte_range: "byte_at bs i = Some x \<Longrightarrow> 0 \<le> x \<and> x < 256 \<and> 0 \<le> i \<and> i < int (length bs)"
  using uint_lt2p [of "bs ! nat i"] by (auto simp: byte_at_def dest: nth_opt_eq_SomeD)

lemma net16_range: "net16_at bs i = Some x \<Longrightarrow> 0 \<le> x \<and> x < 65536"
  by (auto simp: net16_at_def bind_eq_Some_conv dest!: byte_range)

lemma raw16_net16: "raw16_at bs i = map_option swap16 (net16_at bs i)"
proof (cases "byte_at bs i"; cases "byte_at bs (i + 1)")
  fix a b assume ab: "byte_at bs i = Some a" "byte_at bs (i + 1) = Some b"
  then have "(a * 256 + b) mod 256 = b" "(a * 256 + b) div 256 = a" by (auto dest!: byte_range)
  then show ?thesis using ab by (simp add: raw16_at_def net16_at_def swap16_def)
qed (simp_all add: raw16_at_def net16_at_def)

lemma poke_byte:
  assumes "poke bs i new = Some bs'"
  shows "length bs' = length bs"
    "byte_at bs' j = (if i \<le> j \<and> j < i + int (length new) then Some (uint (new ! nat (j - i))) else byte_at bs j)"
proof -
  have r: "0 \<le> i" "i + int (length new) \<le> int (length bs)" "bs' = overlay bs (nat i) new"
    using assms by (auto simp: poke_def split: if_splits)
  show l: "length bs' = length bs" using r by simp
  show "byte_at bs' j = (if i \<le> j \<and> j < i + int (length new) then Some (uint (new ! nat (j - i))) else byte_at bs j)"
  proof (cases "0 \<le> j \<and> j < int (length bs)")
    case True
    have "bs' ! nat j = (if i \<le> j \<and> j < i + int (length new) then new ! nat (j - i) else bs ! nat j)"
      unfolding r(3) using r(1,2) True by (subst nth_overlay) (auto simp: nat_diff_distrib nat_le_iff)
    then show ?thesis using True l by (simp add: byte_at_Some)
  next
    case False
    then show ?thesis using r(1,2) l by (auto simp: byte_at_def nth_opt_def)
  qed
qed

lemma poke_Some: "0 \<le> i \<Longrightarrow> i + int (length new) \<le> int (length bs) \<Longrightarrow> \<exists>bs'. poke bs i new = Some bs'"
  by (simp add: poke_def)

lemma raw16_bytes_uint:
  assumes "0 \<le> x" "x < 65536"
  shows "length (raw16_bytes x) = 2" "uint (raw16_bytes x ! 0) = x mod 256" "uint (raw16_bytes x ! 1) = x div 256"
proof -
  have "0 \<le> x mod 256" "x mod 256 < 256" "0 \<le> x div 256" "x div 256 < 256" using assms by simp_all
  then show "length (raw16_bytes x) = 2" "uint (raw16_bytes x ! 0) = x mod 256" "uint (raw16_bytes x ! 1) = x div 256"
    by (simp_all add: raw16_bytes_def uint_word_of_int)
qed

text \<open>A word replaced at an even offset.\<close>

lemma poke_word_sum:
  assumes "poke bs i [x, y] = Some bs'" "even i" "net16_at bs i = Some old"
  shows "int (word_sum bs') = int (word_sum bs) - old + (uint x * 256 + uint y)"
proof -
  have r: "0 \<le> i" "i + 2 \<le> int (length bs)" "bs' = overlay bs (nat i) [x, y]"
    using assms(1) by (auto simp: poke_def split: if_splits)
  define k where "k = nat i div 2"
  have "even (nat i)" using assms(2) r(1) by (metis even_nat_iff)
  then have k: "nat i = 2 * k" by (simp add: k_def)
  then have ik: "i = int (2 * k)" using r(1) by linarith
  have len: "2 * k + 2 \<le> length bs" using r(2) ik by linarith
  have "nat (i + 1) = 2 * k + 1" using ik by simp
  then have "old = uint (bs ! (2 * k)) * 256 + uint (bs ! (2 * k + 1))"
    using assms(3) r(1,2) by (simp add: net16_at_def byte_at_Some k)
  moreover have "int (word_sum bs') + (uint (bs ! (2 * k)) * 256 + uint (bs ! (2 * k + 1))) =
      int (word_sum bs) + (uint x * 256 + uint y)"
    using arg_cong [OF word_sum_overlay [OF len, of x y], of int] r(3) by (simp add: k)
  ultimately show ?thesis by linarith
qed

text \<open>At an odd offset the two bytes lie in two words of the sum, the first the low byte of the one.\<close>

lemma word_sum_update:
  "k < length bs \<Longrightarrow> int (word_sum (bs[k := x])) = int (word_sum bs) + (if even k then 256 else 1) * (uint x - uint (bs ! k))"
proof (induction bs arbitrary: k rule: word_sum.induct)
  case (3 a b rest)
  show ?case
  proof (cases k)
    case (Suc k')
    then show ?thesis using 3 by (cases k') simp_all
  qed simp
qed simp_all

lemma overlay_two: "k + 2 \<le> length bs \<Longrightarrow> overlay bs k [x, y] = bs[k := x, Suc k := y]"
  by (rule nth_equalityI) (auto simp: nth_overlay nth_list_update nth_Cons split: nat.splits)

lemma poke_word_sum_odd:
  assumes "poke bs i [x, y] = Some bs'" "odd i" "net16_at bs i = Some old"
  shows "int (word_sum bs') mod 65535 = (int (word_sum bs) + 256 * (uint x * 256 + uint y - old)) mod 65535"
proof -
  define k where "k = nat i"
  have r: "0 \<le> i" "i + 2 \<le> int (length bs)" "bs' = overlay bs k [x, y]"
    using assms(1) by (auto simp: poke_def k_def split: if_splits)
  have i: "i = int k" "odd k" using assms(2) r(1) by (auto simp: k_def even_nat_iff)
  have len: "k + 2 \<le> length bs" using r(2) i(1) by linarith
  have old: "old = uint (bs ! k) * 256 + uint (bs ! Suc k)"
    using assms(3) len by (simp add: net16_at_def byte_at_def nth_opt_def i(1) nat_add_distrib)
  have "int (word_sum bs') = int (word_sum bs) + (uint x - uint (bs ! k)) + 256 * (uint y - uint (bs ! Suc k))"
    using len i(2) word_sum_update [of k bs x] word_sum_update [of "Suc k" "bs[k := x]" y]
    by (simp add: r(3) overlay_two)
  also have "\<dots> = int (word_sum bs) + 256 * (uint x * 256 + uint y - old) + (uint (bs ! k) - uint x) * 65535"
    unfolding old by (simp add: algebra_simps)
  finally show ?thesis by (simp only: mod_mult_self1)
qed

section \<open>The options\<close>

text \<open>How much the announcement at \<open>p\<close> is lowered.\<close>

definition mss_lowered :: "u16 \<Rightarrow> u8 list \<Rightarrow> int \<Rightarrow> int" where
  "mss_lowered maxmss tc p = (case net16_at tc (p + 2) of None \<Rightarrow> 0 | Some v \<Rightarrow> max 0 (v - uint maxmss))"

text \<open>Where the loop finds well-formed options that announce a segment size.\<close>

function mss_positions :: "nat \<Rightarrow> int \<Rightarrow> u8 list \<Rightarrow> int list" where
  "mss_positions olen opt tc =
     (if olen \<le> 1 then [] else
      case (byte_at tc opt, byte_at tc (opt + 1)) of
        (Some kind, Some optlen) \<Rightarrow>
          if kind = OPENVPN_TCPOPT_EOL then []
          else if kind = OPENVPN_TCPOPT_NOP then mss_positions (olen - 1) (opt + 1) tc
          else if optlen \<le> 0 \<or> optlen > int olen then []
          else (if kind = OPENVPN_TCPOPT_MAXSEG \<and> optlen = OPENVPN_TCPOLEN_MAXSEG then [opt] else []) @
            mss_positions (olen - nat optlen) (opt + optlen) tc
      | _ \<Rightarrow> [])"
  by pat_completeness auto
termination by (relation "measure (\<lambda>(olen, _). olen)") auto

declare mss_positions.simps [simp del]

lemma mss_positions_range: "p \<in> set (mss_positions olen opt tc) \<Longrightarrow> opt \<le> p \<and> p + 4 \<le> opt + int olen"
proof (induction olen opt tc rule: mss_positions.induct)
  case (1 olen opt tc)
  show ?case
  proof (cases "\<exists>kind optlen. 1 < olen \<and> byte_at tc opt = Some kind \<and> byte_at tc (opt + 1) = Some optlen")
    case True
    then obtain kind optlen where k: "1 < olen" "byte_at tc opt = Some kind" "byte_at tc (opt + 1) = Some optlen" by blast
    show ?thesis
    proof (cases "kind = OPENVPN_TCPOPT_EOL \<or> kind = OPENVPN_TCPOPT_NOP \<or> optlen \<le> 0 \<or> optlen > int olen")
      case True
      then show ?thesis using "1.prems" "1.IH"(1) k
        by (subst (asm) mss_positions.simps) (force simp: of_nat_diff split: if_splits)
    next
      case False
      then have "p = opt \<and> optlen = 4 \<or> p \<in> set (mss_positions (olen - nat optlen) (opt + optlen) tc)"
        using "1.prems" k by (subst (asm) mss_positions.simps) (auto simp: OPENVPN_TCPOLEN_MAXSEG_def split: if_splits)
      moreover have "opt + optlen \<le> p \<and> p + 4 \<le> opt + optlen + int (olen - nat optlen)"
        if "p \<in> set (mss_positions (olen - nat optlen) (opt + optlen) tc)"
        by (rule "1.IH"(2)) (use k False that in auto)
      moreover have "int (olen - nat optlen) = int olen - optlen" using False by (simp add: of_nat_diff nat_le_iff)
      ultimately show ?thesis using False by auto
    qed
  next
    case False
    then show ?thesis using "1.prems" by (subst (asm) mss_positions.simps) (auto split: if_splits option.splits)
  qed
qed

lemma mss_positions_cong:
  "(\<And>j. opt \<le> j \<Longrightarrow> byte_at a j = byte_at b j) \<Longrightarrow> mss_positions olen opt a = mss_positions olen opt b"
proof (induction olen opt a rule: mss_positions.induct)
  case (1 olen opt a)
  have e: "byte_at a opt = byte_at b opt" "byte_at a (opt + 1) = byte_at b (opt + 1)" using "1.prems" by simp_all
  show ?case
  proof (cases "\<exists>kind optlen. 1 < olen \<and> byte_at b opt = Some kind \<and> byte_at b (opt + 1) = Some optlen")
    case True
    then obtain kind optlen where k: "1 < olen" "byte_at b opt = Some kind" "byte_at b (opt + 1) = Some optlen" by blast
    have nop: "mss_positions (olen - 1) (opt + 1) a = mss_positions (olen - 1) (opt + 1) b"
      if "kind = OPENVPN_TCPOPT_NOP" "kind \<noteq> OPENVPN_TCPOPT_EOL"
      using "1.IH"(1) k e that "1.prems" by auto
    have opt: "mss_positions (olen - nat optlen) (opt + optlen) a = mss_positions (olen - nat optlen) (opt + optlen) b"
      if "kind \<noteq> OPENVPN_TCPOPT_NOP" "kind \<noteq> OPENVPN_TCPOPT_EOL" "\<not> (optlen \<le> 0 \<or> optlen > int olen)"
      using "1.IH"(2) k e that "1.prems" by auto
    show ?thesis using k e nop opt by (subst (1 2) mss_positions.simps) auto
  next
    case False
    then show ?thesis using e by (subst (1 2) mss_positions.simps) (auto split: option.splits)
  qed
qed

text \<open>One announcement that is lowered.\<close>

lemma lower_mss:
  fixes maxmss :: u16
  assumes "20 \<le> opt" "opt + 4 \<le> int (length tc)" "net16_at tc (opt + 2) = Some v"
  shows "\<exists>tc1 check tc2. poke tc (opt + 2) [ucast (drop_bit 8 maxmss), ucast maxmss] = Some tc1 \<and>
    raw16_at tc1 16 = Some check \<and>
    poke tc1 16 (raw16_bytes (ADJUST_CHECKSUM (swap16 v - swap16 (uint maxmss)) check)) = Some tc2 \<and>
    length tc2 = length tc \<and> net16_at tc2 (opt + 2) = Some (uint maxmss) \<and>
    (\<forall>j. j \<notin> {16, 17, opt + 2, opt + 3} \<longrightarrow> byte_at tc2 j = byte_at tc j) \<and>
    int (word_sum tc2) mod 65535 = (int (word_sum tc) - 255 * (if odd opt then v - uint maxmss else 0)) mod 65535"
proof -
  let ?new = "[ucast (drop_bit 8 maxmss), ucast maxmss] :: u8 list"
  have um: "0 \<le> uint maxmss" "uint maxmss < 65536" using uint_lt2p [of maxmss] by simp_all
  have b: "uint (ucast (drop_bit 8 maxmss) :: u8) = uint maxmss div 256" "uint (ucast maxmss :: u8) = uint maxmss mod 256"
  proof -
    have "uint (ucast (drop_bit 8 maxmss) :: u8) = take_bit 8 (drop_bit 8 (uint maxmss))"
      using um by (simp add: unsigned_ucast_eq unsigned_drop_bit_eq take_bit_int_eq_self)
    also have "\<dots> = uint maxmss div 256" 
    proof -
      have "x div 256 mod 256 = x div 256" if "0 \<le> x" "x < 65536" for x :: int using that by simp
      from this [OF um] have "uint maxmss div 256 mod 256 = uint maxmss div 256" .
      moreover have "(2 :: int) ^ 8 = 256" by simp
      ultimately show ?thesis by (simp only: take_bit_eq_mod drop_bit_eq_div)
    qed
    finally show "uint (ucast (drop_bit 8 maxmss) :: u8) = uint maxmss div 256" .
    show "uint (ucast maxmss :: u8) = uint maxmss mod 256" by (simp add: unsigned_ucast_eq take_bit_eq_mod)
  qed
  obtain tc1 where t1: "poke tc (opt + 2) ?new = Some tc1" using poke_Some [of "opt + 2" ?new tc] assms(1,2) by auto
  note p1 = poke_byte [OF t1]
  obtain c where c: "net16_at tc 16 = Some c" using assms by (simp add: net16_at_def byte_at_Some)
  then have c1: "net16_at tc1 16 = Some c" using assms(1) by (simp add: net16_at_def p1(2))
  define r where "r = ADJUST_CHECKSUM (swap16 v - swap16 (uint maxmss)) (swap16 c)"
  note vr = net16_range [OF assms(3)] and cr = net16_range [OF c]
  have ad: "swap16 r mod 65535 = (c + v - uint maxmss) mod 65535" "0 \<le> r" "r < 65536"
    using adjusted_word [of v "uint maxmss" c] vr um cr by (simp_all add: r_def)
  note rb = raw16_bytes_uint [OF ad(2,3)]
  obtain tc2 where t2: "poke tc1 16 (raw16_bytes r) = Some tc2"
    using poke_Some [of 16 "raw16_bytes r" tc1] assms(1,2) p1(1) rb(1) by auto
  note p2 = poke_byte [OF t2, unfolded rb(1)]
  have other: "byte_at tc2 j = byte_at tc j" if "j \<notin> {16, 17, opt + 2, opt + 3}" for j
    using that by (auto simp: p1(2) p2(2))
  have val: "net16_at tc2 (opt + 2) = Some (uint maxmss)"
    using assms(1) b by (simp add: net16_at_def p1(2) p2(2))
  obtain x y where xy: "raw16_bytes r = [x, y]" by (simp add: raw16_bytes_def)
  have s2: "int (word_sum tc2) = int (word_sum tc1) - c + swap16 r"
    using poke_word_sum [OF t2 [unfolded xy] _ c1] rb(2,3) by (simp add: xy swap16_def)
  have s1: "int (word_sum tc1) mod 65535 =
      (int (word_sum tc) + (if odd opt then 256 * (uint maxmss - v) else uint maxmss - v)) mod 65535"
  proof (cases "odd opt")
    case True
    then show ?thesis using poke_word_sum_odd [OF t1 _ assms(3)] by (simp add: b)
  next
    case False
    then have "int (word_sum tc1) = int (word_sum tc) + (uint maxmss - v)"
      using poke_word_sum [OF t1 _ assms(3)] by (simp add: b)
    then show ?thesis using False by simp
  qed
  have "int (word_sum tc2) mod 65535 = (int (word_sum tc1) + (v - uint maxmss)) mod 65535"
  proof -
    have "int (word_sum tc2) = (int (word_sum tc1) - c) + swap16 r" using s2 by simp
    also have "\<dots> mod 65535 = (int (word_sum tc1) - c + (c + v - uint maxmss)) mod 65535"
      using ad(1) by (intro mod_add_cong) simp_all
    finally show ?thesis by (simp add: algebra_simps)
  qed
  also have "\<dots> = (int (word_sum tc) + (if odd opt then 256 * (uint maxmss - v) else uint maxmss - v) + (v - uint maxmss)) mod 65535"
    using s1 by (intro mod_add_cong) simp_all
  also have "\<dots> = (int (word_sum tc) - 255 * (if odd opt then v - uint maxmss else 0)) mod 65535"
    by (intro arg_cong [of _ _ "\<lambda>k. k mod 65535"]) simp
  finally have sum: "int (word_sum tc2) mod 65535 =
    (int (word_sum tc) - 255 * (if odd opt then v - uint maxmss else 0)) mod 65535" .
  have "raw16_at tc1 16 = Some (swap16 c)" by (simp add: raw16_net16 c1)
  then show ?thesis using t1 t2 [unfolded r_def] p1(1) p2(1) val other sum by (auto simp: r_def)
qed


lemma mss_options_spec:
  assumes "20 \<le> opt" "opt + int olen \<le> int (length tc)"
  shows "\<exists>tc'. mss_options olen opt tc maxmss = Some tc' \<and> length tc' = length tc \<and>
    (\<forall>j. j \<notin> {16, 17} \<and> (\<forall>p \<in> set (mss_positions olen opt tc). j \<noteq> p + 2 \<and> j \<noteq> p + 3) \<longrightarrow> byte_at tc' j = byte_at tc j) \<and>
    (\<forall>p \<in> set (mss_positions olen opt tc). net16_at tc' (p + 2) = map_option (\<lambda>v. min v (uint maxmss)) (net16_at tc (p + 2))) \<and>
    int (word_sum tc') mod 65535 =
      (int (word_sum tc) - 255 * (\<Sum>p\<leftarrow>filter odd (mss_positions olen opt tc). mss_lowered maxmss tc p)) mod 65535"
  using assms
proof (induction olen arbitrary: opt tc rule: less_induct)
  case (less olen)
  show ?case
  proof (cases "olen \<le> 1")
    case True
    then show ?thesis by (subst mss_options.simps, subst (1 2 3) mss_positions.simps) simp
  next
    case False
    obtain kind optlen where k: "byte_at tc opt = Some kind" "byte_at tc (opt + 1) = Some optlen"
      using less.prems False by (simp add: byte_at_Some)
    show ?thesis
    proof (cases "kind = OPENVPN_TCPOPT_EOL \<or> kind \<noteq> OPENVPN_TCPOPT_NOP \<and> (optlen \<le> 0 \<or> optlen > int olen)")
      case True
      then show ?thesis using False k
        by (subst mss_options.simps, subst (1 2 3) mss_positions.simps) (auto simp: OPENVPN_TCPOPT_EOL_def OPENVPN_TCPOPT_NOP_def)
    next
      case cont: False
      show ?thesis
      proof (cases "kind = OPENVPN_TCPOPT_NOP")
        case True
        have r: "mss_options olen opt tc maxmss = mss_options (olen - 1) (opt + 1) tc maxmss"
          "mss_positions olen opt tc = mss_positions (olen - 1) (opt + 1) tc"
          using False k cont True by (subst mss_options.simps mss_positions.simps, simp)+
        have "olen - 1 < olen" "20 \<le> opt + 1" "opt + 1 + int (olen - 1) \<le> int (length tc)"
          using False less.prems by (simp_all add: of_nat_diff)
        from less.IH [OF this] show ?thesis unfolding r .
      next
        case nop: False
        let ?olen = "olen - nat optlen" and ?opt = "opt + optlen"
        have ol: "0 < optlen" "optlen \<le> int olen" using cont nop by auto
        have step: "?olen < olen" "20 \<le> ?opt" "?opt + int ?olen \<le> int (length tc)"
          using ol False less.prems by (simp_all add: of_nat_diff nat_le_iff)
        note rp = mss_positions_range [of _ ?olen ?opt]
        show ?thesis
        proof (cases "kind = OPENVPN_TCPOPT_MAXSEG \<and> optlen = OPENVPN_TCPOLEN_MAXSEG")
          case no: False
          have c: "(olen \<le> 1) = False" "(kind = OPENVPN_TCPOPT_EOL) = False" "(kind = OPENVPN_TCPOPT_NOP) = False"
            "(optlen \<le> 0 \<or> optlen > int olen) = False" "(kind = OPENVPN_TCPOPT_MAXSEG \<and> optlen = OPENVPN_TCPOLEN_MAXSEG) = False"
            using False cont nop no by simp_all
          have r: "mss_options olen opt tc maxmss = mss_options ?olen ?opt tc maxmss"
            by (subst mss_options.simps) (simp only: k c if_True if_False Option.bind.bind_lunit)
          have r': "mss_positions olen opt tc = mss_positions ?olen ?opt tc"
            by (subst mss_positions.simps) (simp only: k c if_True if_False prod.case option.case append_Nil)
          from less.IH [OF step] show ?thesis unfolding r r' .
        next
          case yes: True
          then have o4: "optlen = 4" by (simp add: OPENVPN_TCPOLEN_MAXSEG_def)
          have pos: "mss_positions olen opt tc = opt # mss_positions ?olen ?opt tc"
            using False k cont nop yes by (subst mss_positions.simps) simp
          obtain v where v: "net16_at tc (opt + 2) = Some v"
            using less.prems ol o4 by (simp add: net16_at_def byte_at_Some)
          show ?thesis
          proof (cases "uint maxmss < v")
            case True
            have "opt + 4 \<le> int (length tc)" using less.prems ol o4 by simp
            from lower_mss [OF less.prems(1) this v, of maxmss] obtain tc1 check tc2 where
              t: "poke tc (opt + 2) [ucast (drop_bit 8 maxmss), ucast maxmss] = Some tc1" "raw16_at tc1 16 = Some check"
              "poke tc1 16 (raw16_bytes (ADJUST_CHECKSUM (swap16 v - swap16 (uint maxmss)) check)) = Some tc2"
              "length tc2 = length tc" "net16_at tc2 (opt + 2) = Some (uint maxmss)"
              "\<And>j. j \<notin> {16, 17, opt + 2, opt + 3} \<Longrightarrow> byte_at tc2 j = byte_at tc j"
              "int (word_sum tc2) mod 65535 = (int (word_sum tc) - 255 * (if odd opt then v - uint maxmss else 0)) mod 65535"
              by blast
            have r: "mss_options olen opt tc maxmss = mss_options ?olen ?opt tc2 maxmss"
            proof -
              have c: "(olen \<le> 1) = False" "(kind = OPENVPN_TCPOPT_EOL) = False" "(kind = OPENVPN_TCPOPT_NOP) = False"
                "(optlen \<le> 0 \<or> optlen > int olen) = False" "(kind = OPENVPN_TCPOPT_MAXSEG \<and> optlen = OPENVPN_TCPOLEN_MAXSEG) = True"
                "(uint maxmss < v) = True"
                using False cont nop yes True by simp_all
              show ?thesis by (subst mss_options.simps) (simp only: k v t(1-3) c if_True if_False Option.bind.bind_lunit)
            qed
            have pos2: "mss_positions ?olen ?opt tc2 = mss_positions ?olen ?opt tc"
              using less.prems(1) o4 by (intro mss_positions_cong t(6)) auto
            note IH = less.IH [OF step(1,2), of tc2, unfolded t(4), OF step(3), unfolded pos2]
            then obtain tc' where tc': "mss_options ?olen ?opt tc2 maxmss = Some tc'" "length tc' = length tc"
              "\<And>j. j \<notin> {16, 17} \<and> (\<forall>p \<in> set (mss_positions ?olen ?opt tc). j \<noteq> p + 2 \<and> j \<noteq> p + 3) \<Longrightarrow> byte_at tc' j = byte_at tc2 j"
              "\<And>p. p \<in> set (mss_positions ?olen ?opt tc) \<Longrightarrow> net16_at tc' (p + 2) = map_option (\<lambda>v. min v (uint maxmss)) (net16_at tc2 (p + 2))"
              "int (word_sum tc') mod 65535 = (int (word_sum tc2) -
                 255 * (\<Sum>p\<leftarrow>filter odd (mss_positions ?olen ?opt tc). mss_lowered maxmss tc2 p)) mod 65535"
              by blast
            have here: "net16_at tc' (opt + 2) = Some (uint maxmss)"
            proof -
              have "byte_at tc' j = byte_at tc2 j" if "j = opt + 2 \<or> j = opt + 2 + 1" for j
                using that rp [of _ tc] less.prems(1) o4 by (intro tc'(3)) force
              then show ?thesis using t(5) by (simp add: net16_at_def)
            qed
            have same: "net16_at tc2 (p + 2) = net16_at tc (p + 2)" if "p \<in> set (mss_positions ?olen ?opt tc)" for p
              using rp [OF that] less.prems(1) o4 by (simp add: net16_at_def t(6))
            have later: "net16_at tc' (p + 2) = map_option (\<lambda>v. min v (uint maxmss)) (net16_at tc (p + 2))"
              if "p \<in> set (mss_positions ?olen ?opt tc)" for p
              using tc'(4) [OF that] same [OF that] by simp
            define S where "S = (\<Sum>p\<leftarrow>filter odd (mss_positions ?olen ?opt tc). mss_lowered maxmss tc p)"
            define T where "T = (if odd opt then v - uint maxmss else 0)"
            have "(\<Sum>p\<leftarrow>filter odd (mss_positions ?olen ?opt tc). mss_lowered maxmss tc2 p) = S"
              unfolding S_def by (intro arg_cong [of _ _ sum_list] map_cong) (auto simp: mss_lowered_def same)
            then have "int (word_sum tc') mod 65535 = (int (word_sum tc) - 255 * T - 255 * S) mod 65535"
              using tc'(5) t(7) [folded T_def] by (metis mod_diff_left_eq)
            moreover have "(\<Sum>p\<leftarrow>filter odd (opt # mss_positions ?olen ?opt tc). mss_lowered maxmss tc p) = T + S"
              using v True by (simp add: S_def T_def mss_lowered_def)
            ultimately have sum: "int (word_sum tc') mod 65535 = (int (word_sum tc) -
                255 * (\<Sum>p\<leftarrow>filter odd (opt # mss_positions ?olen ?opt tc). mss_lowered maxmss tc p)) mod 65535"
              by (simp only: right_diff_distrib distrib_left diff_diff_eq)
            show ?thesis unfolding r pos
              by (rule exI [of _ tc'], intro conjI sum) (use tc'(1,2,3) here later v True t(6) in auto)
          next
            case no: False
            have r: "mss_options olen opt tc maxmss = mss_options ?olen ?opt tc maxmss"
            proof -
              have c: "(olen \<le> 1) = False" "(kind = OPENVPN_TCPOPT_EOL) = False" "(kind = OPENVPN_TCPOPT_NOP) = False"
                "(optlen \<le> 0 \<or> optlen > int olen) = False" "(kind = OPENVPN_TCPOPT_MAXSEG \<and> optlen = OPENVPN_TCPOLEN_MAXSEG) = True"
                "(uint maxmss < v) = False"
                using \<open>\<not> olen \<le> 1\<close> cont nop yes no by simp_all
              show ?thesis by (subst mss_options.simps) (simp only: k v c if_True if_False Option.bind.bind_lunit)
            qed
            from less.IH [OF step] obtain tc' where tc': "mss_options ?olen ?opt tc maxmss = Some tc'" "length tc' = length tc"
              "\<And>j. j \<notin> {16, 17} \<and> (\<forall>p \<in> set (mss_positions ?olen ?opt tc). j \<noteq> p + 2 \<and> j \<noteq> p + 3) \<Longrightarrow> byte_at tc' j = byte_at tc j"
              "\<And>p. p \<in> set (mss_positions ?olen ?opt tc) \<Longrightarrow> net16_at tc' (p + 2) = map_option (\<lambda>v. min v (uint maxmss)) (net16_at tc (p + 2))"
              "int (word_sum tc') mod 65535 = (int (word_sum tc) -
                 255 * (\<Sum>p\<leftarrow>filter odd (mss_positions ?olen ?opt tc). mss_lowered maxmss tc p)) mod 65535"
              by blast
            have here: "net16_at tc' (opt + 2) = Some v"
            proof -
              have "byte_at tc' j = byte_at tc j" if "j = opt + 2 \<or> j = opt + 2 + 1" for j
                using that rp [of _ tc] less.prems(1) o4 by (intro tc'(3)) force
              then show ?thesis using v by (simp add: net16_at_def)
            qed
            have "(\<Sum>p\<leftarrow>filter odd (opt # mss_positions ?olen ?opt tc). mss_lowered maxmss tc p) =
                (\<Sum>p\<leftarrow>filter odd (mss_positions ?olen ?opt tc). mss_lowered maxmss tc p)"
              using v no by (simp add: mss_lowered_def)
            with tc'(5) have sum: "int (word_sum tc') mod 65535 = (int (word_sum tc) -
                255 * (\<Sum>p\<leftarrow>filter odd (opt # mss_positions ?olen ?opt tc). mss_lowered maxmss tc p)) mod 65535" by simp
            show ?thesis unfolding r pos
              by (rule exI [of _ tc'], intro conjI sum) (use tc'(1-4) here v no in auto)
          qed
        qed
      qed
    qed
  qed
qed


section \<open>The segment\<close>

text \<open>The positions of the announcements in a whole segment.\<close>

definition mss_announcements :: "u8 list \<Rightarrow> int list" where
  "mss_announcements c = (case byte_at c 12 of None \<Rightarrow> []
     | Some d \<Rightarrow> let hlen = OPENVPN_TCPH_GET_DOFF d in
         if hlen \<le> SIZEOF_TCPHDR \<or> hlen > int (length c) then [] else mss_positions (nat (hlen - SIZEOF_TCPHDR)) SIZEOF_TCPHDR c)"

lemma write_content_rep:
  assumes "buf_rep buf h c r" "length c' = length c"
  shows "buf_rep (write_content buf c') h c' r"
proof -
  obtain m where m: "b_data buf = Some m" "length m = h + length c + r" "b_offset buf = int h"
    "b_len buf = int (length c)" "b_capacity buf = int (h + length c + r)"
    using assms(1) by (auto simp: buf_rep_iff)
  have "take (length c') (drop h (overlay m h c')) = c'"
    using assms(2) m(2) by (intro take_drop_overlay_same) simp
  then show ?thesis using m assms(2)
    by (intro buf_repI [of _ "overlay m h c'"]) (simp_all add: write_content_def mem_write_def)
qed

text \<open>
  A whole segment with a right checksum: the bytes afterwards, and when the checksum is right then.
  An announcement at an odd offset counts 256 times in the sum but once in the adjustment.
\<close>

lemma mss_fixup_segment:
  assumes "buf_rep buf h c r" "20 \<le> length c" "length c < 65536" "length src \<le> 16" "length dest \<le> 16"
    and "ip_checksum c src dest 6 = 0"
  shows "\<exists>buf' c'. mss_fixup_dowork buf maxmss = Some buf' \<and> buf_rep buf' h c' r \<and> length c' = length c \<and>
    (ip_checksum c' src dest 6 = 0 \<longleftrightarrow> 257 dvd (\<Sum>p\<leftarrow>filter odd (mss_announcements c). mss_lowered maxmss c p)) \<and>
    (\<forall>p \<in> set (mss_announcements c). net16_at c' (p + 2) = map_option (\<lambda>v. min v (uint maxmss)) (net16_at c (p + 2))) \<and>
    (\<forall>j. j \<notin> {16, 17} \<and> (\<forall>p \<in> set (mss_announcements c). j \<noteq> p + 2 \<and> j \<noteq> p + 3) \<longrightarrow> byte_at c' j = byte_at c j)"
proof -
  note b = buf_rep_simps [OF assms(1)]
  obtain d where d: "byte_at c 12 = Some d" using assms(2) by (simp add: byte_at_Some)
  let ?hlen = "OPENVPN_TCPH_GET_DOFF d"
  let ?S = "\<Sum>p\<leftarrow>filter odd (mss_announcements c). mss_lowered maxmss c p"
  show ?thesis
  proof (cases "?hlen \<le> SIZEOF_TCPHDR \<or> ?hlen > int (length c)")
    case True
    have "mss_fixup_dowork buf maxmss = Some buf"
      using True d assms(2) b by (auto simp: mss_fixup_dowork_def SIZEOF_TCPHDR_def)
    moreover have "mss_announcements c = []" using True d by (auto simp: mss_announcements_def Let_def)
    ultimately show ?thesis using assms(1,6) by (intro exI [of _ buf] exI [of _ c]) simp
  next
    case False
    let ?olen = "nat (?hlen - SIZEOF_TCPHDR)"
    have ps: "mss_announcements c = mss_positions ?olen SIZEOF_TCPHDR c" using False d by (auto simp: mss_announcements_def Let_def)
    have "20 \<le> SIZEOF_TCPHDR" "SIZEOF_TCPHDR + int ?olen \<le> int (length c)"
      using False by (simp_all add: SIZEOF_TCPHDR_def)
    from mss_options_spec [OF this, of maxmss, folded ps] obtain c' where
      c': "mss_options ?olen SIZEOF_TCPHDR c maxmss = Some c'" "length c' = length c"
      "\<forall>j. j \<notin> {16, 17} \<and> (\<forall>p \<in> set (mss_announcements c). j \<noteq> p + 2 \<and> j \<noteq> p + 3) \<longrightarrow> byte_at c' j = byte_at c j"
      "\<forall>p \<in> set (mss_announcements c). net16_at c' (p + 2) = map_option (\<lambda>v. min v (uint maxmss)) (net16_at c (p + 2))"
      "int (word_sum c') mod 65535 = (int (word_sum c) - 255 * ?S) mod 65535"
      by blast
    have run: "mss_fixup_dowork buf maxmss = Some (write_content buf c')"
      using False d assms(2) b c'(1) by (simp add: mss_fixup_dowork_def SIZEOF_TCPHDR_def)
    have l': "length c' < 65536" using assms(3) c'(2) by simp
    define ps where "ps = pseudo_sum (length c) src dest 6"
    have iff: "(n + ps) mod 65535 = 0 \<longleftrightarrow> (int n + int ps) mod 65535 = 0" for n :: nat
    proof -
      have "(int n + int ps) mod 65535 = int ((n + ps) mod 65535)" by (simp add: zmod_int)
      then show ?thesis by simp
    qed
    have c0: "(int (word_sum c) + int ps) mod 65535 = 0"
      using assms(6) ip_checksum_valid [OF assms(3-5), of 6] iff [of "word_sum c"] by (simp add: ps_def)
    have "ip_checksum c' src dest 6 = 0 \<longleftrightarrow> (int (word_sum c') + int ps) mod 65535 = 0"
      using ip_checksum_valid [OF l' assms(4,5), of 6] iff [of "word_sum c'"] by (simp add: ps_def c'(2))
    also have "(int (word_sum c') + int ps) mod 65535 = (int (word_sum c) - 255 * ?S + int ps) mod 65535"
      using c'(5) by (intro mod_add_cong) simp_all
    also have "\<dots> = (int (word_sum c) + int ps - 255 * ?S) mod 65535"
      by (intro arg_cong [of _ _ "\<lambda>k. k mod 65535"]) simp
    also have "\<dots> = (- (255 * ?S)) mod 65535" using c0 by (metis diff_0 mod_diff_left_eq)
    also have "\<dots> = 0 \<longleftrightarrow> 65535 dvd 255 * ?S" by (simp add: mod_eq_0_iff_dvd)
    also have "\<dots> \<longleftrightarrow> 255 * 257 dvd 255 * ?S" by simp
    also have "\<dots> \<longleftrightarrow> 257 dvd ?S" unfolding dvd_mult_cancel_left by simp
    finally have "ip_checksum c' src dest 6 = 0 \<longleftrightarrow> 257 dvd ?S" .
    with run write_content_rep [OF assms(1) c'(2)] c'(2-4) show ?thesis
      by (intro exI conjI) assumption+
  qed
qed

text \<open>
  C20: The TCP segment of a SYN packet. Every announced segment size above the maximum is lowered to
  it and the others stay, nothing but those announcements and the checksum changes, and where the
  announcements are at even offsets a checksum that was right stays right: the receiver that
  computes \<open>ip_checksum\<close> over the pseudo header and the segment accepts the changed segment as it
  would have accepted the original.
\<close>
theorem mss_fixup_checksum:
  assumes "buf_rep buf h c r" "20 \<le> length c" "length c < 65536" "length src \<le> 16" "length dest \<le> 16"
    and "\<forall>p \<in> set (mss_announcements c). even p" "ip_checksum c src dest 6 = 0"
  shows "\<exists>buf' c'. mss_fixup_dowork buf maxmss = Some buf' \<and> buf_rep buf' h c' r \<and> length c' = length c \<and>
    ip_checksum c' src dest 6 = 0 \<and>
    (\<forall>p \<in> set (mss_announcements c). net16_at c' (p + 2) = map_option (\<lambda>v. min v (uint maxmss)) (net16_at c (p + 2))) \<and>
    (\<forall>j. j \<notin> {16, 17} \<and> (\<forall>p \<in> set (mss_announcements c). j \<noteq> p + 2 \<and> j \<noteq> p + 3) \<longrightarrow> byte_at c' j = byte_at c j)"
proof -
  have none: "filter odd (mss_announcements c) = []" using assms(6) by (simp add: filter_empty_conv)
  from mss_fixup_segment [OF assms(1-5,7), of maxmss, unfolded none] show ?thesis by simp
qed

text \<open>A SYN segment that announces 1460 bytes, and its checksum.\<close>

definition example_syn :: "u8 list" where
  "example_syn = [0x04, 0xd2, 0x00, 0x50, 0, 0, 0, 1, 0, 0, 0, 0, 0x60, 0x02, 0xff, 0xff, 0x7e, 0xf1, 0, 0, 2, 4, 0x05, 0xb4]"

lemmas option_consts = OPENVPN_TCPOPT_EOL_def OPENVPN_TCPOPT_NOP_def OPENVPN_TCPOPT_MAXSEG_def OPENVPN_TCPOLEN_MAXSEG_def

lemma example_syn_announcements: "mss_announcements example_syn = [20]"
proof -
  have d: "byte_at example_syn 12 = Some 96" by (simp add: byte_at_def example_syn_def)
  have h: "OPENVPN_TCPH_GET_DOFF 96 = 24" by (simp add: OPENVPN_TCPH_GET_DOFF_def)
  have l: "length example_syn = 24" by (simp add: example_syn_def)
  have b: "byte_at example_syn 20 = Some 2" "byte_at example_syn 21 = Some 4" by (simp_all add: byte_at_def example_syn_def)
  have "mss_positions 4 20 example_syn = [20]"
    by (subst mss_positions.simps, simp add: b option_consts, subst mss_positions.simps, simp)
  then show ?thesis by (simp add: mss_announcements_def d h l SIZEOF_TCPHDR_def)
qed

lemma mss_fixup_checksum_witness:
  "\<exists>buf' c'. mss_fixup_dowork \<lparr>b_capacity = 24, b_offset = 0, b_len = 24, b_data = Some example_syn\<rparr> 1360 = Some buf' \<and>
    buf_rep buf' 0 c' 0 \<and> length c' = length example_syn \<and>
    ip_checksum c' [10, 8, 0, 1] [10, 8, 0, 2] 6 = 0 \<and>
    (\<forall>p \<in> set (mss_announcements example_syn). net16_at c' (p + 2) = map_option (\<lambda>v. min v (uint (1360 :: u16))) (net16_at example_syn (p + 2))) \<and>
    (\<forall>j. j \<notin> {16, 17} \<and> (\<forall>p \<in> set (mss_announcements example_syn). j \<noteq> p + 2 \<and> j \<noteq> p + 3) \<longrightarrow> byte_at c' j = byte_at example_syn j)"
proof (rule mss_fixup_checksum)
  show "buf_rep \<lparr>b_capacity = 24, b_offset = 0, b_len = 24, b_data = Some example_syn\<rparr> 0 example_syn 0"
    by (simp add: buf_rep_iff example_syn_def)
  show "\<forall>p \<in> set (mss_announcements example_syn). even p" by (simp add: example_syn_announcements)
  show "ip_checksum example_syn [10, 8, 0, 1] [10, 8, 0, 2] 6 = 0"
    by (subst ip_checksum_valid) (simp_all add: example_syn_def pseudo_sum_def)
qed (simp_all add: example_syn_def)

text \<open>
  C39: the checksum of a segment with an MSS option at an odd offset, such as behind a single \<open>NOP\<close>.
  Its two bytes belong to two words of the sum, but the code adjusts the checksum as if they were
  one: the checksum that was right is right afterwards exactly if what the announcements at odd
  offsets are lowered by, added up, is a multiple of 257.
\<close>

theorem mss_fixup_odd_option:
  assumes "buf_rep buf h c r" "20 \<le> length c" "length c < 65536" "length src \<le> 16" "length dest \<le> 16"
    and "ip_checksum c src dest 6 = 0"
  shows "\<exists>buf' c'. mss_fixup_dowork buf maxmss = Some buf' \<and> buf_rep buf' h c' r \<and>
    (ip_checksum c' src dest 6 = 0 \<longleftrightarrow> 257 dvd (\<Sum>p\<leftarrow>filter odd (mss_announcements c). mss_lowered maxmss c p))"
  using mss_fixup_segment [OF assms, of maxmss] by (elim exE conjE, intro exI conjI) assumption+

text \<open>A SYN whose MSS option of 1460 bytes follows one \<open>NOP\<close>, and its checksum.\<close>

definition odd_syn :: "u8 list" where
  "odd_syn = [0x04, 0xd2, 0x00, 0x50, 0, 0, 0, 1, 0, 0, 0, 0, 0x70, 0x02, 0xff, 0xff, 0xbd, 0x9d, 0, 0, 1, 2, 4, 0x05, 0xb4, 0, 0, 0]"

lemma odd_syn_announcements: "mss_announcements odd_syn = [21]"
proof -
  have d: "byte_at odd_syn 12 = Some 112" by (simp add: byte_at_def odd_syn_def)
  have h: "OPENVPN_TCPH_GET_DOFF 112 = 28" by (simp add: OPENVPN_TCPH_GET_DOFF_def)
  have l: "length odd_syn = 28" by (simp add: odd_syn_def)
  have b: "byte_at odd_syn 20 = Some 1" "byte_at odd_syn 21 = Some 2" "byte_at odd_syn 22 = Some 4"
    "byte_at odd_syn 25 = Some 0" "byte_at odd_syn 26 = Some 0"
    by (simp_all add: byte_at_def odd_syn_def)
  have "mss_positions 3 25 odd_syn = []" by (subst mss_positions.simps) (simp add: b option_consts)
  then have "mss_positions 7 21 odd_syn = [21]" by (subst mss_positions.simps) (simp add: b option_consts)
  then have "mss_positions 8 20 odd_syn = [21]" by (subst mss_positions.simps) (simp add: b option_consts)
  then show ?thesis by (simp add: mss_announcements_def d h l SIZEOF_TCPHDR_def)
qed

text \<open>Lowered by 100 to 1360, its checksum is wrong; lowered by 257 to 1203, it is right.\<close>

lemma mss_fixup_odd_option_witness:
  "(\<exists>buf' c'. mss_fixup_dowork \<lparr>b_capacity = 28, b_offset = 0, b_len = 28, b_data = Some odd_syn\<rparr> 1360 = Some buf' \<and>
     buf_rep buf' 0 c' 0 \<and> ip_checksum c' [10, 8, 0, 1] [10, 8, 0, 2] 6 \<noteq> 0) \<and>
   (\<exists>buf' c'. mss_fixup_dowork \<lparr>b_capacity = 28, b_offset = 0, b_len = 28, b_data = Some odd_syn\<rparr> 1203 = Some buf' \<and>
     buf_rep buf' 0 c' 0 \<and> ip_checksum c' [10, 8, 0, 1] [10, 8, 0, 2] 6 = 0)"
proof -
  have rep: "buf_rep \<lparr>b_capacity = 28, b_offset = 0, b_len = 28, b_data = Some odd_syn\<rparr> 0 odd_syn 0"
    and len: "20 \<le> length odd_syn" "length odd_syn < 65536" by (simp_all add: buf_rep_iff odd_syn_def)
  have ok: "ip_checksum odd_syn [10, 8, 0, 1] [10, 8, 0, 2] 6 = 0"
    by (subst ip_checksum_valid) (simp_all add: odd_syn_def pseudo_sum_def)
  have "net16_at odd_syn 23 = Some 1460" by (simp add: net16_at_def byte_at_def odd_syn_def)
  then have low: "mss_lowered 1360 odd_syn 21 = 100" "mss_lowered 1203 odd_syn 21 = 257" by (simp_all add: mss_lowered_def)
  note odd = mss_fixup_odd_option [OF rep len _ _ ok]
  show ?thesis using odd [of 1360] odd [of 1203] by (simp add: odd_syn_announcements low)
qed

end
