(* ===== verification/CryptoV1.thy ===== *)
theory CryptoV1
  imports CryptoAead
begin

text \<open>
  The older packet format of crypto.c, \<open>openvpn_encrypt_v1\<close> and \<open>openvpn_decrypt_v1\<close>: an HMAC over
  the IV and the ciphertext of a CBC, OFB or CFB cipher, or over the plain packet where there is no
  cipher.

  Ciphers and HMACs are the crypto library's: a parameter, one function per call of the library, from
  the key that the context holds, the IV given to \<open>cipher_ctx_reset\<close>, and the text.
\<close>

datatype cipher_mode = MODE_CBC | MODE_OFB_CFB | MODE_OTHER

record cipher_lib =
  cl_mode :: "u8 list \<Rightarrow> cipher_mode"
  cl_iv_length :: "u8 list \<Rightarrow> nat"
  cl_block_size :: "u8 list \<Rightarrow> nat"
  cl_enc_update :: "u8 list \<Rightarrow> u8 list \<Rightarrow> u8 list \<Rightarrow> u8 list"
  cl_enc_final :: "u8 list \<Rightarrow> u8 list \<Rightarrow> u8 list \<Rightarrow> u8 list"
  cl_dec_update :: "u8 list \<Rightarrow> u8 list \<Rightarrow> u8 list \<Rightarrow> u8 list option"
  cl_dec_final :: "u8 list \<Rightarrow> u8 list \<Rightarrow> u8 list \<Rightarrow> u8 list option"
  cl_hmac_size :: "u8 list \<Rightarrow> nat"
  cl_hmac :: "u8 list \<Rightarrow> u8 list \<Rightarrow> u8 list"

definition packet_id_write_opt ::
  "int \<Rightarrow> crypto_options \<Rightarrow> buffer \<Rightarrow> bool \<Rightarrow> bool \<Rightarrow> bool \<times> crypto_options \<times> buffer" where
  "packet_id_write_opt now opt buf long_form prepend =
     (case packet_id_write now (pid_send (co_packet_id opt)) buf long_form prepend of
        (ok, send, buf) \<Rightarrow> (ok, opt\<lparr>co_packet_id := (co_packet_id opt)\<lparr>pid_send := send\<rparr>\<rparr>, buf))"

definition packet_id_initialized :: "crypto_options \<Rightarrow> bool" where
  "packet_id_initialized opt = pr_initialized (pid_rec (co_packet_id opt))"

section \<open>Encryption\<close>

text \<open>
  The IV: random bytes, or the packet id. \<open>None\<close> in the first component is \<open>goto err\<close>.
\<close>

definition v1_iv ::
  "cipher_lib \<Rightarrow> int \<Rightarrow> u8 list \<Rightarrow> u8 list \<Rightarrow> buffer \<Rightarrow> crypto_options \<Rightarrow> (u8 list option \<times> crypto_options \<times> buffer) option" where
  "v1_iv lib now prng key buf opt =
     (let iv_size = cl_iv_length lib key in
      case cl_mode lib key of
        MODE_CBC \<Rightarrow>
          (if packet_id_initialized opt then
             (case packet_id_write_opt now opt buf (co_long_form opt) True of
                (ok, opt, buf) \<Rightarrow> Some (if ok then Some (take iv_size prng) else None, opt, buf))
           else Some (Some (take iv_size prng), opt, buf))
      | MODE_OFB_CFB \<Rightarrow> do {
          _ \<leftarrow> ASSERT (packet_id_initialized opt);
          let b = \<lparr>b_capacity = int iv_size, b_offset = 0, b_len = 0, b_data = Some (replicate iv_size 0)\<rparr>;
          let (ok, opt, b) = packet_id_write_opt now opt b True False;
          _ \<leftarrow> ASSERT ok;
          iv \<leftarrow> b_data b;
          Some (Some iv, opt, buf) }
      | MODE_OTHER \<Rightarrow> None)"

text \<open>The HMAC over the bytes from \<open>hmac_start\<close> to the end of \<open>work\<close>, written at \<open>mac_out\<close>.\<close>

definition v1_hmac :: "cipher_lib \<Rightarrow> u8 list option \<Rightarrow> int \<Rightarrow> int \<Rightarrow> buffer \<Rightarrow> buffer option" where
  "v1_hmac lib hmac hmac_start mac_out work =
     (case hmac of
        None \<Rightarrow> Some work
      | Some hkey \<Rightarrow> do {
          e \<leftarrow> buf_bend work;
          Some (mem_write work mac_out (cl_hmac lib hkey (mem_read work hmac_start (e - hmac_start)))) })"

definition v1_encrypt_cipher ::
  "cipher_lib \<Rightarrow> int \<Rightarrow> u8 list \<Rightarrow> u8 list \<Rightarrow> buffer \<Rightarrow> buffer \<Rightarrow> crypto_options \<Rightarrow> (buffer \<times> crypto_options) option" where
  "v1_encrypt_cipher lib now prng key buf work opt = do {
     let hmac = kc_hmac (co_encrypt opt);
     (mac_out, work) \<leftarrow> (case hmac of
         None \<Rightarrow> Some (0, work)
       | Some hkey \<Rightarrow> (case buf_write_alloc work (cl_hmac_size lib hkey) of (p, w) \<Rightarrow> map_option (\<lambda>p. (p, w)) p));
     hmac_start \<leftarrow> buf_bend work;
     (iv, opt, buf) \<leftarrow> v1_iv lib now prng key buf opt;
     (case iv of
        None \<Rightarrow> Some (buf\<lparr>b_len := 0\<rparr>, opt)
      | Some iv \<Rightarrow> do {
          let (ok, work) = buf_write work iv;
          _ \<leftarrow> ASSERT ok;
          if \<not> buf_safe work (nat (b_len buf) + cl_block_size lib key) then Some (buf\<lparr>b_len := 0\<rparr>, opt)
          else do {
            work \<leftarrow> lib_output work (cl_enc_update lib key iv (buf_content buf));
            let fin = cl_enc_final lib key iv (buf_content buf);
            work \<leftarrow> lib_output work fin;
            _ \<leftarrow> ASSERT (cl_mode lib key \<noteq> MODE_CBC \<or> length fin = length iv);
            work \<leftarrow> v1_hmac lib hmac hmac_start mac_out work;
            Some (work, opt) } }) }"

definition v1_encrypt_plain ::
  "cipher_lib \<Rightarrow> int \<Rightarrow> buffer \<Rightarrow> buffer \<Rightarrow> crypto_options \<Rightarrow> (buffer \<times> crypto_options) option" where
  "v1_encrypt_plain lib now buf work opt = do {
     let hmac = kc_hmac (co_encrypt opt);
     let (ok, opt, buf) = (if packet_id_initialized opt then packet_id_write_opt now opt buf (co_long_form opt) True
                           else (True, opt, buf));
     if \<not> ok then Some (buf\<lparr>b_len := 0\<rparr>, opt)
     else do {
       hmac_start \<leftarrow> buf_bptr buf;
       (mac_out, buf) \<leftarrow> (case hmac of
           None \<Rightarrow> Some (0, buf)
         | Some hkey \<Rightarrow> (case buf_prepend buf (int (cl_hmac_size lib hkey)) of (p, b) \<Rightarrow> map_option (\<lambda>p. (p, b)) p));
       let buf = (if buf_len work \<noteq> 0 then snd (buf_write_prepend buf (buf_content work)) else buf);
       buf \<leftarrow> v1_hmac lib hmac hmac_start mac_out buf;
       Some (buf, opt) } }"

text \<open>\<open>prng\<close> holds what \<open>prng_bytes\<close> yields.\<close>

definition openvpn_encrypt_v1 ::
  "cipher_lib \<Rightarrow> int \<Rightarrow> u8 list \<Rightarrow> buffer \<Rightarrow> buffer \<Rightarrow> crypto_options \<Rightarrow> (buffer \<times> crypto_options) option" where
  "openvpn_encrypt_v1 lib now prng buf work opt =
     (if b_len buf > 0 then
        (case kc_cipher (co_encrypt opt) of
           Some key \<Rightarrow> v1_encrypt_cipher lib now prng key buf work opt
         | None \<Rightarrow> v1_encrypt_plain lib now buf work opt)
      else Some (buf, opt))"

section \<open>Decryption\<close>

text \<open>The packet without its HMAC; \<open>None\<close> in the first component where it is dropped.\<close>

definition v1_verify :: "cipher_lib \<Rightarrow> u8 list option \<Rightarrow> buffer \<Rightarrow> (bool \<times> buffer) option" where
  "v1_verify lib hmac buf =
     (case hmac of
        None \<Rightarrow> Some (True, buf)
      | Some hkey \<Rightarrow>
          (let hmac_len = int (cl_hmac_size lib hkey) in
           if b_len buf < hmac_len then Some (False, buf)
           else if cl_hmac lib hkey (mem_read buf (b_offset buf + hmac_len) (buf_len buf - hmac_len))
                     \<noteq> mem_read buf (b_offset buf) hmac_len then Some (False, buf)
           else do {
             let (ok, buf) = buf_advance buf hmac_len;
             _ \<leftarrow> ASSERT ok;
             Some (True, buf) }))"

text \<open>The packet id of a decrypted packet: \<open>Inl ()\<close> is an error, \<open>Inr None\<close> that there is none.\<close>

definition v1_read_pid ::
  "cipher_lib \<Rightarrow> u8 list \<Rightarrow> u8 list \<Rightarrow> crypto_options \<Rightarrow> buffer \<Rightarrow> ((unit + packet_id_net option) \<times> buffer) option" where
  "v1_read_pid lib key iv opt work =
     (case cl_mode lib key of
        MODE_CBC \<Rightarrow>
          (if packet_id_initialized opt then
             (case packet_id_read work (co_long_form opt) of
                (False, _, work) \<Rightarrow> Some (Inl (), work)
              | (True, pin, work) \<Rightarrow> Some (Inr (Some pin), work))
           else Some (Inr None, work))
      | MODE_OFB_CFB \<Rightarrow> do {
          _ \<leftarrow> ASSERT (packet_id_initialized opt);
          let b = \<lparr>b_capacity = int (length iv), b_offset = 0, b_len = int (length iv), b_data = Some iv\<rparr>;
          Some (case packet_id_read b True of
              (False, _, _) \<Rightarrow> (Inl (), work)
            | (True, pin, _) \<Rightarrow> (Inr (Some pin), work)) }
      | MODE_OTHER \<Rightarrow> None)"

definition v1_decrypt_cipher ::
  "cipher_lib \<Rightarrow> int \<Rightarrow> u8 list \<Rightarrow> buffer \<Rightarrow> buffer \<Rightarrow> crypto_options \<Rightarrow>
   ((unit + packet_id_net option) \<times> buffer \<times> buffer) option" where
  "v1_decrypt_cipher lib headroom key buf work opt = do {
     let iv_size = int (cl_iv_length lib key);
     let (ok, work) = buf_init work headroom;
     _ \<leftarrow> ASSERT ok;
     if b_len buf < iv_size then Some (Inl (), buf, work)
     else do {
       let iv = mem_read buf (b_offset buf) iv_size;
       let (ok, buf) = buf_advance buf iv_size;
       _ \<leftarrow> ASSERT ok;
       if b_len buf < 1 then Some (Inl (), buf, work)
       else if \<not> buf_safe work (nat (b_len buf) + cl_block_size lib key) then Some (Inl (), buf, work)
       else (case cl_dec_update lib key iv (buf_content buf) of
           None \<Rightarrow> Some (Inl (), buf, work)
         | Some out \<Rightarrow> do {
             work \<leftarrow> lib_output work out;
             (case cl_dec_final lib key iv (buf_content buf) of
                None \<Rightarrow> Some (Inl (), buf, work)
              | Some fin \<Rightarrow> do {
                  work \<leftarrow> lib_output work fin;
                  (pin, work) \<leftarrow> v1_read_pid lib key iv opt work;
                  Some (pin, buf, work) }) }) } }"

definition v1_decrypt_plain ::
  "buffer \<Rightarrow> crypto_options \<Rightarrow> (unit + packet_id_net option) \<times> buffer" where
  "v1_decrypt_plain buf opt =
     (if packet_id_initialized opt then
        (case packet_id_read buf (co_long_form opt) of
           (False, _, work) \<Rightarrow> (Inl (), work)
         | (True, pin, work) \<Rightarrow> (Inr (if co_ignore_packet_id opt then None else Some pin), work))
      else (Inr None, buf))"

definition openvpn_decrypt_v1 ::
  "hmac_fun \<Rightarrow> cipher_lib \<Rightarrow> int \<Rightarrow> int \<Rightarrow> buffer \<Rightarrow> buffer \<Rightarrow> crypto_options \<Rightarrow> (bool \<times> buffer \<times> crypto_options) option" where
  "openvpn_decrypt_v1 hm lib now headroom buf work opt =
     (if b_len buf > 0 then do {
        (good, buf) \<leftarrow> v1_verify lib (kc_hmac (co_decrypt opt)) buf;
        if \<not> good then error_exit buf opt
        else do {
          (pin, buf, work) \<leftarrow> (case kc_cipher (co_decrypt opt) of
              Some key \<Rightarrow> v1_decrypt_cipher lib headroom key buf work opt
            | None \<Rightarrow> (case v1_decrypt_plain buf opt of (pin, work) \<Rightarrow> Some (pin, buf, work)));
          (case pin of
             Inl _ \<Rightarrow> error_exit buf opt
           | Inr None \<Rightarrow> Some (True, work, opt)
           | Inr (Some pin) \<Rightarrow> do {
               (good, opt) \<leftarrow> crypto_check_replay hm now opt pin 0;
               if good then Some (True, work, opt) else error_exit buf opt }) } }
      else Some (True, buf, opt))"

section \<open>The choice of the format\<close>

text \<open>
  \<open>aead\<close> says whether the library's cipher of a key is an AEAD cipher.
\<close>

definition openvpn_encrypt ::
  "hmac_fun \<Rightarrow> (u8 list \<Rightarrow> bool) \<Rightarrow> aead_lib \<Rightarrow> cipher_lib \<Rightarrow> int \<Rightarrow> u8 list \<Rightarrow> buffer \<Rightarrow> buffer \<Rightarrow> crypto_options \<Rightarrow>
   (buffer \<times> crypto_options) option" where
  "openvpn_encrypt hm aead alib clib now prng buf work opt =
     (if b_len buf > 0 then
        (if (case kc_cipher (co_encrypt opt) of None \<Rightarrow> False | Some key \<Rightarrow> aead key)
         then openvpn_encrypt_aead hm alib now buf work opt
         else openvpn_encrypt_v1 clib now prng buf work opt)
      else Some (buf, opt))"

definition openvpn_decrypt ::
  "hmac_fun \<Rightarrow> (u8 list \<Rightarrow> bool) \<Rightarrow> aead_lib \<Rightarrow> cipher_lib \<Rightarrow> int \<Rightarrow> int \<Rightarrow> buffer \<Rightarrow> buffer \<Rightarrow> int \<Rightarrow> crypto_options \<Rightarrow>
   (bool \<times> buffer \<times> crypto_options) option" where
  "openvpn_decrypt hm aead alib clib now headroom buf work ad_start opt =
     (if b_len buf > 0 then
        (if (case kc_cipher (co_decrypt opt) of None \<Rightarrow> False | Some key \<Rightarrow> aead key)
         then openvpn_decrypt_aead hm alib now headroom buf work ad_start opt
         else openvpn_decrypt_v1 hm clib now headroom buf work opt)
      else Some (True, buf, opt))"

end
