(* ===== verification/TlsCrypt.thy ===== *)
theory TlsCrypt
  imports CryptoV1
begin

text \<open>
  tls_crypt.c: the encryption of control channel packets with a pre-shared key. The HMAC of the
  header, the packet id and the plaintext is both the authentication tag and (its first 16 bytes)
  the IV of the CTR mode encryption. For tls-crypt-v2 the same construction wraps the client's
  key under a key of the server.
\<close>

definition TLS_CRYPT_TAG_SIZE :: nat where "TLS_CRYPT_TAG_SIZE = 32"
definition TLS_CRYPT_PID_SIZE :: nat where "TLS_CRYPT_PID_SIZE = 8"
definition TLS_CRYPT_BLOCK_SIZE :: nat where "TLS_CRYPT_BLOCK_SIZE = 16"
definition TLS_CRYPT_OFF_PID :: nat where "TLS_CRYPT_OFF_PID = 1 + 8"
definition TLS_CRYPT_OFF_TAG :: nat where "TLS_CRYPT_OFF_TAG = TLS_CRYPT_OFF_PID + TLS_CRYPT_PID_SIZE"
definition TLS_CRYPT_OFF_CT :: nat where "TLS_CRYPT_OFF_CT = TLS_CRYPT_OFF_TAG + TLS_CRYPT_TAG_SIZE"

definition tls_crypt_buf_overhead :: int where
  "tls_crypt_buf_overhead = packet_id_size True + int TLS_CRYPT_TAG_SIZE + int TLS_CRYPT_BLOCK_SIZE"

text \<open>The library writes the last bytes of a text at \<open>BPTR(b)\<close>.\<close>

definition lib_output_front :: "buffer \<Rightarrow> u8 list \<Rightarrow> buffer option" where
  "lib_output_front b bs = do {
     p \<leftarrow> buf_bptr b;
     _ \<leftarrow> ASSERT (p + int (length bs) \<le> b_capacity b);
     let (ok, b) = buf_inc_len (mem_write b p bs) (int (length bs));
     _ \<leftarrow> ASSERT ok;
     Some b }"

section \<open>Wrapping and unwrapping packets\<close>

text \<open>\<open>dst\<close> holds the header, \<open>src\<close> the plaintext; the result is true or \<open>dst\<close> is cleared.\<close>

definition tls_crypt_wrap ::
  "cipher_lib \<Rightarrow> int \<Rightarrow> buffer \<Rightarrow> buffer \<Rightarrow> crypto_options \<Rightarrow> (bool \<times> buffer \<times> crypto_options) option" where
  "tls_crypt_wrap lib now src dst opt = do {
     key \<leftarrow> kc_cipher (co_encrypt opt);
     hkey \<leftarrow> kc_hmac (co_encrypt opt);
     _ \<leftarrow> ASSERT (packet_id_initialized opt);
     _ \<leftarrow> ASSERT (cl_hmac_size lib hkey = 32);
     let (ok, opt, dst) = packet_id_write_opt now opt dst True False;
     if \<not> ok then Some (False, dst\<lparr>b_len := 0\<rparr>, opt)
     else if \<not> buf_safe dst (nat (buf_len src) + TLS_CRYPT_BLOCK_SIZE + TLS_CRYPT_TAG_SIZE)
     then Some (False, dst\<lparr>b_len := 0\<rparr>, opt)
     else do {
       let tag = cl_hmac lib hkey (buf_content dst @ buf_content src);
       (p, dst) \<leftarrow> (case buf_write_alloc dst TLS_CRYPT_TAG_SIZE of (p, d) \<Rightarrow> map_option (\<lambda>p. (p, d)) p);
       let dst = mem_write dst p tag;
       let iv = take 16 tag;
       dst \<leftarrow> lib_output dst (cl_enc_update lib key iv (buf_content src));
       dst \<leftarrow> lib_output_front dst (cl_enc_final lib key iv (buf_content src));
       Some (True, dst, opt) } }"

definition unwrap_error :: "buffer \<Rightarrow> crypto_options \<Rightarrow> (bool \<times> buffer \<times> crypto_options) option" where
  "unwrap_error dst opt = Some (False, dst\<lparr>b_len := 0\<rparr>, opt)"

definition tls_crypt_unwrap ::
  "hmac_fun \<Rightarrow> cipher_lib \<Rightarrow> int \<Rightarrow> buffer \<Rightarrow> buffer \<Rightarrow> crypto_options \<Rightarrow> (bool \<times> buffer \<times> crypto_options) option" where
  "tls_crypt_unwrap hm lib now src dst opt = do {
     _ \<leftarrow> ASSERT (b_len src > 0);
     key \<leftarrow> kc_cipher (co_decrypt opt);
     _ \<leftarrow> ASSERT (packet_id_initialized opt \<or> co_ignore_packet_id opt);
     if buf_len src < int TLS_CRYPT_OFF_CT then unwrap_error dst opt
     else if \<not> buf_safe dst (nat (buf_len src) - TLS_CRYPT_OFF_CT + TLS_CRYPT_BLOCK_SIZE) then unwrap_error dst opt
     else do {
       let packet = buf_content src;
       let tag = take TLS_CRYPT_TAG_SIZE (drop TLS_CRYPT_OFF_TAG packet);
       let ct = drop TLS_CRYPT_OFF_CT packet;
       (case cl_dec_update lib key (take 16 tag) ct of
          None \<Rightarrow> unwrap_error dst opt
        | Some out \<Rightarrow> do {
            p \<leftarrow> buf_bptr dst;
            let (ok, dst) = buf_inc_len (mem_write dst p out) (int (length out));
            _ \<leftarrow> ASSERT ok;
            (case cl_dec_final lib key (take 16 tag) ct of
               None \<Rightarrow> unwrap_error dst opt
             | Some fin \<Rightarrow> do {
                 dst \<leftarrow> lib_output_front dst fin;
                 hkey \<leftarrow> kc_hmac (co_decrypt opt);
                 if take TLS_CRYPT_TAG_SIZE (cl_hmac lib hkey (take TLS_CRYPT_OFF_TAG packet @ buf_content dst)) \<noteq> tag
                 then unwrap_error dst opt
                 else if co_ignore_packet_id opt then Some (True, dst, opt)
                 else do {
                   let (ok, tmp) = buf_advance src (int TLS_CRYPT_OFF_PID);
                   _ \<leftarrow> ASSERT ok;
                   let (ok, pin, tmp) = packet_id_read tmp True;
                   _ \<leftarrow> ASSERT ok;
                   (good, opt) \<leftarrow> crypto_check_replay hm now opt pin 0;
                   if good then Some (True, dst, opt) else unwrap_error dst opt } }) }) } }"

section \<open>Wrapped client keys\<close>

definition TLS_CRYPT_V2_MAX_WKC_LEN :: nat where "TLS_CRYPT_V2_MAX_WKC_LEN = 1024"
definition TLS_CRYPT_V2_CLIENT_KEY_LEN :: nat where "TLS_CRYPT_V2_CLIENT_KEY_LEN = 256"
definition TLS_CRYPT_V2_TAG_SIZE :: nat where "TLS_CRYPT_V2_TAG_SIZE = TLS_CRYPT_TAG_SIZE"
definition TLS_CRYPT_V2_MAX_METADATA_LEN :: nat where
  "TLS_CRYPT_V2_MAX_METADATA_LEN = TLS_CRYPT_V2_MAX_WKC_LEN - (TLS_CRYPT_V2_CLIENT_KEY_LEN + TLS_CRYPT_V2_TAG_SIZE + 2)"

text \<open>\<open>keys\<close> are the 256 bytes of \<open>src_key->keys\<close>; a context of the library that is updated twice
  gives the ciphertext of the whole in the end.\<close>

definition tls_crypt_v2_wrap_client_key ::
  "cipher_lib \<Rightarrow> buffer \<Rightarrow> u8 list \<Rightarrow> buffer \<Rightarrow> key_ctx \<Rightarrow> (bool \<times> buffer) option" where
  "tls_crypt_v2_wrap_client_key lib wkc keys src_metadata server_key = do {
     key \<leftarrow> kc_cipher server_key;
     hkey \<leftarrow> kc_hmac server_key;
     work \<leftarrow> alloc_buf (int (TLS_CRYPT_V2_MAX_WKC_LEN + cl_block_size lib key));
     (case buf_write_alloc work TLS_CRYPT_TAG_SIZE of
        (None, _) \<Rightarrow> Some (False, wkc)
      | (Some p, work) \<Rightarrow> do {
          let metadata = buf_content src_metadata;
          let net_len = be16 (word_of_nat (length keys + length metadata + TLS_CRYPT_V2_TAG_SIZE + 2));
          let tag = cl_hmac lib hkey (net_len @ keys @ metadata);
          let work = mem_write work p tag;
          let iv = take 16 tag;
          if buf_forward_capacity work < int (length keys + length metadata + 2 + cl_block_size lib key)
          then Some (False, wkc)
          else do {
            work \<leftarrow> lib_output work (cl_enc_update lib key iv (keys @ metadata));
            work \<leftarrow> lib_output work (cl_enc_final lib key iv (keys @ metadata));
            let (ok, work) = buf_write work net_len;
            _ \<leftarrow> ASSERT ok;
            Some (buf_copy wkc work) } }) }"

text \<open>The client key (\<open>None\<close>: cleared) and the metadata.\<close>

definition tls_crypt_v2_unwrap_client_key ::
  "cipher_lib \<Rightarrow> buffer \<Rightarrow> buffer \<Rightarrow> key_ctx \<Rightarrow> (u8 list option \<times> buffer) option" where
  "tls_crypt_v2_unwrap_client_key lib metadata wrapped server_key = do {
     let n = nat (buf_len wrapped);
     let packet = buf_content wrapped;
     if int TLS_CRYPT_V2_MAX_WKC_LEN < buf_len wrapped then Some (None, metadata)
     else if n < 2 then Some (None, metadata)
     else if uint (of_be16 (drop (n - 2) packet)) \<noteq> int n then Some (None, metadata)
     else if n - 2 < TLS_CRYPT_TAG_SIZE then Some (None, metadata)
     else do {
       let net_len = drop (n - 2) packet;
       let tag = take TLS_CRYPT_TAG_SIZE packet;
       let ct = drop TLS_CRYPT_TAG_SIZE (take (n - 2) packet);
       key \<leftarrow> kc_cipher server_key;
       hkey \<leftarrow> kc_hmac server_key;
       (case cl_dec_update lib key (take 16 tag) ct of
          None \<Rightarrow> Some (None, metadata)
        | Some out \<Rightarrow> do {
            let plaintext = \<lparr>b_capacity = int TLS_CRYPT_V2_MAX_WKC_LEN, b_offset = 0, b_len = 0,
                             b_data = Some (replicate TLS_CRYPT_V2_MAX_WKC_LEN 0)\<rparr>;
            plaintext \<leftarrow> lib_output plaintext out;
            (case cl_dec_final lib key (take 16 tag) ct of
               None \<Rightarrow> Some (None, metadata)
             | Some fin \<Rightarrow> do {
                 plaintext \<leftarrow> lib_output plaintext fin;
                 if take TLS_CRYPT_TAG_SIZE (cl_hmac lib hkey (net_len @ buf_content plaintext)) \<noteq> tag then Some (None, metadata)
                 else if buf_len plaintext < int TLS_CRYPT_V2_CLIENT_KEY_LEN then Some (None, metadata)
                 else do {
                   let client_key = take TLS_CRYPT_V2_CLIENT_KEY_LEN (buf_content plaintext);
                   let (ok, plaintext) = buf_advance plaintext (int TLS_CRYPT_V2_CLIENT_KEY_LEN);
                   _ \<leftarrow> ASSERT ok;
                   (case buf_copy metadata plaintext of
                      (True, metadata) \<Rightarrow> Some (Some client_key, metadata)
                    | (False, metadata) \<Rightarrow> Some (None, metadata)) } }) }) } }"

end
