(* ===== verification/TlsCryptProps.thy ===== *)
theory TlsCryptProps
  imports TlsCrypt AeadChannel PacketIdProps
begin

text \<open>
  Control channel packets under tls-crypt: what was wrapped is unwrapped, and what is accepted
  carries the right tag.
\<close>

section \<open>The library\<close>

text \<open>
  A cipher in CTR mode gives all output in the update, of the length of the input, and decryption
  undoes encryption; the HMAC is 32 bytes long.
\<close>

definition ctr_ok :: "cipher_lib \<Rightarrow> bool" where
  "ctr_ok lib \<longleftrightarrow>
     (\<forall>key iv pt. cl_enc_final lib key iv pt = [] \<and> length (cl_enc_update lib key iv pt) = length pt \<and>
        cl_dec_update lib key iv (cl_enc_update lib key iv pt) = Some pt) \<and>
     (\<forall>key iv ct fin. cl_dec_final lib key iv ct = Some fin \<longrightarrow> fin = []) \<and>
     (\<forall>key iv pt. cl_dec_final lib key iv (cl_enc_update lib key iv pt) = Some []) \<and>
     (\<forall>hkey m. cl_hmac_size lib hkey = 32 \<and> length (cl_hmac lib hkey m) = 32)"

lemma lib_output_front_Nil:
  assumes "buf_rep b h c r"
  shows "lib_output_front b [] = Some b"
proof -
  obtain m where m: "b_data b = Some m" "b_offset b = int h" "b_len b = int (length c)" "b_capacity b = int (h + length c + r)"
    using assms by (auto simp: buf_rep_iff)
  then show ?thesis
    by (simp add: lib_output_front_def buf_bptr_def buf_valid_def mem_write_def buf_inc_len_def buf_safe_bidir_def
        buf_size_valid_signed_def BUF_SIZE_MAX_def Let_def)
qed

lemma write_front_rep:
  assumes "buf_rep b h [] r"
  shows "buf_inc_len (mem_write b (int h) bs) (int (length bs)) = (True, b') \<Longrightarrow> buf_rep b' h bs (r - length bs)"
    "length bs \<le> r \<Longrightarrow> h + r < 1000000 \<Longrightarrow> \<exists>b'. buf_inc_len (mem_write b (int h) bs) (int (length bs)) = (True, b')"
    "buf_bptr b = Some (int h)"
proof -
  obtain m where m: "b_data b = Some m" "length m = h + r" "b_offset b = int h" "b_len b = 0" "b_capacity b = int (h + r)"
    using assms by (auto simp: buf_rep_iff)
  have safe: "buf_safe_bidir (mem_write b (int h) bs) (int (length bs)) \<longleftrightarrow> int (length bs) < BUF_SIZE_MAX \<and> length bs \<le> r"
    using m by (auto simp: buf_safe_bidir_def buf_valid_def mem_write_def buf_size_valid_signed_def BUF_SIZE_MAX_def Let_def)
  show "buf_inc_len (mem_write b (int h) bs) (int (length bs)) = (True, b') \<Longrightarrow> buf_rep b' h bs (r - length bs)"
  proof -
    assume "buf_inc_len (mem_write b (int h) bs) (int (length bs)) = (True, b')"
    then have l: "length bs \<le> r" and b': "b' = (mem_write b (int h) bs)\<lparr>b_len := int (length bs)\<rparr>"
      using safe m(4) by (auto simp: buf_inc_len_def mem_write_def split: if_splits)
    show ?thesis
    proof (rule buf_repI)
      show "b_data b' = Some (overlay m h bs)" using m(1) by (simp add: b' mem_write_def)
      show "take (length bs) (drop h (overlay m h bs)) = bs" using m(2) l by (intro take_drop_overlay_same) simp
    qed (use m l in \<open>simp_all add: b' mem_write_def\<close>)
  qed
  show "length bs \<le> r \<Longrightarrow> h + r < 1000000 \<Longrightarrow> \<exists>b'. buf_inc_len (mem_write b (int h) bs) (int (length bs)) = (True, b')"
    using safe by (simp add: buf_inc_len_def BUF_SIZE_MAX_def)
  show "buf_bptr b = Some (int h)" using buf_rep_simps(8) [OF assms] .
qed

section \<open>Wrapping\<close>

text \<open>The packet that is sent for the header \<open>hdr\<close> and the plaintext \<open>pt\<close>.\<close>

definition crypt_packet :: "cipher_lib \<Rightarrow> u8 list \<Rightarrow> u8 list \<Rightarrow> packet_id_send \<Rightarrow> u8 list \<Rightarrow> u8 list \<Rightarrow> u8 list" where
  "crypt_packet lib key hkey p hdr pt =
     (let ad = hdr @ pid_wire p True; tag = cl_hmac lib hkey (ad @ pt) in ad @ tag @ cl_enc_update lib key (take 16 tag) pt)"

lemma length_pid_long [simp]: "length (pid_wire p True) = 8"
  by (simp add: pid_wire_def)

lemma tls_crypt_wrap_packet:
  assumes lib: "ctr_ok lib" and key: "kc_cipher (co_encrypt opt) = Some key" "kc_hmac (co_encrypt opt) = Some hkey"
    and pid: "packet_id_initialized opt" "packet_id_send_update now (pid_send (co_packet_id opt)) True = (True, p)"
    and src: "buf_rep src hs pt rs" and dst: "buf_rep dst ho hdr rd"
    and sz: "length pt + 56 \<le> rd" "ho + length hdr + rd < 1000000"
  shows "\<exists>out r. tls_crypt_wrap lib now src dst opt =
      Some (True, out, opt\<lparr>co_packet_id := (co_packet_id opt)\<lparr>pid_send := p\<rparr>\<rparr>) \<and>
    buf_rep out ho (crypt_packet lib key hkey p hdr pt) r"
proof -
  let ?pid = "pid_wire p True"
  let ?ad = "hdr @ ?pid"
  let ?tag = "cl_hmac lib hkey (?ad @ pt)"
  let ?ct = "cl_enc_update lib key (take 16 ?tag) pt"
  have l: "length ?tag = 32" "length ?ct = length pt" "cl_hmac_size lib hkey = 32" "cl_enc_final lib key (take 16 ?tag) pt = []"
    using lib by (simp_all add: ctr_ok_def)
  obtain d1 where d1: "packet_id_write now (pid_send (co_packet_id opt)) dst True False = (True, p, d1)"
    "buf_rep d1 ho ?ad (rd - 8)"
    using packet_id_write_append [OF dst pid(2)] sz(1) by (auto simp: packet_id_size_def)
  have "\<exists>q d2. buf_write_alloc d1 32 = (Some q, d2) \<and> buf_rep (mem_write d2 q ?tag) ho (?ad @ ?tag) (rd - 8 - 32)"
    by (rule alloc_then_fill [OF d1(2), of ?tag, unfolded l(1)]) (use sz in \<open>simp_all add: BUF_SIZE_MAX_def\<close>)
  then obtain q d2 where d2: "buf_write_alloc d1 32 = (Some q, d2)"
    "buf_rep (mem_write d2 q ?tag) ho (?ad @ ?tag) (rd - 8 - 32)" by blast
  have fit: "length ?ct \<le> rd - 8 - 32" "ho + length (?ad @ ?tag) + (rd - 8 - 32) < 1000000"
    using sz l(1,2) by simp_all
  obtain d3 where d3: "lib_output (mem_write d2 q ?tag) ?ct = Some d3" "buf_rep d3 ho ((?ad @ ?tag) @ ?ct) (rd - 8 - 32 - length ?ct)"
    using lib_output_rep [OF d2(2) fit] by blast
  have safe: "buf_safe d1 (nat (buf_len src) + 16 + 32)"
    using buf_rep_simps(3-7) [OF d1(2)] buf_rep_simps(2) [OF src] sz
    by (simp add: buf_safe_def buf_size_valid_def BUF_SIZE_MAX_def)
  have cont: "buf_content src = pt" "buf_content d1 = ?ad" using buf_rep_simps(1) [OF src] buf_rep_simps(1) [OF d1(2)] by simp_all
  have "tls_crypt_wrap lib now src dst opt = Some (True, d3, opt\<lparr>co_packet_id := (co_packet_id opt)\<lparr>pid_send := p\<rparr>\<rparr>)"
    unfolding tls_crypt_wrap_def packet_id_write_opt_def
    using key pid(1) l d1(1) d2(1) d3(1) safe cont lib_output_front_Nil [OF d3(2)]
    by (simp add: TLS_CRYPT_BLOCK_SIZE_def TLS_CRYPT_TAG_SIZE_def)
  moreover have "crypt_packet lib key hkey p hdr pt = (?ad @ ?tag) @ ?ct" by (simp add: crypt_packet_def Let_def)
  ultimately show ?thesis using d3(2) by (intro exI conjI) (assumption | simp only:)+
qed

section \<open>Unwrapping\<close>

definition tag_of :: "u8 list \<Rightarrow> u8 list" where
  "tag_of packet = take 32 (drop 17 packet)"

lemma tls_crypt_unwrap_run:
  assumes lib: "ctr_ok lib" and key: "kc_cipher (co_decrypt opt) = Some key" "kc_hmac (co_decrypt opt) = Some hkey"
    and pid: "packet_id_initialized opt \<or> co_ignore_packet_id opt"
    and src: "buf_rep src hs packet rs" "49 \<le> length packet" and dst: "buf_rep dst ho [] rd"
    and sz: "length packet \<le> rd + 33" "ho + rd < 1000000"
    and dec: "cl_dec_update lib key (take 16 (tag_of packet)) (drop 49 packet) = Some pt" "length pt \<le> rd"
      "cl_dec_final lib key (take 16 (tag_of packet)) (drop 49 packet) = Some []"
  shows "\<exists>out r. buf_rep out ho pt r \<and> tls_crypt_unwrap hm lib now src dst opt =
    (if cl_hmac lib hkey (take 17 packet @ pt) \<noteq> tag_of packet then Some (False, out\<lparr>b_len := 0\<rparr>, opt)
     else if co_ignore_packet_id opt then Some (True, out, opt)
     else do {
       let (ok, pin, tmp) = packet_id_read (snd (buf_advance src 9)) True;
       _ \<leftarrow> ASSERT ok;
       (good, opt) \<leftarrow> crypto_check_replay hm now opt pin 0;
       if good then Some (True, out, opt) else Some (False, out\<lparr>b_len := 0\<rparr>, opt) })"
proof -
  note s = buf_rep_simps [OF src(1)] and w = write_front_rep [OF dst]
  obtain d1 where d1: "buf_inc_len (mem_write dst (int ho) pt) (int (length pt)) = (True, d1)" "buf_rep d1 ho pt (rd - length pt)"
    using w(1,2) [of pt] dec(2) sz(2) by blast
  have safe: "buf_safe dst (length packet - 49 + 16)"
    using buf_rep_simps(3-7) [OF dst] sz src(2) by (simp add: buf_safe_def buf_size_valid_def BUF_SIZE_MAX_def)
  have pos: "0 < b_len src" and long: "\<not> length packet < 49" using s(3) src(2) by auto
  have offs: "TLS_CRYPT_OFF_CT = 49" "TLS_CRYPT_OFF_TAG = 17" "TLS_CRYPT_OFF_PID = 9" "TLS_CRYPT_TAG_SIZE = 32"
    "TLS_CRYPT_BLOCK_SIZE = 16"
    by (simp_all add: TLS_CRYPT_OFF_CT_def TLS_CRYPT_OFF_TAG_def TLS_CRYPT_OFF_PID_def TLS_CRYPT_PID_SIZE_def
        TLS_CRYPT_TAG_SIZE_def TLS_CRYPT_BLOCK_SIZE_def)
  have tk: "take 32 (cl_hmac lib hkey m) = cl_hmac lib hkey m" for m using lib by (simp add: ctr_ok_def)
  have adv: "fst (buf_advance src 9)" using s(3,6) src(2) by (simp add: buf_advance_def)
  then obtain s1 where adv': "buf_advance src 9 = (True, s1)" by (cases "buf_advance src 9") simp
  have c1: "buf_content d1 = pt" using buf_rep_simps(1) [OF d1(2)] .
  have "tls_crypt_unwrap hm lib now src dst opt =
    (if cl_hmac lib hkey (take 17 packet @ pt) \<noteq> tag_of packet then Some (False, d1\<lparr>b_len := 0\<rparr>, opt)
     else if co_ignore_packet_id opt then Some (True, d1, opt)
     else do {
       let (ok, pin, tmp) = packet_id_read (snd (buf_advance src 9)) True;
       _ \<leftarrow> ASSERT ok;
       (good, opt) \<leftarrow> crypto_check_replay hm now opt pin 0;
       if good then Some (True, d1, opt) else Some (False, d1\<lparr>b_len := 0\<rparr>, opt) })"
    unfolding tls_crypt_unwrap_def unwrap_error_def
    by (simp add: key pid s(1,2) pos long w(3) safe offs dec(1,3) d1(1) c1 lib_output_front_Nil [OF d1(2)] adv'
        tag_of_def [symmetric] tk split: prod.splits)
  then show ?thesis using d1(2) by blast
qed


section \<open>Properties\<close>

lemma crypt_packet_parts:
  fixes key hkey p pt
  assumes "ctr_ok lib" "length hdr = 9"
  defines "packet \<equiv> crypt_packet lib key hkey p hdr pt"
  shows "length packet = length pt + 49" "take 17 packet = hdr @ pid_wire p True"
    "tag_of packet = cl_hmac lib hkey (hdr @ pid_wire p True @ pt)"
    "drop 49 packet = cl_enc_update lib key (take 16 (tag_of packet)) pt"
    "packet = hdr @ pid_wire p True @ drop 17 packet"
proof -
  let ?tag = "cl_hmac lib hkey (hdr @ pid_wire p True @ pt)"
  have l: "length ?tag = 32" "length (cl_enc_update lib key (take 16 ?tag) pt) = length pt"
    using assms(1) by (simp_all add: ctr_ok_def)
  have p: "packet = hdr @ pid_wire p True @ ?tag @ cl_enc_update lib key (take 16 ?tag) pt"
    by (simp add: packet_def crypt_packet_def Let_def)
  then show "length packet = length pt + 49" "take 17 packet = hdr @ pid_wire p True"
    using l assms(2) by simp_all
  show t: "tag_of packet = ?tag" using l assms(2) by (simp add: tag_of_def p)
  show "drop 49 packet = cl_enc_update lib key (take 16 (tag_of packet)) pt"
    unfolding t using l assms(2) by (simp add: p)
  show "packet = hdr @ pid_wire p True @ drop 17 packet" using assms(2) by (simp add: p)
qed

text \<open>
  C11: The control channel under tls-crypt. \<open>tls_crypt_wrap\<close> appends to the 9 byte header in \<open>dst\<close>
  the next packet id and time, the tag and the encrypted plaintext, 40 bytes more than the plaintext;
  a receiver with the same keys that gets this packet, in whatever buffer, unwraps exactly the
  plaintext if its replay check accepts the packet id, and drops the packet if not.
\<close>
theorem tls_crypt_roundtrip:
  assumes lib: "ctr_ok lib" and key: "kc_cipher (co_encrypt opt) = Some key" "kc_hmac (co_encrypt opt) = Some hkey"
    and pid: "packet_id_initialized opt" "packet_id_send_update now (pid_send (co_packet_id opt)) True = (True, p)"
    and time: "send_wf (pid_send (co_packet_id opt))" "0 < now" "ps_time p < 2 ^ 32"
    and src: "buf_rep src hs pt rs" and dst: "buf_rep dst ho hdr rd" "length hdr = 9"
    and sz: "length pt + 56 \<le> rd" "ho + length hdr + rd < 1000000"
  shows "\<exists>out opt' packet. tls_crypt_wrap lib now src dst opt = Some (True, out, opt') \<and>
    pid_send (co_packet_id opt') = p \<and> buf_content out = packet \<and> take 9 packet = hdr \<and> length packet = 9 + length pt + 40 \<and>
    (\<forall>hm now' ropt good ropt' q hq rq d hd' rd'.
       kc_cipher (co_decrypt ropt) = Some key \<longrightarrow> kc_hmac (co_decrypt ropt) = Some hkey \<longrightarrow>
       packet_id_initialized ropt \<longrightarrow> \<not> co_ignore_packet_id ropt \<longrightarrow>
       buf_rep q hq packet rq \<longrightarrow> buf_rep d hd' [] rd' \<longrightarrow> length pt + 16 \<le> rd' \<longrightarrow> hd' + rd' < 1000000 \<longrightarrow>
       crypto_check_replay hm now' ropt \<lparr>pn_id = ps_id p, pn_time = ps_time p\<rparr> 0 = Some (good, ropt') \<longrightarrow>
       (\<exists>out'. tls_crypt_unwrap hm lib now' q d ropt = Some (good, out', ropt') \<and> buf_content out' = (if good then pt else [])))"
proof -
  obtain out r where wrap: "tls_crypt_wrap lib now src dst opt = Some (True, out, opt\<lparr>co_packet_id := (co_packet_id opt)\<lparr>pid_send := p\<rparr>\<rparr>)"
    "buf_rep out ho (crypt_packet lib key hkey p hdr pt) r"
    using tls_crypt_wrap_packet [OF lib key pid src dst(1) sz] by blast
  define packet where "packet = crypt_packet lib key hkey p hdr pt"
  note parts = crypt_packet_parts [OF lib dst(2), of key hkey p pt, folded packet_def]
  have wf: "send_wf p" by (rule send_update_step(1) [OF time(1) pid(2) time(2)])
  have recv: "\<exists>out'. tls_crypt_unwrap hm lib now' q d ropt = Some (good, out', ropt') \<and> buf_content out' = (if good then pt else [])"
    if r: "kc_cipher (co_decrypt ropt) = Some key" "kc_hmac (co_decrypt ropt) = Some hkey"
      "packet_id_initialized ropt" "\<not> co_ignore_packet_id ropt"
      "buf_rep q hq packet rq" "buf_rep d hd' [] rd'" "length pt + 16 \<le> rd'" "hd' + rd' < 1000000"
      "crypto_check_replay hm now' ropt \<lparr>pn_id = ps_id p, pn_time = ps_time p\<rparr> 0 = Some (good, ropt')"
    for hm now' ropt good ropt' q hq rq d hd' rd'
  proof -
    have dec: "cl_dec_update lib key (take 16 (tag_of packet)) (drop 49 packet) = Some pt"
      "cl_dec_final lib key (take 16 (tag_of packet)) (drop 49 packet) = Some []"
      using lib parts(4) by (simp_all add: ctr_ok_def)
    have "49 \<le> length packet" "length packet \<le> rd' + 33" "length pt \<le> rd'" using parts(1) r(7) by simp_all
    from tls_crypt_unwrap_run [OF lib r(1,2) disjI1 [OF r(3)] r(5) this(1) r(6) this(2) r(8) dec(1) this(3) dec(2), of hm now']
    obtain out' r' where run: "buf_rep out' hd' pt r'" "tls_crypt_unwrap hm lib now' q d ropt =
      (if cl_hmac lib hkey (take 17 packet @ pt) \<noteq> tag_of packet then Some (False, out'\<lparr>b_len := 0\<rparr>, ropt)
       else if co_ignore_packet_id ropt then Some (True, out', ropt)
       else do {
         let (ok, pin, tmp) = packet_id_read (snd (buf_advance q 9)) True;
         _ \<leftarrow> ASSERT ok;
         (good, opt) \<leftarrow> crypto_check_replay hm now' ropt pin 0;
         if good then Some (True, out', opt) else Some (False, out'\<lparr>b_len := 0\<rparr>, opt) })" by blast
    have "buf_rep (snd (buf_advance q 9)) (hq + 9) (pid_wire p True @ drop 17 packet) rq"
    proof -
      have "buf_rep q hq (hdr @ pid_wire p True @ drop 17 packet) rq" using r(5) parts(5) by simp
      from buf_advance_rep(2) [OF this] show ?thesis by (simp add: dst(2))
    qed
    from packet_id_read_wire [OF this] wf time(3) obtain b' where
      "packet_id_read (snd (buf_advance q 9)) True = (True, \<lparr>pn_id = ps_id p, pn_time = ps_time p\<rparr>, b')"
      by (auto simp: send_wf_def)
    moreover have "take 17 packet @ pt = hdr @ pid_wire p True @ pt" using parts(2) by simp
    ultimately have "tls_crypt_unwrap hm lib now' q d ropt = (if good then Some (True, out', ropt') else Some (False, out'\<lparr>b_len := 0\<rparr>, ropt'))"
      using run(2) r(4,9) parts(3) by simp
    moreover have "buf_content out' = pt" "buf_content (out'\<lparr>b_len := 0\<rparr>) = []"
      using buf_rep_simps(1) [OF run(1)] by (simp_all add: buf_content_def buf_len_def split: option.splits)
    ultimately show ?thesis by (cases good) auto
  qed
  show ?thesis
  proof (intro exI [of _ out] exI [of _ "opt\<lparr>co_packet_id := (co_packet_id opt)\<lparr>pid_send := p\<rparr>\<rparr>"] exI [of _ packet] conjI)
    show "tls_crypt_wrap lib now src dst opt = Some (True, out, opt\<lparr>co_packet_id := (co_packet_id opt)\<lparr>pid_send := p\<rparr>\<rparr>)" by (rule wrap)
    show "buf_content out = packet" using buf_rep_simps(1) [OF wrap(2)] by (simp add: packet_def)
    show "take 9 packet = hdr" using parts(5) dst(2) by (metis append_eq_conv_conj)
    show "length packet = 9 + length pt + 40" using parts(1) by simp
    show "pid_send (co_packet_id (opt\<lparr>co_packet_id := (co_packet_id opt)\<lparr>pid_send := p\<rparr>\<rparr>)) = p" by simp
  qed (intro allI impI, rule recv)
qed

subsection \<open>Concrete keys and buffers\<close>

definition demo_ctr :: cipher_lib where
  "demo_ctr = \<lparr>cl_mode = (\<lambda>_. MODE_OTHER), cl_iv_length = (\<lambda>_. 16), cl_block_size = (\<lambda>_. 16),
     cl_enc_update = (\<lambda>_ _. List.map (\<lambda>x. x + 1)), cl_enc_final = (\<lambda>_ _ _. []),
     cl_dec_update = (\<lambda>_ _ ct. Some (List.map (\<lambda>x. x - 1) ct)), cl_dec_final = (\<lambda>_ _ _. Some []),
     cl_hmac_size = (\<lambda>_. 32), cl_hmac = (\<lambda>k m. replicate 32 (sum_list k + sum_list m))\<rparr>"

definition demo_crypt_opt :: crypto_options where
  "demo_crypt_opt =
     (let ctx = cleared_ctx\<lparr>kc_cipher := Some [1, 2], kc_hmac := Some [3]\<rparr> in
      \<lparr>co_encrypt = ctx, co_decrypt = ctx, co_initialized = True,
       co_epoch_key_send = \<lparr>ek_key = [], ek_epoch = 0\<rparr>, co_epoch_key_recv = \<lparr>ek_key = [], ek_epoch = 0\<rparr>,
       co_epoch_key_type = \<lparr>kt_key_size = 0, kt_iv_size = 0\<rparr>,
       co_aead_usage_limit = 0, co_future = [], co_retiring = cleared_ctx, co_retiring_pid = cleared_rec,
       co_packet_id = \<lparr>pid_send = \<lparr>ps_id = 0, ps_time = 0\<rparr>, pid_rec = cleared_rec\<lparr>pr_initialized := True\<rparr>\<rparr>,
       co_epoch_format = False, co_long_form = True, co_ignore_packet_id = False\<rparr>)"

text \<open>A buffer of content \<open>c\<close> at offset 0, with \<open>r\<close> bytes behind it.\<close>

definition demo_buf :: "u8 list \<Rightarrow> nat \<Rightarrow> buffer" where
  "demo_buf c r = \<lparr>b_capacity = int (length c + r), b_offset = 0, b_len = int (length c), b_data = Some (c @ replicate r 0)\<rparr>"

lemma demo_buf_rep: "buf_rep (demo_buf c r) 0 c r"
  by (simp add: demo_buf_def buf_rep_iff)

lemma demo_ctr_ok: "ctr_ok demo_ctr"
  by (simp add: ctr_ok_def demo_ctr_def comp_def)

lemma demo_crypt_simps:
  "kc_cipher (co_encrypt demo_crypt_opt) = Some [1, 2]" "kc_hmac (co_encrypt demo_crypt_opt) = Some [3]"
  "kc_cipher (co_decrypt demo_crypt_opt) = Some [1, 2]" "kc_hmac (co_decrypt demo_crypt_opt) = Some [3]"
  "packet_id_initialized demo_crypt_opt" "\<not> co_ignore_packet_id demo_crypt_opt"
  "packet_id_send_update 100 (pid_send (co_packet_id demo_crypt_opt)) True = (True, \<lparr>ps_id = 1, ps_time = 100\<rparr>)"
  "send_wf (pid_send (co_packet_id demo_crypt_opt))"
  by (simp_all add: demo_crypt_opt_def Let_def packet_id_initialized_def packet_id_send_update_def PACKET_ID_MAX_def send_wf_def)

lemma demo_replay:
  "\<exists>opt'. crypto_check_replay hm 200 demo_crypt_opt \<lparr>pn_id = 1, pn_time = 100\<rparr> 0 = Some (True, opt')"
  by (simp add: crypto_check_replay_def check_replay_def demo_crypt_opt_def Let_def cleared_rec_def packet_id_test_def
      packet_id_add_def packet_id_reap_test_def packet_id_reap_def SEQ_REAP_INTERVAL_def)

lemma tls_crypt_roundtrip_witness:
  "\<exists>out opt' rout ropt'.
    tls_crypt_wrap demo_ctr 100 (demo_buf [7, 8] 0) (demo_buf (replicate 9 5) 80) demo_crypt_opt = Some (True, out, opt') \<and>
    tls_crypt_unwrap (\<lambda>_ _. []) demo_ctr 200 (demo_buf (buf_content out) 0) (demo_buf [] 60) demo_crypt_opt =
      Some (True, rout, ropt') \<and> buf_content rout = [7, 8]"
proof -
  have prem: "0 < (100::int)" "ps_time \<lparr>ps_id = 1, ps_time = 100\<rparr> < (2::int) ^ 32" "length (replicate 9 5 :: u8 list) = 9"
    "length [7, 8 :: u8] + 56 \<le> (80::nat)" "0 + length (replicate 9 5 :: u8 list) + 80 < (1000000::nat)" by simp_all
  note w = tls_crypt_roundtrip [OF demo_ctr_ok demo_crypt_simps(1,2,5,7,8) prem(1,2) demo_buf_rep [of "[7, 8]" 0] demo_buf_rep [of "replicate 9 5" 80]
      prem(3-5)]
  obtain ropt' where r: "crypto_check_replay (\<lambda>_ _. []) 200 demo_crypt_opt
      \<lparr>pn_id = ps_id \<lparr>ps_id = 1, ps_time = 100\<rparr>, pn_time = ps_time \<lparr>ps_id = 1, ps_time = 100\<rparr>\<rparr> 0 = Some (True, ropt')"
    using demo_replay by fastforce
  from w obtain out opt' packet where o: "tls_crypt_wrap demo_ctr 100 (demo_buf [7, 8] 0) (demo_buf (replicate 9 5) 80) demo_crypt_opt = Some (True, out, opt')"
    "buf_content out = packet"
    and recv: "\<forall>hm now' ropt good ropt' q hq rq d hd' rd'.
       kc_cipher (co_decrypt ropt) = Some [1, 2] \<longrightarrow> kc_hmac (co_decrypt ropt) = Some [3] \<longrightarrow>
       packet_id_initialized ropt \<longrightarrow> \<not> co_ignore_packet_id ropt \<longrightarrow>
       buf_rep q hq packet rq \<longrightarrow> buf_rep d hd' [] rd' \<longrightarrow> length [7::u8, 8] + 16 \<le> rd' \<longrightarrow> hd' + rd' < 1000000 \<longrightarrow>
       crypto_check_replay hm now' ropt \<lparr>pn_id = ps_id \<lparr>ps_id = 1, ps_time = 100\<rparr>, pn_time = ps_time \<lparr>ps_id = 1, ps_time = 100\<rparr>\<rparr> 0
         = Some (good, ropt') \<longrightarrow>
       (\<exists>out'. tls_crypt_unwrap hm demo_ctr now' q d ropt = Some (good, out', ropt') \<and> buf_content out' = (if good then [7, 8] else []))"
    by (elim exE conjE)
  have "\<exists>rout. tls_crypt_unwrap (\<lambda>_ _. []) demo_ctr 200 (demo_buf packet 0) (demo_buf [] 60) demo_crypt_opt = Some (True, rout, ropt') \<and>
      buf_content rout = (if True then [7, 8] else [])"
    by (rule recv [rule_format, OF demo_crypt_simps(3-6) demo_buf_rep demo_buf_rep _ _ r]) simp_all
  then show ?thesis using o by auto
qed

text \<open>What a rejecting run leaves in the output, by the structure of the code.\<close>

definition clears :: "(bool \<times> buffer \<times> crypto_options) option \<Rightarrow> bool" where
  "clears r \<longleftrightarrow> (\<forall>out opt'. r = Some (False, out, opt') \<longrightarrow> buf_content out = [])"

lemma clears_error: "clears (unwrap_error d opt)"
  by (simp add: clears_def unwrap_error_def buf_content_def buf_len_def split: option.splits)

lemma clears_intros:
  "clears None" "clears (Some (True, d, opt))"
  "(\<And>x. clears (f x)) \<Longrightarrow> clears (Option.bind m f)"
  "clears r \<Longrightarrow> clears r' \<Longrightarrow> clears (if b then r else r')"
  "(\<And>x y. clears (g x y)) \<Longrightarrow> clears (case p of (x, y) \<Rightarrow> g x y)"
  "clears r \<Longrightarrow> (\<And>x. clears (f x)) \<Longrightarrow> clears (case m of None \<Rightarrow> r | Some x \<Rightarrow> f x)"
  by (auto simp: clears_def bind_eq_Some_conv split: option.splits prod.splits)

lemma tls_crypt_unwrap_clears: "clears (tls_crypt_unwrap hm lib now src dst opt)"
  unfolding tls_crypt_unwrap_def Let_def by (intro clears_intros clears_error)

text \<open>
  C12: Nothing gets through tls-crypt without the HMAC key. A packet that \<open>tls_crypt_unwrap\<close> accepts
  is at least 49 bytes long, the plaintext it hands out is the decryption of the ciphertext under the
  tag as IV, the tag is the HMAC of header, packet id and that plaintext, and (unless packet ids
  are ignored) the replay check accepted the packet id it carries. A packet that it does not accept
  leaves no plaintext behind.
\<close>
theorem tls_crypt_authentic:
  assumes lib: "ctr_ok lib" and src: "buf_rep src hs packet rs" and dst: "buf_rep dst ho [] rd"
    and run: "tls_crypt_unwrap hm lib now src dst opt = Some (ok, out, opt')"
  shows "if ok then
      \<exists>key hkey. kc_cipher (co_decrypt opt) = Some key \<and> kc_hmac (co_decrypt opt) = Some hkey \<and>
        length packet \<ge> 49 \<and>
        cl_dec_update lib key (take 16 (tag_of packet)) (drop 49 packet) = Some (buf_content out) \<and>
        cl_hmac lib hkey (take 17 packet @ buf_content out) = tag_of packet \<and>
        (co_ignore_packet_id opt \<or>
         (\<exists>pin tmp. packet_id_read (snd (buf_advance src 9)) True = (True, pin, tmp) \<and>
            crypto_check_replay hm now opt pin 0 = Some (True, opt')))
    else buf_content out = []"
proof -
  note s = buf_rep_simps [OF src] and w = write_front_rep [OF dst]
  have offs: "TLS_CRYPT_OFF_CT = 49" "TLS_CRYPT_OFF_TAG = 17" "TLS_CRYPT_OFF_PID = 9" "TLS_CRYPT_TAG_SIZE = 32"
    by (simp_all add: TLS_CRYPT_OFF_CT_def TLS_CRYPT_OFF_TAG_def TLS_CRYPT_OFF_PID_def TLS_CRYPT_PID_SIZE_def TLS_CRYPT_TAG_SIZE_def)
  show ?thesis
  proof (cases ok)
    case False
    then show ?thesis using run tls_crypt_unwrap_clears [of hm lib now src dst opt] by (auto simp: clears_def)
  next
    case True
    with run obtain key where key: "kc_cipher (co_decrypt opt) = Some key"
      by (auto simp: tls_crypt_unwrap_def bind_eq_Some_conv)
    have long: "\<not> buf_len src < int TLS_CRYPT_OFF_CT"
      using run True by (auto simp: tls_crypt_unwrap_def unwrap_error_def bind_eq_Some_conv split: if_splits)
    obtain pt where pt: "cl_dec_update lib key (take 16 (tag_of packet)) (drop 49 packet) = Some pt"
      using run True key s(1) by (auto simp: tls_crypt_unwrap_def unwrap_error_def bind_eq_Some_conv Let_def offs tag_of_def
          split: if_splits option.splits)
    obtain d1 where d1: "buf_inc_len (mem_write dst (int ho) pt) (int (length pt)) = (True, d1)"
      using run True key s(1) pt w(3) by (auto simp: tls_crypt_unwrap_def unwrap_error_def bind_eq_Some_conv Let_def offs tag_of_def
          split: if_splits prod.splits)
    have rep: "buf_rep d1 ho pt (rd - length pt)" by (rule w(1) [OF d1])
    note c1 = buf_rep_simps(1) [OF rep]
    obtain fin where fin: "cl_dec_final lib key (take 16 (tag_of packet)) (drop 49 packet) = Some fin"
      using run True key s(1) pt w(3) d1 by (auto simp: tls_crypt_unwrap_def unwrap_error_def bind_eq_Some_conv Let_def offs tag_of_def
          split: if_splits prod.splits option.splits)
    have "fin = []" using lib fin unfolding ctr_ok_def by blast
    with run True key s(1) pt w(3) d1 fin long lib_output_front_Nil [OF rep] obtain hkey where
      hkey: "kc_hmac (co_decrypt opt) = Some hkey" and
      run: "(if take 32 (cl_hmac lib hkey (take 17 packet @ pt)) \<noteq> tag_of packet then unwrap_error d1 opt
             else if co_ignore_packet_id opt then Some (True, d1, opt)
             else do {
               let (ok, tmp) = buf_advance src 9;
               _ \<leftarrow> ASSERT ok;
               let (ok, pin, tmp) = packet_id_read tmp True;
               _ \<leftarrow> ASSERT ok;
               (good, opt) \<leftarrow> crypto_check_replay hm now opt pin 0;
               if good then Some (True, d1, opt) else unwrap_error d1 opt }) = Some (True, out, opt')"
      by (auto simp: tls_crypt_unwrap_def unwrap_error_def bind_eq_Some_conv Let_def offs tag_of_def c1 split: if_splits)
    have "cl_hmac lib hkey (take 17 packet @ pt) = tag_of packet" "out = d1"
      "co_ignore_packet_id opt \<or> (\<exists>pin tmp. packet_id_read (snd (buf_advance src 9)) True = (True, pin, tmp) \<and>
         crypto_check_replay hm now opt pin 0 = Some (True, opt'))"
      using run lib by (auto simp: unwrap_error_def ctr_ok_def bind_eq_Some_conv split: if_splits prod.splits)
    then show ?thesis using True key hkey long s(2) pt c1 by (auto simp: offs)
  qed
qed

text \<open>A packet with a wrong tag is refused, the packet of the sender is accepted.\<close>

lemma tls_crypt_authentic_witness:
  "\<exists>ok out opt'. tls_crypt_unwrap (\<lambda>_ _. []) demo_ctr 200 (demo_buf (replicate 60 0) 0) (demo_buf [] 60) demo_crypt_opt = Some (ok, out, opt') \<and>
    \<not> ok \<and> buf_content out = []"
proof -
  have "cl_dec_update demo_ctr [1, 2] (take 16 (tag_of (replicate 60 0))) (drop 49 (replicate 60 0)) = Some (replicate 11 (- 1))"
    "cl_dec_final demo_ctr [1, 2] (take 16 (tag_of (replicate 60 0))) (drop 49 (replicate 60 0)) = Some []"
    by (simp_all add: demo_ctr_def)
  moreover have "cl_hmac demo_ctr [3] (take 17 (replicate 60 0) @ replicate 11 (- 1)) \<noteq> tag_of (replicate 60 0)"
    by (simp add: demo_ctr_def tag_of_def sum_list_replicate)
  moreover have "49 \<le> length (replicate 60 (0 :: u8))" "length (replicate 60 (0 :: u8)) \<le> 60 + 33" "0 + 60 < (1000000 :: nat)"
    "length (replicate 11 (- 1 :: u8)) \<le> 60" by simp_all
  ultimately obtain out where out: "tls_crypt_unwrap (\<lambda>_ _. []) demo_ctr 200 (demo_buf (replicate 60 0) 0) (demo_buf [] 60) demo_crypt_opt =
      Some (False, out, demo_crypt_opt)"
    using tls_crypt_unwrap_run [OF demo_ctr_ok demo_crypt_simps(3,4) disjI1 [OF demo_crypt_simps(5)] demo_buf_rep [of "replicate 60 0" 0] _
      demo_buf_rep [of "[]" 60], of "replicate 11 (- 1)" "\<lambda>_ _. []" 200] by metis
  from tls_crypt_authentic [OF demo_ctr_ok demo_buf_rep demo_buf_rep this] have "buf_content out = []" by simp
  with out show ?thesis by blast
qed

end
