(* ===== verification/KeyExchange.thy ===== *)
theory KeyExchange
  imports CryptoEpoch
begin

text \<open>
  ssl.c, key method 2: the messages that the two ends exchange over the established TLS session
  (random key material, options, user name and password, peer info), and the data channel keys that
  both derive from them.

  The random bytes are arguments, as are the texts that other parts of the program compose: the
  options string (\<open>session->opt->local_options\<close>, with the rewriting for \<open>comp-lzo\<close> where it applies),
  the user name and password, and the peer info. The verdicts of the scripts, plugins and the
  management interface behind \<open>verify_user_pass\<close> and \<open>verify_final_auth_checks\<close> are arguments too, and
  so are the two functions of the TLS library, \<open>ssl_tls1_PRF\<close> and the keying material exporter. A C
  string is a list of bytes without 0. \<open>p2p_mode_ncp\<close>, setting environment variables and printing are
  left out.
\<close>

section \<open>Strings with a 16 bit length in front\<close>

text \<open>The string that starts at the front of an array.\<close>

definition c_str :: "u8 list \<Rightarrow> u8 list" where
  "c_str a = takeWhile (\<lambda>x. x \<noteq> 0) a"

definition write_empty_string :: "buffer \<Rightarrow> bool \<times> buffer" where
  "write_empty_string buf = buf_write_u16 buf 0"

definition write_string :: "buffer \<Rightarrow> u8 list \<Rightarrow> int \<Rightarrow> bool \<times> buffer" where
  "write_string buf str maxlen =
     (let len = int (length str) + 1 in
      if len < 1 \<or> maxlen \<ge> 0 \<and> len > maxlen then (False, buf)
      else (case buf_write_u16 buf (word_of_int len) of
              (False, buf) \<Rightarrow> (False, buf)
            | (True, buf) \<Rightarrow> buf_write buf (str @ [0])))"

text \<open>\<open>str\<close> is the array that is read into; the new contents are returned.\<close>

definition read_string :: "buffer \<Rightarrow> u8 list \<Rightarrow> int \<Rightarrow> int \<times> u8 list \<times> buffer" where
  "read_string buf str capacity =
     (case buf_read_u16 buf of (len, buf) \<Rightarrow>
        if len < 1 \<or> len > capacity then (- len, str, snd (buf_advance buf len))
        else (case buf_read buf len of
                (None, buf) \<Rightarrow> (- len, str, buf)
              | (Some bs, buf) \<Rightarrow> (len, overlay str 0 (bs[nat (len - 1) := 0]), buf)))"

definition read_string_alloc :: "buffer \<Rightarrow> u8 list option \<times> buffer" where
  "read_string_alloc buf =
     (case buf_read_u16 buf of (len, buf) \<Rightarrow>
        if len < 1 then (None, buf)
        else (case buf_read buf len of
                (None, buf) \<Rightarrow> (None, buf)
              | (Some bs, buf) \<Rightarrow> (Some (c_str (bs[nat (len - 1) := 0])), buf)))"

section \<open>Key source material\<close>

record key_source =
  src_pre_master :: "u8 list"
  src_random1 :: "u8 list"
  src_random2 :: "u8 list"

record key_source2 =
  k2_client :: key_source
  k2_server :: key_source

definition cleared_source :: key_source where
  "cleared_source = \<lparr>src_pre_master = replicate 48 0, src_random1 = replicate 32 0, src_random2 = replicate 32 0\<rparr>"

definition cleared_source2 :: key_source2 where
  "cleared_source2 = \<lparr>k2_client = cleared_source, k2_server = cleared_source\<rparr>"

text \<open>\<open>out\<close> is what \<open>rand_bytes\<close> yields.\<close>

definition random_bytes_to_buf :: "buffer \<Rightarrow> u8 list \<Rightarrow> bool \<times> buffer" where
  "random_bytes_to_buf buf out = buf_write buf out"

definition set_source :: "bool \<Rightarrow> key_source2 \<Rightarrow> key_source \<Rightarrow> key_source2" where
  "set_source server k2 k = (if server then k2\<lparr>k2_server := k\<rparr> else k2\<lparr>k2_client := k\<rparr>)"

definition write_source :: "buffer \<Rightarrow> bool \<Rightarrow> key_source \<Rightarrow> bool \<times> key_source \<times> buffer" where
  "write_source buf server rnd =
     (let k = cleared_source in
      case (if server then (True, buf) else random_bytes_to_buf buf (src_pre_master rnd)) of (ok, buf) \<Rightarrow>
      let k = (if server then k else k\<lparr>src_pre_master := src_pre_master rnd\<rparr>) in
      if \<not> ok then (False, k, buf)
      else (case random_bytes_to_buf buf (src_random1 rnd) of (ok, buf) \<Rightarrow>
        let k = k\<lparr>src_random1 := src_random1 rnd\<rparr> in
        if \<not> ok then (False, k, buf)
        else (case random_bytes_to_buf buf (src_random2 rnd) of (ok, buf) \<Rightarrow>
          (ok, k\<lparr>src_random2 := src_random2 rnd\<rparr>, buf))))"

definition key_source2_randomize_write ::
  "key_source2 \<Rightarrow> buffer \<Rightarrow> bool \<Rightarrow> key_source \<Rightarrow> bool \<times> key_source2 \<times> buffer" where
  "key_source2_randomize_write k2 buf server rnd =
     (case write_source buf server rnd of (ok, k, buf) \<Rightarrow> (ok, set_source server k2 k, buf))"

definition read_source :: "buffer \<Rightarrow> bool \<Rightarrow> bool \<times> key_source \<times> buffer" where
  "read_source buf server =
     (let k = cleared_source in
      case (if server then buf_read buf 48 else (Some (src_pre_master k), buf)) of
        (None, buf) \<Rightarrow> (False, k, buf)
      | (Some bs, buf) \<Rightarrow> (let k = k\<lparr>src_pre_master := bs\<rparr> in
          case buf_read buf 32 of
            (None, buf) \<Rightarrow> (False, k, buf)
          | (Some bs, buf) \<Rightarrow> (let k = k\<lparr>src_random1 := bs\<rparr> in
              case buf_read buf 32 of
                (None, buf) \<Rightarrow> (False, k, buf)
              | (Some bs, buf) \<Rightarrow> (True, k\<lparr>src_random2 := bs\<rparr>, buf))))"

text \<open>The material of the peer.\<close>

definition key_source2_read :: "key_source2 \<Rightarrow> buffer \<Rightarrow> bool \<Rightarrow> bool \<times> key_source2 \<times> buffer" where
  "key_source2_read k2 buf server =
     (case read_source buf server of (ok, k, buf) \<Rightarrow> (ok, set_source (\<not> server) k2 k, buf))"

section \<open>Options strings\<close>

definition comma :: u8 where "comma = 44"
definition space :: u8 where "space = 32"

text \<open>The text behind the next comma.\<close>

definition after_comma :: "u8 list \<Rightarrow> u8 list option" where
  "after_comma p = (case dropWhile (\<lambda>c. c \<noteq> comma) p of [] \<Rightarrow> None | _ # q \<Rightarrow> Some q)"

lemma after_comma_shorter [termination_simp]: "after_comma p = Some q \<Longrightarrow> length q < length p"
  using length_dropWhile_le [of "\<lambda>c. c \<noteq> comma" p] by (auto simp: after_comma_def split: list.splits)

fun options_string_extract_option :: "u8 list \<Rightarrow> u8 list \<Rightarrow> u8 list option" where
  "options_string_extract_option p opt_name =
     (if take (length opt_name) p = opt_name \<and> length p > length opt_name + 1 \<and> p ! length opt_name = space
      then Some (takeWhile (\<lambda>c. c \<noteq> comma) (drop (length opt_name + 1) p))
      else (case after_comma p of
              None \<Rightarrow> None
            | Some q \<Rightarrow> options_string_extract_option q opt_name))"

declare options_string_extract_option.simps [simp del]

text \<open>\<open>strstr(s, t) != NULL\<close>\<close>

fun strstr :: "u8 list \<Rightarrow> u8 list \<Rightarrow> bool" where
  "strstr [] t = (t = [])"
| "strstr (c # s) t = (take (length t) (c # s) = t \<or> strstr s t)"

text \<open>\<open>strncmp\<close> on the first two characters: the version of the options.\<close>

definition options_cmp_equal :: "u8 list \<Rightarrow> u8 list \<Rightarrow> bool" where
  "options_cmp_equal actual expected =
     (if take 2 actual \<noteq> take 2 expected then True else actual = expected)"

definition cipher_name :: "u8 list" where
  "cipher_name = [99, 105, 112, 104, 101, 114]"
definition comp_lzo_name :: "u8 list" where
  "comp_lzo_name = [44, 99, 111, 109, 112, 45, 108, 122, 111, 44]"
definition null_cipher_name :: "u8 list" where
  "null_cipher_name = [91, 110, 117, 108, 108, 45, 99, 105, 112, 104, 101, 114, 93]"
definition none_name :: "u8 list" where
  "none_name = [110, 111, 110, 101]"

section \<open>The messages\<close>

definition TLS_OPTIONS_LEN :: int where "TLS_OPTIONS_LEN = 512"
definition USER_PASS_LEN :: int where "USER_PASS_LEN = 128"
definition KEY_METHOD_2 :: u8 where "KEY_METHOD_2 = 2"
definition KEY_METHOD_MASK :: int where "KEY_METHOD_MASK = 0x0F"

text \<open>\<open>credentials\<close> is the user name and password, or the authentication token, if any; \<open>peer_info\<close>
  the text that \<open>push_peer_info\<close> composes, \<open>None\<close> when \<open>push_peer_info_detail\<close> is 0.\<close>

definition write_credentials :: "buffer \<Rightarrow> (u8 list \<times> u8 list) option \<Rightarrow> bool \<times> buffer" where
  "write_credentials buf credentials =
     (case credentials of
        Some (username, password) \<Rightarrow>
          (case write_string buf username (- 1) of
             (False, buf) \<Rightarrow> (False, buf)
           | (True, buf) \<Rightarrow> write_string buf password (- 1))
      | None \<Rightarrow>
          (case write_empty_string buf of
             (False, buf) \<Rightarrow> (False, buf)
           | (True, buf) \<Rightarrow> write_empty_string buf))"

definition push_peer_info :: "buffer \<Rightarrow> u8 list option \<Rightarrow> bool \<times> buffer" where
  "push_peer_info buf peer_info =
     (case peer_info of Some out \<Rightarrow> write_string buf out (- 1) | None \<Rightarrow> write_empty_string buf)"

text \<open>The error exit clears the key material.\<close>

definition key_method_2_write ::
  "buffer \<Rightarrow> key_source2 \<Rightarrow> bool \<Rightarrow> key_source \<Rightarrow> u8 list \<Rightarrow> (u8 list \<times> u8 list) option \<Rightarrow> u8 list option \<Rightarrow>
   (bool \<times> key_source2 \<times> buffer) option" where
  "key_method_2_write buf src server rnd local_options credentials peer_info =
     (case buf_init buf 0 of (ok, buf) \<Rightarrow> do {
        _ \<leftarrow> ASSERT ok;
        Some (case buf_write_u32 buf 0 of
          (False, buf) \<Rightarrow> (False, cleared_source2, buf)
        | (True, buf) \<Rightarrow> (case buf_write_u8 buf KEY_METHOD_2 of
            (False, buf) \<Rightarrow> (False, cleared_source2, buf)
          | (True, buf) \<Rightarrow> (case key_source2_randomize_write src buf server rnd of
              (False, src, buf) \<Rightarrow> (False, cleared_source2, buf)
            | (True, src, buf) \<Rightarrow> (case write_string buf local_options TLS_OPTIONS_LEN of
                (False, buf) \<Rightarrow> (False, cleared_source2, buf)
              | (True, buf) \<Rightarrow> (case write_credentials buf credentials of
                  (False, buf) \<Rightarrow> (False, cleared_source2, buf)
                | (True, buf) \<Rightarrow> (case push_peer_info buf peer_info of
                    (False, buf) \<Rightarrow> (False, cleared_source2, buf)
                  | (True, buf) \<Rightarrow> (True, src, buf))))))) })"

datatype ks_auth_state = KS_AUTH_FALSE | KS_AUTH_DEFERRED | KS_AUTH_TRUE

text \<open>What the message changes: of the key state its source material and \<open>authenticated\<close>, of the
  \<open>tls_multi\<close> what is known of the peer.\<close>

record peer_state =
  pe_key_src :: key_source2
  pe_authenticated :: ks_auth_state
  pe_peer_info :: "u8 list option"
  pe_remote_ciphername :: "u8 list option"
  pe_remote_usescomp :: bool

text \<open>The options of the session that decide about the peer: \<open>server\<close>, \<open>remote_options\<close>, the flags
  \<open>SSLF_OPT_VERIFY\<close> and \<open>SSLF_AUTH_USER_PASS_OPTIONAL\<close>, \<open>tls_session_user_pass_enabled\<close>, whether the
  certificate was verified, and the three verdicts.\<close>

record auth_options =
  ao_server :: bool
  ao_remote_options :: "u8 list"
  ao_opt_verify :: bool
  ao_user_pass_optional :: bool
  ao_user_pass_enabled :: bool
  ao_verified :: bool
  ao_verify_user_pass :: "u8 list \<Rightarrow> u8 list \<Rightarrow> ks_auth_state"
  ao_final_auth_checks :: "ks_auth_state \<Rightarrow> ks_auth_state"
  ao_plugin_final :: "bool option"

definition remote_cipher :: "u8 list \<Rightarrow> u8 list option" where
  "remote_cipher options =
     (case options_string_extract_option options cipher_name of
        None \<Rightarrow> None
      | Some name \<Rightarrow> Some (if name = null_cipher_name then none_name else name))"

text \<open>Who the peer is; \<open>None\<close> is the error exit.\<close>

definition check_credentials ::
  "auth_options \<Rightarrow> int \<Rightarrow> int \<Rightarrow> u8 list \<Rightarrow> u8 list \<Rightarrow> ks_auth_state option" where
  "check_credentials ao username_len password_len username password =
     (if username_len < 0 \<or> password_len < 0 then Some KS_AUTH_FALSE
      else if ao_user_pass_enabled ao then
        (if username_len = 0 \<or> password_len = 0 then
           (if \<not> ao_user_pass_optional ao then None else Some (ao_verify_user_pass ao [] []))
         else Some (ao_verify_user_pass ao username password))
      else if \<not> ao_verified ao then None
      else Some KS_AUTH_TRUE)"

definition final_auth :: "auth_options \<Rightarrow> u8 list \<Rightarrow> ks_auth_state \<Rightarrow> ks_auth_state" where
  "final_auth ao options auth =
     (let auth = (if auth \<noteq> KS_AUTH_FALSE then ao_final_auth_checks ao auth else auth);
          auth = (if \<not> options_cmp_equal options (ao_remote_options ao) \<and> ao_opt_verify ao
                  then KS_AUTH_FALSE else auth)
      in if auth \<noteq> KS_AUTH_FALSE \<and> ao_plugin_final ao = Some False then KS_AUTH_FALSE else auth)"

definition key_method_2_error :: "peer_state \<Rightarrow> buffer \<Rightarrow> bool \<times> peer_state \<times> buffer" where
  "key_method_2_error pe buf =
     (False, pe\<lparr>pe_authenticated := KS_AUTH_FALSE, pe_key_src := cleared_source2\<rparr>, buf_clear buf)"

text \<open>From the options string on.\<close>

definition read_peer :: "auth_options \<Rightarrow> peer_state \<Rightarrow> buffer \<Rightarrow> bool \<times> peer_state \<times> buffer" where
  "read_peer ao pe buf =
     (case read_string buf (replicate (nat TLS_OPTIONS_LEN) 0) TLS_OPTIONS_LEN of (len, options, buf) \<Rightarrow>
      if len < 0 then key_method_2_error pe buf
      else (case read_string buf (replicate (nat USER_PASS_LEN) 0) USER_PASS_LEN of (username_len, username, buf) \<Rightarrow>
            case read_string buf (replicate (nat USER_PASS_LEN) 0) USER_PASS_LEN of (password_len, password, buf) \<Rightarrow>
            case read_string_alloc buf of (info, buf) \<Rightarrow>
            let options = c_str options;
                pe = pe\<lparr>pe_authenticated := KS_AUTH_FALSE, pe_peer_info := info,
                        pe_remote_ciphername := remote_cipher options,
                        pe_remote_usescomp := strstr options comp_lzo_name\<rparr> in
            (case check_credentials ao username_len password_len (c_str username) (c_str password) of
               None \<Rightarrow> key_method_2_error pe buf
             | Some auth \<Rightarrow> (True, pe\<lparr>pe_authenticated := final_auth ao options auth\<rparr>, buf_clear buf))))"

definition key_method_2_read :: "auth_options \<Rightarrow> peer_state \<Rightarrow> buffer \<Rightarrow> bool \<times> peer_state \<times> buffer" where
  "key_method_2_read ao pe buf =
     (case buf_advance buf 4 of
        (False, buf) \<Rightarrow> key_method_2_error pe buf
      | (True, buf) \<Rightarrow> (case buf_read_u8 buf of (flags, buf) \<Rightarrow>
          if flags AND KEY_METHOD_MASK \<noteq> 2 then key_method_2_error pe buf
          else (case key_source2_read (pe_key_src pe) buf (ao_server ao) of
             (False, src, buf) \<Rightarrow> key_method_2_error (pe\<lparr>pe_key_src := src\<rparr>) buf
           | (True, src, buf) \<Rightarrow> read_peer ao (pe\<lparr>pe_key_src := src\<rparr>) buf)))"

section \<open>Data channel keys\<close>

text \<open>\<open>struct key\<close> and \<open>struct key2\<close>; the memory of \<open>key2->keys\<close> as one sequence of bytes.\<close>

record crypto_key =
  ck_cipher :: "u8 list"
  ck_hmac :: "u8 list"

definition key2_of_bytes :: "u8 list \<Rightarrow> crypto_key list" where
  "key2_of_bytes bs =
     [\<lparr>ck_cipher = take 64 bs, ck_hmac = take 64 (drop 64 bs)\<rparr>,
      \<lparr>ck_cipher = take 64 (drop 128 bs), ck_hmac = take 64 (drop 192 bs)\<rparr>]"

text \<open>\<open>ssl_tls1_PRF\<close>: seed, secret and the length of the output.\<close>

type_synonym prf_fun = "u8 list \<Rightarrow> u8 list \<Rightarrow> nat \<Rightarrow> u8 list option"

definition sid_bytes :: "u8 list option \<Rightarrow> u8 list" where
  "sid_bytes sid = (case sid of None \<Rightarrow> [] | Some s \<Rightarrow> s)"

text \<open>\<open>None\<close> is an abort; the result of the library is the inner option.\<close>

definition openvpn_PRF ::
  "prf_fun \<Rightarrow> u8 list \<Rightarrow> u8 list \<Rightarrow> u8 list \<Rightarrow> u8 list \<Rightarrow> u8 list option \<Rightarrow> u8 list option \<Rightarrow> nat \<Rightarrow>
   u8 list option option" where
  "openvpn_PRF prf secret label client_seed server_seed client_sid server_sid output_len = do {
     seed \<leftarrow> alloc_buf (int (length label + length client_seed + length server_seed + 8 * 2));
     let (ok, seed) = buf_write seed label;
     _ \<leftarrow> ASSERT ok;
     let (ok, seed) = buf_write seed client_seed;
     _ \<leftarrow> ASSERT ok;
     let (ok, seed) = buf_write seed server_seed;
     _ \<leftarrow> ASSERT ok;
     let (ok, seed) = (case client_sid of None \<Rightarrow> (True, seed) | Some s \<Rightarrow> buf_write seed s);
     _ \<leftarrow> ASSERT ok;
     let (ok, seed) = (case server_sid of None \<Rightarrow> (True, seed) | Some s \<Rightarrow> buf_write seed s);
     _ \<leftarrow> ASSERT ok;
     Some (prf (buf_content seed) secret output_len) }"

definition master_label :: "u8 list" where
  "master_label = [79, 112, 101, 110, 86, 80, 78, 32, 109, 97, 115, 116, 101, 114, 32, 115, 101, 99, 114, 101, 116]"
definition expansion_label :: "u8 list" where
  "expansion_label = [79, 112, 101, 110, 86, 80, 78, 32, 107, 101, 121, 32, 101, 120, 112, 97, 110, 115, 105, 111, 110]"

text \<open>\<open>local_sid\<close> is \<open>session->session_id\<close>, \<open>remote_sid\<close> is \<open>ks->session_id_remote\<close>.\<close>

definition generate_key_expansion_openvpn_prf ::
  "prf_fun \<Rightarrow> bool \<Rightarrow> u8 list \<Rightarrow> u8 list \<Rightarrow> key_source2 \<Rightarrow> crypto_key list option option" where
  "generate_key_expansion_openvpn_prf prf server local_sid remote_sid src = do {
     let client_sid = (if server then remote_sid else local_sid);
     let server_sid = (if \<not> server then remote_sid else local_sid);
     master \<leftarrow> openvpn_PRF prf (src_pre_master (k2_client src)) master_label
       (src_random1 (k2_client src)) (src_random1 (k2_server src)) None None 48;
     (case master of
        None \<Rightarrow> Some None
      | Some master \<Rightarrow> do {
          keys \<leftarrow> openvpn_PRF prf master expansion_label (src_random2 (k2_client src))
            (src_random2 (k2_server src)) (Some client_sid) (Some server_sid) 256;
          Some (map_option key2_of_bytes keys) }) }"

text \<open>\<open>export\<close> is what the TLS library exports under the label of the data channel keys.\<close>

definition generate_key_expansion_tls_export :: "u8 list option \<Rightarrow> crypto_key list option" where
  "generate_key_expansion_tls_export export = map_option key2_of_bytes export"

datatype key_direction = KEY_DIRECTION_BIDIRECTIONAL | KEY_DIRECTION_NORMAL | KEY_DIRECTION_INVERSE

text \<open>\<open>out_key\<close>, \<open>in_key\<close> and \<open>need_keys\<close>\<close>

fun key_direction_state_init :: "key_direction \<Rightarrow> nat \<times> nat \<times> nat" where
  "key_direction_state_init KEY_DIRECTION_NORMAL = (0, 1, 2)"
| "key_direction_state_init KEY_DIRECTION_INVERSE = (1, 0, 2)"
| "key_direction_state_init KEY_DIRECTION_BIDIRECTIONAL = (0, 0, 1)"

definition key_is_zero :: "crypto_key \<Rightarrow> key_type \<Rightarrow> bool" where
  "key_is_zero k kt = (\<forall>b \<in> set (take (kt_key_size kt) (ck_cipher k)). b = 0)"

definition check_key :: "crypto_key \<Rightarrow> key_type \<Rightarrow> bool" where
  "check_key k kt = (\<not> key_is_zero k kt)"

definition key_parameters_from_key :: "crypto_key \<Rightarrow> key_parameters" where
  "key_parameters_from_key k = \<lparr>kp_cipher = take MAX_CIPHER_KEY_LENGTH (ck_cipher k), kp_cipher_size = MAX_CIPHER_KEY_LENGTH,
     kp_hmac = take MAX_HMAC_KEY_LENGTH (ck_hmac k), kp_hmac_size = MAX_HMAC_KEY_LENGTH, kp_epoch = 0\<rparr>"

definition init_key_ctx_bi :: "crypto_options \<Rightarrow> crypto_key list \<Rightarrow> key_direction \<Rightarrow> key_type \<Rightarrow> crypto_options option" where
  "init_key_ctx_bi co keys direction kt = do {
     let (out_key, in_key, _) = key_direction_state_init direction;
     let send_key = key_parameters_from_key (keys ! out_key);
     let recv_key = key_parameters_from_key (keys ! in_key);
     encrypt \<leftarrow> init_key_bi_ctx_send send_key kt;
     decrypt \<leftarrow> init_key_bi_ctx_recv recv_key kt;
     Some (co\<lparr>co_encrypt := encrypt, co_decrypt := decrypt, co_initialized := True\<rparr>) }"

definition init_epoch_keys ::
  "hmac_fun \<Rightarrow> crypto_options \<Rightarrow> key_type \<Rightarrow> u64 \<Rightarrow> bool \<Rightarrow> crypto_key list \<Rightarrow> crypto_options option" where
  "init_epoch_keys hm co kt aead_limit server keys = do {
     let future_key_count = 16;
     let (out_key, in_key, _) =
       key_direction_state_init (if server then KEY_DIRECTION_INVERSE else KEY_DIRECTION_NORMAL);
     let e1_send = \<lparr>ek_key = take 32 (ck_cipher (keys ! out_key)), ek_epoch = 1\<rparr>;
     let e1_recv = \<lparr>ek_key = take 32 (ck_cipher (keys ! in_key)), ek_epoch = 1\<rparr>;
     epoch_init_key_ctx hm co kt aead_limit e1_send e1_recv future_key_count }"

text \<open>Without data channel offload, and for AEAD ciphers.\<close>

definition init_key_contexts ::
  "hmac_fun \<Rightarrow> crypto_options \<Rightarrow> key_type \<Rightarrow> u64 \<Rightarrow> bool \<Rightarrow> crypto_key list \<Rightarrow> crypto_options option" where
  "init_key_contexts hm co kt aead_limit server keys =
     (if co_epoch_format co then init_epoch_keys hm co kt aead_limit server keys
      else init_key_ctx_bi co keys (if server then KEY_DIRECTION_INVERSE else KEY_DIRECTION_NORMAL) kt)"

text \<open>\<open>keys\<close> is the outcome of one of the two expansions; the result is \<open>ret\<close> and the options.\<close>

definition generate_key_expansion ::
  "hmac_fun \<Rightarrow> prf_fun \<Rightarrow> u8 list option \<Rightarrow> key_type \<Rightarrow> u64 \<Rightarrow> bool \<Rightarrow> bool \<Rightarrow> u8 list \<Rightarrow> u8 list \<Rightarrow> key_source2 \<Rightarrow>
   crypto_options \<Rightarrow> (bool \<times> crypto_options) option" where
  "generate_key_expansion hm prf export kt aead_limit use_export server local_sid remote_sid src co =
     (if co_initialized co then Some (False, co)
      else do {
        keys \<leftarrow> (if use_export then Some (generate_key_expansion_tls_export export)
                 else generate_key_expansion_openvpn_prf prf server local_sid remote_sid src);
        (case keys of
           None \<Rightarrow> Some (False, co)
         | Some keys \<Rightarrow>
             if \<not> (check_key (keys ! 0) kt \<and> check_key (keys ! 1) kt) then Some (False, co)
             else do {
               co \<leftarrow> init_key_contexts hm co kt aead_limit server keys;
               Some (True, co) }) })"

end
