(* ===== verification/KeyExchangeProps.thy ===== *)
theory KeyExchangeProps
  imports KeyExchange
begin

text \<open>
  The key exchange: a message of \<open>key_method_2_write\<close> is read back by \<open>key_method_2_read\<close>, and after
  one message in each direction the two ends derive the same data channel keys, each encrypting with
  the key the other decrypts with. What happens to a message that ends early.
\<close>

section \<open>Fields\<close>

definition str_field :: "u8 list \<Rightarrow> u8 list" where
  "str_field s = be16 (word_of_nat (length s + 1)) @ s @ [0]"

text \<open>A string that fits an array of \<open>n\<close> characters.\<close>

definition str_ok :: "nat \<Rightarrow> u8 list \<Rightarrow> bool" where
  "str_ok n s = (0 \<notin> set s \<and> length s < n)"

lemma length_str_field [simp]: "length (str_field s) = length s + 3"
  by (simp add: str_field_def)

lemma unat_len16: "n < 65536 \<Longrightarrow> uint (word_of_nat n :: u16) = int n"
  by (simp add: uint_nat unsigned_of_nat take_bit_nat_eq_self)

lemma c_str_field: "0 \<notin> set s \<Longrightarrow> c_str (s @ 0 # x) = s"
  unfolding c_str_def by (induction s) auto

lemma write_empty_string_rep:
  assumes "buf_rep b h c r" "2 \<le> r"
  obtains b' where "write_empty_string b = (True, b')" "buf_rep b' h (c @ [0, 0]) (r - 2)"
proof -
  have z: "be16 0 = [0, 0]" by (simp add: be16_def)
  obtain b' where "buf_write b [0, 0] = (True, b')" "buf_rep b' h (c @ [0, 0]) (r - length [0, 0 :: u8])"
    by (rule bd.appendE [OF assms(1), of "[0, 0]"]) (use assms(2) in \<open>auto simp: BUF_SIZE_MAX_def\<close>)
  then show ?thesis
    by (intro that [of b']) (simp_all add: write_empty_string_def buf_write_u16_def z numeral_2_eq_2)
qed

lemma write_string_rep:
  assumes "buf_rep b h c r" "length s + 3 \<le> r" "length s + 1 < 65536" "m < 0 \<or> int (length s) + 1 \<le> m"
  obtains b' where "write_string b s m = (True, b')" "buf_rep b' h (c @ str_field s) (r - (length s + 3))"
proof -
  define x where "x = (word_of_nat (length s + 1) :: u16)"
  obtain b1 where b1: "buf_write b (be16 x) = (True, b1)" "buf_rep b1 h (c @ be16 x) (r - length (be16 x))"
    by (rule bd.appendE [OF assms(1), of "be16 x"]) (use assms(2) in \<open>auto simp: BUF_SIZE_MAX_def\<close>)
  obtain b2 where b2: "buf_write b1 (s @ [0]) = (True, b2)"
    "buf_rep b2 h ((c @ be16 x) @ s @ [0]) (r - length (be16 x) - length (s @ [0]))"
    by (rule bd.appendE [OF b1(2), of "s @ [0]"]) (use assms(2,3) in \<open>auto simp: BUF_SIZE_MAX_def\<close>)
  have "word_of_int (int (length s) + 1) = x"
    by (simp add: x_def add.commute)
  then have "write_string b s m = (True, b2)"
    using assms(4) b1(1) b2(1) by (auto simp: write_string_def Let_def buf_write_u16_def)
  moreover have "r - length (be16 x) - length (s @ [0]) = r - (length s + 3)" by simp
  ultimately show ?thesis using b2(2) that by (simp add: str_field_def x_def)
qed

lemma buf_read_u16_rep:
  assumes "buf_rep b h (be16 x @ c) r"
  obtains b' where "buf_read_u16 b = (uint x, b')" "buf_rep b' (h + 2) c r"
proof -
  obtain b' where "buf_read b (int 2) = (Some (be16 x), b')" "buf_rep b' (h + 2) c r"
    by (rule bd.consumeE [OF assms, of 2]) (simp, blast)
  then show ?thesis using that by (simp add: buf_read_u16_def)
qed

lemma read_field:
  assumes "buf_rep b h (str_field s @ c) r" "length s + 1 < 65536"
  obtains b1 b2 where "buf_read_u16 b = (int (length s) + 1, b1)"
    "buf_read b1 (int (length s) + 1) = (Some (s @ [0]), b2)" "buf_rep b2 (h + (length s + 3)) c r"
proof -
  define x where "x = (word_of_nat (length s + 1) :: u16)"
  have "buf_rep b h (be16 x @ (s @ [0]) @ c) r" using assms(1) by (simp add: str_field_def x_def)
  then obtain b1 where b1: "buf_read_u16 b = (uint x, b1)" "buf_rep b1 (h + 2) ((s @ [0]) @ c) r"
    by (rule buf_read_u16_rep)
  obtain b2 where b2: "buf_read b1 (int (length s + 1)) = (Some (s @ [0]), b2)"
    "buf_rep b2 (h + 2 + (length s + 1)) c r"
    by (rule bd.consumeE [OF b1(2), of "length s + 1"]) (simp, blast)
  have "uint x = int (length s) + 1" using unat_len16 [OF assms(2)] by (simp add: x_def)
  moreover have "h + 2 + (length s + 1) = h + (length s + 3)" by simp
  moreover have "int (length s + 1) = int (length s) + 1" by simp
  ultimately show ?thesis using b1(1) b2 that by metis
qed

lemma read_string_rep:
  assumes "buf_rep b h (str_field s @ c) r" "str_ok n s" "n < 65536"
  obtains a b' where "read_string b (replicate n 0) (int n) = (int (length s) + 1, a, b')" "c_str a = s"
    "buf_rep b' (h + (length s + 3)) c r"
proof -
  obtain b1 b2 where b: "buf_read_u16 b = (int (length s) + 1, b1)"
    "buf_read b1 (int (length s) + 1) = (Some (s @ [0]), b2)" "buf_rep b2 (h + (length s + 3)) c r"
    using read_field [OF assms(1)] assms(2,3) by (auto simp: str_ok_def)
  have "(s @ [0])[length s := 0] = s @ [0]" by simp
  then have "read_string b (replicate n 0) (int n) = (int (length s) + 1, overlay (replicate n 0) 0 (s @ [0]), b2)"
    using b assms(2) by (auto simp: read_string_def str_ok_def)
  moreover have "c_str (overlay (replicate n 0) 0 (s @ [0])) = s"
    using assms(2) by (simp add: overlay_def str_ok_def c_str_field)
  ultimately show ?thesis using b(3) that by blast
qed

lemma read_string_alloc_rep:
  assumes "buf_rep b h (str_field s @ c) r" "0 \<notin> set s" "length s + 1 < 65536"
  obtains b' where "read_string_alloc b = (Some s, b')" "buf_rep b' (h + (length s + 3)) c r"
proof -
  obtain b1 b2 where b: "buf_read_u16 b = (int (length s) + 1, b1)"
    "buf_read b1 (int (length s) + 1) = (Some (s @ [0]), b2)" "buf_rep b2 (h + (length s + 3)) c r"
    using read_field [OF assms(1,3)] by blast
  have "c_str (s @ [0]) = s" using assms(2) by (simp add: c_str_field)
  then show ?thesis using b that by (auto simp: read_string_alloc_def)
qed

lemma zero_field: "[0, 0] = be16 0"
  by (simp add: be16_def)

lemma read_empty:
  assumes "buf_rep b h ([0, 0] @ c) r"
  obtains b' where "read_string b a cap = (0, a, b')" "read_string_alloc b = (None, b')" "buf_rep b' (h + 2) c r"
proof -
  obtain b1 where b1: "buf_read_u16 b = (0, b1)" "buf_rep b1 (h + 2) c r"
    by (rule buf_read_u16_rep [of b h 0 c r]) (use assms in \<open>simp_all add: zero_field\<close>)
  have "snd (buf_advance b1 0) = b1"
    using b1(2) by (auto simp: buf_advance_def buf_rep_simps)
  then show ?thesis using b1 that by (auto simp: read_string_def read_string_alloc_def)
qed

lemma read_string_absent:
  assumes "buf_rep b h c r" "length c < 2"
  shows "read_string b a cap = (1, a, b)" and "read_string_alloc b = (None, b)"
proof -
  have "buf_read_u16 b = (- 1, b)"
    using bd.consume_short [OF assms(1), of 2] assms(2) by (simp add: buf_read_u16_def)
  moreover have "snd (buf_advance b (- 1)) = b" by (simp add: buf_advance_def)
  ultimately show "read_string b a cap = (1, a, b)" "read_string_alloc b = (None, b)"
    by (simp_all add: read_string_def read_string_alloc_def)
qed

section \<open>The whole message\<close>

definition source_bytes :: "bool \<Rightarrow> key_source \<Rightarrow> u8 list" where
  "source_bytes server k = (if server then [] else src_pre_master k) @ src_random1 k @ src_random2 k"

definition source_ok :: "key_source \<Rightarrow> bool" where
  "source_ok k = (length (src_pre_master k) = 48 \<and> length (src_random1 k) = 32 \<and> length (src_random2 k) = 32)"

text \<open>What the random bytes \<open>rnd\<close> make the own half: a server has no pre-master secret.\<close>

definition own_source :: "bool \<Rightarrow> key_source \<Rightarrow> key_source" where
  "own_source server rnd = (if server then rnd\<lparr>src_pre_master := replicate 48 0\<rparr> else rnd)"

definition credential_bytes :: "(u8 list \<times> u8 list) option \<Rightarrow> u8 list" where
  "credential_bytes cr = (case cr of None \<Rightarrow> [0, 0] @ [0, 0] | Some (u, p) \<Rightarrow> str_field u @ str_field p)"

definition info_bytes :: "u8 list option \<Rightarrow> u8 list" where
  "info_bytes info = (case info of None \<Rightarrow> [0, 0] | Some s \<Rightarrow> str_field s)"

definition message_bytes ::
  "bool \<Rightarrow> key_source \<Rightarrow> u8 list \<Rightarrow> (u8 list \<times> u8 list) option \<Rightarrow> u8 list option \<Rightarrow> u8 list" where
  "message_bytes server rnd opts cr info =
     [0, 0, 0, 0, 2] @ source_bytes server rnd @ str_field opts @ credential_bytes cr @ info_bytes info"

definition credentials_ok :: "(u8 list \<times> u8 list) option \<Rightarrow> bool" where
  "credentials_ok cr = (case cr of None \<Rightarrow> True | Some (u, p) \<Rightarrow> str_ok 128 u \<and> str_ok 128 p)"

definition info_ok :: "u8 list option \<Rightarrow> bool" where
  "info_ok info = (case info of None \<Rightarrow> True | Some s \<Rightarrow> str_ok 65535 s)"

lemma write_source_rep:
  assumes "buf_rep b h c r" "source_ok rnd" "length (source_bytes server rnd) \<le> r"
  obtains b' where "write_source b server rnd = (True, own_source server rnd, b')"
    "buf_rep b' h (c @ source_bytes server rnd) (r - length (source_bytes server rnd))"
proof -
  have l: "length (src_pre_master rnd) = 48" "length (src_random1 rnd) = 32" "length (src_random2 rnd) = 32"
    using assms(2) by (simp_all add: source_ok_def)
  let ?pre = "if server then [] else src_pre_master rnd"
  obtain b0 where b0: "(if server then (True, b) else buf_write b (src_pre_master rnd)) = (True, b0)"
    "buf_rep b0 h (c @ ?pre) (r - length ?pre)"
  proof (cases server)
    case False
    obtain b0 where "buf_write b (src_pre_master rnd) = (True, b0)"
      "buf_rep b0 h (c @ src_pre_master rnd) (r - length (src_pre_master rnd))"
      by (rule bd.appendE [OF assms(1), of "src_pre_master rnd"])
        (use assms(3) l False in \<open>auto simp: source_bytes_def BUF_SIZE_MAX_def\<close>)
    then show ?thesis using False that by simp
  qed (use assms(1) that in auto)
  obtain b1 where b1: "buf_write b0 (src_random1 rnd) = (True, b1)"
    "buf_rep b1 h ((c @ ?pre) @ src_random1 rnd) (r - length ?pre - length (src_random1 rnd))"
    by (rule bd.appendE [OF b0(2), of "src_random1 rnd"])
      (use assms(3) l in \<open>auto simp: source_bytes_def BUF_SIZE_MAX_def\<close>)
  obtain b2 where b2: "buf_write b1 (src_random2 rnd) = (True, b2)"
    "buf_rep b2 h (((c @ ?pre) @ src_random1 rnd) @ src_random2 rnd)
       (r - length ?pre - length (src_random1 rnd) - length (src_random2 rnd))"
    by (rule bd.appendE [OF b1(2), of "src_random2 rnd"])
      (use assms(3) l in \<open>auto simp: source_bytes_def BUF_SIZE_MAX_def\<close>)
  have "write_source b server rnd = (True, own_source server rnd, b2)"
    using b0(1) b1(1) b2(1)
    by (cases server) (simp_all add: write_source_def random_bytes_to_buf_def own_source_def cleared_source_def Let_def)
  moreover have "buf_rep b2 h (c @ source_bytes server rnd) (r - length (source_bytes server rnd))"
    using b2(2) l by (cases server) (simp_all add: source_bytes_def)
  ultimately show ?thesis using that by blast
qed

lemma read_source_rep:
  assumes "buf_rep b h (source_bytes (\<not> server) rnd @ c) r" "source_ok rnd"
  obtains b' where "read_source b server = (True, own_source (\<not> server) rnd, b')"
    "buf_rep b' (h + length (source_bytes (\<not> server) rnd)) c r"
proof -
  have l: "length (src_pre_master rnd) = 48" "length (src_random1 rnd) = 32" "length (src_random2 rnd) = 32"
    using assms(2) by (simp_all add: source_ok_def)
  let ?n = "if server then 48 else 0 :: nat"
  obtain b0 where b0: "(if server then buf_read b 48 else (Some (replicate 48 0), b)) =
      (Some (if server then src_pre_master rnd else replicate 48 0), b0)"
    "buf_rep b0 (h + ?n) (src_random1 rnd @ src_random2 rnd @ c) r"
  proof (cases server)
    case True
    then have "buf_rep b h (src_pre_master rnd @ src_random1 rnd @ src_random2 rnd @ c) r"
      using assms(1) by (simp add: source_bytes_def)
    then obtain b0 where "buf_read b (int 48) = (Some (src_pre_master rnd), b0)"
      "buf_rep b0 (h + 48) (src_random1 rnd @ src_random2 rnd @ c) r"
      by (rule bd.consumeE) (use l in auto)
    then show ?thesis using True that by simp
  qed (use assms(1) that in \<open>auto simp: source_bytes_def\<close>)
  obtain b1 where b1: "buf_read b0 (int 32) = (Some (src_random1 rnd), b1)"
    "buf_rep b1 (h + ?n + 32) (src_random2 rnd @ c) r"
    using b0(2) l(2) by (rule bd.consumeE [OF _ sym]) blast
  obtain b2 where b2: "buf_read b1 (int 32) = (Some (src_random2 rnd), b2)" "buf_rep b2 (h + ?n + 32 + 32) c r"
    using b1(2) l(3) by (rule bd.consumeE [OF _ sym]) blast
  have "read_source b server = (True, own_source (\<not> server) rnd, b2)"
    using b0(1) b1(1) b2(1)
    by (cases server) (simp_all add: read_source_def own_source_def cleared_source_def)
  moreover have "buf_rep b2 (h + length (source_bytes (\<not> server) rnd)) c r"
    using b2(2) l by (cases server) (simp_all add: source_bytes_def ac_simps)
  ultimately show ?thesis using that by blast
qed

lemma write_credentials_rep:
  assumes "buf_rep b h c r" "credentials_ok cr" "length (credential_bytes cr) \<le> r"
  obtains b' where "write_credentials b cr = (True, b')"
    "buf_rep b' h (c @ credential_bytes cr) (r - length (credential_bytes cr))"
proof (cases cr)
  case None
  obtain b1 where b1: "write_empty_string b = (True, b1)" "buf_rep b1 h (c @ [0, 0]) (r - 2)"
    by (rule write_empty_string_rep [OF assms(1)]) (use assms(3) None in \<open>simp_all add: credential_bytes_def\<close>)
  obtain b2 where b2: "write_empty_string b1 = (True, b2)" "buf_rep b2 h ((c @ [0, 0]) @ [0, 0]) (r - 2 - 2)"
    by (rule write_empty_string_rep [OF b1(2)]) (use assms(3) None in \<open>simp_all add: credential_bytes_def\<close>)
  show ?thesis
    by (rule that [of b2]) (use b1(1) b2 None in \<open>simp_all add: write_credentials_def credential_bytes_def numeral_eq_Suc\<close>)
next
  case (Some up)
  obtain u p where up: "up = (u, p)" by (cases up)
  have l: "length u + 3 + (length p + 3) \<le> r" "str_ok 128 u" "str_ok 128 p"
    using assms(2,3) Some up by (auto simp: credential_bytes_def credentials_ok_def)
  obtain b1 where b1: "write_string b u (- 1) = (True, b1)" "buf_rep b1 h (c @ str_field u) (r - (length u + 3))"
    by (rule write_string_rep [OF assms(1), of u "- 1"]) (use l in \<open>auto simp: str_ok_def\<close>)
  obtain b2 where b2: "write_string b1 p (- 1) = (True, b2)"
    "buf_rep b2 h ((c @ str_field u) @ str_field p) (r - (length u + 3) - (length p + 3))"
    by (rule write_string_rep [OF b1(2), of p "- 1"]) (use l in \<open>auto simp: str_ok_def\<close>)
  show ?thesis
    by (rule that [of b2]) (use b1(1) b2 Some up in \<open>simp_all add: write_credentials_def credential_bytes_def\<close>)
qed

lemma push_peer_info_rep:
  assumes "buf_rep b h c r" "info_ok info" "length (info_bytes info) \<le> r"
  obtains b' where "push_peer_info b info = (True, b')"
    "buf_rep b' h (c @ info_bytes info) (r - length (info_bytes info))"
proof (cases info)
  case None
  obtain b' where "write_empty_string b = (True, b')" "buf_rep b' h (c @ [0, 0]) (r - 2)"
    by (rule write_empty_string_rep [OF assms(1)]) (use assms(3) None in \<open>simp_all add: info_bytes_def\<close>)
  then show ?thesis using that None by (simp add: push_peer_info_def info_bytes_def numeral_2_eq_2)
next
  case (Some s)
  obtain b' where "write_string b s (- 1) = (True, b')" "buf_rep b' h (c @ str_field s) (r - (length s + 3))"
    by (rule write_string_rep [OF assms(1), of s "- 1"])
      (use assms(2,3) Some in \<open>auto simp: info_bytes_def info_ok_def str_ok_def\<close>)
  then show ?thesis using that Some by (simp add: push_peer_info_def info_bytes_def)
qed

lemma key_method_2_write_rep:
  assumes "buf_rep b h c r" "source_ok rnd" "str_ok 512 opts" "credentials_ok cr" "info_ok info"
    and "length (message_bytes server rnd opts cr info) \<le> h + length c + r"
  obtains b' where "key_method_2_write b src server rnd opts cr info =
      Some (True, set_source server src (own_source server rnd), b')"
    "buf_rep b' 0 (message_bytes server rnd opts cr info)
       (h + length c + r - length (message_bytes server rnd opts cr info))"
proof -
  let ?n = "h + length c + r"
  let ?l = "length (source_bytes server rnd)"
  have room: "5 + ?l + (length opts + 3) + length (credential_bytes cr) + length (info_bytes info) \<le> ?n"
    using assms(6) by (simp add: message_bytes_def)
  obtain b0 where b0: "buf_init b 0 = (True, b0)" "buf_rep b0 0 [] ?n"
    using buf_init_rep [OF assms(1), of 0] by (cases "buf_init b 0") auto
  have be0: "be32 0 = [0, 0, 0, 0]" by (simp add: be32_def)
  obtain b1 where b1: "buf_write b0 (be32 0) = (True, b1)" "buf_rep b1 0 ([] @ be32 0) (?n - length (be32 0))"
    by (rule bd.appendE [OF b0(2), of "be32 0"]) (use room in \<open>auto simp: BUF_SIZE_MAX_def\<close>)
  obtain b2 where b2: "buf_write b1 [KEY_METHOD_2] = (True, b2)"
    "buf_rep b2 0 (([] @ be32 0) @ [KEY_METHOD_2]) (?n - length (be32 0) - length [KEY_METHOD_2])"
    by (rule bd.appendE [OF b1(2), of "[KEY_METHOD_2]"]) (use room in \<open>auto simp: BUF_SIZE_MAX_def\<close>)
  have b2r: "buf_rep b2 0 [0, 0, 0, 0, 2] (?n - 5)" using b2(2) by (simp add: be0 KEY_METHOD_2_def numeral_eq_Suc)
  obtain b3 where b3: "write_source b2 server rnd = (True, own_source server rnd, b3)"
    "buf_rep b3 0 ([0, 0, 0, 0, 2] @ source_bytes server rnd) (?n - 5 - ?l)"
    by (rule write_source_rep [OF b2r assms(2), of server]) (use room in simp, blast)
  obtain b4 where b4: "write_string b3 opts TLS_OPTIONS_LEN = (True, b4)"
    "buf_rep b4 0 (([0, 0, 0, 0, 2] @ source_bytes server rnd) @ str_field opts) (?n - 5 - ?l - (length opts + 3))"
    by (rule write_string_rep [OF b3(2), of opts TLS_OPTIONS_LEN])
      (use room assms(3) in \<open>auto simp: str_ok_def TLS_OPTIONS_LEN_def\<close>)
  obtain b5 where b5: "write_credentials b4 cr = (True, b5)"
    "buf_rep b5 0 ((([0, 0, 0, 0, 2] @ source_bytes server rnd) @ str_field opts) @ credential_bytes cr)
       (?n - 5 - ?l - (length opts + 3) - length (credential_bytes cr))"
    by (rule write_credentials_rep [OF b4(2) assms(4)]) (use room in simp, blast)
  obtain b6 where b6: "push_peer_info b5 info = (True, b6)"
    "buf_rep b6 0 (((([0, 0, 0, 0, 2] @ source_bytes server rnd) @ str_field opts) @ credential_bytes cr) @ info_bytes info)
       (?n - 5 - ?l - (length opts + 3) - length (credential_bytes cr) - length (info_bytes info))"
    by (rule push_peer_info_rep [OF b5(2) assms(5)]) (use room in simp, blast)
  have "key_method_2_write b src server rnd opts cr info = Some (True, set_source server src (own_source server rnd), b6)"
    using b0(1) b1(1) b2(1) b3(1) b4(1) b5(1) b6(1)
    by (simp add: key_method_2_write_def buf_write_u32_def buf_write_u8_def key_source2_randomize_write_def)
  moreover have "buf_rep b6 0 (message_bytes server rnd opts cr info)
      (?n - length (message_bytes server rnd opts cr info))"
    using b6(2) by (simp add: message_bytes_def algebra_simps)
  ultimately show ?thesis using that by blast
qed

text \<open>Who the peer is taken for, by the credentials it sent.\<close>

definition peer_auth :: "auth_options \<Rightarrow> (u8 list \<times> u8 list) option \<Rightarrow> ks_auth_state option" where
  "peer_auth ao cr =
     (if ao_user_pass_enabled ao then
        (case cr of Some (u, p) \<Rightarrow> Some (ao_verify_user_pass ao u p)
         | None \<Rightarrow> if ao_user_pass_optional ao then Some (ao_verify_user_pass ao [] []) else None)
      else if ao_verified ao then Some KS_AUTH_TRUE else None)"

lemma c_str_zeros [simp]: "c_str (replicate n 0) = []"
  unfolding c_str_def by (cases n) auto

lemma read_credentials_rep:
  assumes "buf_rep b h (credential_bytes cr @ c) r" "credentials_ok cr"
  obtains ul u pl p b1 b2 where "read_string b (replicate 128 0) 128 = (ul, u, b1)"
    "read_string b1 (replicate 128 0) 128 = (pl, p, b2)"
    "check_credentials ao ul pl (c_str u) (c_str p) = peer_auth ao cr"
    "buf_rep b2 (h + length (credential_bytes cr)) c r"
proof (cases cr)
  case None
  then have "buf_rep b h ([0, 0] @ [0, 0] @ c) r" using assms(1) by (simp add: credential_bytes_def)
  then obtain b1 where b1: "read_string b (replicate 128 0) 128 = (0, replicate 128 0, b1)"
    "buf_rep b1 (h + 2) ([0, 0] @ c) r" by (rule read_empty)
  obtain b2 where b2: "read_string b1 (replicate 128 0) 128 = (0, replicate 128 0, b2)"
    "buf_rep b2 (h + 2 + 2) c r" by (rule read_empty [OF b1(2)])
  show ?thesis
    by (rule that [OF b1(1) b2(1)])
      (use b2(2) None in \<open>simp_all add: check_credentials_def peer_auth_def credential_bytes_def numeral_eq_Suc\<close>)
next
  case (Some up)
  obtain u p where up: "up = (u, p)" by (cases up)
  have ok: "str_ok 128 u" "str_ok 128 p" using assms(2) Some up by (simp_all add: credentials_ok_def)
  have "buf_rep b h (str_field u @ str_field p @ c) r" using assms(1) Some up by (simp add: credential_bytes_def)
  then obtain a b1 where b1: "read_string b (replicate 128 0) (int 128) = (int (length u) + 1, a, b1)" "c_str a = u"
    "buf_rep b1 (h + (length u + 3)) (str_field p @ c) r" by (rule read_string_rep [OF _ ok(1)]) simp
  obtain a' b2 where b2: "read_string b1 (replicate 128 0) (int 128) = (int (length p) + 1, a', b2)" "c_str a' = p"
    "buf_rep b2 (h + (length u + 3) + (length p + 3)) c r" by (rule read_string_rep [OF b1(3) ok(2)]) simp
  have r: "read_string b (replicate 128 0) 128 = (int (length u) + 1, a, b1)"
    "read_string b1 (replicate 128 0) 128 = (int (length p) + 1, a', b2)"
    using b1(1) b2(1) by simp_all
  show ?thesis
    by (rule that [OF r])
      (use b1(2) b2(2,3) Some up in \<open>auto simp: check_credentials_def peer_auth_def credential_bytes_def ac_simps\<close>)
qed

lemma read_info_rep:
  assumes "buf_rep b h (info_bytes info) r" "info_ok info"
  obtains b' where "read_string_alloc b = (info, b')"
proof (cases info)
  case None
  then show ?thesis using read_empty [of b h "[]" r] assms(1) that by (auto simp: info_bytes_def)
next
  case (Some s)
  then have "buf_rep b h (str_field s @ []) r" using assms(1) by (simp add: info_bytes_def)
  then show ?thesis
    by (rule read_string_alloc_rep) (use assms(2) Some that in \<open>auto simp: info_ok_def str_ok_def\<close>)
qed

text \<open>What the reader knows when the message has been read.\<close>

definition learned ::
  "auth_options \<Rightarrow> peer_state \<Rightarrow> key_source \<Rightarrow> u8 list \<Rightarrow> u8 list option \<Rightarrow> ks_auth_state \<Rightarrow> peer_state" where
  "learned ao pe rnd opts info auth =
     \<lparr>pe_key_src = set_source (\<not> ao_server ao) (pe_key_src pe) (own_source (\<not> ao_server ao) rnd),
      pe_authenticated = final_auth ao opts auth, pe_peer_info = info,
      pe_remote_ciphername = remote_cipher opts, pe_remote_usescomp = strstr opts comp_lzo_name\<rparr>"

lemma read_options:
  assumes "buf_rep b h (str_field opts @ c) r" "str_ok 512 opts"
  obtains a b' where "read_string b (replicate (nat TLS_OPTIONS_LEN) 0) TLS_OPTIONS_LEN = (int (length opts) + 1, a, b')"
    "c_str a = opts" "buf_rep b' (h + (length opts + 3)) c r"
proof -
  obtain a b' where "read_string b (replicate 512 0) (int 512) = (int (length opts) + 1, a, b')" "c_str a = opts"
    "buf_rep b' (h + (length opts + 3)) c r" by (rule read_string_rep [OF assms]) simp
  then show ?thesis using that by (simp add: TLS_OPTIONS_LEN_def)
qed

lemma read_peer_rep:
  assumes "buf_rep b h (str_field opts @ credential_bytes cr @ info_bytes info) r"
    "str_ok 512 opts" "credentials_ok cr" "info_ok info" "peer_auth ao cr = Some auth"
  obtains b' where "read_peer ao pe b = (True, pe\<lparr>pe_authenticated := final_auth ao opts auth, pe_peer_info := info,
      pe_remote_ciphername := remote_cipher opts, pe_remote_usescomp := strstr opts comp_lzo_name\<rparr>, b')"
proof -
  obtain a b1 where b1: "read_string b (replicate (nat TLS_OPTIONS_LEN) 0) TLS_OPTIONS_LEN = (int (length opts) + 1, a, b1)"
    "c_str a = opts" "buf_rep b1 (h + (length opts + 3)) (credential_bytes cr @ info_bytes info) r"
    by (rule read_options [OF assms(1,2)])
  obtain ul u pl p b2 b3 where b2: "read_string b1 (replicate 128 0) 128 = (ul, u, b2)"
    "read_string b2 (replicate 128 0) 128 = (pl, p, b3)"
    "check_credentials ao ul pl (c_str u) (c_str p) = peer_auth ao cr"
    "buf_rep b3 (h + (length opts + 3) + length (credential_bytes cr)) (info_bytes info) r"
    by (rule read_credentials_rep [OF b1(3) assms(3)])
  obtain b4 where b4: "read_string_alloc b3 = (info, b4)" by (rule read_info_rep [OF b2(4) assms(4)])
  show ?thesis
    using b1(1,2) b2(1-3) b4 assms(5) that by (simp add: read_peer_def USER_PASS_LEN_def Let_def)
qed

lemma read_front:
  assumes "buf_rep b h ([0, 0, 0, 0, 2] @ c) r"
  obtains b1 b2 where "buf_advance b 4 = (True, b1)" "buf_read_u8 b1 = (2, b2)" "buf_rep b2 (h + 5) c r"
proof -
  have "buf_rep b h ([0, 0, 0, 0] @ 2 # c) r" using assms by simp
  then obtain b1 where b1: "buf_advance b 4 = (True, b1)" "buf_rep b1 (h + 4) (2 # c) r"
    using buf_advance_rep [of b h "[0, 0, 0, 0]" "2 # c" r] by (cases "buf_advance b 4") (auto simp: numeral_eq_Suc)
  obtain b2 where b2: "buf_advance b1 1 = (True, b2)" "buf_rep b2 (h + 4 + 1) c r"
    using buf_advance_rep [of b1 "h + 4" "[2]" c r] b1(2) by (cases "buf_advance b1 1") auto
  obtain m where m: "b_data b1 = Some m" "b_offset b1 = int (h + 4)" "take (length (2 # c)) (drop (h + 4) m) = 2 # c"
    using b1(2) by (rule buf_rep_cases)
  obtain y ys where "drop (h + 4) m = y # ys" using m(3) by (cases "drop (h + 4) m") auto
  then have "hd (mem_read b1 (b_offset b1) 1) = 2"
    using m by (simp add: mem_read_def nat_add_distrib)
  then have "buf_read_u8 b1 = (2, b2)"
    using b1(2) b2(1) by (simp add: buf_read_u8_def buf_rep_simps)
  then show ?thesis using b1(1) b2(2) that by (simp add: numeral_eq_Suc)
qed

text \<open>Up to the key material, whatever follows.\<close>

lemma read_up_to_source:
  assumes "buf_rep b h ([0, 0, 0, 0, 2] @ source_bytes (\<not> ao_server ao) rnd @ c) r" "source_ok rnd"
  obtains b' h' where "key_method_2_read ao pe b = read_peer ao
      (pe\<lparr>pe_key_src := set_source (\<not> ao_server ao) (pe_key_src pe) (own_source (\<not> ao_server ao) rnd)\<rparr>) b'"
    "buf_rep b' h' c r"
proof -
  obtain b1 b2 where b2: "buf_advance b 4 = (True, b1)" "buf_read_u8 b1 = (2, b2)"
    "buf_rep b2 (h + 5) (source_bytes (\<not> ao_server ao) rnd @ c) r"
    using assms(1) by (rule read_front)
  obtain b3 where b3: "read_source b2 (ao_server ao) = (True, own_source (\<not> ao_server ao) rnd, b3)"
    "buf_rep b3 (h + 5 + length (source_bytes (\<not> ao_server ao) rnd)) c r"
    by (rule read_source_rep [OF b2(3) assms(2)])
  have "(2 :: int) AND 15 = 2" by simp
  then show ?thesis
    using that [OF _ b3(2)] b2(1,2) b3(1)
    by (simp add: key_method_2_read_def key_source2_read_def KEY_METHOD_MASK_def)
qed

lemma key_method_2_read_rep:
  assumes "buf_rep b h (message_bytes (\<not> ao_server ao) rnd opts cr info) r" "source_ok rnd"
    "str_ok 512 opts" "credentials_ok cr" "info_ok info" "peer_auth ao cr = Some auth"
  obtains b' where "key_method_2_read ao pe b = (True, learned ao pe rnd opts info auth, b')"
proof -
  let ?pe = "pe\<lparr>pe_key_src := set_source (\<not> ao_server ao) (pe_key_src pe) (own_source (\<not> ao_server ao) rnd)\<rparr>"
  obtain b1 h1 where b1: "key_method_2_read ao pe b = read_peer ao ?pe b1"
    "buf_rep b1 h1 (str_field opts @ credential_bytes cr @ info_bytes info) r"
    using assms(1) unfolding message_bytes_def by (rule read_up_to_source [OF _ assms(2)])
  obtain b2 where "read_peer ao ?pe b1 = (True, ?pe\<lparr>pe_authenticated := final_auth ao opts auth, pe_peer_info := info,
      pe_remote_ciphername := remote_cipher opts, pe_remote_usescomp := strstr opts comp_lzo_name\<rparr>, b2)"
    by (rule read_peer_rep [OF b1(2) assms(3-6)])
  then show ?thesis using b1(1) that by (simp add: learned_def)
qed

section \<open>Both directions, and the keys\<close>

text \<open>One end of a key exchange: its write buffer, and what goes into its message and its decision.\<close>

record km_end =
  ke_buf :: buffer
  ke_random :: key_source
  ke_options :: "u8 list"
  ke_credentials :: "(u8 list \<times> u8 list) option"
  ke_peer_info :: "u8 list option"
  ke_auth :: auth_options
  ke_peer :: peer_state

definition km_write :: "km_end \<Rightarrow> (bool \<times> key_source2 \<times> buffer) option" where
  "km_write e = key_method_2_write (ke_buf e) (pe_key_src (ke_peer e)) (ao_server (ke_auth e)) (ke_random e)
     (ke_options e) (ke_credentials e) (ke_peer_info e)"

text \<open>\<open>e\<close> writes, \<open>e'\<close> reads; the TLS session carries the bytes.\<close>

definition km_send :: "km_end \<Rightarrow> km_end \<Rightarrow> (km_end \<times> km_end) option" where
  "km_send e e' = do {
     (ok, src, msg) \<leftarrow> km_write e;
     _ \<leftarrow> ASSERT ok;
     rb \<leftarrow> buf_set_read (buf_content msg);
     let (ok, pe', _) = key_method_2_read (ke_auth e') (ke_peer e') rb;
     _ \<leftarrow> ASSERT ok;
     Some (e\<lparr>ke_peer := (ke_peer e)\<lparr>pe_key_src := src\<rparr>\<rparr>, e'\<lparr>ke_peer := pe'\<rparr>) }"

definition key_exchange :: "km_end \<Rightarrow> km_end \<Rightarrow> (km_end \<times> km_end) option" where
  "key_exchange c s = do { (c, s) \<leftarrow> km_send c s; (s, c) \<leftarrow> km_send s c; Some (c, s) }"

definition end_bytes :: "km_end \<Rightarrow> u8 list" where
  "end_bytes e = message_bytes (ao_server (ke_auth e)) (ke_random e) (ke_options e) (ke_credentials e) (ke_peer_info e)"

text \<open>An end whose message can be written, and which accepts the credentials of its peer \<open>e'\<close>.\<close>

definition end_ok :: "km_end \<Rightarrow> km_end \<Rightarrow> bool" where
  "end_ok e e' = (source_ok (ke_random e) \<and> str_ok 512 (ke_options e) \<and> credentials_ok (ke_credentials e) \<and>
     info_ok (ke_peer_info e) \<and> buf_wf (ke_buf e) \<and> buf_defined (ke_buf e) \<and>
     int (length (end_bytes e)) \<le> b_capacity (ke_buf e) \<and> b_capacity (ke_buf e) < BUF_SIZE_MAX \<and>
     peer_auth (ke_auth e) (ke_credentials e') \<noteq> None)"

definition own_half :: "km_end \<Rightarrow> key_source" where
  "own_half e = own_source (ao_server (ke_auth e)) (ke_random e)"

definition after_read :: "km_end \<Rightarrow> km_end \<Rightarrow> peer_state" where
  "after_read e e' = learned (ke_auth e') (ke_peer e') (ke_random e) (ke_options e) (ke_peer_info e)
     (the (peer_auth (ke_auth e') (ke_credentials e)))"

lemma km_send_ok:
  assumes "end_ok e e'" "peer_auth (ke_auth e') (ke_credentials e) \<noteq> None" "ao_server (ke_auth e') = (\<not> ao_server (ke_auth e))"
  shows "km_send e e' = Some (e\<lparr>ke_peer := (ke_peer e)\<lparr>pe_key_src :=
      set_source (ao_server (ke_auth e)) (pe_key_src (ke_peer e)) (own_half e)\<rparr>\<rparr>, e'\<lparr>ke_peer := after_read e e'\<rparr>)"
proof -
  have ok: "source_ok (ke_random e)" "str_ok 512 (ke_options e)" "credentials_ok (ke_credentials e)" "info_ok (ke_peer_info e)"
    using assms(1) by (simp_all add: end_ok_def)
  obtain h c r where b: "buf_rep (ke_buf e) h c r"
    using assms(1) buf_wf_rep [of "ke_buf e"] by (auto simp: end_ok_def)
  have cap: "length (end_bytes e) \<le> h + length c + r" "h + length c + r < nat BUF_SIZE_MAX"
    using assms(1) b by (auto simp: end_ok_def buf_rep_simps BUF_SIZE_MAX_def)
  obtain msg n where msg: "km_write e = Some (True, set_source (ao_server (ke_auth e)) (pe_key_src (ke_peer e)) (own_half e), msg)"
    "buf_rep msg 0 (end_bytes e) n"
    unfolding km_write_def own_half_def
    by (rule key_method_2_write_rep [OF b ok]) (use cap(1) end_bytes_def in auto)
  have "int (length (end_bytes e)) < BUF_SIZE_MAX" using cap by (simp add: BUF_SIZE_MAX_def)
  then obtain rb where rb: "buf_set_read (end_bytes e) = Some rb" "buf_rep rb 0 (end_bytes e) 0"
    by (simp add: buf_set_read_def buf_size_valid_def buf_rep_iff)
  obtain rb' where "key_method_2_read (ke_auth e') (ke_peer e') rb = (True, after_read e e', rb')"
  proof -
    have "buf_rep rb 0 (message_bytes (\<not> ao_server (ke_auth e')) (ke_random e) (ke_options e) (ke_credentials e) (ke_peer_info e)) 0"
      using rb(2) assms(3) by (simp add: end_bytes_def)
    moreover obtain auth where "peer_auth (ke_auth e') (ke_credentials e) = Some auth" using assms(2) by blast
    ultimately show ?thesis
      using key_method_2_read_rep [OF _ ok, of rb 0 "ke_auth e'" 0 auth "ke_peer e'"] that by (auto simp: after_read_def)
  qed
  then show ?thesis using msg(1) rb(1) buf_rep_simps(1) [OF msg(2)] by (simp add: km_send_def)
qed

lemma key_exchange_ok:
  assumes "end_ok c s" "end_ok s c" "\<not> ao_server (ke_auth c)" "ao_server (ke_auth s)"
  shows "\<exists>c' s'. key_exchange c s = Some (c', s') \<and>
    pe_key_src (ke_peer c') = \<lparr>k2_client = own_half c, k2_server = own_half s\<rparr> \<and>
    pe_key_src (ke_peer s') = \<lparr>k2_client = own_half c, k2_server = own_half s\<rparr> \<and>
    pe_authenticated (ke_peer s') = pe_authenticated (after_read c s) \<and>
    pe_authenticated (ke_peer c') = pe_authenticated (after_read s c)"
proof -
  let ?c = "c\<lparr>ke_peer := (ke_peer c)\<lparr>pe_key_src := set_source False (pe_key_src (ke_peer c)) (own_half c)\<rparr>\<rparr>"
  let ?s = "s\<lparr>ke_peer := after_read c s\<rparr>"
  have 1: "km_send c s = Some (?c, ?s)"
    using km_send_ok [OF assms(1)] assms(2-4) by (simp add: end_ok_def)
  have "end_ok ?s ?c" "end_ok ?c ?s" using assms(1,2) by (simp_all add: end_ok_def end_bytes_def)
  then have 2: "km_send ?s ?c = Some (?s\<lparr>ke_peer := (ke_peer ?s)\<lparr>pe_key_src :=
      set_source True (pe_key_src (ke_peer ?s)) (own_half ?s)\<rparr>\<rparr>, ?c\<lparr>ke_peer := after_read ?s ?c\<rparr>)"
    using km_send_ok [of ?s ?c] assms(3,4) by (simp add: end_ok_def)
  have "key_exchange c s = Some (?c\<lparr>ke_peer := after_read ?s ?c\<rparr>, ?s\<lparr>ke_peer := (ke_peer ?s)\<lparr>pe_key_src :=
      set_source True (pe_key_src (ke_peer ?s)) (own_half ?s)\<rparr>\<rparr>)"
    by (simp only: key_exchange_def 1 2 Option.bind.simps prod.case)
  then show ?thesis
    using assms(3,4) by (simp add: after_read_def learned_def set_source_def own_half_def)
qed

lemma epoch_init_key_ctx_keys:
  assumes "epoch_init_key_ctx hm co kt lim e1 e2 n = Some co'"
  shows "(\<exists>k. epoch_data_key_derive hm e1 kt = Some k \<and> init_key_bi_ctx_send k kt = Some (co_encrypt co')) \<and>
    (\<exists>k. epoch_data_key_derive hm e2 kt = Some k \<and> init_key_bi_ctx_recv k kt = Some (co_decrypt co'))"
proof -
  let ?co = "co\<lparr>co_epoch_key_recv := e2, co_epoch_key_send := e1, co_epoch_key_type := kt, co_aead_usage_limit := lim\<rparr>"
  obtain co1 ctx where co1: "epoch_init_send_key_ctx hm ?co = Some co1" "epoch_init_recv_key hm co1 = Some ctx"
    "epoch_generate_future_receive_keys hm
       (co1\<lparr>co_decrypt := ctx, co_initialized := True, co_future := replicate n cleared_ctx\<rparr>) = Some co'"
    using assms unfolding epoch_init_key_ctx_def Let_def by (auto simp: bind_eq_Some_conv)
  have keep: "co_encrypt co' = co_encrypt co1" "co_decrypt co' = ctx"
    using generate_future_keeps [OF co1(3)] by simp_all
  obtain k e where k: "epoch_data_key_derive hm e1 kt = Some k" "init_key_bi_ctx_send k kt = Some e"
    "co_encrypt co1 = e" "co_epoch_key_recv co1 = e2" "co_epoch_key_type co1 = kt"
    using co1(1) unfolding epoch_init_send_key_ctx_def by (auto simp: bind_eq_Some_conv)
  then show ?thesis
    using co1(2) keep by (auto simp: epoch_init_recv_key_def bind_eq_Some_conv)
qed

lemma send_recv_same: "init_key_bi_ctx_send = init_key_bi_ctx_recv"
  by (intro ext) (simp add: init_key_bi_ctx_send_def init_key_bi_ctx_recv_def)

text \<open>The same key material gives mirrored contexts.\<close>

lemma init_key_contexts_mirrored:
  assumes "init_key_contexts hm coc kt lim False keys = Some coc'" "init_key_contexts hm cos kt lim True keys = Some cos'"
    and "co_epoch_format coc = co_epoch_format cos"
  shows "co_encrypt coc' = co_decrypt cos' \<and> co_decrypt coc' = co_encrypt cos'"
proof (cases "co_epoch_format coc")
  case True
  then have "init_epoch_keys hm coc kt lim False keys = Some coc'" "init_epoch_keys hm cos kt lim True keys = Some cos'"
    using assms by (simp_all add: init_key_contexts_def)
  then show ?thesis
    by (auto simp: init_epoch_keys_def send_recv_same dest!: epoch_init_key_ctx_keys)
next
  case False
  then show ?thesis
    using assms by (auto simp: init_key_contexts_def init_key_ctx_bi_def send_recv_same bind_eq_Some_conv)
qed

lemma prf_expansion_mirrored:
  "generate_key_expansion_openvpn_prf prf True a b src = generate_key_expansion_openvpn_prf prf False b a src"
  by (simp add: generate_key_expansion_openvpn_prf_def)

text \<open>The seed buffer of the PRF is large enough.\<close>

lemma openvpn_PRF_eq:
  assumes "length label + length cs + length ss < 1000" "\<And>s. csid = Some s \<Longrightarrow> length s = 8" "\<And>s. ssid = Some s \<Longrightarrow> length s = 8"
  shows "openvpn_PRF prf secret label cs ss csid ssid n = Some (prf (label @ cs @ ss @ sid_bytes csid @ sid_bytes ssid) secret n)"
proof -
  let ?n = "length label + length cs + length ss + 16"
  have "\<exists>b. alloc_buf (int ?n) = Some b \<and> buf_rep b 0 [] (nat (int ?n))"
    by (rule alloc_buf_rep) (use assms(1) in \<open>auto simp: BUF_SIZE_MAX_def\<close>)
  then obtain b0 where b0: "alloc_buf (int ?n) = Some b0" "buf_rep b0 0 [] ?n"
    unfolding nat_int by blast
  obtain b1 where b1: "buf_write b0 label = (True, b1)" "buf_rep b1 0 ([] @ label) (?n - length label)"
    by (rule bd.appendE [OF b0(2), of label]) (use assms(1) in \<open>auto simp: BUF_SIZE_MAX_def\<close>)
  obtain b2 where b2: "buf_write b1 cs = (True, b2)" "buf_rep b2 0 (([] @ label) @ cs) (?n - length label - length cs)"
    by (rule bd.appendE [OF b1(2), of cs]) (use assms(1) in \<open>auto simp: BUF_SIZE_MAX_def\<close>)
  obtain b3 where b3: "buf_write b2 ss = (True, b3)"
    "buf_rep b3 0 ((([] @ label) @ cs) @ ss) (?n - length label - length cs - length ss)"
    by (rule bd.appendE [OF b2(2), of ss]) (use assms(1) in \<open>auto simp: BUF_SIZE_MAX_def\<close>)
  have r3: "buf_rep b3 0 (label @ cs @ ss) 16" using b3(2) by simp
  obtain b4 r4 where b4: "(case csid of None \<Rightarrow> (True, b3) | Some s \<Rightarrow> buf_write b3 s) = (True, b4)"
    "buf_rep b4 0 ((label @ cs @ ss) @ sid_bytes csid) r4" "8 \<le> r4"
  proof (cases csid)
    case None
    then show ?thesis using r3 that by (simp add: sid_bytes_def)
  next
    case (Some s)
    obtain b4 where "buf_write b3 s = (True, b4)" "buf_rep b4 0 ((label @ cs @ ss) @ s) (16 - length s)"
      by (rule bd.appendE [OF r3, of s]) (use assms(2) [OF Some] in \<open>auto simp: BUF_SIZE_MAX_def\<close>)
    then show ?thesis using that assms(2) [OF Some] Some by (simp add: sid_bytes_def)
  qed
  obtain b5 where b5: "(case ssid of None \<Rightarrow> (True, b4) | Some s \<Rightarrow> buf_write b4 s) = (True, b5)"
    "buf_content b5 = ((label @ cs @ ss) @ sid_bytes csid) @ sid_bytes ssid"
  proof (cases ssid)
    case None
    then show ?thesis using buf_rep_simps(1) [OF b4(2)] that by (simp add: sid_bytes_def)
  next
    case (Some s)
    obtain b5 where "buf_write b4 s = (True, b5)" "buf_rep b5 0 (((label @ cs @ ss) @ sid_bytes csid) @ s) (r4 - length s)"
      by (rule bd.appendE [OF b4(2), of s]) (use assms(3) [OF Some] b4(3) in \<open>auto simp: BUF_SIZE_MAX_def\<close>)
    then show ?thesis using buf_rep_simps(1) that Some by (auto simp: sid_bytes_def)
  qed
  have "int (length label + length cs + length ss + 8 * 2) = int ?n" by simp
  then show ?thesis
    unfolding openvpn_PRF_def using b0(1) b1(1) b2(1) b3(1) b4(1) b5 by simp
qed

section \<open>Properties\<close>

lemma rep_of_content:
  assumes "buf_wf b" "buf_content b = c" "c \<noteq> []"
  obtains h r where "buf_rep b h c r"
proof -
  have "buf_defined b" using assms(2,3) by (cases "b_data b") (auto simp: buf_content_def buf_defined_def)
  then show ?thesis using buf_wf_rep [OF assms(1)] assms(2) that by (metis buf_rep_simps(1))
qed

lemma message_not_empty [simp]: "message_bytes server rnd opts cr info \<noteq> []"
  by (simp add: message_bytes_def)

text \<open>
  C13: the message that one end writes, from its random bytes, options, user name and password and peer
  info, is read by the other end without loss: it takes over the key material, the peer info and
  the cipher named in the options, and decides about the peer by exactly the user name and
  password that were sent.
\<close>

theorem key_exchange_roundtrip:
  assumes "buf_rep b h c r" "length (message_bytes server rnd opts cr info) \<le> h + length c + r"
    and "source_ok rnd" "str_ok 512 opts" "credentials_ok cr" "info_ok info"
    and "ao_server ao = (\<not> server)" "peer_auth ao cr = Some auth"
  shows "\<exists>msg. key_method_2_write b src server rnd opts cr info =
      Some (True, set_source server src (own_source server rnd), msg) \<and>
    (\<forall>rb. buf_wf rb \<and> buf_content rb = buf_content msg \<longrightarrow>
      (\<exists>rb'. key_method_2_read ao pe rb = (True, learned ao pe rnd opts info auth, rb')))"
proof -
  obtain msg where w: "key_method_2_write b src server rnd opts cr info =
      Some (True, set_source server src (own_source server rnd), msg)"
    "buf_content msg = message_bytes server rnd opts cr info"
    using key_method_2_write_rep [OF assms(1,3-6,2)] by (metis buf_rep_simps(1))
  have "\<exists>rb'. key_method_2_read ao pe rb = (True, learned ao pe rnd opts info auth, rb')"
    if rb: "buf_wf rb" "buf_content rb = buf_content msg" for rb
  proof -
    obtain h' r' where "buf_rep rb h' (message_bytes (\<not> ao_server ao) rnd opts cr info) r'"
      by (rule rep_of_content [of rb "message_bytes (\<not> ao_server ao) rnd opts cr info"])
        (use rb w(2) assms(7) in simp_all)
    then show ?thesis by (rule key_method_2_read_rep [OF _ assms(3-6,8)]) blast
  qed
  then show ?thesis using w(1) by blast
qed

text \<open>A client with a user name and a server that checks it.\<close>

definition sample_source :: key_source where
  "sample_source = \<lparr>src_pre_master = replicate 48 1, src_random1 = replicate 32 2, src_random2 = replicate 32 3\<rparr>"

definition sample_auth :: "bool \<Rightarrow> auth_options" where
  "sample_auth server = \<lparr>ao_server = server, ao_remote_options = [86, 52], ao_opt_verify = True,
     ao_user_pass_optional = False, ao_user_pass_enabled = server, ao_verified = True,
     ao_verify_user_pass = (\<lambda>u p. if u = [117] \<and> p = [112] then KS_AUTH_TRUE else KS_AUTH_FALSE),
     ao_final_auth_checks = (\<lambda>a. a), ao_plugin_final = None\<rparr>"

definition sample_peer :: peer_state where
  "sample_peer = \<lparr>pe_key_src = cleared_source2, pe_authenticated = KS_AUTH_FALSE, pe_peer_info = None,
     pe_remote_ciphername = None, pe_remote_usescomp = False\<rparr>"

definition empty_buffer :: "nat \<Rightarrow> buffer" where
  "empty_buffer n = \<lparr>b_capacity = int n, b_offset = 0, b_len = 0, b_data = Some (replicate n 0)\<rparr>"

lemma empty_buffer_rep: "buf_rep (empty_buffer n) 0 [] n"
  by (simp add: buf_rep_iff empty_buffer_def)

lemma sample_ok: "source_ok sample_source" "str_ok 512 [86, 52]" "credentials_ok (Some ([117], [112]))"
  "info_ok None" "credentials_ok None" "info_ok (Some [65])"
  by (simp_all add: source_ok_def sample_source_def str_ok_def credentials_ok_def info_ok_def)

theorem key_exchange_roundtrip_witness:
  "\<exists>msg. key_method_2_write (empty_buffer 2048) cleared_source2 False sample_source [86, 52]
      (Some ([117], [112])) None =
      Some (True, set_source False cleared_source2 (own_source False sample_source), msg) \<and>
    (\<forall>rb. buf_wf rb \<and> buf_content rb = buf_content msg \<longrightarrow>
      (\<exists>rb'. key_method_2_read (sample_auth True) sample_peer rb =
        (True, learned (sample_auth True) sample_peer sample_source [86, 52] None KS_AUTH_TRUE, rb')))"
  by (rule key_exchange_roundtrip [OF empty_buffer_rep _ sample_ok(1-4)])
    (simp_all add: message_bytes_def source_bytes_def sample_source_def credential_bytes_def info_bytes_def
      sample_auth_def peer_auth_def)

text \<open>
  C40: a message that ends behind the options string, without the fields of user name and password,
  does not count as one without credentials. \<open>read_string\<close> returns 1 for a field whose
  length is missing, and the empty user name and password go to \<open>verify_user_pass\<close>, even where a
  user name is required. Empty fields, by contrast, are the error that was meant.
\<close>

theorem absent_credentials_accepted:
  assumes "buf_rep b h ([0, 0, 0, 0, 2] @ source_bytes (\<not> ao_server ao) rnd @ str_field opts) r"
    and "buf_rep b2 h ([0, 0, 0, 0, 2] @ source_bytes (\<not> ao_server ao) rnd @ str_field opts @ [0, 0] @ [0, 0]) r"
    and "source_ok rnd" "str_ok 512 opts" "ao_user_pass_enabled ao" "\<not> ao_user_pass_optional ao"
  shows "(\<exists>b'. key_method_2_read ao pe b =
      (True, learned ao pe rnd opts None (ao_verify_user_pass ao [] []), b')) \<and>
    \<not> fst (key_method_2_read ao pe b2)"
proof
  let ?pe = "pe\<lparr>pe_key_src := set_source (\<not> ao_server ao) (pe_key_src pe) (own_source (\<not> ao_server ao) rnd)\<rparr>"
  have "buf_rep b h ([0, 0, 0, 0, 2] @ source_bytes (\<not> ao_server ao) rnd @ (str_field opts @ [])) r"
    using assms(1) by simp
  then obtain b1 h1 where b1: "key_method_2_read ao pe b = read_peer ao ?pe b1" "buf_rep b1 h1 (str_field opts @ []) r"
    by (rule read_up_to_source [OF _ assms(3)])
  obtain a b2 where r: "read_string b1 (replicate (nat TLS_OPTIONS_LEN) 0) TLS_OPTIONS_LEN = (int (length opts) + 1, a, b2)"
    "c_str a = opts" "buf_rep b2 (h1 + (length opts + 3)) [] r"
    by (rule read_options [OF b1(2) assms(4)])
  have "read_string b2 x n = (1, x, b2)" "read_string_alloc b2 = (None, b2)" for x n
    using read_string_absent [OF r(3)] by simp_all
  then show "\<exists>b'. key_method_2_read ao pe b =
      (True, learned ao pe rnd opts None (ao_verify_user_pass ao [] []), b')"
    using b1(1) r(1,2) assms(5) by (simp add: read_peer_def check_credentials_def learned_def Let_def)
next
  let ?pe = "pe\<lparr>pe_key_src := set_source (\<not> ao_server ao) (pe_key_src pe) (own_source (\<not> ao_server ao) rnd)\<rparr>"
  have "buf_rep b2 h ([0, 0, 0, 0, 2] @ source_bytes (\<not> ao_server ao) rnd @
      (str_field opts @ credential_bytes None @ [])) r"
    using assms(2) by (simp add: credential_bytes_def)
  then obtain b1 h1 where b1: "key_method_2_read ao pe b2 = read_peer ao ?pe b1"
    "buf_rep b1 h1 (str_field opts @ credential_bytes None @ []) r"
    by (rule read_up_to_source [OF _ assms(3)])
  obtain a b3 where r: "read_string b1 (replicate (nat TLS_OPTIONS_LEN) 0) TLS_OPTIONS_LEN = (int (length opts) + 1, a, b3)"
    "c_str a = opts" "buf_rep b3 (h1 + (length opts + 3)) (credential_bytes None @ []) r"
    by (rule read_options [OF b1(2) assms(4)])
  obtain ul u pl p b4 b5 where c: "read_string b3 (replicate 128 0) 128 = (ul, u, b4)"
    "read_string b4 (replicate 128 0) 128 = (pl, p, b5)"
    "check_credentials ao ul pl (c_str u) (c_str p) = peer_auth ao None"
    by (rule read_credentials_rep [OF r(3) sample_ok(5)])
  have "peer_auth ao None = None" using assms(5,6) by (simp add: peer_auth_def)
  then show "\<not> fst (key_method_2_read ao pe b2)"
    using b1(1) r(1,2) c
    by (simp add: read_peer_def Let_def USER_PASS_LEN_def key_method_2_error_def split: prod.split)
qed

theorem absent_credentials_accepted_witness:
  "\<exists>b b2 rb. key_method_2_read (sample_auth True) sample_peer b =
      (True, learned (sample_auth True) sample_peer sample_source [86, 52] None KS_AUTH_FALSE, rb) \<and>
    \<not> fst (key_method_2_read (sample_auth True) sample_peer b2)"
proof -
  let ?c = "[0, 0, 0, 0, 2] @ source_bytes False sample_source @ str_field [86, 52]"
  let ?c2 = "[0, 0, 0, 0, 2] @ source_bytes False sample_source @ str_field [86, 52] @ [0, 0] @ [0, 0]"
  have rep: "buf_rep \<lparr>b_capacity = int (length c), b_offset = 0, b_len = int (length c), b_data = Some c\<rparr> 0 c 0" for c
    by (simp add: buf_rep_iff)
  have "ao_server (sample_auth True)" "ao_user_pass_enabled (sample_auth True)"
    "\<not> ao_user_pass_optional (sample_auth True)" "ao_verify_user_pass (sample_auth True) [] [] = KS_AUTH_FALSE"
    by (simp_all add: sample_auth_def)
  then show ?thesis
    using absent_credentials_accepted [of _ _ "sample_auth True" sample_source "[86, 52]", OF _ _ sample_ok(1,2)]
      rep [of ?c] rep [of ?c2] by fastforce
qed

text \<open>
  C10: a client and a server that exchange one message in each direction hold the same key material
  (the client's pre-master secret and both ends' random bytes), and the data channel keys they derive
  from it fit: what the client encrypts with is what the server decrypts with, and the other way
  round, for both formats of the data channel and both ways to expand the keys.
\<close>

theorem data_channel_keys_agree:
  assumes "end_ok c s" "end_ok s c" "\<not> ao_server (ke_auth c)" "ao_server (ke_auth s)"
    and "src = \<lparr>k2_client = own_half c, k2_server = own_half s\<rparr>"
    and "generate_key_expansion hm prf export kt lim use_export False sid_c sid_s src coc = Some (True, coc')"
    and "generate_key_expansion hm prf export kt lim use_export True sid_s sid_c src cos = Some (True, cos')"
    and "co_epoch_format coc = co_epoch_format cos"
  shows "(\<exists>c' s'. key_exchange c s = Some (c', s') \<and> pe_key_src (ke_peer c') = src \<and> pe_key_src (ke_peer s') = src) \<and>
    co_encrypt coc' = co_decrypt cos' \<and> co_decrypt coc' = co_encrypt cos'"
proof -
  obtain keys where "init_key_contexts hm coc kt lim False keys = Some coc'" "init_key_contexts hm cos kt lim True keys = Some cos'"
    using assms(6,7)
    by (auto simp: generate_key_expansion_def prf_expansion_mirrored [of "prf" sid_s] bind_eq_Some_conv split: if_splits option.splits)
  then show ?thesis
    using init_key_contexts_mirrored assms(8) key_exchange_ok [OF assms(1-4)] assms(5) by blast
qed

definition sample_client :: km_end where
  "sample_client = \<lparr>ke_buf = empty_buffer 2048, ke_random = sample_source, ke_options = [86, 52],
     ke_credentials = Some ([117], [112]), ke_peer_info = Some [65], ke_auth = sample_auth False, ke_peer = sample_peer\<rparr>"

definition sample_server :: km_end where
  "sample_server = \<lparr>ke_buf = empty_buffer 2048, ke_random = sample_source, ke_options = [86, 52],
     ke_credentials = None, ke_peer_info = None, ke_auth = sample_auth True, ke_peer = sample_peer\<rparr>"

definition sample_options :: crypto_options where
  "sample_options = \<lparr>co_encrypt = cleared_ctx, co_decrypt = cleared_ctx, co_initialized = False,
     co_epoch_key_send = \<lparr>ek_key = [], ek_epoch = 0\<rparr>, co_epoch_key_recv = \<lparr>ek_key = [], ek_epoch = 0\<rparr>,
     co_epoch_key_type = \<lparr>kt_key_size = 32, kt_iv_size = 12\<rparr>, co_aead_usage_limit = 0, co_future = [],
     co_retiring = cleared_ctx, co_retiring_pid = cleared_rec,
     co_packet_id = \<lparr>pid_send = \<lparr>ps_id = 0, ps_time = 0\<rparr>, pid_rec = cleared_rec\<rparr>,
     co_epoch_format = False, co_long_form = False, co_ignore_packet_id = False\<rparr>"

definition sample_prf :: prf_fun where
  "sample_prf seed secret n = Some (replicate (n div 2) 1 @ replicate (n - n div 2) 2)"

definition sample_keys :: "crypto_key list" where
  "sample_keys = [\<lparr>ck_cipher = replicate 64 1, ck_hmac = replicate 64 1\<rparr>, \<lparr>ck_cipher = replicate 64 2, ck_hmac = replicate 64 2\<rparr>]"

lemma sample_expansion:
  "\<exists>co. generate_key_expansion hm sample_prf None \<lparr>kt_key_size = 32, kt_iv_size = 12\<rparr> 0 False server
    (replicate 8 7) (replicate 8 7) \<lparr>k2_client = sample_source, k2_server = own_source True sample_source\<rparr>
    sample_options = Some (True, co)"
proof -
  have PRF: "openvpn_PRF sample_prf secret label (replicate 32 x) (replicate 32 y) csid ssid n = Some (sample_prf s secret n)"
    if "length label < 100" "csid = None \<or> csid = Some (replicate 8 7)" "ssid = None \<or> ssid = Some (replicate 8 7)"
    for secret label x y csid ssid n s
    using that by (subst openvpn_PRF_eq) (auto simp: sample_prf_def)
  have l: "length master_label < 100" "length expansion_label < 100"
    by (simp_all add: master_label_def expansion_label_def)
  have 1: "openvpn_PRF sample_prf secret master_label (replicate 32 x) (replicate 32 y) None None 48 =
      Some (Some (replicate 24 1 @ replicate 24 2))" for secret x y
    using PRF [OF l(1), of None None secret x y 48 "[]"] by (simp add: sample_prf_def)
  have 2: "openvpn_PRF sample_prf secret expansion_label (replicate 32 x) (replicate 32 y)
      (Some (replicate 8 7)) (Some (replicate 8 7)) 256 = Some (Some (replicate 128 1 @ replicate 128 2))" for secret x y
    using PRF [OF l(2), of "Some (replicate 8 7)" "Some (replicate 8 7)" secret x y 256 "[]"] by (simp add: sample_prf_def)
  have "generate_key_expansion_openvpn_prf sample_prf server (replicate 8 7) (replicate 8 7)
      \<lparr>k2_client = sample_source, k2_server = own_source True sample_source\<rparr> = Some (Some sample_keys)"
    by (simp add: generate_key_expansion_openvpn_prf_def sample_source_def own_source_def 1 2
        key2_of_bytes_def sample_keys_def)
  then show ?thesis
    by (cases server) (simp_all add: generate_key_expansion_def sample_options_def sample_keys_def check_key_def key_is_zero_def
        init_key_contexts_def init_key_ctx_bi_def key_parameters_from_key_def init_key_bi_ctx_send_def
        init_key_bi_ctx_recv_def init_key_ctx_def key_ctx_update_implicit_iv_def cleared_ctx_def Let_def
        MAX_CIPHER_KEY_LENGTH_def MAX_HMAC_KEY_LENGTH_def OPENVPN_AEAD_MIN_IV_LEN_def OPENVPN_MAX_IV_LENGTH_def)
qed

theorem data_channel_keys_agree_witness:
  "\<exists>c' s' (coc :: crypto_options) (cos :: crypto_options). key_exchange sample_client sample_server = Some (c', s') \<and>
    pe_key_src (ke_peer c') = pe_key_src (ke_peer s') \<and> co_encrypt coc = co_decrypt cos \<and> co_decrypt coc = co_encrypt cos"
proof -
  let ?src = "\<lparr>k2_client = own_half sample_client, k2_server = own_half sample_server\<rparr>"
  have src: "?src = \<lparr>k2_client = sample_source, k2_server = own_source True sample_source\<rparr>"
    by (simp add: own_half_def sample_client_def sample_server_def sample_auth_def own_source_def)
  obtain coc cos where g:
    "generate_key_expansion (\<lambda>_ _. []) sample_prf None \<lparr>kt_key_size = 32, kt_iv_size = 12\<rparr> 0 False False
      (replicate 8 7) (replicate 8 7) ?src sample_options = Some (True, coc)"
    "generate_key_expansion (\<lambda>_ _. []) sample_prf None \<lparr>kt_key_size = 32, kt_iv_size = 12\<rparr> 0 False True
      (replicate 8 7) (replicate 8 7) ?src sample_options = Some (True, cos)"
    unfolding src using sample_expansion by blast
  have ok: "end_ok sample_client sample_server" "end_ok sample_server sample_client"
    using sample_ok buf_rep_simps [OF empty_buffer_rep [of 2048]]
    by (simp_all add: end_ok_def sample_client_def sample_server_def end_bytes_def message_bytes_def source_bytes_def
        credential_bytes_def info_bytes_def sample_auth_def peer_auth_def sample_source_def BUF_SIZE_MAX_def)
  have "\<not> ao_server (ke_auth sample_client)" "ao_server (ke_auth sample_server)"
    by (simp_all add: sample_client_def sample_server_def sample_auth_def)
  note agree = data_channel_keys_agree [OF ok this refl g refl]
  then obtain c' s' where "key_exchange sample_client sample_server = Some (c', s')"
    "pe_key_src (ke_peer c') = pe_key_src (ke_peer s')" by auto
  then show ?thesis using agree by blast
qed

end
