(* ===== verification/SslPkt.thy ===== *)
theory SslPkt
  imports KeyExchange TlsCrypt ReliableSend
begin

text \<open>
  ssl_pkt.c and ssl_pkt.h: control packets on the wire, without protection, under tls-auth (an HMAC
  behind the session id) or under tls-crypt; the extraction of a tls-crypt-v2 client key from the end
  of a packet (tls_crypt.c); the check of the first packet of a client by a server that keeps no state
  for it, and the cookie in the session id that it answers with.

  \<open>crypto_env\<close> holds the functions of the crypto library. The addresses of a socket belong to one
  family; comparing an undefined address aborts (\<open>ASSERT(0)\<close> of \<open>addr_port_match\<close>).
\<close>

section \<open>Addresses and opcodes\<close>

datatype link_addr = NoAddr | Addr4 "u8 list" | Addr6 "u8 list"

definition link_socket_actual_defined :: "link_addr \<Rightarrow> bool" where
  "link_socket_actual_defined a = (a \<noteq> NoAddr)"

definition link_socket_actual_match :: "link_addr \<Rightarrow> link_addr \<Rightarrow> bool option" where
  "link_socket_actual_match a b = (case a of NoAddr \<Rightarrow> None | _ \<Rightarrow> Some (a = b))"

definition datagram_overhead :: "link_addr \<Rightarrow> bool \<Rightarrow> int" where
  "datagram_overhead a udp = (if udp then 8 else 20) + (case a of Addr4 _ \<Rightarrow> 20 | _ \<Rightarrow> 40)"

definition P_KEY_ID_MASK :: u8 where "P_KEY_ID_MASK = 0x07"
definition P_OPCODE_SHIFT :: nat where "P_OPCODE_SHIFT = 3"
definition P_CONTROL_HARD_RESET_CLIENT_V1 :: int where "P_CONTROL_HARD_RESET_CLIENT_V1 = 1"
definition P_CONTROL_HARD_RESET_SERVER_V1 :: int where "P_CONTROL_HARD_RESET_SERVER_V1 = 2"
definition P_CONTROL_SOFT_RESET_V1 :: int where "P_CONTROL_SOFT_RESET_V1 = 3"
definition P_DATA_V1 :: int where "P_DATA_V1 = 6"
definition P_CONTROL_HARD_RESET_CLIENT_V2 :: int where "P_CONTROL_HARD_RESET_CLIENT_V2 = 7"
definition P_CONTROL_HARD_RESET_SERVER_V2 :: int where "P_CONTROL_HARD_RESET_SERVER_V2 = 8"
definition P_DATA_V2 :: int where "P_DATA_V2 = 9"
definition P_CONTROL_HARD_RESET_CLIENT_V3 :: int where "P_CONTROL_HARD_RESET_CLIENT_V3 = 10"
definition P_FIRST_OPCODE :: int where "P_FIRST_OPCODE = 3"
definition P_LAST_OPCODE :: int where "P_LAST_OPCODE = 11"
definition TLS_RELIABLE_N_SEND_BUFFERS :: nat where "TLS_RELIABLE_N_SEND_BUFFERS = 6"
definition TLS_RELIABLE_N_REC_BUFFERS :: nat where "TLS_RELIABLE_N_REC_BUFFERS = 12"
definition EARLY_NEG_START :: u32 where "EARLY_NEG_START = 0x0f000000"
definition TLV_TYPE_EARLY_NEG_FLAGS :: u16 where "TLV_TYPE_EARLY_NEG_FLAGS = 0x0001"
definition EARLY_NEG_FLAG_RESEND_WKC :: u16 where "EARLY_NEG_FLAG_RESEND_WKC = 0x0001"

text \<open>The first byte of a packet.\<close>

definition packet_header :: "int \<Rightarrow> int \<Rightarrow> u8" where
  "packet_header opcode key_id = word_of_int key_id OR push_bit P_OPCODE_SHIFT (word_of_int opcode)"

definition opcode_of :: "u8 \<Rightarrow> int" where
  "opcode_of c = uint (drop_bit P_OPCODE_SHIFT c)"

definition key_id_of :: "u8 \<Rightarrow> int" where
  "key_id_of c = uint (c AND P_KEY_ID_MASK)"

text \<open>\<open>*BPTR(buf)\<close>\<close>

definition first_byte :: "buffer \<Rightarrow> u8 option" where
  "first_byte buf = do { p \<leftarrow> buf_bptr buf; m \<leftarrow> b_data buf; nth_opt m p }"

definition is_hard_reset_method2 :: "int \<Rightarrow> bool" where
  "is_hard_reset_method2 op \<longleftrightarrow> op = P_CONTROL_HARD_RESET_CLIENT_V2 \<or> op = P_CONTROL_HARD_RESET_SERVER_V2 \<or>
     op = P_CONTROL_HARD_RESET_CLIENT_V3"

section \<open>Wrapping\<close>

datatype tls_wrap_mode = TLS_WRAP_NONE | TLS_WRAP_AUTH | TLS_WRAP_CRYPT

record tls_wrap_ctx =
  tw_mode :: tls_wrap_mode
  tw_opt :: crypto_options
  tw_work :: buffer
  tw_server_key :: key_ctx
  tw_wkc :: buffer
  tw_metadata :: buffer
  tw_cleanup :: bool
  tw_original_key :: "u8 list"

text \<open>The functions of the crypto library, \<open>aead\<close> telling which cipher keys are for AEAD ciphers; the
  random bytes that \<open>prng_bytes\<close> yields.\<close>

record crypto_env =
  ce_hm :: hmac_fun
  ce_aead :: "u8 list \<Rightarrow> bool"
  ce_al :: aead_lib
  ce_cl :: cipher_lib
  ce_prng :: "u8 list"

definition SWAP_BUF_SIZE :: int where "SWAP_BUF_SIZE = 256"

definition swap_hmac :: "cipher_lib \<Rightarrow> buffer \<Rightarrow> crypto_options \<Rightarrow> bool \<Rightarrow> (bool \<times> buffer) option" where
  "swap_hmac lib buf co incoming = do {
     hkey \<leftarrow> kc_hmac (if incoming then co_decrypt co else co_encrypt co);
     let hmac_size = int (cl_hmac_size lib hkey) + packet_id_size True;
     let osid_size = 1 + int SID_SIZE;
     let (e1, e2) = (if incoming then (osid_size, hmac_size) else (hmac_size, osid_size));
     _ \<leftarrow> ASSERT (e1 \<le> SWAP_BUF_SIZE \<and> e2 \<le> SWAP_BUF_SIZE);
     if b_len buf \<ge> e1 + e2 then do {
       b \<leftarrow> buf_bptr buf;
       let buf1 = mem_read buf b e1;
       let buf2 = mem_read buf (b + e1) e2;
       Some (True, mem_write (mem_write buf b buf2) (b + e2) buf1) }
     else Some (False, buf) }"

definition tls_wrap_control ::
  "crypto_env \<Rightarrow> int \<Rightarrow> tls_wrap_ctx \<Rightarrow> u8 \<Rightarrow> buffer \<Rightarrow> session_id \<Rightarrow> (tls_wrap_ctx \<times> buffer) option" where
  "tls_wrap_control ce now ctx header buf sid = do {
     buf \<leftarrow> (if tw_mode ctx = TLS_WRAP_AUTH \<or> tw_mode ctx = TLS_WRAP_NONE then do {
         let (ok, buf) = session_id_write_prepend sid buf;
         _ \<leftarrow> ASSERT ok;
         let (ok, buf) = buf_write_prepend buf [header];
         _ \<leftarrow> ASSERT ok;
         Some buf }
       else Some buf);
     (case tw_mode ctx of
        TLS_WRAP_NONE \<Rightarrow> Some (ctx, buf)
      | TLS_WRAP_AUTH \<Rightarrow> do {
          (buf, opt) \<leftarrow> openvpn_encrypt (ce_hm ce) (ce_aead ce) (ce_al ce) (ce_cl ce) now (ce_prng ce) buf clear_buf (tw_opt ctx);
          (ok, buf) \<leftarrow> swap_hmac (ce_cl ce) buf opt False;
          _ \<leftarrow> ASSERT ok;
          Some (ctx\<lparr>tw_opt := opt\<rparr>, buf) }
      | TLS_WRAP_CRYPT \<Rightarrow> do {
          let (ok, work) = buf_init (tw_work ctx) (b_offset buf);
          _ \<leftarrow> ASSERT ok;
          let (ok, work) = buf_write work [header];
          _ \<leftarrow> ASSERT ok;
          let (ok, work) = session_id_write sid work;
          _ \<leftarrow> ASSERT ok;
          (ok, work, opt) \<leftarrow> tls_crypt_wrap (ce_cl ce) now buf work (tw_opt ctx);
          let ctx = ctx\<lparr>tw_opt := opt, tw_work := work\<rparr>;
          if \<not> ok then Some (ctx, buf\<lparr>b_len := 0\<rparr>)
          else if opcode_of header = P_CONTROL_HARD_RESET_CLIENT_V3 \<or> opcode_of header = P_CONTROL_WKC_V1 then
            (case buf_copy work (tw_wkc ctx) of
               (False, work) \<Rightarrow> Some (ctx\<lparr>tw_work := work\<rparr>, buf\<lparr>b_len := 0\<rparr>)
             | (True, work) \<Rightarrow> Some (ctx\<lparr>tw_work := work\<rparr>, work))
          else Some (ctx, work) }) }"

section \<open>Client keys of tls-crypt-v2\<close>

text \<open>\<open>init_key_ctx\<close> for AES-256-CTR and SHA256.\<close>

definition tls_crypt_ctx :: "crypto_key \<Rightarrow> key_ctx" where
  "tls_crypt_ctx k = cleared_ctx\<lparr>kc_cipher := Some (take 32 (ck_cipher k)), kc_hmac := Some (take 32 (ck_hmac k))\<rparr>"

definition tls_crypt_v2_load_client_key :: "crypto_options \<Rightarrow> u8 list \<Rightarrow> bool \<Rightarrow> crypto_options" where
  "tls_crypt_v2_load_client_key opt bytes tls_server =
     (case key_direction_state_init (if tls_server then KEY_DIRECTION_NORMAL else KEY_DIRECTION_INVERSE) of
        (out_key, in_key, _) \<Rightarrow>
          opt\<lparr>co_encrypt := tls_crypt_ctx (key2_of_bytes bytes ! out_key),
              co_decrypt := tls_crypt_ctx (key2_of_bytes bytes ! in_key), co_initialized := True\<rparr>)"

text \<open>\<open>verify\<close> is the verdict of \<open>--tls-crypt-v2-verify\<close> on the metadata, \<open>None\<close> without a script or
  without options.\<close>

definition tls_crypt_v2_extract_client_key ::
  "crypto_env \<Rightarrow> (u8 list \<Rightarrow> bool) option \<Rightarrow> buffer \<Rightarrow> tls_wrap_ctx \<Rightarrow> bool \<Rightarrow> (bool \<times> buffer \<times> tls_wrap_ctx) option" where
  "tls_crypt_v2_extract_client_key ce verify buf ctx initial_packet =
     (if kc_cipher (tw_server_key ctx) = None then Some (False, buf, ctx)
      else if buf_len buf < 2 then Some (False, buf, ctx)
      else do {
        e \<leftarrow> buf_bend buf;
        let wkc_len = uint (of_be16 (mem_read buf (e - 2) 2));
        (case buf_advance buf (buf_len buf - wkc_len) of
           (False, _) \<Rightarrow> Some (False, buf, ctx)
         | (True, wrapped) \<Rightarrow>
             if \<not> initial_packet then do {
               let (ok, buf) = buf_inc_len buf (- buf_len wrapped);
               _ \<leftarrow> ASSERT ok;
               Some (True, buf, ctx) }
             else do {
               metadata \<leftarrow> alloc_buf (int TLS_CRYPT_V2_MAX_METADATA_LEN);
               (client_key, metadata) \<leftarrow> tls_crypt_v2_unwrap_client_key (ce_cl ce) metadata wrapped (tw_server_key ctx);
               let ctx = ctx\<lparr>tw_metadata := metadata\<rparr>;
               (case client_key of
                  None \<Rightarrow> Some (False, buf, ctx\<lparr>tw_original_key := replicate 256 0\<rparr>)
                | Some bytes \<Rightarrow> do {
                    let opt = tls_crypt_v2_load_client_key ((tw_opt ctx)\<lparr>co_long_form := True\<rparr>) bytes True;
                    let ctx = ctx\<lparr>tw_mode := TLS_WRAP_CRYPT, tw_cleanup := True, tw_original_key := bytes, tw_opt := opt\<rparr>;
                    let (ok, buf) = buf_inc_len buf (- buf_len wrapped);
                    _ \<leftarrow> ASSERT ok;
                    Some (case verify of None \<Rightarrow> True | Some f \<Rightarrow> f (buf_content metadata), buf, ctx) }) }) })"

section \<open>Unwrapping\<close>

definition read_control_auth ::
  "crypto_env \<Rightarrow> int \<Rightarrow> (u8 list \<Rightarrow> bool) option \<Rightarrow> int \<Rightarrow> buffer \<Rightarrow> tls_wrap_ctx \<Rightarrow> bool \<Rightarrow>
   (bool \<times> buffer \<times> tls_wrap_ctx) option" where
  "read_control_auth ce now verify headroom buf ctx initial_packet = do {
     c \<leftarrow> first_byte buf;
     let opcode = opcode_of c;
     (ok, buf, ctx) \<leftarrow> (if opcode = P_CONTROL_HARD_RESET_CLIENT_V3 \<or> opcode = P_CONTROL_WKC_V1
       then tls_crypt_v2_extract_client_key ce verify buf ctx initial_packet else Some (True, buf, ctx));
     if \<not> ok then Some (False, buf, ctx)
     else (case tw_mode ctx of
        TLS_WRAP_AUTH \<Rightarrow> do {
          (ok, buf) \<leftarrow> swap_hmac (ce_cl ce) buf (tw_opt ctx) True;
          if \<not> ok then Some (False, buf, ctx)
          else do {
            (_, buf, opt) \<leftarrow> openvpn_decrypt (ce_hm ce) (ce_aead ce) (ce_al ce) (ce_cl ce) now headroom buf clear_buf
              (b_offset buf) (tw_opt ctx);
            let ctx = ctx\<lparr>tw_opt := opt\<rparr>;
            if b_len buf = 0 then Some (False, buf, ctx)
            else Some (True, snd (buf_advance buf (int SID_SIZE + 1)), ctx) } }
      | TLS_WRAP_CRYPT \<Rightarrow> do {
          tmp \<leftarrow> alloc_buf (buf_forward_capacity_total buf);
          (ok, tmp, opt) \<leftarrow> tls_crypt_unwrap (ce_hm ce) (ce_cl ce) now buf tmp (tw_opt ctx);
          let ctx = ctx\<lparr>tw_opt := opt\<rparr>;
          if \<not> ok then Some (False, buf, ctx)
          else do {
            let (ok, buf) = buf_init buf (b_offset buf);
            _ \<leftarrow> ASSERT ok;
            let (ok, buf) = buf_copy buf tmp;
            _ \<leftarrow> ASSERT ok;
            Some (True, buf, ctx) } }
      | TLS_WRAP_NONE \<Rightarrow>
          if kc_cipher (tw_server_key ctx) \<noteq> None then Some (False, buf, ctx)
          else Some (True, snd (buf_advance buf (int SID_SIZE + 1)), ctx)) }"

section \<open>The first packet of a client\<close>

datatype first_packet_verdict = VERDICT_VALID_RESET_V2 | VERDICT_VALID_RESET_V3 | VERDICT_VALID_CONTROL_V1
  | VERDICT_VALID_ACK_V1 | VERDICT_VALID_WKC_V1 | VERDICT_INVALID

record tls_pre_decrypt_state =
  pd_tls_wrap :: tls_wrap_ctx
  pd_newbuf :: buffer
  pd_peer_sid :: session_id
  pd_server_sid :: session_id

definition lite_verdict :: "int \<Rightarrow> first_packet_verdict" where
  "lite_verdict op =
     (if op = P_CONTROL_V1 then VERDICT_VALID_CONTROL_V1
      else if op = P_ACK_V1 then VERDICT_VALID_ACK_V1
      else if op = P_CONTROL_HARD_RESET_CLIENT_V3 then VERDICT_VALID_RESET_V3
      else if op = P_CONTROL_WKC_V1 then VERDICT_VALID_WKC_V1
      else VERDICT_VALID_RESET_V2)"

text \<open>\<open>wrap\<close> is \<open>tas->tls_wrap\<close>; \<open>junk\<close> is what \<open>malloc\<close> finds for \<open>clone_buf\<close>.\<close>

definition tls_pre_decrypt_lite ::
  "crypto_env \<Rightarrow> int \<Rightarrow> int \<Rightarrow> tls_wrap_ctx \<Rightarrow> u8 list \<Rightarrow> tls_pre_decrypt_state \<Rightarrow> buffer \<Rightarrow>
   (first_packet_verdict \<times> tls_pre_decrypt_state) option" where
  "tls_pre_decrypt_lite ce now headroom wrap junk state buf =
     (if b_len buf < 1 + int SID_SIZE then Some (VERDICT_INVALID, state)
      else do {
        c \<leftarrow> first_byte buf;
        let op = opcode_of c;
        if op \<notin> {P_CONTROL_HARD_RESET_CLIENT_V2, P_CONTROL_HARD_RESET_CLIENT_V3, P_CONTROL_V1, P_CONTROL_WKC_V1, P_ACK_V1}
        then Some (VERDICT_INVALID, state)
        else if key_id_of c \<noteq> 0 then Some (VERDICT_INVALID, state)
        else do {
          let (ok, sid, _) = session_id_read (pd_peer_sid state) (snd (buf_advance buf 1));
          let state = state\<lparr>pd_peer_sid := sid\<rparr>;
          if \<not> ok \<or> \<not> session_id_defined sid then Some (VERDICT_INVALID, state)
          else do {
            (status, newbuf, wrap) \<leftarrow> read_control_auth ce now None headroom (clone_buf junk buf) wrap True;
            let state = state\<lparr>pd_newbuf := newbuf, pd_tls_wrap := wrap\<rparr>;
            Some (if \<not> status then VERDICT_INVALID else lite_verdict op, state) } } })"

text \<open>Results of the writes in front of the packet id are not looked at.\<close>

definition tls_reset_standalone ::
  "crypto_env \<Rightarrow> int \<Rightarrow> tls_wrap_ctx \<Rightarrow> buffer \<Rightarrow> int \<Rightarrow> session_id \<Rightarrow> session_id \<Rightarrow> u8 \<Rightarrow> bool \<Rightarrow>
   (tls_wrap_ctx \<times> buffer) option" where
  "tls_reset_standalone ce now ctx workbuf headroom own_sid remote_sid header request_resend_wkc = do {
     let (ok, buf) = buf_init workbuf headroom;
     _ \<leftarrow> ASSERT ok;
     let buf = snd (buf_write_u8 buf 1);
     let buf = snd (buf_write_u32 buf 0);
     let buf = snd (buf_write buf remote_sid);
     let (ok, buf) = buf_write buf (be32 0);
     _ \<leftarrow> ASSERT ok;
     let buf = (if request_resend_wkc
       then snd (buf_write_u16 (snd (buf_write_u16 (snd (buf_write_u16 buf TLV_TYPE_EARLY_NEG_FLAGS)) 2)) EARLY_NEG_FLAG_RESEND_WKC)
       else buf);
     tls_wrap_control ce now ctx header buf own_sid }"

section \<open>The cookie in the session id\<close>

definition addr_bytes :: "link_addr \<Rightarrow> u8 list" where
  "addr_bytes a = (case a of NoAddr \<Rightarrow> [] | Addr4 bs \<Rightarrow> bs | Addr6 bs \<Rightarrow> bs)"

text \<open>\<open>key\<close> is the key of the HMAC context. The time is put in big-endian order into the HMAC.\<close>

definition calculate_session_id_hmac ::
  "hmac_fun \<Rightarrow> u8 list \<Rightarrow> int \<Rightarrow> session_id \<Rightarrow> link_addr \<Rightarrow> int \<Rightarrow> int \<Rightarrow> session_id option" where
  "calculate_session_id_hmac hm key now client_sid from handwindow offset =
     (if (handwindow + 1) div 2 = 0 then None
      else (let session_id_time = word_of_int (now div ((handwindow + 1) div 2) + offset) :: u32 in
            Some (take SID_SIZE (hm key (be32 session_id_time @ addr_bytes from @ client_sid)))))"

text \<open>\<open>memcmp_constant_time\<close> of crypto_openssl.c and crypto_mbedtls.c: 0 for equal memory.\<close>

definition memcmp_constant_time :: "u8 list \<Rightarrow> u8 list \<Rightarrow> int" where
  "memcmp_constant_time a b = (if a = b then 0 else 1)"

text \<open>The rounds for the offsets \<open>offsets\<close>.\<close>

fun check_cookies ::
  "hmac_fun \<Rightarrow> u8 list \<Rightarrow> int \<Rightarrow> tls_pre_decrypt_state \<Rightarrow> link_addr \<Rightarrow> int \<Rightarrow> int list \<Rightarrow> bool option" where
  "check_cookies hm key now state from handwindow [] = Some False"
| "check_cookies hm key now state from handwindow (offset # offsets) = do {
     expected_id \<leftarrow> calculate_session_id_hmac hm key now (pd_peer_sid state) from handwindow offset;
     if memcmp_constant_time expected_id (pd_server_sid state) \<noteq> 0 then Some True
     else check_cookies hm key now state from handwindow offsets }"

definition check_session_id_hmac ::
  "hmac_fun \<Rightarrow> u8 list \<Rightarrow> int \<Rightarrow> tls_pre_decrypt_state \<Rightarrow> link_addr option \<Rightarrow> int \<Rightarrow>
   (bool \<times> tls_pre_decrypt_state) option" where
  "check_session_id_hmac hm key now state from handwindow =
     (case from of
        None \<Rightarrow> Some (False, state)
      | Some from \<Rightarrow>
          (case reliable_ack_parse (pd_newbuf state) ack_empty (pd_server_sid state) of
             (False, _, sid, _) \<Rightarrow> Some (False, state\<lparr>pd_server_sid := sid\<rparr>)
           | (True, _, sid, _) \<Rightarrow> do {
               let state = state\<lparr>pd_server_sid := sid\<rparr>;
               ok \<leftarrow> check_cookies hm key now state from handwindow [- 2, - 1, 0, 1];
               Some (ok, state) }))"

end
