(* ===== verification/SslPktProps.thy ===== *)
theory SslPktProps
  imports SslPkt TlsCryptProps KeyExchangeProps
begin

text \<open>
  Control packets under tls-auth survive the wire, and what the cookie in the session id of a server
  without state is worth.
\<close>

section \<open>tls-auth\<close>

text \<open>The memory of a buffer: what is in front of the content, the content, what is behind it.\<close>

lemma buf_rep_split:
  assumes "buf_rep b h c r"
  obtains p q where "b_data b = Some (p @ c @ q)" "length p = h" "length q = r" "b_offset b = int h"
    "b_len b = int (length c)" "b_capacity b = int (h + length c + r)"
proof -
  obtain m where m: "b_data b = Some m" "length m = h + length c + r" "b_offset b = int h"
    "b_len b = int (length c)" "b_capacity b = int (h + length c + r)" "take (length c) (drop h m) = c"
    using assms by (rule buf_rep_cases)
  have "m = take h m @ drop h m" "drop h m = c @ drop (length c) (drop h m)"
    using m(6) by (simp, metis append_take_drop_id)
  then have "m = take h m @ c @ drop (length c) (drop h m)" by metis
  then show ?thesis using m by (intro that [of "take h m" "drop (length c) (drop h m)"]) auto
qed

lemma mem_read_rep:
  assumes "buf_rep b h (x @ y @ c) r"
  shows "mem_read b (int h + int (length x)) (int (length y)) = y"
proof -
  obtain p q where "b_data b = Some (p @ (x @ y @ c) @ q)" "length p = h"
    using assms by (rule buf_rep_split)
  moreover have "nat (int h + int (length x)) = h + length x" by simp
  ultimately show ?thesis by (simp add: mem_read_def)
qed

lemma swap_rep:
  assumes "buf_rep b h (x @ y @ c) r"
  shows "buf_rep (mem_write (mem_write b (int h) y) (int h + int (length y)) x) h (y @ x @ c) r"
proof -
  obtain p q where m: "b_data b = Some (p @ (x @ y @ c) @ q)" "length p = h" "length q = r" "b_offset b = int h"
    "b_len b = int (length (x @ y @ c))" "b_capacity b = int (h + length (x @ y @ c) + r)"
    using assms by (rule buf_rep_split)
  have 1: "overlay (p @ (x @ y @ c) @ q) h y = p @ y @ drop (length y) (x @ y @ c @ q)"
    using m(2) by (simp add: overlay_def)
  have "drop (length x) (drop (length y) (x @ y @ c @ q)) = drop (length y) (drop (length x) (x @ y @ c @ q))"
    by (simp only: drop_drop add.commute)
  then have "drop (length x) (drop (length y) (x @ y @ c @ q)) = c @ q" by simp
  then have 2: "overlay (p @ y @ drop (length y) (x @ y @ c @ q)) (h + length y) x = p @ y @ x @ c @ q"
    using m(2) by (simp add: overlay_def add.commute)
  have "nat (int h + int (length y)) = h + length y" by simp
  then have "b_data (mem_write (mem_write b (int h) y) (int h + int (length y)) x) = Some (p @ y @ x @ c @ q)"
    using m(1) 1 2 by (simp add: mem_write_def)
  then show ?thesis
    using m by (intro buf_repI [of _ "p @ y @ x @ c @ q"]) (simp_all add: mem_write_def)
qed

lemma swap_hmac_rep:
  assumes "buf_rep b h (x @ y @ c) r" "kc_hmac (if incoming then co_decrypt co else co_encrypt co) = Some hkey"
    and "length x = (if incoming then 9 else cl_hmac_size lib hkey + 8)"
    "length y = (if incoming then cl_hmac_size lib hkey + 8 else 9)" "cl_hmac_size lib hkey \<le> 248"
  obtains b' where "swap_hmac lib b co incoming = Some (True, b')" "buf_rep b' h (y @ x @ c) r"
proof
  note s = buf_rep_simps [OF assms(1)]
  have rd: "mem_read b (int h) (int (length x)) = x" "mem_read b (int h + int (length x)) (int (length y)) = y"
    using mem_read_rep [of b h "[]" x "y @ c" r] mem_read_rep [OF assms(1)] assms(1) by simp_all
  have e: "(if incoming then (1 + int SID_SIZE, int (cl_hmac_size lib hkey) + packet_id_size True)
      else (int (cl_hmac_size lib hkey) + packet_id_size True, 1 + int SID_SIZE)) = (int (length x), int (length y))"
    using assms(3,4) by (simp add: SID_SIZE_def packet_id_size_def)
  have le: "(int (length x) \<le> SWAP_BUF_SIZE \<and> int (length y) \<le> SWAP_BUF_SIZE) = True"
    using assms(3-5) by (auto simp: SWAP_BUF_SIZE_def)
  have fit: "(int (length x) + int (length y) \<le> b_len b) = True" using s(3) by simp
  show "swap_hmac lib b co incoming = Some (True, mem_write (mem_write b (int h) y) (int h + int (length y)) x)"
    by (simp only: swap_hmac_def assms(2) Option.bind.simps Let_def e prod.case le ASSERT_simps fit if_True s(8) rd)
  show "buf_rep (mem_write (mem_write b (int h) y) (int h + int (length y)) x) h (y @ x @ c) r"
    by (rule swap_rep [OF assms(1)])
qed

text \<open>The HMAC of the library, and the packet for the payload \<open>c\<close>.\<close>

definition hmac_ok :: "cipher_lib \<Rightarrow> u8 list \<Rightarrow> bool" where
  "hmac_ok lib hkey = (cl_hmac_size lib hkey \<le> 64 \<and> (\<forall>m. length (cl_hmac lib hkey m) = cl_hmac_size lib hkey))"

definition auth_packet :: "cipher_lib \<Rightarrow> u8 list \<Rightarrow> packet_id_send \<Rightarrow> u8 \<Rightarrow> session_id \<Rightarrow> u8 list \<Rightarrow> u8 list" where
  "auth_packet lib hkey p header sid c =
     (let pid = pid_wire p True in
      (header # sid) @ (cl_hmac lib hkey (pid @ (header # sid) @ c) @ pid) @ c)"

text \<open>Prepending room for the HMAC and filling it.\<close>

lemma prepend_hmac_rep:
  assumes "buf_rep b h c r" "n \<le> h" "length bs = n"
  obtains p b1 where "buf_prepend b (int n) = (Some p, b1)" "buf_rep (mem_write b1 p bs) (h - n) (bs @ c) r"
    "p = int (h - n)" "buf_bend b1 = Some (int (h + length c))" "\<And>k m. mem_read b1 k m = mem_read b k m"
proof -
  define b1 where "b1 = b\<lparr>b_offset := int (h - n), b_len := int (length c + n)\<rparr>"
  note s = buf_rep_simps [OF assms(1)]
  have "buf_prepend b (int n) = (Some (int (h - n)), b1)"
    using s(3-6) assms(2) by (simp add: buf_prepend_def b1_def buf_bptr_def buf_valid_def of_nat_diff Let_def)
  moreover from this have "snd (buf_write_prepend b bs) = mem_write b1 (int (h - n)) bs"
    using assms(3) by (simp add: buf_write_prepend_def)
  then have "buf_rep (mem_write b1 (int (h - n)) bs) (h - n) (bs @ c) r"
    using buf_write_prepend_rep(2) [OF assms(1), of bs] assms(2,3) by simp
  moreover have "buf_bend b1 = Some (int (h + length c))"
    using s(3,6) assms(2) by (simp add: buf_bend_def b1_def buf_bptr_def buf_valid_def buf_len_def)
  moreover have "mem_read b1 k m = mem_read b k m" for k m by (simp add: mem_read_def b1_def)
  ultimately show ?thesis using that by blast
qed

lemma tls_auth_wrap:
  assumes ctx: "tw_mode ctx = TLS_WRAP_AUTH" "kc_hmac (co_encrypt (tw_opt ctx)) = Some hkey"
      "kc_cipher (co_encrypt (tw_opt ctx)) = None" "packet_id_initialized (tw_opt ctx)" "co_long_form (tw_opt ctx)"
    and lib: "hmac_ok (ce_cl ce) hkey" and sid: "length sid = 8"
    and pid: "packet_id_send_update now (pid_send (co_packet_id (tw_opt ctx))) True = (True, p)"
    and buf: "buf_rep b h c r" "17 + cl_hmac_size (ce_cl ce) hkey \<le> h" "h + length c + r < 1000000"
  obtains b' where "tls_wrap_control ce now ctx header b sid = Some (ctx\<lparr>tw_opt := (tw_opt ctx)
      \<lparr>co_packet_id := (co_packet_id (tw_opt ctx))\<lparr>pid_send := p\<rparr>\<rparr>\<rparr>, b')"
    "buf_rep b' (h - (17 + cl_hmac_size (ce_cl ce) hkey)) (auth_packet (ce_cl ce) hkey p header sid c) r"
proof -
  let ?lib = "ce_cl ce" and ?pid = "pid_wire p True"
  let ?n = "cl_hmac_size ?lib hkey" and ?opt = "(tw_opt ctx)\<lparr>co_packet_id := (co_packet_id (tw_opt ctx))\<lparr>pid_send := p\<rparr>\<rparr>"
  obtain b1 where b1: "buf_write_prepend b sid = (True, b1)" "buf_rep b1 (h - length sid) (sid @ c) r"
    by (rule bd.prependE [OF buf(1), of sid]) (use sid buf(2) in auto)
  obtain b2 where b2: "buf_write_prepend b1 [header] = (True, b2)"
    "buf_rep b2 (h - length sid - length [header]) ([header] @ sid @ c) r"
    by (rule bd.prependE [OF b1(2), of "[header]"]) (use sid buf(2) in auto)
  have b2r: "buf_rep b2 (h - 9) ((header # sid) @ c) r" using b2(2) sid by simp
  obtain b3 where b3: "packet_id_write now (pid_send (co_packet_id (tw_opt ctx))) b2 True True = (True, p, b3)"
    "buf_rep b3 (h - 9 - length ?pid) (?pid @ (header # sid) @ c) r"
    using packet_id_write_prepend [OF b2r pid] buf(2) by (auto simp: packet_id_size_def)
  let ?m = "?pid @ (header # sid) @ c"
  let ?mac = "cl_hmac ?lib hkey ?m"
  have lm: "length ?mac = ?n" "?n \<le> 64" using lib by (simp_all add: hmac_ok_def)
  obtain q b4 where b4: "buf_prepend b3 (int ?n) = (Some q, b4)"
    "buf_rep (mem_write b4 q ?mac) (h - 9 - length ?pid - ?n) (?mac @ ?m) r"
    "q = int (h - 9 - length ?pid - ?n)" "buf_bend b4 = Some (int (h - 9 - length ?pid + length ?m))"
    "\<And>k m. mem_read b4 k m = mem_read b3 k m"
    by (rule prepend_hmac_rep [OF b3(2) _ lm(1)]) (use buf(2) in simp, blast)
  have start: "buf_bptr b3 = Some (int (h - 9 - length ?pid))" using buf_rep_simps(8) [OF b3(2)] .
  have "mem_read b3 (int (h - 9 - length ?pid)) (int (length ?m)) = ?m"
    using mem_read_rep [of b3 "h - 9 - length ?pid" "[]" ?m "[]" r] b3(2) by simp
  then have hm: "v1_hmac ?lib (Some hkey) (int (h - 9 - length ?pid)) q b4 = Some (mem_write b4 q ?mac)"
    using b4(4,5) by (simp add: v1_hmac_def)
  have pos: "0 < b_len b2" using buf_rep_simps(3) [OF b2r] by simp
  have null: "buf_len clear_buf = 0" by (simp add: clear_buf_def buf_len_def buf_valid_def)
  have enc: "openvpn_encrypt (ce_hm ce) (ce_aead ce) (ce_al ce) ?lib now (ce_prng ce) b2 clear_buf (tw_opt ctx) =
      Some (mem_write b4 q ?mac, ?opt)"
    using ctx(2-5) pos b3(1) b4(1) hm start null
    by (simp add: openvpn_encrypt_def openvpn_encrypt_v1_def v1_encrypt_plain_def packet_id_write_opt_def)
  have rep: "buf_rep (mem_write b4 q ?mac) (h - 9 - length ?pid - ?n) ((?mac @ ?pid) @ (header # sid) @ c) r"
    using b4(2) by simp
  obtain b5 where b5: "swap_hmac ?lib (mem_write b4 q ?mac) ?opt False = Some (True, b5)"
    "buf_rep b5 (h - 9 - length ?pid - ?n) ((header # sid) @ (?mac @ ?pid) @ c) r"
    by (rule swap_hmac_rep [OF rep, of False ?opt hkey ?lib]) (use ctx(2) lm sid in auto)
  have "tls_wrap_control ce now ctx header b sid = Some (ctx\<lparr>tw_opt := ?opt\<rparr>, b5)"
    using ctx(1) b1(1) b2(1) enc b5(1) by (simp add: tls_wrap_control_def session_id_write_prepend_def)
  moreover have "buf_rep b5 (h - (17 + ?n)) (auth_packet ?lib hkey p header sid c) r"
    using b5(2) by (simp add: auth_packet_def Let_def)
  ultimately show ?thesis using that by blast
qed

lemma first_byte_rep:
  assumes "buf_rep b h (x # c) r"
  shows "first_byte b = Some x"
proof -
  obtain p q where m: "b_data b = Some (p @ (x # c) @ q)" "length p = h" "b_len b = int (length (x # c))" "b_offset b = int h"
    using assms by (rule buf_rep_split)
  then show ?thesis by (auto simp: first_byte_def buf_bptr_def buf_valid_def)
qed

lemma tls_auth_unwrap:
  assumes ctx: "tw_mode ctx = TLS_WRAP_AUTH" "kc_hmac (co_decrypt (tw_opt ctx)) = Some hkey"
      "kc_cipher (co_decrypt (tw_opt ctx)) = None" "packet_id_initialized (tw_opt ctx)" "co_long_form (tw_opt ctx)"
      "\<not> co_ignore_packet_id (tw_opt ctx)"
    and lib: "hmac_ok (ce_cl ce) hkey" and sid: "length sid = 8"
    and op: "opcode_of header \<noteq> P_CONTROL_HARD_RESET_CLIENT_V3" "opcode_of header \<noteq> P_CONTROL_WKC_V1"
    and pid: "ps_id p \<le> PACKET_ID_MAX" "0 \<le> ps_time p" "ps_time p < 2 ^ 32"
    and buf: "buf_rep b h (auth_packet (ce_cl ce) hkey p header sid c) r"
    and replay: "crypto_check_replay (ce_hm ce) now (tw_opt ctx) \<lparr>pn_id = ps_id p, pn_time = ps_time p\<rparr> 0 = Some (good, opt')"
  shows "\<exists>b'. read_control_auth ce now verify headroom b ctx initial = Some (good, b', ctx\<lparr>tw_opt := opt'\<rparr>) \<and>
    (good \<longrightarrow> buf_content b' = c)"
proof -
  let ?lib = "ce_cl ce" and ?pid = "pid_wire p True"
  let ?n = "cl_hmac_size ?lib hkey" and ?m = "pid_wire p True @ (header # sid) @ c"
  let ?mac = "cl_hmac ?lib hkey ?m"
  have lm: "length ?mac = ?n" "?n \<le> 64" using lib by (simp_all add: hmac_ok_def)
  have rep: "buf_rep b h ((header # sid) @ (?mac @ ?pid) @ c) r" using buf by (simp add: auth_packet_def Let_def)
  obtain b1 where b1: "swap_hmac ?lib b (tw_opt ctx) True = Some (True, b1)" "buf_rep b1 h ((?mac @ ?pid) @ (header # sid) @ c) r"
    by (rule swap_hmac_rep [OF rep, of True "tw_opt ctx" hkey ?lib]) (use ctx(2) lm sid in auto)
  have r1: "buf_rep b1 h (?mac @ ?m) r" using b1(2) by simp
  note s1 = buf_rep_simps [OF r1]
  obtain b2 where b2: "buf_advance b1 (int ?n) = (True, b2)" "buf_rep b2 (h + ?n) ?m r"
    using buf_advance_rep [OF r1] lm(1) by (cases "buf_advance b1 (int ?n)") auto
  have "mem_read b1 (int h) (int ?n) = ?mac" "mem_read b1 (int h + int ?n) (int (length ?m)) = ?m"
    using mem_read_rep [of b1 h "[]" ?mac ?m r] mem_read_rep [of b1 h ?mac ?m "[]" r] r1 lm(1) by simp_all
  then have ver: "v1_verify ?lib (Some hkey) b1 = Some (True, b2)"
    using s1(2-4) b2(1) lm(1) by (simp add: v1_verify_def)
  obtain b3 where b3: "packet_id_read b2 True = (True, \<lparr>pn_id = ps_id p, pn_time = ps_time p\<rparr>, b3)"
    "buf_rep b3 (h + ?n + 8) ((header # sid) @ c) r"
    using packet_id_read_wire [OF b2(2)] pid by auto
  have "0 < b_len b1" using s1(3) by simp
  then have dec: "\<exists>b4. openvpn_decrypt (ce_hm ce) (ce_aead ce) (ce_al ce) ?lib now headroom b1 clear_buf (b_offset b1) (tw_opt ctx) =
      Some (good, b4, opt') \<and> b4 = (if good then b3 else b4\<lparr>b_len := 0\<rparr>)"
    using ctx(2-6) ver b3(1) replay
    by (simp add: openvpn_decrypt_def openvpn_decrypt_v1_def v1_decrypt_plain_def error_exit_def)
  then obtain b4 where b4: "openvpn_decrypt (ce_hm ce) (ce_aead ce) (ce_al ce) ?lib now headroom b1 clear_buf (b_offset b1) (tw_opt ctx) =
      Some (good, b4, opt')" "b4 = (if good then b3 else b4\<lparr>b_len := 0\<rparr>)" by blast
  have fb: "first_byte b = Some header" using first_byte_rep [of b h header "sid @ (?mac @ ?pid) @ c" r] rep by simp
  have run: "read_control_auth ce now verify headroom b ctx initial =
      (if b_len b4 = 0 then Some (False, b4, ctx\<lparr>tw_opt := opt'\<rparr>)
       else Some (True, snd (buf_advance b4 (int SID_SIZE + 1)), ctx\<lparr>tw_opt := opt'\<rparr>))"
    unfolding read_control_auth_def using fb op ctx(1) b1(1) b4(1) by (simp add: Let_def)
  show ?thesis
  proof (cases good)
    case True
    then have "b4 = b3" using b4(2) by simp
    moreover have "b_len b3 \<noteq> 0" using buf_rep_simps(3) [OF b3(2)] by simp
    moreover have "buf_content (snd (buf_advance b3 (int SID_SIZE + 1))) = c"
      using buf_rep_simps(1) [OF buf_advance_rep(2) [OF b3(2)]] sid by (simp add: SID_SIZE_def)
    ultimately show ?thesis using run True by simp
  next
    case False
    then have "b_len b4 = b_len (b4\<lparr>b_len := 0\<rparr>)" using b4(2) by simp
    then show ?thesis using run False by simp
  qed
qed

text \<open>
  C14: the control channel under tls-auth. \<open>tls_wrap_control\<close> puts in front of the payload the header,
  the own session id, the HMAC over everything else and the next packet id; a peer with the same HMAC
  key that gets this packet, in whatever buffer, accepts it exactly if its replay check accepts
  the packet id, and is left with the payload.
\<close>

theorem tls_auth_roundtrip:
  assumes ctx: "tw_mode ctx = TLS_WRAP_AUTH" "kc_hmac (co_encrypt (tw_opt ctx)) = Some hkey"
      "kc_cipher (co_encrypt (tw_opt ctx)) = None" "packet_id_initialized (tw_opt ctx)" "co_long_form (tw_opt ctx)"
    and lib: "hmac_ok (ce_cl ce) hkey" and sid: "length sid = 8"
    and pid: "packet_id_send_update now (pid_send (co_packet_id (tw_opt ctx))) True = (True, p)"
      "send_wf (pid_send (co_packet_id (tw_opt ctx)))" "0 < now" "ps_time p < 2 ^ 32"
    and buf: "buf_rep b h c r" "17 + cl_hmac_size (ce_cl ce) hkey \<le> h" "h + length c + r < 1000000"
    and peer: "tw_mode pctx = TLS_WRAP_AUTH" "kc_hmac (co_decrypt (tw_opt pctx)) = Some hkey"
      "kc_cipher (co_decrypt (tw_opt pctx)) = None" "packet_id_initialized (tw_opt pctx)" "co_long_form (tw_opt pctx)"
      "\<not> co_ignore_packet_id (tw_opt pctx)"
    and op: "opcode_of header \<noteq> P_CONTROL_HARD_RESET_CLIENT_V3" "opcode_of header \<noteq> P_CONTROL_WKC_V1"
    and replay: "crypto_check_replay (ce_hm ce) now' (tw_opt pctx) \<lparr>pn_id = ps_id p, pn_time = ps_time p\<rparr> 0 = Some (good, opt')"
  shows "\<exists>ctx' packet. tls_wrap_control ce now ctx header b sid = Some (ctx', packet) \<and>
    buf_content packet = auth_packet (ce_cl ce) hkey p header sid c \<and>
    (\<forall>rb. buf_wf rb \<and> buf_content rb = buf_content packet \<longrightarrow>
      (\<exists>rb'. read_control_auth ce now' verify headroom rb pctx initial = Some (good, rb', pctx\<lparr>tw_opt := opt'\<rparr>) \<and>
        (good \<longrightarrow> buf_content rb' = c)))"
proof -
  obtain packet where w: "tls_wrap_control ce now ctx header b sid = Some (ctx\<lparr>tw_opt := (tw_opt ctx)
      \<lparr>co_packet_id := (co_packet_id (tw_opt ctx))\<lparr>pid_send := p\<rparr>\<rparr>\<rparr>, packet)"
    "buf_rep packet (h - (17 + cl_hmac_size (ce_cl ce) hkey)) (auth_packet (ce_cl ce) hkey p header sid c) r"
    by (rule tls_auth_wrap [OF ctx lib sid pid(1) buf])
  have "send_wf p" by (rule send_update_step(1) [OF pid(2) pid(1) pid(3)])
  then have wf': "ps_id p \<le> PACKET_ID_MAX" "0 \<le> ps_time p" by (simp_all add: send_wf_def)
  have "\<exists>rb'. read_control_auth ce now' verify headroom rb pctx initial = Some (good, rb', pctx\<lparr>tw_opt := opt'\<rparr>) \<and>
      (good \<longrightarrow> buf_content rb' = c)" if rb: "buf_wf rb" "buf_content rb = buf_content packet" for rb
  proof -
    have ne: "auth_packet (ce_cl ce) hkey p header sid c \<noteq> []" by (simp add: auth_packet_def Let_def)
    have "buf_content rb = auth_packet (ce_cl ce) hkey p header sid c" using rb(2) buf_rep_simps(1) [OF w(2)] by simp
    then obtain h' r' where "buf_rep rb h' (auth_packet (ce_cl ce) hkey p header sid c) r'"
      by (rule rep_of_content [OF rb(1) _ ne])
    then show ?thesis
      by (rule tls_auth_unwrap [OF peer lib sid op wf' pid(4) _ replay])
  qed
  then show ?thesis using w(1) buf_rep_simps(1) [OF w(2)] by blast
qed

text \<open>Without a cipher, with the HMAC of \<open>demo_ctr\<close>.\<close>

definition demo_env :: crypto_env where
  "demo_env = \<lparr>ce_hm = (\<lambda>_ _. []), ce_aead = (\<lambda>_. False),
     ce_al = \<lparr>al_iv_length = (\<lambda>_. 12), al_block_size = (\<lambda>_. 16), al_enc_update = (\<lambda>_ _ _ pt. pt),
       al_enc_final = (\<lambda>_ _ _ _. []), al_get_tag = (\<lambda>_ _ _ _. replicate 16 0),
       al_dec_update = (\<lambda>_ _ _ ct. Some ct), al_dec_final = (\<lambda>_ _ _ _ _. Some [])\<rparr>,
     ce_cl = demo_ctr, ce_prng = []\<rparr>"

definition demo_auth_ctx :: tls_wrap_ctx where
  "demo_auth_ctx = \<lparr>tw_mode = TLS_WRAP_AUTH,
     tw_opt = (let k = cleared_ctx\<lparr>kc_hmac := Some [3]\<rparr> in demo_crypt_opt\<lparr>co_encrypt := k, co_decrypt := k\<rparr>),
     tw_work = clear_buf, tw_server_key = cleared_ctx, tw_wkc = clear_buf, tw_metadata = clear_buf,
     tw_cleanup = False, tw_original_key = []\<rparr>"

definition demo_control :: buffer where
  "demo_control = \<lparr>b_capacity = 60, b_offset = 50, b_len = 2, b_data = Some (replicate 50 0 @ [7, 8] @ replicate 8 0)\<rparr>"

lemma tls_auth_roundtrip_witness:
  "\<exists>ctx' packet rb' opt'. tls_wrap_control demo_env 100 demo_auth_ctx 32 demo_control (replicate 8 9) = Some (ctx', packet) \<and>
    read_control_auth demo_env 200 None 0 (demo_buf (buf_content packet) 0) demo_auth_ctx False =
      Some (True, rb', demo_auth_ctx\<lparr>tw_opt := opt'\<rparr>) \<and>
    buf_content rb' = [7, 8]"
proof -
  have ctx: "tw_mode demo_auth_ctx = TLS_WRAP_AUTH" "kc_hmac (co_encrypt (tw_opt demo_auth_ctx)) = Some [3]"
      "kc_cipher (co_encrypt (tw_opt demo_auth_ctx)) = None" "packet_id_initialized (tw_opt demo_auth_ctx)"
      "co_long_form (tw_opt demo_auth_ctx)"
    and peer: "kc_hmac (co_decrypt (tw_opt demo_auth_ctx)) = Some [3]" "kc_cipher (co_decrypt (tw_opt demo_auth_ctx)) = None"
      "\<not> co_ignore_packet_id (tw_opt demo_auth_ctx)"
    and pid: "packet_id_send_update 100 (pid_send (co_packet_id (tw_opt demo_auth_ctx))) True = (True, \<lparr>ps_id = 1, ps_time = 100\<rparr>)"
      "send_wf (pid_send (co_packet_id (tw_opt demo_auth_ctx)))"
    using demo_crypt_simps
    by (simp_all add: demo_auth_ctx_def Let_def cleared_ctx_def packet_id_initialized_def demo_crypt_opt_def)
  have lib: "hmac_ok (ce_cl demo_env) [3]" by (simp add: hmac_ok_def demo_env_def demo_ctr_def)
  have sid: "length (replicate 8 9 :: u8 list) = 8" and pos: "0 < (100 :: int)"
    and t: "ps_time \<lparr>ps_id = 1, ps_time = 100\<rparr> < (2 :: int) ^ 32" by simp_all
  have buf: "buf_rep demo_control 50 [7, 8] 8" by (simp add: demo_control_def buf_rep_iff)
  have fit: "17 + cl_hmac_size (ce_cl demo_env) [3] \<le> 50" "50 + length [7, 8 :: u8] + 8 < 1000000"
    by (simp_all add: demo_env_def demo_ctr_def)
  have "opcode_of 32 = 4" by (simp add: opcode_of_def P_OPCODE_SHIFT_def)
  then have op: "opcode_of 32 \<noteq> P_CONTROL_HARD_RESET_CLIENT_V3" "opcode_of 32 \<noteq> P_CONTROL_WKC_V1"
    by (simp_all add: P_CONTROL_HARD_RESET_CLIENT_V3_def P_CONTROL_WKC_V1_def)
  obtain opt' where replay: "crypto_check_replay (ce_hm demo_env) 200 (tw_opt demo_auth_ctx)
      \<lparr>pn_id = ps_id \<lparr>ps_id = 1, ps_time = 100\<rparr>, pn_time = ps_time \<lparr>ps_id = 1, ps_time = 100\<rparr>\<rparr> 0 = Some (True, opt')"
    by (simp add: crypto_check_replay_def check_replay_def demo_auth_ctx_def demo_crypt_opt_def Let_def cleared_rec_def
        packet_id_test_def packet_id_add_def packet_id_reap_test_def packet_id_reap_def SEQ_REAP_INTERVAL_def)
  have rt: "\<exists>ctx' packet. tls_wrap_control demo_env 100 demo_auth_ctx 32 demo_control (replicate 8 9) = Some (ctx', packet) \<and>
      buf_content packet = auth_packet (ce_cl demo_env) [3] \<lparr>ps_id = 1, ps_time = 100\<rparr> 32 (replicate 8 9) [7, 8] \<and>
      (\<forall>rb. buf_wf rb \<and> buf_content rb = buf_content packet \<longrightarrow>
        (\<exists>rb'. read_control_auth demo_env 200 None 0 rb demo_auth_ctx False = Some (True, rb', demo_auth_ctx\<lparr>tw_opt := opt'\<rparr>) \<and>
          (True \<longrightarrow> buf_content rb' = [7, 8])))"
    by (rule tls_auth_roundtrip [OF ctx lib sid pid(1,2) pos t buf fit ctx(1) peer(1,2) ctx(4,5) peer(3) op replay])
  have "buf_wf (demo_buf c 0)" "buf_content (demo_buf c 0) = c" for c
    using buf_rep_simps(1,12) [OF demo_buf_rep [of c 0]] by auto
  then show ?thesis using rt by blast
qed

section \<open>The cookie\<close>

text \<open>
  C15: the session id of a server's answer to an unknown client is a cookie: an HMAC over the time, the
  client's address and its session id. \<open>check_session_id_hmac\<close> is to accept a client that echoes the
  cookie of one of the time slots from two before to one after the current one. It does the
  opposite: it accepts whatever differs from one of the four, and rejects only an echo that equals
  all of them. A client that never received the answer, and sends any other session id, is accepted.
\<close>

theorem session_id_cookie_inverted:
  assumes "reliable_ack_parse (pd_newbuf st) ack_empty (pd_server_sid st) = (True, ack, sid, rest)" "0 < handwindow"
  shows "check_session_id_hmac hm key now st (Some from) handwindow =
      Some (\<exists>off \<in> {- 2, - 1, 0, 1}. calculate_session_id_hmac hm key now (pd_peer_sid st) from handwindow off \<noteq> Some sid,
        st\<lparr>pd_server_sid := sid\<rparr>)"
proof -
  have "(handwindow + 1) div 2 \<noteq> 0" using assms(2) by linarith
  then have c: "calculate_session_id_hmac hm key now p from handwindow off \<noteq> None" for p off
    by (simp add: calculate_session_id_hmac_def Let_def)
  have "check_cookies hm key now s from handwindow offs =
      Some (\<exists>off \<in> set offs. calculate_session_id_hmac hm key now (pd_peer_sid s) from handwindow off \<noteq> Some (pd_server_sid s))"
    for s offs
  proof (induction offs)
    case (Cons off offs)
    obtain e where "calculate_session_id_hmac hm key now (pd_peer_sid s) from handwindow off = Some e"
      using c by blast
    then show ?case using Cons.IH by (simp add: memcmp_constant_time_def)
  qed simp
  from this [of "st\<lparr>pd_server_sid := sid\<rparr>" "[- 2, - 1, 0, 1]"] show ?thesis
    by (simp add: check_session_id_hmac_def assms(1) Let_def del: check_cookies.simps)
qed

text \<open>A forged session id 9, 9, ... where every cookie would be 5, 5, ...\<close>

definition forged_state :: tls_pre_decrypt_state where
  "forged_state = \<lparr>pd_tls_wrap = demo_auth_ctx, pd_newbuf = demo_buf ([1, 0, 0, 0, 0] @ replicate 8 9) 0,
     pd_peer_sid = replicate 8 1, pd_server_sid = replicate 8 0\<rparr>"

lemma session_id_cookie_inverted_witness:
  "check_session_id_hmac (\<lambda>_ _. replicate 32 5) [1] 1000 forged_state (Some (Addr4 [1, 2, 3, 4])) 60 =
     Some (True, forged_state\<lparr>pd_server_sid := replicate 8 9\<rparr>)"
proof -
  have p: "\<exists>ack rest. reliable_ack_parse (pd_newbuf forged_state) ack_empty (pd_server_sid forged_state) =
      (True, ack, replicate 8 9, rest)"
    by (simp add: forged_state_def reliable_ack_parse_def demo_buf_def ack_empty_def buf_read_def buf_read_alloc_def
        buf_bptr_def buf_valid_def mem_read_def session_id_read_def SID_SIZE_def RELIABLE_ACK_SIZE_def Let_def numeral_eq_Suc)
  then obtain ack rest where "reliable_ack_parse (pd_newbuf forged_state) ack_empty (pd_server_sid forged_state) =
      (True, ack, replicate 8 9, rest)" by blast
  from session_id_cookie_inverted [OF this, of 60] show ?thesis
    by (simp add: calculate_session_id_hmac_def SID_SIZE_def)
qed

end
