(* ===== verification/TlsState.thy ===== *)
theory TlsState
  imports SslPkt Fragment Timing
begin

text \<open>
  ssl_common.h and ssl.c: the state of the control channel. A tunnel (\<open>tls_multi\<close>) has three sessions,
  the active one, an untrusted one that may replace it, and a retired one; a session has two key
  states, the primary and the one it replaced (the lame duck). A key state is one TLS connection with its
  reliability layer, its progress through the handshake and the data channel keys that come of it.

  The TLS library is a parameter, \<open>tls_lib\<close>: its connection object is of a type \<open>'tls\<close>, \<open>None\<close> where the
  code has freed it, and \<open>BIO_write\<close>, \<open>BIO_read\<close> are functions on it. The session ids that the random
  number generator yields are an argument, \<open>tm_sids\<close>; a run that uses more of them than there are
  is \<open>None\<close>. Scripts, plugins, the certificate revocation list, the management interface's
  key counter and data channel offload are left out.
\<close>

section \<open>Key states\<close>

definition S_ERROR :: int where "S_ERROR = - 2"
definition S_ERROR_PRE :: int where "S_ERROR_PRE = - 1"
definition S_UNDEF :: int where "S_UNDEF = 0"
definition S_INITIAL :: int where "S_INITIAL = 1"
definition S_PRE_START_SKIP :: int where "S_PRE_START_SKIP = 2"
definition S_PRE_START :: int where "S_PRE_START = 3"
definition S_START :: int where "S_START = 4"
definition S_SENT_KEY :: int where "S_SENT_KEY = 5"
definition S_GOT_KEY :: int where "S_GOT_KEY = 6"
definition S_ACTIVE :: int where "S_ACTIVE = 7"
definition S_GENERATED_KEYS :: int where "S_GENERATED_KEYS = 8"

lemmas S_defs = S_ERROR_def S_ERROR_PRE_def S_UNDEF_def S_INITIAL_def S_PRE_START_SKIP_def S_PRE_START_def
  S_START_def S_SENT_KEY_def S_GOT_KEY_def S_ACTIVE_def S_GENERATED_KEYS_def

definition CONTROL_SEND_ACK_MAX :: nat where "CONTROL_SEND_ACK_MAX = 4"
definition TLS_CHANNEL_MTU_MIN :: int where "TLS_CHANNEL_MTU_MIN = 154"

record 'tls key_state =
  ks_state :: int
  ks_key_id :: int
  ks_tls :: "'tls option"
  ks_initial :: int
  ks_established :: int
  ks_must_negotiate :: int
  ks_must_die :: int
  ks_peer_last_packet :: int
  ks_initial_opcode :: int
  ks_session_id_remote :: session_id
  ks_remote_addr :: link_addr
  ks_crypto_options :: crypto_options
  ks_resend_wkc :: bool
  ks_key_src :: key_source2
  ks_plaintext_read_buf :: buffer
  ks_plaintext_write_buf :: buffer
  ks_ack_write_buf :: buffer
  ks_send_reliable :: reliable
  ks_rec_reliable :: reliable
  ks_rec_ack :: reliable_ack
  ks_lru_acks :: reliable_ack
  ks_paybuf :: "u8 list list"
  ks_n_bytes :: int
  ks_n_packets :: int
  ks_authenticated :: ks_auth_state
  ks_auth_deferred_expire :: int

text \<open>\<open>CLEAR(*ks)\<close>\<close>

definition no_reliable :: reliable where
  "no_reliable = \<lparr>rl_size = 0, rl_initial_timeout = 0, rl_packet_id = 0, rl_offset = 0, rl_hold = False, rl_array = []\<rparr>"

definition cleared_crypto_options :: crypto_options where
  "cleared_crypto_options = \<lparr>co_encrypt = cleared_ctx, co_decrypt = cleared_ctx, co_initialized = False,
     co_epoch_key_send = \<lparr>ek_key = replicate 32 0, ek_epoch = 0\<rparr>, co_epoch_key_recv = \<lparr>ek_key = replicate 32 0, ek_epoch = 0\<rparr>,
     co_epoch_key_type = \<lparr>kt_key_size = 0, kt_iv_size = 0\<rparr>, co_aead_usage_limit = 0, co_future = [],
     co_retiring = cleared_ctx, co_retiring_pid = cleared_rec,
     co_packet_id = \<lparr>pid_send = \<lparr>ps_id = 0, ps_time = 0\<rparr>, pid_rec = cleared_rec\<rparr>,
     co_epoch_format = False, co_long_form = False, co_ignore_packet_id = False\<rparr>"

definition cleared_key_state :: "'tls key_state" where
  "cleared_key_state = \<lparr>ks_state = S_UNDEF, ks_key_id = 0, ks_tls = None, ks_initial = 0, ks_established = 0,
     ks_must_negotiate = 0, ks_must_die = 0, ks_peer_last_packet = 0, ks_initial_opcode = 0,
     ks_session_id_remote = replicate SID_SIZE 0, ks_remote_addr = NoAddr, ks_crypto_options = cleared_crypto_options,
     ks_resend_wkc = False, ks_key_src = cleared_source2, ks_plaintext_read_buf = clear_buf,
     ks_plaintext_write_buf = clear_buf, ks_ack_write_buf = clear_buf, ks_send_reliable = no_reliable,
     ks_rec_reliable = no_reliable, ks_rec_ack = ack_empty, ks_lru_acks = ack_empty, ks_paybuf = [],
     ks_n_bytes = 0, ks_n_packets = 0, ks_authenticated = KS_AUTH_FALSE, ks_auth_deferred_expire = 0\<rparr>"

section \<open>Options, sessions, tunnels\<close>

text \<open>Of \<open>struct tls_options\<close> what the modelled code uses. \<open>to_cipher_insecure\<close> and
  \<open>to_cipher_aead_limit\<close> are \<open>cipher_kt_insecure\<close> and \<open>cipher_get_aead_limits\<close> of the data channel cipher.\<close>

record tls_options =
  to_server :: bool
  to_mode_server :: bool
  to_single_session :: bool
  to_xmit_hold :: bool
  to_tls_crypt_v2 :: bool
  to_transition_window :: int
  to_handshake_window :: int
  to_packet_timeout :: int
  to_renegotiate_bytes :: int
  to_renegotiate_packets :: int
  to_renegotiate_seconds :: int
  to_aead_usage_limit :: u64
  to_cipher_insecure :: bool
  to_cipher_aead_limit :: u64
  to_replay_window :: int
  to_replay_time :: int
  to_frame :: frame
  to_tls_wrap :: tls_wrap_ctx
  to_pid_persist :: packet_id_persist
  to_key_type :: key_type
  to_epoch_format :: bool
  to_long_form :: bool
  to_use_export :: bool
  to_local_options :: "u8 list"
  to_credentials :: "(u8 list \<times> u8 list) option"
  to_peer_info :: "u8 list option"
  to_auth :: auth_options

record 'tls tls_session =
  ts_burst :: bool
  ts_tls_wrap :: tls_wrap_ctx
  ts_tls_wrap_reneg :: tls_wrap_ctx
  ts_initial_opcode :: int
  ts_session_id :: session_id
  ts_key_id :: int
  ts_verified :: bool
  ts_untrusted_addr :: link_addr
  ts_primary :: "'tls key_state"
  ts_lame_duck :: "'tls key_state"

datatype multi_status = CAS_NOT_CONNECTED | CAS_WAITING_AUTH | CAS_PENDING | CAS_PENDING_DEFERRED
  | CAS_PENDING_DEFERRED_PARTIAL | CAS_FAILED | CAS_WAITING_OPTIONS_IMPORT | CAS_RECONNECT_PENDING | CAS_CONNECT_DONE

text \<open>\<open>tm_save_ks\<close> is the key that \<open>tls_pre_encrypt\<close> chose, by its place in the scan order.\<close>

record 'tls tls_multi =
  tm_opt :: tls_options
  tm_save_ks :: "nat option"
  tm_n_sessions :: int
  tm_multi_state :: multi_status
  tm_n_hard_errors :: int
  tm_n_soft_errors :: int
  tm_tas_cache_last_update :: int
  tm_tas_cache_num_updates :: nat
  tm_peer_info :: "u8 list option"
  tm_peer_id :: u32
  tm_remote_ciphername :: "u8 list option"
  tm_remote_usescomp :: bool
  tm_sessions :: "'tls tls_session list"
  tm_sids :: "session_id list"

definition TM_ACTIVE :: nat where "TM_ACTIVE = 0"
definition TM_INITIAL :: nat where "TM_INITIAL = 1"
definition TM_LAME_DUCK :: nat where "TM_LAME_DUCK = 2"
definition TM_SIZE :: nat where "TM_SIZE = 3"
definition KEY_SCAN_SIZE :: nat where "KEY_SCAN_SIZE = 3"

abbreviation session_at :: "'tls tls_multi \<Rightarrow> nat \<Rightarrow> 'tls tls_session" where
  "session_at m i \<equiv> tm_sessions m ! i"

definition set_session :: "nat \<Rightarrow> 'tls tls_session \<Rightarrow> 'tls tls_multi \<Rightarrow> 'tls tls_multi" where
  "set_session i s m = m\<lparr>tm_sessions := (tm_sessions m)[i := s]\<rparr>"

text \<open>The keys in the order in which the data channel looks at them.\<close>

definition get_key_scan :: "'tls tls_multi \<Rightarrow> nat \<Rightarrow> 'tls key_state option" where
  "get_key_scan m i =
     (if i = 0 then Some (ts_primary (session_at m TM_ACTIVE))
      else if i = 1 then Some (ts_lame_duck (session_at m TM_ACTIVE))
      else if i = 2 then Some (ts_lame_duck (session_at m TM_LAME_DUCK))
      else None)"

definition set_key_scan :: "nat \<Rightarrow> 'tls key_state \<Rightarrow> 'tls tls_multi \<Rightarrow> 'tls tls_multi" where
  "set_key_scan i ks m =
     (if i = 0 then set_session TM_ACTIVE ((session_at m TM_ACTIVE)\<lparr>ts_primary := ks\<rparr>) m
      else if i = 1 then set_session TM_ACTIVE ((session_at m TM_ACTIVE)\<lparr>ts_lame_duck := ks\<rparr>) m
      else set_session TM_LAME_DUCK ((session_at m TM_LAME_DUCK)\<lparr>ts_lame_duck := ks\<rparr>) m)"

definition get_primary_key :: "'tls tls_multi \<Rightarrow> 'tls key_state" where
  "get_primary_key m = ts_primary (session_at m TM_ACTIVE)"

section \<open>The TLS library\<close>

text \<open>\<open>BIO_write\<close> returns a number and whether \<open>BIO_should_retry\<close> holds; \<open>BIO_read\<close> with room for \<open>n\<close>
  bytes returns the bytes, or on failure whether to retry.\<close>

datatype tls_bio = SSL_BIO | CT_IN | CT_OUT

record 'tls tls_lib =
  tl_new :: "bool \<Rightarrow> 'tls"
  tl_BIO_write :: "tls_bio \<Rightarrow> 'tls \<Rightarrow> u8 list \<Rightarrow> int \<times> bool \<times> 'tls"
  tl_BIO_read :: "tls_bio \<Rightarrow> 'tls \<Rightarrow> nat \<Rightarrow> (bool + u8 list) \<times> 'tls"
  tl_shutdown :: "'tls \<Rightarrow> 'tls"

definition bio_write :: "'tls tls_lib \<Rightarrow> tls_bio \<Rightarrow> 'tls \<Rightarrow> u8 list \<Rightarrow> int \<times> 'tls" where
  "bio_write lib bio tls data =
     (if length data \<noteq> 0 then
        (case tl_BIO_write lib bio tls data of (i, retry, tls) \<Rightarrow>
           (if i < 0 then (if \<not> retry then - 1 else 0)
            else if i \<noteq> int (length data) then - 1
            else 1, tls))
      else (0, tls))"

definition bio_write_post :: "int \<Rightarrow> buffer \<Rightarrow> buffer" where
  "bio_write_post status buf =
     (if status = 1
      then (mem_write buf (b_offset buf) (replicate (nat (buf_len buf)) 0))\<lparr>b_len := 0\<rparr>
      else buf)"

definition bio_read :: "'tls tls_lib \<Rightarrow> tls_bio \<Rightarrow> 'tls \<Rightarrow> buffer \<Rightarrow> (int \<times> buffer \<times> 'tls) option" where
  "bio_read lib bio tls buf = do {
     _ \<leftarrow> ASSERT (b_len buf \<ge> 0);
     if b_len buf \<noteq> 0 then Some (0, buf, tls)
     else do {
       let len = nat (buf_forward_capacity buf);
       (case tl_BIO_read lib bio tls len of
          (Inl retry, tls) \<Rightarrow> Some (if \<not> retry then (- 1, buf\<lparr>b_len := 0\<rparr>, tls) else (0, buf, tls))
        | (Inr bytes, tls) \<Rightarrow>
            if bytes = [] then Some (0, buf\<lparr>b_len := 0\<rparr>, tls)
            else do {
              _ \<leftarrow> ASSERT (length bytes \<le> len);
              Some (1, (mem_write buf (b_offset buf) bytes)\<lparr>b_len := int (length bytes)\<rparr>, tls) }) } }"

definition key_state_write_plaintext ::
  "'tls tls_lib \<Rightarrow> 'tls \<Rightarrow> buffer \<Rightarrow> int \<times> buffer \<times> 'tls" where
  "key_state_write_plaintext lib tls buf =
     (case bio_write lib SSL_BIO tls (buf_content buf) of (ret, tls) \<Rightarrow> (ret, bio_write_post ret buf, tls))"

definition key_state_write_plaintext_const :: "'tls tls_lib \<Rightarrow> 'tls \<Rightarrow> u8 list \<Rightarrow> int \<times> 'tls" where
  "key_state_write_plaintext_const lib tls data = bio_write lib SSL_BIO tls data"

definition key_state_read_ciphertext :: "'tls tls_lib \<Rightarrow> 'tls \<Rightarrow> buffer \<Rightarrow> (int \<times> buffer \<times> 'tls) option" where
  "key_state_read_ciphertext lib tls buf = bio_read lib CT_OUT tls buf"

definition key_state_write_ciphertext :: "'tls tls_lib \<Rightarrow> 'tls \<Rightarrow> buffer \<Rightarrow> int \<times> buffer \<times> 'tls" where
  "key_state_write_ciphertext lib tls buf =
     (case bio_write lib CT_IN tls (buf_content buf) of (ret, tls) \<Rightarrow> (ret, bio_write_post ret buf, tls))"

definition key_state_read_plaintext :: "'tls tls_lib \<Rightarrow> 'tls \<Rightarrow> buffer \<Rightarrow> (int \<times> buffer \<times> 'tls) option" where
  "key_state_read_plaintext lib tls buf = bio_read lib SSL_BIO tls buf"
end
