(* ===== verification/TlsSession.thy ===== *)
theory TlsSession
  imports TlsState
begin

text \<open>
  ssl.c: the life of key states and sessions: set up, torn down, moved between the three places of a
  tunnel, and the start of a new key (\<open>key_state_soft_reset\<close>). Memory that is freed is cleared here,
  also where the code leaves a dangling pointer behind. Seconds until a wakeup are unbounded integers.
\<close>

section \<open>Key states\<close>

text \<open>The key state becomes the primary one of the session.\<close>

definition key_state_init :: "'tls tls_lib \<Rightarrow> tls_options \<Rightarrow> 'tls tls_session \<Rightarrow> 'tls tls_session option" where
  "key_state_init lib opt s = do {
     let key_id = ts_key_id s;
     let next_id = (key_id + 1) AND uint P_KEY_ID_MASK;
     plaintext_read \<leftarrow> alloc_buf TLS_CHANNEL_BUF_SIZE;
     plaintext_write \<leftarrow> alloc_buf TLS_CHANNEL_BUF_SIZE;
     ack_write \<leftarrow> alloc_buf (BUF_SIZE (to_frame opt));
     send \<leftarrow> reliable_init (BUF_SIZE (to_frame opt)) (fr_headroom (to_frame opt)) TLS_RELIABLE_N_SEND_BUFFERS
       (if key_id \<noteq> 0 then False else to_xmit_hold opt);
     rec \<leftarrow> reliable_init (BUF_SIZE (to_frame opt)) (fr_headroom (to_frame opt)) TLS_RELIABLE_N_REC_BUFFERS False;
     pid \<leftarrow> packet_id_init (to_replay_window opt) (to_replay_time opt) ''SSL'' key_id;
     Some (s\<lparr>ts_initial_opcode := P_CONTROL_SOFT_RESET_V1,
             ts_key_id := (if next_id = 0 then 1 else next_id),
             ts_primary := cleared_key_state\<lparr>ks_tls := Some (tl_new lib (to_server opt)),
               ks_initial_opcode := ts_initial_opcode s, ks_state := S_INITIAL, ks_key_id := key_id,
               ks_plaintext_read_buf := plaintext_read, ks_plaintext_write_buf := plaintext_write,
               ks_ack_write_buf := ack_write,
               ks_send_reliable := reliable_set_timeout send (to_packet_timeout opt), ks_rec_reliable := rec,
               ks_crypto_options := cleared_crypto_options\<lparr>co_packet_id := pid\<rparr>\<rparr>\<rparr>) }"

definition free_key_ctx_bi :: "crypto_options \<Rightarrow> crypto_options" where
  "free_key_ctx_bi co = co\<lparr>co_encrypt := free_key_ctx (co_encrypt co), co_decrypt := free_key_ctx (co_decrypt co),
     co_initialized := False\<rparr>"

definition free_epoch_key_ctx :: "crypto_options \<Rightarrow> crypto_options" where
  "free_epoch_key_ctx co = co\<lparr>co_future := [], co_retiring := free_key_ctx (co_retiring co),
     co_retiring_pid := (co_retiring_pid co)\<lparr>pr_seq_list := None\<rparr>,
     co_epoch_key_send := \<lparr>ek_key = replicate 32 0, ek_epoch = 0\<rparr>,
     co_epoch_key_recv := \<lparr>ek_key = replicate 32 0, ek_epoch = 0\<rparr>\<rparr>"

definition key_state_free :: "bool \<Rightarrow> 'tls key_state \<Rightarrow> 'tls key_state" where
  "key_state_free clear ks =
     (if clear then cleared_key_state
      else (let co = free_epoch_key_ctx (free_key_ctx_bi (ks_crypto_options ks)) in
        ks\<lparr>ks_state := S_UNDEF, ks_tls := None,
           ks_crypto_options := co\<lparr>co_packet_id := packet_id_free (co_packet_id co)\<rparr>,
           ks_plaintext_read_buf := clear_buf, ks_plaintext_write_buf := clear_buf, ks_ack_write_buf := clear_buf,
           ks_paybuf := [], ks_send_reliable := no_reliable, ks_rec_reliable := no_reliable,
           ks_rec_ack := ack_empty, ks_lru_acks := ack_empty, ks_key_src := cleared_source2\<rparr>))"

section \<open>Sessions\<close>

text \<open>\<open>while (!session_id_defined(..)) session_id_random(..)\<close>\<close>

definition draw_sid :: "session_id list \<Rightarrow> (session_id \<times> session_id list) option" where
  "draw_sid sids = (case dropWhile (\<lambda>sid. \<not> session_id_defined sid) sids of [] \<Rightarrow> None | sid # rest \<Rightarrow> Some (sid, rest))"

definition cleared_tls_wrap :: tls_wrap_ctx where
  "cleared_tls_wrap = \<lparr>tw_mode = TLS_WRAP_NONE, tw_opt = cleared_crypto_options, tw_work = clear_buf,
     tw_server_key = cleared_ctx, tw_wkc = clear_buf, tw_metadata = clear_buf, tw_cleanup = False,
     tw_original_key = replicate 256 0\<rparr>"

definition cleared_session :: "'tls tls_session" where
  "cleared_session = \<lparr>ts_burst = False, ts_tls_wrap = cleared_tls_wrap, ts_tls_wrap_reneg = cleared_tls_wrap,
     ts_initial_opcode = 0, ts_session_id = replicate SID_SIZE 0, ts_key_id = 0, ts_verified = False,
     ts_untrusted_addr = NoAddr, ts_primary = cleared_key_state, ts_lame_duck = cleared_key_state\<rparr>"

definition tls_session_init ::
  "'tls tls_lib \<Rightarrow> int \<Rightarrow> tls_options \<Rightarrow> session_id list \<Rightarrow> ('tls tls_session \<times> session_id list) option" where
  "tls_session_init lib now opt sids = do {
     (sid, sids) \<leftarrow> draw_sid sids;
     let initial_opcode = (if to_server opt then P_CONTROL_HARD_RESET_SERVER_V2
       else if to_tls_crypt_v2 opt then P_CONTROL_HARD_RESET_CLIENT_V3 else P_CONTROL_HARD_RESET_CLIENT_V2);
     work \<leftarrow> alloc_buf (BUF_SIZE (to_frame opt));
     pid \<leftarrow> packet_id_init (to_replay_window opt) (to_replay_time opt) ''TLS_WRAP'' 0;
     let pid = (if to_tls_crypt_v2 opt then pid\<lparr>pid_send := \<lparr>ps_id = ucast EARLY_NEG_START, ps_time = now\<rparr>\<rparr> else pid);
     let pid = packet_id_persist_load_obj (to_pid_persist opt) pid;
     let wrap = (to_tls_wrap opt)\<lparr>tw_work := work, tw_opt := (tw_opt (to_tls_wrap opt))\<lparr>co_packet_id := pid\<rparr>\<rparr>;
     s \<leftarrow> key_state_init lib opt (cleared_session\<lparr>ts_session_id := sid, ts_initial_opcode := initial_opcode, ts_tls_wrap := wrap\<rparr>);
     Some (s, sids) }"

definition tls_wrap_free :: "tls_wrap_ctx \<Rightarrow> tls_wrap_ctx" where
  "tls_wrap_free ctx =
     (let co = tw_opt ctx;
          co = (if pr_initialized (pid_rec (co_packet_id co))
                then co\<lparr>co_packet_id := packet_id_free (co_packet_id co)\<rparr> else co);
          co = (if tw_cleanup ctx then free_key_ctx_bi co else co) in
      ctx\<lparr>tw_opt := co, tw_metadata := clear_buf, tw_work := clear_buf, tw_original_key := replicate 256 0\<rparr>)"

definition tls_session_free :: "bool \<Rightarrow> 'tls tls_session \<Rightarrow> 'tls tls_session" where
  "tls_session_free clear s =
     (if clear then cleared_session
      else s\<lparr>ts_tls_wrap := tls_wrap_free (ts_tls_wrap s), ts_tls_wrap_reneg := tls_wrap_free (ts_tls_wrap_reneg s),
             ts_primary := key_state_free False (ts_primary s), ts_lame_duck := key_state_free False (ts_lame_duck s)\<rparr>)"

definition reset_session :: "'tls tls_lib \<Rightarrow> int \<Rightarrow> nat \<Rightarrow> 'tls tls_multi \<Rightarrow> 'tls tls_multi option" where
  "reset_session lib now i m = do {
     let m = set_session i (tls_session_free False (session_at m i)) m;
     (s, sids) \<leftarrow> tls_session_init lib now (tm_opt m) (tm_sids m);
     Some (set_session i s (m\<lparr>tm_sids := sids\<rparr>)) }"

definition move_session :: "'tls tls_lib \<Rightarrow> int \<Rightarrow> nat \<Rightarrow> nat \<Rightarrow> bool \<Rightarrow> 'tls tls_multi \<Rightarrow> 'tls tls_multi option" where
  "move_session lib now dest src reinit_src m = do {
     _ \<leftarrow> ASSERT (src \<noteq> dest);
     _ \<leftarrow> ASSERT (src < TM_SIZE);
     _ \<leftarrow> ASSERT (dest < TM_SIZE);
     let m = set_session dest (tls_session_free False (session_at m dest)) m;
     let m = set_session dest (session_at m src) m;
     if reinit_src then do {
       (s, sids) \<leftarrow> tls_session_init lib now (tm_opt m) (tm_sids m);
       Some (set_session src s (m\<lparr>tm_sids := sids\<rparr>)) }
     else Some (set_session src cleared_session m) }"

definition key_state_soft_reset :: "'tls tls_lib \<Rightarrow> int \<Rightarrow> tls_options \<Rightarrow> 'tls tls_session \<Rightarrow> 'tls tls_session option" where
  "key_state_soft_reset lib now opt s = do {
     let ks_lame = (ts_primary s)\<lparr>ks_must_die := now + to_transition_window opt\<rparr>;
     s \<leftarrow> key_state_init lib opt (s\<lparr>ts_lame_duck := ks_lame\<rparr>);
     Some (s\<lparr>ts_primary := (ts_primary s)\<lparr>ks_session_id_remote := ks_session_id_remote ks_lame,
                                          ks_remote_addr := ks_remote_addr ks_lame\<rparr>\<rparr>) }"

definition tls_session_soft_reset :: "'tls tls_lib \<Rightarrow> int \<Rightarrow> 'tls tls_multi \<Rightarrow> 'tls tls_multi option" where
  "tls_session_soft_reset lib now m = do {
     s \<leftarrow> key_state_soft_reset lib now (tm_opt m) (session_at m TM_ACTIVE);
     Some (set_session TM_ACTIVE s m) }"

section \<open>Tunnels\<close>

definition OPENVPN_MAX_HMAC_SIZE :: int where "OPENVPN_MAX_HMAC_SIZE = 64"

definition tls_init_control_channel_frame_parameters :: "frame \<Rightarrow> int \<Rightarrow> frame" where
  "tls_init_control_channel_frame_parameters frame tls_mtu =
     (let overhead = 10 + max_int tls_crypt_buf_overhead (packet_id_size True + OPENVPN_MAX_HMAC_SIZE) + 3 +
            int (ACK_SIZE RELIABLE_ACK_SIZE) in
      frame\<lparr>fr_payload_size := max_int 1500 tls_mtu + 100, fr_headroom := overhead, fr_tailroom := overhead,
            fr_tun_mtu := max_int (min_int tls_mtu TLS_CHANNEL_BUF_SIZE) TLS_CHANNEL_MTU_MIN\<rparr>)"

definition MAX_PEER_ID :: u32 where "MAX_PEER_ID = 0xFFFFFF"

definition tls_multi_init :: "tls_options \<Rightarrow> session_id list \<Rightarrow> 'tls tls_multi" where
  "tls_multi_init opt sids = \<lparr>tm_opt = opt, tm_save_ks = None, tm_n_sessions = 0, tm_multi_state = CAS_NOT_CONNECTED,
     tm_n_hard_errors = 0, tm_n_soft_errors = 0, tm_tas_cache_last_update = 0, tm_tas_cache_num_updates = 0,
     tm_peer_info = None, tm_peer_id = MAX_PEER_ID, tm_remote_ciphername = None, tm_remote_usescomp = False,
     tm_sessions = replicate TM_SIZE cleared_session, tm_sids = sids\<rparr>"

definition tls_multi_init_finalize :: "'tls tls_lib \<Rightarrow> int \<Rightarrow> int \<Rightarrow> 'tls tls_multi \<Rightarrow> 'tls tls_multi option" where
  "tls_multi_init_finalize lib now tls_mtu m = do {
     let m = m\<lparr>tm_opt := (tm_opt m)\<lparr>to_frame := tls_init_control_channel_frame_parameters (to_frame (tm_opt m)) tls_mtu\<rparr>\<rparr>;
     (active, sids) \<leftarrow> tls_session_init lib now (tm_opt m) (tm_sids m);
     (initial, sids) \<leftarrow> tls_session_init lib now (tm_opt m) sids;
     Some (set_session TM_INITIAL initial (set_session TM_ACTIVE active (m\<lparr>tm_sids := sids\<rparr>))) }"

section \<open>Timers\<close>

definition compute_earliest_wakeup :: "int \<Rightarrow> int \<Rightarrow> int" where
  "compute_earliest_wakeup earliest seconds_from_now =
     (let earliest = (if seconds_from_now < earliest then seconds_from_now else earliest) in
      if earliest < 0 then 0 else earliest)"

definition lame_duck_must_die :: "int \<Rightarrow> 'tls tls_session \<Rightarrow> int \<Rightarrow> (bool \<times> int) option" where
  "lame_duck_must_die now s wakeup =
     (let lame = ts_lame_duck s in
      if ks_state lame \<ge> S_INITIAL then do {
        _ \<leftarrow> ASSERT (ks_must_die lame \<noteq> 0);
        Some (if now < ks_must_die lame then (False, compute_earliest_wakeup wakeup (ks_must_die lame - now))
              else (True, wakeup)) }
      else Some (ks_state lame = S_ERROR, wakeup))"

section \<open>Writing a control packet\<close>

definition tls_session_get_tls_wrap :: "'tls tls_session \<Rightarrow> int \<Rightarrow> tls_wrap_ctx" where
  "tls_session_get_tls_wrap s key_id =
     (if key_id > 0 \<and> tw_mode (ts_tls_wrap_reneg s) = TLS_WRAP_CRYPT then ts_tls_wrap_reneg s else ts_tls_wrap s)"

text \<open>Storing what a function has changed in the wrapping.\<close>

definition tls_session_set_tls_wrap :: "'tls tls_session \<Rightarrow> int \<Rightarrow> tls_wrap_ctx \<Rightarrow> 'tls tls_session" where
  "tls_session_set_tls_wrap s key_id ctx =
     (if key_id > 0 \<and> tw_mode (ts_tls_wrap_reneg s) = TLS_WRAP_CRYPT then s\<lparr>ts_tls_wrap_reneg := ctx\<rparr>
      else s\<lparr>ts_tls_wrap := ctx\<rparr>)"

text \<open>The key state is the primary one of the session; \<open>to_link_addr\<close> becomes its remote address.\<close>

definition write_control_auth ::
  "crypto_env \<Rightarrow> int \<Rightarrow> tls_options \<Rightarrow> 'tls tls_session \<Rightarrow> buffer \<Rightarrow> int \<Rightarrow> nat \<Rightarrow> bool \<Rightarrow>
   ('tls tls_session \<times> buffer \<times> link_addr) option" where
  "write_control_auth ce now opt s buf opcode max_ack prepend_ack = do {
     let ks = ts_primary s;
     let header = packet_header opcode (ks_key_id ks);
     let max_ack = (if tw_mode (ts_tls_wrap s) = TLS_WRAP_NONE \<and> \<not> to_server opt \<and> \<not> to_use_export opt
       then min max_ack 4 else max_ack);
     _ \<leftarrow> ASSERT (link_socket_actual_defined (ks_remote_addr ks));
     (ok, ack, mru, buf) \<leftarrow> reliable_ack_write (ks_rec_ack ks) (ks_lru_acks ks) buf (ks_session_id_remote ks) max_ack prepend_ack;
     _ \<leftarrow> ASSERT ok;
     let s = s\<lparr>ts_primary := ks\<lparr>ks_rec_ack := ack, ks_lru_acks := mru\<rparr>\<rparr>;
     (ctx, buf) \<leftarrow> tls_wrap_control ce now (tls_session_get_tls_wrap s (ks_key_id ks)) header buf (ts_session_id s);
     Some (tls_session_set_tls_wrap s (ks_key_id ks) ctx, buf, ks_remote_addr ks) }"

definition calc_control_channel_frame_overhead :: "cipher_lib \<Rightarrow> 'tls tls_session \<Rightarrow> int option" where
  "calc_control_channel_frame_overhead lib s = do {
     let ks = ts_primary s;
     let ackstosend = reliable_ack_outstanding (ks_rec_ack ks) + ak_len (ks_lru_acks ks);
     wrap \<leftarrow> (case tw_mode (ts_tls_wrap s) of
        TLS_WRAP_CRYPT \<Rightarrow> Some tls_crypt_buf_overhead
      | TLS_WRAP_AUTH \<Rightarrow> do {
          hkey \<leftarrow> kc_hmac (co_encrypt (tw_opt (ts_tls_wrap s)));
          Some (int (cl_hmac_size lib hkey) + packet_id_size True) }
      | TLS_WRAP_NONE \<Rightarrow> Some 0);
     Some (1 + int SID_SIZE + int (ACK_SIZE (min ackstosend CONTROL_SEND_ACK_MAX)) + 4 + wrap +
           datagram_overhead (ts_untrusted_addr s) True) }"

end
