(* ===== verification/TlsProcess.thy ===== *)
theory TlsProcess
  imports TlsSession
begin

text \<open>
  ssl.c: \<open>tls_process\<close>, the work on one session: the handshake, the traffic between the TLS object and
  the reliability layer, key method 2, retransmission, acknowledgements, renegotiation, timers.

  The functions work on \<open>tls_run\<close>, what \<open>tls_process\<close> is called with: the tunnel, of which they touch
  the fields that are not in a session, the session, the socket information, the outgoing packet and its
  address, the wakeup time, and \<open>continue_tls_process\<close>. The packet that is sent is a copy of the entry's
  buffer; that the code builds it in the memory in front of the entry's bytes, which it rewrites before
  each transmission, is not modelled. \<open>update_time\<close> does not change the time within a call.
\<close>

section \<open>Parameters and state\<close>

datatype auth_deferred_result = ACF_PENDING | ACF_SUCCEEDED | ACF_DISABLED | ACF_FAILED

text \<open>\<open>te_rnd\<close> are the random numbers of a key exchange, by session id and key id; \<open>te_export\<close> is the
  keying material exporter; \<open>te_match_proto\<close> compares addresses the way the protocol of the socket wants
  it; \<open>te_deferred\<close> are the results of plugin, script and management interface for a key id, the first argument
  telling whether cached ones do; \<open>te_verify_v2\<close> is the script of tls-crypt-v2; \<open>te_buf_used\<close> tells whether
  the memory of a packet belongs to a session.\<close>

record 'tls tls_env =
  te_lib :: "'tls tls_lib"
  te_ce :: crypto_env
  te_rnd :: "session_id \<Rightarrow> int \<Rightarrow> key_source"
  te_prf :: prf_fun
  te_export :: "'tls \<Rightarrow> u8 list option"
  te_match_proto :: "link_addr \<Rightarrow> link_addr \<Rightarrow> bool"
  te_deferred :: "bool \<Rightarrow> int \<Rightarrow> auth_deferred_result list"
  te_verify_v2 :: "(u8 list \<Rightarrow> bool) option"
  te_buf_used :: "buffer \<Rightarrow> 'tls tls_session \<Rightarrow> bool"

record link_socket_info =
  li_actual :: link_addr
  li_remote_list :: "link_addr list option"
  li_connection_established :: bool
  li_remote_float :: bool

record 'tls tls_run =
  tr_multi :: "'tls tls_multi"
  tr_session :: "'tls tls_session"
  tr_lsi :: link_socket_info
  tr_to_link :: buffer
  tr_to_link_addr :: "link_addr option"
  tr_wakeup :: int
  tr_continue :: bool

abbreviation run_ks :: "'tls tls_run \<Rightarrow> 'tls key_state" where
  "run_ks r \<equiv> ts_primary (tr_session r)"

abbreviation run_opt :: "'tls tls_run \<Rightarrow> tls_options" where
  "run_opt r \<equiv> tm_opt (tr_multi r)"

definition with_ks :: "'tls key_state \<Rightarrow> 'tls tls_run \<Rightarrow> 'tls tls_run" where
  "with_ks ks r = r\<lparr>tr_session := (tr_session r)\<lparr>ts_primary := ks\<rparr>\<rparr>"

text \<open>\<open>ks->ks_ssl\<close>, which is there from \<open>key_state_init\<close> to \<open>key_state_free\<close>.\<close>

abbreviation the_tls :: "'tls key_state \<Rightarrow> 'tls option" where
  "the_tls ks \<equiv> ks_tls ks"

definition link_socket_set_outgoing_addr ::
  "(link_addr \<Rightarrow> link_addr \<Rightarrow> bool) \<Rightarrow> link_addr \<Rightarrow> link_socket_info \<Rightarrow> link_socket_info" where
  "link_socket_set_outgoing_addr match_proto act info =
     (if (\<not> li_connection_established info \<or> \<not> match_proto act (li_actual info)) \<and>
         (li_remote_float info \<or>
          (case li_remote_list info of None \<Rightarrow> True | Some l \<Rightarrow> \<exists>a \<in> set l. match_proto act a))
      then info\<lparr>li_actual := act, li_connection_established := True\<rparr> else info)"

section \<open>Moves of the state machine\<close>

definition auth_deferred_expire_window :: "tls_options \<Rightarrow> int" where
  "auth_deferred_expire_window opt =
     (let ret = to_handshake_window opt; r2 = to_renegotiate_seconds opt div 2 in
      if to_renegotiate_seconds opt \<noteq> 0 \<and> r2 < ret then r2 else ret)"

definition session_move_pre_start ::
  "int \<Rightarrow> tls_options \<Rightarrow> 'tls key_state \<Rightarrow> bool \<Rightarrow> (bool \<times> 'tls key_state) option" where
  "session_move_pre_start now opt ks skip_initial_send = do {
     (i, send) \<leftarrow> reliable_get_buf_output_sequenced (ks_send_reliable ks);
     (case i of
        None \<Rightarrow> Some (False, ks\<lparr>ks_send_reliable := send\<rparr>)
      | Some i \<Rightarrow> do {
          send \<leftarrow> reliable_mark_active_outgoing send i (ks_initial_opcode ks);
          send \<leftarrow> (if skip_initial_send then reliable_mark_deleted send i else Some send);
          Some (True, ks\<lparr>ks_initial := now, ks_must_negotiate := now + to_handshake_window opt,
            ks_auth_deferred_expire := now + auth_deferred_expire_window opt, ks_send_reliable := send,
            ks_state := (if skip_initial_send then S_PRE_START_SKIP else S_PRE_START)\<rparr>) }) }"

fun flush_payload_buffer :: "'tls tls_lib \<Rightarrow> 'tls \<Rightarrow> u8 list list \<Rightarrow> 'tls" where
  "flush_payload_buffer lib tls [] = tls"
| "flush_payload_buffer lib tls (b # bs) =
     flush_payload_buffer lib (snd (key_state_write_plaintext_const lib tls b)) bs"

definition session_move_active :: "'tls tls_env \<Rightarrow> int \<Rightarrow> 'tls tls_run \<Rightarrow> 'tls tls_run option" where
  "session_move_active env now r = do {
     let ks = (run_ks r)\<lparr>ks_established := now, ks_state := S_ACTIVE, ks_must_negotiate := 0\<rparr>;
     tls \<leftarrow> the_tls ks;
     let ks = ks\<lparr>ks_tls := Some (flush_payload_buffer (te_lib env) tls (ks_paybuf ks)), ks_paybuf := []\<rparr>;
     let m = tr_multi r;
     let m = (if tm_multi_state m = CAS_NOT_CONNECTED
       then m\<lparr>tm_multi_state := (if to_mode_server (tm_opt m) then CAS_WAITING_AUTH else CAS_WAITING_OPTIONS_IMPORT)\<rparr>
       else m);
     Some (with_ks ks (r\<lparr>tr_multi := m,
       tr_lsi := link_socket_set_outgoing_addr (te_match_proto env) (ks_remote_addr ks) (tr_lsi r)\<rparr>)) }"

text \<open>A client that the server met while it kept no state for it.\<close>

definition session_skip_to_pre_start ::
  "int \<Rightarrow> tls_options \<Rightarrow> 'tls tls_session \<Rightarrow> tls_pre_decrypt_state \<Rightarrow> link_addr \<Rightarrow> (bool \<times> 'tls tls_session) option" where
  "session_skip_to_pre_start now opt s state from = do {
     let ks = ts_primary s;
     let ks = ks\<lparr>ks_session_id_remote := pd_peer_sid state, ks_remote_addr := from,
                 ks_rec_reliable := (ks_rec_reliable ks)\<lparr>rl_packet_id := 1\<rparr>\<rparr>;
     let wrap = tw_opt (ts_tls_wrap s);
     let pid = co_packet_id wrap;
     let s = s\<lparr>ts_session_id := pd_server_sid state, ts_untrusted_addr := from, ts_burst := True,
               ts_tls_wrap := (ts_tls_wrap s)\<lparr>tw_opt := wrap\<lparr>co_packet_id := pid\<lparr>pid_send := (pid_send pid)\<lparr>ps_id := 1\<rparr>\<rparr>\<rparr>\<rparr>\<rparr>;
     (ok, ks) \<leftarrow> session_move_pre_start now opt ks True;
     Some (ok, s\<lparr>ts_primary := ks\<rparr>) }"

section \<open>Early negotiation\<close>

lemma buf_read_len: "buf_read b n = (Some bs, b') \<Longrightarrow> b_len b' = b_len b - n"
  by (auto simp: buf_read_def buf_read_alloc_def split: if_splits option.splits)

lemma buf_read_u16_len: "(n, b') = buf_read_u16 b \<Longrightarrow> b_len b' \<le> b_len b"
  by (auto simp: buf_read_u16_def buf_read_def buf_read_alloc_def split: if_splits option.splits)

lemma buf_advance_len: "b_len (snd (buf_advance b n)) = b_len b \<or> b_len (snd (buf_advance b n)) = b_len b - n \<and> 0 \<le> n"
  by (auto simp: buf_advance_def)

text \<open>\<open>None\<close> is a buffer that has a length but no memory.\<close>

function parse_tlvs :: "buffer \<Rightarrow> bool \<Rightarrow> (bool \<times> buffer \<times> bool) option" where
  "parse_tlvs buf resend =
     (if b_len buf > 0 then
        (if buf_len buf < 4 then Some (False, buf, resend)
         else (case buf_read buf 2 of
            (None, _) \<Rightarrow> None
          | (Some t, buf1) \<Rightarrow> (case buf_read buf1 2 of
              (None, _) \<Rightarrow> None
            | (Some l, buf2) \<Rightarrow>
                (let len = uint (of_be16 l :: u16) in
                 if buf_len buf2 < len then Some (False, buf2, resend)
                 else if (of_be16 t :: u16) = TLV_TYPE_EARLY_NEG_FLAGS then
                   (if len \<noteq> 2 then Some (False, buf2, resend)
                    else (case buf_read_u16 buf2 of (flags, buf3) \<Rightarrow>
                      parse_tlvs buf3 (resend \<or> (word_of_int flags AND EARLY_NEG_FLAG_RESEND_WKC) \<noteq> 0)))
                 else parse_tlvs (snd (buf_advance buf2 len)) resend))))
      else Some (True, buf, resend))"
  by pat_completeness auto

termination
  apply (relation "measure (\<lambda>(buf, resend). nat (b_len buf))")
    apply simp
   apply (auto dest!: buf_read_len [OF sym] buf_read_u16_len) [1]
  apply (auto dest!: buf_read_len [OF sym])
  apply (smt (verit) buf_advance_len)
  done

declare parse_tlvs.simps [simp del]

definition parse_early_negotiation_tlvs :: "nat \<Rightarrow> 'tls key_state \<Rightarrow> (bool \<times> 'tls key_state) option" where
  "parse_early_negotiation_tlvs i ks = do {
     (ok, buf, resend) \<leftarrow> parse_tlvs (e_buf (entry (ks_rec_reliable ks) i)) (ks_resend_wkc ks);
     let rec = set_buf i buf (ks_rec_reliable ks);
     let ks = ks\<lparr>ks_rec_reliable := rec, ks_resend_wkc := resend\<rparr>;
     if ok then do {
       rec \<leftarrow> reliable_mark_deleted rec i;
       Some (True, ks\<lparr>ks_rec_reliable := rec\<rparr>) }
     else Some (False, ks) }"

section \<open>The steps of tls\_process\_state\<close>

text \<open>Each step returns false where the code goes to its error exit.\<close>

definition incoming_ciphertext :: "'tls tls_env \<Rightarrow> 'tls tls_run \<Rightarrow> (bool \<times> 'tls tls_run) option" where
  "incoming_ciphertext env r = (let ks = run_ks r in
     case reliable_get_entry_sequenced (ks_rec_reliable ks) of
       None \<Rightarrow> Some (True, r)
     | Some i \<Rightarrow> (let e = entry (ks_rec_reliable ks) i in
         if e_packet_id e = 0 \<and> is_hard_reset_method2 (e_opcode e) then do {
           (ok, ks) \<leftarrow> parse_early_negotiation_tlvs i ks;
           Some (ok, with_ks ks r) }
         else do {
           tls \<leftarrow> the_tls ks;
           let (status, buf, tls) =
             (if b_len (e_buf e) \<noteq> 0 then key_state_write_ciphertext (te_lib env) tls (e_buf e) else (1, e_buf e, tls));
           let rec = set_buf i buf (ks_rec_reliable ks);
           let ks = ks\<lparr>ks_tls := Some tls, ks_rec_reliable := rec\<rparr>;
           if status = - 1 then Some (False, with_ks ks r)
           else if status = 1 then do {
             rec \<leftarrow> reliable_mark_deleted rec i;
             Some (True, with_ks (ks\<lparr>ks_rec_reliable := rec\<rparr>) (r\<lparr>tr_continue := True\<rparr>)) }
           else Some (True, with_ks ks r) }))"

definition incoming_plaintext :: "'tls tls_env \<Rightarrow> 'tls tls_run \<Rightarrow> (bool \<times> 'tls tls_run) option" where
  "incoming_plaintext env r = (let ks = run_ks r in
     if b_len (ks_plaintext_read_buf ks) \<noteq> 0 then Some (True, r)
     else do {
       let (ok, buf) = buf_init (ks_plaintext_read_buf ks) 0;
       _ \<leftarrow> ASSERT ok;
       tls \<leftarrow> the_tls ks;
       (status, buf, tls) \<leftarrow> key_state_read_plaintext (te_lib env) tls buf;
       let r = with_ks (ks\<lparr>ks_tls := Some tls, ks_plaintext_read_buf := buf\<rparr>) r;
       Some (if status = - 1 then (False, r)
         else if status = 1 then (True, r\<lparr>tr_continue := True, tr_wakeup := 0\<rparr>)
         else (True, r)) })"

definition send_key :: "'tls tls_env \<Rightarrow> 'tls tls_run \<Rightarrow> (bool \<times> 'tls tls_run) option" where
  "send_key env r = (let ks = run_ks r; opt = run_opt r in
     if b_len (ks_plaintext_write_buf ks) = 0 \<and>
        (ks_state ks = S_START \<and> \<not> to_server opt \<or> ks_state ks = S_GOT_KEY \<and> to_server opt) then do {
       (ok, src, buf) \<leftarrow> key_method_2_write (ks_plaintext_write_buf ks) (ks_key_src ks) (to_server opt)
         (te_rnd env (ts_session_id (tr_session r)) (ks_key_id ks)) (to_local_options opt) (to_credentials opt) (to_peer_info opt);
       let ks = ks\<lparr>ks_key_src := src, ks_plaintext_write_buf := buf\<rparr>;
       Some (if ok then (True, with_ks (ks\<lparr>ks_state := S_SENT_KEY\<rparr>) (r\<lparr>tr_continue := True\<rparr>))
         else (False, with_ks ks r)) }
     else Some (True, r))"

text \<open>The verdict of \<open>--verify-user-pass\<close> and of the final checks is the one of \<open>to_auth\<close>;
  whether the certificate was verified is the session's.\<close>

definition receive_key :: "'tls tls_run \<Rightarrow> bool \<times> 'tls tls_run" where
  "receive_key r = (let ks = run_ks r; opt = run_opt r; m = tr_multi r in
     if b_len (ks_plaintext_read_buf ks) \<noteq> 0 \<and>
        (ks_state ks = S_SENT_KEY \<and> \<not> to_server opt \<or> ks_state ks = S_START \<and> to_server opt) then
       (case key_method_2_read ((to_auth opt)\<lparr>ao_server := to_server opt, ao_verified := ts_verified (tr_session r)\<rparr>)
              \<lparr>pe_key_src = ks_key_src ks, pe_authenticated = ks_authenticated ks, pe_peer_info = tm_peer_info m,
               pe_remote_ciphername = tm_remote_ciphername m, pe_remote_usescomp = tm_remote_usescomp m\<rparr>
              (ks_plaintext_read_buf ks) of (ok, pe, buf) \<Rightarrow>
         (let ks = ks\<lparr>ks_plaintext_read_buf := buf, ks_key_src := pe_key_src pe, ks_authenticated := pe_authenticated pe\<rparr>;
              r = r\<lparr>tr_multi := m\<lparr>tm_peer_info := pe_peer_info pe, tm_remote_ciphername := pe_remote_ciphername pe,
                               tm_remote_usescomp := pe_remote_usescomp pe\<rparr>\<rparr> in
          if ok then (True, with_ks (ks\<lparr>ks_state := S_GOT_KEY\<rparr>) (r\<lparr>tr_continue := True\<rparr>))
          else (False, with_ks ks r)))
     else (True, r))"

definition outgoing_plaintext :: "'tls tls_env \<Rightarrow> 'tls tls_run \<Rightarrow> (bool \<times> 'tls tls_run) option" where
  "outgoing_plaintext env r = (let ks = run_ks r in
     if b_len (ks_plaintext_write_buf ks) \<noteq> 0 then do {
       tls \<leftarrow> the_tls ks;
       let (status, buf, tls) = key_state_write_plaintext (te_lib env) tls (ks_plaintext_write_buf ks);
       let r = with_ks (ks\<lparr>ks_tls := Some tls, ks_plaintext_write_buf := buf\<rparr>) r;
       Some (if status = - 1 then (False, r)
         else if status = 1 then (True, r\<lparr>tr_continue := True\<rparr>)
         else (True, r)) }
     else Some (True, r))"

definition outgoing_ciphertext :: "'tls tls_env \<Rightarrow> 'tls tls_run \<Rightarrow> (bool \<times> 'tls tls_run) option" where
  "outgoing_ciphertext env r = (let ks = run_ks r; s = tr_session r in do {
     tls \<leftarrow> the_tls ks;
     overhead \<leftarrow> calc_control_channel_frame_overhead (ce_cl (te_ce env)) s;
     (ok, more, tls, send) \<leftarrow> write_outgoing_tls_ciphertext (key_state_read_ciphertext (te_lib env) tls) tls
       (ks_resend_wkc ks) (buf_len (tw_wkc (ts_tls_wrap s))) (fr_tun_mtu (to_frame (run_opt r))) overhead (ks_send_reliable ks);
     Some (ok, with_ks (ks\<lparr>ks_tls := Some tls, ks_send_reliable := send\<rparr>) (r\<lparr>tr_continue := tr_continue r \<or> more\<rparr>)) })"

definition check_outgoing_ciphertext :: "'tls tls_env \<Rightarrow> 'tls tls_run \<Rightarrow> (bool \<times> 'tls tls_run) option" where
  "check_outgoing_ciphertext env r = (let ks = run_ks r in
     if ks_state ks \<ge> S_START then do {
       (i, send) \<leftarrow> reliable_get_buf_output_sequenced (ks_send_reliable ks);
       let r = with_ks (ks\<lparr>ks_send_reliable := send\<rparr>) r;
       if i \<noteq> None then outgoing_ciphertext env r else Some (True, r) }
     else Some (True, r))"

fun run_steps :: "('r \<Rightarrow> (bool \<times> 'r) option) list \<Rightarrow> 'r \<Rightarrow> (bool \<times> 'r) option" where
  "run_steps [] r = Some (True, r)"
| "run_steps (f # fs) r = do { (ok, r) \<leftarrow> f r; if ok then run_steps fs r else Some (False, r) }"

text \<open>From \<open>/* Write incoming ciphertext to TLS object */\<close> on.\<close>

definition exchange :: "'tls tls_env \<Rightarrow> 'tls tls_run \<Rightarrow> (bool \<times> 'tls tls_run) option" where
  "exchange env = run_steps [incoming_ciphertext env, incoming_plaintext env, send_key env, \<lambda>r. Some (receive_key r),
     outgoing_plaintext env, check_outgoing_ciphertext env]"

text \<open>The error exit.\<close>

definition process_error :: "'tls tls_env \<Rightarrow> 'tls tls_run \<Rightarrow> (bool \<times> 'tls tls_run) option" where
  "process_error env r = do {
     tls \<leftarrow> the_tls (run_ks r);
     (_, r) \<leftarrow> check_outgoing_ciphertext env (with_ks ((run_ks r)\<lparr>ks_tls := Some (tl_shutdown (te_lib env) tls)\<rparr>) r);
     Some (True, with_ks ((run_ks r)\<lparr>ks_state := S_ERROR_PRE\<rparr>) r) }"

definition pre_start :: "int \<Rightarrow> 'tls tls_run \<Rightarrow> 'tls tls_run option" where
  "pre_start now r = (let r = r\<lparr>tr_continue := False\<rparr> in
     if ks_state (run_ks r) = S_INITIAL then do {
       (ok, ks) \<leftarrow> session_move_pre_start now (run_opt r) (run_ks r) False;
       Some (with_ks ks (r\<lparr>tr_continue := ok\<rparr>)) }
     else Some r)"

definition timed_out :: "int \<Rightarrow> 'tls key_state \<Rightarrow> bool" where
  "timed_out now ks \<longleftrightarrow> now \<ge> ks_must_negotiate ks \<and> ks_state ks \<ge> S_UNDEF \<and> ks_state ks < S_ACTIVE"

definition start :: "'tls tls_run \<Rightarrow> 'tls tls_run" where
  "start r = (let ks = run_ks r in
     if ks_state ks = S_PRE_START \<and> reliable_empty (ks_send_reliable ks)
     then with_ks (ks\<lparr>ks_state := S_START\<rparr>) (r\<lparr>tr_continue := True\<rparr>) else r)"

definition activate :: "'tls tls_env \<Rightarrow> int \<Rightarrow> 'tls tls_run \<Rightarrow> 'tls tls_run option" where
  "activate env now r = (let ks = run_ks r; server = to_server (run_opt r) in
     if (ks_state ks = S_GOT_KEY \<and> \<not> server \<or> ks_state ks = S_SENT_KEY \<and> server) \<and> reliable_empty (ks_send_reliable ks)
     then map_option (\<lambda>r. r\<lparr>tr_continue := True\<rparr>) (session_move_active env now r) else Some r)"

definition transmit :: "'tls tls_env \<Rightarrow> int \<Rightarrow> 'tls tls_run \<Rightarrow> 'tls tls_run option" where
  "transmit env now r = (let ks = run_ks r in
     case reliable_send now (ks_send_reliable ks) of
       (None, _) \<Rightarrow> None
     | (Some (i, opcode), send) \<Rightarrow> do {
         let s = (tr_session r)\<lparr>ts_primary := ks\<lparr>ks_send_reliable := send\<rparr>\<rparr>;
         (s, buf, addr) \<leftarrow> write_control_auth (te_ce env) now (run_opt r) s (e_buf (entry send i)) opcode CONTROL_SEND_ACK_MAX True;
         Some (r\<lparr>tr_session := s, tr_to_link := buf, tr_to_link_addr := Some addr\<rparr>) })"

definition tls_process_state :: "'tls tls_env \<Rightarrow> int \<Rightarrow> 'tls tls_run \<Rightarrow> (bool \<times> 'tls tls_run) option" where
  "tls_process_state env now r = do {
     r \<leftarrow> pre_start now r;
     if timed_out now (run_ks r) then process_error env r
     else do {
       r \<leftarrow> activate env now (start r);
       if b_len (tr_to_link r) = 0 \<and> reliable_can_send now (ks_send_reliable (run_ks r)) then do {
         r \<leftarrow> transmit env now r;
         Some (False, r) }
       else if ks_state (run_ks r) = S_ERROR_PRE then Some (False, with_ks ((run_ks r)\<lparr>ks_state := S_ERROR\<rparr>) r)
       else do {
         (ok, r) \<leftarrow> exchange env r;
         if ok then Some (tr_continue r, r) else process_error env r } } }"

section \<open>tls\_process\<close>

definition should_trigger_renegotiation :: "int \<Rightarrow> tls_options \<Rightarrow> 'tls key_state \<Rightarrow> bool" where
  "should_trigger_renegotiation now opt ks =
     (let co = ks_crypto_options ks in
      if to_renegotiate_seconds opt \<noteq> 0 \<and> now \<ge> ks_established ks + to_renegotiate_seconds opt then True
      else if to_renegotiate_bytes opt > 0 \<and> ks_n_bytes ks \<ge> to_renegotiate_bytes opt then True
      else if to_renegotiate_packets opt \<noteq> 0 \<and> ks_n_packets ks \<ge> to_renegotiate_packets opt then True
      else if co_epoch_format co then ek_epoch (co_epoch_key_send co) \<ge> 0xF000
      else if packet_id_close_to_wrapping (pid_send (co_packet_id co)) then True
      else if aead_usage_limit_reached (to_aead_usage_limit opt) (co_encrypt co) (ps_id (pid_send (co_packet_id co))) \<or>
              aead_usage_limit_reached (to_aead_usage_limit opt) (co_decrypt co) (pr_id (pid_rec (co_packet_id co))) then True
      else cipher_decrypt_verify_fail_warn (co_decrypt co))"

text \<open>The loop takes fuel; \<open>None\<close> outside is a loop that has used it up, inside an abort. The
  first component tells whether the state is not \<open>S_ERROR\<close>.\<close>

fun process_loop :: "nat \<Rightarrow> 'tls tls_env \<Rightarrow> int \<Rightarrow> 'tls tls_run \<Rightarrow> (bool \<times> 'tls tls_run) option option" where
  "process_loop 0 env now r = None"
| "process_loop (Suc n) env now r =
     (case tls_process_state env now r of
        None \<Rightarrow> Some None
      | Some (continue, r) \<Rightarrow>
          if ks_state (run_ks r) = S_ERROR then Some (Some (False, r))
          else if continue then process_loop n env now r
          else Some (Some (True, r)))"

text \<open>How often the loop can go round: the state moves on, a received packet goes to the TLS object, a
  packet is queued, or a plaintext buffer fills or empties.\<close>

definition state_rank :: "bool \<Rightarrow> int \<Rightarrow> nat" where
  "state_rank server st =
     (if st = S_ERROR then 0 else if st = S_ERROR_PRE then 1 else if st \<ge> S_ACTIVE then 2
      else if st = (if server then S_SENT_KEY else S_GOT_KEY) then 3
      else if st = (if server then S_GOT_KEY else S_SENT_KEY) then 4
      else if st = S_START then 5 else if st = S_PRE_START then 6 else 7)"

definition count_entries :: "(reliable_entry \<Rightarrow> bool) \<Rightarrow> reliable \<Rightarrow> nat" where
  "count_entries P rel = length (filter P (entries rel))"

definition process_bound :: "'tls tls_run \<Rightarrow> nat" where
  "process_bound r = (let ks = run_ks r in
     3 * state_rank (to_server (run_opt r)) (ks_state ks) + count_entries e_active (ks_rec_reliable ks) +
     count_entries (\<lambda>e. \<not> e_active e) (ks_send_reliable ks) + of_bool (b_len (ks_plaintext_write_buf ks) \<noteq> 0) +
     of_bool (b_len (ks_plaintext_read_buf ks) = 0))"

text \<open>The acknowledgements; the first component is false for the early return.\<close>

definition send_acks :: "'tls tls_env \<Rightarrow> int \<Rightarrow> 'tls tls_run \<Rightarrow> (bool \<times> 'tls tls_run) option" where
  "send_acks env now r = (let ks = run_ks r in
     if b_len (tr_to_link r) = 0 \<and> \<not> reliable_ack_empty (ks_rec_ack ks) then
       (if control_packet_needs_wkc (ks_resend_wkc ks) (ks_send_reliable ks) then do {
          (i, send) \<leftarrow> reliable_get_buf_output_sequenced (ks_send_reliable ks);
          (case i of
             None \<Rightarrow> Some (False, with_ks (ks\<lparr>ks_send_reliable := send\<rparr>) r)
           | Some i \<Rightarrow> do {
               send \<leftarrow> reliable_mark_active_outgoing send i P_CONTROL_WKC_V1;
               Some (True, with_ks (ks\<lparr>ks_send_reliable := send\<rparr>) r) }) }
        else do {
          let (ok, buf) = buf_init (ks_ack_write_buf ks) (fr_headroom (to_frame (run_opt r)));
          _ \<leftarrow> ASSERT ok;
          (s, buf, addr) \<leftarrow> write_control_auth (te_ce env) now (run_opt r) (tr_session r) buf P_ACK_V1 RELIABLE_ACK_SIZE False;
          Some (True, r\<lparr>tr_session := s, tr_to_link := buf, tr_to_link_addr := Some addr\<rparr>) })
     else Some (True, r))"

definition next_wakeup :: "int \<Rightarrow> tls_options \<Rightarrow> 'tls key_state \<Rightarrow> int \<Rightarrow> int" where
  "next_wakeup now opt ks wakeup =
     (let wakeup = (if ks_state ks \<ge> S_INITIAL \<or> ks_state ks = S_ERROR_PRE then
            (let wakeup = compute_earliest_wakeup wakeup (reliable_send_timeout now (ks_send_reliable ks)) in
             if ks_must_negotiate ks \<noteq> 0 then compute_earliest_wakeup wakeup (ks_must_negotiate ks - now) else wakeup)
          else wakeup) in
      if ks_established ks \<noteq> 0 \<and> to_renegotiate_seconds opt \<noteq> 0
      then compute_earliest_wakeup wakeup (ks_established ks + to_renegotiate_seconds opt - now) else wakeup)"

definition renegotiate :: "'tls tls_env \<Rightarrow> int \<Rightarrow> 'tls tls_run \<Rightarrow> 'tls tls_run option" where
  "renegotiate env now r =
     (if ks_state (run_ks r) \<ge> S_GENERATED_KEYS \<and> should_trigger_renegotiation now (run_opt r) (run_ks r)
      then map_option (\<lambda>s. r\<lparr>tr_session := s\<rparr>) (key_state_soft_reset (te_lib env) now (run_opt r) (tr_session r))
      else Some r)"

definition kill_lame_duck :: "int \<Rightarrow> 'tls tls_run \<Rightarrow> 'tls tls_run option" where
  "kill_lame_duck now r = do {
     let s = tr_session r;
     (die, wakeup) \<leftarrow> lame_duck_must_die now s (tr_wakeup r);
     Some (r\<lparr>tr_wakeup := wakeup,
       tr_session := (if die then s\<lparr>ts_lame_duck := key_state_free True (ts_lame_duck s)\<rparr> else s)\<rparr>) }"

definition tls_process :: "'tls tls_env \<Rightarrow> int \<Rightarrow> 'tls tls_run \<Rightarrow> (bool \<times> 'tls tls_run) option" where
  "tls_process env now r = do {
     _ \<leftarrow> ASSERT (ks_state (run_ks r) \<noteq> S_UNDEF);
     _ \<leftarrow> ASSERT (ks_state (run_ks r) \<noteq> S_ERROR);
     _ \<leftarrow> ASSERT (session_id_defined (ts_session_id (tr_session r)));
     r \<leftarrow> renegotiate env now r;
     r \<leftarrow> kill_lame_duck now r;
     result \<leftarrow> process_loop (Suc (process_bound r)) env now r;
     (alive, r) \<leftarrow> result;
     if \<not> alive then Some (False, r)
     else do {
       (ok, r) \<leftarrow> send_acks env now r;
       if \<not> ok then Some (False, r)
       else do {
         let wakeup = next_wakeup now (run_opt r) (run_ks r) (tr_wakeup r);
         if wakeup \<le> 0 then Some (True, r\<lparr>tr_wakeup := 1\<rparr>)
         else Some (b_len (tr_to_link r) \<noteq> 0, r\<lparr>tr_wakeup := wakeup\<rparr>) } } }"

end
