(* ===== verification/TlsMulti.thy ===== *)
theory TlsMulti
  imports TlsProcess
begin

text \<open>
  ssl.c and ssl_verify.c: the operations on a tunnel. \<open>tls_multi_process\<close> works on its three sessions, moves
  authenticated ones into place and generates data channel keys.

  Messages, the management interface and the repetition of authentication tokens are left out, and so
  is the debugging code that floods a peer with connection attempts.
\<close>

section \<open>Data channel keys\<close>

definition tls_limit_reneg_bytes :: "bool \<Rightarrow> int \<Rightarrow> int" where
  "tls_limit_reneg_bytes insecure reneg_bytes =
     (if insecure \<and> reneg_bytes = - 1 then 64 * 1024 * 1024 else reneg_bytes)"

definition tls_get_limit_aead :: "u64 \<Rightarrow> u64" where
  "tls_get_limit_aead limit = (if limit = 0 then 0 else limit div 8 * 7)"

definition tls_session_generate_data_channel_keys ::
  "'tls tls_env \<Rightarrow> nat \<Rightarrow> 'tls tls_multi \<Rightarrow> (bool \<times> 'tls tls_multi) option" where
  "tls_session_generate_data_channel_keys env i m =
     (let s = session_at m i; ks = ts_primary s; opt = tm_opt m in
      if ks_authenticated ks = KS_AUTH_FALSE
      then Some (False, set_session i (s\<lparr>ts_primary := ks\<lparr>ks_key_src := cleared_source2\<rparr>\<rparr>) m)
      else do {
        tls \<leftarrow> the_tls ks;
        let co = (ks_crypto_options ks)\<lparr>co_epoch_format := to_epoch_format opt, co_long_form := to_long_form opt,
                                       co_ignore_packet_id := False\<rparr>;
        (ok, co) \<leftarrow> generate_key_expansion (ce_hm (te_ce env)) (te_prf env) (te_export env tls) (to_key_type opt)
          (to_cipher_aead_limit opt) (to_use_export opt) (to_server opt) (ts_session_id s) (ks_session_id_remote ks)
          (ks_key_src ks) co;
        let ks = ks\<lparr>ks_crypto_options := co, ks_resend_wkc := False, ks_key_src := cleared_source2\<rparr>;
        if \<not> ok then Some (False, set_session i (s\<lparr>ts_primary := ks\<rparr>) m)
        else Some (True, set_session i (s\<lparr>ts_primary := ks\<lparr>ks_state := S_GENERATED_KEYS\<rparr>\<rparr>)
          (m\<lparr>tm_opt := opt\<lparr>to_renegotiate_bytes := tls_limit_reneg_bytes (to_cipher_insecure opt) (to_renegotiate_bytes opt),
                           to_aead_usage_limit := tls_get_limit_aead (to_cipher_aead_limit opt)\<rparr>\<rparr>)) })"

section \<open>Authentication\<close>

definition TLS_AUTHENTICATED :: "'tls tls_multi \<Rightarrow> 'tls key_state \<Rightarrow> bool" where
  "TLS_AUTHENTICATED m ks \<longleftrightarrow> ks_state ks \<ge> S_GOT_KEY - of_bool (to_server (tm_opt m))"

definition update_key_auth_status :: "'tls tls_env \<Rightarrow> int \<Rightarrow> bool \<Rightarrow> 'tls key_state \<Rightarrow> 'tls key_state" where
  "update_key_auth_status env now cached ks =
     (if ks_authenticated ks = KS_AUTH_FALSE then ks
      else (let results = te_deferred env cached (ks_key_id ks) in
        if ACF_FAILED \<in> set results then ks\<lparr>ks_authenticated := KS_AUTH_FALSE\<rparr>
        else if ACF_PENDING \<in> set results then
          (if now \<ge> ks_auth_deferred_expire ks then ks\<lparr>ks_authenticated := KS_AUTH_FALSE\<rparr> else ks)
        else ks\<lparr>ks_authenticated := KS_AUTH_TRUE\<rparr>))"

definition cache_intervals :: "int list" where
  "cache_intervals = [0, 0, 0, 0, 0, 1, 1, 2, 2, 4, 8]"

definition tls_authentication_status_use_cache :: "int \<Rightarrow> 'tls tls_multi \<Rightarrow> bool" where
  "tls_authentication_status_use_cache now m =
     (tm_tas_cache_last_update m + cache_intervals ! min (tm_tas_cache_num_updates m) (length cache_intervals - 1) \<ge> now)"

datatype tls_auth_status = TLS_AUTHENTICATION_SUCCEEDED | TLS_AUTHENTICATION_FAILED | TLS_AUTHENTICATION_DEFERRED

text \<open>The loop updates the keys that have come through the TLS handshake; the keys it has seen tell the status.\<close>

fun update_auth :: "'tls tls_env \<Rightarrow> int \<Rightarrow> bool \<Rightarrow> nat list \<Rightarrow> 'tls tls_multi \<Rightarrow> ks_auth_state list \<times> 'tls tls_multi" where
  "update_auth env now cached [] m = ([], m)"
| "update_auth env now cached (i # is) m =
     (case get_key_scan m i of
        None \<Rightarrow> update_auth env now cached is m
      | Some ks \<Rightarrow>
          if TLS_AUTHENTICATED m ks then
            (let ks = update_key_auth_status env now cached ks in
             case update_auth env now cached is (set_key_scan i ks m) of (seen, m) \<Rightarrow> (ks_authenticated ks # seen, m))
          else update_auth env now cached is m)"

definition tls_authentication_status :: "'tls tls_env \<Rightarrow> int \<Rightarrow> 'tls tls_multi \<Rightarrow> tls_auth_status \<times> 'tls tls_multi" where
  "tls_authentication_status env now m =
     (let cached = tls_authentication_status_use_cache now m in
      case update_auth env now cached [0..<KEY_SCAN_SIZE] m of (seen, m) \<Rightarrow>
        (if KS_AUTH_FALSE \<in> set seen then TLS_AUTHENTICATION_FAILED
         else if KS_AUTH_TRUE \<in> set seen then TLS_AUTHENTICATION_SUCCEEDED
         else TLS_AUTHENTICATION_DEFERRED,
         if cached then m
         else m\<lparr>tm_tas_cache_last_update := now, tm_tas_cache_num_updates := tm_tas_cache_num_updates m + 1\<rparr>))"

section \<open>tls\_multi\_process\<close>

datatype tlsmp = TLSMP_INACTIVE | TLSMP_ACTIVE | TLSMP_KILL | TLSMP_RECONNECT

text \<open>What the call works on; \<open>pr_error\<close> is the local \<open>error\<close>.\<close>

record 'tls multi_run =
  mr_multi :: "'tls tls_multi"
  mr_lsi :: link_socket_info
  mr_to_link :: buffer
  mr_to_link_addr :: "link_addr option"
  mr_wakeup :: int
  mr_active :: tlsmp
  mr_error :: bool

definition check_session_buf_not_used :: "'tls tls_env \<Rightarrow> buffer \<Rightarrow> 'tls tls_session \<Rightarrow> buffer" where
  "check_session_buf_not_used env to_link s =
     (if b_data to_link \<noteq> None \<and> te_buf_used env to_link s then to_link\<lparr>b_len := 0, b_data := None\<rparr> else to_link)"

text \<open>A session that has run into an error.\<close>

definition session_error :: "'tls tls_env \<Rightarrow> int \<Rightarrow> nat \<Rightarrow> 'tls multi_run \<Rightarrow> 'tls multi_run option" where
  "session_error env now i p = (let m = mr_multi p; s = session_at m i in
     if ks_state (ts_primary s) = S_ERROR then do {
       let m = m\<lparr>tm_n_soft_errors := tm_n_soft_errors m + 1\<rparr>;
       let p = (if i = TM_ACTIVE \<or> i = TM_INITIAL \<and> ks_state (get_primary_key m) < S_ACTIVE
         then p\<lparr>mr_error := True\<rparr> else p);
       if i = TM_ACTIVE \<and> ks_state (ts_lame_duck s) \<ge> S_GENERATED_KEYS \<and> \<not> to_single_session (tm_opt m) then do {
         m \<leftarrow> move_session (te_lib env) now TM_LAME_DUCK TM_ACTIVE True m;
         Some (p\<lparr>mr_multi := m\<rparr>) }
       else do {
         let to_link = check_session_buf_not_used env (mr_to_link p) s;
         m \<leftarrow> reset_session (te_lib env) now i m;
         Some (p\<lparr>mr_multi := m, mr_to_link := to_link\<rparr>) } }
     else Some p)"

definition process_session :: "'tls tls_env \<Rightarrow> int \<Rightarrow> nat \<Rightarrow> 'tls multi_run \<Rightarrow> 'tls multi_run option" where
  "process_session env now i p = (let m = mr_multi p; s = session_at m i; ks = ts_primary s;
     ks = (if i = TM_INITIAL \<and> ks_state ks = S_INITIAL \<and> ks_state (get_primary_key m) \<le> S_INITIAL \<and>
              link_socket_actual_defined (li_actual (mr_lsi p))
           then ks\<lparr>ks_remote_addr := li_actual (mr_lsi p)\<rparr> else ks);
     s = s\<lparr>ts_primary := ks\<rparr>; m = set_session i s m in
     if (ks_state ks \<ge> S_INITIAL \<or> ks_state ks = S_ERROR_PRE) \<and> link_socket_actual_defined (ks_remote_addr ks) then do {
       (busy, r) \<leftarrow> tls_process env now \<lparr>tr_multi = m, tr_session = s, tr_lsi = mr_lsi p, tr_to_link = mr_to_link p,
         tr_to_link_addr = None, tr_wakeup = mr_wakeup p, tr_continue = False\<rparr>;
       session_error env now i (p\<lparr>mr_multi := set_session i (tr_session r) (tr_multi r), mr_lsi := tr_lsi r,
         mr_to_link := tr_to_link r, mr_wakeup := tr_wakeup r,
         mr_to_link_addr := (case tr_to_link_addr r of None \<Rightarrow> mr_to_link_addr p | Some a \<Rightarrow> Some a),
         mr_active := (if busy then TLSMP_ACTIVE else mr_active p)\<rparr>) }
     else Some (p\<lparr>mr_multi := m\<rparr>))"

text \<open>The keys of the active session.\<close>

definition generate_active_keys :: "'tls tls_env \<Rightarrow> 'tls tls_multi \<Rightarrow> 'tls tls_multi option" where
  "generate_active_keys env m = (let ks = get_primary_key m in
     if tm_multi_state m = CAS_CONNECT_DONE \<and> ks_state ks = S_ACTIVE \<and> ks_authenticated ks = KS_AUTH_TRUE then do {
       (ok, m) \<leftarrow> tls_session_generate_data_channel_keys env TM_ACTIVE m;
       if ok then Some m
       else do {
         let s = session_at m TM_ACTIVE;
         let ks = ts_primary s;
         tls \<leftarrow> the_tls ks;
         Some (set_session TM_ACTIVE (s\<lparr>ts_primary := ks\<lparr>ks_authenticated := KS_AUTH_FALSE, ks_state := S_ERROR_PRE,
           ks_tls := Some (tl_shutdown (te_lib env) tls)\<rparr>\<rparr>) m) } }
     else Some m)"

text \<open>An untrusted session that has been authenticated takes the place of the active one.\<close>

definition promote_initial ::
  "'tls tls_env \<Rightarrow> int \<Rightarrow> tls_auth_status \<Rightarrow> tlsmp \<Rightarrow> 'tls tls_multi \<Rightarrow> (tls_auth_status \<times> tlsmp \<times> 'tls tls_multi) option" where
  "promote_initial env now tas active m =
     (if TLS_AUTHENTICATED m (ts_primary (session_at m TM_INITIAL)) then do {
        m \<leftarrow> move_session (te_lib env) now TM_ACTIVE TM_INITIAL True m;
        let (tas, m) = tls_authentication_status env now m;
        Some (if tm_multi_state m = CAS_CONNECT_DONE then (tas, TLSMP_RECONNECT, m\<lparr>tm_multi_state := CAS_RECONNECT_PENDING\<rparr>)
          else (tas, active, m)) }
      else Some (tas, active, m))"

definition count_hard_error :: "bool \<Rightarrow> 'tls tls_multi \<Rightarrow> 'tls tls_multi" where
  "count_hard_error error m =
     (if error \<and> \<not> (\<exists>i \<in> set [0..<KEY_SCAN_SIZE]. case get_key_scan m i of None \<Rightarrow> False | Some ks \<Rightarrow> ks_state ks \<ge> S_ACTIVE)
      then m\<lparr>tm_n_hard_errors := tm_n_hard_errors m + 1\<rparr> else m)"

definition tls_multi_process ::
  "'tls tls_env \<Rightarrow> int \<Rightarrow> 'tls tls_multi \<Rightarrow> link_socket_info \<Rightarrow> buffer \<Rightarrow> link_addr option \<Rightarrow> int \<Rightarrow>
   (tlsmp \<times> 'tls multi_run) option" where
  "tls_multi_process env now m lsi to_link to_link_addr wakeup = do {
     let p = \<lparr>mr_multi = m, mr_lsi = lsi, mr_to_link = to_link, mr_to_link_addr = to_link_addr, mr_wakeup = wakeup,
              mr_active = TLSMP_INACTIVE, mr_error = False\<rparr>;
     p \<leftarrow> process_session env now TM_ACTIVE p;
     p \<leftarrow> process_session env now TM_INITIAL p;
     p \<leftarrow> process_session env now TM_LAME_DUCK p;
     let (tas, m) = tls_authentication_status env now (mr_multi p);
     m \<leftarrow> generate_active_keys env m;
     let m = (if tm_multi_state m = CAS_WAITING_AUTH \<and> tas = TLS_AUTHENTICATION_SUCCEEDED
       then m\<lparr>tm_multi_state := CAS_PENDING\<rparr> else m);
     (die, wakeup) \<leftarrow> lame_duck_must_die now (session_at m TM_LAME_DUCK) (mr_wakeup p);
     let m = (if die then set_session TM_LAME_DUCK (tls_session_free True (session_at m TM_LAME_DUCK)) m else m);
     (tas, active, m) \<leftarrow> promote_initial env now tas (mr_active p) m;
     let m = count_hard_error (mr_error p) m;
     Some (if tas = TLS_AUTHENTICATION_FAILED then TLSMP_KILL else active,
       p\<lparr>mr_multi := m, mr_wakeup := wakeup, mr_active := active\<rparr>) }"

end
