(* ===== verification/TlsPackets.thy ===== *)
theory TlsPackets
  imports TlsMulti
begin

text \<open>
  ssl.c: the packets of a tunnel. \<open>tls_pre_decrypt\<close> is the first function that sees what comes in: data
  packets get the key they are to be opened with, control packets are authenticated and go to the
  reliability layer of the session they belong to. Outgoing data packets get their key from
  \<open>tls_pre_encrypt\<close>. A pointer to a key's crypto options is the place of the key in the scan order, and
  \<open>ad_start\<close> is an index into the packet's memory.
\<close>

section \<open>Incoming data packets\<close>

definition data_key :: "'tls key_state \<Rightarrow> bool" where
  "data_key ks \<longleftrightarrow> ks_state ks \<ge> S_GENERATED_KEYS \<and> ks_authenticated ks = KS_AUTH_TRUE"

fun find_data_key :: "'tls tls_multi \<Rightarrow> link_addr \<Rightarrow> bool \<Rightarrow> int \<Rightarrow> nat list \<Rightarrow> nat option option" where
  "find_data_key m from floated key_id [] = Some None"
| "find_data_key m from floated key_id (i # is) = do {
     ks \<leftarrow> get_key_scan m i;
     here \<leftarrow> (if data_key ks \<and> key_id = ks_key_id ks
       then (if floated then Some True else link_socket_actual_match from (ks_remote_addr ks)) else Some False);
     if here then Some (Some i) else find_data_key m from floated key_id is }"

text \<open>The key, \<open>ad_start\<close> where it is set, the packet and the tunnel.\<close>

definition handle_data_channel_packet ::
  "'tls tls_multi \<Rightarrow> link_addr \<Rightarrow> buffer \<Rightarrow> bool \<Rightarrow> (nat option \<times> int option \<times> buffer \<times> 'tls tls_multi) option" where
  "handle_data_channel_packet m from buf floated = do {
     c \<leftarrow> first_byte buf;
     let op = opcode_of c;
     i \<leftarrow> find_data_key m from floated (key_id_of c) [0..<KEY_SCAN_SIZE];
     (case i of
        None \<Rightarrow> Some (None, None, buf\<lparr>b_len := 0\<rparr>, m)
      | Some i \<Rightarrow> do {
          ks \<leftarrow> get_key_scan m i;
          _ \<leftarrow> ASSERT (co_initialized (ks_crypto_options ks));
          let ad_start = (if op = P_DATA_V2 then buf_bptr buf else None);
          let (ok, buf) = buf_advance buf 1;
          _ \<leftarrow> ASSERT ok;
          let ad_start = (if op = P_DATA_V1 then buf_bptr buf else ad_start);
          if op = P_DATA_V2 \<and> b_len buf < 4
          then Some (None, ad_start, buf\<lparr>b_len := 0\<rparr>, m\<lparr>tm_n_soft_errors := tm_n_soft_errors m + 1\<rparr>)
          else do {
            let (ok, buf) = (if op = P_DATA_V2 then buf_advance buf 3 else (True, buf));
            _ \<leftarrow> ASSERT ok;
            let ks = ks\<lparr>ks_n_packets := ks_n_packets ks + 1, ks_n_bytes := ks_n_bytes ks + b_len buf\<rparr>;
            Some (Some i, ad_start, buf, set_key_scan i ks m) } }) }"

section \<open>Incoming control packets\<close>

text \<open>The session of a remote session id, \<open>TM_SIZE\<close> for none.\<close>

definition match_session :: "'tls tls_multi \<Rightarrow> session_id \<Rightarrow> nat" where
  "match_session m sid =
     (case find (\<lambda>i. session_id_equal (ks_session_id_remote (ts_primary (session_at m i))) sid) [0..<TM_SIZE] of
        None \<Rightarrow> TM_SIZE | Some i \<Rightarrow> i)"

text \<open>\<open>read_control_auth\<close> with the wrapping of session \<open>i\<close>.\<close>

definition session_read_control_auth ::
  "'tls tls_env \<Rightarrow> int \<Rightarrow> nat \<Rightarrow> int \<Rightarrow> bool \<Rightarrow> buffer \<Rightarrow> 'tls tls_multi \<Rightarrow> (bool \<times> buffer \<times> 'tls tls_multi) option" where
  "session_read_control_auth env now i key_id initial_packet buf m = do {
     let s = session_at m i;
     (ok, buf, ctx) \<leftarrow> read_control_auth (te_ce env) now (te_verify_v2 env) (fr_headroom (to_frame (tm_opt m))) buf
       (tls_session_get_tls_wrap s key_id) initial_packet;
     Some (ok, buf, set_session i (tls_session_set_tls_wrap s key_id ctx) m) }"

text \<open>Which session the packet is for, and whether it is authentic: the session, \<open>do_burst\<close> and
  \<open>new_link\<close>, or \<open>None\<close> for the error exit.\<close>

definition route_packet ::
  "'tls tls_env \<Rightarrow> int \<Rightarrow> link_addr \<Rightarrow> int \<Rightarrow> int \<Rightarrow> session_id \<Rightarrow> buffer \<Rightarrow> 'tls tls_multi \<Rightarrow>
   ((nat \<times> bool \<times> bool) option \<times> buffer \<times> 'tls tls_multi) option" where
  "route_packet env now from op key_id sid buf m =
     (let i = match_session m sid in
      if i = TM_LAME_DUCK then Some (None, buf, m)
      else if i = TM_SIZE \<and> is_hard_reset_method2 op then
        (if to_single_session (tm_opt m) \<and> tm_n_sessions m \<noteq> 0 then Some (None, buf, m)
         else do {
           (ok, buf, m) \<leftarrow> session_read_control_auth env now TM_INITIAL key_id True buf m;
           Some (if ok then (Some (TM_INITIAL, True, True), buf,
               set_session TM_INITIAL ((session_at m TM_INITIAL)\<lparr>ts_untrusted_addr := from\<rparr>) m)
             else (None, buf, m)) })
      else if i \<noteq> TM_ACTIVE \<and> i \<noteq> TM_INITIAL then Some (None, buf, m)
      else do {
        let s = session_at m i;
        let ks = ts_primary s;
        same \<leftarrow> link_socket_actual_match (ks_remote_addr ks) from;
        if \<not> same then Some (None, buf, m)
        else if op = P_CONTROL_SOFT_RESET_V1 \<and> ks_state ks \<ge> S_GENERATED_KEYS then do {
          (ok, buf, m) \<leftarrow> session_read_control_auth env now i key_id False buf m;
          if \<not> ok then Some (None, buf, m)
          else do {
            s \<leftarrow> key_state_soft_reset (te_lib env) now (tm_opt m) (session_at m i);
            Some (Some (i, False, False), buf, set_session i s m) } }
        else do {
          let initial_packet = (ks_state ks = S_PRE_START_SKIP);
          let m = (if initial_packet then set_session i (s\<lparr>ts_primary := ks\<lparr>ks_state := S_PRE_START\<rparr>\<rparr>) m else m);
          (ok, buf, m) \<leftarrow> session_read_control_auth env now i key_id initial_packet buf m;
          Some (if ok then (Some (i, op = P_CONTROL_SOFT_RESET_V1, False), buf, m)
            else (None, buf, if initial_packet then m\<lparr>tm_n_hard_errors := tm_n_hard_errors m + 1\<rparr> else m)) } })"

text \<open>The acknowledgements and the payload of an authentic packet; false is the error exit.\<close>

definition receive_payload :: "int \<Rightarrow> int \<Rightarrow> int \<Rightarrow> buffer \<Rightarrow> 'tls tls_session \<Rightarrow> (bool \<times> 'tls tls_session) option" where
  "receive_payload now op key_id buf s = (let ks = ts_primary s in
     if ks_key_id ks \<noteq> key_id then Some (False, s)
     else (case reliable_ack_read ack_empty (replicate SID_SIZE 0) buf (ts_session_id s) of
        (False, _, _) \<Rightarrow> Some (False, s)
      | (True, send_ack, buf) \<Rightarrow> do {
          let ks = ks\<lparr>ks_send_reliable := reliable_send_purge (ks_send_reliable ks) send_ack\<rparr>;
          (ok, rec, ack) \<leftarrow> store_packet (ks_rec_reliable ks) (ks_rec_ack ks) op buf;
          let ks = ks\<lparr>ks_rec_reliable := rec, ks_rec_ack := ack\<rparr>;
          Some (ok, s\<lparr>ts_primary := (if ok then ks\<lparr>ks_peer_last_packet := now\<rparr> else ks)\<rparr>) }))"

definition accept_packet ::
  "int \<Rightarrow> link_addr \<Rightarrow> int \<Rightarrow> int \<Rightarrow> session_id \<Rightarrow> nat \<times> bool \<times> bool \<Rightarrow> buffer \<Rightarrow> 'tls tls_multi \<Rightarrow>
   (bool \<times> 'tls tls_multi) option" where
  "accept_packet now from op key_id sid route buf m = (case route of (i, do_burst, new_link) \<Rightarrow> do {
     let s = session_at m i;
     let ks = ts_primary s;
     _ \<leftarrow> ASSERT (ks_state ks \<noteq> S_UNDEF);
     _ \<leftarrow> ASSERT (ks_state ks \<noteq> S_ERROR);
     _ \<leftarrow> ASSERT (session_id_defined (ts_session_id s));
     same \<leftarrow> (if new_link then Some True else link_socket_actual_match (ks_remote_addr ks) from);
     if \<not> same then Some (False, m)
     else do {
       let (ks, m) = (if new_link
         then (ks\<lparr>ks_session_id_remote := sid, ks_remote_addr := from\<rparr>, m\<lparr>tm_n_sessions := tm_n_sessions m + 1\<rparr>)
         else (ks, m));
       let s = (if do_burst \<and> \<not> ts_burst s
         then s\<lparr>ts_burst := True, ts_primary := ks\<lparr>ks_send_reliable := reliable_schedule_now now (ks_send_reliable ks)\<rparr>\<rparr>
         else s\<lparr>ts_primary := ks\<rparr>);
       (ok, s) \<leftarrow> receive_payload now op key_id buf s;
       Some (ok, set_session i s m) } })"

text \<open>The packets that are refused before they are looked up.\<close>

definition legal_opcode :: "bool \<Rightarrow> int \<Rightarrow> bool" where
  "legal_opcode server op \<longleftrightarrow> P_FIRST_OPCODE \<le> op \<and> op \<le> P_LAST_OPCODE \<and>
     \<not> (is_hard_reset_method2 op \<and>
        ((op = P_CONTROL_HARD_RESET_CLIENT_V2 \<or> op = P_CONTROL_HARD_RESET_CLIENT_V3) \<and> \<not> server \<or>
         op = P_CONTROL_HARD_RESET_SERVER_V2 \<and> server))"

definition soft_error :: "'tls tls_multi \<Rightarrow> 'tls tls_multi" where
  "soft_error m = m\<lparr>tm_n_soft_errors := tm_n_soft_errors m + 1\<rparr>"

definition control_packet ::
  "'tls tls_env \<Rightarrow> int \<Rightarrow> link_addr \<Rightarrow> u8 \<Rightarrow> buffer \<Rightarrow> 'tls tls_multi \<Rightarrow> (bool \<times> 'tls tls_multi) option" where
  "control_packet env now from c buf m =
     (if \<not> legal_opcode (to_server (tm_opt m)) (opcode_of c) then Some (False, soft_error m)
      else (case session_id_read (replicate SID_SIZE 0) (snd (buf_advance buf 1)) of
         (False, _, _) \<Rightarrow> Some (False, soft_error m)
       | (True, sid, _) \<Rightarrow>
           if \<not> session_id_defined sid then Some (False, soft_error m)
           else do {
             (route, buf, m) \<leftarrow> route_packet env now from (opcode_of c) (key_id_of c) sid buf m;
             (case route of
                None \<Rightarrow> Some (False, soft_error m)
              | Some route \<Rightarrow> do {
                  (ok, m) \<leftarrow> accept_packet now from (opcode_of c) (key_id_of c) sid route buf m;
                  Some (True, if ok then m else soft_error m) }) }))"

text \<open>The result, the key, \<open>ad_start\<close>, the packet (empty after a control packet) and the tunnel.\<close>

definition tls_pre_decrypt ::
  "'tls tls_env \<Rightarrow> int \<Rightarrow> 'tls tls_multi \<Rightarrow> link_addr \<Rightarrow> buffer \<Rightarrow> bool \<Rightarrow>
   (bool \<times> nat option \<times> int option \<times> buffer \<times> 'tls tls_multi) option" where
  "tls_pre_decrypt env now m from buf floated =
     (if b_len buf \<le> 0 then Some (False, None, None, buf\<lparr>b_len := 0\<rparr>, m)
      else do {
        c \<leftarrow> first_byte buf;
        if opcode_of c = P_DATA_V1 \<or> opcode_of c = P_DATA_V2 then do {
          r \<leftarrow> handle_data_channel_packet m from buf floated;
          Some (False, r) }
        else do {
          (ret, m) \<leftarrow> control_packet env now from c buf m;
          Some (ret, None, None, buf\<lparr>b_len := 0\<rparr>, m) } })"

section \<open>Outgoing data packets\<close>

text \<open>The loop with what it has selected so far.\<close>

fun select_key :: "int \<Rightarrow> 'tls tls_multi \<Rightarrow> nat list \<Rightarrow> nat option \<Rightarrow> nat option option" where
  "select_key now m [] select = Some select"
| "select_key now m (i # is) select = do {
     ks \<leftarrow> get_key_scan m i;
     if data_key ks then do {
       _ \<leftarrow> ASSERT (co_initialized (ks_crypto_options ks));
       let select = (if select = None then Some i else select);
       if now \<ge> ks_auth_deferred_expire ks then Some (Some i) else select_key now m is select }
     else select_key now m is select }"

definition tls_select_encryption_key :: "int \<Rightarrow> 'tls tls_multi \<Rightarrow> nat option option" where
  "tls_select_encryption_key now m = select_key now m [0..<KEY_SCAN_SIZE] None"

definition tls_pre_encrypt :: "int \<Rightarrow> 'tls tls_multi \<Rightarrow> buffer \<Rightarrow> (nat option \<times> buffer \<times> 'tls tls_multi) option" where
  "tls_pre_encrypt now m buf =
     (let m = m\<lparr>tm_save_ks := None\<rparr> in
      if b_len buf \<le> 0 then Some (None, buf\<lparr>b_len := 0\<rparr>, m)
      else do {
        select \<leftarrow> tls_select_encryption_key now m;
        Some (case select of
           Some i \<Rightarrow> (Some i, buf, m\<lparr>tm_save_ks := Some i\<rparr>)
         | None \<Rightarrow> (None, buf\<lparr>b_len := 0\<rparr>, m)) })"

definition saved_key :: "'tls tls_multi \<Rightarrow> 'tls key_state option" where
  "saved_key m = do { i \<leftarrow> tm_save_ks m; get_key_scan m i }"

definition tls_prepend_opcode_v1 :: "'tls tls_multi \<Rightarrow> buffer \<Rightarrow> buffer option" where
  "tls_prepend_opcode_v1 m buf = do {
     ks \<leftarrow> saved_key m;
     let (ok, buf) = buf_write_prepend buf [packet_header P_DATA_V1 (ks_key_id ks)];
     _ \<leftarrow> ASSERT ok;
     Some buf }"

definition tls_prepend_opcode_v2 :: "'tls tls_multi \<Rightarrow> buffer \<Rightarrow> buffer option" where
  "tls_prepend_opcode_v2 m buf = do {
     ks \<leftarrow> saved_key m;
     let peer = push_bit 24 (ucast (packet_header P_DATA_V2 (ks_key_id ks)) :: u32) OR (tm_peer_id m AND 0xFFFFFF);
     let (ok, buf) = buf_write_prepend buf (be32 peer);
     _ \<leftarrow> ASSERT ok;
     Some buf }"

definition tls_post_encrypt :: "'tls tls_multi \<Rightarrow> buffer \<Rightarrow> 'tls tls_multi option" where
  "tls_post_encrypt m buf =
     (if b_len buf > 0 then do {
        i \<leftarrow> tm_save_ks m;
        ks \<leftarrow> saved_key m;
        Some (set_key_scan i (ks\<lparr>ks_n_packets := ks_n_packets ks + 1, ks_n_bytes := ks_n_bytes ks + b_len buf\<rparr>)
          (m\<lparr>tm_save_ks := None\<rparr>)) }
      else Some (m\<lparr>tm_save_ks := None\<rparr>))"

section \<open>Payload of the control channel\<close>

definition tls_send_payload :: "'tls tls_lib \<Rightarrow> 'tls key_state \<Rightarrow> u8 list \<Rightarrow> (bool \<times> 'tls key_state) option" where
  "tls_send_payload lib ks data =
     (if ks_state ks \<ge> S_ACTIVE then do {
        tls \<leftarrow> the_tls ks;
        let (ret, tls) = key_state_write_plaintext_const lib tls data;
        Some (ret = 1, ks\<lparr>ks_tls := Some tls\<rparr>) }
      else Some (True, ks\<lparr>ks_paybuf := ks_paybuf ks @ [data]\<rparr>))"

definition tls_rec_payload :: "'tls tls_multi \<Rightarrow> buffer \<Rightarrow> (bool \<times> buffer \<times> 'tls tls_multi) option" where
  "tls_rec_payload m buf = do {
     ks \<leftarrow> get_key_scan m 0;
     if ks_state ks \<ge> S_ACTIVE \<and> buf_len (ks_plaintext_read_buf ks) \<noteq> 0 then do {
       let (ok, buf) = buf_copy buf (ks_plaintext_read_buf ks);
       Some (ok, buf, set_key_scan 0 (ks\<lparr>ks_plaintext_read_buf := (ks_plaintext_read_buf ks)\<lparr>b_len := 0\<rparr>\<rparr>) m) }
     else Some (False, buf, m) }"

definition update_addr :: "link_addr \<Rightarrow> 'tls key_state \<Rightarrow> 'tls key_state option" where
  "update_addr addr ks =
     (if \<not> link_socket_actual_defined (ks_remote_addr ks) then Some ks
      else do {
        same \<leftarrow> link_socket_actual_match addr (ks_remote_addr ks);
        Some (if same then ks else ks\<lparr>ks_remote_addr := addr\<rparr>) })"

fun update_addrs :: "link_addr \<Rightarrow> nat list \<Rightarrow> 'tls tls_multi \<Rightarrow> 'tls tls_multi option" where
  "update_addrs addr [] m = Some m"
| "update_addrs addr (i # is) m = do {
     let s = session_at m i;
     primary \<leftarrow> update_addr addr (ts_primary s);
     lame \<leftarrow> update_addr addr (ts_lame_duck s);
     update_addrs addr is (set_session i (s\<lparr>ts_primary := primary, ts_lame_duck := lame\<rparr>) m) }"

definition tls_update_remote_addr :: "'tls tls_multi \<Rightarrow> link_addr \<Rightarrow> 'tls tls_multi option" where
  "tls_update_remote_addr m addr = update_addrs addr [0..<TM_SIZE] m"

end
