(* ===== verification/TlsSteps.thy ===== *)
theory TlsSteps
  imports TlsPackets
begin

text \<open>
  What the steps of \<open>tls_process_state\<close> do to a session. Three views of a step: the fields it leaves alone
  (\<open>keeps\<close>), its move in an abstract handshake machine, and the bound on the rounds of the loop
  (\<open>process_bound\<close>), which falls in every round that asks for another one.
\<close>

section \<open>Entries of the reliability layer\<close>

definition same_active :: "reliable \<Rightarrow> reliable \<Rightarrow> bool" where
  "same_active rel rel' \<longleftrightarrow> rl_size rel' = rl_size rel \<and> map e_active (rl_array rel') = map e_active (rl_array rel)"

lemma same_active_refl [simp]: "same_active rel rel"
  by (simp add: same_active_def)

lemma same_active_trans: "same_active a b \<Longrightarrow> same_active b c \<Longrightarrow> same_active a c"
  by (simp add: same_active_def)

lemma same_active_upd:
  assumes "\<And>e. e_active (f e) = e_active e"
  shows "same_active rel (upd_entry i f rel)"
proof (cases "i < length (rl_array rel)")
  case True
  then have "(map e_active (rl_array rel))[i := e_active (entry rel i)] = map e_active (rl_array rel)"
    by (metis list_update_id nth_map)
  then show ?thesis by (simp add: same_active_def upd_entry_def map_update assms)
qed (simp add: same_active_def upd_entry_def list_update_beyond)

lemma same_active_wf: "same_active rel rel' \<Longrightarrow> rel_wf rel' = rel_wf rel"
  by (auto simp: same_active_def rel_wf_def dest: map_eq_imp_length_eq)

lemma count_entries_map: "count_entries (\<lambda>e. P (e_active e)) rel = length (filter P (map e_active (entries rel)))"
  by (simp add: count_entries_def filter_map comp_def)

lemma same_active_count:
  assumes "same_active rel rel'"
  shows "count_entries (\<lambda>e. P (e_active e)) rel' = count_entries (\<lambda>e. P (e_active e)) rel"
  using assms by (simp add: count_entries_map entries_def same_active_def take_map [symmetric])

lemmas same_active_counts =
  same_active_count [of _ _ "\<lambda>x. x"] same_active_count [of _ _ "\<lambda>x. \<not> x"]

lemma reliable_empty_count:
  assumes "rel_wf rel"
  shows "reliable_empty rel \<longleftrightarrow> count_entries e_active rel = 0"
proof -
  have "length (entries rel) = rl_size rel" "\<And>i. i < rl_size rel \<Longrightarrow> entries rel ! i = entry rel i"
    using assms by (simp_all add: rel_wf_def entries_def)
  then have "(\<forall>e \<in> set (entries rel). \<not> e_active e) \<longleftrightarrow> (\<forall>i < rl_size rel. \<not> e_active (entry rel i))"
    unfolding all_set_conv_all_nth by simp
  then show ?thesis by (simp add: reliable_empty_def first_entry_None count_entries_def filter_empty_conv)
qed

lemma same_active_empty: "same_active rel rel' \<Longrightarrow> rel_wf rel \<Longrightarrow> reliable_empty rel' = reliable_empty rel"
  using same_active_counts [of rel rel'] by (simp add: reliable_empty_count same_active_wf)

lemma count_update:
  assumes i: "i < length xs"
  shows "length (filter P (xs[i := y])) + of_bool (P (xs ! i)) = length (filter P xs) + of_bool (P y)"
proof -
  have "length (filter P xs) = length (filter P (take i xs)) + of_bool (P (xs ! i)) + length (filter P (drop (Suc i) xs))"
    using arg_cong [OF id_take_nth_drop [OF i], of "\<lambda>xs. length (filter P xs)"] by simp
  then show ?thesis by (simp add: upd_conv_take_nth_drop [OF i])
qed

lemma count_upd_entry:
  assumes "rel_wf rel" "i < rl_size rel"
  shows "count_entries P (upd_entry i f rel) + of_bool (P (entry rel i)) = count_entries P rel + of_bool (P (f (entry rel i)))"
  using count_update [of i "entries rel" P "f (entry rel i)"] assms
  by (simp add: count_entries_def entries_def upd_entry_def take_update_swap rel_wf_def)

lemma upd_entry_wf: "rel_wf rel \<Longrightarrow> rel_wf (upd_entry i f rel)"
  by (simp add: rel_wf_def upd_entry_def)

lemma get_buf_output:
  assumes "reliable_get_buf_output_sequenced rel = Some (i, rel')"
  shows "same_active rel rel'" "i = Some k \<Longrightarrow> k < rl_size rel' \<and> (rel_wf rel \<longrightarrow> \<not> e_active (entry rel' k))"
proof -
  have get: "reliable_get_buf rel = Some (i, rel') \<or> i = None \<and> rel' = rel"
    using assms by (auto simp: reliable_get_buf_output_sequenced_def split: option.splits if_splits)
  then show "same_active rel rel'"
    by (auto simp: reliable_get_buf_def bind_eq_Some_conv intro!: same_active_upd split: option.splits prod.splits)
  show "k < rl_size rel' \<and> (rel_wf rel \<longrightarrow> \<not> e_active (entry rel' k))" if "i = Some k"
    using get that
    by (auto simp: reliable_get_buf_def bind_eq_Some_conv upd_entry_def rel_wf_def dest!: first_entry_Some
        split: option.splits prod.splits)
qed

lemma mark_active_outgoing:
  assumes "reliable_mark_active_outgoing rel i op = Some rel'" "rel_wf rel"
  shows "rel_wf rel'" "\<not> reliable_empty rel'"
    "count_entries (\<lambda>e. \<not> e_active e) rel' + of_bool (\<not> e_active (entry rel i)) = count_entries (\<lambda>e. \<not> e_active e) rel"
proof -
  obtain b where i: "i < rl_size rel" and rel': "rel' = upd_entry i (\<lambda>e. e\<lparr>e_buf := b, e_packet_id := rl_packet_id rel,
      e_active := True, e_opcode := op, e_next_try := 0, e_timeout := rl_initial_timeout rel\<rparr>)
      (rel\<lparr>rl_packet_id := rl_packet_id rel + 1\<rparr>)" (is "_ = upd_entry i ?f ?rel")
    using assms(1) by (auto simp: reliable_mark_active_outgoing_def bind_eq_Some_conv Let_def split: prod.splits)
  have wf: "rel_wf ?rel" "i < rl_size ?rel" using assms(2) i by (simp_all add: rel_wf_def)
  then show "rel_wf rel'" by (simp add: rel' upd_entry_wf)
  have "e_active (entry rel' i)" "i < rl_size rel'" using upd_entry_view [OF wf, of ?f] i by (simp_all add: rel')
  then show "\<not> reliable_empty rel'" by (auto simp: reliable_empty_def first_entry_None)
  show "count_entries (\<lambda>e. \<not> e_active e) rel' + of_bool (\<not> e_active (entry rel i)) = count_entries (\<lambda>e. \<not> e_active e) rel"
    using count_upd_entry [OF wf, of "\<lambda>e. \<not> e_active e" ?f] by (simp add: rel' count_entries_def entries_def)
qed

lemma mark_deleted:
  assumes "reliable_mark_deleted rel i = Some rel'" "rel_wf rel"
  shows "rel_wf rel'" "count_entries e_active rel' + of_bool (e_active (entry rel i)) = count_entries e_active rel"
proof -
  have i: "i < rl_size rel" and rel': "rel' = upd_entry i (e_active_update (\<lambda>_. False))
      (rel\<lparr>rl_packet_id := e_packet_id (entry rel i) + 1\<rparr>)" (is "_ = upd_entry i ?f ?rel")
    using assms(1) by (auto simp: reliable_mark_deleted_def bind_eq_Some_conv)
  have wf: "rel_wf ?rel" "i < rl_size ?rel" using assms(2) i by (simp_all add: rel_wf_def)
  then show "rel_wf rel'" by (simp add: rel' upd_entry_wf)
  show "count_entries e_active rel' + of_bool (e_active (entry rel i)) = count_entries e_active rel"
    using count_upd_entry [OF wf, of e_active ?f] by (simp add: rel' count_entries_def entries_def)
qed

lemma reliable_send_active:
  assumes "reliable_send now rel = (x, rel')" shows "same_active rel rel'"
  using assms by (auto simp: reliable_send_def intro!: same_active_upd split: option.splits)

text \<open>Every round of \<open>write_loop\<close> takes a free entry.\<close>

definition fewer_free :: "reliable \<Rightarrow> reliable \<Rightarrow> bool" where
  "fewer_free rel rel' \<longleftrightarrow> rel_wf rel' \<and> \<not> reliable_empty rel' \<and>
     count_entries (\<lambda>e. \<not> e_active e) rel' < count_entries (\<lambda>e. \<not> e_active e) rel"

lemma get_and_mark:
  assumes get: "reliable_get_buf_output_sequenced rel = Some (Some i, rel1)" and same: "same_active rel1 rel2"
    and mark: "reliable_mark_active_outgoing rel2 i op = Some rel'" and wf: "rel_wf rel"
  shows "fewer_free rel rel'"
proof -
  have s: "same_active rel rel2" by (rule same_active_trans [OF get_buf_output(1) [OF get] same])
  note wf2 = same_active_wf [OF s] wf
  have i: "i < rl_size rel1" "\<not> e_active (entry rel1 i)" using get_buf_output(2) [OF get] wf by auto
  have "length (rl_array rel1) = length (rl_array rel2)" "rel_wf rel1"
    using same same_active_wf [OF get_buf_output(1) [OF get]] wf
    by (auto simp: same_active_def dest: map_eq_imp_length_eq)
  then have "e_active (entry rel2 i) = e_active (entry rel1 i)"
    using same i(1) unfolding same_active_def rel_wf_def
    by (metis (no_types, lifting) dual_order.strict_trans1 nth_map)
  then show ?thesis
    using mark_active_outgoing [OF mark] wf2 i same_active_counts(2) [OF s] by (auto simp: fewer_free_def)
qed

lemma send_chunk_free:
  assumes "send_chunk rel op tmp len = Some (rel', tmp')" "rel_wf rel"
  shows "fewer_free rel rel'"
proof -
  obtain i rel1 b where get: "reliable_get_buf_output_sequenced rel = Some (Some i, rel1)"
    and mark: "reliable_mark_active_outgoing (set_buf i b rel1) i op = Some rel'"
    using assms(1) by (auto simp: send_chunk_def bind_eq_Some_conv split: prod.splits) (metis prod_cases3)
  show ?thesis by (rule get_and_mark [OF get same_active_upd mark assms(2)]) simp
qed

lemma fewer_free_trans: "fewer_free a b \<Longrightarrow> fewer_free b c \<Longrightarrow> fewer_free a c"
  by (auto simp: fewer_free_def)

lemma write_loop_free:
  assumes "write_loop resend L w tx tmp = Some (tx', tmp')" "rel_wf tx"
  shows "if b_len tmp > 0 then fewer_free tx tx' else tx' = tx"
proof -
  let ?P = "\<lambda>resend L w tx tmp (tx', tmp'). rel_wf tx \<longrightarrow> (if b_len tmp > 0 then fewer_free tx tx' else tx' = tx)"
  have "?P resend L w tx tmp (tx', tmp')"
  proof (rule write_loop.raw_induct [where P = ?P, OF _ assms(1)])
    fix loop resend L w tx tmp y
    assume IH: "\<And>resend L w tx tmp y. loop resend L w tx tmp = Some y \<Longrightarrow> ?P resend L w tx tmp y"
      and run: "(if 0 < b_len tmp
        then let needs = control_packet_needs_wkc resend tx;
                 opcode = if needs then P_CONTROL_WKC_V1 else P_CONTROL_V1;
                 len = if needs then max_int 0 (L - w) else L;
                 len = min_int len (b_len tmp)
             in send_chunk tx opcode tmp len \<bind> (\<lambda>(tx, tmp). loop resend L w tx tmp)
        else Some (tx, tmp)) = Some y"
    show "?P resend L w tx tmp y"
    proof (cases "b_len tmp > 0")
      case True
      then obtain op len tx1 tmp1 where one: "send_chunk tx op tmp len = Some (tx1, tmp1)" "loop resend L w tx1 tmp1 = Some y"
        using run by (auto simp: Let_def bind_eq_Some_conv)
      have "fewer_free tx tx1" if "rel_wf tx" by (rule send_chunk_free [OF one(1) that])
      then show ?thesis using IH [OF one(2)] True by (auto simp: fewer_free_def split: if_splits)
    next
      case False
      then show ?thesis using run by auto
    qed
  qed
  then show ?thesis using assms(2) by simp
qed

section \<open>The handshake as an abstract machine\<close>

text \<open>Its states are the state of the key and whether a control packet of ours is not yet acknowledged. The
  peers take turns: the client sends its key first.\<close>

inductive handshake :: "bool \<Rightarrow> int \<times> bool \<Rightarrow> int \<times> bool \<Rightarrow> bool" for server :: bool where
  reset_sent: "handshake server (S_INITIAL, u) (S_PRE_START, True)"
| reset_acked: "handshake server (S_PRE_START, False) (S_START, False)"
| client_sends: "\<not> server \<Longrightarrow> handshake server (S_START, u) (S_SENT_KEY, u)"
| client_receives: "\<not> server \<Longrightarrow> handshake server (S_SENT_KEY, u) (S_GOT_KEY, u)"
| server_receives: "server \<Longrightarrow> handshake server (S_START, u) (S_GOT_KEY, u)"
| server_sends: "server \<Longrightarrow> handshake server (S_GOT_KEY, u) (S_SENT_KEY, u)"
| client_active: "\<not> server \<Longrightarrow> handshake server (S_GOT_KEY, False) (S_ACTIVE, False)"
| server_active: "server \<Longrightarrow> handshake server (S_SENT_KEY, False) (S_ACTIVE, False)"
| queued: "handshake server (st, u) (st, True)"
| failed: "S_UNDEF \<le> st \<Longrightarrow> handshake server (st, u) (S_ERROR_PRE, u)"
| given_up: "handshake server (S_ERROR_PRE, u) (S_ERROR, u)"
| rekey: "S_GENERATED_KEYS \<le> st \<Longrightarrow> handshake server (st, u) (S_INITIAL, False)"

definition hs_of :: "'tls key_state \<Rightarrow> int \<times> bool" where
  "hs_of ks = (ks_state ks, \<not> reliable_empty (ks_send_reliable ks))"

section \<open>Views of a step\<close>

definition run_wf :: "'tls tls_run \<Rightarrow> bool" where
  "run_wf r \<longleftrightarrow> rel_wf (ks_send_reliable (run_ks r)) \<and> rel_wf (ks_rec_reliable (run_ks r))"

definition keeps :: "'tls tls_run \<Rightarrow> 'tls tls_run \<Rightarrow> bool" where
  "keeps r r' \<longleftrightarrow> run_opt r' = run_opt r \<and> tm_sessions (tr_multi r') = tm_sessions (tr_multi r) \<and>
     ts_lame_duck (tr_session r') = ts_lame_duck (tr_session r) \<and>
     ks_crypto_options (run_ks r') = ks_crypto_options (run_ks r) \<and>
     ks_session_id_remote (run_ks r') = ks_session_id_remote (run_ks r) \<and>
     ks_remote_addr (run_ks r') = ks_remote_addr (run_ks r)"

abbreviation run_hs :: "'tls tls_run \<Rightarrow> 'tls tls_run \<Rightarrow> bool" where
  "run_hs r r' \<equiv> (handshake (to_server (run_opt r)))\<^sup>*\<^sup>* (hs_of (run_ks r)) (hs_of (run_ks r'))"

definition advances :: "'tls tls_run \<Rightarrow> bool \<Rightarrow> 'tls tls_run \<Rightarrow> bool" where
  "advances r ok r' \<longleftrightarrow> run_wf r' \<and> keeps r r' \<and> run_hs r r' \<and>
     (S_UNDEF \<le> ks_state (run_ks r) \<longrightarrow> S_UNDEF \<le> ks_state (run_ks r')) \<and>
     (if ok then process_bound r' \<le> process_bound r \<and> (tr_continue r' \<longrightarrow> tr_continue r \<or> process_bound r' < process_bound r)
      else process_bound r' \<le> process_bound r + 1)"

lemma advances_refl: "run_wf r \<Longrightarrow> advances r True r"
  by (simp add: advances_def keeps_def)

lemma advances_trans: "advances r True s \<Longrightarrow> advances s ok t \<Longrightarrow> advances r ok t"
  unfolding advances_def keeps_def by (auto split: if_splits)

lemma with_ks_simps [simp]:
  "run_ks (with_ks ks r) = ks" "tr_multi (with_ks ks r) = tr_multi r" "tr_continue (with_ks ks r) = tr_continue r"
  "ts_lame_duck (tr_session (with_ks ks r)) = ts_lame_duck (tr_session r)"
  "ts_session_id (tr_session (with_ks ks r)) = ts_session_id (tr_session r)"
  "tr_to_link (with_ks ks r) = tr_to_link r" "tr_wakeup (with_ks ks r) = tr_wakeup r"
  by (simp_all add: with_ks_def)

lemmas step_simps = run_wf_def keeps_def process_bound_def hs_of_def Let_def

lemma parse_early_negotiation_rec:
  assumes "parse_early_negotiation_tlvs i ks = Some (ok, ks')" "rel_wf (ks_rec_reliable ks)"
  shows "\<exists>rec resend. ks' = ks\<lparr>ks_rec_reliable := rec, ks_resend_wkc := resend\<rparr> \<and> rel_wf rec \<and>
    count_entries e_active rec \<le> count_entries e_active (ks_rec_reliable ks)"
proof -
  obtain buf resend where p: "parse_tlvs (e_buf (entry (ks_rec_reliable ks) i)) (ks_resend_wkc ks) = Some (ok, buf, resend)"
    using assms(1) by (auto simp: parse_early_negotiation_tlvs_def bind_eq_Some_conv Let_def split: if_splits)
  let ?rec = "set_buf i buf (ks_rec_reliable ks)"
  have same: "same_active (ks_rec_reliable ks) ?rec" by (rule same_active_upd) simp
  note c = same_active_counts(1) [OF same] same_active_wf [OF same]
  show ?thesis
  proof (cases ok)
    case True
    then obtain rec where "reliable_mark_deleted ?rec i = Some rec"
      "ks' = ks\<lparr>ks_rec_reliable := rec, ks_resend_wkc := resend\<rparr>"
      using assms(1) p by (auto simp: parse_early_negotiation_tlvs_def bind_eq_Some_conv Let_def)
    with mark_deleted [OF this(1)] c assms(2) show ?thesis by (intro exI [of _ rec] exI [of _ resend]) auto
  next
    case False
    then show ?thesis using assms p c
      by (intro exI [of _ ?rec] exI [of _ resend]) (auto simp: parse_early_negotiation_tlvs_def Let_def)
  qed
qed

lemma incoming_ciphertext_advances:
  assumes run: "incoming_ciphertext env r = Some (ok, r')" and wf: "run_wf r"
  shows "advances r ok r'"
proof (cases "reliable_get_entry_sequenced (ks_rec_reliable (run_ks r))")
  case None
  then show ?thesis using run advances_refl [OF wf] by (simp add: incoming_ciphertext_def Let_def)
next
  case (Some i)
  let ?ks = "run_ks r" and ?e = "entry (ks_rec_reliable (run_ks r)) i"
  have act: "i < rl_size (ks_rec_reliable ?ks)" "e_active ?e"
    using first_entry_Some Some by (auto simp: reliable_get_entry_sequenced_def)
  show ?thesis
  proof (cases "e_packet_id ?e = 0 \<and> is_hard_reset_method2 (e_opcode ?e)")
    case True
    then obtain ks where "parse_early_negotiation_tlvs i ?ks = Some (ok, ks)" "r' = with_ks ks r"
      using run Some by (auto simp: incoming_ciphertext_def Let_def bind_eq_Some_conv)
    with parse_early_negotiation_rec [OF this(1)] wf show ?thesis by (auto simp: advances_def step_simps)
  next
    case False
    then obtain tls where tls: "ks_tls ?ks = Some tls"
      using run Some by (auto simp: incoming_ciphertext_def Let_def bind_eq_Some_conv)
    obtain status buf tls' where p:
      "(if b_len (e_buf ?e) \<noteq> 0 then key_state_write_ciphertext (te_lib env) tls (e_buf ?e) else (1, e_buf ?e, tls)) = (status, buf, tls')"
      by (rule prod_cases3)
    let ?rec = "set_buf i buf (ks_rec_reliable ?ks)"
    have same: "same_active (ks_rec_reliable ?ks) ?rec" by (rule same_active_upd) simp
    note c = same_active_counts(1) [OF same] same_active_wf [OF same]
    have act': "e_active (entry ?rec i)" using act wf upd_entry_view(7) [of "ks_rec_reliable ?ks" i] by (simp add: run_wf_def)
    show ?thesis
    proof (cases "status = 1")
      case True
      then obtain rec where rec: "reliable_mark_deleted ?rec i = Some rec" "ok"
        and r': "r' = with_ks (?ks\<lparr>ks_tls := Some tls', ks_rec_reliable := rec\<rparr>) (r\<lparr>tr_continue := True\<rparr>)"
        using run Some False tls p by (auto simp: incoming_ciphertext_def Let_def bind_eq_Some_conv)
      have "rel_wf ?rec" using wf c by (simp add: run_wf_def)
      note d = mark_deleted [OF rec(1) this]
      then show ?thesis using wf c act' rec(2) by (simp add: r' advances_def step_simps)
    next
      case other: False
      then have "r' = with_ks (?ks\<lparr>ks_tls := Some tls', ks_rec_reliable := ?rec\<rparr>) r"
        using run Some False tls p by (auto simp: incoming_ciphertext_def Let_def bind_eq_Some_conv split: if_splits)
      then show ?thesis using wf c by (simp add: advances_def step_simps)
    qed
  qed
qed

lemma bio_read_len:
  "bio_read lib bio tls buf = Some (status, buf', tls') \<Longrightarrow> b_len buf = 0 \<Longrightarrow>
     (status = 1 \<longrightarrow> b_len buf' \<noteq> 0) \<and> (status \<noteq> 1 \<longrightarrow> b_len buf' = 0)"
  by (auto simp: bio_read_def Let_def bind_eq_Some_conv split: sum.splits prod.splits if_splits)

lemma incoming_plaintext_advances:
  assumes run: "incoming_plaintext env r = Some (ok, r')" and wf: "run_wf r"
  shows "advances r ok r'"
proof (cases "b_len (ks_plaintext_read_buf (run_ks r)) \<noteq> 0")
  case True
  then show ?thesis using run advances_refl [OF wf] by (simp add: incoming_plaintext_def Let_def)
next
  case False
  let ?ks = "run_ks r"
  obtain buf0 tls status buf tls' where p: "buf_init (ks_plaintext_read_buf ?ks) 0 = (True, buf0)"
      "key_state_read_plaintext (te_lib env) tls buf0 = Some (status, buf, tls')"
    and r': "(ok, r') = (let r = with_ks (?ks\<lparr>ks_tls := Some tls', ks_plaintext_read_buf := buf\<rparr>) r in
      if status = - 1 then (False, r) else if status = 1 then (True, r\<lparr>tr_continue := True, tr_wakeup := 0\<rparr>) else (True, r))"
    using run False
    by (auto simp: incoming_plaintext_def Let_def bind_eq_Some_conv ASSERT_def split: prod.splits if_splits)
  have "b_len buf0 = 0" using p(1) by (auto simp: buf_init_def split: if_splits)
  with p(2) have "(status = 1 \<longrightarrow> b_len buf \<noteq> 0) \<and> (status \<noteq> 1 \<longrightarrow> b_len buf = 0)"
    by (auto simp: key_state_read_plaintext_def dest: bio_read_len)
  then show ?thesis using r' wf False by (auto simp: advances_def step_simps split: if_splits)
qed

lemma rank_simps:
  "state_rank server S_START = 5" "state_rank False S_SENT_KEY = 4" "state_rank False S_GOT_KEY = 3"
  "state_rank True S_GOT_KEY = 4" "state_rank True S_SENT_KEY = 3" "state_rank server S_ACTIVE = 2"
  "state_rank server S_PRE_START = 6" "state_rank server S_INITIAL = 7" "state_rank server S_ERROR_PRE = 1"
  by (simp_all add: state_rank_def S_defs)

lemma rank_bounds: "S_UNDEF \<le> st \<Longrightarrow> 2 \<le> state_rank server st"
  by (simp add: state_rank_def S_defs)

lemma of_bool_le_1: "of_bool b \<le> (1 :: nat)"
  by simp

lemma send_key_advances:
  assumes run: "send_key env r = Some (ok, r')" and wf: "run_wf r"
  shows "advances r ok r'"
proof (cases "b_len (ks_plaintext_write_buf (run_ks r)) = 0 \<and>
    (ks_state (run_ks r) = S_START \<and> \<not> to_server (run_opt r) \<or> ks_state (run_ks r) = S_GOT_KEY \<and> to_server (run_opt r))")
  case False
  then show ?thesis using run advances_refl [OF wf] by (auto simp: send_key_def Let_def)
next
  case True
  let ?ks = "run_ks r"
  obtain src buf where r': "(ok, r') = (let ks = ?ks\<lparr>ks_key_src := src, ks_plaintext_write_buf := buf\<rparr> in
      if ok then (True, with_ks (ks\<lparr>ks_state := S_SENT_KEY\<rparr>) (r\<lparr>tr_continue := True\<rparr>)) else (False, with_ks ks r))"
    using run True by (auto simp: send_key_def Let_def bind_eq_Some_conv split: if_splits)
  have "handshake (to_server (run_opt r)) (ks_state ?ks, u) (S_SENT_KEY, u)" for u
    using True by (auto intro: handshake.intros)
  then have h: "(handshake (to_server (run_opt r)))\<^sup>*\<^sup>* (ks_state ?ks, u) (S_SENT_KEY, u)" for u by blast
  have rank: "state_rank (to_server (run_opt r)) (ks_state ?ks) = Suc (state_rank (to_server (run_opt r)) S_SENT_KEY)"
    using True by (cases "to_server (run_opt r)") (auto simp: rank_simps)
  have "S_UNDEF \<le> S_SENT_KEY" by (simp add: S_defs)
  then show ?thesis using r' wf h rank True
    by (cases ok) (auto simp: advances_def step_simps)
qed

lemma receive_key_advances:
  assumes run: "receive_key r = (ok, r')" and wf: "run_wf r"
  shows "advances r ok r'"
proof (cases "b_len (ks_plaintext_read_buf (run_ks r)) \<noteq> 0 \<and>
    (ks_state (run_ks r) = S_SENT_KEY \<and> \<not> to_server (run_opt r) \<or> ks_state (run_ks r) = S_START \<and> to_server (run_opt r))")
  case False
  then show ?thesis using run advances_refl [OF wf] by (auto simp: receive_key_def Let_def)
next
  case True
  let ?ks = "run_ks r"
  let ?m = "tr_multi r"
  obtain ok1 pe buf where p: "key_method_2_read
      ((to_auth (run_opt r))\<lparr>ao_server := to_server (run_opt r), ao_verified := ts_verified (tr_session r)\<rparr>)
      \<lparr>pe_key_src = ks_key_src ?ks, pe_authenticated = ks_authenticated ?ks, pe_peer_info = tm_peer_info ?m,
       pe_remote_ciphername = tm_remote_ciphername ?m, pe_remote_usescomp = tm_remote_usescomp ?m\<rparr>
      (ks_plaintext_read_buf ?ks) = (ok1, pe, buf)"
    by (rule prod_cases3)
  have r': "ok1 = ok" "r' = (let
        ks = ?ks\<lparr>ks_plaintext_read_buf := buf, ks_key_src := pe_key_src pe, ks_authenticated := pe_authenticated pe\<rparr>;
        r = r\<lparr>tr_multi := ?m\<lparr>tm_peer_info := pe_peer_info pe, tm_remote_ciphername := pe_remote_ciphername pe,
                               tm_remote_usescomp := pe_remote_usescomp pe\<rparr>\<rparr> in
      if ok then with_ks (ks\<lparr>ks_state := S_GOT_KEY\<rparr>) (r\<lparr>tr_continue := True\<rparr>) else with_ks ks r)"
    using run p True by (auto simp: receive_key_def Let_def split: if_splits)
  have "handshake (to_server (run_opt r)) (ks_state ?ks, u) (S_GOT_KEY, u)" for u
    using True by (auto intro: handshake.intros)
  then have h: "(handshake (to_server (run_opt r)))\<^sup>*\<^sup>* (ks_state ?ks, u) (S_GOT_KEY, u)" for u by blast
  have rank: "state_rank (to_server (run_opt r)) (ks_state ?ks) = Suc (state_rank (to_server (run_opt r)) S_GOT_KEY)"
    using True by (cases "to_server (run_opt r)") (auto simp: rank_simps)
  have "S_UNDEF \<le> S_GOT_KEY" by (simp add: S_defs)
  then show ?thesis using r'(2) wf h rank True
    by (cases ok) (auto simp: advances_def step_simps)
qed

lemma bio_write_post_len: "bio_write lib bio tls (buf_content buf) = (1, tls') \<Longrightarrow> b_len (bio_write_post 1 buf) = 0"
  by (simp add: bio_write_post_def)

lemma outgoing_plaintext_advances:
  assumes run: "outgoing_plaintext env r = Some (ok, r')" and wf: "run_wf r"
  shows "advances r ok r'"
proof (cases "b_len (ks_plaintext_write_buf (run_ks r)) \<noteq> 0")
  case False
  then show ?thesis using run advances_refl [OF wf] by (simp add: outgoing_plaintext_def Let_def)
next
  case True
  let ?ks = "run_ks r"
  obtain tls where tls: "ks_tls ?ks = Some tls"
    using run True by (auto simp: outgoing_plaintext_def Let_def bind_eq_Some_conv)
  obtain status tls' where p: "bio_write (te_lib env) SSL_BIO tls (buf_content (ks_plaintext_write_buf ?ks)) = (status, tls')"
    by (rule prod.exhaust)
  have "(ok, r') = (let r = with_ks (?ks\<lparr>ks_tls := Some tls',
        ks_plaintext_write_buf := bio_write_post status (ks_plaintext_write_buf ?ks)\<rparr>) r in
      if status = - 1 then (False, r) else if status = 1 then (True, r\<lparr>tr_continue := True\<rparr>) else (True, r))"
    using run True tls p by (simp add: outgoing_plaintext_def key_state_write_plaintext_def Let_def)
  then show ?thesis using True wf
    by (auto simp: advances_def step_simps bio_write_post_def split: if_splits)
qed

lemma write_outgoing_free:
  assumes "write_outgoing_tls_ciphertext rd tls resend w mtu overhead tx = Some (ok, again, tls', tx')" "rel_wf tx"
  shows "fewer_free tx tx' \<or> tx' = tx \<and> \<not> again"
proof -
  have "fewer_free tx a \<and> 0 < b_len tmp \<or> a = tx \<and> \<not> 0 < b_len tmp" if "write_loop resend L w tx tmp = Some (a, b)" for L a b tmp
    using write_loop_free [OF that assms(2)] by (simp split: if_splits)
  then show ?thesis using assms(1)
    by (fastforce simp: write_outgoing_tls_ciphertext_def Let_def bind_eq_Some_conv split: if_splits prod.splits)
qed

lemma fewer_free_hs: "fewer_free tx tx' \<Longrightarrow> handshake server (st, u) (st, \<not> reliable_empty tx')"
  by (auto simp: fewer_free_def intro: handshake.queued)

lemma check_outgoing_advances:
  assumes run: "check_outgoing_ciphertext env r = Some (ok, r')" and wf: "run_wf r"
  shows "advances r ok r'" "process_bound r' \<le> process_bound r" "ks_state (run_ks r') = ks_state (run_ks r)"
proof -
  let ?ks = "run_ks r"
  have "advances r ok r' \<and> process_bound r' \<le> process_bound r \<and> ks_state (run_ks r') = ks_state (run_ks r)"
  proof (cases "ks_state ?ks \<ge> S_START")
    case False
    then show ?thesis using run advances_refl [OF wf] by (auto simp: check_outgoing_ciphertext_def Let_def)
  next
    case True
    then obtain i send where g: "reliable_get_buf_output_sequenced (ks_send_reliable ?ks) = Some (i, send)"
      using run by (auto simp: check_outgoing_ciphertext_def Let_def bind_eq_Some_conv)
    let ?r = "with_ks (?ks\<lparr>ks_send_reliable := send\<rparr>) r"
    note same = get_buf_output(1) [OF g]
    have s: "rel_wf send" "reliable_empty send = reliable_empty (ks_send_reliable ?ks)"
      "count_entries (\<lambda>e. \<not> e_active e) send = count_entries (\<lambda>e. \<not> e_active e) (ks_send_reliable ?ks)"
      using same_active_wf [OF same] same_active_counts [OF same] same_active_empty [OF same] wf by (simp_all add: run_wf_def)
    show ?thesis
    proof (cases "i = None")
      case True
      then have "r' = ?r" "ok"
        using run g \<open>S_START \<le> ks_state ?ks\<close> by (auto simp: check_outgoing_ciphertext_def Let_def bind_eq_Some_conv)
      then show ?thesis using s wf by (simp add: advances_def step_simps)
    next
      case False
      then have out: "outgoing_ciphertext env ?r = Some (ok, r')"
        using run g \<open>S_START \<le> ks_state ?ks\<close> by (auto simp: check_outgoing_ciphertext_def Let_def bind_eq_Some_conv)
      then obtain overhead tls again tls' tx' where w: "write_outgoing_tls_ciphertext (key_state_read_ciphertext (te_lib env) tls) tls
          (ks_resend_wkc ?ks) (buf_len (tw_wkc (ts_tls_wrap (tr_session ?r)))) (fr_tun_mtu (to_frame (run_opt r))) overhead send
          = Some (ok, again, tls', tx')"
        and r': "r' = with_ks (?ks\<lparr>ks_send_reliable := tx', ks_tls := Some tls'\<rparr>) (?r\<lparr>tr_continue := tr_continue r \<or> again\<rparr>)"
        by (auto simp: outgoing_ciphertext_def Let_def bind_eq_Some_conv with_ks_def)
      have "fewer_free send tx' \<or> tx' = send \<and> \<not> again" by (rule write_outgoing_free [OF w s(1)])
      then show ?thesis using s wf fewer_free_hs [of send tx']
        by (auto simp: r' advances_def step_simps fewer_free_def)
    qed
  qed
  then show "advances r ok r'" "process_bound r' \<le> process_bound r" "ks_state (run_ks r') = ks_state (run_ks r)" by auto
qed

section \<open>A round of the loop\<close>

lemma run_steps_advances:
  assumes "\<And>f r ok r'. f \<in> set fs \<Longrightarrow> f r = Some (ok, r') \<Longrightarrow> run_wf r \<Longrightarrow> advances r ok r'"
    and "run_steps fs r = Some (ok, r')" "run_wf r"
  shows "advances r ok r'"
  using assms
proof (induction fs arbitrary: r)
  case Nil
  then show ?case by (simp add: advances_refl)
next
  case (Cons f fs)
  then obtain ok1 r1 where f: "f r = Some (ok1, r1)" by (auto simp: bind_eq_Some_conv)
  have adv: "advances r ok1 r1" by (rule Cons.prems(1) [of f r ok1 r1, OF _ f Cons.prems(3)]) simp
  show ?case
  proof (cases ok1)
    case True
    have "advances r1 ok r'"
    proof (rule Cons.IH)
      show "advances a b c" if "g \<in> set fs" "g a = Some (b, c)" "run_wf a" for g a b c
        by (rule Cons.prems(1) [of g a b c]) (use that in simp_all)
    qed (use Cons.prems(2) f True adv in \<open>auto simp: advances_def\<close>)
    then show ?thesis using advances_trans [of r r1 ok r'] adv True by simp
  next
    case False
    then show ?thesis using adv f Cons.prems(2) by simp
  qed
qed

lemma exchange_advances: "exchange env r = Some (ok, r') \<Longrightarrow> run_wf r \<Longrightarrow> advances r ok r'"
  unfolding exchange_def
  by (erule run_steps_advances [rotated])
    (auto simp del: run_steps.simps intro: incoming_ciphertext_advances incoming_plaintext_advances send_key_advances receive_key_advances
      outgoing_plaintext_advances check_outgoing_advances(1))

text \<open>The moves of \<open>tls_process\<close> outside the exchange with the TLS object.\<close>

definition moves :: "'tls tls_run \<Rightarrow> 'tls tls_run \<Rightarrow> bool" where
  "moves r r' \<longleftrightarrow> run_wf r' \<and> keeps r r' \<and> run_hs r r'"

lemma moves_trans: "moves r s \<Longrightarrow> moves s t \<Longrightarrow> moves r t"
  unfolding moves_def keeps_def by auto

lemma moves_refl: "run_wf r \<Longrightarrow> moves r r"
  by (simp add: moves_def keeps_def)

lemma advances_moves: "advances r ok r' \<Longrightarrow> moves r r'"
  by (simp add: advances_def moves_def)

lemma process_error_moves:
  assumes run: "process_error env r = Some (c, r')" and wf: "run_wf r" and st: "S_UNDEF \<le> ks_state (run_ks r)"
  shows "moves r r'" "process_bound r' + 3 \<le> process_bound r" "ks_state (run_ks r') = S_ERROR_PRE"
proof -
  obtain tls ok r1 where c: "check_outgoing_ciphertext env (with_ks ((run_ks r)\<lparr>ks_tls := Some tls\<rparr>) r) = Some (ok, r1)"
    and r': "r' = with_ks ((run_ks r1)\<lparr>ks_state := S_ERROR_PRE\<rparr>) r1"
    using run by (auto simp: process_error_def bind_eq_Some_conv)
  let ?r = "with_ks ((run_ks r)\<lparr>ks_tls := Some tls\<rparr>) r"
  have wf': "run_wf ?r" using wf by (simp add: run_wf_def)
  note adv = check_outgoing_advances [OF c wf']
  have "handshake (to_server (run_opt r1)) (hs_of (run_ks r1)) (hs_of (run_ks r'))"
    using adv(3) st by (simp add: r' hs_of_def handshake.failed)
  then have "moves r1 r'" using adv(1) by (simp add: moves_def advances_def r' keeps_def run_wf_def r_into_rtranclp)
  moreover have "moves r ?r" using wf by (simp add: moves_def step_simps)
  ultimately show "moves r r'" using advances_moves [OF adv(1)] by (blast intro: moves_trans)
  have "process_bound r1 \<le> process_bound r" using adv(2) by (simp add: process_bound_def Let_def)
  moreover have "ks_state (run_ks r1) = ks_state (run_ks r)" "run_opt r1 = run_opt r"
    using adv(1,3) by (simp_all add: advances_def keeps_def)
  moreover note rank_bounds [OF st, of "to_server (run_opt r)"]
  ultimately show "process_bound r' + 3 \<le> process_bound r" by (simp add: r' process_bound_def Let_def rank_simps)
  show "ks_state (run_ks r') = S_ERROR_PRE" by (simp add: r')
qed

lemma pre_start_moves:
  assumes run: "pre_start now r = Some r'" and wf: "run_wf r"
  shows "moves r r'" "tr_continue r' \<longrightarrow> process_bound r' < process_bound r" "process_bound r' \<le> process_bound r"
    "S_ERROR_PRE \<le> ks_state (run_ks r) \<Longrightarrow> S_ERROR_PRE \<le> ks_state (run_ks r')"
proof -
  let ?ks = "run_ks r"
  have "moves r r' \<and> (tr_continue r' \<longrightarrow> process_bound r' < process_bound r) \<and> process_bound r' \<le> process_bound r \<and>
    (S_ERROR_PRE \<le> ks_state (run_ks r) \<longrightarrow> S_ERROR_PRE \<le> ks_state (run_ks r'))"
  proof (cases "ks_state ?ks = S_INITIAL")
    case False
    then show ?thesis using run wf by (auto simp: pre_start_def moves_def step_simps)
  next
    case True
    then obtain i send where g: "reliable_get_buf_output_sequenced (ks_send_reliable ?ks) = Some (i, send)"
      using run by (auto simp: pre_start_def session_move_pre_start_def bind_eq_Some_conv Let_def)
    note same = get_buf_output(1) [OF g]
    have s: "rel_wf send" "reliable_empty send = reliable_empty (ks_send_reliable ?ks)"
      "count_entries (\<lambda>e. \<not> e_active e) send = count_entries (\<lambda>e. \<not> e_active e) (ks_send_reliable ?ks)"
      using same_active_wf [OF same] same_active_counts [OF same] same_active_empty [OF same] wf by (simp_all add: run_wf_def)
    show ?thesis
    proof (cases i)
      case None
      then have "r' = with_ks (?ks\<lparr>ks_send_reliable := send\<rparr>) (r\<lparr>tr_continue := False\<rparr>)"
        using run g True by (auto simp: pre_start_def session_move_pre_start_def Let_def bind_eq_Some_conv)
      then show ?thesis using s wf by (simp add: moves_def step_simps)
    next
      case (Some k)
      then obtain send' where m: "reliable_mark_active_outgoing send k (ks_initial_opcode ?ks) = Some send'"
        and r': "r' = with_ks (?ks\<lparr>ks_initial := now, ks_must_negotiate := now + to_handshake_window (run_opt r),
            ks_auth_deferred_expire := now + auth_deferred_expire_window (run_opt r), ks_send_reliable := send',
            ks_state := S_PRE_START\<rparr>) (r\<lparr>tr_continue := True\<rparr>)"
        using run g True by (auto simp: pre_start_def session_move_pre_start_def Let_def bind_eq_Some_conv)
      note out = mark_active_outgoing [OF m s(1)]
      have "handshake (to_server (run_opt r)) (S_INITIAL, u) (S_PRE_START, True)" for u by (rule handshake.reset_sent)
      then show ?thesis using out s wf True
        by (simp add: r' moves_def step_simps rank_simps r_into_rtranclp) (simp add: S_defs)
    qed
  qed
  then show "moves r r'" "tr_continue r' \<longrightarrow> process_bound r' < process_bound r" "process_bound r' \<le> process_bound r"
    "S_ERROR_PRE \<le> ks_state (run_ks r) \<Longrightarrow> S_ERROR_PRE \<le> ks_state (run_ks r')" by auto
qed

lemma start_moves:
  assumes wf: "run_wf r"
  shows "moves r (start r)" "tr_continue (start r) \<longrightarrow> tr_continue r \<or> process_bound (start r) < process_bound r"
    "process_bound (start r) \<le> process_bound r"
    "S_ERROR_PRE \<le> ks_state (run_ks r) \<Longrightarrow> S_ERROR_PRE \<le> ks_state (run_ks (start r))"
proof -
  have "handshake (to_server (run_opt r)) (S_PRE_START, False) (S_START, False)" by (rule handshake.reset_acked)
  then show "moves r (start r)" "tr_continue (start r) \<longrightarrow> tr_continue r \<or> process_bound (start r) < process_bound r"
    "process_bound (start r) \<le> process_bound r"
    using wf by (auto simp: start_def moves_def step_simps rank_simps)
  show "S_ERROR_PRE \<le> ks_state (run_ks (start r))" if "S_ERROR_PRE \<le> ks_state (run_ks r)"
    using that by (simp add: start_def Let_def) (simp add: S_defs)
qed

lemma activate_moves:
  assumes run: "activate env now r = Some r'" and wf: "run_wf r"
  shows "moves r r'" "tr_continue r' \<longrightarrow> tr_continue r \<or> process_bound r' < process_bound r"
    "process_bound r' \<le> process_bound r"
    "S_ERROR_PRE \<le> ks_state (run_ks r) \<Longrightarrow> S_ERROR_PRE \<le> ks_state (run_ks r')"
proof -
  let ?ks = "run_ks r" and ?server = "to_server (run_opt r)"
  have "moves r r' \<and> (tr_continue r' \<longrightarrow> tr_continue r \<or> process_bound r' < process_bound r) \<and>
    process_bound r' \<le> process_bound r \<and> (S_ERROR_PRE \<le> ks_state ?ks \<longrightarrow> S_ERROR_PRE \<le> ks_state (run_ks r'))"
  proof (cases "(ks_state ?ks = S_GOT_KEY \<and> \<not> ?server \<or> ks_state ?ks = S_SENT_KEY \<and> ?server) \<and> reliable_empty (ks_send_reliable ?ks)")
    case False
    then show ?thesis using run moves_refl [OF wf] by (auto simp: activate_def Let_def split: if_splits)
  next
    case True
    then obtain r0 tls where r0: "session_move_active env now r = Some r0" "r' = r0\<lparr>tr_continue := True\<rparr>"
      and tls: "ks_tls ?ks = Some tls"
      using run by (auto simp: activate_def session_move_active_def Let_def bind_eq_Some_conv)
    define m where "m = (let m = tr_multi r in if tm_multi_state m = CAS_NOT_CONNECTED
      then m\<lparr>tm_multi_state := (if to_mode_server (tm_opt m) then CAS_WAITING_AUTH else CAS_WAITING_OPTIONS_IMPORT)\<rparr> else m)"
    have m: "tm_opt m = run_opt r" "tm_sessions m = tm_sessions (tr_multi r)" by (simp_all add: m_def Let_def)
    have r': "r' = (with_ks (?ks\<lparr>ks_established := now, ks_state := S_ACTIVE, ks_must_negotiate := 0,
          ks_tls := Some (flush_payload_buffer (te_lib env) tls (ks_paybuf ?ks)), ks_paybuf := []\<rparr>)
        (r\<lparr>tr_multi := m, tr_lsi := link_socket_set_outgoing_addr (te_match_proto env) (ks_remote_addr ?ks) (tr_lsi r)\<rparr>))
        \<lparr>tr_continue := True\<rparr>"
      using r0 tls unfolding session_move_active_def m_def by (simp add: Let_def)
    have "handshake ?server (ks_state ?ks, False) (S_ACTIVE, False)" using True by (auto intro: handshake.intros)
    moreover have "state_rank ?server S_ACTIVE < state_rank ?server (ks_state ?ks)"
      using True by (cases ?server) (auto simp: rank_simps)
    ultimately show ?thesis using wf True m
      by (simp add: r' moves_def step_simps r_into_rtranclp) (simp add: S_defs)
  qed
  then show "moves r r'" "tr_continue r' \<longrightarrow> tr_continue r \<or> process_bound r' < process_bound r"
    "process_bound r' \<le> process_bound r"
    "S_ERROR_PRE \<le> ks_state (run_ks r) \<Longrightarrow> S_ERROR_PRE \<le> ks_state (run_ks r')" by auto
qed

lemma write_control_auth_session:
  assumes "write_control_auth ce now opt s buf op n prepend = Some (s', buf', addr)"
  shows "\<exists>ack mru. ts_primary s' = (ts_primary s)\<lparr>ks_rec_ack := ack, ks_lru_acks := mru\<rparr> \<and>
    ts_lame_duck s' = ts_lame_duck s \<and> ts_session_id s' = ts_session_id s"
  using assms
  by (auto simp: write_control_auth_def Let_def bind_eq_Some_conv tls_session_set_tls_wrap_def) (blast+)

lemma transmit_moves:
  assumes run: "transmit env now r = Some r'" and wf: "run_wf r"
  shows "moves r r'" "ks_state (run_ks r') = ks_state (run_ks r)"
proof -
  let ?ks = "run_ks r"
  obtain i op send s buf addr where snd: "reliable_send now (ks_send_reliable ?ks) = (Some (i, op), send)"
    and w: "write_control_auth (te_ce env) now (run_opt r) ((tr_session r)\<lparr>ts_primary := ?ks\<lparr>ks_send_reliable := send\<rparr>\<rparr>)
      (e_buf (entry send i)) op CONTROL_SEND_ACK_MAX True = Some (s, buf, addr)"
    and r': "r' = r\<lparr>tr_session := s, tr_to_link := buf, tr_to_link_addr := Some addr\<rparr>"
    using run by (auto simp: transmit_def Let_def bind_eq_Some_conv split: prod.splits option.splits)
  note same = reliable_send_active [OF snd]
  obtain ack mru where "ts_primary s = ?ks\<lparr>ks_send_reliable := send, ks_rec_ack := ack, ks_lru_acks := mru\<rparr>"
    "ts_lame_duck s = ts_lame_duck (tr_session r)"
    using write_control_auth_session [OF w] by auto
  then show "moves r r'" "ks_state (run_ks r') = ks_state ?ks"
    using wf same_active_wf [OF same] same_active_empty [OF same] by (simp_all add: r' moves_def step_simps)
qed

lemma tls_process_state_moves:
  assumes run: "tls_process_state env now r = Some (c, r')" and wf: "run_wf r" and st: "S_ERROR_PRE \<le> ks_state (run_ks r)"
  shows "moves r r'" "c \<Longrightarrow> process_bound r' < process_bound r" "c \<Longrightarrow> S_ERROR_PRE \<le> ks_state (run_ks r')"
proof -
  obtain r1 where r1: "pre_start now r = Some r1"
    using run by (auto simp: tls_process_state_def bind_eq_Some_conv)
  note m1 = pre_start_moves [OF r1 wf]
  have wf1: "run_wf r1" using m1(1) by (simp add: moves_def)
  have "moves r r' \<and> (c \<longrightarrow> process_bound r' < process_bound r \<and> S_ERROR_PRE \<le> ks_state (run_ks r'))"
  proof (cases "timed_out now (run_ks r1)")
    case True
    then have e: "process_error env r1 = Some (c, r')" "S_UNDEF \<le> ks_state (run_ks r1)"
      using run r1 by (auto simp: tls_process_state_def timed_out_def)
    note m2 = process_error_moves [OF e(1) wf1 e(2)]
    show ?thesis using moves_trans [OF m1(1) m2(1)] m1(3) m2 by simp
  next
    case False
    then obtain r2 where r2: "activate env now (start r1) = Some r2"
      using run r1 by (auto simp: tls_process_state_def bind_eq_Some_conv)
    note m2 = start_moves [OF wf1]
    have "run_wf (start r1)" using m2(1) by (simp add: moves_def)
    note m3 = activate_moves [OF r2 this]
    have wf2: "run_wf r2" using m3(1) by (simp add: moves_def)
    have m: "moves r r2" using moves_trans [OF m1(1) moves_trans [OF m2(1) m3(1)]] .
    have b: "process_bound r2 \<le> process_bound r" "tr_continue r2 \<longrightarrow> process_bound r2 < process_bound r"
      using m1(2,3) m2(2,3) m3(2,3) by linarith+
    have st2: "S_ERROR_PRE \<le> ks_state (run_ks r2)" using st m1(4) m2(4) m3(4) by blast
    show ?thesis
    proof (cases "b_len (tr_to_link r2) = 0 \<and> reliable_can_send now (ks_send_reliable (run_ks r2))")
      case True
      then obtain "transmit env now r2 = Some r'" "\<not> c"
        using run r1 r2 False by (auto simp: tls_process_state_def bind_eq_Some_conv)
      with transmit_moves [OF this(1) wf2] moves_trans [OF m] show ?thesis by blast
    next
      case idle: False
      show ?thesis
      proof (cases "ks_state (run_ks r2) = S_ERROR_PRE")
        case True
        then have r': "r' = with_ks ((run_ks r2)\<lparr>ks_state := S_ERROR\<rparr>) r2" "\<not> c"
          using run r1 r2 False idle by (auto simp: tls_process_state_def)
        have "handshake (to_server (run_opt r2)) (hs_of (run_ks r2)) (hs_of (run_ks r'))"
          using True by (simp add: r' hs_of_def handshake.given_up)
        then have "moves r2 r'" using wf2 by (simp add: r'(1) moves_def keeps_def run_wf_def r_into_rtranclp)
        then show ?thesis using moves_trans [OF m] r'(2) by simp
      next
        case alive: False
        then obtain ok r3 where r3: "exchange env r2 = Some (ok, r3)"
          and last: "(if ok then Some (tr_continue r3, r3) else process_error env r3) = Some (c, r')"
          using run r1 r2 False idle by (auto simp: tls_process_state_def bind_eq_Some_conv)
        note adv = exchange_advances [OF r3 wf2]
        have wf3: "run_wf r3" using adv by (simp add: advances_def)
        have "S_UNDEF \<le> ks_state (run_ks r2)" using st2 alive by (simp add: S_defs)
        then have st3: "S_UNDEF \<le> ks_state (run_ks r3)" using adv by (simp add: advances_def)
        note m3 = moves_trans [OF m advances_moves [OF adv]]
        show ?thesis
        proof (cases ok)
          case True
          then have "r' = r3" "c = tr_continue r3" using last by auto
          moreover have "S_ERROR_PRE \<le> ks_state (run_ks r3)" using st3 by (simp add: S_defs)
          ultimately show ?thesis using m3 adv b True by (auto simp: advances_def)
        next
          case False
          then have e: "process_error env r3 = Some (c, r')" using last by simp
          note m4 = process_error_moves [OF e wf3 st3]
          show ?thesis using moves_trans [OF m3 m4(1)] m4 adv b False by (auto simp: advances_def)
        qed
      qed
    qed
  qed
  then show "moves r r'" "c \<Longrightarrow> process_bound r' < process_bound r" "c \<Longrightarrow> S_ERROR_PRE \<le> ks_state (run_ks r')"
    by auto
qed

lemma process_loop_total:
  assumes "run_wf r" "S_ERROR_PRE \<le> ks_state (run_ks r)" "process_bound r < n"
  shows "process_loop n env now r \<noteq> None"
  using assms
proof (induction n arbitrary: r)
  case (Suc n)
  show ?case
  proof (cases "tls_process_state env now r")
    case (Some a)
    obtain c r' where a: "a = (c, r')" by (cases a)
    note m = tls_process_state_moves [OF Some [unfolded a] Suc.prems(1,2)]
    then show ?thesis using Some a Suc.IH [of r'] Suc.prems(3) by (auto simp: moves_def)
  qed simp
qed simp

lemma process_loop_moves:
  assumes "process_loop n env now r = Some (Some (alive, r'))" "run_wf r" "S_ERROR_PRE \<le> ks_state (run_ks r)"
  shows "moves r r'"
  using assms
proof (induction n arbitrary: r)
  case (Suc n)
  then obtain c r1 where r1: "tls_process_state env now r = Some (c, r1)" by (auto split: option.splits)
  note m = tls_process_state_moves [OF r1 Suc.prems(2,3)]
  show ?case
  proof (cases "ks_state (run_ks r1) \<noteq> S_ERROR \<and> c")
    case True
    then have "moves r1 r'" using Suc.IH [of r1] Suc.prems(1) r1 m by (simp add: moves_def)
    then show ?thesis using m(1) by (rule moves_trans [rotated])
  next
    case False
    then show ?thesis using Suc.prems(1) r1 m(1) by (auto split: if_splits)
  qed
qed simp

end
