(* ===== verification/TlsInvariant.thy ===== *)
theory TlsInvariant
  imports TlsSteps
begin

text \<open>
  An invariant of a tunnel that every operation of ssl.c on it keeps: a key whose state says that its data
  channel keys have been generated has them, a retiring key has an expiration time, a key that has
  met its peer knows the peer's address, and the reliability layer of a key in use is in order. This
  theory has the invariant and the operations from setting up to \<open>tls_multi_process\<close>.
\<close>

section \<open>The invariant\<close>

definition key_inv :: "'tls key_state \<Rightarrow> bool" where
  "key_inv ks \<longleftrightarrow> (S_GENERATED_KEYS \<le> ks_state ks \<longrightarrow> co_initialized (ks_crypto_options ks)) \<and>
     (session_id_defined (ks_session_id_remote ks) \<longrightarrow> ks_remote_addr ks \<noteq> NoAddr) \<and>
     (ks_state ks \<noteq> S_UNDEF \<longrightarrow> rel_wf (ks_send_reliable ks) \<and> rel_wf (ks_rec_reliable ks))"

definition lame_inv :: "'tls key_state \<Rightarrow> bool" where
  "lame_inv ks \<longleftrightarrow> key_inv ks \<and> (S_INITIAL \<le> ks_state ks \<longrightarrow> ks_must_die ks \<noteq> 0)"

definition session_inv :: "'tls tls_session \<Rightarrow> bool" where
  "session_inv s \<longleftrightarrow> key_inv (ts_primary s) \<and> lame_inv (ts_lame_duck s)"

definition multi_inv :: "'tls tls_multi \<Rightarrow> bool" where
  "multi_inv m \<longleftrightarrow> length (tm_sessions m) = TM_SIZE \<and> 0 \<le> to_transition_window (tm_opt m) \<and>
     (\<forall>s \<in> set (tm_sessions m). session_inv s)"

lemma undef_less [simp]: "\<not> S_INITIAL \<le> S_UNDEF" "\<not> S_GENERATED_KEYS \<le> S_UNDEF" "\<not> S_GENERATED_KEYS \<le> S_INITIAL"
  "S_INITIAL \<noteq> S_UNDEF"
  by (simp_all add: S_defs)

lemma key_inv_cleared [simp]: "key_inv cleared_key_state" "lame_inv cleared_key_state" "session_inv cleared_session"
  by (simp_all add: key_inv_def lame_inv_def session_inv_def cleared_session_def cleared_key_state_def session_id_defined_def)

lemma session_at_inv: "multi_inv m \<Longrightarrow> i < TM_SIZE \<Longrightarrow> session_inv (session_at m i)"
  by (simp add: multi_inv_def)

lemma session_less [simp]: "TM_ACTIVE < TM_SIZE" "TM_INITIAL < TM_SIZE" "TM_LAME_DUCK < TM_SIZE"
  by (simp_all add: TM_ACTIVE_def TM_INITIAL_def TM_LAME_DUCK_def TM_SIZE_def)

lemma set_session_inv: "multi_inv m \<Longrightarrow> session_inv s \<Longrightarrow> multi_inv (set_session i s m)"
  by (auto simp: multi_inv_def set_session_def dest!: set_update_subset_insert [THEN subsetD])

lemma set_session_simps [simp]: "tm_opt (set_session i s m) = tm_opt m" "tm_sids (set_session i s m) = tm_sids m"
  "tm_save_ks (set_session i s m) = tm_save_ks m" "tm_multi_state (set_session i s m) = tm_multi_state m"
  by (simp_all add: set_session_def)

lemma session_at_set: "multi_inv m \<Longrightarrow> i < TM_SIZE \<Longrightarrow> session_at (set_session j s m) i = (if i = j then s else session_at m i)"
  by (simp add: set_session_def multi_inv_def)

text \<open>The invariant only looks at the sessions and the transition window.\<close>

lemma multi_inv_cong:
  "tm_sessions m' = tm_sessions m \<Longrightarrow> to_transition_window (tm_opt m') = to_transition_window (tm_opt m) \<Longrightarrow>
     multi_inv m \<Longrightarrow> multi_inv m'"
  by (simp add: multi_inv_def)

lemma get_key_scan_inv: "multi_inv m \<Longrightarrow> get_key_scan m i = Some ks \<Longrightarrow> key_inv ks"
  using session_at_inv [of m] by (auto simp: get_key_scan_def session_inv_def lame_inv_def split: if_splits)

lemma get_key_scan_less: "i < KEY_SCAN_SIZE \<Longrightarrow> get_key_scan m i \<noteq> None"
  by (auto simp: get_key_scan_def KEY_SCAN_SIZE_def)

lemma set_key_scan_inv:
  assumes "multi_inv m" "get_key_scan m i = Some old" "key_inv ks" "S_INITIAL \<le> ks_state ks \<longrightarrow> S_INITIAL \<le> ks_state old"
    "ks_must_die ks = ks_must_die old"
  shows "multi_inv (set_key_scan i ks m)"
  using assms session_at_inv [OF assms(1), of TM_ACTIVE] session_at_inv [OF assms(1), of TM_LAME_DUCK]
  by (auto simp: set_key_scan_def get_key_scan_def session_inv_def lame_inv_def intro!: set_session_inv split: if_splits)

section \<open>Sessions\<close>

lemma reliable_init_wf:
  assumes "reliable_init bsz off n hold = Some rel"
  shows "rel_wf rel \<and> reliable_empty rel"
proof -
  obtain b where b: "0 < n" "n \<le> RELIABLE_CAPACITY" "alloc_buf bsz = Some b"
    using assms by (auto simp: reliable_init_def bind_eq_Some_conv)
  obtain ok b' where "buf_init b off = (ok, b')" by (cases "buf_init b off")
  with assms b have "rel = \<lparr>rl_size = n, rl_initial_timeout = 0, rl_packet_id = 0, rl_offset = off, rl_hold = hold,
      rl_array = replicate n (cleared_entry\<lparr>e_buf := b'\<rparr>) @ replicate (RELIABLE_CAPACITY - n) cleared_entry\<rparr>"
    by (auto simp: reliable_init_def bind_eq_Some_conv)
  then show ?thesis using b
    by (auto simp: rel_wf_def reliable_empty_def first_entry_None nth_append cleared_entry_def)
qed

lemma key_state_init_inv:
  assumes "key_state_init lib opt s = Some s'"
  shows "key_inv (ts_primary s')" "ks_state (ts_primary s') = S_INITIAL"
    "reliable_empty (ks_send_reliable (ts_primary s'))" "ts_lame_duck s' = ts_lame_duck s"
    "rel_wf (ks_send_reliable (ts_primary s'))" "rel_wf (ks_rec_reliable (ts_primary s'))"
    "ts_session_id s' = ts_session_id s"
  using assms
  by (auto simp: key_state_init_def bind_eq_Some_conv Let_def key_inv_def cleared_key_state_def session_id_defined_def
      reliable_set_timeout_def rel_wf_def reliable_empty_def first_entry_def dest!: reliable_init_wf)

lemma tls_session_init_inv:
  assumes "tls_session_init lib now opt sids = Some (s, sids')"
  shows "session_inv s"
proof -
  obtain s0 where "key_state_init lib opt s0 = Some s" "ts_lame_duck s0 = cleared_key_state"
    using assms by (auto simp: tls_session_init_def bind_eq_Some_conv Let_def cleared_session_def)
  then show ?thesis using key_state_init_inv by (metis session_inv_def key_inv_cleared(2))
qed

lemma key_state_soft_reset_inv:
  assumes "key_state_soft_reset lib now opt s = Some s'" "session_inv s" "0 < now" "0 \<le> to_transition_window opt"
  shows "session_inv s'" "ks_state (ts_primary s') = S_INITIAL" "reliable_empty (ks_send_reliable (ts_primary s'))"
    "rel_wf (ks_send_reliable (ts_primary s'))" "rel_wf (ks_rec_reliable (ts_primary s'))"
    "ts_session_id s' = ts_session_id s"
proof -
  let ?lame = "(ts_primary s)\<lparr>ks_must_die := now + to_transition_window opt\<rparr>"
  obtain s1 where s1: "key_state_init lib opt (s\<lparr>ts_lame_duck := ?lame\<rparr>) = Some s1"
    and s': "s' = s1\<lparr>ts_primary := (ts_primary s1)\<lparr>ks_session_id_remote := ks_session_id_remote ?lame,
      ks_remote_addr := ks_remote_addr ?lame\<rparr>\<rparr>"
    using assms(1) by (auto simp: key_state_soft_reset_def Let_def bind_eq_Some_conv)
  note i = key_state_init_inv [OF s1]
  have "lame_inv ?lame" using assms(2-4) by (simp add: lame_inv_def session_inv_def key_inv_def)
  then show "session_inv s'" using i assms(2) by (simp add: s' session_inv_def key_inv_def)
  show "ks_state (ts_primary s') = S_INITIAL" "reliable_empty (ks_send_reliable (ts_primary s'))"
    "rel_wf (ks_send_reliable (ts_primary s'))" "rel_wf (ks_rec_reliable (ts_primary s'))"
    "ts_session_id s' = ts_session_id s" using i by (simp_all add: s')
qed

lemma reset_session_inv:
  assumes "reset_session lib now i m = Some m'" "multi_inv m" "i < TM_SIZE"
  shows "multi_inv m'"
proof -
  obtain s sids where s: "tls_session_init lib now (tm_opt m) (tm_sids m) = Some (s, sids)"
    and m': "m' = set_session i s (set_session i (tls_session_free False (session_at m i)) m\<lparr>tm_sids := sids\<rparr>)"
    using assms(1) by (auto simp: reset_session_def Let_def bind_eq_Some_conv)
  have "m' = set_session i s (m\<lparr>tm_sids := sids\<rparr>)" by (simp add: m' set_session_def)
  moreover have "multi_inv (m\<lparr>tm_sids := sids\<rparr>)" using assms(2) by (simp add: multi_inv_def)
  ultimately show ?thesis using tls_session_init_inv [OF s] by (simp add: set_session_inv)
qed

lemma move_session_inv:
  assumes "move_session lib now dest src reinit m = Some m'" "multi_inv m"
  shows "multi_inv m'"
proof -
  have less: "src \<noteq> dest" "src < TM_SIZE" "dest < TM_SIZE"
    using assms(1) by (auto simp: move_session_def bind_eq_Some_conv)
  let ?m = "set_session dest (session_at m src) m"
  have m: "set_session dest (session_at (set_session dest x m) src) (set_session dest x m) = ?m" for x
    using less by (simp add: set_session_def)
  have inv: "multi_inv ?m" using assms(2) less by (simp add: set_session_inv session_at_inv)
  show ?thesis
  proof (cases reinit)
    case True
    then obtain s sids where s: "tls_session_init lib now (tm_opt m) (tm_sids m) = Some (s, sids)"
      and m': "m' = set_session src s (?m\<lparr>tm_sids := sids\<rparr>)"
      using assms(1) m by (auto simp: move_session_def Let_def bind_eq_Some_conv)
    have "multi_inv (?m\<lparr>tm_sids := sids\<rparr>)" using inv by (simp add: multi_inv_def)
    then show ?thesis using tls_session_init_inv [OF s] by (simp add: m' set_session_inv)
  next
    case False
    then have "m' = set_session src cleared_session ?m"
      using assms(1) m by (auto simp: move_session_def Let_def bind_eq_Some_conv)
    then show ?thesis using inv by (simp add: set_session_inv)
  qed
qed

section \<open>tls\_process\<close>

lemma handshake_generated:
  "(handshake server)\<^sup>*\<^sup>* a b \<Longrightarrow> S_GENERATED_KEYS \<le> fst b \<Longrightarrow> S_GENERATED_KEYS \<le> fst a"
proof (induction rule: rtranclp_induct)
  case (step y z)
  from step.hyps(2) step.prems have "S_GENERATED_KEYS \<le> fst y"
    by (cases rule: handshake.cases) (simp_all add: S_defs)
  with step.IH show ?case .
qed

lemma moves_inv:
  assumes "moves r r'" "session_inv (tr_session r)"
  shows "session_inv (tr_session r')"
proof -
  have "S_GENERATED_KEYS \<le> ks_state (run_ks r') \<Longrightarrow> S_GENERATED_KEYS \<le> ks_state (run_ks r)"
    using assms(1) handshake_generated by (fastforce simp: moves_def hs_of_def)
  then show ?thesis using assms by (auto simp: moves_def keeps_def run_wf_def session_inv_def key_inv_def)
qed

lemma lame_duck_not_aborts: "session_inv s \<Longrightarrow> lame_duck_must_die now s wakeup \<noteq> None"
  by (simp add: lame_duck_must_die_def Let_def session_inv_def lame_inv_def)

text \<open>The parts of \<open>tls_process\<close> in front of the loop and behind it.\<close>

lemma renegotiate_cases:
  assumes "renegotiate env now r = Some r'" "session_inv (tr_session r)" "0 < now" "0 \<le> to_transition_window (run_opt r)"
    and "run_wf r"
  shows "session_inv (tr_session r') \<and> run_wf r' \<and> tr_multi r' = tr_multi r \<and> run_hs r r' \<and>
    (S_ERROR_PRE \<le> ks_state (run_ks r) \<longrightarrow> S_ERROR_PRE \<le> ks_state (run_ks r')) \<and> ts_session_id (tr_session r') = ts_session_id (tr_session r)"
proof (cases "ks_state (run_ks r) \<ge> S_GENERATED_KEYS \<and> should_trigger_renegotiation now (run_opt r) (run_ks r)")
  case True
  then obtain s where s: "key_state_soft_reset (te_lib env) now (run_opt r) (tr_session r) = Some s" "r' = r\<lparr>tr_session := s\<rparr>"
    using assms(1) by (auto simp: renegotiate_def)
  note i = key_state_soft_reset_inv [OF s(1) assms(2-4)]
  have "handshake (to_server (run_opt r)) (hs_of (run_ks r)) (S_INITIAL, False)"
    using True by (simp add: hs_of_def handshake.rekey)
  then show ?thesis using i s(2) by (simp add: run_wf_def hs_of_def r_into_rtranclp) (simp add: S_defs)
next
  case False
  then show ?thesis using assms by (auto simp: renegotiate_def)
qed

lemma kill_lame_duck_moves:
  assumes "kill_lame_duck now r = Some r'" "session_inv (tr_session r)"
  shows "session_inv (tr_session r') \<and> tr_multi r' = tr_multi r \<and> run_ks r' = run_ks r \<and>
    ts_session_id (tr_session r') = ts_session_id (tr_session r)"
  using assms
  by (auto simp: kill_lame_duck_def Let_def bind_eq_Some_conv session_inv_def key_state_free_def)

lemma send_acks_moves:
  assumes run: "send_acks env now r = Some (ok, r')" and wf: "run_wf r"
  shows "moves r r'"
proof -
  let ?ks = "run_ks r"
  consider (wkc) "b_len (tr_to_link r) = 0 \<and> \<not> reliable_ack_empty (ks_rec_ack ?ks)"
      "control_packet_needs_wkc (ks_resend_wkc ?ks) (ks_send_reliable ?ks)"
    | (ack) "b_len (tr_to_link r) = 0 \<and> \<not> reliable_ack_empty (ks_rec_ack ?ks)"
      "\<not> control_packet_needs_wkc (ks_resend_wkc ?ks) (ks_send_reliable ?ks)"
    | (nothing) "\<not> (b_len (tr_to_link r) = 0 \<and> \<not> reliable_ack_empty (ks_rec_ack ?ks))" by blast
  then show ?thesis
  proof cases
    case wkc
    then obtain i send where g: "reliable_get_buf_output_sequenced (ks_send_reliable ?ks) = Some (i, send)"
      using run by (auto simp: send_acks_def Let_def bind_eq_Some_conv)
    note same = get_buf_output(1) [OF g]
    have s: "rel_wf send" "reliable_empty send = reliable_empty (ks_send_reliable ?ks)"
      using same_active_wf [OF same] same_active_empty [OF same] wf by (simp_all add: run_wf_def)
    show ?thesis
    proof (cases i)
      case None
      then show ?thesis using run g wkc s wf by (auto simp: send_acks_def Let_def moves_def step_simps)
    next
      case (Some k)
      then obtain send' where m: "reliable_mark_active_outgoing send k P_CONTROL_WKC_V1 = Some send'"
        and r': "r' = with_ks (?ks\<lparr>ks_send_reliable := send'\<rparr>) r"
        using run g wkc by (auto simp: send_acks_def Let_def bind_eq_Some_conv)
      have "handshake (to_server (run_opt r)) (ks_state ?ks, u) (ks_state ?ks, True)" for u by (rule handshake.queued)
      then show ?thesis using mark_active_outgoing [OF m s(1)] wf by (simp add: r' moves_def step_simps r_into_rtranclp)
    qed
  next
    case ack
    then obtain buf0 s buf addr where w: "write_control_auth (te_ce env) now (run_opt r) (tr_session r) buf0 P_ACK_V1
        RELIABLE_ACK_SIZE False = Some (s, buf, addr)" and r': "r' = r\<lparr>tr_session := s, tr_to_link := buf, tr_to_link_addr := Some addr\<rparr>"
      using run by (auto simp: send_acks_def Let_def bind_eq_Some_conv split: prod.splits)
    obtain ack mru where "ts_primary s = ?ks\<lparr>ks_rec_ack := ack, ks_lru_acks := mru\<rparr>"
      "ts_lame_duck s = ts_lame_duck (tr_session r)" using write_control_auth_session [OF w] by auto
    then show ?thesis using wf by (simp add: r' moves_def step_simps)
  next
    case nothing
    then have "r' = r" using run by (auto simp: send_acks_def Let_def)
    then show ?thesis using wf by (simp add: moves_refl)
  qed
qed

lemma tls_process_moves:
  assumes run: "tls_process env now r = Some (b, r')" and wf: "run_wf r"
    and inv: "session_inv (tr_session r)" "0 < now" "0 \<le> to_transition_window (run_opt r)" "S_ERROR_PRE \<le> ks_state (run_ks r)"
  shows "session_inv (tr_session r')" "run_opt r' = run_opt r" "tm_sessions (tr_multi r') = tm_sessions (tr_multi r)"
    "run_hs r r'"
proof -
  obtain r1 where r1: "renegotiate env now r = Some r1"
    using run by (auto simp: tls_process_def bind_eq_Some_conv)
  note c1 = renegotiate_cases [OF r1 inv(1,2,3) wf]
  obtain r2 where r2: "kill_lame_duck now r1 = Some r2"
    using run r1 by (auto simp: tls_process_def bind_eq_Some_conv)
  have c2: "session_inv (tr_session r2)" "tr_multi r2 = tr_multi r1" "run_ks r2 = run_ks r1"
    using kill_lame_duck_moves [OF r2] c1 by auto
  have wf2: "run_wf r2" "S_ERROR_PRE \<le> ks_state (run_ks r2)"
    using c1 c2 inv(4) by (simp_all add: run_wf_def)
  obtain alive r3 where r3: "process_loop (Suc (process_bound r2)) env now r2 = Some (Some (alive, r3))"
    using run r1 r2 by (auto simp: tls_process_def bind_eq_Some_conv)
  note m3 = process_loop_moves [OF r3 wf2]
  have "\<exists>w. moves r2 (r'\<lparr>tr_wakeup := w\<rparr>)"
  proof (cases alive)
    case False
    then have "r' = r3"
      using run r1 r2 r3 by (auto simp: tls_process_def bind_eq_Some_conv simp del: process_loop.simps)
    then show ?thesis using m3 by (intro exI [of _ "tr_wakeup r'"]) simp
  next
    case True
    then obtain ok r4 where r4: "send_acks env now r3 = Some (ok, r4)"
      using run r1 r2 r3 by (auto simp: tls_process_def bind_eq_Some_conv simp del: process_loop.simps)
    have "r'\<lparr>tr_wakeup := tr_wakeup r4\<rparr> = r4"
      using run r1 r2 r3 r4 True
      by (auto simp: tls_process_def bind_eq_Some_conv Let_def simp del: process_loop.simps split: if_splits)
    moreover have "moves r3 r4" using send_acks_moves [OF r4] m3 by (simp add: moves_def)
    ultimately show ?thesis using moves_trans [OF m3] by metis
  qed
  then have m: "moves r2 r'" by (auto simp: moves_def keeps_def run_wf_def)
  show "session_inv (tr_session r')" by (rule moves_inv [OF m c2(1)])
  have opt: "run_opt r2 = run_opt r" using c1 c2 by simp
  have "run_hs r r2" using c1 c2 by simp
  with m opt show "run_hs r r'" by (auto simp: moves_def)
  show "run_opt r' = run_opt r" "tm_sessions (tr_multi r') = tm_sessions (tr_multi r)"
    using m c1 c2 by (auto simp: moves_def keeps_def)
qed

section \<open>tls\_multi\_process\<close>

lemma session_error_inv:
  assumes "session_error env now i p = Some p'" "multi_inv (mr_multi p)" "i < TM_SIZE"
  shows "multi_inv (mr_multi p')"
proof -
  let ?m = "(mr_multi p)\<lparr>tm_n_soft_errors := tm_n_soft_errors (mr_multi p) + 1\<rparr>"
  have inv: "multi_inv ?m" using assms(2) by (simp add: multi_inv_def)
  have "p' = p \<or> move_session (te_lib env) now TM_LAME_DUCK TM_ACTIVE True ?m = Some (mr_multi p') \<or>
      reset_session (te_lib env) now i ?m = Some (mr_multi p')"
    using assms(1) by (auto simp: session_error_def Let_def bind_eq_Some_conv split: if_splits)
  then show ?thesis using assms(2,3) inv move_session_inv reset_session_inv by blast
qed

lemma process_session_inv:
  assumes run: "process_session env now i p = Some p'" and inv: "multi_inv (mr_multi p)" and i: "i < TM_SIZE" "0 < now"
  shows "multi_inv (mr_multi p')"
proof -
  let ?m = "mr_multi p" and ?s = "session_at (mr_multi p) i"
  define ks where "ks = (if i = TM_INITIAL \<and> ks_state (ts_primary ?s) = S_INITIAL \<and> ks_state (get_primary_key ?m) \<le> S_INITIAL \<and>
              link_socket_actual_defined (li_actual (mr_lsi p))
           then (ts_primary ?s)\<lparr>ks_remote_addr := li_actual (mr_lsi p)\<rparr> else ts_primary ?s)"
  define s where "s = ?s\<lparr>ts_primary := ks\<rparr>"
  have key: "key_inv ks" and s: "session_inv s"
    using session_at_inv [OF inv i(1)]
    by (auto simp: ks_def s_def session_inv_def key_inv_def link_socket_actual_defined_def)
  then have m: "multi_inv (set_session i s ?m)" using inv by (simp add: set_session_inv)
  show ?thesis
  proof (cases "(ks_state ks \<ge> S_INITIAL \<or> ks_state ks = S_ERROR_PRE) \<and> link_socket_actual_defined (ks_remote_addr ks)")
    case False
    then have "mr_multi p' = set_session i s ?m"
      using run unfolding process_session_def Let_def ks_def [symmetric] s_def [symmetric] by auto
    then show ?thesis using m by simp
  next
    case True
    let ?r = "\<lparr>tr_multi = set_session i s ?m, tr_session = s, tr_lsi = mr_lsi p, tr_to_link = mr_to_link p,
         tr_to_link_addr = None, tr_wakeup = mr_wakeup p, tr_continue = False\<rparr>"
    obtain busy r where r: "tls_process env now ?r = Some (busy, r)"
      and e: "session_error env now i (p\<lparr>mr_multi := set_session i (tr_session r) (tr_multi r), mr_lsi := tr_lsi r,
         mr_to_link := tr_to_link r, mr_wakeup := tr_wakeup r,
         mr_to_link_addr := (case tr_to_link_addr r of None \<Rightarrow> mr_to_link_addr p | Some a \<Rightarrow> Some a),
         mr_active := (if busy then TLSMP_ACTIVE else mr_active p)\<rparr>) = Some p'"
      using run True unfolding process_session_def Let_def ks_def [symmetric] s_def [symmetric]
      by (auto simp: bind_eq_Some_conv)
    have st: "S_ERROR_PRE \<le> ks_state ks" "ks_state ks \<noteq> S_UNDEF" using True by (auto simp: S_defs)
    have "run_wf ?r" using key st(2) by (simp add: run_wf_def key_inv_def s_def)
    moreover have "0 \<le> to_transition_window (tm_opt ?m)" using inv by (simp add: multi_inv_def)
    ultimately have p: "session_inv (tr_session r)" "run_opt r = tm_opt ?m" "tm_sessions (tr_multi r) = tm_sessions (set_session i s ?m)"
      using tls_process_moves [OF r] s i(2) st by (simp_all add: s_def)
    have "multi_inv (tr_multi r)" by (rule multi_inv_cong [OF p(3) _ m]) (simp add: p(2))
    then show ?thesis using session_error_inv [OF e] p(1) i(1) by (simp add: set_session_inv)
  qed
qed

lemma update_key_auth_status_simps [simp]:
  "ks_state (update_key_auth_status env now cached ks) = ks_state ks"
  "ks_must_die (update_key_auth_status env now cached ks) = ks_must_die ks"
  "key_inv (update_key_auth_status env now cached ks) = key_inv ks"
  by (simp_all add: update_key_auth_status_def Let_def key_inv_def)

lemma update_auth_inv: "multi_inv m \<Longrightarrow> update_auth env now cached is m = (seen, m') \<Longrightarrow> multi_inv m'"
proof (induction "is" arbitrary: m seen)
  case (Cons i "is")
  show ?case
  proof (cases "get_key_scan m i")
    case (Some ks)
    then have "multi_inv (set_key_scan i (update_key_auth_status env now cached ks) m)"
      using Cons.prems(1) get_key_scan_inv by (intro set_key_scan_inv) auto
    then show ?thesis using Cons Some by (auto simp: Let_def split: prod.splits if_splits)
  qed (use Cons in simp)
qed simp

lemma tls_authentication_status_inv:
  assumes "multi_inv m" "tls_authentication_status env now m = (tas, m')"
  shows "multi_inv m'"
proof -
  obtain seen m1 where m1: "update_auth env now (tls_authentication_status_use_cache now m) [0..<KEY_SCAN_SIZE] m = (seen, m1)"
    by (rule prod.exhaust)
  have "tm_sessions m' = tm_sessions m1" "tm_opt m' = tm_opt m1"
    using assms(2) m1 by (auto simp: tls_authentication_status_def Let_def)
  then show ?thesis using update_auth_inv [OF assms(1) m1] by (simp add: multi_inv_def)
qed

lemma epoch_init_initialized:
  assumes "epoch_init_key_ctx hm a kt limit x y n = Some b" shows "co_initialized b"
proof -
  obtain co ctx where "epoch_generate_future_receive_keys hm
      (co\<lparr>co_decrypt := ctx, co_initialized := True, co_future := replicate n cleared_ctx\<rparr>) = Some b"
    using assms unfolding epoch_init_key_ctx_def Let_def by (auto simp: bind_eq_Some_conv)
  from generate_future_keeps [OF this] show ?thesis by simp
qed

lemma init_key_contexts_initialized:
  assumes "init_key_contexts hm co kt limit server keys = Some co'" shows "co_initialized co'"
proof (cases "co_epoch_format co")
  case True
  then have "\<exists>x y. epoch_init_key_ctx hm co kt limit x y 16 = Some co'"
    using assms unfolding init_key_contexts_def init_epoch_keys_def Let_def by (auto split: prod.splits)
  then show ?thesis using epoch_init_initialized by blast
next
  case False
  then show ?thesis using assms unfolding init_key_contexts_def init_key_ctx_bi_def Let_def
    by (auto simp: bind_eq_Some_conv split: prod.splits)
qed

lemma generate_key_expansion_initialized:
  assumes "generate_key_expansion hm prf export kt limit use_export server lsid rsid src co = Some (True, co')"
  shows "co_initialized co'"
proof -
  obtain keys where "init_key_contexts hm co kt limit server keys = Some co'"
    using assms unfolding generate_key_expansion_def by (auto simp: bind_eq_Some_conv split: option.splits if_splits)
  then show ?thesis by (rule init_key_contexts_initialized)
qed

lemma generate_channel_keys_inv:
  assumes run: "tls_session_generate_data_channel_keys env i m = Some (ok, m')" and inv: "multi_inv m" and i: "i < TM_SIZE"
    and st: "ks_state (ts_primary (session_at m i)) = S_ACTIVE"
  shows "multi_inv m'" "\<not> ok \<Longrightarrow> ks_state (ts_primary (session_at m' i)) = S_ACTIVE"
proof -
  let ?s = "session_at m i" and ?ks = "ts_primary (session_at m i)"
  note s = session_at_inv [OF inv i]
  have "multi_inv m' \<and> (\<not> ok \<longrightarrow> ks_state (ts_primary (session_at m' i)) = S_ACTIVE)"
  proof (cases "ks_authenticated ?ks = KS_AUTH_FALSE")
    case True
    then have m': "m' = set_session i (?s\<lparr>ts_primary := ?ks\<lparr>ks_key_src := cleared_source2\<rparr>\<rparr>) m"
      using run by (simp add: tls_session_generate_data_channel_keys_def Let_def)
    have "session_inv (?s\<lparr>ts_primary := ?ks\<lparr>ks_key_src := cleared_source2\<rparr>\<rparr>)"
      using s by (simp add: session_inv_def key_inv_def)
    then show ?thesis using inv i st by (simp add: m' set_session_inv session_at_set)
  next
    case False
    then obtain co0 co export where co: "generate_key_expansion (ce_hm (te_ce env)) (te_prf env) export (to_key_type (tm_opt m))
          (to_cipher_aead_limit (tm_opt m)) (to_use_export (tm_opt m)) (to_server (tm_opt m)) (ts_session_id ?s)
          (ks_session_id_remote ?ks) (ks_key_src ?ks) co0 = Some (ok, co)"
      and m': "m' = (let ks = ?ks\<lparr>ks_crypto_options := co, ks_resend_wkc := False, ks_key_src := cleared_source2\<rparr> in
        if \<not> ok then set_session i (?s\<lparr>ts_primary := ks\<rparr>) m
        else set_session i (?s\<lparr>ts_primary := ks\<lparr>ks_state := S_GENERATED_KEYS\<rparr>\<rparr>)
          (m\<lparr>tm_opt := (tm_opt m)\<lparr>to_renegotiate_bytes := tls_limit_reneg_bytes (to_cipher_insecure (tm_opt m)) (to_renegotiate_bytes (tm_opt m)),
                           to_aead_usage_limit := tls_get_limit_aead (to_cipher_aead_limit (tm_opt m))\<rparr>\<rparr>))"
      using run unfolding tls_session_generate_data_channel_keys_def Let_def
      by (auto simp: bind_eq_Some_conv split: if_splits)
    have act: "\<not> S_GENERATED_KEYS \<le> S_ACTIVE" "S_ACTIVE \<noteq> S_UNDEF" by (simp_all add: S_defs)
    show ?thesis
    proof (cases ok)
      case True
      then have "co_initialized co" using co by (auto dest: generate_key_expansion_initialized)
      then have "session_inv (?s\<lparr>ts_primary := ?ks\<lparr>ks_crypto_options := co, ks_resend_wkc := False, ks_key_src := cleared_source2,
          ks_state := S_GENERATED_KEYS\<rparr>\<rparr>)"
        using s st act by (simp add: session_inv_def key_inv_def)
      moreover have "multi_inv (m\<lparr>tm_opt := (tm_opt m)\<lparr>to_renegotiate_bytes := x, to_aead_usage_limit := y\<rparr>\<rparr>)" for x y
        using inv by (simp add: multi_inv_def)
      ultimately show ?thesis using True by (simp add: m' Let_def set_session_inv)
    next
      case False
      have "session_inv (?s\<lparr>ts_primary := ?ks\<lparr>ks_crypto_options := co, ks_resend_wkc := False, ks_key_src := cleared_source2\<rparr>\<rparr>)"
        using s st act by (simp add: session_inv_def key_inv_def)
      then show ?thesis using False inv i st by (simp add: m' set_session_inv session_at_set)
    qed
  qed
  then show "multi_inv m'" "\<not> ok \<Longrightarrow> ks_state (ts_primary (session_at m' i)) = S_ACTIVE" by auto
qed

lemma generate_active_keys_inv:
  assumes run: "generate_active_keys env m = Some m'" and inv: "multi_inv m"
  shows "multi_inv m'"
proof (cases "tm_multi_state m = CAS_CONNECT_DONE \<and> ks_state (get_primary_key m) = S_ACTIVE \<and>
    ks_authenticated (get_primary_key m) = KS_AUTH_TRUE")
  case True
  then obtain ok m1 where g: "tls_session_generate_data_channel_keys env TM_ACTIVE m = Some (ok, m1)"
    using run by (auto simp: generate_active_keys_def Let_def bind_eq_Some_conv)
  have st: "ks_state (ts_primary (session_at m TM_ACTIVE)) = S_ACTIVE" using True by (simp add: get_primary_key_def)
  note i = generate_channel_keys_inv [OF g inv session_less(1) st]
  show ?thesis
  proof (cases ok)
    case False
    let ?s = "session_at m1 TM_ACTIVE"
    obtain tls where "m' = set_session TM_ACTIVE (?s\<lparr>ts_primary := (ts_primary ?s)\<lparr>ks_authenticated := KS_AUTH_FALSE,
        ks_state := S_ERROR_PRE, ks_tls := Some tls\<rparr>\<rparr>) m1"
      using run True g False by (auto simp: generate_active_keys_def Let_def bind_eq_Some_conv)
    moreover have "\<not> S_GENERATED_KEYS \<le> S_ERROR_PRE" "S_ACTIVE \<noteq> S_UNDEF" by (simp_all add: S_defs)
    ultimately show ?thesis using i False session_at_inv [OF i(1), of TM_ACTIVE]
      by (simp add: set_session_inv session_inv_def key_inv_def)
  qed (use run True g i in \<open>auto simp: generate_active_keys_def Let_def\<close>)
qed (use run inv in \<open>auto simp: generate_active_keys_def Let_def\<close>)

lemma promote_initial_inv:
  assumes "promote_initial env now tas active m = Some (tas', active', m')" "multi_inv m"
  shows "multi_inv m'"
proof (cases "TLS_AUTHENTICATED m (ts_primary (session_at m TM_INITIAL))")
  case True
  then obtain m1 where m1: "move_session (te_lib env) now TM_ACTIVE TM_INITIAL True m = Some m1"
    using assms(1) by (auto simp: promote_initial_def bind_eq_Some_conv)
  obtain tas2 m2 where m2: "tls_authentication_status env now m1 = (tas2, m2)" by (rule prod.exhaust)
  have "multi_inv m2" by (rule tls_authentication_status_inv [OF move_session_inv [OF m1 assms(2)] m2])
  then show ?thesis using assms(1) True m1 m2
    by (auto simp: promote_initial_def Let_def multi_inv_def split: if_splits)
qed (use assms in \<open>auto simp: promote_initial_def\<close>)

lemma tls_multi_process_inv:
  assumes run: "tls_multi_process env now m lsi to_link addr wakeup = Some (busy, p)" and inv: "multi_inv m" "0 < now"
  shows "multi_inv (mr_multi p)"
proof -
  let ?p = "\<lparr>mr_multi = m, mr_lsi = lsi, mr_to_link = to_link, mr_to_link_addr = addr, mr_wakeup = wakeup,
              mr_active = TLSMP_INACTIVE, mr_error = False\<rparr>"
  obtain p1 where p1: "process_session env now TM_ACTIVE ?p = Some p1"
    using run unfolding tls_multi_process_def Let_def by (auto simp only: bind_eq_Some_conv)
  obtain p2 where p2: "process_session env now TM_INITIAL p1 = Some p2"
    using run p1 unfolding tls_multi_process_def Let_def by (auto simp: bind_eq_Some_conv)
  obtain p3 where p3: "process_session env now TM_LAME_DUCK p2 = Some p3"
    using run p1 p2 unfolding tls_multi_process_def Let_def by (auto simp: bind_eq_Some_conv)
  have i3: "multi_inv (mr_multi p3)"
    using process_session_inv [OF p3 process_session_inv [OF p2 process_session_inv [OF p1]]] inv by simp
  obtain tas m4 where m4: "tls_authentication_status env now (mr_multi p3) = (tas, m4)" by (rule prod.exhaust)
  note i4 = tls_authentication_status_inv [OF i3 m4]
  obtain m5 where m5: "generate_active_keys env m4 = Some m5"
    using run p1 p2 p3 m4 unfolding tls_multi_process_def Let_def by (auto simp: bind_eq_Some_conv)
  note i5 = generate_active_keys_inv [OF m5 i4]
  define m6 where "m6 = (if tm_multi_state m5 = CAS_WAITING_AUTH \<and> tas = TLS_AUTHENTICATION_SUCCEEDED
       then m5\<lparr>tm_multi_state := CAS_PENDING\<rparr> else m5)"
  have i6: "multi_inv m6" using i5 by (simp add: m6_def multi_inv_def)
  obtain die w where die: "lame_duck_must_die now (session_at m6 TM_LAME_DUCK) (mr_wakeup p3) = Some (die, w)"
    using lame_duck_not_aborts [OF session_at_inv [OF i6 session_less(3)]] by fastforce
  define m7 where "m7 = (if die then set_session TM_LAME_DUCK (tls_session_free True (session_at m6 TM_LAME_DUCK)) m6 else m6)"
  have i7: "multi_inv m7" using i6 by (simp add: m7_def tls_session_free_def set_session_inv)
  obtain tas' active m8 where m8: "promote_initial env now tas (mr_active p3) m7 = Some (tas', active, m8)"
    and p: "mr_multi p = count_hard_error (mr_error p3) m8"
    using run p1 p2 p3 m4 m5 die
    unfolding tls_multi_process_def Let_def m6_def m7_def by (auto simp: bind_eq_Some_conv)
  have "multi_inv m8" by (rule promote_initial_inv [OF m8 i7])
  then show ?thesis by (simp add: p count_hard_error_def multi_inv_def)
qed

end
