(* ===== verification/TlsReachable.thy ===== *)
theory TlsReachable
  imports TlsInvariant
begin

text \<open>
  Incoming packets keep the invariant: the reliability layer stays in order, and \<open>tls_pre_decrypt\<close> with all
  its parts keeps \<open>multi_inv\<close>.
\<close>

section \<open>The reliability layer\<close>

lemmas map_entries_wf = map_entries_view(4)

lemma send_purge_wf: "rel_wf rel \<Longrightarrow> rel_wf (reliable_send_purge rel ack)"
proof -
  have "rel_wf rel \<Longrightarrow> rel_wf (fold (\<lambda>pid. map_entries (purge_entry pid)) pids rel)" for pids
    by (induction pids arbitrary: rel) (simp_all add: map_entries_wf)
  then show "rel_wf rel \<Longrightarrow> ?thesis" by (simp add: reliable_send_purge_def)
qed

lemma schedule_now_wf: "rel_wf rel \<Longrightarrow> rel_wf (reliable_schedule_now now rel)"
  unfolding reliable_schedule_now_def by (rule map_entries_wf) (simp add: rel_wf_def)

lemma reliable_get_buf_wf: "reliable_get_buf rel = Some (i, rel') \<Longrightarrow> rel_wf rel \<Longrightarrow> rel_wf rel'"
  by (auto simp: reliable_get_buf_def bind_eq_Some_conv upd_entry_wf split: option.splits prod.splits)

lemma mark_active_incoming_wf: "reliable_mark_active_incoming rel i pid op = Some rel' \<Longrightarrow> rel_wf rel \<Longrightarrow> rel_wf rel'"
  by (auto simp: reliable_mark_active_incoming_def bind_eq_Some_conv upd_entry_wf)

lemma store_packet_wf:
  assumes "store_packet rcv ack op buf = Some (ok, rcv', ack')" "rel_wf rcv"
  shows "rel_wf rcv'"
proof -
  have "rcv' = rcv \<or> (\<exists>i rel b. reliable_get_buf rcv = Some (Some i, rel) \<and>
      (rcv' = set_buf i b rel \<or> (\<exists>pid. reliable_mark_active_incoming (set_buf i b rel) i pid op = Some rcv')))"
    using assms(1) unfolding store_packet_def
    by (auto simp: bind_eq_Some_conv split: if_splits option.splits prod.splits bool.splits) (metis prod.exhaust)+
  then show ?thesis using assms(2) by (auto dest: reliable_get_buf_wf intro: upd_entry_wf mark_active_incoming_wf)
qed

section \<open>Incoming packets\<close>

text \<open>A session whose primary key has only changed in fields the invariant does not look at.\<close>

lemma session_inv_primary:
  assumes "session_inv s" "ks_state ks = ks_state (ts_primary s)" "ks_crypto_options ks = ks_crypto_options (ts_primary s)"
    "ks_session_id_remote ks = ks_session_id_remote (ts_primary s)" "ks_remote_addr ks = ks_remote_addr (ts_primary s)"
    "ks_state ks \<noteq> S_UNDEF \<longrightarrow> rel_wf (ks_send_reliable ks) \<and> rel_wf (ks_rec_reliable ks)"
  shows "session_inv (s\<lparr>ts_primary := ks\<rparr>)"
  using assms by (simp add: session_inv_def key_inv_def)

lemma handle_data_channel_packet_cases:
  assumes run: "handle_data_channel_packet m from buf floated = Some (key, ad, buf', m')"
  obtains (dropped) "key = None" "m' = m \<or> m' = soft_error m"
    | (found) c i ks where "first_byte buf = Some c" "key = Some i"
      "find_data_key m from floated (key_id_of c) [0..<KEY_SCAN_SIZE] = Some (Some i)" "get_key_scan m i = Some ks"
      "m' = set_key_scan i (ks\<lparr>ks_n_packets := ks_n_packets ks + 1, ks_n_bytes := ks_n_bytes ks + b_len buf'\<rparr>) m"
proof -
  obtain c j where c: "first_byte buf = Some c" "find_data_key m from floated (key_id_of c) [0..<KEY_SCAN_SIZE] = Some j"
    using run by (auto simp: handle_data_channel_packet_def Let_def bind_eq_Some_conv)
  show ?thesis
  proof (cases j)
    case None
    then show ?thesis using run c by (intro dropped) (auto simp: handle_data_channel_packet_def Let_def)
  next
    case (Some i)
    obtain ks where ks: "get_key_scan m i = Some ks"
      using run c Some by (auto simp: handle_data_channel_packet_def Let_def bind_eq_Some_conv)
    obtain ok1 b1 where b1: "buf_advance buf 1 = (ok1, b1)" by (rule prod.exhaust)
    obtain ok2 b2 where b2: "buf_advance b1 3 = (ok2, b2)" by (rule prod.exhaust)
    show ?thesis
    proof (cases "opcode_of c = P_DATA_V2 \<and> b_len b1 < 4")
      case True
      then show ?thesis using run c Some ks b1
        by (intro dropped) (auto simp: handle_data_channel_packet_def Let_def bind_eq_Some_conv soft_error_def split: if_splits)
    next
      case False
      then have "key = Some i"
        "m' = set_key_scan i (ks\<lparr>ks_n_packets := ks_n_packets ks + 1, ks_n_bytes := ks_n_bytes ks + b_len buf'\<rparr>) m"
        using run c Some ks b1 b2
        by (auto simp: handle_data_channel_packet_def Let_def bind_eq_Some_conv split: if_splits)
      then show ?thesis using c Some ks by (intro found) simp_all
    qed
  qed
qed

lemma soft_error_inv: "multi_inv m \<Longrightarrow> multi_inv (soft_error m)"
  by (simp add: multi_inv_def soft_error_def)

lemma handle_data_channel_packet_inv:
  assumes "handle_data_channel_packet m from buf floated = Some (key, ad, buf', m')" "multi_inv m"
  shows "multi_inv m'"
  using assms(1)
proof (cases rule: handle_data_channel_packet_cases)
  case dropped
  then show ?thesis using assms(2) soft_error_inv by blast
next
  case (found c i ks)
  have "key_inv ks" by (rule get_key_scan_inv [OF assms(2) found(4)])
  then have "key_inv (ks\<lparr>ks_n_packets := ks_n_packets ks + 1, ks_n_bytes := ks_n_bytes ks + b_len buf'\<rparr>)"
    by (simp add: key_inv_def)
  then show ?thesis unfolding found(5) using set_key_scan_inv [OF assms(2) found(4)] by simp
qed

lemma tls_session_set_tls_wrap_simps [simp]:
  "ts_primary (tls_session_set_tls_wrap s key_id ctx) = ts_primary s"
  "ts_lame_duck (tls_session_set_tls_wrap s key_id ctx) = ts_lame_duck s"
  "ts_session_id (tls_session_set_tls_wrap s key_id ctx) = ts_session_id s"
  by (simp_all add: tls_session_set_tls_wrap_def)

lemma session_read_control_auth_inv:
  assumes "session_read_control_auth env now i key_id initial buf m = Some (ok, buf', m')" "multi_inv m" "i < TM_SIZE"
  shows "multi_inv m'" "tm_opt m' = tm_opt m" "ts_primary (session_at m' i) = ts_primary (session_at m i)"
proof -
  obtain ctx where m': "m' = set_session i (tls_session_set_tls_wrap (session_at m i) key_id ctx) m"
    using assms(1) by (auto simp: session_read_control_auth_def Let_def bind_eq_Some_conv)
  have "session_inv (tls_session_set_tls_wrap (session_at m i) key_id ctx)"
    using session_at_inv [OF assms(2,3)] by (simp add: session_inv_def)
  then show "multi_inv m'" "tm_opt m' = tm_opt m" "ts_primary (session_at m' i) = ts_primary (session_at m i)"
    using assms(2,3) by (simp_all add: m' set_session_inv session_at_set)
qed

lemma receive_payload_inv:
  assumes "receive_payload now op key_id buf s = Some (ok, s')" "session_inv s" "ks_state (ts_primary s) \<noteq> S_UNDEF"
  shows "session_inv s'"
proof -
  let ?ks = "ts_primary s"
  have wf: "rel_wf (ks_send_reliable ?ks)" "rel_wf (ks_rec_reliable ?ks)"
    using assms(2,3) by (simp_all add: session_inv_def key_inv_def)
  obtain r ack2 b where read: "reliable_ack_read ack_empty (replicate SID_SIZE 0) buf (ts_session_id s) = (r, ack2, b)"
    by (rule prod_cases3)
  have "s' = s \<or> (\<exists>ack rec t. store_packet (ks_rec_reliable ?ks) (ks_rec_ack ?ks) op b = Some (ok, rec, ack) \<and>
      s' = s\<lparr>ts_primary := ?ks\<lparr>ks_send_reliable := reliable_send_purge (ks_send_reliable ?ks) ack2,
        ks_rec_reliable := rec, ks_rec_ack := ack, ks_peer_last_packet := t\<rparr>\<rparr>)"
  proof (cases "ks_key_id ?ks = key_id \<and> r")
    case True
    then obtain rec ack where st: "store_packet (ks_rec_reliable ?ks) (ks_rec_ack ?ks) op b = Some (ok, rec, ack)"
      and s': "s' = s\<lparr>ts_primary := (let ks = ?ks\<lparr>ks_send_reliable := reliable_send_purge (ks_send_reliable ?ks) ack2,
        ks_rec_reliable := rec, ks_rec_ack := ack\<rparr> in if ok then ks\<lparr>ks_peer_last_packet := now\<rparr> else ks)\<rparr>"
      using assms(1) read by (auto simp: receive_payload_def Let_def bind_eq_Some_conv)
    show ?thesis
      by (rule disjI2, rule exI [of _ ack], rule exI [of _ rec],
          rule exI [of _ "if ok then now else ks_peer_last_packet ?ks"]) (simp add: st s' Let_def)
  next
    case False
    then have "s' = s" using assms(1) read by (cases r) (auto simp: receive_payload_def Let_def split: if_splits)
    then show ?thesis by simp
  qed
  then show ?thesis using assms(2) wf
    by (auto intro!: session_inv_primary send_purge_wf elim!: store_packet_wf)
qed

lemma route_packet_inv:
  assumes run: "route_packet env now from op key_id sid buf m = Some (route, buf', m')" and inv: "multi_inv m" "0 < now"
  shows "multi_inv m'" "route = Some (i, burst, new) \<Longrightarrow> i < TM_SIZE"
proof -
  have win: "0 \<le> to_transition_window (tm_opt m)" using inv by (simp add: multi_inv_def)
  let ?i = "match_session m sid"
  have "multi_inv m' \<and> (\<forall>i burst new. route = Some (i, burst, new) \<longrightarrow> i < TM_SIZE)"
  proof (cases "?i = TM_ACTIVE \<or> ?i = TM_INITIAL")
    case False
    show ?thesis
    proof (cases "?i = TM_SIZE \<and> is_hard_reset_method2 op \<and> \<not> (to_single_session (tm_opt m) \<and> tm_n_sessions m \<noteq> 0)")
      case True
      then obtain ok b m1 where m1: "session_read_control_auth env now TM_INITIAL key_id True buf m = Some (ok, b, m1)"
        and r: "(route, buf', m') = (if ok then (Some (TM_INITIAL, True, True), b,
               set_session TM_INITIAL ((session_at m1 TM_INITIAL)\<lparr>ts_untrusted_addr := from\<rparr>) m1) else (None, b, m1))"
        using run unfolding route_packet_def Let_def
        by (auto simp: bind_eq_Some_conv TM_SIZE_def TM_LAME_DUCK_def)
      note i = session_read_control_auth_inv [OF m1 inv(1)]
      have "session_inv ((session_at m1 TM_INITIAL)\<lparr>ts_untrusted_addr := from\<rparr>)"
        using session_at_inv [OF i(1)] by (simp add: session_inv_def)
      then show ?thesis using r i by (auto simp: set_session_inv split: if_splits)
    next
      case False
      then have "m' = m" "route = None"
        using run \<open>\<not> (?i = TM_ACTIVE \<or> ?i = TM_INITIAL)\<close> unfolding route_packet_def Let_def by (auto split: if_splits)
      then show ?thesis using inv by simp
    qed
  next
    case True
    let ?s = "session_at m ?i" and ?ks = "ts_primary (session_at m ?i)"
    have lt: "?i < TM_SIZE" "?i \<noteq> TM_LAME_DUCK" "?i \<noteq> TM_SIZE"
      using True by (auto simp: TM_ACTIVE_def TM_INITIAL_def TM_SIZE_def TM_LAME_DUCK_def)
    obtain same where same: "link_socket_actual_match (ks_remote_addr ?ks) from = Some same"
      using run True lt unfolding route_packet_def Let_def by (auto simp: bind_eq_Some_conv split: if_splits)
    consider (no) "\<not> same" | (reset) "same" "op = P_CONTROL_SOFT_RESET_V1 \<and> ks_state ?ks \<ge> S_GENERATED_KEYS"
      | (other) "same" "\<not> (op = P_CONTROL_SOFT_RESET_V1 \<and> ks_state ?ks \<ge> S_GENERATED_KEYS)" by blast
    then show ?thesis
    proof cases
      case no
      then have "m' = m" "route = None" using run True lt same unfolding route_packet_def Let_def by (auto split: if_splits)
      then show ?thesis using inv by simp
    next
      case reset
      then obtain ok b m1 where m1: "session_read_control_auth env now ?i key_id False buf m = Some (ok, b, m1)"
        using run True lt same unfolding route_packet_def Let_def by (auto simp: bind_eq_Some_conv split: if_splits)
      note i = session_read_control_auth_inv [OF m1 inv(1) lt(1)]
      show ?thesis
      proof (cases ok)
        case ok: True
        have nt: "(?i \<noteq> TM_ACTIVE \<and> ?i \<noteq> TM_INITIAL) = False" using True by simp
        have "route_packet env now from op key_id sid buf m = do {
            s \<leftarrow> key_state_soft_reset (te_lib env) now (tm_opt m1) (session_at m1 ?i);
            Some (Some (?i, False, False), b, set_session ?i s m1) }"
          unfolding route_packet_def Let_def nt if_False using lt same reset m1 ok by simp
        with run have "do {
            s \<leftarrow> key_state_soft_reset (te_lib env) now (tm_opt m1) (session_at m1 ?i);
            Some (Some (?i, False, False), b, set_session ?i s m1) } = Some (route, buf', m')" by simp
        then obtain s where s: "key_state_soft_reset (te_lib env) now (tm_opt m1) (session_at m1 ?i) = Some s"
          and m': "m' = set_session ?i s m1" "route = Some (?i, False, False)"
          by (auto simp: bind_eq_Some_conv)
        have "session_inv s"
          by (rule key_state_soft_reset_inv(1) [OF s session_at_inv [OF i(1) lt(1)] inv(2)]) (simp add: i(2) win)
        then show ?thesis using i lt by (simp add: m' set_session_inv)
      next
        case False
        then have "m' = m1" "route = None"
          using run True lt same reset m1 unfolding route_packet_def Let_def by (auto split: if_splits)
        then show ?thesis using i by simp
      qed
    next
      case other
      define initial where "initial = (ks_state ?ks = S_PRE_START_SKIP)"
      define m0 where "m0 = (if initial then set_session ?i (?s\<lparr>ts_primary := ?ks\<lparr>ks_state := S_PRE_START\<rparr>\<rparr>) m else m)"
      have "session_inv (?s\<lparr>ts_primary := ?ks\<lparr>ks_state := S_PRE_START\<rparr>\<rparr>)" if "ks_state ?ks = S_PRE_START_SKIP"
        using session_at_inv [OF inv(1) lt(1)] that by (simp add: session_inv_def key_inv_def) (simp add: S_defs)
      then have i0: "multi_inv m0" using inv(1) by (simp add: m0_def initial_def set_session_inv)
      obtain ok b m1 where m1: "session_read_control_auth env now ?i key_id initial buf m0 = Some (ok, b, m1)"
        and r: "(route, buf', m') = (if ok then (Some (?i, op = P_CONTROL_SOFT_RESET_V1, False), b, m1)
            else (None, b, if initial then m1\<lparr>tm_n_hard_errors := tm_n_hard_errors m1 + 1\<rparr> else m1))"
        using run True lt same other unfolding route_packet_def Let_def m0_def initial_def
        by (auto simp: bind_eq_Some_conv split: if_splits)
      note i = session_read_control_auth_inv [OF m1 i0 lt(1)]
      then show ?thesis using r lt by (auto simp: multi_inv_def split: if_splits)
    qed
  qed
  then show "multi_inv m'" "route = Some (i, burst, new) \<Longrightarrow> i < TM_SIZE" by auto
qed

lemma accept_packet_inv:
  assumes run: "accept_packet now from op key_id sid (i, burst, new) buf m = Some (ok, m')" and inv: "multi_inv m"
    and i: "i < TM_SIZE" and "from": "from \<noteq> NoAddr"
  shows "multi_inv m'"
proof -
  let ?s = "session_at m i" and ?ks = "ts_primary (session_at m i)"
  have st: "ks_state ?ks \<noteq> S_UNDEF" using run by (auto simp: accept_packet_def Let_def bind_eq_Some_conv)
  obtain same where same: "(if new then Some True else link_socket_actual_match (ks_remote_addr ?ks) from) = Some same"
    using run unfolding accept_packet_def Let_def by (auto simp: bind_eq_Some_conv)
  show ?thesis
  proof (cases same)
    case False
    then have "m' = m" using run same unfolding accept_packet_def Let_def by (auto simp: bind_eq_Some_conv)
    then show ?thesis using inv by simp
  next
    case True
    define ks where "ks = (if new then ?ks\<lparr>ks_session_id_remote := sid, ks_remote_addr := from\<rparr> else ?ks)"
    define m0 where "m0 = (if new then m\<lparr>tm_n_sessions := tm_n_sessions m + 1\<rparr> else m)"
    define s where "s = (if burst \<and> \<not> ts_burst ?s
         then ?s\<lparr>ts_burst := True, ts_primary := ks\<lparr>ks_send_reliable := reliable_schedule_now now (ks_send_reliable ks)\<rparr>\<rparr>
         else ?s\<lparr>ts_primary := ks\<rparr>)"
    obtain s' where s': "receive_payload now op key_id buf s = Some (ok, s')" "m' = set_session i s' m0"
      using run same True unfolding accept_packet_def Let_def s_def ks_def m0_def
      by (auto simp: bind_eq_Some_conv split: if_splits)
    have "session_inv s" using session_at_inv [OF inv i] "from" st schedule_now_wf
      by (auto simp: s_def ks_def session_inv_def key_inv_def)
    moreover have "ks_state (ts_primary s) \<noteq> S_UNDEF" using st by (simp add: s_def ks_def)
    ultimately have "session_inv s'" by (rule receive_payload_inv [OF s'(1)])
    moreover have "multi_inv m0" using inv by (simp add: m0_def multi_inv_def)
    ultimately show ?thesis by (simp add: s'(2) set_session_inv)
  qed
qed

lemma control_packet_inv:
  assumes run: "control_packet env now from c buf m = Some (ret, m')" and inv: "multi_inv m" "0 < now" "from \<noteq> NoAddr"
  shows "multi_inv m'"
proof (cases "\<exists>m1 sid route buf1. route_packet env now from (opcode_of c) (key_id_of c) sid buf m = Some (route, buf1, m1) \<and>
    (case route of None \<Rightarrow> m' = soft_error m1 | Some route \<Rightarrow> \<exists>ok m2. accept_packet now from (opcode_of c) (key_id_of c) sid route buf1 m1
      = Some (ok, m2) \<and> m' = (if ok then m2 else soft_error m2))")
  case True
  then obtain m1 sid route buf1 where r: "route_packet env now from (opcode_of c) (key_id_of c) sid buf m = Some (route, buf1, m1)"
    and a: "case route of None \<Rightarrow> m' = soft_error m1 | Some route \<Rightarrow> \<exists>ok m2. accept_packet now from (opcode_of c) (key_id_of c) sid route buf1 m1
      = Some (ok, m2) \<and> m' = (if ok then m2 else soft_error m2)" by blast
  note i = route_packet_inv [OF r inv(1,2)]
  show ?thesis
  proof (cases route)
    case (Some x)
    obtain k burst new where x: "x = (k, burst, new)" by (rule prod_cases3)
    obtain ok m2 where m2: "accept_packet now from (opcode_of c) (key_id_of c) sid (k, burst, new) buf1 m1 = Some (ok, m2)"
      "m' = (if ok then m2 else soft_error m2)" using a Some x by auto
    have "multi_inv m2" by (rule accept_packet_inv [OF m2(1) i(1) i(2) inv(3)]) (simp add: Some x)
    then show ?thesis using m2(2) by (simp add: soft_error_inv)
  qed (use a i in \<open>simp add: soft_error_inv\<close>)
next
  case False
  then have "m' = soft_error m"
    using run unfolding control_packet_def
    by (fastforce simp: bind_eq_Some_conv split: if_splits prod.splits bool.splits option.splits)
  then show ?thesis using inv by (simp add: soft_error_inv)
qed

lemma tls_pre_decrypt_inv:
  assumes "tls_pre_decrypt env now m from buf floated = Some (ret, key, ad, buf', m')" "multi_inv m" "0 < now" "from \<noteq> NoAddr"
  shows "multi_inv m'"
  using assms
  by (auto simp: tls_pre_decrypt_def bind_eq_Some_conv split: if_splits intro: control_packet_inv handle_data_channel_packet_inv)

end
