(* ===== verification/TlsTunnel.thy ===== *)
theory TlsTunnel
  imports TlsReachable
begin

text \<open>
  A tunnel over its whole life: what is done to it after \<open>tls_multi_init_finalize\<close>, in any order, is the step
  relation \<open>tls_step\<close>, and the tunnels it leads to are \<open>tunnel_reachable\<close>. They satisfy the invariant of
  \<open>TlsInvariant\<close>, and so the data channel only gets keys that are there.
\<close>

section \<open>Outgoing data packets and payload\<close>

lemma multi_inv_save [simp]: "multi_inv (m\<lparr>tm_save_ks := x\<rparr>) = multi_inv m"
  by (simp add: multi_inv_def)

lemma tls_pre_encrypt_inv: "tls_pre_encrypt now m buf = Some (key, buf', m') \<Longrightarrow> multi_inv m \<Longrightarrow> multi_inv m'"
  by (auto simp: tls_pre_encrypt_def Let_def bind_eq_Some_conv split: if_splits option.splits)

lemma get_key_scan_save [simp]: "get_key_scan (m\<lparr>tm_save_ks := x\<rparr>) i = get_key_scan m i"
  by (simp add: get_key_scan_def)

text \<open>Writing back a key in which only counters, buffers or the TLS object have changed.\<close>

lemma set_key_scan_same:
  assumes "multi_inv m" "get_key_scan m i = Some old" "ks_state ks = ks_state old"
    "co_initialized (ks_crypto_options ks) = co_initialized (ks_crypto_options old)"
    "ks_session_id_remote ks = ks_session_id_remote old" "ks_remote_addr ks = ks_remote_addr old"
    "ks_send_reliable ks = ks_send_reliable old" "ks_rec_reliable ks = ks_rec_reliable old"
    "ks_must_die ks = ks_must_die old"
  shows "multi_inv (set_key_scan i ks m)"
  using get_key_scan_inv [OF assms(1,2)] assms(3-9)
  by (intro set_key_scan_inv [OF assms(1,2)]) (simp_all add: key_inv_def)

lemma tls_post_encrypt_inv:
  assumes "tls_post_encrypt m buf = Some m'" "multi_inv m"
  shows "multi_inv m'"
proof (cases "b_len buf > 0")
  case True
  then obtain i ks where "get_key_scan m i = Some ks"
    "m' = set_key_scan i (ks\<lparr>ks_n_packets := ks_n_packets ks + 1, ks_n_bytes := ks_n_bytes ks + b_len buf\<rparr>) (m\<lparr>tm_save_ks := None\<rparr>)"
    using assms(1) by (auto simp: tls_post_encrypt_def saved_key_def bind_eq_Some_conv)
  with assms(2) show ?thesis by (auto intro!: set_key_scan_same [of "m\<lparr>tm_save_ks := None\<rparr>" i ks])
qed (use assms in \<open>auto simp: tls_post_encrypt_def\<close>)

lemma tls_send_payload_inv:
  assumes "get_key_scan m 0 = Some ks" "tls_send_payload lib ks data = Some (ok, ks')" "multi_inv m"
  shows "multi_inv (set_key_scan 0 ks' m)"
proof -
  have "\<exists>tls paybuf. ks' = ks\<lparr>ks_tls := tls, ks_paybuf := paybuf\<rparr>"
  proof (cases "ks_state ks \<ge> S_ACTIVE")
    case True
    obtain tls where tls: "ks_tls ks = Some tls" using assms(2) True by (auto simp: tls_send_payload_def bind_eq_Some_conv)
    obtain ret tls' where "key_state_write_plaintext_const lib tls data = (ret, tls')" by (rule prod.exhaust)
    then have "ks' = ks\<lparr>ks_tls := Some tls', ks_paybuf := ks_paybuf ks\<rparr>"
      using assms(2) True tls by (auto simp: tls_send_payload_def)
    then show ?thesis by blast
  next
    case False
    then have "ks' = ks\<lparr>ks_tls := ks_tls ks, ks_paybuf := ks_paybuf ks @ [data]\<rparr>" using assms(2) by (auto simp: tls_send_payload_def)
    then show ?thesis by blast
  qed
  then obtain tls paybuf where "ks' = ks\<lparr>ks_tls := tls, ks_paybuf := paybuf\<rparr>" by blast
  then show ?thesis by (simp add: set_key_scan_same [OF assms(3,1)])
qed

lemma tls_rec_payload_inv:
  assumes "tls_rec_payload m buf = Some (ok, buf', m')" "multi_inv m"
  shows "multi_inv m'"
proof -
  obtain ks where ks: "get_key_scan m 0 = Some ks"
    using assms(1) by (auto simp: tls_rec_payload_def bind_eq_Some_conv)
  have "m' = m \<or> m' = set_key_scan 0 (ks\<lparr>ks_plaintext_read_buf := (ks_plaintext_read_buf ks)\<lparr>b_len := 0\<rparr>\<rparr>) m"
    using assms(1) ks by (cases "buf_copy buf (ks_plaintext_read_buf ks)") (auto simp: tls_rec_payload_def split: if_splits)
  then show ?thesis using assms(2) by (elim disjE) (simp_all add: set_key_scan_same [OF assms(2) ks])
qed

section \<open>Sessions and addresses\<close>

lemma tls_session_soft_reset_inv:
  assumes "tls_session_soft_reset lib now m = Some m'" "multi_inv m" "0 < now"
  shows "multi_inv m'"
proof -
  obtain s where s: "key_state_soft_reset lib now (tm_opt m) (session_at m TM_ACTIVE) = Some s" "m' = set_session TM_ACTIVE s m"
    using assms(1) by (auto simp: tls_session_soft_reset_def bind_eq_Some_conv)
  have "session_inv s"
    using key_state_soft_reset_inv(1) [OF s(1) session_at_inv assms(3)] assms(2) by (simp add: multi_inv_def)
  then show ?thesis using assms(2) by (simp add: s(2) set_session_inv)
qed

lemma update_addr_inv:
  assumes "update_addr addr ks = Some ks'" "addr \<noteq> NoAddr"
  shows "key_inv ks \<Longrightarrow> key_inv ks'" "lame_inv ks \<Longrightarrow> lame_inv ks'"
proof -
  have "ks' = ks \<or> ks' = ks\<lparr>ks_remote_addr := addr\<rparr>"
    using assms(1) by (auto simp: update_addr_def bind_eq_Some_conv split: if_splits)
  then show "key_inv ks \<Longrightarrow> key_inv ks'" "lame_inv ks \<Longrightarrow> lame_inv ks'"
    using assms(2) by (elim disjE; simp add: key_inv_def lame_inv_def)+
qed

lemma update_addrs_inv:
  assumes "update_addrs addr is m = Some m'" "multi_inv m" "addr \<noteq> NoAddr" "\<forall>i \<in> set is. i < TM_SIZE"
  shows "multi_inv m'"
  using assms
proof (induction "is" arbitrary: m)
  case (Cons i "is")
  let ?s = "session_at m i"
  obtain primary lame where u: "update_addr addr (ts_primary ?s) = Some primary" "update_addr addr (ts_lame_duck ?s) = Some lame"
    "update_addrs addr is (set_session i (?s\<lparr>ts_primary := primary, ts_lame_duck := lame\<rparr>) m) = Some m'"
    using Cons.prems(1) by (auto simp: bind_eq_Some_conv Let_def)
  have "session_inv ?s" using Cons.prems by (simp add: session_at_inv)
  then have "session_inv (?s\<lparr>ts_primary := primary, ts_lame_duck := lame\<rparr>)"
    using update_addr_inv [OF u(1) Cons.prems(3)] update_addr_inv [OF u(2) Cons.prems(3)] by (simp add: session_inv_def)
  then show ?case using Cons.IH [OF u(3)] Cons.prems by (simp add: set_session_inv)
qed simp

lemma tls_update_remote_addr_inv:
  "tls_update_remote_addr m addr = Some m' \<Longrightarrow> multi_inv m \<Longrightarrow> addr \<noteq> NoAddr \<Longrightarrow> multi_inv m'"
  unfolding tls_update_remote_addr_def by (rule update_addrs_inv) auto

lemma session_move_pre_start_wf:
  assumes "session_move_pre_start now opt ks skip = Some (ok, ks')" "rel_wf (ks_send_reliable ks)"
  shows "rel_wf (ks_send_reliable ks') \<and> ks_rec_reliable ks' = ks_rec_reliable ks \<and> ks_remote_addr ks' = ks_remote_addr ks \<and>
    (ks_state ks' = ks_state ks \<or> ks_state ks' = S_PRE_START_SKIP \<or> ks_state ks' = S_PRE_START)"
proof -
  obtain i send where g: "reliable_get_buf_output_sequenced (ks_send_reliable ks) = Some (i, send)"
    using assms(1) by (auto simp: session_move_pre_start_def bind_eq_Some_conv)
  have wf: "rel_wf send" using same_active_wf [OF get_buf_output(1) [OF g]] assms(2) by simp
  show ?thesis
  proof (cases i)
    case None
    then show ?thesis using assms(1) g wf by (auto simp: session_move_pre_start_def)
  next
    case (Some k)
    then obtain send' where m: "reliable_mark_active_outgoing send k (ks_initial_opcode ks) = Some send'"
      using assms(1) g by (auto simp: session_move_pre_start_def bind_eq_Some_conv)
    note wf' = mark_active_outgoing(1) [OF m wf]
    show ?thesis using assms(1) g Some m wf' mark_deleted(1) [of send']
      by (cases skip) (auto simp: session_move_pre_start_def bind_eq_Some_conv)
  qed
qed

lemma session_skip_to_pre_start_inv:
  assumes "session_skip_to_pre_start now opt s state from = Some (ok, s')" "session_inv s"
    "ks_state (ts_primary s) = S_INITIAL" "from \<noteq> NoAddr"
  shows "session_inv s'"
proof -
  let ?ks = "(ts_primary s)\<lparr>ks_session_id_remote := pd_peer_sid state, ks_remote_addr := from,
    ks_rec_reliable := (ks_rec_reliable (ts_primary s))\<lparr>rl_packet_id := 1\<rparr>\<rparr>"
  obtain ks where ks: "session_move_pre_start now opt ?ks True = Some (ok, ks)"
    and s': "ts_primary s' = ks" "ts_lame_duck s' = ts_lame_duck s"
    using assms(1) by (auto simp: session_skip_to_pre_start_def bind_eq_Some_conv Let_def)
  have "rel_wf (ks_send_reliable ?ks)" "rel_wf (ks_rec_reliable ?ks)"
    using assms(2,3) by (simp_all add: session_inv_def key_inv_def rel_wf_def)
  then show ?thesis using session_move_pre_start_wf [OF ks] assms
    by (auto simp: session_inv_def key_inv_def s' S_defs)
qed

section \<open>Reachable tunnels\<close>

text \<open>\<open>crypto\<close> is the data channel at work with a key, \<open>verified\<close> the result of the certificate verification
  that the TLS library calls, \<open>connect\<close> what the connection handling of a server or client does to the
  status and the peer id.\<close>

inductive tls_step :: "'tls tls_env \<Rightarrow> 'tls tls_multi \<Rightarrow> 'tls tls_multi \<Rightarrow> bool" for env :: "'tls tls_env" where
  process: "0 < now \<Longrightarrow> tls_multi_process env now m lsi to_link addr wakeup = Some (busy, p) \<Longrightarrow> tls_step env m (mr_multi p)"
| receive: "0 < now \<Longrightarrow> from \<noteq> NoAddr \<Longrightarrow> tls_pre_decrypt env now m from buf floated = Some (ret, key, ad, buf', m') \<Longrightarrow>
    tls_step env m m'"
| encrypt: "tls_pre_encrypt now m buf = Some (key, buf', m') \<Longrightarrow> tls_step env m m'"
| encrypted: "tls_post_encrypt m buf = Some m' \<Longrightarrow> tls_step env m m'"
| soft_reset: "0 < now \<Longrightarrow> tls_session_soft_reset (te_lib env) now m = Some m' \<Longrightarrow> tls_step env m m'"
| send: "get_key_scan m 0 = Some ks \<Longrightarrow> tls_send_payload (te_lib env) ks data = Some (ok, ks') \<Longrightarrow>
    tls_step env m (set_key_scan 0 ks' m)"
| read: "tls_rec_payload m buf = Some (ok, buf', m') \<Longrightarrow> tls_step env m m'"
| float: "addr \<noteq> NoAddr \<Longrightarrow> tls_update_remote_addr m addr = Some m' \<Longrightarrow> tls_step env m m'"
| skip: "from \<noteq> NoAddr \<Longrightarrow> ks_state (ts_primary (session_at m TM_INITIAL)) = S_INITIAL \<Longrightarrow>
    session_skip_to_pre_start now (tm_opt m) (session_at m TM_INITIAL) state from = Some (ok, s) \<Longrightarrow>
    tls_step env m (set_session TM_INITIAL s (m\<lparr>tm_n_sessions := tm_n_sessions m + 1\<rparr>))"
| crypto: "get_key_scan m i = Some ks \<Longrightarrow> co_initialized co = co_initialized (ks_crypto_options ks) \<Longrightarrow>
    tls_step env m (set_key_scan i (ks\<lparr>ks_crypto_options := co\<rparr>) m)"
| verified: "i < TM_SIZE \<Longrightarrow> tls_step env m (set_session i ((session_at m i)\<lparr>ts_verified := result\<rparr>) m)"
| connect: "tls_step env m (m\<lparr>tm_multi_state := status, tm_peer_id := peer\<rparr>)"

definition tunnel_start :: "'tls tls_env \<Rightarrow> int \<Rightarrow> int \<Rightarrow> tls_options \<Rightarrow> session_id list \<Rightarrow> 'tls tls_multi option" where
  "tunnel_start env now mtu opt sids = tls_multi_init_finalize (te_lib env) now mtu (tls_multi_init opt sids)"

definition tunnel_reachable :: "'tls tls_env \<Rightarrow> 'tls tls_multi \<Rightarrow> bool" where
  "tunnel_reachable env m \<longleftrightarrow> (\<exists>now mtu opt sids m0. 0 \<le> to_transition_window opt \<and>
     tunnel_start env now mtu opt sids = Some m0 \<and> (tls_step env)\<^sup>*\<^sup>* m0 m)"

lemma tunnel_start_inv:
  assumes "tunnel_start env now mtu opt sids = Some m" "0 \<le> to_transition_window opt"
  shows "multi_inv m"
proof -
  let ?m = "(tls_multi_init opt sids)\<lparr>tm_opt := opt\<lparr>to_frame := tls_init_control_channel_frame_parameters (to_frame opt) mtu\<rparr>\<rparr>"
  have start: "multi_inv (?m\<lparr>tm_sids := x\<rparr>)" for x
    using assms(2) by (auto simp: multi_inv_def tls_multi_init_def)
  obtain a i x y where "tls_session_init (te_lib env) now (tm_opt ?m) (tm_sids ?m) = Some (a, x)"
    "tls_session_init (te_lib env) now (tm_opt ?m) x = Some (i, y)"
    "m = set_session TM_INITIAL i (set_session TM_ACTIVE a (?m\<lparr>tm_sids := y\<rparr>))"
    using assms(1) by (auto simp: tunnel_start_def tls_multi_init_finalize_def Let_def bind_eq_Some_conv tls_multi_init_def)
  then show ?thesis using start by (auto intro!: set_session_inv intro: tls_session_init_inv)
qed

lemma tls_step_inv: "tls_step env m m' \<Longrightarrow> multi_inv m \<Longrightarrow> multi_inv m'"
proof (induction rule: tls_step.induct)
  case process
  then show ?case by (blast intro: tls_multi_process_inv)
next
  case receive
  then show ?case by (blast intro: tls_pre_decrypt_inv)
next
  case encrypt
  then show ?case by (blast intro: tls_pre_encrypt_inv)
next
  case encrypted
  then show ?case by (blast intro: tls_post_encrypt_inv)
next
  case soft_reset
  then show ?case by (blast intro: tls_session_soft_reset_inv)
next
  case send
  then show ?case by (blast intro: tls_send_payload_inv)
next
  case read
  then show ?case by (blast intro: tls_rec_payload_inv)
next
  case float
  then show ?case by (blast intro: tls_update_remote_addr_inv)
next
  case (skip "from" m now state ok s)
  then have "session_inv s" by (blast intro: session_skip_to_pre_start_inv session_at_inv session_less)
  moreover have "multi_inv (m\<lparr>tm_n_sessions := tm_n_sessions m + 1\<rparr>)" using skip.prems by (simp add: multi_inv_def)
  ultimately show ?case by (rule set_session_inv [rotated])
next
  case (crypto m i ks co)
  then show ?case by (auto intro!: set_key_scan_same [of m i ks])
next
  case (verified i m result)
  then have "session_inv ((session_at m i)\<lparr>ts_verified := result\<rparr>)" using session_at_inv by (auto simp: session_inv_def)
  with verified show ?case by (blast intro: set_session_inv)
next
  case connect
  then show ?case by (simp add: multi_inv_def)
qed

lemma tunnel_reachable_inv:
  assumes "tunnel_reachable env m"
  shows "multi_inv m"
proof -
  obtain now mtu opt sids m0 where start: "0 \<le> to_transition_window opt" "tunnel_start env now mtu opt sids = Some m0"
    and steps: "(tls_step env)\<^sup>*\<^sup>* m0 m" using assms by (auto simp: tunnel_reachable_def)
  from steps show ?thesis
    by (induction rule: rtranclp_induct) (auto intro: tls_step_inv tunnel_start_inv [OF start(2,1)])
qed

section \<open>The choice of a key\<close>

lemma get_key_scan_some: "i < KEY_SCAN_SIZE \<Longrightarrow> \<exists>ks. get_key_scan m i = Some ks"
  using get_key_scan_less by blast

lemma data_key_initialized: "multi_inv m \<Longrightarrow> get_key_scan m i = Some ks \<Longrightarrow> data_key ks \<Longrightarrow> co_initialized (ks_crypto_options ks)"
  using get_key_scan_inv by (auto simp: key_inv_def data_key_def)

lemma select_key_eq:
  assumes "multi_inv m" "\<forall>i \<in> set is. i < KEY_SCAN_SIZE"
  shows "select_key now m is sel =
    (let ready = filter (\<lambda>i. data_key (the (get_key_scan m i))) is in
     Some (case find (\<lambda>i. ks_auth_deferred_expire (the (get_key_scan m i)) \<le> now) ready of
        Some i \<Rightarrow> Some i
      | None \<Rightarrow> if sel = None then (case ready of [] \<Rightarrow> None | i # _ \<Rightarrow> Some i) else sel))"
  using assms(2)
proof (induction "is" arbitrary: sel)
  case (Cons i "is")
  obtain ks where ks: "get_key_scan m i = Some ks" using get_key_scan_some [of i m] Cons.prems by auto
  then show ?case using Cons data_key_initialized [OF assms(1) ks] by (auto simp: Let_def split: option.splits list.splits)
qed (auto split: option.splits)

lemma find_data_key_some:
  assumes "find_data_key m from floated key_id is = Some (Some i)"
  shows "\<exists>ks. get_key_scan m i = Some ks \<and> data_key ks \<and> ks_key_id ks = key_id \<and>
    (floated \<or> link_socket_actual_match from (ks_remote_addr ks) = Some True)"
  using assms by (induction "is") (auto simp: bind_eq_Some_conv split: if_splits)

end
