(* ===== verification/TlsProps.thy ===== *)
theory TlsProps
  imports TlsTunnel
begin

text \<open>
  Properties of the TLS session layer: \<open>tls_process\<close> follows the handshake machine and its loop ends, the
  data channel of every reachable tunnel only gets keys that are there, and a new key does not interrupt
  the traffic.
\<close>

section \<open>Fuel\<close>

lemma process_loop_more:
  "process_loop n env now r = Some x \<Longrightarrow> n \<le> k \<Longrightarrow> process_loop k env now r = Some x"
proof (induction n arbitrary: r k)
  case (Suc n)
  then obtain k' where k: "k = Suc k'" by (cases k) auto
  with Suc show ?case by (auto split: option.splits prod.splits if_splits)
qed simp

lemma count_entries_le: "rel_wf rel \<Longrightarrow> count_entries P rel \<le> RELIABLE_CAPACITY"
  by (auto simp: count_entries_def entries_def rel_wf_def intro: le_trans [OF length_filter_le])

lemma state_rank_le: "state_rank server st \<le> 7"
  by (simp add: state_rank_def)

lemma process_bound_le: "run_wf r \<Longrightarrow> process_bound r \<le> 23 + 2 * RELIABLE_CAPACITY"
  using count_entries_le [of "ks_rec_reliable (run_ks r)" e_active]
    count_entries_le [of "ks_send_reliable (run_ks r)" "\<lambda>e. \<not> e_active e"]
    state_rank_le [of "to_server (run_opt r)" "ks_state (run_ks r)"]
    of_bool_le_1 [of "b_len (ks_plaintext_write_buf (run_ks r)) \<noteq> 0"]
    of_bool_le_1 [of "b_len (ks_plaintext_read_buf (run_ks r)) = 0"]
  unfolding process_bound_def run_wf_def Let_def by linarith

section \<open>A sample tunnel\<close>

definition sample_env :: "unit tls_env" where
  "sample_env = \<lparr>te_lib = \<lparr>tl_new = (\<lambda>_. ()), tl_BIO_write = (\<lambda>_ tls data. (int (length data), False, tls)),
       tl_BIO_read = (\<lambda>_ tls n. (Inl True, tls)), tl_shutdown = (\<lambda>tls. tls)\<rparr>,
     te_ce = \<lparr>ce_hm = (\<lambda>_ _. []), ce_aead = (\<lambda>_. True),
       ce_al = \<lparr>al_iv_length = (\<lambda>_. 12), al_block_size = (\<lambda>_. 1), al_enc_update = (\<lambda>_ _ _ d. d), al_enc_final = (\<lambda>_ _ _ _. []),
         al_get_tag = (\<lambda>_ _ _ _. replicate 16 0), al_dec_update = (\<lambda>_ _ _ d. Some d), al_dec_final = (\<lambda>_ _ _ _ _. Some [])\<rparr>,
       ce_cl = \<lparr>cl_mode = (\<lambda>_. MODE_CBC), cl_iv_length = (\<lambda>_. 16), cl_block_size = (\<lambda>_. 16), cl_enc_update = (\<lambda>_ _ d. d),
         cl_enc_final = (\<lambda>_ _ _. []), cl_dec_update = (\<lambda>_ _ d. Some d), cl_dec_final = (\<lambda>_ _ _. Some []),
         cl_hmac_size = (\<lambda>_. 20), cl_hmac = (\<lambda>_ _. replicate 20 0)\<rparr>,
       ce_prng = []\<rparr>,
     te_rnd = (\<lambda>_ _. cleared_source), te_prf = (\<lambda>_ _ n. Some (replicate n 0)), te_export = (\<lambda>_. None),
     te_match_proto = (=), te_deferred = (\<lambda>_ _. []), te_verify_v2 = None, te_buf_used = (\<lambda>_ _. False)\<rparr>"

definition sample_tls_options :: tls_options where
  "sample_tls_options = \<lparr>to_server = False, to_mode_server = False, to_single_session = False, to_xmit_hold = False,
     to_tls_crypt_v2 = False, to_transition_window = 3600, to_handshake_window = 60, to_packet_timeout = 2,
     to_renegotiate_bytes = 0, to_renegotiate_packets = 0, to_renegotiate_seconds = 3600, to_aead_usage_limit = 0,
     to_cipher_insecure = False, to_cipher_aead_limit = 0, to_replay_window = 64, to_replay_time = 15,
     to_frame = \<lparr>fr_payload_size = 16, fr_headroom = 0, fr_tailroom = 0, fr_mss_fix = 0, fr_max_fragment_size = 0,
       fr_tun_mtu = 16, fr_tun_max_mtu = 0, fr_extra_tun = 0\<rparr>,
     to_tls_wrap = cleared_tls_wrap,
     to_pid_persist = \<lparr>pp_filename = None, pp_fd = 0, pp_time = 0, pp_id = 0, pp_time_last_written = 0, pp_id_last_written = 0\<rparr>,
     to_key_type = \<lparr>kt_key_size = 32, kt_iv_size = 12\<rparr>, to_epoch_format = False, to_long_form = False, to_use_export = False,
     to_local_options = [86, 52], to_credentials = None, to_peer_info = None,
     to_auth = \<lparr>ao_server = False, ao_remote_options = [86, 52], ao_opt_verify = False, ao_user_pass_optional = False,
       ao_user_pass_enabled = False, ao_verified = True, ao_verify_user_pass = (\<lambda>_ _. KS_AUTH_TRUE),
       ao_final_auth_checks = (\<lambda>a. a), ao_plugin_final = None\<rparr>\<rparr>"

definition sample_tls_rel :: reliable where
  "sample_tls_rel = \<lparr>rl_size = 1, rl_initial_timeout = 2, rl_packet_id = 0, rl_offset = 4, rl_hold = False,
     rl_array = replicate RELIABLE_CAPACITY (Reliable.cleared_entry\<lparr>e_buf := \<lparr>b_capacity = 8, b_offset = 4, b_len = 0,
       b_data = Some (replicate 8 0)\<rparr>\<rparr>)\<rparr>"

definition sample_key :: "int \<Rightarrow> unit key_state" where
  "sample_key st = cleared_key_state\<lparr>ks_state := st, ks_tls := Some (), ks_remote_addr := Addr4 [10, 0, 0, 1],
     ks_plaintext_read_buf := \<lparr>b_capacity = 8, b_offset = 0, b_len = 0, b_data = Some (replicate 8 0)\<rparr>,
     ks_plaintext_write_buf := \<lparr>b_capacity = 8, b_offset = 0, b_len = 0, b_data = Some (replicate 8 0)\<rparr>,
     ks_send_reliable := sample_tls_rel, ks_rec_reliable := sample_tls_rel, ks_authenticated := KS_AUTH_TRUE,
     ks_crypto_options := cleared_crypto_options\<lparr>co_initialized := True\<rparr>\<rparr>"

definition sample_session :: "int \<Rightarrow> unit tls_session" where
  "sample_session st = cleared_session\<lparr>ts_session_id := replicate SID_SIZE 7, ts_primary := sample_key st\<rparr>"

definition sample_tunnel :: "int \<Rightarrow> unit tls_multi" where
  "sample_tunnel st = set_session TM_ACTIVE (sample_session st) (tls_multi_init sample_tls_options [])"

definition sample_run :: "unit tls_run" where
  "sample_run = \<lparr>tr_multi = sample_tunnel S_INITIAL, tr_session = sample_session S_INITIAL,
     tr_lsi = \<lparr>li_actual = NoAddr, li_remote_list = None, li_connection_established = False, li_remote_float = True\<rparr>,
     tr_to_link = \<lparr>b_capacity = 1, b_offset = 0, b_len = 1, b_data = Some [0]\<rparr>, tr_to_link_addr = None, tr_wakeup = 3600,
     tr_continue = False\<rparr>"



lemma sample_starts:
  "map_option (\<lambda>(busy, r). (busy, hs_of (run_ks r))) (tls_process sample_env 100 sample_run) = Some (True, S_PRE_START, True)"
  by code_simp

lemma sample_inv: "session_inv (sample_session st)"
  by (auto simp: session_inv_def sample_session_def sample_key_def cleared_session_def key_inv_def rel_wf_def sample_tls_rel_def
      RELIABLE_CAPACITY_def)

lemma sample_tunnel_inv: "multi_inv (sample_tunnel st)"
  unfolding sample_tunnel_def
  by (intro set_session_inv sample_inv) (auto simp: multi_inv_def tls_multi_init_def sample_tls_options_def)

lemma sample_run_wf: "run_wf sample_run"
  by (simp add: run_wf_def sample_run_def sample_session_def sample_key_def rel_wf_def sample_tls_rel_def RELIABLE_CAPACITY_def)

lemma sample_run_simps: "session_inv (tr_session sample_run)" "to_transition_window (run_opt sample_run) = 3600"
  "ks_state (run_ks sample_run) = S_INITIAL" "to_server (run_opt sample_run) = False"
  "hs_of (run_ks sample_run) = (S_INITIAL, False)"
  by (simp_all add: sample_run_def sample_inv)
    (simp_all add: sample_tunnel_def tls_multi_init_def sample_tls_options_def sample_session_def sample_key_def hs_of_def
      reliable_empty_def first_entry_None sample_tls_rel_def RELIABLE_CAPACITY_def Reliable.cleared_entry_def)

section \<open>Properties\<close>

text \<open>
  C6: a call of \<open>tls_process\<close> takes the key of a session along the handshake machine: from
  state to state in the order of the protocol, without skipping one, from the client's or the server's side, to
  \<open>S_START\<close> and to \<open>S_ACTIVE\<close> only when the peer has acknowledged every control packet, and back to
  \<open>S_INITIAL\<close> only with keys generated. The invariant of the session holds again, and the other sessions
  and the options are left alone.
\<close>

theorem tls_process_refines_handshake:
  assumes "tls_process env now r = Some (busy, r')" "session_inv (tr_session r)" "0 < now"
    "0 \<le> to_transition_window (run_opt r)" "S_ERROR_PRE \<le> ks_state (run_ks r)"
  shows "(handshake (to_server (run_opt r)))\<^sup>*\<^sup>* (hs_of (run_ks r)) (hs_of (run_ks r')) \<and> session_inv (tr_session r') \<and>
    run_opt r' = run_opt r \<and> tm_sessions (tr_multi r') = tm_sessions (tr_multi r)"
proof -
  have "ks_state (run_ks r) \<noteq> S_UNDEF"
    using assms(1) by (auto simp: tls_process_def bind_eq_Some_conv)
  then have "run_wf r" using assms(2) by (simp add: run_wf_def session_inv_def key_inv_def)
  from tls_process_moves [OF assms(1) this assms(2-5)] show ?thesis by simp
qed

theorem tls_process_refines_handshake_witness:
  "\<exists>r'. tls_process sample_env 100 sample_run = Some (True, r') \<and> hs_of (run_ks r') = (S_PRE_START, True) \<and>
    (handshake False)\<^sup>*\<^sup>* (S_INITIAL, False) (S_PRE_START, True)"
proof -
  obtain r' where r': "tls_process sample_env 100 sample_run = Some (True, r')" "hs_of (run_ks r') = (S_PRE_START, True)"
    using sample_starts by auto
  have "S_ERROR_PRE \<le> S_INITIAL" by (simp add: S_defs)
  with tls_process_refines_handshake [OF r'(1)] r' show ?thesis by (simp add: sample_run_simps)
qed

text \<open>
  C8: the loop of \<open>tls_process\<close>, which goes on as long as \<open>tls_process_state\<close> asks for it, ends whatever
  the TLS library does, after at most \<open>process_bound\<close> and so at most 48 rounds: a round that asks for another one
  has moved the state on, taken in a packet, queued one, or filled or emptied a buffer.
\<close>

theorem tls_process_loop_ends:
  assumes "run_wf r" "S_ERROR_PRE \<le> ks_state (run_ks r)"
  shows "(\<exists>x. \<forall>n > process_bound r. process_loop n env now r = Some x) \<and> process_bound r \<le> 47"
proof -
  obtain x where x: "process_loop (Suc (process_bound r)) env now r = Some x"
    using process_loop_total [OF assms, of "Suc (process_bound r)"] by auto
  then have "\<forall>n > process_bound r. process_loop n env now r = Some x"
    using process_loop_more [OF x] by auto
  then show ?thesis using process_bound_le [OF assms(1)] by (auto simp: RELIABLE_CAPACITY_def)
qed

theorem tls_process_loop_ends_witness: "\<exists>x. process_loop 48 sample_env 100 sample_run = Some x"
proof -
  have "S_ERROR_PRE \<le> ks_state (run_ks sample_run)" by (simp add: sample_run_simps) (simp add: S_defs)
  from tls_process_loop_ends [OF sample_run_wf this, of sample_env 100] show ?thesis by force
qed

text \<open>
  C7: in a tunnel that any sequence of operations leads to, packets are encrypted with the first key whose
  authentication period is over, or else the first one that can be used, and all keys in question have
  been generated, so that the assertion does not fail; a packet from the network only gets a key that is authenticated and
  generated, has the key id of the packet and, unless the peer has floated, belongs to the sender's address; and the
  assertion that a retiring key has an expiration time never fails.
\<close>

theorem data_keys_safe:
  assumes "tunnel_reachable env m"
  shows "(let ready = filter (\<lambda>i. data_key (the (get_key_scan m i))) [0..<KEY_SCAN_SIZE] in
      tls_select_encryption_key now m =
        Some (case find (\<lambda>i. ks_auth_deferred_expire (the (get_key_scan m i)) \<le> now) ready of
          Some i \<Rightarrow> Some i
        | None \<Rightarrow> (case ready of [] \<Rightarrow> None | i # _ \<Rightarrow> Some i)) \<and>
      list_all (\<lambda>i. co_initialized (ks_crypto_options (the (get_key_scan m i)))) ready) \<and>
    (case handle_data_channel_packet m from buf floated of
       Some (Some i, _) \<Rightarrow> (\<exists>ks c. get_key_scan m i = Some ks \<and> first_byte buf = Some c \<and> data_key ks \<and>
         co_initialized (ks_crypto_options ks) \<and> ks_key_id ks = key_id_of c \<and>
         (floated \<or> link_socket_actual_match from (ks_remote_addr ks) = Some True))
     | _ \<Rightarrow> True) \<and>
    list_all (\<lambda>s. lame_duck_must_die now s wakeup \<noteq> None) (tm_sessions m)"
proof (intro conjI)
  have inv: "multi_inv m" by (rule tunnel_reachable_inv [OF assms])
  have "co_initialized (ks_crypto_options (the (get_key_scan m i)))"
    if "i < KEY_SCAN_SIZE" "data_key (the (get_key_scan m i))" for i
    using get_key_scan_some [OF that(1), of m] data_key_initialized [OF inv] that(2) by auto
  then show "let ready = filter (\<lambda>i. data_key (the (get_key_scan m i))) [0..<KEY_SCAN_SIZE] in
      tls_select_encryption_key now m =
        Some (case find (\<lambda>i. ks_auth_deferred_expire (the (get_key_scan m i)) \<le> now) ready of
          Some i \<Rightarrow> Some i
        | None \<Rightarrow> (case ready of [] \<Rightarrow> None | i # _ \<Rightarrow> Some i)) \<and>
      list_all (\<lambda>i. co_initialized (ks_crypto_options (the (get_key_scan m i)))) ready"
    unfolding tls_select_encryption_key_def Let_def
    by (subst select_key_eq [OF inv]) (auto simp: Let_def list_all_iff)
  show "list_all (\<lambda>s. lame_duck_must_die now s wakeup \<noteq> None) (tm_sessions m)"
    using inv lame_duck_not_aborts unfolding multi_inv_def list_all_iff by blast
  show "case handle_data_channel_packet m from buf floated of
       Some (Some i, _) \<Rightarrow> (\<exists>ks c. get_key_scan m i = Some ks \<and> first_byte buf = Some c \<and> data_key ks \<and>
         co_initialized (ks_crypto_options ks) \<and> ks_key_id ks = key_id_of c \<and>
         (floated \<or> link_socket_actual_match from (ks_remote_addr ks) = Some True))
     | _ \<Rightarrow> True"
  proof (cases "handle_data_channel_packet m from buf floated")
    case (Some x)
    obtain key ad buf' m' where x: "x = (key, ad, buf', m')" by (cases x)
    show ?thesis
    proof (cases key)
      case key: (Some i)
      from Some [unfolded x] show ?thesis
      proof (cases rule: handle_data_channel_packet_cases)
        case (found c j ks)
        then show ?thesis using Some x key find_data_key_some [OF found(3)] data_key_initialized [OF inv] by auto
      qed (use key in simp)
    qed (simp add: Some x)
  qed simp
qed

lemma sample_tunnel_start:
  "map_option (\<lambda>m. filter (\<lambda>i. data_key (the (get_key_scan m i))) [0..<KEY_SCAN_SIZE])
    (tunnel_start sample_env 100 16 sample_tls_options [replicate 8 1, replicate 8 2]) = Some []"
  by code_simp

theorem data_keys_safe_witness:
  "\<exists>m. tunnel_start sample_env 100 16 sample_tls_options [replicate 8 1, replicate 8 2] = Some m \<and>
    tls_select_encryption_key 100 m = Some None"
proof -
  obtain m where m: "tunnel_start sample_env 100 16 sample_tls_options [replicate 8 1, replicate 8 2] = Some m"
    "filter (\<lambda>i. data_key (the (get_key_scan m i))) [0..<KEY_SCAN_SIZE] = []"
    using sample_tunnel_start by blast
  have "0 \<le> to_transition_window sample_tls_options" by (simp add: sample_tls_options_def)
  then have "tunnel_reachable sample_env m" using m unfolding tunnel_reachable_def by blast
  with data_keys_safe [of sample_env m 100] m show ?thesis unfolding Let_def m(2) by simp
qed

text \<open>
  C19: a soft reset does not interrupt the data channel: the old key moves to the second place, is still
  the one that packets are encrypted with and that packets with its key id from the peer's address find, and dies
  exactly when the transition window is over, while the new key starts the handshake.
\<close>

theorem rekey_keeps_traffic:
  assumes "multi_inv m" "0 < now" "tls_session_soft_reset lib now m = Some m'" "data_key (get_primary_key m)"
    "ks_auth_deferred_expire (get_primary_key m) \<le> t" "ks_remote_addr (get_primary_key m) \<noteq> NoAddr"
  shows "get_key_scan m' 1 = Some ((get_primary_key m)\<lparr>ks_must_die := now + to_transition_window (tm_opt m)\<rparr>) \<and>
    ks_state (get_primary_key m') = S_INITIAL \<and>
    tls_select_encryption_key t m' = Some (Some 1) \<and>
    find_data_key m' (ks_remote_addr (get_primary_key m)) False (ks_key_id (get_primary_key m)) [0..<KEY_SCAN_SIZE] = Some (Some 1) \<and>
    map_option fst (lame_duck_must_die t (session_at m' TM_ACTIVE) wakeup) = Some (now + to_transition_window (tm_opt m) \<le> t)"
proof -
  let ?old = "(get_primary_key m)\<lparr>ks_must_die := now + to_transition_window (tm_opt m)\<rparr>"
  obtain s where s: "key_state_soft_reset lib now (tm_opt m) (session_at m TM_ACTIVE) = Some s" "m' = set_session TM_ACTIVE s m"
    using assms(3) by (auto simp: tls_session_soft_reset_def bind_eq_Some_conv)
  have inv: "multi_inv m'" by (rule tls_session_soft_reset_inv [OF assms(3,1,2)])
  have window: "0 \<le> to_transition_window (tm_opt m)" using assms(1) by (simp add: multi_inv_def)
  have session: "session_at m' TM_ACTIVE = s" using assms(1) by (simp add: s(2) session_at_set)
  have lame: "ts_lame_duck s = ?old"
    using s(1) key_state_init_inv(4) by (fastforce simp: key_state_soft_reset_def Let_def bind_eq_Some_conv get_primary_key_def)
  have scan: "get_key_scan m' 0 = Some (ts_primary s)" "get_key_scan m' 1 = Some ?old"
    by (simp_all add: get_key_scan_def session lame)
  have st: "ks_state (ts_primary s) = S_INITIAL"
    using key_state_soft_reset_inv(2) [OF s(1) session_at_inv [OF assms(1)] assms(2) window] by simp
  then have keys: "\<not> data_key (ts_primary s)" "data_key ?old" using assms(4) by (simp_all add: data_key_def)
  have list: "[0..<KEY_SCAN_SIZE] = 0 # 1 # [2]" by (simp add: KEY_SCAN_SIZE_def upt_rec)
  have "tls_select_encryption_key t m' = Some (Some 1)"
    unfolding tls_select_encryption_key_def
    using keys assms(5) data_key_initialized [OF inv scan(2) keys(2)] scan by (simp add: list)
  moreover have "find_data_key m' (ks_remote_addr (get_primary_key m)) False (ks_key_id (get_primary_key m)) [0..<KEY_SCAN_SIZE] = Some (Some 1)"
    using keys assms(6) scan by (simp add: list link_socket_actual_match_def split: link_addr.splits)
  moreover have "map_option fst (lame_duck_must_die t s wakeup) = Some (now + to_transition_window (tm_opt m) \<le> t)"
    using keys(2) assms(2) window by (auto simp: lame_duck_must_die_def lame data_key_def S_defs)
  ultimately show ?thesis using scan(2) st session unfolding get_primary_key_def by simp
qed

lemma sample_rekey: "tls_session_soft_reset (te_lib sample_env) 100 (sample_tunnel S_GENERATED_KEYS) \<noteq> None"
  by code_simp

theorem rekey_keeps_traffic_witness:
  "\<exists>m'. tls_session_soft_reset (te_lib sample_env) 100 (sample_tunnel S_GENERATED_KEYS) = Some m' \<and>
    tls_select_encryption_key 200 m' = Some (Some 1) \<and>
    map_option fst (lame_duck_must_die 3699 (session_at m' TM_ACTIVE) 0) = Some False \<and>
    map_option fst (lame_duck_must_die 3700 (session_at m' TM_ACTIVE) 0) = Some True"
proof -
  let ?m = "sample_tunnel S_GENERATED_KEYS"
  obtain m' where m': "tls_session_soft_reset (te_lib sample_env) 100 ?m = Some m'" using sample_rekey by blast
  have key: "get_primary_key ?m = sample_key S_GENERATED_KEYS"
    by (simp add: get_primary_key_def sample_tunnel_def session_at_set set_session_def tls_multi_init_def sample_session_def TM_SIZE_def TM_ACTIVE_def)
  have "data_key (get_primary_key ?m)" "ks_remote_addr (get_primary_key ?m) \<noteq> NoAddr"
    "ks_auth_deferred_expire (get_primary_key ?m) = 0" "to_transition_window (tm_opt ?m) = 3600"
    unfolding key by (simp_all add: sample_key_def data_key_def cleared_key_state_def sample_tunnel_def tls_multi_init_def sample_tls_options_def)
  then show ?thesis
    using rekey_keeps_traffic [OF sample_tunnel_inv _ m', of 200 0] rekey_keeps_traffic [OF sample_tunnel_inv _ m', of 3699 0]
      rekey_keeps_traffic [OF sample_tunnel_inv _ m', of 3700 0] m' by simp
qed

end
