(* ===== verification/Spec2Isabelle.thy ===== *)
theory Spec2Isabelle
  imports BufferSafety ScheduleProps PacketIdProps ReliableProps EpochProps FragmentProps TimingProps HashProps MssProps TlsCryptProps KeyExchangeProps SslPktProps TlsProps
begin

text \<open>
  A model of the protocol core of OpenVPN 2, the C program in
  src/openvpn/src/main/cpp/openvpn/src/openvpn/ that the Android application of this repository runs for its
  OpenVPN connections. All file names below are in that directory.

  \<^bold>\<open>The program.\<close> A tunnel has a data channel and a control channel over one UDP or TCP link. The control
  channel is a TLS connection whose records travel through a reliability layer of OpenVPN's own
  (reliable.c), in packets that are authenticated or encrypted with a pre-shared key (ssl\_pkt.c,
  tls\_crypt.c). Over it the peers exchange key material (key method 2 in ssl.c), from which each derives the keys
  of the data channel (crypto.c, crypto\_epoch.c). ssl.c keeps three sessions per tunnel with two keys each, moves
  them through the handshake, and tells the data channel which key a packet is to be sealed or opened with. Data
  packets carry ids that packet\_id.c checks against a window; long ones are cut by fragment.c, and mss.c
  lowers the segment size of TCP connections inside. The server schedules the timers of its clients in a treap
  (schedule.c) and looks clients up in hash tables (list.c). All of it works on \<open>struct buffer\<close> (buffer.c).

  \<^bold>\<open>Conventions\<close> (theory Prelude). A function that may abort (\<open>ASSERT\<close>, \<open>M_FATAL\<close>) or leave an object returns an
  option, and \<open>None\<close> is the abort; an error that the code reports is a value beside it. Machine
  integers are words where their wrap-around matters and integers otherwise; a sum of two C \<open>int\<close>s that nothing
  bounds is \<open>int_add\<close>. The global clock \<open>now\<close> is an
  argument. Memory that only one owner points to is part of that owner; shared structures (the treap) have an
  explicit memory. Pointers into arrays are indices. Crypto library, TLS library, scripts, plugins and the random
  number generator are parameters: records of functions (\<open>aead_lib\<close>, \<open>cipher_lib\<close>, \<open>tls_lib\<close>, \<open>tls_env\<close>) and lists of
  random values. The hypotheses on them are the documented ones, such as that decryption inverts encryption
  and that SHA-256 returns 32 bytes, and each is instantiated in a witness.

  \<^bold>\<open>Theories and files.\<close>
  \<^item> Prelude, CInteger, CircList: integer.h, circ\_list.h.
  \<^item> Buffers (the record \<open>buffer\<close> is \<open>struct buffer\<close>), BufferSafety: buffer.h, buffer.c. Every operation
    stays inside the memory, of the buffer and of the other one of a copy, and keeps the buffer well formed, where no sum in
    \<open>buf_copy_range\<close> overflows; \<open>copy_range_overflow\<close> is a copy outside where one does. A buffer is a double ended queue of bytes, the
    locale \<open>byte_deque\<close>.
  \<^item> PacketId (\<open>packet_id_rec\<close>, \<open>packet_id_send\<close>, \<open>packet_id_persist\<close>), ReplayWindow, PacketIdProps: packet\_id.c. No id is
    accepted twice, ids in order are always accepted, the sender's ids increase, the state on disk. The locale
    \<open>replay_filter\<close> is the contract of a filter, and a single window and a channel of epochs interpret it.
  \<^item> Reliable, ReliableAck, ReliableWindow, ReliableLink, ReliableSend, ReliableProps: reliable.c, session\_id.c
    and the functions of ssl.c that cut and store control packets. \<open>link_step\<close> is one direction of the channel
    over a network that loses, repeats and reorders; what is delivered is a prefix of what was sent, and the channel cannot
    get stuck. Sequence numbers are 32 bit words; the link theorems hold for fewer than 2 to the 31 packets per
    session, and ReliableProps shows what happens at the wrap.
  \<^item> CryptoEpoch (\<open>crypto_options\<close>, \<open>key_ctx\<close>, \<open>epoch_key\<close>), EpochKeys, EpochState, CryptoAead, EpochChannel, AeadChannel,
    EpochSend, EpochProps: crypto\_epoch.c and the AEAD packets of crypto.c. HKDF as RFC 5869 states it, the chain of epoch
    keys and its invariant, replay protection across epochs, the round trip of a packet. \<open>aead_encrypt\<close> returns the \<open>cipher_state\<close> the
    cipher context is reset to; over any run its key is that of the sender's epoch and its nonce that of the packet id,
    and no nonce repeats in an epoch.
  \<^item> CryptoV1, TlsCrypt, TlsCryptProps: the older packets of crypto.c, and tls\_crypt.c.
  \<^item> Timing, TimingProps: otime.c, interval.c, shaper.c. Schedule, ScheduleTree, ScheduleRemove, ScheduleInsert,
    ScheduleProps: schedule.c; the treap refines a map from instances to times with its least entry. HashTable,
    HashRefine, HashIterate, HashProps: list.c; the table refines a finite map. Both use the locale \<open>data_refinement\<close> of
    Refinement.
  \<^item> Fragment, FragmentSend, FragmentRecv, FragmentProps: fragment.c; fragments that arrive in any order give
    the datagram back.
  \<^item> IpProto, Mss, Checksum, MssProps: proto.c, mss.c; adjusting a checksum agrees with computing it again
    for options at even offsets, and at odd ones exactly when the sum of the changes is a multiple of 257.
  \<^item> KeyExchange, KeyExchangeProps: key method 2 in ssl.c and the key expansion; two ends derive keys that fit.
  \<^item> SslPkt, SslPktProps: ssl\_pkt.c; wrapping and unwrapping, tls-crypt-v2 client keys, cookies.
  \<^item> TlsState (\<open>key_state\<close>, \<open>tls_session\<close>, \<open>tls_multi\<close>), TlsSession, TlsProcess, TlsMulti, TlsPackets: the TLS session layer,
    ssl.c with ssl\_common.h, ssl\_verify.c (deferred authentication) and the buffered I/O of ssl\_openssl.c. TlsSteps shows what every
    step of \<open>tls_process\<close> does in the abstract machine \<open>handshake\<close>, TlsInvariant and TlsReachable that every operation keeps
    \<open>multi_inv\<close>, TlsTunnel that all tunnels reachable in \<open>tls_step\<close> satisfy it; the properties are in TlsProps. This is where the
    components meet: \<open>tls_process\<close> calls the reliability layer, control packets, key exchange and the buffers, and the keys
    it makes are \<open>crypto_options\<close> of the data channel.

  \<^bold>\<open>Loops and fuel.\<close> Loops over arrays, lists and counters are recursive functions with a termination proof. Loops
  that end only in a good state are partial functions, whose \<open>None\<close> is not returning: the treap's loops, the output of HKDF,
  deleting through an iterator, and the cutting of outgoing TLS records; the theorems about them prove that a value is
  returned. \<open>process_loop\<close>, the loop of \<open>tls_process\<close>, takes fuel: it is run with \<open>process_bound\<close> (at most 47) plus one, and
  TlsProps proves that this is enough and that more makes no difference, because every round that asks for another one
  lowers the bound.

  \<^bold>\<open>Findings.\<close> The manifest lists what modelling showed. Among them, with theorems: the cookie of a session id is
  compared the wrong way round (ssl\_pkt.c), a received packet of the last future epoch runs into an assertion
  (crypto\_epoch.c), the blocks of received packets are not counted (crypto.c), packet ids that had been accepted before a
  restart are accepted again (packet\_id.c), sequence numbers behind the wrap pass the window check (reliable.c), absent
  credentials are taken for empty ones (ssl.c), and a segment size option at an odd offset breaks the TCP checksum (mss.c). The check of \<open>buf_copy_range\<close> (buffer.h)
  overflows for indices that its one caller does not use.

  \<^bold>\<open>Not modelled.\<close> In the modelled files: messages and logging, the management interface's counters, scripts and plugins
  (their verdicts are arguments), data channel offload, the setting up of TLS contexts, and the debugging code behind
  compile-time options. Whole files: options.c and everything that parses text, socket and event I/O, the
  management interface, tunnel devices, routes and DNS, certificate verification (calls of OpenSSL), address pools, authentication
  tokens, client routing tables, compression and Windows code: they are operating system glue, or further
  components that stand beside this core. The vendored libraries (OpenSSL, Mbed TLS, LZO, LZ4, Asio) are third-party code, and the
  application around the tunnel is written in Kotlin. An address that \<open>addr_defined\<close> refuses is \<open>NoAddr\<close>. The time within one call does
  not change, and memory exhaustion is left out.
\<close>

end
